(* ===== verification/Prelude.thy ===== *)
theory Prelude
  imports Main "HOL-Library.Word" "HOL-Library.Monad_Syntax"
begin

text \<open>
  Shared vocabulary of the development: the machine integer types of the C code, the
  reading of a C object as a bounded list of cells, little-endian byte codecs and the
  generic lemmas on options, lists and words that the component theories share.

  Conventions used by every theory:
  \<^item> \<open>None\<close> as the result of a modelled C function means that the call does not return
    normally: it reads or writes outside an object, dereferences NULL, or runs forever.
    Error codes of the source are ordinary values, never \<open>None\<close>.
  \<^item> a pointer into an array is the list of the cells from the pointer to the end of the
    array, so that running off the list is running off the array.
\<close>

section \<open>Machine types\<close>

type_synonym u8 = "8 word"
type_synonym u16 = "16 word"
type_synonym u32 = "32 word"
type_synonym u64 = "64 word"
type_synonym bytes = "u8 list"

unbundle bit_operations_syntax

lemma uint_eq_zero [simp]: "uint (w :: 'a::len word) = 0 \<longleftrightarrow> w = 0"
  by (simp add: word_uint_eq_iff)

lemma uint_eq_uint [simp]: "uint (v :: 'a::len word) = uint w \<longleftrightarrow> v = w"
  by (simp add: word_uint_eq_iff)

lemma unat_lt_u32: "unat (w :: u32) < 2 ^ 32"
  using unsigned_less[of w, where 'a = nat] by simp

lemma unat_of_nat_u32: "n < 2 ^ 32 \<Longrightarrow> unat (of_nat n :: u32) = n"
  by (simp add: unat_of_nat take_bit_nat_eq_self)

lemma bit_all_ones_u32: "n < 32 \<Longrightarrow> bit (0xffffffff :: u32) n"
proof -
  have "(0xffffffff :: u32) = - 1" by simp
  then show "n < 32 \<Longrightarrow> ?thesis" by (simp only: bit_minus_1_iff) simp
qed

section \<open>Named collections\<close>

named_theorems arr_simps \<open>bounded array access\<close>
named_theorems le_simps \<open>little-endian codecs\<close>

section \<open>Bounded array access\<close>

definition arr_get :: "'a list \<Rightarrow> nat \<Rightarrow> 'a option" where
  "arr_get xs i = (if i < length xs then Some (xs ! i) else None)"

definition arr_set :: "'a list \<Rightarrow> nat \<Rightarrow> 'a \<Rightarrow> 'a list option" where
  "arr_set xs i v = (if i < length xs then Some (xs[i := v]) else None)"

lemma arr_get_Some [arr_simps]: "i < length xs \<Longrightarrow> arr_get xs i = Some (xs ! i)"
  by (simp add: arr_get_def)

lemma arr_set_Some [arr_simps]: "i < length xs \<Longrightarrow> arr_set xs i v = Some (xs[i := v])"
  by (simp add: arr_set_def)

lemma arr_get_eq_Some_iff: "arr_get xs i = Some v \<longleftrightarrow> i < length xs \<and> xs ! i = v"
  by (auto simp: arr_get_def)

lemma arr_set_eq_Some_iff:
  "arr_set xs i v = Some ys \<longleftrightarrow> i < length xs \<and> ys = xs[i := v]"
  by (auto simp: arr_set_def)

lemma arr_get_None [arr_simps]: "length xs \<le> i \<Longrightarrow> arr_get xs i = None"
  by (simp add: arr_get_def)

lemma arr_set_None [arr_simps]: "length xs \<le> i \<Longrightarrow> arr_set xs i v = None"
  by (simp add: arr_set_def)

section \<open>C strings\<close>

text \<open>The bytes of a literal, without and with the terminating NUL.\<close>

definition bytes_of :: "string \<Rightarrow> bytes" where
  "bytes_of s = map of_char s"

definition c_str :: "string \<Rightarrow> bytes" where
  "c_str s = bytes_of s @ [0]"

text \<open>
  \<open>is_cstr s buf\<close>: the object \<open>buf\<close> starts with the NUL-free characters \<open>s\<close> followed
  by the terminator.
\<close>

definition is_cstr :: "bytes \<Rightarrow> bytes \<Rightarrow> bool" where
  "is_cstr s buf \<longleftrightarrow> 0 \<notin> set s \<and> (\<exists>rest. buf = s @ 0 # rest)"

lemma is_cstrI: "0 \<notin> set s \<Longrightarrow> is_cstr s (s @ 0 # rest)"
  by (auto simp: is_cstr_def)

lemma is_cstrE:
  assumes "is_cstr s buf"
  obtains rest where "0 \<notin> set s" and "buf = s @ 0 # rest"
  using assms by (auto simp: is_cstr_def)

lemma is_cstr_unique:
  assumes "is_cstr s buf" and "is_cstr t buf"
  shows "s = t"
proof -
  have "takeWhile (\<lambda>c. c \<noteq> 0) buf = s" if "is_cstr s buf" for s :: bytes
  proof -
    from that obtain rest where "0 \<notin> set s" and buf: "buf = s @ 0 # rest"
      by (rule is_cstrE)
    then have "\<forall>c \<in> set s. c \<noteq> 0" by auto
    then show ?thesis by (simp add: buf takeWhile_append2)
  qed
  with assms show ?thesis by metis
qed

section \<open>Little-endian codecs\<close>

definition le16_bytes :: "u16 \<Rightarrow> bytes" where
  "le16_bytes w = [ucast w, ucast (drop_bit 8 w)]"

definition le16_word :: "bytes \<Rightarrow> u16" where
  "le16_word bs = ucast (bs ! 0) OR push_bit 8 (ucast (bs ! 1))"

definition le32_bytes :: "u32 \<Rightarrow> bytes" where
  "le32_bytes w = [ucast w, ucast (drop_bit 8 w), ucast (drop_bit 16 w), ucast (drop_bit 24 w)]"

definition le32_word :: "bytes \<Rightarrow> u32" where
  "le32_word bs = ucast (bs ! 0) OR push_bit 8 (ucast (bs ! 1))
     OR push_bit 16 (ucast (bs ! 2)) OR push_bit 24 (ucast (bs ! 3))"

lemma length_le16_bytes [simp]: "length (le16_bytes w) = 2"
  by (simp add: le16_bytes_def)

lemma length_le32_bytes [simp]: "length (le32_bytes w) = 4"
  by (simp add: le32_bytes_def)

lemma le16_word_bytes [le_simps]: "le16_word (le16_bytes w @ rest) = w"
  by (rule bit_word_eqI)
    (auto simp: le16_word_def le16_bytes_def nth_append bit_simps not_less)

lemma le32_word_bytes [le_simps]: "le32_word (le32_bytes w @ rest) = w"
proof (rule bit_word_eqI)
  fix n
  assume "n < LENGTH(32)"
  then show "bit (le32_word (le32_bytes w @ rest)) n = bit w n"
    by (cases "n < 16"; cases "n < 24")
      (auto simp: le32_word_def le32_bytes_def nth_append bit_simps not_less)
qed

section \<open>Arrays of 32-bit words as bytes\<close>

definition words_bytes :: "u32 list \<Rightarrow> bytes" where
  "words_bytes ws = concat (map le32_bytes ws)"

fun bytes_words :: "bytes \<Rightarrow> u32 list" where
  "bytes_words (a # b # c # d # bs) = le32_word [a, b, c, d] # bytes_words bs"
| "bytes_words _ = []"

lemma le32_word_bytes_Nil [le_simps]: "le32_word (le32_bytes w) = w"
  using le32_word_bytes[of w "[]"] by simp

lemma words_bytes_Nil [simp]: "words_bytes [] = []"
  by (simp add: words_bytes_def)

lemma words_bytes_Cons [simp]: "words_bytes (w # ws) = le32_bytes w @ words_bytes ws"
  by (simp add: words_bytes_def)

lemma words_bytes_append [simp]: "words_bytes (vs @ ws) = words_bytes vs @ words_bytes ws"
  by (simp add: words_bytes_def)

lemma length_words_bytes [simp]: "length (words_bytes ws) = 4 * length ws"
  by (induction ws) auto

lemma bytes_words_le32 [le_simps]: "bytes_words (le32_bytes w @ bs) = w # bytes_words bs"
  using le32_word_bytes_Nil[of w] by (simp add: le32_bytes_def)

lemma bytes_words_words_bytes [simp]: "bytes_words (words_bytes ws) = ws"
  by (induction ws) (auto simp: le_simps)

lemma bytes_words_append [simp]: "bytes_words (words_bytes vs @ words_bytes ws) = vs @ ws"
  using bytes_words_words_bytes[of "vs @ ws"] by simp

lemma drop_words_bytes: "drop (4 * n) (words_bytes ws) = words_bytes (drop n ws)"
proof (induction n arbitrary: ws)
  case 0
  then show ?case by simp
next
  case (Suc n)
  then show ?case by (cases ws) auto
qed

lemma take_words_bytes: "take (4 * n) (words_bytes ws) = words_bytes (take n ws)"
proof (induction n arbitrary: ws)
  case 0
  then show ?case by simp
next
  case (Suc n)
  then show ?case by (cases ws) auto
qed

end
