(* ===== verification/LibC.thy ===== *)
theory LibC
  imports Prelude "HOL-Library.Signed_Division"
begin

text \<open>
  The kernel's C library: \<open>lib/src/string/*.c\<close> and \<open>lib/src/ctype/isalnum.c\<close>.

  A \<open>char*\<close> argument is the list of bytes from the pointer to the end of the object it
  points into; a function that writes through a pointer returns the new contents of that
  list. \<open>None\<close> is an access past the end of an object (or, in \<open>itoa\<close>, undefined
  arithmetic). The loops keep the order of the source's tests, so that the places where
  these routines differ from the ISO ones (\<open>strcpy\<close> of an empty string, the byte after
  the limit in \<open>strncmp\<close>, the missing padding of \<open>strncpy\<close>) are in the model.
\<close>

section \<open>Definitions\<close>

fun strlen :: "bytes \<Rightarrow> nat option" where
  "strlen [] = None"
| "strlen (c # str) = (if c \<noteq> 0 then map_option Suc (strlen str) else Some 0)"

fun strcmp :: "bytes \<Rightarrow> bytes \<Rightarrow> int option" where
  "strcmp (a # str1) (b # str2) =
     (if a \<noteq> 0 \<and> a = b then strcmp str1 str2 else Some (uint a - uint b))"
| "strcmp _ _ = None"

fun strncmp :: "bytes \<Rightarrow> bytes \<Rightarrow> nat \<Rightarrow> int option" where
  "strncmp (a # str1) (b # str2) num =
     (if num \<noteq> 0 \<and> a \<noteq> 0 \<and> a = b then strncmp str1 str2 (num - 1)
      else Some (uint a - uint b))"
| "strncmp _ _ _ = None"

text \<open>
  \<open>do { *destination = *source; source++, destination++; } while (*source);\<close> and then the
  terminator: the first byte is copied before anything is tested.
\<close>

fun strcpy :: "bytes \<Rightarrow> bytes \<Rightarrow> bytes option" where
  "strcpy (d # destination) (c # c' # source) =
     (if c' \<noteq> 0 then map_option ((#) c) (strcpy destination (c' # source))
      else (case destination of [] \<Rightarrow> None | _ # rest \<Rightarrow> Some (c # 0 # rest)))"
| "strcpy _ _ = None"

fun strncpy :: "bytes \<Rightarrow> bytes \<Rightarrow> nat \<Rightarrow> bytes option" where
  "strncpy destination source 0 = Some destination"
| "strncpy (d # destination) (c # c' # source) (Suc num) =
     (if c' \<noteq> 0 \<and> num \<noteq> 0
      then map_option ((#) c) (strncpy destination (c' # source) num)
      else Some (c # destination))"
| "strncpy _ _ (Suc num) = None"

text \<open>The result of \<open>strrchr\<close> is a pointer into \<open>str\<close>, here its index, or NULL.\<close>

fun strrchr_loop :: "bytes \<Rightarrow> u8 \<Rightarrow> nat \<Rightarrow> nat option \<Rightarrow> nat option option" where
  "strrchr_loop (c # c' # str) character i ret =
     (let ret = (if c = character then Some i else ret)
      in if c' \<noteq> 0 then strrchr_loop (c' # str) character (Suc i) ret else Some ret)"
| "strrchr_loop _ _ _ _ = None"

definition strrchr :: "bytes \<Rightarrow> u8 \<Rightarrow> nat option option" where
  "strrchr str character = strrchr_loop str character 0 None"

text \<open>\<open>while (len-- > 0) *ptr++ = val\<close> with a signed \<open>len\<close>.\<close>

fun memset_loop :: "bytes \<Rightarrow> u8 \<Rightarrow> nat \<Rightarrow> bytes option" where
  "memset_loop ptr val 0 = Some ptr"
| "memset_loop [] val (Suc len) = None"
| "memset_loop (p # ptr) val (Suc len) = map_option ((#) val) (memset_loop ptr val len)"

definition memset :: "bytes \<Rightarrow> u8 \<Rightarrow> int \<Rightarrow> bytes option" where
  "memset dest val len = memset_loop dest val (nat len)"

text \<open>
  \<open>memcpy\<close> copies eight bytes at a time, then four, then single bytes. Each loop returns
  what it copied and the advanced pointers with the size that is left.
\<close>

function memcpy_loop ::
    "nat \<Rightarrow> bytes \<Rightarrow> bytes \<Rightarrow> nat \<Rightarrow> (bytes \<times> bytes \<times> bytes \<times> nat) option" where
  "memcpy_loop w destination source sz =
     (if 0 < w \<and> w \<le> sz then
        (if length destination < w \<or> length source < w then None
         else map_option (\<lambda>(done, rest). (take w source @ done, rest))
                (memcpy_loop w (drop w destination) (drop w source) (sz - w)))
      else Some ([], destination, source, sz))"
  by pat_completeness auto
termination
  by (relation "measure (\<lambda>(w, destination, source, sz). sz)") auto

declare memcpy_loop.simps [simp del]

definition memcpy :: "bytes \<Rightarrow> bytes \<Rightarrow> nat \<Rightarrow> bytes option" where
  "memcpy destination source sz = do {
     (done8, d8, s8, n8) \<leftarrow> memcpy_loop 8 destination source sz;
     (done4, d4, s4, n4) \<leftarrow> memcpy_loop 4 d8 s8 n8;
     (done1, d1, s1, n1) \<leftarrow> memcpy_loop 1 d4 s4 n4;
     Some (done8 @ done4 @ done1 @ d1)
   }"

definition isalnum :: "int \<Rightarrow> int" where
  "isalnum c =
     (if 0x61 \<le> c \<and> c \<le> 0x7a \<or> 0x41 \<le> c \<and> c \<le> 0x5a \<or> 0x30 \<le> c \<and> c \<le> 0x39 then 1 else 0)"

text \<open>
  \<open>itoa\<close>: \<open>value\<close> and \<open>base\<close> are 32-bit signed; negating \<open>INT_MIN\<close>, dividing by zero,
  a digit index outside the sixteen digits and a write past \<open>temp[32]\<close> are \<open>None\<close>. The
  digits are collected in reverse in \<open>temp\<close> and copied back to front into \<open>buffer\<close>.
\<close>

definition itoa_digits :: bytes where
  "itoa_digits = bytes_of ''0123456789ABCDEF''"

function itoa_loop :: "int \<Rightarrow> int \<Rightarrow> bytes \<Rightarrow> bytes option" where
  "itoa_loop value base temp =
     (if 32 \<le> length temp \<or> base = 0 \<or> value smod base < 0 \<or> 16 \<le> value smod base then None
      else
        let temp = temp @ [itoa_digits ! nat (value smod base)];
            value = value sdiv base
        in if 0 < value then itoa_loop value base temp else Some temp)"
  by pat_completeness auto
termination
  by (relation "measure (\<lambda>(value, base, temp). 32 - length temp)") auto

declare itoa_loop.simps [simp del]

definition itoa :: "int \<Rightarrow> bytes \<Rightarrow> int \<Rightarrow> bytes option" where
  "itoa value buffer base =
     (let is_negative = (base = 10 \<and> value < 0)
      in if is_negative \<and> value = - (2 ^ 31) then None
         else do {
           temp \<leftarrow> itoa_loop (if is_negative then - value else value) base [];
           temp \<leftarrow> (if is_negative then (if length temp < 32 then Some (temp @ [0x2D]) else None)
                    else Some temp);
           (if length temp < length buffer
            then Some (rev temp @ 0 # drop (Suc (length temp)) buffer) else None)
         })"

section \<open>What the string routines compute\<close>

lemma strlen_append: "0 \<notin> set s \<Longrightarrow> strlen (s @ 0 # rest) = Some (length s)"
  by (induction s) auto

lemma strlen_cstr: "is_cstr s buf \<Longrightarrow> strlen buf = Some (length s)"
  by (erule is_cstrE) (simp add: strlen_append)

lemma strcmp_append:
  "0 \<notin> set s \<Longrightarrow> 0 \<notin> set t \<Longrightarrow>
    \<exists>r. strcmp (s @ 0 # s') (t @ 0 # t') = Some r \<and> (r = 0 \<longleftrightarrow> s = t)"
proof (induction s arbitrary: t)
  case Nil
  then show ?case by (cases t) auto
next
  case (Cons a s)
  then show ?case by (cases t) auto
qed

lemma strcmp_cstr:
  assumes "is_cstr s a" and "is_cstr t b"
  obtains r where "strcmp a b = Some r" and "r = 0 \<longleftrightarrow> s = t"
  using assms by (metis is_cstrE strcmp_append)

text \<open>
  When the limit is not reached before a NUL, \<open>strncmp\<close> agrees with the ISO function: it
  is zero exactly if the two strings agree on the first \<open>num\<close> characters. Where the two
  strings agree on all of the first \<open>num\<close> characters it looks at one byte more.
\<close>

lemma strncmp_short:
  "0 \<notin> set s \<Longrightarrow> 0 \<notin> set t \<Longrightarrow> length s < num \<or> length t < num \<Longrightarrow>
    \<exists>r. strncmp (s @ 0 # s') (t @ 0 # t') num = Some r \<and> (r = 0 \<longleftrightarrow> s = t)"
proof (induction s arbitrary: t num)
  case Nil
  then show ?case by (cases t) auto
next
  case (Cons a s)
  then show ?case
  proof (cases t)
    case Nil
    with Cons.prems show ?thesis by auto
  next
    case t: (Cons b u)
    from Cons.prems obtain n where n: "num = Suc n" by (cases num) auto
    from Cons.prems t n have "length s < n \<or> length u < n" by auto
    with Cons.prems Cons.IH[of u n] t n show ?thesis by auto
  qed
qed

lemma strncmp_agree:
  "length p = num \<Longrightarrow> 0 \<notin> set p \<Longrightarrow> strncmp (p @ a # s) (p @ b # t) num = Some (uint a - uint b)"
  by (induction p arbitrary: num) auto

lemma strncmp_differ:
  assumes "a \<noteq> b" and "length p < num"
  shows "\<exists>r. strncmp (p @ a # s) (p @ b # t) num = Some r \<and> (0 \<notin> set p \<longrightarrow> r \<noteq> 0)"
  using assms
proof (induction p arbitrary: num)
  case Nil
  then show ?case by auto
next
  case (Cons c p)
  then obtain n where n: "num = Suc n" and "length p < n" by (cases num) auto
  with Cons.IH[of n] Cons.prems(1) show ?case by auto
qed

lemma strcpy_append:
  "s \<noteq> [] \<Longrightarrow> 0 \<notin> set s \<Longrightarrow> length s < length d \<Longrightarrow>
    strcpy d (s @ 0 # rest) = Some (s @ 0 # drop (Suc (length s)) d)"
proof (induction s arbitrary: d)
  case Nil
  then show ?case by simp
next
  case (Cons c s)
  then obtain x d' where d: "d = x # d'" by (cases d) auto
  show ?case
  proof (cases s)
    case Nil
    with Cons.prems d show ?thesis by (cases d') auto
  next
    case (Cons c' s')
    with Cons.prems Cons.IH[of d'] d show ?thesis by auto
  qed
qed

lemma strcpy_too_long:
  "s \<noteq> [] \<Longrightarrow> 0 \<notin> set s \<Longrightarrow> length d \<le> length s \<Longrightarrow> strcpy d (s @ 0 # rest) = None"
proof (induction s arbitrary: d)
  case Nil
  then show ?case by simp
next
  case (Cons c s)
  show ?case
  proof (cases d)
    case Nil
    then show ?thesis by simp
  next
    case d: (Cons x d')
    show ?thesis
    proof (cases s)
      case Nil
      with Cons.prems d show ?thesis by auto
    next
      case (Cons c' s')
      with Cons.prems Cons.IH[of d'] d show ?thesis by auto
    qed
  qed
qed

lemma strncpy_append:
  "s \<noteq> [] \<Longrightarrow> 0 \<notin> set s \<Longrightarrow> min num (length s) \<le> length d \<Longrightarrow>
    strncpy d (s @ 0 # rest) num = Some (take num s @ drop (min num (length s)) d)"
proof (induction s arbitrary: d num)
  case Nil
  then show ?case by simp
next
  case (Cons c s)
  show ?case
  proof (cases num)
    case 0
    then show ?thesis by simp
  next
    case num: (Suc n)
    with Cons.prems obtain x d' where d: "d = x # d'" by (cases d) auto
    show ?thesis
    proof (cases s)
      case Nil
      with Cons.prems d num show ?thesis by auto
    next
      case (Cons c' s')
      with Cons.prems Cons.IH[of n d'] d num show ?thesis by (cases n) auto
    qed
  qed
qed

lemma memset_loop_eq: "n \<le> length p \<Longrightarrow> memset_loop p v n = Some (replicate n v @ drop n p)"
  by (induction p v n rule: memset_loop.induct) auto

lemma memset_eq:
  "nat n \<le> length p \<Longrightarrow> memset p v n = Some (replicate (nat n) v @ drop (nat n) p)"
  by (simp add: memset_def memset_loop_eq)

lemma memset_full: "n = int (length p) \<Longrightarrow> memset p v n = Some (replicate (length p) v)"
  by (simp add: memset_eq)

subsection \<open>The chunked copy\<close>

lemma memcpy_loop_eq:
  "0 < w \<Longrightarrow> n \<le> length d \<Longrightarrow> n \<le> length s \<Longrightarrow>
    memcpy_loop w d s n = (let k = n div w * w in Some (take k s, drop k d, drop k s, n - k))"
proof (induction w d s n rule: memcpy_loop.induct)
  case (1 w d s n)
  show ?case
  proof (cases "w \<le> n")
    case False
    with "1.prems" show ?thesis by (simp add: memcpy_loop.simps[of w d s n])
  next
    case True
    define k where "k = (n - w) div w * w"
    have k: "n div w * w = w + k"
      using True "1.prems" by (simp add: k_def le_div_geq)
    have "memcpy_loop w (drop w d) (drop w s) (n - w) =
        Some (take k (drop w s), drop k (drop w d), drop k (drop w s), n - w - k)"
      using True "1.prems" "1.IH" by (simp add: k_def Let_def)
    then show ?thesis
      using True "1.prems"
      by (simp add: memcpy_loop.simps[of w d s n] k Let_def take_add) (simp add: add.commute)
  qed
qed

lemma memcpy_eq:
  assumes "n \<le> length d" and "n \<le> length s"
  shows "memcpy d s n = Some (take n s @ drop n d)"
proof -
  define a b where "a = n div 8 * 8" and "b = (n - a) div 4 * 4"
  have ab: "a \<le> n" "b \<le> n - a" by (simp_all add: a_def b_def)
  have n: "n = a + (b + (n - a - b))" using ab by simp
  have "take n s = take a s @ take b (drop a s) @ take (n - a - b) (drop (a + b) s)"
    by (subst n, simp only: take_add drop_drop add.commute append.assoc)
  moreover have "drop n d = drop (n - a - b) (drop b (drop a d))"
    using ab by (simp add: add.commute)
  ultimately show ?thesis
    using assms ab
    by (simp add: memcpy_def memcpy_loop_eq Let_def add.commute flip: a_def b_def)
qed

subsection \<open>Number formatting\<close>

text \<open>The reader of a numeral: the value of a digit character and of a digit string.\<close>

definition digit_value :: "u8 \<Rightarrow> int" where
  "digit_value c = (if c \<le> 0x39 then uint c - 0x30 else uint c - 0x37)"

fun numeral_le :: "int \<Rightarrow> bytes \<Rightarrow> int" where
  "numeral_le base [] = 0"
| "numeral_le base (c # cs) = digit_value c + base * numeral_le base cs"

definition numeral_value :: "int \<Rightarrow> bytes \<Rightarrow> int" where
  "numeral_value base cs = numeral_le base (rev cs)"

lemma digit_value_itoa_digits:
  assumes "0 \<le> i" and "i < 16"
  shows "digit_value (itoa_digits ! nat i) = i"
proof -
  have "\<forall>j < 16. digit_value (itoa_digits ! j) = int j"
    by code_simp
  with assms show ?thesis by (metis nat_0_le nat_less_iff of_nat_numeral)
qed

lemma smod_nonneg: "0 \<le> (a::int) \<Longrightarrow> 0 < b \<Longrightarrow> a smod b = a mod b"
  by (cases "a = 0") (simp_all add: signed_modulo_int_eq_modulo_int)

lemma sdiv_nonneg: "0 \<le> (a::int) \<Longrightarrow> 0 < b \<Longrightarrow> a sdiv b = a div b"
  by (cases "a = 0") (simp_all add: signed_divide_int_eq_divide_int)

lemma itoa_loop_value:
  assumes "2 \<le> base" and "base \<le> 16" and "0 \<le> v" and "v < base ^ k"
    and "0 < k" and "length temp + k \<le> 32"
  shows "\<exists>ds. itoa_loop v base temp = Some (temp @ ds) \<and> ds \<noteq> [] \<and> length ds \<le> k
           \<and> numeral_le base ds = v"
  using assms
proof (induction k arbitrary: v temp)
  case 0
  then show ?case by simp
next
  case (Suc k)
  define d where "d = itoa_digits ! nat (v mod base)"
  have "v mod base < base" using Suc.prems by simp
  with Suc.prems(2) have m: "v mod base < 16" by (rule less_le_trans[rotated])
  have "0 \<le> v mod base" using Suc.prems by simp
  note m = this m
  then have d: "digit_value d = v mod base"
    unfolding d_def by (intro digit_value_itoa_digits)
  have step: "itoa_loop v base temp =
      (if 0 < v div base then itoa_loop (v div base) base (temp @ [d])
       else Some (temp @ [d]))"
    using Suc.prems m
    by (subst itoa_loop.simps) (auto simp: smod_nonneg sdiv_nonneg d_def not_le Let_def
        simp del: pos_mod_sign)
  show ?case
  proof (cases "0 < v div base")
    case False
    with Suc.prems have "v div base = 0" by (simp add: pos_imp_zdiv_nonneg_iff order_antisym)
    with Suc.prems have "v mod base = v" by (metis mod_pos_pos_trivial
          add_0 mult_zero_right mult_div_mod_eq)
    with False step d show ?thesis by auto
  next
    case True
    then have "0 < k" using Suc.prems by (cases k) auto
    moreover have "base * (v div base) < base * base ^ k"
      using Suc.prems(4) m(1) mult_div_mod_eq[of base v] unfolding power_Suc by linarith
    then have "v div base < base ^ k"
      using Suc.prems(1) by (simp add: mult_less_cancel_left)
    ultimately obtain ds where ds: "itoa_loop (v div base) base (temp @ [d]) =
        Some ((temp @ [d]) @ ds)" "length ds \<le> k" "numeral_le base ds = v div base"
      using Suc.IH[of "v div base" "temp @ [d]"] Suc.prems True by auto
    then show ?thesis using step True d by auto
  qed
qed

lemma itoa_value_aux:
  assumes "0 \<le> v" and "v < 2 ^ 31" and "2 \<le> base" and "base \<le> 16"
  obtains ds where "itoa_loop v base [] = Some ds" and "ds \<noteq> []" and "length ds \<le> 31"
    and "numeral_le base ds = v"
proof -
  have "v < base ^ 31"
    using assms power_mono[of 2 base 31] by linarith
  with itoa_loop_value[of base v 31 "[]"] assms that show ?thesis by auto
qed

section \<open>Properties\<close>

text \<open>\<open>memcpy\<close> (eight, four and one byte at a time) writes exactly the first \<open>n\<close> bytes of
  the source over the first \<open>n\<close> bytes of the destination, for every size and whatever the
  remainder modulo 8 and 4, and leaves the rest of the destination alone.\<close>

lemma memcpy_copies:
  assumes "n \<le> length destination" and "n \<le> length source"
  shows "memcpy destination source n = Some (take n source @ drop n destination)"
  using assms by (rule memcpy_eq)

text \<open>Formatting a number and reading the numeral back gives the number: for every 32-bit
  \<open>int\<close> other than \<open>INT_MIN\<close> in base 10, and every non-negative one in any base up to 16,
  \<open>itoa\<close> writes a non-empty NUL-terminated numeral (with a leading minus sign for a
  negative number in base 10) whose value is the number, into any buffer of 33 bytes.\<close>

lemma itoa_roundtrip:
  assumes "- (2 ^ 31) < v" and "v < 2 ^ 31" and "2 \<le> base" and "base \<le> 16"
    and "0 \<le> v \<or> base = 10" and "33 \<le> length buffer"
  shows "\<exists>ds rest. ds \<noteq> [] \<and> numeral_value base ds = \<bar>v\<bar> \<and>
     itoa v buffer base = Some ((if v < 0 then [0x2D] else []) @ ds @ 0 # rest)"
proof -
  obtain ds where ds: "itoa_loop \<bar>v\<bar> base [] = Some ds" "ds \<noteq> []" "length ds \<le> 31"
      "numeral_le base ds = \<bar>v\<bar>"
    using assms by (elim itoa_value_aux[of "\<bar>v\<bar>" base, rotated -1]) auto
  show ?thesis
    by (rule exI[of _ "rev ds"]) (use ds assms in \<open>auto simp: itoa_def numeral_value_def\<close>)
qed

text \<open>A negative number printed in base 16 (\<open>vga_printf\<close>'s \<open>%x\<close>) makes \<open>itoa\<close> index its digit
  table with a negative remainder, unless it is a multiple of 16.\<close>

lemma itoa_negative_hex_out_of_bounds:
  assumes "v < 0" and "\<not> 16 dvd v"
  shows "itoa v buffer 16 = None"
proof -
  have "v smod 16 < 0"
    using assms smod_int_compares(3)[of v 16]
    by (simp add: signed_modulo_int_eq_modulo_int dvd_eq_mod_eq_0)
  then show ?thesis by (simp add: itoa_def itoa_loop.simps[of v])
qed

end
