(* ===== verification/Pmm.thy ===== *)
theory Pmm
  imports LibC
begin

text \<open>
  The physical memory manager, \<open>memory/physical/physical_memory_manager.c\<close>: a bitmap of
  page frames (a set bit is an occupied frame), the frame search, allocation and release,
  and the set-up from the multiboot memory map.

  The static \<open>pmm_info\<close> with the flag \<open>is_initialized\<close> is the record \<open>pmm\<close>; every function
  takes it and returns it. The bitmap is a list of 32-bit words; an index outside it is
  \<open>None\<close>. The boot loader's memory is the function \<open>mem\<close> from addresses to bytes.
\<close>

section \<open>State\<close>

datatype pmm_status =
    PMM_SUCCESS
  | PMM_ERROR_INVALID_PARAMS
  | PMM_ERROR_OUT_OF_MEMORY
  | PMM_ERROR_ALREADY_INITIALIZED

datatype page_status = MEMORY_FREE | MEMORY_OCCUPIED

record pmm =
  bitmap :: "u32 list"
  bitmap_size :: u32
  max_pages :: u32
  used_pages :: u32
  is_initialized :: bool

record multiboot_info =
  mem_lower :: u32
  mem_upper :: u32
  mmap_length :: u32
  mmap_addr :: u32

definition PMM_PAGE_SIZE :: u32 where "PMM_PAGE_SIZE = 4096"

definition BITMAP_SIZE :: nat where
  "BITMAP_SIZE = (4 * 1024 * 1024 * 1024 div 4096 + 32 - 1) div 32"

definition pmm_info0 :: pmm where
  "pmm_info0 = \<lparr>bitmap = [], bitmap_size = 0, max_pages = 0, used_pages = 0,
                is_initialized = False\<rparr>"

section \<open>Operations\<close>

definition bit_mask :: "u32 \<Rightarrow> u32" where
  "bit_mask bit_index = push_bit (unat (bit_index mod 32)) 1"

definition set_bit_status :: "u32 \<Rightarrow> page_status \<Rightarrow> pmm \<Rightarrow> pmm option" where
  "set_bit_status bit_index status p = do {
     let arr_index = unat (bit_index div 32);
     w \<leftarrow> arr_get (bitmap p) arr_index;
     b \<leftarrow> arr_set (bitmap p) arr_index
           (if status = MEMORY_FREE then w AND bit_mask bit_index else w OR bit_mask bit_index);
     Some (p\<lparr>bitmap := b\<rparr>)
   }"

definition set_occupied :: "u32 \<Rightarrow> pmm \<Rightarrow> pmm option" where
  "set_occupied bit_index p = set_bit_status bit_index MEMORY_OCCUPIED p"

definition set_free :: "u32 \<Rightarrow> pmm \<Rightarrow> pmm option" where
  "set_free bit_index p = set_bit_status bit_index MEMORY_FREE p"

definition check_if_occupied :: "u32 \<Rightarrow> pmm \<Rightarrow> bool option" where
  "check_if_occupied bit_index p = do {
     w \<leftarrow> arr_get (bitmap p) (unat (bit_index div 32));
     Some (w AND bit_mask bit_index \<noteq> 0)
   }"

text \<open>The loops \<open>for (i = 0; i < num_pages; i++)\<close> of the two region functions.\<close>

fun set_region :: "(u32 \<Rightarrow> pmm \<Rightarrow> pmm option) \<Rightarrow> u32 \<Rightarrow> nat \<Rightarrow> pmm \<Rightarrow> pmm option" where
  "set_region f page 0 p = Some p"
| "set_region f page (Suc n) p = do { p \<leftarrow> f page p; set_region f (page + 1) n p }"

definition pmm_init_region :: "u32 \<Rightarrow> u32 \<Rightarrow> pmm \<Rightarrow> pmm option" where
  "pmm_init_region address len p = do {
     let start_page = address div PMM_PAGE_SIZE;
     let num_pages = len div PMM_PAGE_SIZE;
     p \<leftarrow> set_region set_free start_page (unat num_pages) p;
     Some (p\<lparr>used_pages := used_pages p - num_pages\<rparr>)
   }"

definition pmm_clear_region :: "u32 \<Rightarrow> u32 \<Rightarrow> pmm \<Rightarrow> pmm option" where
  "pmm_clear_region address len p = do {
     let start_page = address div PMM_PAGE_SIZE;
     let num_pages = len div PMM_PAGE_SIZE;
     p \<leftarrow> set_region set_occupied start_page (unat num_pages) p;
     Some (p\<lparr>used_pages := used_pages p + num_pages\<rparr>)
   }"

text \<open>
  The search: the inner loop over the bits of an entry (\<open>n\<close> bits are left), the outer loop
  over the entries. \<open>Some None\<close> is a loop that ends without \<open>return\<close>.
\<close>

fun find_bit_loop :: "pmm \<Rightarrow> nat \<Rightarrow> nat \<Rightarrow> nat \<Rightarrow> u32 option option" where
  "find_bit_loop p entry bitno 0 = Some None"
| "find_bit_loop p entry bitno (Suc n) =
     (let block_index = of_nat (entry * 32 + bitno)
      in if max_pages p \<le> block_index then Some None
         else do {
           occupied \<leftarrow> check_if_occupied block_index p;
           if \<not> occupied then Some (Some block_index) else find_bit_loop p entry (Suc bitno) n
         })"

fun find_entry_loop :: "pmm \<Rightarrow> nat \<Rightarrow> nat \<Rightarrow> u32 option" where
  "find_entry_loop p entry 0 = Some (- 1)"
| "find_entry_loop p entry (Suc n) = do {
     w \<leftarrow> arr_get (bitmap p) entry;
     if w = 0xffffffff then find_entry_loop p (Suc entry) n
     else do {
       r \<leftarrow> find_bit_loop p entry 0 32;
       (case r of Some block_index \<Rightarrow> Some block_index | None \<Rightarrow> find_entry_loop p (Suc entry) n)
     }
   }"

definition find_first_free_block :: "pmm \<Rightarrow> u32 option" where
  "find_first_free_block p =
     (if used_pages p = max_pages p then Some (- 1)
      else find_entry_loop p 0 (unat (max_pages p div 32)))"

definition pmm_allocate_page :: "pmm \<Rightarrow> (u32 \<times> pmm) option" where
  "pmm_allocate_page p = do {
     page_index \<leftarrow> find_first_free_block p;
     if page_index = - 1 then Some (0, p)
     else do {
       p \<leftarrow> set_occupied page_index p;
       Some (page_index, p\<lparr>used_pages := used_pages p + 1\<rparr>)
     }
   }"

definition pmm_deallocate_page :: "u32 \<Rightarrow> pmm \<Rightarrow> pmm option" where
  "pmm_deallocate_page page_index p =
     set_free page_index (p\<lparr>used_pages := used_pages p - 1\<rparr>)"

text \<open>
  The walk over the boot loader's memory map: each entry starts with the size of the rest
  of the entry. A map whose entries lead back into it never ends.
\<close>

definition mem32 :: "(u32 \<Rightarrow> u8) \<Rightarrow> u32 \<Rightarrow> u32" where
  "mem32 mem a = le32_word [mem a, mem (a + 1), mem (a + 2), mem (a + 3)]"

partial_function (option) mmap_loop :: "(u32 \<Rightarrow> u8) \<Rightarrow> u32 \<Rightarrow> u32 \<Rightarrow> pmm \<Rightarrow> pmm option" where
  "mmap_loop mem mmap mmap_end p =
     (if mmap < mmap_end then do {
        p \<leftarrow> (if mem32 mem (mmap + 20) = 1
              then pmm_init_region (mem32 mem (mmap + 4)) (mem32 mem (mmap + 12)) p
              else Some p);
        mmap_loop mem (mmap + mem32 mem mmap + 4) mmap_end p
      } else Some p)"

definition pmm_init ::
    "(u32 \<Rightarrow> u8) \<Rightarrow> multiboot_info option \<Rightarrow> pmm \<Rightarrow> (pmm_status \<times> pmm) option" where
  "pmm_init mem mbi p = (case mbi of
       None \<Rightarrow> Some (PMM_ERROR_ALREADY_INITIALIZED, p)
     | Some mbi \<Rightarrow>
         if is_initialized p then Some (PMM_ERROR_ALREADY_INITIALIZED, p)
         else do {
           let total_memory =
             ((ucast (1024 + mem_lower mbi) + ucast (mem_upper mbi) * 64) * 1024 :: u64);
           let pages = (ucast (total_memory div 4096) :: u32);
           bs \<leftarrow> memset (words_bytes (replicate BITMAP_SIZE 0)) 0xff (int BITMAP_SIZE);
           let p = p\<lparr>max_pages := pages, bitmap_size := pages div 32,
                      bitmap := bytes_words bs, used_pages := pages\<rparr>;
           p \<leftarrow> mmap_loop mem (mmap_addr mbi) (mmap_addr mbi + mmap_length mbi) p;
           p \<leftarrow> pmm_clear_region 0 0x1800000 p;
           p \<leftarrow> set_occupied 0 (p\<lparr>is_initialized := True\<rparr>);
           Some (PMM_SUCCESS, p)
         })"

section \<open>The occupied frames\<close>

text \<open>
  The abstraction of the bitmap: the set of occupied frame numbers. The operations are
  characterised by what they do to it.
\<close>

definition capacity :: "pmm \<Rightarrow> nat" where
  "capacity p = 32 * length (bitmap p)"

definition occ :: "pmm \<Rightarrow> nat \<Rightarrow> bool" where
  "occ p i \<longleftrightarrow> i < capacity p \<and> bit (bitmap p ! (i div 32)) (i mod 32)"

definition occupied :: "pmm \<Rightarrow> nat set" where
  "occupied p = {i. occ p i}"

named_theorems pmm_frame \<open>fields an operation of the frame manager leaves alone\<close>

lemma bit_bit_mask: "bit (bit_mask i) n \<longleftrightarrow> n = unat i mod 32"
  by (auto simp: bit_mask_def bit_simps unat_mod)

lemma and_bit_mask_eq_0: "w AND bit_mask i = 0 \<longleftrightarrow> \<not> bit w (unat i mod 32)"
  by (auto simp: bit_eq_iff[of "w AND bit_mask i" 0] bit_and_iff bit_bit_mask)
    (metis mod_less_divisor zero_less_numeral)

lemma capacity_index: "i < capacity p \<Longrightarrow> i div 32 < length (bitmap p)"
  by (simp add: capacity_def less_mult_imp_div_less mult.commute)

lemma check_if_occupied_eq:
  "unat i < capacity p \<Longrightarrow> check_if_occupied i p = Some (occ p (unat i))"
  by (simp add: check_if_occupied_def arr_simps capacity_index unat_div occ_def
      and_bit_mask_eq_0)

lemma set_occupied_eq:
  "unat i < capacity p \<Longrightarrow>
    set_occupied i p = Some (p\<lparr>bitmap := (bitmap p)[unat i div 32 :=
      bitmap p ! (unat i div 32) OR bit_mask i]\<rparr>)"
  by (simp add: set_occupied_def set_bit_status_def arr_simps capacity_index unat_div Let_def)

lemma set_free_eq:
  "unat i < capacity p \<Longrightarrow>
    set_free i p = Some (p\<lparr>bitmap := (bitmap p)[unat i div 32 :=
      bitmap p ! (unat i div 32) AND bit_mask i]\<rparr>)"
  by (simp add: set_free_def set_bit_status_def arr_simps capacity_index unat_div Let_def)

lemma set_bit_status_frame [pmm_frame]:
  assumes "set_bit_status i st p = Some q"
  shows "capacity q = capacity p" "max_pages q = max_pages p" "used_pages q = used_pages p"
  using assms
  by (auto simp: set_bit_status_def Let_def arr_get_eq_Some_iff arr_set_eq_Some_iff capacity_def
      split: bind_splits)

lemma set_bit_status_defined: "set_bit_status i st p \<noteq> None \<longleftrightarrow> unat i < capacity p"
  by (auto simp: set_bit_status_def Let_def arr_get_def arr_set_def capacity_def unat_div
      less_mult_imp_div_less mult.commute div_less_iff_less_mult)

lemma div_mod_32_eq: "(j::nat) div 32 = i div 32 \<Longrightarrow> j mod 32 = i mod 32 \<longleftrightarrow> j = i"
  by (metis div_mult_mod_eq)

lemma occ_set_occupied:
  assumes "set_occupied i p = Some q"
  shows "occ q j \<longleftrightarrow> j = unat i \<or> occ p j"
proof -
  from assms have i: "unat i < capacity p"
    by (metis set_bit_status_defined set_occupied_def option.distinct(1))
  with assms have q: "q = p\<lparr>bitmap := (bitmap p)[unat i div 32 :=
      bitmap p ! (unat i div 32) OR bit_mask i]\<rparr>"
    by (simp add: set_occupied_eq)
  show ?thesis
  proof (cases "j div 32 = unat i div 32")
    case True
    with i show ?thesis
      using capacity_index[OF i] div_mod_32_eq[OF True]
      by (auto simp: occ_def q capacity_def bit_or_iff bit_bit_mask)
  next
    case False
    with i show ?thesis by (auto simp: occ_def q capacity_def)
  qed
qed

text \<open>
  \<open>set_free\<close> masks with \<open>bit_mask\<close> where it means its complement: in the word of the frame
  it keeps the frame's own bit and clears the other thirty-one.
\<close>

lemma occ_set_free:
  assumes "set_free i p = Some q"
  shows "occ q j \<longleftrightarrow> occ p j \<and> (j div 32 = unat i div 32 \<longrightarrow> j = unat i)"
proof -
  from assms have i: "unat i < capacity p"
    by (metis set_bit_status_defined set_free_def option.distinct(1))
  with assms have q: "q = p\<lparr>bitmap := (bitmap p)[unat i div 32 :=
      bitmap p ! (unat i div 32) AND bit_mask i]\<rparr>"
    by (simp add: set_free_eq)
  show ?thesis
  proof (cases "j div 32 = unat i div 32")
    case True
    with i show ?thesis
      using capacity_index[OF i] div_mod_32_eq[OF True]
      by (auto simp: occ_def q capacity_def bit_and_iff bit_bit_mask)
  next
    case False
    with i show ?thesis by (auto simp: occ_def q capacity_def)
  qed
qed

section \<open>The search\<close>

text \<open>
  The frames the search looks at are those of the first \<open>max_pages / 32\<close> words; it is well
  defined when the bitmap has those words.
\<close>

definition scanned :: "pmm \<Rightarrow> nat" where
  "scanned p = unat (max_pages p) div 32 * 32"

definition pmm_wf :: "pmm \<Rightarrow> bool" where
  "pmm_wf p \<longleftrightarrow> scanned p \<le> capacity p"

lemma scanned_le_max: "scanned p \<le> unat (max_pages p)"
  by (simp add: scanned_def)

lemma scanned_lt: "scanned p < 2 ^ 32"
  using scanned_le_max[of p] unat_lt_u32[of "max_pages p"] by (simp add: le_less_trans)

text \<open>\<open>search_result p a b r\<close>: \<open>r\<close> is the least free frame of \<open>a..<b\<close>, or \<open>None\<close> if there is none.\<close>

definition search_result :: "pmm \<Rightarrow> nat \<Rightarrow> nat \<Rightarrow> u32 option \<Rightarrow> bool" where
  "search_result p a b r \<longleftrightarrow> (case r of
       None \<Rightarrow> \<forall>j. a \<le> j \<and> j < b \<longrightarrow> occ p j
     | Some i \<Rightarrow> a \<le> unat i \<and> unat i < b \<and> \<not> occ p (unat i)
                 \<and> (\<forall>j. a \<le> j \<and> j < unat i \<longrightarrow> occ p j))"

lemma search_result_step:
  assumes "occ p a" and "search_result p (Suc a) b r"
  shows "search_result p a b r"
  using assms unfolding search_result_def
  by (auto split: option.splits) (metis le_eq_less_or_eq less_eq_Suc_le)+

lemma search_result_append:
  assumes "search_result p a m None" and "search_result p m b r" and "a \<le> m"
  shows "search_result p a b r"
  using assms unfolding search_result_def
  by (auto split: option.splits) (metis not_le)+

lemma find_bit_loop_result:
  assumes "pmm_wf p" and "entry * 32 + bitno + n \<le> scanned p"
  shows "\<exists>r. find_bit_loop p entry bitno n = Some r \<and>
    search_result p (entry * 32 + bitno) (entry * 32 + bitno + n) r"
  using assms(2)
proof (induction n arbitrary: bitno)
  case 0
  then show ?case by (auto simp: search_result_def)
next
  case (Suc n)
  define a where "a = entry * 32 + bitno"
  have a: "a < scanned p" using Suc.prems by (simp add: a_def)
  then have u: "unat (of_nat a :: u32) = a"
    using scanned_lt[of p] by (intro unat_of_nat_u32) simp
  have "a < unat (max_pages p)" using a scanned_le_max[of p] by simp
  then have lt: "\<not> max_pages p \<le> of_nat a" by (simp add: word_le_nat_alt u)
  have chk: "check_if_occupied (of_nat a) p = Some (occ p a)"
    using a assms(1) u by (simp add: check_if_occupied_eq pmm_wf_def)
  have step: "find_bit_loop p entry bitno (Suc n) =
      (if \<not> occ p a then Some (Some (of_nat a)) else find_bit_loop p entry (Suc bitno) n)"
    by (simp only: find_bit_loop.simps Let_def lt chk bind.bind_lunit if_False flip: a_def)
  show ?case
    unfolding a_def[symmetric] add.assoc[symmetric]
  proof (cases "occ p a")
    case False
    then have "search_result p a (a + Suc n) (Some (of_nat a))"
      by (auto simp: search_result_def u)
    with False step show "\<exists>r. find_bit_loop p entry bitno (Suc n) = Some r \<and>
        search_result p a (a + Suc n) r" by auto
  next
    case True
    obtain r where r: "find_bit_loop p entry (Suc bitno) n = Some r"
      and sr: "search_result p (Suc a) (a + Suc n) r"
      using Suc.IH[of "Suc bitno"] Suc.prems by (auto simp: a_def)
    from True sr have "search_result p a (a + Suc n) r" by (rule search_result_step)
    with r True step show "\<exists>r. find_bit_loop p entry bitno (Suc n) = Some r \<and>
        search_result p a (a + Suc n) r" by auto
  qed
qed

lemma occ_full_word:
  assumes "bitmap p ! e = 0xffffffff" and "e < length (bitmap p)"
  shows "search_result p (e * 32) (e * 32 + 32) None"
proof -
  have "occ p j" if "e * 32 \<le> j" "j < e * 32 + 32" for j
  proof -
    have "j div 32 = e" using that by simp
    moreover have "bit (0xffffffff :: u32) (j mod 32)"
      by (intro bit_all_ones_u32) simp
    ultimately show ?thesis
      using that assms by (simp add: occ_def capacity_def)
  qed
  then show ?thesis by (simp add: search_result_def)
qed

lemma find_entry_loop_result:
  assumes "pmm_wf p" and "(entry + n) * 32 \<le> scanned p"
  shows "\<exists>r. find_entry_loop p entry n = Some (case r of None \<Rightarrow> - 1 | Some i \<Rightarrow> i) \<and>
    search_result p (entry * 32) ((entry + n) * 32) r"
  using assms(2)
proof (induction n arbitrary: entry)
  case 0
  show ?case by (rule exI[of _ None]) (auto simp: search_result_def)
next
  case (Suc n)
  let ?m = "entry * 32 + 32" and ?b = "(entry + Suc n) * 32"
  have e: "entry < length (bitmap p)"
    using Suc.prems assms(1) by (simp add: pmm_wf_def capacity_def)
  obtain r where r: "find_entry_loop p (Suc entry) n = Some (case r of None \<Rightarrow> - 1 | Some i \<Rightarrow> i)"
    and sr: "search_result p ?m ?b r"
    using Suc.IH[of "Suc entry"] Suc.prems by (auto simp: add.commute)
  show ?case
  proof (cases "bitmap p ! entry = 0xffffffff")
    case True
    have "search_result p (entry * 32) ?b r"
      by (rule search_result_append[OF occ_full_word[OF True e] sr]) simp
    with True r e show ?thesis by (auto simp: arr_simps)
  next
    case False
    obtain q where q: "find_bit_loop p entry 0 32 = Some q"
      and sq: "search_result p (entry * 32) ?m q"
      using find_bit_loop_result[OF assms(1), of entry 0 32] Suc.prems by auto
    show ?thesis
    proof (cases q)
      case None
      have "search_result p (entry * 32) ?b r"
        by (rule search_result_append[OF _ sr]) (use sq None in auto)
      with False None q r e show ?thesis by (auto simp: arr_simps)
    next
      case (Some i)
      have "search_result p (entry * 32) ?b q"
        using sq Some by (auto simp: search_result_def)
      with False Some q e show ?thesis by (auto simp: arr_simps intro!: exI[of _ q])
    qed
  qed
qed

lemma find_first_free_block_result:
  assumes "pmm_wf p" and "used_pages p \<noteq> max_pages p"
  obtains r where "find_first_free_block p = Some (case r of None \<Rightarrow> - 1 | Some i \<Rightarrow> i)"
    and "search_result p 0 (scanned p) r"
proof -
  have "unat (max_pages p div 32) * 32 = scanned p" by (simp add: scanned_def unat_div)
  with find_entry_loop_result[OF assms(1), of 0 "unat (max_pages p div 32)"] assms(2) that
  show ?thesis by (auto simp: find_first_free_block_def)
qed

lemma search_result_not_minus_1:
  assumes "search_result p 0 (scanned p) (Some i)"
  shows "i \<noteq> - 1"
proof
  assume "i = - 1"
  then have "unat i = 2 ^ 32 - 1"
    by (simp add: unsigned_minus_1_eq_mask mask_eq_exp_minus_1)
  moreover have "unat i < unat (max_pages p)"
    using assms scanned_le_max[of p] by (simp add: search_result_def)
  ultimately show False using unat_lt_u32[of "max_pages p"] by simp
qed

section \<open>Allocation\<close>

lemma pmm_allocate_page_cases:
  assumes "pmm_wf p"
  obtains (full) "pmm_allocate_page p = Some (0, p)"
      and "used_pages p = max_pages p \<or> (\<forall>j < scanned p. occ p j)"
  | (page) i q where "pmm_allocate_page p = Some (i, q)" and "unat i < scanned p"
      and "\<not> occ p (unat i)" and "\<forall>j < unat i. occ p j"
      and "occupied q = insert (unat i) (occupied p)"
      and "used_pages q = used_pages p + 1" and "used_pages p \<noteq> max_pages p"
      and "max_pages q = max_pages p" and "capacity q = capacity p"
proof (cases "used_pages p = max_pages p")
  case True
  then show ?thesis by (intro full) (simp_all add: pmm_allocate_page_def find_first_free_block_def)
next
  case False
  obtain r where r: "find_first_free_block p = Some (case r of None \<Rightarrow> - 1 | Some i \<Rightarrow> i)"
    and sr: "search_result p 0 (scanned p) r"
    using find_first_free_block_result[OF assms False] by blast
  show ?thesis
  proof (cases r)
    case None
    with r sr show ?thesis
      by (intro full) (simp_all add: pmm_allocate_page_def search_result_def)
  next
    case (Some i)
    with sr have i: "unat i < scanned p" "\<not> occ p (unat i)" "\<forall>j < unat i. occ p j" "i \<noteq> - 1"
      using search_result_not_minus_1 by (auto simp: search_result_def)
    with assms have "unat i < capacity p" by (simp add: pmm_wf_def)
    then obtain q where q: "set_occupied i p = Some q" by (simp add: set_occupied_eq)
    have "occupied (q\<lparr>used_pages := used_pages q + 1\<rparr>) = insert (unat i) (occupied p)"
      using occ_set_occupied[OF q] by (auto simp: occupied_def occ_def capacity_def)
    moreover have "max_pages q = max_pages p" "capacity q = capacity p"
        "used_pages q = used_pages p"
      using q by (auto simp: set_occupied_def pmm_frame)
    ultimately show ?thesis
      using r i q False Some
      by (intro page[of i "q\<lparr>used_pages := used_pages q + 1\<rparr>"])
        (simp_all add: pmm_allocate_page_def capacity_def)
  qed
qed

text \<open>
  What a client of a frame allocator relies on: the state invariant is kept, a frame
  number other than 0 is fresh and becomes used, and 0 reports failure with no effect.
\<close>

locale page_allocator =
  fixes alloc :: "'s \<Rightarrow> (u32 \<times> 's) option"
    and used :: "'s \<Rightarrow> nat set"
    and inv :: "'s \<Rightarrow> bool"
  assumes alloc_total: "inv s \<Longrightarrow> \<exists>i s'. alloc s = Some (i, s')"
    and alloc_fresh: "inv s \<Longrightarrow> alloc s = Some (i, s') \<Longrightarrow> i \<noteq> 0 \<Longrightarrow>
          unat i \<notin> used s \<and> used s' = insert (unat i) (used s)"
    and alloc_fail: "inv s \<Longrightarrow> alloc s = Some (0, s') \<Longrightarrow> s' = s"
    and alloc_inv: "inv s \<Longrightarrow> alloc s = Some (i, s') \<Longrightarrow> inv s'"

text \<open>\<open>n\<close> calls in a row, with their answers.\<close>

fun alloc_calls :: "('s \<Rightarrow> (u32 \<times> 's) option) \<Rightarrow> nat \<Rightarrow> 's \<Rightarrow> (u32 list \<times> 's) option" where
  "alloc_calls f 0 s = Some ([], s)"
| "alloc_calls f (Suc n) s = do {
     (i, s) \<leftarrow> f s;
     (is, s) \<leftarrow> alloc_calls f n s;
     Some (i # is, s)
   }"

context page_allocator
begin

lemma calls_total: "inv s \<Longrightarrow> \<exists>is s'. alloc_calls alloc n s = Some (is, s') \<and> length is = n"
proof (induction n arbitrary: s)
  case 0
  then show ?case by simp
next
  case (Suc n)
  then obtain i s' where i: "alloc s = Some (i, s')" using alloc_total by blast
  with Suc alloc_inv obtain js s'' where "alloc_calls alloc n s' = Some (js, s'')" "length js = n"
    by blast
  with i show ?case by auto
qed

lemma calls_fresh:
  assumes "inv s" and "alloc_calls alloc n s = Some (is, s')"
  shows "inv s' \<and> distinct (filter (\<lambda>i. i \<noteq> 0) is) \<and>
    (\<forall>i \<in> set is. i \<noteq> 0 \<longrightarrow> unat i \<notin> used s) \<and>
    used s' = used s \<union> {unat i |i. i \<in> set is \<and> i \<noteq> 0}"
  using assms
proof (induction n arbitrary: s "is")
  case 0
  then show ?case by auto
next
  case (Suc n)
  from Suc.prems(2) obtain i t js where i: "alloc s = Some (i, t)"
    and js: "alloc_calls alloc n t = Some (js, s')" and "is": "is = i # js"
    by (auto split: bind_splits)
  have IH: "inv s' \<and> distinct (filter (\<lambda>i. i \<noteq> 0) js) \<and>
      (\<forall>i \<in> set js. i \<noteq> 0 \<longrightarrow> unat i \<notin> used t) \<and>
      used s' = used t \<union> {unat i |i. i \<in> set js \<and> i \<noteq> 0}"
    using Suc.IH[OF alloc_inv[OF Suc.prems(1) i] js] .
  show ?case
  proof (cases "i = 0")
    case True
    then have "t = s" using alloc_fail[OF Suc.prems(1)] i by simp
    with IH True show ?thesis by (auto simp: "is")
  next
    case False
    then have "unat i \<notin> used s" "used t = insert (unat i) (used s)"
      using alloc_fresh[OF Suc.prems(1) i] by auto
    with IH False show ?thesis by (auto simp: "is")
  qed
qed

end

text \<open>The manager is such an allocator as long as frame 0 is marked (\<open>pmm_init\<close> sees to it).\<close>

definition pmm_inv :: "pmm \<Rightarrow> bool" where
  "pmm_inv p \<longleftrightarrow> pmm_wf p \<and> occ p 0"

lemma scanned_eqI: "max_pages q = max_pages p \<Longrightarrow> scanned q = scanned p"
  by (simp add: scanned_def)

interpretation pmm_alloc: page_allocator pmm_allocate_page occupied pmm_inv
proof
  fix p
  assume inv: "pmm_inv p"
  then have wf: "pmm_wf p" by (simp add: pmm_inv_def)
  show "\<exists>i q. pmm_allocate_page p = Some (i, q)"
    by (rule pmm_allocate_page_cases[OF wf]) auto
  fix i q
  assume q: "pmm_allocate_page p = Some (i, q)"
  show "unat i \<notin> occupied p \<and> occupied q = insert (unat i) (occupied p)" if "i \<noteq> 0"
    by (rule pmm_allocate_page_cases[OF wf]) (use q that in \<open>auto simp: occupied_def\<close>)
  show "pmm_inv q"
  proof (rule pmm_allocate_page_cases[OF wf])
    assume "pmm_allocate_page p = Some (0, p)"
    with q inv show ?thesis by simp
  next
    fix j r
    assume r: "pmm_allocate_page p = Some (j, r)" "occupied r = insert (unat j) (occupied p)"
      "max_pages r = max_pages p" "capacity r = capacity p"
    then have "occ r 0" using inv by (auto simp: pmm_inv_def occupied_def)
    with r q wf show ?thesis by (simp add: pmm_inv_def pmm_wf_def scanned_eqI[of r p])
  qed
next
  fix p q
  assume inv: "pmm_inv p" and q: "pmm_allocate_page p = Some (0, q)"
  then have wf: "pmm_wf p" by (simp add: pmm_inv_def)
  show "q = p"
    by (rule pmm_allocate_page_cases[OF wf]) (use q inv in \<open>auto simp: pmm_inv_def\<close>)
qed

section \<open>Regions and initialisation\<close>

lemma unat_Suc_u32: "unat (i :: u32) + 1 < 2 ^ 32 \<Longrightarrow> unat (i + 1) = unat i + 1"
  by (simp add: unat_word_ariths(1))

text \<open>
  A loop over a region, for any step that is defined inside the bitmap and changes the
  occupied frames by a fixed test.
\<close>

lemma set_region_induct:
  assumes step: "\<And>i p. unat i < capacity p \<Longrightarrow>
      \<exists>q. f i p = Some q \<and> capacity q = capacity p \<and> max_pages q = max_pages p \<and>
        used_pages q = used_pages p \<and> (\<forall>j. occ q j \<longleftrightarrow> upd (unat i) j (occ p j))"
    and "unat i + n \<le> capacity p" and "capacity p < 2 ^ 32"
  shows "\<exists>q. set_region f i n p = Some q \<and> capacity q = capacity p \<and>
      max_pages q = max_pages p \<and> used_pages q = used_pages p \<and>
      (\<forall>j. occ q j \<longleftrightarrow> fold (\<lambda>k. upd k j) [unat i..<unat i + n] (occ p j))"
  using assms(2,3)
proof (induction n arbitrary: i p)
  case 0
  then show ?case by simp
next
  case (Suc n)
  from Suc.prems have i: "unat i < capacity p" and i1: "unat (i + 1) = unat i + 1"
    by (simp_all add: unat_Suc_u32)
  from step[OF i] obtain q where q: "f i p = Some q" "capacity q = capacity p"
      "max_pages q = max_pages p" "used_pages q = used_pages p"
      "\<forall>j. occ q j \<longleftrightarrow> upd (unat i) j (occ p j)" by blast
  have up: "[unat i..<unat i + Suc n] = unat i # [unat (i + 1)..<unat (i + 1) + n]"
    by (simp add: i1 upt_rec)
  from Suc.IH[of "i + 1" q] Suc.prems q i1 show ?case
    unfolding up by auto
qed

lemma set_region_free:
  assumes "unat i + n \<le> capacity p" and "capacity p < 2 ^ 32"
  obtains q where "set_region set_free i n p = Some q" and "capacity q = capacity p"
    and "max_pages q = max_pages p" and "used_pages q = used_pages p"
    and "\<And>j. occ q j \<longleftrightarrow> occ p j \<and> (\<forall>k \<in> {unat i..<unat i + n}. j div 32 = k div 32 \<longrightarrow> j = k)"
proof -
  let ?upd = "\<lambda>k j b. b \<and> (j div 32 = k div 32 \<longrightarrow> j = k)"
  have step: "\<exists>q. set_free i p = Some q \<and> capacity q = capacity p \<and> max_pages q = max_pages p \<and>
      used_pages q = used_pages p \<and> (\<forall>j. occ q j \<longleftrightarrow> ?upd (unat i) j (occ p j))"
    if i: "unat i < capacity p" for i p
  proof -
    obtain q where q: "set_free i p = Some q" using i by (simp add: set_free_eq)
    with occ_set_free[OF q] show ?thesis by (auto simp: set_free_def pmm_frame)
  qed
  have fold: "fold (\<lambda>k. ?upd k j) ks b \<longleftrightarrow> b \<and> (\<forall>k \<in> set ks. j div 32 = k div 32 \<longrightarrow> j = k)"
    for j ks b by (induction ks arbitrary: b) auto
  from set_region_induct[of set_free ?upd i n p, OF step assms] that show ?thesis
    by (auto simp: fold)
qed

lemma set_region_occupied:
  assumes "unat i + n \<le> capacity p" and "capacity p < 2 ^ 32"
  obtains q where "set_region set_occupied i n p = Some q" and "capacity q = capacity p"
    and "max_pages q = max_pages p" and "used_pages q = used_pages p"
    and "\<And>j. occ q j \<longleftrightarrow> occ p j \<or> j \<in> {unat i..<unat i + n}"
proof -
  let ?upd = "\<lambda>k j b. j = k \<or> b"
  have step: "\<exists>q. set_occupied i p = Some q \<and> capacity q = capacity p \<and>
      max_pages q = max_pages p \<and> used_pages q = used_pages p \<and>
      (\<forall>j. occ q j \<longleftrightarrow> ?upd (unat i) j (occ p j))"
    if i: "unat i < capacity p" for i p
  proof -
    obtain q where q: "set_occupied i p = Some q" using i by (simp add: set_occupied_eq)
    with occ_set_occupied[OF q] show ?thesis by (auto simp: set_occupied_def pmm_frame)
  qed
  have fold: "fold (\<lambda>k. ?upd k j) ks b \<longleftrightarrow> b \<or> j \<in> set ks"
    for j ks b by (induction ks arbitrary: b) auto
  from set_region_induct[of set_occupied ?upd i n p, OF step assms] that show ?thesis
    by (auto simp: fold)
qed

lemma occ_update [simp]:
  "occ (p\<lparr>used_pages := u\<rparr>) j = occ p j" "capacity (p\<lparr>used_pages := u\<rparr>) = capacity p"
  "occ (p\<lparr>is_initialized := f\<rparr>) j = occ p j" "capacity (p\<lparr>is_initialized := f\<rparr>) = capacity p"
  by (simp_all add: occ_def capacity_def)

lemma set_region_capacity:
  "set_region set_free i n p = Some q \<Longrightarrow> capacity q = capacity p"
  by (induction n arbitrary: i p) (auto simp: set_free_def pmm_frame split: bind_splits)

lemma mmap_loop_capacity:
  assumes "mmap_loop mem a e p = Some q"
  shows "capacity q = capacity p"
proof (rule mmap_loop.raw_induct[where P = "\<lambda>mem a e p q. capacity q = capacity p", OF _ assms])
  fix f mem a e p q
  assume IH: "\<And>mem a e p q. f mem a e p = Some q \<Longrightarrow> capacity q = capacity p"
    and eq: "(if a < e then do {
        p \<leftarrow> (if mem32 mem (a + 20) = 1
              then pmm_init_region (mem32 mem (a + 4)) (mem32 mem (a + 12)) p
              else Some p);
        f mem (a + mem32 mem a + 4) e p } else Some p) = Some q"
  then show "capacity q = capacity p"
    by (fastforce simp: pmm_init_region_def Let_def dest: set_region_capacity
        split: if_splits bind_splits)
qed

lemma memset_bitmap:
  "memset (words_bytes (replicate BITMAP_SIZE 0)) 0xff (int BITMAP_SIZE) =
     Some (words_bytes (replicate 8192 0xffffffff @ replicate 24576 0))"
proof -
  have B: "BITMAP_SIZE = 4 * 8192" by (simp add: BITMAP_SIZE_def)
  have ones: "replicate (4 * n) 0xff = words_bytes (replicate n (0xffffffff :: u32))" for n
  proof (induction n)
    case (Suc n)
    have "le32_bytes 0xffffffff = [0xff, 0xff, 0xff, 0xff]"
      by (simp add: le32_bytes_def)
    moreover have "replicate 4 x = [x, x, x, x]" for x :: u8
      by (simp add: eval_nat_numeral)
    ultimately show ?case using Suc by (simp add: replicate_add)
  qed simp
  have "memset (words_bytes (replicate BITMAP_SIZE 0)) 0xff (int BITMAP_SIZE) =
      Some (replicate (4 * 8192) 0xff @ drop (4 * 8192) (words_bytes (replicate BITMAP_SIZE 0)))"
    by (subst memset_eq) (simp_all add: B)
  also have "\<dots> = Some (words_bytes (replicate 8192 0xffffffff) @
      words_bytes (replicate 24576 0))"
    unfolding ones drop_words_bytes by (simp add: B)
  finally show ?thesis by (simp only: words_bytes_append)
qed

definition pmm_boot :: "multiboot_info \<Rightarrow> pmm \<Rightarrow> pmm" where
  "pmm_boot mbi p =
     (let pages = ucast (((ucast (1024 + mem_lower mbi) + ucast (mem_upper mbi) * 64) * 1024 :: u64)
                         div 4096)
      in p\<lparr>max_pages := pages, bitmap_size := pages div 32,
           bitmap := replicate 8192 0xffffffff @ replicate 24576 0, used_pages := pages\<rparr>)"

lemma pmm_init_eq:
  "\<not> is_initialized p \<Longrightarrow> pmm_init mem (Some mbi) p = do {
     p \<leftarrow> mmap_loop mem (mmap_addr mbi) (mmap_addr mbi + mmap_length mbi) (pmm_boot mbi p);
     p \<leftarrow> pmm_clear_region 0 0x1800000 p;
     p \<leftarrow> set_occupied 0 (p\<lparr>is_initialized := True\<rparr>);
     Some (PMM_SUCCESS, p)
   }"
  by (simp add: pmm_init_def memset_bitmap pmm_boot_def Let_def)

lemma capacity_pmm_boot: "capacity (pmm_boot mbi p) = 2 ^ 20"
  by (simp add: pmm_boot_def Let_def capacity_def)

lemma occ_pmm_boot: "occ (pmm_boot mbi p) j \<longleftrightarrow> j < 2 ^ 18"
proof -
  have "bitmap (pmm_boot mbi p) = replicate 8192 0xffffffff @ replicate 24576 0"
    by (simp add: pmm_boot_def Let_def)
  then show ?thesis
    using bit_all_ones_u32[of "j mod 32"]
    by (auto simp: occ_def capacity_pmm_boot nth_append)
qed

section \<open>Properties\<close>

text \<open>C17. \<open>pmm_allocate_page\<close> hands out the lowest free frame that it scans: on a bitmap that covers
  the scanned frames it always returns; a non-zero answer is a frame that was free, all
  lower frames were occupied, and afterwards exactly this frame is occupied in addition; an
  answer of 0 with frame 0 taken means nothing changed and there was nothing to hand out.\<close>

theorem pmm_allocate_page_lowest_free:
  assumes "pmm_wf p" and "occ p 0"
  shows "\<exists>i q. pmm_allocate_page p = Some (i, q) \<and>
    (if i = 0 then q = p \<and> (used_pages p = max_pages p \<or> (\<forall>j < scanned p. occ p j))
     else unat i < unat (max_pages p) \<and> \<not> occ p (unat i) \<and> (\<forall>j < unat i. occ p j) \<and>
          occupied q = insert (unat i) (occupied p) \<and> used_pages q = used_pages p + 1)"
proof (rule pmm_allocate_page_cases[OF assms(1)], goal_cases full page)
  case full
  then show ?thesis by auto
next
  case (page i q)
  moreover have "i \<noteq> 0" using page(3) assms(2) by auto
  ultimately show ?thesis using scanned_le_max[of p] by auto
qed

definition pmm_example :: pmm where
  "pmm_example = \<lparr>bitmap = [0xffffffff, 0x7], bitmap_size = 2, max_pages = 64, used_pages = 35,
                   is_initialized = True\<rparr>"

lemma pmm_example_ok: "pmm_wf pmm_example" "occ pmm_example 0"
  using bit_all_ones_u32[of 0]
  by (simp_all add: pmm_example_def pmm_wf_def scanned_def capacity_def occ_def)

theorem pmm_allocate_page_lowest_free_witness:
  "pmm_wf pmm_example \<and> occ pmm_example 0 \<and>
   (\<exists>i q. pmm_allocate_page pmm_example = Some (i, q) \<and>
    (if i = 0 then q = pmm_example \<and> (used_pages pmm_example = max_pages pmm_example
                     \<or> (\<forall>j < scanned pmm_example. occ pmm_example j))
     else unat i < unat (max_pages pmm_example) \<and> \<not> occ pmm_example (unat i) \<and>
          (\<forall>j < unat i. occ pmm_example j) \<and>
          occupied q = insert (unat i) (occupied pmm_example) \<and>
          used_pages q = used_pages pmm_example + 1))"
  using pmm_allocate_page_lowest_free[OF pmm_example_ok] pmm_example_ok by blast

text \<open>C31. No frame is handed out twice: in any number of successive calls of \<open>pmm_allocate_page\<close>
  the non-zero answers are pairwise distinct and none of them was occupied at the start.\<close>

theorem pmm_allocations_distinct:
  assumes "pmm_inv p" and "alloc_calls pmm_allocate_page n p = Some (is, q)"
  shows "distinct (filter (\<lambda>i. i \<noteq> 0) is) \<and> (\<forall>i \<in> set is. i \<noteq> 0 \<longrightarrow> unat i \<notin> occupied p)"
  using pmm_alloc.calls_fresh[OF assms] by blast

theorem pmm_allocations_distinct_witness:
  "\<exists>is q. alloc_calls pmm_allocate_page 2 pmm_example = Some (is, q) \<and>
    distinct (filter (\<lambda>i. i \<noteq> 0) is) \<and> (\<forall>i \<in> set is. i \<noteq> 0 \<longrightarrow> unat i \<notin> occupied pmm_example)"
proof -
  have inv: "pmm_inv pmm_example" using pmm_example_ok by (simp add: pmm_inv_def)
  then obtain "is" q where "alloc_calls pmm_allocate_page 2 pmm_example = Some (is, q)"
    using pmm_alloc.calls_total by blast
  with pmm_allocations_distinct[OF inv this] show ?thesis by blast
qed

text \<open>\<open>set_free\<close> does not free its frame. It masks the word with the frame's bit instead of
  its complement: the frame itself keeps its state, and the other 31 frames of its word,
  occupied or not, become free.\<close>

lemma set_free_frees_the_others:
  assumes "unat i < capacity p"
  shows "\<exists>q. set_free i p = Some q \<and> (occ q (unat i) \<longleftrightarrow> occ p (unat i)) \<and>
    (\<forall>j. j \<noteq> unat i \<and> j div 32 = unat i div 32 \<longrightarrow> \<not> occ q j) \<and>
    (\<forall>j. j div 32 \<noteq> unat i div 32 \<longrightarrow> (occ q j \<longleftrightarrow> occ p j))"
proof -
  from assms obtain q where q: "set_free i p = Some q" by (simp add: set_free_eq)
  with occ_set_free[OF q] show ?thesis by auto
qed

text \<open>What \<open>pmm_init_region\<close> does to a region inside the bitmap: afterwards a frame is
  occupied exactly if it was occupied before and no other frame of its 32-frame word belongs
  to the region. So a region that has at least two frames in every word it touches is freed
  completely, together with every frame that merely shares a word with it.\<close>

lemma pmm_init_region_effect:
  assumes "unat (address div 4096) + unat (len div 4096) \<le> capacity p" and "capacity p < 2 ^ 32"
  shows "\<exists>q. pmm_init_region address len p = Some q \<and>
    used_pages q = used_pages p - len div 4096 \<and>
    (\<forall>j. occ q j \<longleftrightarrow> occ p j \<and>
      (\<forall>k \<in> {unat (address div 4096)..<unat (address div 4096) + unat (len div 4096)}.
         k div 32 = j div 32 \<longrightarrow> k = j))"
proof -
  obtain q where "set_region set_free (address div 4096) (unat (len div 4096)) p = Some q"
    "used_pages q = used_pages p"
    "\<And>j. occ q j \<longleftrightarrow> occ p j \<and> (\<forall>k \<in> {unat (address div 4096)..<unat (address div 4096) +
       unat (len div 4096)}. j div 32 = k div 32 \<longrightarrow> j = k)"
    using set_region_free[OF assms] by blast
  then show ?thesis by (auto simp: pmm_init_region_def PMM_PAGE_SIZE_def Let_def)
qed

text \<open>After a successful \<open>pmm_init\<close>, whatever the boot loader's memory map says, every frame of
  the first 24 MB (the kernel image, the page tables and the low memory) is occupied, so no
  later allocation can hand it out.\<close>

lemma pmm_init_reserves_kernel:
  assumes "pmm_init mem mbi p = Some (PMM_SUCCESS, q)" and "j < 0x1800000 div 4096"
  shows "occ q j"
proof -
  from assms(1) obtain m where m: "mbi = Some m" "\<not> is_initialized p"
    by (auto simp: pmm_init_def split: option.splits if_splits)
  with assms(1) obtain p1 p2 where p1: "mmap_loop mem (mmap_addr m) (mmap_addr m + mmap_length m)
      (pmm_boot m p) = Some p1" and p2: "pmm_clear_region 0 0x1800000 p1 = Some p2"
    and q: "set_occupied 0 (p2\<lparr>is_initialized := True\<rparr>) = Some q"
    by (auto simp: pmm_init_eq split: bind_splits)
  have cap: "capacity p1 = 2 ^ 20" using mmap_loop_capacity[OF p1] capacity_pmm_boot by simp
  obtain r where r: "set_region set_occupied 0 6144 p1 = Some r"
    "\<And>j. occ r j \<longleftrightarrow> occ p1 j \<or> j \<in> {unat (0 :: u32)..<unat (0 :: u32) + 6144}"
    using set_region_occupied[of 0 6144 p1] cap by auto
  then have "occ p2 j" using p2 assms(2)
    by (auto simp: pmm_clear_region_def PMM_PAGE_SIZE_def Let_def)
  then show ?thesis using occ_set_occupied[OF q] by simp
qed

lemma mmap_loop_empty: "mmap_loop mem a a p = Some p"
  by (simp add: mmap_loop.simps)

definition mbi_empty :: multiboot_info where
  "mbi_empty = \<lparr>mem_lower = 640, mem_upper = 1024, mmap_length = 0, mmap_addr = 0x9000\<rparr>"

lemma pmm_init_empty_map:
  "\<exists>q. pmm_init mem (Some mbi_empty) pmm_info0 = Some (PMM_SUCCESS, q) \<and>
     (\<forall>j. occ q j \<longleftrightarrow> j < 2 ^ 18)"
proof -
  let ?b = "pmm_boot mbi_empty pmm_info0"
  obtain r where r: "set_region set_occupied 0 6144 ?b = Some r" "capacity r = 2 ^ 20"
    "\<And>j. occ r j \<longleftrightarrow> occ ?b j \<or> j \<in> {unat (0 :: u32)..<unat (0 :: u32) + 6144}"
    using set_region_occupied[of 0 6144 ?b] capacity_pmm_boot[of mbi_empty pmm_info0] by auto
  define t where "t = r\<lparr>used_pages := used_pages r + 6144, is_initialized := True\<rparr>"
  have "unat (0 :: u32) < capacity t" using r(2) by (simp add: t_def)
  then obtain q where q: "set_occupied 0 t = Some q" by (simp add: set_occupied_eq)
  have "occ q j \<longleftrightarrow> j < 2 ^ 18" for j
    using occ_set_occupied[OF q] r(3) by (auto simp: t_def occ_pmm_boot)
  with r q show ?thesis
    by (simp add: pmm_init_eq pmm_info0_def mmap_loop_empty mbi_empty_def
        pmm_clear_region_def PMM_PAGE_SIZE_def Let_def t_def)
qed

text \<open>The comment "Set all memory to be occupied" is not what happens: \<open>memset\<close> is given the
  number of bitmap words as its number of bytes. With a memory map that offers nothing at
  all, every frame above the first gigabyte (frame 2^18) is free after \<open>pmm_init\<close>.\<close>

lemma pmm_init_leaves_upper_memory_free:
  "\<exists>q. pmm_init mem (Some mbi_empty) pmm_info0 = Some (PMM_SUCCESS, q) \<and>
     (\<forall>j. occ q j \<longleftrightarrow> j < 2 ^ 18)"
  by (rule pmm_init_empty_map)

end
