(* ===== verification/Paging.thy ===== *)
theory Paging
  imports Pmm
begin

text \<open>
  Paging, \<open>memory/paging/paging.h\<close> and \<open>paging.c\<close>, on top of the frame manager.

  The code reaches the active page directory and its page tables through the recursive
  mapping (the last directory entry points to the directory itself), that is through
  ordinary memory accesses at \<open>PAGE_DIR_ADDR\<close> and \<open>PAGE_TABLES_ADDR\<close> which the processor
  translates with the very structures being edited. The state has the contents of physical
  memory by frame and 32-bit word, and the register CR3; \<open>mmu_frame\<close> is the two-level
  table walk of the 32-bit x86 processor, and every access of the C code goes through it.
  An access to an unmapped page is \<open>None\<close>. Cached translations are not modelled.
\<close>

section \<open>Page table entries\<close>

text \<open>
  Both entry structs are packed bit fields of 32 bits: \<open>present\<close> (bit 0), \<open>read_write\<close> (1),
  \<open>user_supervisor\<close> (2), ..., and the frame number of the table or the page in bits 12 to 31.
\<close>

definition e_present :: "u32 \<Rightarrow> bool" where
  "e_present e = bit e 0"

definition e_read_write :: "u32 \<Rightarrow> bool" where
  "e_read_write e = bit e 1"

definition e_user_supervisor :: "u32 \<Rightarrow> bool" where
  "e_user_supervisor e = bit e 2"

definition e_address :: "u32 \<Rightarrow> u32" where
  "e_address e = drop_bit 12 e"

definition e_set_flag :: "nat \<Rightarrow> bool \<Rightarrow> u32 \<Rightarrow> u32" where
  "e_set_flag n b e = (if b then set_bit n e else unset_bit n e)"

definition e_set_address :: "u32 \<Rightarrow> u32 \<Rightarrow> u32" where
  "e_set_address a e = take_bit 12 e OR push_bit 12 a"

section \<open>State and memory accesses\<close>

record vm =
  cr3 :: u32
  phys :: "u32 \<Rightarrow> nat \<Rightarrow> u32"
  current_page_directory :: u32
  frames :: pmm

definition mmu_frame :: "vm \<Rightarrow> u32 \<Rightarrow> u32 option" where
  "mmu_frame s vpn =
     (let pde = phys s (drop_bit 12 (cr3 s)) (unat (vpn div 1024))
      in if \<not> e_present pde then None
         else
           let pte = phys s (e_address pde) (unat (vpn mod 1024))
           in if e_present pte then Some (e_address pte) else None)"

definition vload :: "u32 \<Rightarrow> vm \<Rightarrow> u32 option" where
  "vload va s = do {
     f \<leftarrow> mmu_frame s (va div 4096);
     Some (phys s f (unat (va mod 4096 div 4)))
   }"

definition vstore :: "u32 \<Rightarrow> u32 \<Rightarrow> vm \<Rightarrow> vm option" where
  "vstore va w s = do {
     f \<leftarrow> mmu_frame s (va div 4096);
     let i = unat (va mod 4096 div 4);
     Some (s\<lparr>phys := (phys s)(f := (phys s f)(i := w))\<rparr>)
   }"

definition vmodify :: "u32 \<Rightarrow> (u32 \<Rightarrow> u32) \<Rightarrow> vm \<Rightarrow> vm option" where
  "vmodify va g s = do { w \<leftarrow> vload va s; vstore va (g w) s }"

section \<open>Operations\<close>

definition PAGE_SIZE :: u32 where "PAGE_SIZE = 0x1000"
definition PAGES_PER_TABLE :: u32 where "PAGES_PER_TABLE = 1024"
definition PAGE_DIR_ADDR :: u32 where "PAGE_DIR_ADDR = 0xFFFFF000"
definition PAGE_TABLES_ADDR :: u32 where "PAGE_TABLES_ADDR = 0xFFC00000"
definition KERNEL_PAGE_DIR_PHYS_ADDR :: u32 where "KERNEL_PAGE_DIR_PHYS_ADDR = 0x00006000"
definition KERNEL_PAGE_TABLES_PHYS_ADDR :: u32 where "KERNEL_PAGE_TABLES_PHYS_ADDR = 0x01100000"
definition RELOCATION_OFFSET :: u32 where "RELOCATION_OFFSET = 0xC0100000 - 0x00100000"

lemmas paging_consts = PAGE_SIZE_def PAGES_PER_TABLE_def PAGE_DIR_ADDR_def PAGE_TABLES_ADDR_def
  KERNEL_PAGE_DIR_PHYS_ADDR_def KERNEL_PAGE_TABLES_PHYS_ADDR_def RELOCATION_OFFSET_def

definition GET_PAGE_TABLE :: "u32 \<Rightarrow> u32" where
  "GET_PAGE_TABLE vpn = PAGE_TABLES_ADDR + (vpn div PAGES_PER_TABLE) * PAGE_SIZE"

definition get_pte :: "u32 \<Rightarrow> u32" where
  "get_pte virtual_page_index = PAGE_TABLES_ADDR + 4 * virtual_page_index"

definition get_page_table :: "u32 \<Rightarrow> u32" where
  "get_page_table virtual_address = GET_PAGE_TABLE (virtual_address div PAGE_SIZE)"

definition paging_map_page :: "u32 \<Rightarrow> u32 \<Rightarrow> bool \<Rightarrow> u32 \<Rightarrow> vm \<Rightarrow> vm option" where
  "paging_map_page physical_page_index virtual_page_index only_kernel_mode page_table_phys_addr s = do {
     let pd_entry = PAGE_DIR_ADDR + 4 * (virtual_page_index div PAGES_PER_TABLE);
     pde \<leftarrow> vload pd_entry s;
     s \<leftarrow> (if \<not> e_present pde then do {
             let page_table_phys_addr =
               (if RELOCATION_OFFSET div PAGE_SIZE \<le> virtual_page_index
                then KERNEL_PAGE_TABLES_PHYS_ADDR +
                       (virtual_page_index div PAGES_PER_TABLE) * 4 * PAGES_PER_TABLE
                else page_table_phys_addr);
             s \<leftarrow> vstore pd_entry 0 s;
             s \<leftarrow> vmodify pd_entry (e_set_flag 0 True) s;
             s \<leftarrow> vmodify pd_entry (e_set_flag 1 True) s;
             vmodify pd_entry (e_set_address (drop_bit 12 page_table_phys_addr)) s
           } else Some s);
     let pt_entry = GET_PAGE_TABLE virtual_page_index + 4 * (virtual_page_index mod 1024);
     s \<leftarrow> vmodify pt_entry (e_set_address physical_page_index) s;
     s \<leftarrow> vmodify pt_entry (e_set_flag 2 (\<not> only_kernel_mode)) s;
     s \<leftarrow> vmodify pt_entry (e_set_flag 0 True) s;
     s \<leftarrow> vmodify pt_entry (e_set_flag 1 True) s;
     vmodify pd_entry (\<lambda>e. e_set_flag 2 (e_user_supervisor e \<or> \<not> only_kernel_mode) e) s
   }"

definition paging_map_kernel_page :: "u32 \<Rightarrow> u32 \<Rightarrow> bool \<Rightarrow> vm \<Rightarrow> vm option" where
  "paging_map_kernel_page physical_page_index virtual_page_index supervisor_permissions s =
     paging_map_page physical_page_index virtual_page_index supervisor_permissions 0 s"

definition paging_unmap_page :: "u32 \<Rightarrow> vm \<Rightarrow> vm option" where
  "paging_unmap_page virtual_page_index s =
     (let pte = get_pte virtual_page_index
      in if pte \<noteq> 0 then vmodify pte (e_set_flag 0 False) s else Some s)"

definition get_physical_address :: "u32 \<Rightarrow> vm \<Rightarrow> u32 option" where
  "get_physical_address virtual_address s = do {
     let virtual_page_index = virtual_address div PAGE_SIZE;
     pde \<leftarrow> vload (PAGE_DIR_ADDR + 4 * (virtual_page_index div PAGES_PER_TABLE)) s;
     if \<not> e_present pde then Some 0
     else do {
       pte \<leftarrow> vload (GET_PAGE_TABLE virtual_page_index + 4 * (virtual_page_index mod 1024)) s;
       if \<not> e_present pte then Some 0
       else Some (push_bit 12 (e_address pte) + virtual_address mod PAGE_SIZE)
     }
   }"

definition allocate_kernel_virtual_page :: "u32 \<Rightarrow> bool \<Rightarrow> vm \<Rightarrow> (bool \<times> vm) option" where
  "allocate_kernel_virtual_page virtual_page_index supervisor_permissions s = do {
     (physical_page_index, p) \<leftarrow> pmm_allocate_page (frames s);
     let s = s\<lparr>frames := p\<rparr>;
     if physical_page_index = 0 then Some (False, s)
     else do {
       s \<leftarrow> paging_map_kernel_page physical_page_index virtual_page_index supervisor_permissions s;
       Some (True, s)
     }
   }"

definition deallocate_virtual_page :: "u32 \<Rightarrow> vm \<Rightarrow> vm option" where
  "deallocate_virtual_page virtual_page_index s =
     (let pte = get_pte virtual_page_index
      in if pte \<noteq> 0 then do {
           e \<leftarrow> vload pte s;
           p \<leftarrow> pmm_deallocate_page (e_address e) (frames s);
           vmodify pte (e_set_flag 0 False) (s\<lparr>frames := p\<rparr>)
         } else Some s)"

fun deallocate_pages_loop :: "u32 \<Rightarrow> nat \<Rightarrow> vm \<Rightarrow> vm option" where
  "deallocate_pages_loop page 0 s = Some s"
| "deallocate_pages_loop page (Suc n) s = do {
     s \<leftarrow> deallocate_virtual_page page s;
     deallocate_pages_loop (page + 1) n s
   }"

text \<open>The loop of \<open>allocate_multiple_pages\<close>: \<open>i\<close> pages are done, \<open>n\<close> are left.\<close>

fun allocate_pages_loop :: "u32 \<Rightarrow> nat \<Rightarrow> nat \<Rightarrow> bool \<Rightarrow> u32 \<Rightarrow> vm \<Rightarrow> (bool \<times> vm) option" where
  "allocate_pages_loop starting_page_index i 0 supervisor_permissions page_tables_phys_addr s =
     Some (True, s)"
| "allocate_pages_loop starting_page_index i (Suc n) supervisor_permissions page_tables_phys_addr s = do {
     (physical_page_index, p) \<leftarrow> pmm_allocate_page (frames s);
     let s = s\<lparr>frames := p\<rparr>;
     if physical_page_index = 0 then do {
       s \<leftarrow> deallocate_pages_loop starting_page_index i s;
       Some (False, s)
     } else do {
       s \<leftarrow> paging_map_page physical_page_index (starting_page_index + of_nat i)
              supervisor_permissions page_tables_phys_addr s;
       allocate_pages_loop starting_page_index (Suc i) n supervisor_permissions
         page_tables_phys_addr s
     }
   }"

definition allocate_multiple_pages :: "u32 \<Rightarrow> u32 \<Rightarrow> bool \<Rightarrow> u32 \<Rightarrow> vm \<Rightarrow> (bool \<times> vm) option" where
  "allocate_multiple_pages starting_page_index page_count supervisor_permissions
     page_tables_phys_addr s =
     allocate_pages_loop starting_page_index 0 (unat page_count) supervisor_permissions
       page_tables_phys_addr s"

definition load_pd_phys_addr :: "u32 \<Rightarrow> vm \<Rightarrow> vm" where
  "load_pd_phys_addr pd_phys_addr s = s\<lparr>cr3 := pd_phys_addr\<rparr>"

definition load_pd :: "u32 \<Rightarrow> vm \<Rightarrow> vm option" where
  "load_pd pd s = do {
     phys_addr \<leftarrow> get_physical_address pd s;
     Some (load_pd_phys_addr phys_addr (s\<lparr>current_page_directory := pd\<rparr>))
   }"

definition get_current_pd :: "vm \<Rightarrow> u32" where
  "get_current_pd s = current_page_directory s"

definition get_kernel_pd :: u32 where
  "get_kernel_pd = KERNEL_PAGE_DIR_PHYS_ADDR + RELOCATION_OFFSET"

definition get_current_pd_phys_addr :: "vm \<Rightarrow> u32" where
  "get_current_pd_phys_addr s = cr3 s"

section \<open>Entry bits\<close>

named_theorems pte_simps \<open>reading a field of an updated entry\<close>

lemma bit_e_set_flag: "n < 32 \<Longrightarrow> bit (e_set_flag n b e) m \<longleftrightarrow> (if m = n then b else bit e m)"
  by (auto simp: e_set_flag_def bit_simps)

lemma bit_e_set_address:
  "bit (e_set_address a e) m \<longleftrightarrow> (if m < 12 then bit e m else m < 32 \<and> bit a (m - 12))"
  by (auto simp: e_set_address_def bit_simps)

lemma e_fields_flag [pte_simps]:
  "e_present (e_set_flag 0 b e) = b" "e_present (e_set_flag 1 b e) = e_present e"
  "e_present (e_set_flag 2 b e) = e_present e"
  "e_read_write (e_set_flag 1 b e) = b"  "e_read_write (e_set_flag 0 b e) = e_read_write e"
  "e_read_write (e_set_flag 2 b e) = e_read_write e"
  "e_user_supervisor (e_set_flag 2 b e) = b"
  "e_user_supervisor (e_set_flag 0 b e) = e_user_supervisor e"
  "e_user_supervisor (e_set_flag 1 b e) = e_user_supervisor e"
  by (simp_all add: e_present_def e_read_write_def e_user_supervisor_def bit_e_set_flag)

lemmas e_fields_flag_Suc [pte_simps] = e_fields_flag[unfolded One_nat_def]

lemma e_address_flag [pte_simps]: "n < 12 \<Longrightarrow> e_address (e_set_flag n b e) = e_address e"
  by (rule bit_word_eqI) (auto simp: e_address_def bit_simps bit_e_set_flag)

lemma e_fields_address [pte_simps]:
  "e_present (e_set_address a e) = e_present e"
  "e_read_write (e_set_address a e) = e_read_write e"
  "e_user_supervisor (e_set_address a e) = e_user_supervisor e"
  by (simp_all add: e_present_def e_read_write_def e_user_supervisor_def bit_e_set_address)

lemma e_address_set [pte_simps]: "e_address (e_set_address a e) = take_bit 20 a"
  by (rule bit_word_eqI) (auto simp: e_address_def bit_simps bit_e_set_address)

section \<open>The recursive mapping\<close>

definition pd_frame :: "vm \<Rightarrow> u32" where
  "pd_frame s = drop_bit 12 (cr3 s)"

definition pde_of :: "vm \<Rightarrow> u32 \<Rightarrow> u32" where
  "pde_of s vpn = phys s (pd_frame s) (unat (vpn div 1024))"

definition recursive :: "vm \<Rightarrow> bool" where
  "recursive s \<longleftrightarrow> e_present (phys s (pd_frame s) 1023) \<and>
     e_address (phys s (pd_frame s) 1023) = pd_frame s"

text \<open>Writing one word of physical memory.\<close>

definition pwrite :: "u32 \<Rightarrow> nat \<Rightarrow> u32 \<Rightarrow> vm \<Rightarrow> vm" where
  "pwrite f i w s = s\<lparr>phys := (phys s)(f := (phys s f)(i := w))\<rparr>"

lemma pwrite_simps [simp]:
  "cr3 (pwrite f i w s) = cr3 s" "frames (pwrite f i w s) = frames s"
  "pd_frame (pwrite f i w s) = pd_frame s"
  "current_page_directory (pwrite f i w s) = current_page_directory s"
  by (simp_all add: pwrite_def pd_frame_def)

lemma phys_pwrite: "phys (pwrite f i w s) g j = (if g = f \<and> j = i then w else phys s g j)"
  by (simp add: pwrite_def)

lemma pwrite_pwrite: "pwrite f i w (pwrite f i v s) = pwrite f i w s"
  by (simp add: pwrite_def)

lemma mmu_frame_alt:
  "mmu_frame s vpn =
     (if e_present (pde_of s vpn) \<and> e_present (phys s (e_address (pde_of s vpn)) (unat (vpn mod 1024)))
      then Some (e_address (phys s (e_address (pde_of s vpn)) (unat (vpn mod 1024)))) else None)"
  by (simp add: mmu_frame_def pde_of_def pd_frame_def Let_def)

text \<open>The two windows of the recursive mapping, as numbers.\<close>

lemma unat_pd_entry:
  "unat i < 1024 \<Longrightarrow> unat (PAGE_DIR_ADDR + 4 * i) = 0xFFFFF000 + 4 * unat i"
  by (simp add: PAGE_DIR_ADDR_def unat_word_ariths)

lemma unat_pt_entry:
  assumes "unat vpn < 2 ^ 20"
  shows "unat (GET_PAGE_TABLE vpn + 4 * (vpn mod 1024)) =
    0xFFC00000 + unat vpn div 1024 * 4096 + 4 * (unat vpn mod 1024)"
proof -
  have "unat vpn div 1024 \<le> 1023" "unat vpn mod 1024 \<le> 1023" using assms by auto
  then have "0xFFC00000 + unat vpn div 1024 * 4096 + 4 * (unat vpn mod 1024) < 2 ^ 32"
    by (simp add: not_less)
  then show ?thesis
    using assms
    by (simp add: GET_PAGE_TABLE_def paging_consts unat_word_ariths unat_div unat_mod)
qed

lemma get_pte_eq:
  assumes "unat vpn < 2 ^ 20"
  shows "get_pte vpn = GET_PAGE_TABLE vpn + 4 * (vpn mod 1024)"
proof -
  have "unat (get_pte vpn) = 0xFFC00000 + 4 * unat vpn"
    using assms by (simp add: get_pte_def PAGE_TABLES_ADDR_def unat_word_ariths)
  also have "\<dots> = unat (GET_PAGE_TABLE vpn + 4 * (vpn mod 1024))"
    unfolding unat_pt_entry[OF assms] using div_mult_mod_eq[of "unat vpn" 1024] by linarith
  finally show ?thesis by (simp add: word_unat_eq_iff)
qed

lemma get_pte_not_null: "unat vpn < 2 ^ 20 \<Longrightarrow> get_pte vpn \<noteq> 0"
  by (auto simp: get_pte_eq simp flip: unat_eq_zero simp: unat_pt_entry)

lemma page_offset: "x < 1024 \<Longrightarrow> (k * 4096 + 4 * x) mod 4096 div 4 = (x :: nat)"
  by simp

lemma mmu_frame_pd:
  assumes "recursive s" and "unat i < 1024"
  shows "mmu_frame s ((PAGE_DIR_ADDR + 4 * i) div 4096) = Some (pd_frame s)"
    and "unat ((PAGE_DIR_ADDR + 4 * i) mod 4096 div 4) = unat i"
proof -
  have "unat ((PAGE_DIR_ADDR + 4 * i) div 4096) = 0xFFFFF"
    using assms(2) by (simp add: unat_div unat_pd_entry)
  then have "(PAGE_DIR_ADDR + 4 * i) div 4096 = 0xFFFFF"
    by (simp add: word_unat_eq_iff)
  then show "mmu_frame s ((PAGE_DIR_ADDR + 4 * i) div 4096) = Some (pd_frame s)"
    using assms(1) by (simp add: mmu_frame_alt pde_of_def recursive_def)
  show "unat ((PAGE_DIR_ADDR + 4 * i) mod 4096 div 4) = unat i"
    using page_offset[OF assms(2), of "0xFFFFF"] assms(2)
    by (simp add: unat_div unat_mod unat_pd_entry)
qed

lemma mmu_frame_pt:
  assumes "recursive s" and "unat vpn < 2 ^ 20" and "e_present (pde_of s vpn)"
  defines "va \<equiv> GET_PAGE_TABLE vpn + 4 * (vpn mod 1024)"
  shows "mmu_frame s (va div 4096) = Some (e_address (pde_of s vpn))"
    and "unat (va mod 4096 div 4) = unat (vpn mod 1024)"
proof -
  have m: "unat vpn mod 1024 < 1024" by simp
  have u: "unat va = (0xFFC00 + unat vpn div 1024) * 4096 + 4 * (unat vpn mod 1024)"
    unfolding va_def unat_pt_entry[OF assms(2)] by simp
  have "unat (va div 4096) = 0xFFC00 + unat vpn div 1024"
    unfolding unat_div u using m by simp
  moreover have "unat vpn div 1024 < 1024" using assms(2) by simp
  ultimately have "unat (va div 4096) div 1024 = 1023"
      "unat (va div 4096) mod 1024 = unat vpn div 1024"
    by (simp_all add: mod_add_eq[of 1047552 1024, symmetric])
  then show "mmu_frame s (va div 4096) = Some (e_address (pde_of s vpn))"
    using assms(1,3) by (simp add: mmu_frame_alt pde_of_def recursive_def unat_div unat_mod)
  show "unat (va mod 4096 div 4) = unat (vpn mod 1024)"
    using page_offset[OF m, of "0xFFC00 + unat vpn div 1024"] by (simp add: unat_div unat_mod u)
qed

lemma unat_div_1024: "unat (vpn :: u32) < 2 ^ 20 \<Longrightarrow> unat (vpn div 1024) < 1024"
  by (simp add: unat_div)

lemma vaccess_pd:
  assumes "recursive s" and "unat vpn < 2 ^ 20"
  shows "vload (PAGE_DIR_ADDR + 4 * (vpn div 1024)) s = Some (pde_of s vpn)"
    and "vstore (PAGE_DIR_ADDR + 4 * (vpn div 1024)) w s =
      Some (pwrite (pd_frame s) (unat (vpn div 1024)) w s)"
  using mmu_frame_pd[OF assms(1) unat_div_1024[OF assms(2)]]
  by (simp_all add: vload_def vstore_def pde_of_def pwrite_def)

lemma vaccess_pt:
  assumes "recursive s" and "unat vpn < 2 ^ 20" and "e_present (pde_of s vpn)"
  shows "vload (GET_PAGE_TABLE vpn + 4 * (vpn mod 1024)) s =
      Some (phys s (e_address (pde_of s vpn)) (unat (vpn mod 1024)))"
    and "vstore (GET_PAGE_TABLE vpn + 4 * (vpn mod 1024)) w s =
      Some (pwrite (e_address (pde_of s vpn)) (unat (vpn mod 1024)) w s)"
  using mmu_frame_pt[OF assms]
  by (simp_all add: vload_def vstore_def pwrite_def)

lemma vmodify_pd:
  assumes "recursive s" and "unat vpn < 2 ^ 20"
  shows "vmodify (PAGE_DIR_ADDR + 4 * (vpn div 1024)) g s =
      Some (pwrite (pd_frame s) (unat (vpn div 1024)) (g (pde_of s vpn)) s)"
  by (simp add: vmodify_def vaccess_pd[OF assms])

lemma vmodify_pt:
  assumes "recursive s" and "unat vpn < 2 ^ 20" and "e_present (pde_of s vpn)"
  shows "vmodify (GET_PAGE_TABLE vpn + 4 * (vpn mod 1024)) g s =
      (let t = e_address (pde_of s vpn); j = unat (vpn mod 1024)
       in Some (pwrite t j (g (phys s t j)) s))"
  by (simp add: vmodify_def vaccess_pt[OF assms] Let_def)

section \<open>Address spaces\<close>

text \<open>
  A well-formed address space: the recursive entry is in place, and the page tables of
  the other directory entries are neither the directory nor shared between entries. This is how
  the manager of processes builds a process's directory, which takes the entries of the
  upper half from the kernel's directory and gets the tables of the lower half one by one; the
  directory of the boot code is not of this kind (see \<open>boot_directory_shares_tables\<close> below), and what the
  heap needs of it is stated on its own in \<open>Heap.heap_space\<close>.
\<close>

definition tables_ok :: "vm \<Rightarrow> bool" where
  "tables_ok s \<longleftrightarrow>
     (\<forall>i < 1023. e_present (phys s (pd_frame s) i) \<longrightarrow>
        e_address (phys s (pd_frame s) i) \<noteq> pd_frame s \<and>
        (\<forall>j < 1023. e_present (phys s (pd_frame s) j) \<and>
           e_address (phys s (pd_frame s) j) = e_address (phys s (pd_frame s) i) \<longrightarrow> i = j))"

definition pd_wf :: "vm \<Rightarrow> bool" where
  "pd_wf s \<longleftrightarrow> recursive s \<and> tables_ok s"

text \<open>The frame of the table that \<open>paging_map_page\<close> writes to.\<close>

definition map_table :: "u32 \<Rightarrow> u32 \<Rightarrow> vm \<Rightarrow> u32" where
  "map_table vpn page_table_phys_addr s =
     (if e_present (pde_of s vpn) then e_address (pde_of s vpn)
      else drop_bit 12 (if 0xC0000 \<le> vpn then 0x01100000 + (vpn div 1024) * 4096
                        else page_table_phys_addr))"

text \<open>A table that a fresh directory entry may use: no table of the space, not the directory.\<close>

definition fresh_table :: "vm \<Rightarrow> u32 \<Rightarrow> bool" where
  "fresh_table s t \<longleftrightarrow> t \<noteq> pd_frame s \<and>
     (\<forall>i < 1023. e_present (phys s (pd_frame s) i) \<longrightarrow> e_address (phys s (pd_frame s) i) \<noteq> t)"

definition new_pte :: "u32 \<Rightarrow> bool \<Rightarrow> u32 \<Rightarrow> u32" where
  "new_pte pfn only_kernel_mode e =
     e_set_flag 1 True (e_set_flag 0 True (e_set_flag 2 (\<not> only_kernel_mode) (e_set_address pfn e)))"

definition fresh_pde :: "u32 \<Rightarrow> u32" where
  "fresh_pde t = e_set_address t (e_set_flag 1 True (e_set_flag 0 True 0))"

definition user_bit :: "bool \<Rightarrow> u32 \<Rightarrow> u32" where
  "user_bit only_kernel_mode e = e_set_flag 2 (e_user_supervisor e \<or> \<not> only_kernel_mode) e"

lemma new_pte_fields [pte_simps]:
  "e_present (new_pte f k e)" "e_address (new_pte f k e) = take_bit 20 f"
  "e_user_supervisor (new_pte f k e) = (\<not> k)" "e_read_write (new_pte f k e)"
  by (simp_all add: new_pte_def pte_simps)

lemma fresh_pde_fields [pte_simps]:
  "e_present (fresh_pde t)" "e_address (fresh_pde t) = take_bit 20 t"
  by (simp_all add: fresh_pde_def pte_simps)

lemma user_bit_fields [pte_simps]:
  "e_present (user_bit k e) = e_present e" "e_address (user_bit k e) = e_address e"
  by (simp_all add: user_bit_def pte_simps)

lemma recursive_pwrite:
  "recursive s \<Longrightarrow> f \<noteq> pd_frame s \<or> i \<noteq> 1023 \<Longrightarrow> recursive (pwrite f i w s)"
  by (auto simp: recursive_def phys_pwrite)

lemma pde_of_pwrite:
  "pde_of (pwrite f i w s) vpn =
     (if f = pd_frame s \<and> i = unat (vpn div 1024) then w else pde_of s vpn)"
  by (auto simp: pde_of_def phys_pwrite)

lemma take_bit_drop_bit_12: "take_bit 20 (drop_bit 12 (a :: u32)) = drop_bit 12 a"
  by (rule bit_word_eqI) (auto simp: bit_simps dest: bit_imp_le_length)

lemma below_window:
  assumes "unat (vpn :: u32) < 0xFFC00"
  shows "unat vpn < 2 ^ 20" and "unat (vpn div 1024) < 1023"
  using assms by (simp_all add: unat_div)

text \<open>
  What the function writes: the directory entry it uses (the one in place, or a fresh one), and
  the three writes at frames, the last of which sets the user bit of the directory entry.
\<close>

definition map_pde :: "u32 \<Rightarrow> u32 \<Rightarrow> vm \<Rightarrow> u32" where
  "map_pde vpn pt s = (if e_present (pde_of s vpn) then pde_of s vpn else fresh_pde (map_table vpn pt s))"

definition map_result :: "u32 \<Rightarrow> u32 \<Rightarrow> bool \<Rightarrow> u32 \<Rightarrow> vm \<Rightarrow> vm" where
  "map_result pfn vpn k pt s =
     (let t = map_table vpn pt s; i = unat (vpn div 1024); j = unat (vpn mod 1024); e = map_pde vpn pt s
      in pwrite (pd_frame s) i (user_bit k e)
          (pwrite t j (new_pte pfn k (phys s t j)) (pwrite (pd_frame s) i e s)))"

lemma map_pde_simps [simp]:
  "e_present (map_pde vpn pt s)" "e_address (map_pde vpn pt s) = map_table vpn pt s"
  by (simp_all add: map_pde_def map_table_def pte_simps take_bit_drop_bit_12)

text \<open>The first part: a directory entry that is not present is set up.\<close>

lemma map_page_pde:
  assumes rec: "recursive s" and vpn: "unat vpn < 0xFFC00"
  defines "pd \<equiv> PAGE_DIR_ADDR + 4 * (vpn div 1024)"
  shows "(if \<not> e_present (pde_of s vpn) then do {
      s \<leftarrow> vstore pd 0 s;
      s \<leftarrow> vmodify pd (e_set_flag 0 True) s;
      s \<leftarrow> vmodify pd (e_set_flag 1 True) s;
      vmodify pd (e_set_address (drop_bit 12 (if 0xC0000 \<le> vpn
        then 0x01100000 + (vpn div 1024) * 4 * 1024 else pt))) s } else Some s) =
    Some (pwrite (pd_frame s) (unat (vpn div 1024)) (map_pde vpn pt s) s)"
proof -
  note b = below_window[OF vpn]
  let ?i = "unat (vpn div 1024)"
  have "recursive (pwrite (pd_frame s) ?i w s)" for w using rec b by (simp add: recursive_pwrite)
  then have upd: "vmodify pd g (pwrite (pd_frame s) ?i w s) = Some (pwrite (pd_frame s) ?i (g w) s)" for g w
    unfolding pd_def using vmodify_pd[OF _ b(1)] by (simp add: pde_of_pwrite pwrite_pwrite)
  have "pwrite (pd_frame s) ?i (pde_of s vpn) s = s" by (simp add: pwrite_def pde_of_def)
  then show ?thesis
    using vaccess_pd(2)[OF rec b(1)]
    by (simp add: upd map_pde_def fresh_pde_def map_table_def mult.assoc flip: pd_def)
qed

text \<open>The second part: the entry of the page table is filled in.\<close>

lemma map_page_pte:
  assumes rec: "recursive s" and vpn: "unat vpn < 0xFFC00" and p: "e_present (pde_of s vpn)"
    and t: "e_address (pde_of s vpn) \<noteq> pd_frame s"
  defines "pt \<equiv> GET_PAGE_TABLE vpn + 4 * (vpn mod 1024)" and "f \<equiv> e_address (pde_of s vpn)"
    and "j \<equiv> unat (vpn mod 1024)"
  shows "do {
      s \<leftarrow> vmodify pt (e_set_address pfn) s;
      s \<leftarrow> vmodify pt (e_set_flag 2 (\<not> k)) s;
      s \<leftarrow> vmodify pt (e_set_flag 0 True) s;
      vmodify pt (e_set_flag 1 True) s } = Some (pwrite f j (new_pte pfn k (phys s f j)) s)"
proof -
  have upd: "vmodify pt g (pwrite f j w s) = Some (pwrite f j (g w) s)" for g w
  proof -
    have "recursive (pwrite f j w s)" "e_present (pde_of (pwrite f j w s) vpn)"
      "e_address (pde_of (pwrite f j w s) vpn) = f"
      using rec p t by (simp_all add: recursive_pwrite pde_of_pwrite f_def)
    then show ?thesis
      unfolding pt_def using vmodify_pt[of "pwrite f j w s" vpn g] below_window(1)[OF vpn]
      by (simp add: phys_pwrite pwrite_pwrite Let_def flip: j_def)
  qed
  have "vmodify pt g s = Some (pwrite f j (g (phys s f j)) s)" for g
    unfolding pt_def using vmodify_pt[OF rec below_window(1)[OF vpn] p]
    by (simp add: Let_def flip: f_def j_def)
  then show ?thesis by (simp add: upd new_pte_def)
qed

lemma paging_map_page_eq:
  assumes rec: "recursive s" and vpn: "unat vpn < 0xFFC00"
    and t: "map_table vpn pt s \<noteq> pd_frame s"
  shows "paging_map_page pfn vpn k pt s = Some (map_result pfn vpn k pt s)"
proof -
  let ?t = "map_table vpn pt s" and ?i = "unat (vpn div 1024)" and ?j = "unat (vpn mod 1024)"
  let ?pd = "PAGE_DIR_ADDR + 4 * (vpn div 1024)" and ?pt = "GET_PAGE_TABLE vpn + 4 * (vpn mod 1024)"
  note b = below_window[OF vpn]
  define s1 where "s1 = pwrite (pd_frame s) ?i (map_pde vpn pt s) s"
  have s1: "recursive s1" "pde_of s1 vpn = map_pde vpn pt s" "pd_frame s1 = pd_frame s" "phys s1 ?t = phys s ?t"
    using rec b t by (simp_all add: s1_def recursive_pwrite pde_of_pwrite phys_pwrite fun_eq_iff)
  define s2 where "s2 = pwrite ?t ?j (new_pte pfn k (phys s ?t ?j)) s1"
  have "recursive s2" "pde_of s2 vpn = map_pde vpn pt s" "pd_frame s2 = pd_frame s"
    using s1 t by (simp_all add: s2_def recursive_pwrite pde_of_pwrite)
  then have last: "vmodify ?pd (user_bit k) s2 = Some (pwrite (pd_frame s) ?i (user_bit k (map_pde vpn pt s)) s2)"
    using vmodify_pd[OF _ b(1)] by simp
  have "paging_map_page pfn vpn k pt s = do {
      s \<leftarrow> Some s1;
      s \<leftarrow> (do {
        s \<leftarrow> vmodify ?pt (e_set_address pfn) s;
        s \<leftarrow> vmodify ?pt (e_set_flag 2 (\<not> k)) s;
        s \<leftarrow> vmodify ?pt (e_set_flag 0 True) s;
        vmodify ?pt (e_set_flag 1 True) s });
      vmodify ?pd (user_bit k) s }"
    unfolding s1_def map_page_pde[OF rec vpn, symmetric]
    by (simp add: paging_map_page_def vaccess_pd[OF rec b(1)] Let_def user_bit_def[abs_def]
        PAGES_PER_TABLE_def RELOCATION_OFFSET_def PAGE_SIZE_def KERNEL_PAGE_TABLES_PHYS_ADDR_def)
  moreover have "do {
        s \<leftarrow> vmodify ?pt (e_set_address pfn) s1;
        s \<leftarrow> vmodify ?pt (e_set_flag 2 (\<not> k)) s;
        s \<leftarrow> vmodify ?pt (e_set_flag 0 True) s;
        vmodify ?pt (e_set_flag 1 True) s } = Some s2"
    using map_page_pte[OF s1(1) vpn, of pfn k] t by (simp add: s1 s2_def)
  moreover have "map_result pfn vpn k pt s = pwrite (pd_frame s) ?i (user_bit k (map_pde vpn pt s)) s2"
    by (simp add: map_result_def s2_def s1_def Let_def)
  ultimately show ?thesis using last by (simp only: bind.bind_lunit)
qed

lemma pd_wf_present_table:
  assumes "pd_wf s" and "unat vpn < 0xFFC00" and "e_present (pde_of s vpn)"
  shows "e_address (pde_of s vpn) \<noteq> pd_frame s"
  using assms below_window(2)[OF assms(2)] by (simp add: pd_wf_def tables_ok_def pde_of_def)

lemma map_table_not_pd:
  assumes "pd_wf s" and "unat vpn < 0xFFC00"
    and "e_present (pde_of s vpn) \<or> fresh_table s (map_table vpn pt s)"
  shows "map_table vpn pt s \<noteq> pd_frame s"
  using assms pd_wf_present_table[OF assms(1,2)]
  by (auto simp: map_table_def fresh_table_def split: if_splits)

lemma unat_eq_div_mod: "(v :: u32) div 1024 = w div 1024 \<Longrightarrow> v mod 1024 = w mod 1024 \<Longrightarrow> v = w"
  by (metis word_mod_div_equality)

text \<open>What the memory holds afterwards.\<close>

lemma map_result_simps [simp]:
  "pd_frame (map_result pfn vpn k pt s) = pd_frame s" "frames (map_result pfn vpn k pt s) = frames s"
  "cr3 (map_result pfn vpn k pt s) = cr3 s"
  "current_page_directory (map_result pfn vpn k pt s) = current_page_directory s"
  by (simp_all add: map_result_def Let_def)

lemma map_result_reads:
  assumes td: "map_table vpn pt s \<noteq> pd_frame s"
  shows "phys (map_result pfn vpn k pt s) (pd_frame s) i =
      (if i = unat (vpn div 1024) then user_bit k (map_pde vpn pt s) else phys s (pd_frame s) i)"
    and "f \<noteq> pd_frame s \<Longrightarrow> phys (map_result pfn vpn k pt s) f j =
      (if f = map_table vpn pt s \<and> j = unat (vpn mod 1024)
       then new_pte pfn k (phys s (map_table vpn pt s) j) else phys s f j)"
    and "pde_of (map_result pfn vpn k pt s) v =
      (if v div 1024 = vpn div 1024 then user_bit k (map_pde vpn pt s) else pde_of s v)"
  using td by (auto simp: map_result_def Let_def phys_pwrite pde_of_def word_unat_eq_iff)

text \<open>No other entry of the directory points to the table it uses.\<close>

lemma map_table_unique:
  assumes tab: "tables_ok s" and vpn: "unat vpn < 0xFFC00"
    and t: "e_present (pde_of s vpn) \<or> fresh_table s (map_table vpn pt s)"
    and i: "i < 1023" "i \<noteq> unat (vpn div 1024)" "e_present (phys s (pd_frame s) i)"
  shows "e_address (phys s (pd_frame s) i) \<noteq> map_table vpn pt s"
proof (cases "e_present (pde_of s vpn)")
  case True
  with i tab below_window[OF vpn] show ?thesis by (auto simp: tables_ok_def map_table_def pde_of_def)
next
  case False
  with t i show ?thesis by (auto simp: fresh_table_def)
qed

lemma map_result_tables_ok:
  assumes tab: "tables_ok s" and vpn: "unat vpn < 0xFFC00" and td: "map_table vpn pt s \<noteq> pd_frame s"
    and t: "e_present (pde_of s vpn) \<or> fresh_table s (map_table vpn pt s)"
  shows "tables_ok (map_result pfn vpn k pt s)"
  unfolding tables_ok_def map_result_simps
proof (intro allI impI)
  note R = map_result_reads(1)[OF td] and uniq = map_table_unique[OF tab vpn t]
  fix i
  assume i: "i < 1023" "e_present (phys (map_result pfn vpn k pt s) (pd_frame s) i)"
  show "e_address (phys (map_result pfn vpn k pt s) (pd_frame s) i) \<noteq> pd_frame s \<and>
      (\<forall>j < 1023. e_present (phys (map_result pfn vpn k pt s) (pd_frame s) j) \<and>
         e_address (phys (map_result pfn vpn k pt s) (pd_frame s) j) =
         e_address (phys (map_result pfn vpn k pt s) (pd_frame s) i) \<longrightarrow> i = j)"
  proof (cases "i = unat (vpn div 1024)")
    case True
    with td uniq show ?thesis by (auto simp: R pte_simps)
  next
    case False
    with i have "e_present (phys s (pd_frame s) i)" by (simp add: R)
    with False i(1) uniq[of i] tab show ?thesis by (auto simp: R pte_simps tables_ok_def)
  qed
qed

text \<open>Every other page keeps its frame.\<close>

lemma map_result_other:
  assumes wf: "pd_wf s" and vpn: "unat vpn < 0xFFC00"
    and t: "e_present (pde_of s vpn) \<or> fresh_table s (map_table vpn pt s)"
    and v: "unat v < 0xFFC00" "v \<noteq> vpn" "e_present (pde_of s v)"
  shows "mmu_frame (map_result pfn vpn k pt s) v = mmu_frame s v"
proof -
  have tab: "tables_ok s" using wf by (simp add: pd_wf_def)
  note td = map_table_not_pd[OF wf vpn t]
  note R = map_result_reads[OF td]
  show ?thesis
  proof (cases "v div 1024 = vpn div 1024")
    case True
    with v have "unat (v mod 1024) \<noteq> unat (vpn mod 1024)" by (metis unat_eq_div_mod word_unat_eq_iff)
    moreover have "pde_of s v = map_pde vpn pt s" using True v(3) by (simp add: map_pde_def pde_of_def)
    ultimately show ?thesis using True td v(3) by (simp add: mmu_frame_alt R(2,3) pte_simps)
  next
    case False
    then have "unat (v div 1024) \<noteq> unat (vpn div 1024)" by (simp add: word_unat_eq_iff)
    with map_table_unique[OF tab vpn t] below_window(2)[OF v(1)] v(3)
    have "e_address (pde_of s v) \<noteq> map_table vpn pt s" by (simp add: pde_of_def)
    moreover have "e_address (pde_of s v) \<noteq> pd_frame s" using pd_wf_present_table[OF wf v(1,3)] .
    ultimately show ?thesis using False by (simp add: mmu_frame_alt R(2,3))
  qed
qed

text \<open>The effect of \<open>paging_map_page\<close> on the address space.\<close>

lemma paging_map_page_effect:
  assumes wf: "pd_wf s" and vpn: "unat vpn < 0xFFC00" and pfn: "unat pfn < 2 ^ 20"
    and t: "e_present (pde_of s vpn) \<or> fresh_table s (map_table vpn pt s)"
  obtains s' where "paging_map_page pfn vpn k pt s = Some s'"
    and "mmu_frame s' vpn = Some pfn" and "pd_wf s'" and "frames s' = frames s" and "cr3 s' = cr3 s"
    and "current_page_directory s' = current_page_directory s"
    and "\<And>v. unat v < 0xFFC00 \<Longrightarrow> v \<noteq> vpn \<Longrightarrow> e_present (pde_of s v) \<Longrightarrow> mmu_frame s' v = mmu_frame s v"
    and "\<And>v. unat v < 0xFFC00 \<Longrightarrow> e_present (pde_of s' v) \<longleftrightarrow>
           e_present (pde_of s v) \<or> v div 1024 = vpn div 1024"
    and "\<And>v. unat v < 0xFFC00 \<Longrightarrow> e_present (pde_of s v) \<Longrightarrow>
           e_address (pde_of s' v) = e_address (pde_of s v)"
    and "e_address (pde_of s' vpn) = map_table vpn pt s"
    and "\<And>f j. f \<noteq> pd_frame s \<Longrightarrow> f \<noteq> map_table vpn pt s \<Longrightarrow> phys s' f j = phys s f j"
proof (rule that[of "map_result pfn vpn k pt s"])
  have rec: "recursive s" and tab: "tables_ok s" using wf by (simp_all add: pd_wf_def)
  note td = map_table_not_pd[OF wf vpn t]
  note R = map_result_reads[OF td, where pfn = pfn and k = k]
  show "paging_map_page pfn vpn k pt s = Some (map_result pfn vpn k pt s)"
    using paging_map_page_eq[OF rec vpn td] .
  have "take_bit 20 pfn = pfn"
    using pfn by (simp add: word_unat_eq_iff unsigned_take_bit_eq take_bit_nat_eq_self)
  then show "mmu_frame (map_result pfn vpn k pt s) vpn = Some pfn"
    using td by (simp add: mmu_frame_alt R(2,3) pte_simps)
  have "recursive (map_result pfn vpn k pt s)"
    using rec below_window[OF vpn] by (simp add: recursive_def R(1))
  then show "pd_wf (map_result pfn vpn k pt s)"
    using map_result_tables_ok[OF tab vpn td t] by (simp add: pd_wf_def)
  show "e_address (pde_of (map_result pfn vpn k pt s) v) = e_address (pde_of s v)"
    if "e_present (pde_of s v)" for v
    using that by (cases "v div 1024 = vpn div 1024") (simp_all add: R(3) pte_simps map_table_def, simp add: pde_of_def)
qed (use map_result_other[OF wf vpn t] map_result_reads[OF map_table_not_pd[OF wf vpn t], where pfn = pfn and k = k] in
    \<open>auto simp: pte_simps\<close>)

lemma e_address_lt: "unat (e_address e) < 2 ^ 20"
  using unat_lt_u32[of e] by (simp add: e_address_def drop_bit_eq_div unat_div)

text \<open>Clearing the present bit of a page's entry.\<close>

lemma unmap_effect:
  assumes wf: "pd_wf s" and vpn: "unat vpn < 0xFFC00" and pde: "e_present (pde_of s vpn)"
  obtains s' where "vmodify (get_pte vpn) (e_set_flag 0 False) s = Some s'"
    and "mmu_frame s' vpn = None" and "pd_wf s'" and "frames s' = frames s"
    and "\<And>v. unat v < 0xFFC00 \<Longrightarrow> v \<noteq> vpn \<Longrightarrow> mmu_frame s' v = mmu_frame s v"
proof -
  let ?t = "e_address (pde_of s vpn)" and ?j = "unat (vpn mod 1024)"
  note b = below_window[OF vpn]
  have td: "?t \<noteq> pd_frame s" using pd_wf_present_table[OF assms] .
  have rec: "recursive s" and tab: "tables_ok s" using wf by (simp_all add: pd_wf_def)
  define s' where "s' = pwrite ?t ?j (e_set_flag 0 False (phys s ?t ?j)) s"
  have eq: "vmodify (get_pte vpn) (e_set_flag 0 False) s = Some s'"
    using vmodify_pt[OF rec b(1) pde] by (simp add: get_pte_eq[OF b(1)] s'_def Let_def)
  have pd': "phys s' (pd_frame s) i = phys s (pd_frame s) i" for i
    using td by (simp add: s'_def phys_pwrite)
  have ph': "phys s' f i = (if f = ?t \<and> i = ?j then e_set_flag 0 False (phys s ?t ?j) else phys s f i)"
    for f i by (simp add: s'_def phys_pwrite)
  have pdf: "pd_frame s' = pd_frame s" by (simp add: s'_def)
  have pde': "pde_of s' v = pde_of s v" for v by (simp add: pde_of_def pd' pdf)
  have "pd_wf s'" using wf by (simp add: pd_wf_def recursive_def tables_ok_def pdf pd')
  moreover have "mmu_frame s' vpn = None"
    by (simp add: mmu_frame_alt pde' ph' pte_simps)
  moreover have "mmu_frame s' v = mmu_frame s v" if v: "unat v < 0xFFC00" "v \<noteq> vpn" for v
  proof (cases "e_present (pde_of s v) \<and> e_address (pde_of s v) = ?t")
    case True
    then have "unat (v div 1024) = unat (vpn div 1024)"
      using tab pde below_window(2)[OF v(1)] b(2) by (simp add: tables_ok_def pde_of_def)
    with v(2) have "unat (v mod 1024) \<noteq> ?j" by (metis unat_eq_div_mod word_unat_eq_iff)
    then show ?thesis by (simp add: mmu_frame_alt pde' ph')
  next
    case False
    then show ?thesis by (auto simp: mmu_frame_alt pde' ph')
  qed
  ultimately show ?thesis using that[OF eq] by (simp add: s'_def)
qed

lemma pd_wf_frames [simp]:
  "pd_wf (s\<lparr>frames := p\<rparr>) = pd_wf s" "mmu_frame (s\<lparr>frames := p\<rparr>) v = mmu_frame s v"
  "pde_of (s\<lparr>frames := p\<rparr>) v = pde_of s v" "map_table v pt (s\<lparr>frames := p\<rparr>) = map_table v pt s"
  "fresh_table (s\<lparr>frames := p\<rparr>) t = fresh_table s t" "recursive (s\<lparr>frames := p\<rparr>) = recursive s"
  by (simp_all add: pd_wf_def recursive_def tables_ok_def pd_frame_def mmu_frame_def pde_of_def
      map_table_def fresh_table_def Let_def)

lemma deallocate_virtual_page_effect:
  assumes "pd_wf s" and "unat vpn < 0xFFC00" and "mmu_frame s vpn = Some f"
    and "pmm_deallocate_page f (frames s) = Some p"
  shows "\<exists>s'. deallocate_virtual_page vpn s = Some s' \<and> mmu_frame s' vpn = None \<and> pd_wf s' \<and>
    frames s' = p \<and> (\<forall>v. unat v < 0xFFC00 \<and> v \<noteq> vpn \<longrightarrow> mmu_frame s' v = mmu_frame s v)"
proof -
  note b = below_window[OF assms(2)]
  have pde: "e_present (pde_of s vpn)"
    and f: "f = e_address (phys s (e_address (pde_of s vpn)) (unat (vpn mod 1024)))"
    using assms(3) by (auto simp: mmu_frame_alt split: if_splits)
  have rec: "recursive s" using assms(1) by (simp add: pd_wf_def)
  obtain s' where "vmodify (get_pte vpn) (e_set_flag 0 False) (s\<lparr>frames := p\<rparr>) = Some s'"
    and "mmu_frame s' vpn = None" and "pd_wf s'" and "frames s' = p"
    and "\<And>v. unat v < 0xFFC00 \<Longrightarrow> v \<noteq> vpn \<Longrightarrow> mmu_frame s' v = mmu_frame s v"
    using unmap_effect[of "s\<lparr>frames := p\<rparr>" vpn] assms(1,2) pde by auto
  moreover have "vload (get_pte vpn) s = Some (phys s (e_address (pde_of s vpn)) (unat (vpn mod 1024)))"
    using vaccess_pt(1)[OF rec b(1) pde] by (simp add: get_pte_eq[OF b(1)])
  ultimately show ?thesis
    using assms(4) get_pte_not_null[OF b(1)]
    by (auto simp: deallocate_virtual_page_def Let_def f)
qed

section \<open>The boot code's page tables\<close>

text \<open>
  \<open>init/boot.asm\<close> before paging is on: memory is written at physical addresses. The directory
  lies in frame 6 and the tables from frame \<open>0x1100\<close> on, one for each entry of a directory. Six tables
  are installed twice, as the first entries of the directory and as the first entries of the
  upper half; the identity entries written are those of twenty-four tables.
\<close>

type_synonym pmem = "u32 \<Rightarrow> nat \<Rightarrow> u32"

definition PAGE_TABLE_COUNT :: nat where "PAGE_TABLE_COUNT = 6"

definition clear_page_directory :: "pmem \<Rightarrow> pmem" where
  "clear_page_directory p = p(6 := \<lambda>i. 0)"

definition clear_page_tables :: "pmem \<Rightarrow> pmem" where
  "clear_page_tables p = (\<lambda>f i. if 0x1100 \<le> f \<and> f < 0x1500 then 0 else p f i)"

definition create_identity_tables :: "pmem \<Rightarrow> pmem" where
  "create_identity_tables p = (\<lambda>f i.
     if 0x1100 \<le> f \<and> unat (f - 0x1100) * 1024 + i < PAGE_TABLE_COUNT * 0x1000
     then of_nat (unat (f - 0x1100) * 1024 + i) * 0x1000 OR 3 else p f i)"

definition create_pd :: "pmem \<Rightarrow> pmem" where
  "create_pd p = p(6 := \<lambda>i.
     if i < PAGE_TABLE_COUNT then KERNEL_PAGE_TABLES_PHYS_ADDR + of_nat i * 0x1000 OR 3
     else if 0x300 \<le> i \<and> i - 0x300 < PAGE_TABLE_COUNT
       then KERNEL_PAGE_TABLES_PHYS_ADDR + of_nat (i - 0x300) * 0x1000 OR 3
     else if i = 1023 then KERNEL_PAGE_DIR_PHYS_ADDR OR 3 else p 6 i)"

definition init_paging :: "vm \<Rightarrow> vm" where
  "init_paging s = s\<lparr>phys := create_pd (create_identity_tables (clear_page_tables (clear_page_directory (phys s)))),
     cr3 := KERNEL_PAGE_DIR_PHYS_ADDR\<rparr>"

lemma boot_pd_frame: "pd_frame (init_paging s) = 6"
  by (simp add: init_paging_def pd_frame_def KERNEL_PAGE_DIR_PHYS_ADDR_def drop_bit_eq_div)

lemma boot_directory:
  "phys (init_paging s) 6 i =
     (if i < 6 then 0x01100000 + of_nat i * 0x1000 OR 3
      else if 0x300 \<le> i \<and> i < 0x306 then 0x01100000 + of_nat (i - 0x300) * 0x1000 OR 3
      else if i = 1023 then 0x6003 else 0)"
  by (auto simp: init_paging_def create_pd_def create_identity_tables_def clear_page_tables_def
      clear_page_directory_def PAGE_TABLE_COUNT_def KERNEL_PAGE_TABLES_PHYS_ADDR_def KERNEL_PAGE_DIR_PHYS_ADDR_def)

lemma boot_recursive: "recursive (init_paging s)"
  by (simp add: recursive_def boot_pd_frame boot_directory e_present_def e_address_def drop_bit_eq_div)

lemma boot_directory_absent: "0x306 \<le> i \<Longrightarrow> i < 1023 \<Longrightarrow> \<not> e_present (phys (init_paging s) 6 i)"
  by (simp add: boot_directory e_present_def)

text \<open>The kernel's first page is reached at its address in the upper half and at its physical one: its
  directory shares tables between entries.\<close>

lemma boot_directory_shares_tables: "\<not> tables_ok (init_paging s)"
proof -
  have eq: "phys (init_paging s) 6 0 = 0x01100003" "phys (init_paging s) 6 0x300 = 0x01100003"
    by (simp_all add: boot_directory)
  have "e_present (0x01100003)" by (simp add: e_present_def)
  then have "tables_ok (init_paging s) \<Longrightarrow> (0 :: nat) = 0x300"
    using eq unfolding tables_ok_def boot_pd_frame by (elim allE[of _ 0] impE conjE allE[of _ "0x300"]) simp_all
  then show ?thesis by auto
qed

lemma boot_kernel_page:
  "mmu_frame (init_paging s) 0xC0100 = Some 0x100" "mmu_frame (init_paging s) 0x100 = Some 0x100"
proof -
  have "phys (init_paging s) 0x1100 0x100 = 0x100003"
    by (simp add: init_paging_def create_pd_def create_identity_tables_def PAGE_TABLE_COUNT_def)
  then show "mmu_frame (init_paging s) 0xC0100 = Some 0x100" "mmu_frame (init_paging s) 0x100 = Some 0x100"
    by (simp_all add: mmu_frame_alt pde_of_def boot_pd_frame boot_directory e_present_def e_address_def drop_bit_eq_div)
qed

section \<open>Properties\<close>

text \<open>C16. \<open>paging_map_page\<close> maps: in a well-formed address space, for a page below the recursive
  window whose table is already there or is given a frame no other entry uses, the call
  returns, afterwards the processor translates the page to the given frame, every other page
  whose table was present keeps its translation, and the space is well formed again.\<close>

theorem paging_map_page_maps:
  assumes "pd_wf s" and "unat vpn < 0xFFC00" and "unat pfn < 2 ^ 20"
    and "e_present (pde_of s vpn) \<or> fresh_table s (map_table vpn pt s)"
  shows "\<exists>s'. paging_map_page pfn vpn k pt s = Some s' \<and> mmu_frame s' vpn = Some pfn \<and> pd_wf s' \<and>
    (\<forall>v. unat v < 0xFFC00 \<and> v \<noteq> vpn \<and> e_present (pde_of s v) \<longrightarrow> mmu_frame s' v = mmu_frame s v)"
  using paging_map_page_effect[OF assms, of k] by metis

text \<open>A space with the recursive entry only: a directory before the first page is mapped.\<close>

definition vm_example :: vm where
  "vm_example = \<lparr>cr3 = 0x6000, phys = (\<lambda>f i. if f = 6 \<and> i = 1023 then 0x6003 else 0),
     current_page_directory = get_kernel_pd, frames = pmm_example\<rparr>"

lemma vm_example_wf: "pd_wf vm_example"
  by (simp add: pd_wf_def recursive_def tables_ok_def pd_frame_def vm_example_def e_present_def
      e_address_def drop_bit_eq_div)

lemma vm_example_table: "fresh_table vm_example (map_table 0x100 0x7000 vm_example)"
  by (simp add: fresh_table_def map_table_def pde_of_def pd_frame_def vm_example_def e_present_def
      drop_bit_eq_div)

theorem paging_map_page_maps_witness:
  "\<exists>s'. paging_map_page 0x42 0x100 False 0x7000 vm_example = Some s' \<and>
    mmu_frame s' 0x100 = Some 0x42 \<and> pd_wf s' \<and>
    (\<forall>v. unat v < 0xFFC00 \<and> v \<noteq> 0x100 \<and> e_present (pde_of vm_example v) \<longrightarrow>
       mmu_frame s' v = mmu_frame vm_example v)"
  using paging_map_page_maps[OF vm_example_wf, of "0x100" "0x42" "0x7000" False] vm_example_table
  by simp

text \<open>C33. \<open>get_physical_address\<close> is the processor's translation: with the recursive entry in
  place it always returns, with the physical address the table walk gives, or 0 for an
  unmapped page.\<close>

theorem get_physical_address_translates:
  assumes "recursive s"
  shows "get_physical_address va s = Some (case mmu_frame s (va div 4096) of
    None \<Rightarrow> 0 | Some f \<Rightarrow> push_bit 12 f + va mod 4096)"
proof -
  have vpn: "unat (va div 4096) < 2 ^ 20" using unat_lt_u32[of va] by (simp add: unat_div)
  have "get_physical_address va s =
      (if \<not> e_present (pde_of s (va div 4096)) then Some 0
       else let pte = phys s (e_address (pde_of s (va div 4096))) (unat (va div 4096 mod 1024))
         in if \<not> e_present pte then Some 0 else Some (push_bit 12 (e_address pte) + va mod 4096))"
    using vaccess_pt(1)[OF assms vpn]
    by (simp add: get_physical_address_def PAGE_SIZE_def PAGES_PER_TABLE_def Let_def
        vaccess_pd(1)[OF assms vpn])
  then show ?thesis by (simp add: mmu_frame_alt Let_def)
qed

theorem get_physical_address_translates_witness:
  "recursive vm_example \<and> get_physical_address 0xFFFFF123 vm_example = Some 0x6123"
proof
  show r: "recursive vm_example" using vm_example_wf by (simp add: pd_wf_def)
  have "mmu_frame vm_example 0xFFFFF = Some 6"
    by (simp add: mmu_frame_def vm_example_def e_present_def e_address_def drop_bit_eq_div)
  then show "get_physical_address 0xFFFFF123 vm_example = Some 0x6123"
    using get_physical_address_translates[OF r, of "0xFFFFF123"] by (simp add: push_bit_eq_mult)
qed

text \<open>C32. \<open>deallocate_virtual_page\<close> on a mapped page: the page is no longer translated, no other
  page below the recursive window changes, the space stays well formed, and the frame it was
  mapped to is the one given back to the frame manager.\<close>

theorem deallocate_virtual_page_unmaps:
  assumes "pd_wf s" and "unat vpn < 0xFFC00" and "mmu_frame s vpn = Some f"
    and "pmm_deallocate_page f (frames s) = Some p"
  shows "\<exists>s'. deallocate_virtual_page vpn s = Some s' \<and> mmu_frame s' vpn = None \<and> pd_wf s' \<and>
    frames s' = p \<and> (\<forall>v. unat v < 0xFFC00 \<and> v \<noteq> vpn \<longrightarrow> mmu_frame s' v = mmu_frame s v)"
  by (rule deallocate_virtual_page_effect[OF assms])

text \<open>The same space with one page mapped.\<close>

definition vm_mapped :: vm where
  "vm_mapped = vm_example\<lparr>phys := (\<lambda>f i. if f = 6 \<and> i = 1023 then 0x6003
     else if f = 6 \<and> i = 0 then 0x7003 else if f = 7 \<and> i = 0x100 then 0x22003 else 0)\<rparr>"

lemma vm_mapped_ok: "pd_wf vm_mapped" "mmu_frame vm_mapped 0x100 = Some 0x22"
  by (auto simp: pd_wf_def recursive_def tables_ok_def pd_frame_def vm_mapped_def vm_example_def
      e_present_def e_address_def drop_bit_eq_div mmu_frame_def)

theorem deallocate_virtual_page_unmaps_witness:
  "\<exists>p s'. pmm_deallocate_page 0x22 (frames vm_mapped) = Some p \<and>
    deallocate_virtual_page 0x100 vm_mapped = Some s' \<and> mmu_frame s' 0x100 = None \<and> pd_wf s' \<and>
    frames s' = p \<and> (\<forall>v. unat v < 0xFFC00 \<and> v \<noteq> 0x100 \<longrightarrow> mmu_frame s' v = mmu_frame vm_mapped v)"
proof -
  obtain p where p: "pmm_deallocate_page 0x22 (frames vm_mapped) = Some p"
    by (simp add: pmm_deallocate_page_def vm_mapped_def vm_example_def pmm_example_def set_free_eq
        capacity_def)
  then show ?thesis
    using deallocate_virtual_page_unmaps[OF vm_mapped_ok(1) _ vm_mapped_ok(2) p] by simp
qed

text \<open>\<open>allocate_kernel_virtual_page\<close>: it always returns; it answers false exactly when no
  frame is left, and then only the frame manager was consulted; otherwise the page is mapped to a
  frame that was free before and is occupied now, and no other mapped page changes.\<close>

lemma allocate_kernel_virtual_page_maps:
  assumes "pd_wf s" and "unat vpn < 0xFFC00" and "pmm_wf (frames s)" and "occ (frames s) 0"
    and "unat (max_pages (frames s)) \<le> 2 ^ 20"
    and "e_present (pde_of s vpn) \<or> fresh_table s (map_table vpn 0 s)"
  shows "\<exists>ok s'. allocate_kernel_virtual_page vpn k s = Some (ok, s') \<and> pd_wf s' \<and>
    (if ok then \<exists>f. mmu_frame s' vpn = Some f \<and> \<not> occ (frames s) (unat f) \<and>
       occupied (frames s') = insert (unat f) (occupied (frames s)) \<and>
       (\<forall>v. unat v < 0xFFC00 \<and> v \<noteq> vpn \<and> e_present (pde_of s v) \<longrightarrow> mmu_frame s' v = mmu_frame s v)
     else s' = s \<and> (used_pages (frames s) = max_pages (frames s) \<or>
       (\<forall>j < scanned (frames s). occ (frames s) j)))"
proof (rule pmm_allocate_page_cases[OF assms(3)], goal_cases full page)
  case full
  then show ?case using assms(1) by (auto simp: allocate_kernel_virtual_page_def)
next
  case (page f p)
  have "f \<noteq> 0" using page(3) assms(4) by auto
  have f: "unat f < 2 ^ 20" using page(2) scanned_le_max[of "frames s"] assms(5) by linarith
  let ?s = "s\<lparr>frames := p\<rparr>"
  obtain s' where "paging_map_page f vpn k 0 ?s = Some s'"
    and "mmu_frame s' vpn = Some f" and "pd_wf s'" and "frames s' = frames ?s"
    and "\<And>v. unat v < 0xFFC00 \<Longrightarrow> v \<noteq> vpn \<Longrightarrow> e_present (pde_of ?s v) \<Longrightarrow> mmu_frame s' v = mmu_frame ?s v"
    using paging_map_page_effect[of ?s vpn f 0 k] assms(1,2,6) f by (metis pd_wf_frames)
  with page \<open>f \<noteq> 0\<close> show ?case
    by (auto simp: allocate_kernel_virtual_page_def paging_map_kernel_page_def)
qed


text \<open>One physical page table for two directory entries, which is what the callers of
  \<open>allocate_multiple_pages\<close> and of the ELF loader pass for every page of a process, makes pages of
  different directory entries share their translation: when two pages of the lower half
  with the same index in their tables are mapped one after the other and neither had a table,
  the first page ends up translated to the frame given to the second one.\<close>

lemma paging_shared_table_aliases:
  assumes "recursive s" and "unat v < 0xC0000" and "unat w < 0xC0000"
    and "v div 1024 \<noteq> w div 1024" and "v mod 1024 = w mod 1024"
    and "\<not> e_present (pde_of s v)" and "\<not> e_present (pde_of s w)"
    and "drop_bit 12 pt \<noteq> pd_frame s" and "unat g < 2 ^ 20"
  shows "\<exists>s' s''. paging_map_page f v k pt s = Some s' \<and> paging_map_page g w k pt s' = Some s'' \<and>
    mmu_frame s'' v = Some g \<and> mmu_frame s'' w = Some g"
proof -
  let ?t = "drop_bit 12 pt"
  have b: "unat v < 0xFFC00" "unat w < 0xFFC00" using assms(2,3) by linarith+
  have lo: "\<not> 0xC0000 \<le> v" "\<not> 0xC0000 \<le> w" using assms(2,3) by (simp_all add: word_le_nat_alt)
  have tv: "map_table v pt s = ?t" using assms(6) lo by (simp add: map_table_def)
  then have td: "map_table v pt s \<noteq> pd_frame s" using assms(8) by simp
  define s' where "s' = map_result f v k pt s"
  note R = map_result_reads[OF td, where pfn = f and k = k, folded s'_def]
  have s': "paging_map_page f v k pt s = Some s'" "pd_frame s' = pd_frame s"
    using paging_map_page_eq[OF assms(1) b(1) td] by (simp_all add: s'_def)
  have rec: "recursive s'" using assms(1) below_window(2)[OF b(1)] by (simp add: recursive_def s'(2) R(1))
  have tw: "map_table w pt s' = ?t" using assms(4,7) lo by (simp add: map_table_def R(3))
  then have td': "map_table w pt s' \<noteq> pd_frame s'" using assms(8) s'(2) by simp
  define s'' where "s'' = map_result g w k pt s'"
  note R' = map_result_reads[OF td', where pfn = g and k = k, folded s''_def]
  have s'': "paging_map_page g w k pt s' = Some s''"
    using paging_map_page_eq[OF rec b(2) td'] by (simp add: s''_def)
  have "take_bit 20 g = g"
    using assms(9) by (simp add: word_unat_eq_iff unsigned_take_bit_eq take_bit_nat_eq_self)
  then have "mmu_frame s'' v = Some g" "mmu_frame s'' w = Some g"
    using assms(4,5) td td' by (simp_all add: mmu_frame_alt R' R(3) s'(2) tv tw pte_simps)
  with s' s'' show ?thesis by blast
qed

end
