(* ===== verification/Heap.thy ===== *)
theory Heap
  imports Paging
begin

text \<open>
  The kernel heap, \<open>memory/heap/heap.h\<close> and \<open>heap.c\<close>: a doubly linked list of block headers
  laid out in virtual memory from \<open>KERNEL_CODE_END\<close> upwards, first fit, growing one page at a
  time through the paging layer.

  A header has three words: \<open>is_free\<close> (a byte, the low byte of the first word), \<open>next\<close> and
  \<open>prev\<close>. Headers live in the paged memory of the state, and every field access is a
  translated access: touching an unmapped page is \<open>None\<close>.
\<close>

section \<open>State and header fields\<close>

record heap =
  vmem :: vm
  curr_heap_end :: u32
  last_entry :: u32

definition KERNEL_CODE_END :: u32 where "KERNEL_CODE_END = 0xC1800000"
definition KERNEL_HEAP_END :: u32 where "KERNEL_HEAP_END = 0xFFFFF000"
definition heap_start :: u32 where "heap_start = KERNEL_CODE_END"
definition sizeof_heap_entry :: u32 where "sizeof_heap_entry = 12"
definition MIN_BLOCK_SIZE :: u32 where "MIN_BLOCK_SIZE = 4"

definition ALIGN :: "u32 \<Rightarrow> u32 \<Rightarrow> u32" where
  "ALIGN n alignment = (n + alignment - 1) AND NOT (alignment - 1)"

definition is_free :: "u32 \<Rightarrow> heap \<Rightarrow> bool option" where
  "is_free e h = do { w \<leftarrow> vload e (vmem h); Some ((ucast w :: u8) \<noteq> 0) }"

definition next_of :: "u32 \<Rightarrow> heap \<Rightarrow> u32 option" where
  "next_of e h = vload (e + 4) (vmem h)"

definition prev_of :: "u32 \<Rightarrow> heap \<Rightarrow> u32 option" where
  "prev_of e h = vload (e + 8) (vmem h)"

definition put :: "u32 \<Rightarrow> (u32 \<Rightarrow> u32) \<Rightarrow> heap \<Rightarrow> heap option" where
  "put a g h = do { v \<leftarrow> vmodify a g (vmem h); Some (h\<lparr>vmem := v\<rparr>) }"

definition set_is_free :: "u32 \<Rightarrow> bool \<Rightarrow> heap \<Rightarrow> heap option" where
  "set_is_free e b = put e (\<lambda>w. (w AND 0xFFFFFF00) OR (if b then 1 else 0))"

definition set_next :: "u32 \<Rightarrow> u32 \<Rightarrow> heap \<Rightarrow> heap option" where
  "set_next e v = put (e + 4) (\<lambda>_. v)"

definition set_prev :: "u32 \<Rightarrow> u32 \<Rightarrow> heap \<Rightarrow> heap option" where
  "set_prev e v = put (e + 8) (\<lambda>_. v)"

definition BLOCK_SIZE :: "u32 \<Rightarrow> heap \<Rightarrow> u32 option" where
  "BLOCK_SIZE block h = do { n \<leftarrow> next_of block h; Some (n - block - sizeof_heap_entry) }"

section \<open>Pages of the heap\<close>

definition allocate_heap_page :: "heap \<Rightarrow> (bool \<times> heap) option" where
  "allocate_heap_page h =
     (if KERNEL_HEAP_END \<le> curr_heap_end h then Some (False, h)
      else do {
        (ok, v) \<leftarrow> allocate_kernel_virtual_page (curr_heap_end h div PAGE_SIZE) True (vmem h);
        let h = h\<lparr>vmem := v\<rparr>;
        if ok then Some (True, h\<lparr>curr_heap_end := curr_heap_end h + PAGE_SIZE\<rparr>)
        else Some (False, h)
      })"

definition deallocate_last_heap_page :: "heap \<Rightarrow> heap option" where
  "deallocate_last_heap_page h = do {
     let last_page_start_addr = curr_heap_end h - PAGE_SIZE;
     v \<leftarrow> deallocate_virtual_page (last_page_start_addr div PAGE_SIZE) (vmem h);
     Some (h\<lparr>vmem := v, curr_heap_end := curr_heap_end h - PAGE_SIZE\<rparr>)
   }"

definition heap_init :: "heap \<Rightarrow> (bool \<times> heap) option" where
  "heap_init h = do {
     (ok, h) \<leftarrow> allocate_heap_page h;
     if \<not> ok then Some (False, h)
     else do {
       let first = heap_start;
       let l = curr_heap_end h - sizeof_heap_entry;
       let h = h\<lparr>last_entry := l\<rparr>;
       h \<leftarrow> set_next l 0 h;
       h \<leftarrow> set_prev l first h;
       h \<leftarrow> set_is_free l False h;
       h \<leftarrow> set_next first l h;
       h \<leftarrow> set_prev first 0 h;
       h \<leftarrow> set_is_free first True h;
       Some (True, h)
     }
   }"

section \<open>Allocation\<close>

text \<open>
  One round of the search loop that has reached the end of the heap: a page is added and
  either the free block before the end entry grows or the end entry becomes a free block.
  The answer is the entry to try again, or \<open>None\<close> where the code returns NULL.
\<close>

definition define_last_entry :: "u32 \<Rightarrow> heap \<Rightarrow> heap option" where
  "define_last_entry cur h = do {
     h \<leftarrow> set_next cur (curr_heap_end h - sizeof_heap_entry) h;
     l \<leftarrow> next_of cur h;
     let h = h\<lparr>last_entry := l\<rparr>;
     h \<leftarrow> set_next l 0 h;
     h \<leftarrow> set_prev l cur h;
     set_is_free l False h
   }"

definition heap_grow :: "u32 \<Rightarrow> heap \<Rightarrow> (u32 option \<times> heap) option" where
  "heap_grow cur h = do {
     (ok, h) \<leftarrow> allocate_heap_page h;
     if \<not> ok then Some (None, h)
     else do {
       p \<leftarrow> prev_of cur h;
       use_prev \<leftarrow> (if p \<noteq> 0 then is_free p h else Some False);
       (cur, h) \<leftarrow> (if use_prev then Some (p, h)
                     else do { h \<leftarrow> set_is_free cur True h; Some (cur, h) });
       h \<leftarrow> define_last_entry cur h;
       Some (Some cur, h)
     }
   }"

partial_function (option) heap_search :: "u32 \<Rightarrow> u32 \<Rightarrow> heap \<Rightarrow> (u32 option \<times> heap) option" where
  "heap_search wanted_size cur h = do {
     free \<leftarrow> is_free cur h;
     n \<leftarrow> next_of cur h;
     if \<not> free \<or> n = 0 \<or> n - cur - sizeof_heap_entry < wanted_size then
       if n = 0 \<or> curr_heap_end h \<le> n then do {
         (r, h) \<leftarrow> heap_grow cur h;
         (case r of None \<Rightarrow> Some (None, h) | Some cur \<Rightarrow> heap_search wanted_size cur h)
       } else heap_search wanted_size n h
     else Some (Some cur, h)
   }"

text \<open>The block found is cut when the rest can hold a header and \<open>MIN_BLOCK_SIZE\<close> bytes.\<close>

definition heap_take :: "u32 \<Rightarrow> u32 \<Rightarrow> heap \<Rightarrow> (u32 \<times> heap) option" where
  "heap_take wanted_size cur h = do {
     bs \<leftarrow> BLOCK_SIZE cur h;
     h \<leftarrow> (if wanted_size + sizeof_heap_entry + MIN_BLOCK_SIZE \<le> bs then do {
             curr_end \<leftarrow> next_of cur h;
             h \<leftarrow> set_next cur (cur + wanted_size + sizeof_heap_entry) h;
             n \<leftarrow> next_of cur h;
             h \<leftarrow> set_next n curr_end h;
             h \<leftarrow> set_prev n cur h;
             h \<leftarrow> set_is_free n True h;
             set_prev curr_end n h
           } else Some h);
     h \<leftarrow> set_is_free cur False h;
     Some (cur + sizeof_heap_entry, h)
   }"

definition heap_find_first_free_space :: "u32 \<Rightarrow> heap \<Rightarrow> (u32 \<times> heap) option" where
  "heap_find_first_free_space wanted_size h =
     (if wanted_size = 0 \<or> KERNEL_HEAP_END - heap_start < wanted_size then Some (0, h)
      else do {
        let wanted_size = ALIGN wanted_size 4;
        (r, h) \<leftarrow> heap_search wanted_size heap_start h;
        (case r of None \<Rightarrow> Some (0, h) | Some cur \<Rightarrow> heap_take wanted_size cur h)
      })"

definition kmalloc :: "u32 \<Rightarrow> heap \<Rightarrow> (u32 \<times> heap) option" where
  "kmalloc n h = heap_find_first_free_space n h"

section \<open>Release\<close>

definition free_block :: "u32 \<Rightarrow> heap \<Rightarrow> heap option" where
  "free_block block h =
     (if block < heap_start \<or> KERNEL_HEAP_END < block then Some h
      else do {
        n \<leftarrow> next_of block h;
        if n = 0 then Some h
        else do {
          nn \<leftarrow> next_of n h;
          if nn = 0 then do {
            let h = h\<lparr>last_entry := block\<rparr>;
            h \<leftarrow> set_next block 0 h;
            h \<leftarrow> set_is_free block True h;
            if ALIGN block PAGE_SIZE < ALIGN (curr_heap_end h) PAGE_SIZE
            then deallocate_last_heap_page h else Some h
          } else do {
            p \<leftarrow> prev_of block h;
            prev_free \<leftarrow> (if p \<noteq> 0 then is_free p h else Some False);
            if prev_free then do {
              n \<leftarrow> next_of block h;
              set_next p n h
            } else do {
              n_free \<leftarrow> is_free n h;
              h \<leftarrow> (if n_free then do { nn \<leftarrow> next_of n h; set_next block nn h } else Some h);
              set_is_free block True h
            }
          }
        }
      })"

definition kfree :: "u32 \<Rightarrow> heap \<Rightarrow> heap option" where
  "kfree addr h = (if addr = 0 then Some h else free_block (addr - sizeof_heap_entry) h)"

section \<open>Page-aligned allocation\<close>

fun release_pages :: "nat \<Rightarrow> heap \<Rightarrow> heap option" where
  "release_pages 0 h = Some h"
| "release_pages (Suc j) h = do { h \<leftarrow> deallocate_last_heap_page h; release_pages j h }"

text \<open>The loop that adds the pages: \<open>i\<close> are there, \<open>n\<close> are to come.\<close>

fun add_pages :: "nat \<Rightarrow> nat \<Rightarrow> heap \<Rightarrow> (bool \<times> heap) option" where
  "add_pages i 0 h = Some (True, h)"
| "add_pages i (Suc n) h = do {
     (ok, h) \<leftarrow> allocate_heap_page h;
     if \<not> ok then do { h \<leftarrow> release_pages i h; Some (False, h) }
     else add_pages (Suc i) n h
   }"

definition kmalloc_pages :: "u32 \<Rightarrow> heap \<Rightarrow> (u32 \<times> heap) option" where
  "kmalloc_pages page_amount h =
     (if page_amount = 0 \<or> (KERNEL_HEAP_END - heap_start) div PAGE_SIZE < page_amount
      then Some (0, h)
      else do {
        (ok, h) \<leftarrow> add_pages 0 (unat (page_amount + 1)) h;
        if \<not> ok then Some (0, h)
        else do {
          let returned_entry = curr_heap_end h - (page_amount + 1) * PAGE_SIZE - sizeof_heap_entry;
          h \<leftarrow> set_is_free returned_entry False h;
          lp \<leftarrow> prev_of (last_entry h) h;
          lp_free \<leftarrow> is_free lp h;
          h \<leftarrow> (if \<not> lp_free then do {
                  h \<leftarrow> set_next lp returned_entry h;
                  lp \<leftarrow> prev_of (last_entry h) h;
                  set_prev returned_entry lp h
                } else do {
                  lpp \<leftarrow> prev_of lp h;
                  h \<leftarrow> set_next lpp returned_entry h;
                  lp \<leftarrow> prev_of (last_entry h) h;
                  lpp \<leftarrow> prev_of lp h;
                  set_prev returned_entry lpp h
                });
          h \<leftarrow> set_next returned_entry (returned_entry + page_amount * PAGE_SIZE + sizeof_heap_entry) h;
          n \<leftarrow> next_of returned_entry h;
          h \<leftarrow> set_is_free n True h;
          let l = curr_heap_end h - sizeof_heap_entry;
          let h = h\<lparr>last_entry := l\<rparr>;
          h \<leftarrow> set_is_free l False h;
          n \<leftarrow> next_of returned_entry h;
          h \<leftarrow> set_prev l n h;
          n \<leftarrow> next_of returned_entry h;
          h \<leftarrow> set_next n l h;
          n \<leftarrow> next_of returned_entry h;
          h \<leftarrow> set_prev n returned_entry h;
          Some (returned_entry + sizeof_heap_entry, h)
        }
      })"

definition get_heap_end :: "heap \<Rightarrow> u32" where
  "get_heap_end h = curr_heap_end h"

section \<open>The heap's address space\<close>

text \<open>
  The page tables of the heap's addresses: \<open>paging_map_page\<close> uses one fixed frame for each directory entry of the upper
  half. The entries below the heap, those of the kernel's image and of a process, may look any way:
  the boot code installs the tables of the kernel's image a second time at the low addresses.
\<close>

definition ktables :: "u32 set" where
  "ktables = {0x1100 + of_nat i | i. 774 \<le> i \<and> i < 1023}"

text \<open>
  \<open>heap_space V e\<close>: the directory in use maps itself; the pages from \<open>KERNEL_CODE_END\<close> to page number
  \<open>e\<close> are mapped through those tables to distinct occupied frames which are none of the tables, and there
  are fewer frames than pages between \<open>KERNEL_CODE_END\<close> and the recursive window. The directory may itself
  be one of these pages: \<open>create_process_from_elf\<close> takes the directory of a process from the heap.
\<close>

definition heap_space :: "vm \<Rightarrow> nat \<Rightarrow> bool" where
  "heap_space V e \<longleftrightarrow> recursive V \<and> pmm_wf (frames V) \<and> occ (frames V) 0 \<and>
     unat (max_pages (frames V)) < 0x3E400 \<and> 0xC1800 \<le> e \<and> e \<le> 0xFFC00 \<and>
     (\<forall>f \<in> insert (pd_frame V) ktables. occ (frames V) (unat f)) \<and> pd_frame V \<notin> ktables \<and>
     (\<forall>i. 774 \<le> i \<and> i < 1023 \<and> e_present (phys V (pd_frame V) i) \<longrightarrow>
        e_address (phys V (pd_frame V) i) = 0x1100 + of_nat i) \<and>
     (\<forall>v. 0xC1800 \<le> unat v \<and> unat v < e \<longrightarrow> (\<exists>f. mmu_frame V v = Some f \<and> f \<notin> ktables \<and>
        occ (frames V) (unat f) \<and> unat f < scanned (frames V))) \<and>
     inj_on (mmu_frame V) {v. 0xC1800 \<le> unat v \<and> unat v < e}"

lemma heap_spaceD:
  assumes "heap_space V e"
  shows "recursive V" "pmm_wf (frames V)" "occ (frames V) 0" "unat (max_pages (frames V)) < 0x3E400"
    "0xC1800 \<le> e" "e \<le> 0xFFC00" "\<And>f. f \<in> insert (pd_frame V) ktables \<Longrightarrow> occ (frames V) (unat f)"
    "inj_on (mmu_frame V) {v. 0xC1800 \<le> unat v \<and> unat v < e}" "pd_frame V \<notin> ktables"
    "\<And>i. 774 \<le> i \<Longrightarrow> i < 1023 \<Longrightarrow> e_present (phys V (pd_frame V) i) \<Longrightarrow>
      e_address (phys V (pd_frame V) i) = 0x1100 + of_nat i"
  using assms unfolding heap_space_def by blast+

lemma heap_space_page:
  assumes "heap_space V e" and "0xC1800 \<le> unat v" and "unat v < e"
  obtains f where "mmu_frame V v = Some f" and "f \<notin> ktables" and "occ (frames V) (unat f)"
    and "unat f < scanned (frames V)"
  using assms unfolding heap_space_def by blast

lemma heap_space_mapped:
  "heap_space V e \<Longrightarrow> 0xC1800 \<le> unat v \<Longrightarrow> unat v < e \<Longrightarrow> \<exists>f. mmu_frame V v = Some f"
  using heap_space_page by metis

text \<open>The directory entry and the table of a page above \<open>KERNEL_CODE_END\<close>.\<close>

lemma heap_pde:
  assumes "0xC1800 \<le> unat (v :: u32)" and "unat v < 0xFFC00"
  shows "774 \<le> unat (v div 1024)" and "unat (v div 1024) < 1023"
    and "unat (v div 1024) = unat v div 1024"
  using assms by (simp_all add: unat_div)

lemma heap_space_table:
  assumes hs: "heap_space V e" and v: "0xC1800 \<le> unat v" "unat v < 0xFFC00" and p: "e_present (pde_of V v)"
  shows "e_address (pde_of V v) = 0x1100 + of_nat (unat v div 1024)" and "e_address (pde_of V v) \<in> ktables"
proof -
  show eq: "e_address (pde_of V v) = 0x1100 + of_nat (unat v div 1024)"
    using heap_spaceD(10)[OF hs heap_pde(1,2)[OF v]] p by (simp add: pde_of_def heap_pde(3)[OF v])
  then show "e_address (pde_of V v) \<in> ktables"
    using heap_pde[OF v] unfolding ktables_def eq by (intro CollectI exI[of _ "unat v div 1024"]) simp
qed

text \<open>Writing to a frame that is neither the directory nor one of the tables leaves the translation of
  these pages alone.\<close>

lemma mmu_frame_pwrite_data:
  assumes hs: "heap_space V e" and f: "f \<notin> ktables" "f \<noteq> pd_frame V"
    and v: "0xC1800 \<le> unat v" "unat v < 0xFFC00"
  shows "mmu_frame (pwrite f i w V) v = mmu_frame V v"
proof -
  have "pde_of (pwrite f i w V) v = pde_of V v" using f(2) by (simp add: pde_of_pwrite)
  moreover have "e_present (pde_of V v) \<Longrightarrow> e_address (pde_of V v) \<noteq> f"
    using heap_space_table(2)[OF hs v] f(1) by blast
  ultimately show ?thesis by (auto simp: mmu_frame_alt phys_pwrite)
qed

lemma heap_space_pwrite:
  assumes hs: "heap_space V e" and f: "f \<notin> ktables" "f \<noteq> pd_frame V"
  shows "heap_space (pwrite f i w V) e"
proof -
  have pd: "phys (pwrite f i w V) (pd_frame V) j = phys V (pd_frame V) j" for j
    using f(2) by (simp add: phys_pwrite)
  have rec: "recursive (pwrite f i w V)" using heap_spaceD(1)[OF hs] f(2) by (simp add: recursive_pwrite)
  have mmu: "mmu_frame (pwrite f i w V) v = mmu_frame V v" if "0xC1800 \<le> unat v" "unat v < e" for v
    using that heap_spaceD(6)[OF hs] by (intro mmu_frame_pwrite_data[OF hs f]) linarith+
  have "inj_on (mmu_frame (pwrite f i w V)) {v. 0xC1800 \<le> unat v \<and> unat v < e} =
      inj_on (mmu_frame V) {v. 0xC1800 \<le> unat v \<and> unat v < e}"
    by (rule inj_on_cong) (simp add: mmu)
  then show ?thesis
    using hs rec unfolding heap_space_def by (simp add: pd mmu)
qed

text \<open>
  The heap's memory as a word array over addresses. The page on which the directory in use lies, when the
  heap has it, is left out: it is in the hands of the paging code.
\<close>

definition dir_page :: "vm \<Rightarrow> nat \<Rightarrow> bool" where
  "dir_page V p \<longleftrightarrow> mmu_frame V (of_nat p) = Some (pd_frame V)"

definition in_heap :: "vm \<Rightarrow> nat \<Rightarrow> nat \<Rightarrow> bool" where
  "in_heap V e n \<longleftrightarrow> n mod 4 = 0 \<and> 0xC1800000 \<le> n \<and> n < e * 4096 \<and> \<not> dir_page V (n div 4096)"

definition heap_view :: "vm \<Rightarrow> nat \<Rightarrow> (nat \<Rightarrow> u32) \<Rightarrow> bool" where
  "heap_view V e m \<longleftrightarrow> heap_space V e \<and> (\<forall>n. in_heap V e n \<longrightarrow> vload (of_nat n) V = Some (m n))"

lemma in_heap_page:
  assumes "in_heap V e n" and "e \<le> 0xFFC00"
  shows "unat (of_nat n div 4096 :: u32) = n div 4096" and "unat (of_nat n :: u32) = n"
    and "unat (of_nat n mod 4096 div 4 :: u32) = n mod 4096 div 4"
    and "0xC1800 \<le> n div 4096" and "n div 4096 < e"
    and "of_nat (n div 4096) = (of_nat n div 4096 :: u32)"
proof -
  have "n < 2 ^ 32" using assms by (simp add: in_heap_def)
  then show u: "unat (of_nat n :: u32) = n" by (rule unat_of_nat_u32)
  show d: "unat (of_nat n div 4096 :: u32) = n div 4096" by (simp add: unat_div u)
  show "unat (of_nat n mod 4096 div 4 :: u32) = n mod 4096 div 4" by (simp add: unat_div unat_mod u)
  show "0xC1800 \<le> n div 4096"
    using assms(1) div_le_mono[of "0xC1800000" n 4096] by (simp add: in_heap_def)
  show "n div 4096 < e" using assms(1) by (simp add: in_heap_def less_mult_imp_div_less)
  show "of_nat (n div 4096) = (of_nat n div 4096 :: u32)" by (simp flip: d)
qed

lemma in_heap_frame:
  assumes hs: "heap_space V e" and n: "in_heap V e n"
  obtains f where "mmu_frame V (of_nat n div 4096) = Some f" and "f \<notin> ktables" and "f \<noteq> pd_frame V"
proof -
  note pn = in_heap_page[OF n heap_spaceD(6)[OF hs]]
  obtain f where f: "mmu_frame V (of_nat n div 4096) = Some f" "f \<notin> ktables"
    using heap_space_page[OF hs, of "of_nat n div 4096"] pn by metis
  moreover have "f \<noteq> pd_frame V" using n f(1) pn(6) by (auto simp: in_heap_def dir_page_def)
  ultimately show ?thesis using that by blast
qed

lemma same_word:
  assumes "(n::nat) mod 4 = 0" and "k mod 4 = 0" and "n div 4096 = k div 4096"
    and "n mod 4096 div 4 = k mod 4096 div 4"
  shows "n = k"
proof -
  have "n mod 4096 mod 4 = 0" "k mod 4096 mod 4 = 0" using assms(1,2) by (simp_all add: mod_mod_cancel)
  with assms(4) have "n mod 4096 = k mod 4096" by (metis div_mult_mod_eq)
  with assms(3) show ?thesis by (metis div_mult_mod_eq)
qed

lemma heap_view_load: "heap_view V e m \<Longrightarrow> in_heap V e n \<Longrightarrow> vload (of_nat n) V = Some (m n)"
  by (simp add: heap_view_def)

text \<open>The page of the directory stays where it is when a word of the heap is written.\<close>

lemma pwrite_in_heap:
  assumes hs: "heap_space V e" and f: "f \<notin> ktables" "f \<noteq> pd_frame V"
  shows "0xC1800 \<le> p \<Longrightarrow> p < e \<Longrightarrow> dir_page (pwrite f i w V) p = dir_page V p"
    and "in_heap (pwrite f i w V) e n = in_heap V e n"
proof -
  show D: "dir_page (pwrite f i w V) p = dir_page V p" if "0xC1800 \<le> p" "p < e" for p
  proof -
    have "unat (of_nat p :: u32) = p" using that heap_spaceD(6)[OF hs] by (intro unat_of_nat_u32) simp
    then have "mmu_frame (pwrite f i w V) (of_nat p) = mmu_frame V (of_nat p)"
      using that heap_spaceD(6)[OF hs] by (intro mmu_frame_pwrite_data[OF hs f]) simp_all
    then show ?thesis by (simp add: dir_page_def)
  qed
  show "in_heap (pwrite f i w V) e n = in_heap V e n"
  proof (cases "0xC1800000 \<le> n \<and> n < e * 4096")
    case True
    then have "0xC1800 \<le> n div 4096" "n div 4096 < e"
      using div_le_mono[of "0xC1800000" n 4096] by (simp_all add: less_mult_imp_div_less)
    then show ?thesis using D by (simp add: in_heap_def)
  qed (auto simp: in_heap_def)
qed

lemma heap_view_store:
  assumes hv: "heap_view V e m" and n: "in_heap V e n"
  obtains f where "vstore (of_nat n) w V = Some (pwrite f (n mod 4096 div 4) w V)"
    and "f \<notin> ktables" and "f \<noteq> pd_frame V"
    and "heap_view (pwrite f (n mod 4096 div 4) w V) e (m(n := w))"
proof -
  have hs: "heap_space V e" using hv by (simp add: heap_view_def)
  note e = heap_spaceD(6)[OF hs]
  note pn = in_heap_page[OF n e]
  obtain f where f: "mmu_frame V (of_nat n div 4096) = Some f" "f \<notin> ktables" "f \<noteq> pd_frame V"
    using in_heap_frame[OF hs n] .
  let ?V' = "pwrite f (n mod 4096 div 4) w V"
  have st: "vstore (of_nat n) w V = Some ?V'"
    using f(1) pn(3) by (simp add: vstore_def pwrite_def)
  have "vload (of_nat k) ?V' = Some ((m(n := w)) k)" if k: "in_heap V e k" for k
  proof -
    note pk = in_heap_page[OF k e]
    obtain g where g: "mmu_frame V (of_nat k div 4096) = Some g" using in_heap_frame[OF hs k] .
    have mmu: "mmu_frame ?V' (of_nat k div 4096) = Some g"
      using mmu_frame_pwrite_data[OF hs f(2,3), of "of_nat k div 4096"] pk(1,4,5) e g by simp
    have mk: "phys V g (k mod 4096 div 4) = m k"
      using heap_view_load[OF hv k] g pk(3) by (simp add: vload_def)
    show ?thesis
    proof (cases "k = n")
      case True
      with f(1) g have "g = f" by simp
      with True mmu pk(3) show ?thesis by (simp add: vload_def phys_pwrite)
    next
      case False
      have "\<not> (g = f \<and> k mod 4096 div 4 = n mod 4096 div 4)"
      proof
        assume A: "g = f \<and> k mod 4096 div 4 = n mod 4096 div 4"
        with g f(1) have "(of_nat k div 4096 :: u32) = of_nat n div 4096"
          using heap_spaceD(8)[OF hs] pk pn by (auto simp: inj_on_def)
        then have "k div 4096 = n div 4096" using pk(1) pn(1) by metis
        then show False using same_word[of k n] A False n k by (simp add: in_heap_def)
      qed
      with False mmu pk(3) mk show ?thesis by (auto simp: vload_def phys_pwrite)
    qed
  qed
  then have "heap_view ?V' e (m(n := w))"
    using heap_space_pwrite[OF hs f(2,3)] by (simp add: heap_view_def pwrite_in_heap(2)[OF hs f(2,3)])
  then show ?thesis using that st f(2,3) by blast
qed

section \<open>Growing the heap's space\<close>

lemma heap_space_room:
  assumes hs: "heap_space V e"
  shows "e < 0xFFC00"
proof -
  let ?A = "{v :: u32. 0xC1800 \<le> unat v \<and> unat v < e}"
  have e: "e \<le> 0xFFC00" using heap_spaceD(6)[OF hs] .
  have "inj_on (\<lambda>v. unat (the (mmu_frame V v))) ?A"
  proof (rule inj_onI)
    fix v w assume A: "v \<in> ?A" "w \<in> ?A" "unat (the (mmu_frame V v)) = unat (the (mmu_frame V w))"
    obtain f g where "mmu_frame V v = Some f" "mmu_frame V w = Some g"
      using heap_space_mapped[OF hs, of v] heap_space_mapped[OF hs, of w] A(1,2) by blast
    with A heap_spaceD(8)[OF hs] show "v = w" by (auto simp: inj_on_def word_unat_eq_iff)
  qed
  moreover have "(\<lambda>v. unat (the (mmu_frame V v))) ` ?A \<subseteq> {..<scanned (frames V)}"
  proof
    fix x assume "x \<in> (\<lambda>v. unat (the (mmu_frame V v))) ` ?A"
    then obtain v where v: "0xC1800 \<le> unat v" "unat v < e" "x = unat (the (mmu_frame V v))" by auto
    obtain f where "mmu_frame V v = Some f" "unat f < scanned (frames V)"
      using heap_space_page[OF hs v(1,2)] by metis
    with v(3) show "x \<in> {..<scanned (frames V)}" by simp
  qed
  ultimately have "card ?A \<le> scanned (frames V)"
    using card_inj_on_le[of _ ?A "{..<scanned (frames V)}"] by simp
  moreover have "card ?A = e - 0xC1800"
  proof -
    have "bij_betw unat ?A {0xC1800..<e}"
    proof (rule bij_betw_imageI)
      show "inj_on unat ?A" by (auto simp: inj_on_def word_unat_eq_iff)
      show "unat ` ?A = {0xC1800..<e}"
      proof
        show "{0xC1800..<e} \<subseteq> unat ` ?A"
        proof
          fix n assume n: "n \<in> {0xC1800..<e}"
          then have "unat (of_nat n :: u32) = n" using e by (intro unat_of_nat_u32) auto
          then show "n \<in> unat ` ?A" using n by (intro image_eqI[of _ _ "of_nat n"]) auto
        qed
      qed auto
    qed
    then show ?thesis by (simp add: bij_betw_same_card)
  qed
  ultimately show ?thesis
    using heap_spaceD(4)[OF hs] heap_spaceD(5)[OF hs] scanned_le_max[of "frames V"] by linarith
qed

lemma kernel_map_table:
  assumes "0xC0000 \<le> unat v" and "unat v < 0xFFC00" and "\<not> e_present (pde_of V v)"
  shows "map_table v 0 V = 0x1100 + of_nat (unat v div 1024)"
proof -
  have "unat (v div 1024) \<le> 1022" using assms(2) by (simp add: unat_div)
  then have "unat ((v div 1024) * 4096) = unat v div 1024 * 4096"
    by (subst unat_word_ariths(2)) (simp add: unat_div)
  then have "unat (0x01100000 + (v div 1024) * 4096 :: u32) = 0x01100000 + unat v div 1024 * 4096"
    using assms(2) by (subst unat_word_ariths(1)) simp
  then have "unat (drop_bit 12 (0x01100000 + (v div 1024) * 4096 :: u32)) = 0x1100 + unat v div 1024"
    by (simp add: drop_bit_eq_div unat_div)
  moreover have "unat (0x1100 + of_nat (unat v div 1024) :: u32) = 0x1100 + unat v div 1024"
    using assms(2) by (subst unat_word_ariths(1)) (simp add: unat_of_nat_u32)
  ultimately show ?thesis
    using assms(1,3) by (simp add: map_table_def word_le_nat_alt word_unat_eq_iff)
qed

text \<open>The table that the heap's next page goes to: the fixed one of its directory entry.\<close>

lemma heap_next_unat: "heap_space V e \<Longrightarrow> unat (of_nat e :: u32) = e"
  using heap_space_room by (intro unat_of_nat_u32) fastforce

lemma heap_next_table:
  assumes hs: "heap_space V e"
  shows "map_table (of_nat e) 0 V = 0x1100 + of_nat (e div 1024)" and "map_table (of_nat e) 0 V \<in> ktables"
    and "map_table (of_nat e) 0 V \<noteq> pd_frame V"
proof -
  let ?v = "of_nat e :: u32"
  have e: "0xC1800 \<le> unat ?v" "unat ?v < 0xFFC00" and u: "unat ?v = e"
    using heap_space_room[OF hs] heap_spaceD(5)[OF hs] heap_next_unat[OF hs] by simp_all
  show t: "map_table ?v 0 V = 0x1100 + of_nat (e div 1024)"
  proof (cases "e_present (pde_of V ?v)")
    case True
    then show ?thesis using heap_space_table(1)[OF hs e True] u by (simp add: map_table_def)
  next
    case False
    then show ?thesis using kernel_map_table[of ?v V] e u by simp
  qed
  then show k: "map_table ?v 0 V \<in> ktables"
    using heap_pde[OF e] u unfolding ktables_def t by (intro CollectI exI[of _ "e div 1024"]) simp
  then show "map_table ?v 0 V \<noteq> pd_frame V" using heap_spaceD(9)[OF hs] by metis
qed

text \<open>The page behind the heap has been mapped to the frame \<open>f\<close>: what the directory and the tables hold.\<close>

definition next_page :: "vm \<Rightarrow> nat \<Rightarrow> u32 \<Rightarrow> vm \<Rightarrow> bool" where
  "next_page V e f V' \<longleftrightarrow> pd_frame V' = pd_frame V \<and> recursive V' \<and>
     (\<forall>i. i \<noteq> e div 1024 \<longrightarrow> phys V' (pd_frame V) i = phys V (pd_frame V) i) \<and>
     e_present (phys V' (pd_frame V) (e div 1024)) \<and>
     e_address (phys V' (pd_frame V) (e div 1024)) = map_table (of_nat e) 0 V \<and>
     (\<forall>g j. g \<noteq> pd_frame V \<longrightarrow> phys V' g j = (if g = map_table (of_nat e) 0 V \<and> j = e mod 1024
        then new_pte f True (phys V (map_table (of_nat e) 0 V) j) else phys V g j))"

lemma next_pageD:
  assumes "next_page V e f V'"
  shows "pd_frame V' = pd_frame V" "recursive V'"
    "i \<noteq> e div 1024 \<Longrightarrow> phys V' (pd_frame V) i = phys V (pd_frame V) i"
    "e_present (phys V' (pd_frame V) (e div 1024))"
    "e_address (phys V' (pd_frame V) (e div 1024)) = map_table (of_nat e) 0 V"
    "g \<noteq> pd_frame V \<Longrightarrow> phys V' g j = (if g = map_table (of_nat e) 0 V \<and> j = e mod 1024
        then new_pte f True (phys V (map_table (of_nat e) 0 V) j) else phys V g j)"
  using assms unfolding next_page_def by blast+

lemma next_index:
  assumes "heap_space V e"
  shows "unat (of_nat e div 1024 :: u32) = e div 1024" and "unat (of_nat e mod 1024 :: u32) = e mod 1024"
    and "unat (of_nat e :: u32) < 0xFFC00"
  using heap_next_unat[OF assms] heap_space_room[OF assms] by (simp_all add: unat_div unat_mod)

lemma map_next_page:
  assumes hs: "heap_space V e"
  obtains V' where "paging_map_page f (of_nat e) True 0 (V\<lparr>frames := p\<rparr>) = Some V'"
    and "frames V' = p" and "next_page V e f V'"
proof -
  let ?v = "of_nat e :: u32" and ?s = "V\<lparr>frames := p\<rparr>"
  note idx = next_index[OF hs]
  have pds: "pd_frame ?s = pd_frame V" by (simp add: pd_frame_def)
  have td: "map_table ?v 0 ?s \<noteq> pd_frame ?s" using heap_next_table(3)[OF hs] by (simp add: pds)
  have rec: "recursive ?s" using heap_spaceD(1)[OF hs] by simp
  note R = map_result_reads[OF td, where pfn = f and k = True]
  have i: "e div 1024 \<noteq> 1023" using heap_space_room[OF hs] by auto
  show ?thesis
  proof (rule that[of "map_result f ?v True 0 ?s"])
    show "paging_map_page f ?v True 0 ?s = Some (map_result f ?v True 0 ?s)"
      using paging_map_page_eq[OF rec idx(3) td] .
    have "recursive (map_result f ?v True 0 ?s)" using rec i by (simp add: recursive_def R(1) idx)
    then show "next_page V e f (map_result f ?v True 0 ?s)"
      using R(1,2) pds by (simp add: next_page_def idx pte_simps)
  qed simp
qed

lemma next_page_new:
  assumes hs: "heap_space V e" and M: "next_page V e f V'" and f: "unat f < scanned (frames V)"
  shows "mmu_frame V' (of_nat e) = Some f"
proof -
  have "take_bit 20 f = f"
    using f scanned_le_max[of "frames V"] heap_spaceD(4)[OF hs]
    by (simp add: word_unat_eq_iff unsigned_take_bit_eq take_bit_nat_eq_self)
  then show ?thesis
    using next_pageD[OF M] heap_next_table(3)[OF hs]
    by (simp add: mmu_frame_alt pde_of_def next_index[OF hs] pte_simps)
qed

text \<open>Every page below keeps its frame.\<close>

lemma next_page_keeps:
  assumes hs: "heap_space V e" and M: "next_page V e f V'" and w: "0xC1800 \<le> unat w" "unat w < e"
  shows "mmu_frame V' w = mmu_frame V w"
proof -
  let ?T = "map_table (of_nat e) 0 V"
  note D = heap_spaceD[OF hs] and N = next_pageD[OF M] and T = heap_next_table[OF hs]
  have b: "unat w < 0xFFC00" using w(2) D(6) by simp
  obtain g where g: "mmu_frame V w = Some g" using heap_space_mapped[OF hs w] by blast
  then have pr: "e_present (pde_of V w)" by (auto simp: mmu_frame_alt split: if_splits)
  note tw = heap_space_table[OF hs w(1) b pr] and i = heap_pde(3)[OF w(1) b]
  have ne: "e_address (pde_of V w) \<noteq> pd_frame V" using tw(2) D(9) by metis
  have pw: "e_present (pde_of V' w)" "e_address (pde_of V' w) = e_address (pde_of V w)"
    using pr N(1,3-5) tw(1) T(1) i by (cases "unat w div 1024 = e div 1024"; simp add: pde_of_def)+
  have "\<not> (e_address (pde_of V w) = ?T \<and> unat (w mod 1024) = e mod 1024)"
  proof
    assume A: "e_address (pde_of V w) = ?T \<and> unat (w mod 1024) = e mod 1024"
    then have "(of_nat (unat w div 1024) :: u32) = of_nat (e div 1024)" using tw(1) T(1) by simp
    moreover have "unat (of_nat (unat w div 1024) :: u32) = unat w div 1024"
      "unat (of_nat (e div 1024) :: u32) = e div 1024"
      using b D(6) by (auto intro!: unat_of_nat_u32)
    ultimately have "unat w div 1024 = e div 1024" by metis
    moreover have "unat w mod 1024 = e mod 1024" using A by (simp add: unat_mod)
    ultimately show False using w(2) by (metis div_mult_mod_eq less_irrefl)
  qed
  then have "phys V' (e_address (pde_of V w)) (unat (w mod 1024)) = phys V (e_address (pde_of V w)) (unat (w mod 1024))"
    using N(6)[OF ne] by metis
  then show ?thesis using pr pw by (simp add: mmu_frame_alt)
qed

lemma next_page_inj:
  assumes hs: "heap_space V e" and M: "next_page V e f V'" and f: "\<not> occ (frames V) (unat f)"
    "unat f < scanned (frames V)"
  shows "inj_on (mmu_frame V') {w. 0xC1800 \<le> unat w \<and> unat w < Suc e}"
proof -
  note old = next_page_keeps[OF hs M]
  have "{w :: u32. 0xC1800 \<le> unat w \<and> unat w < Suc e} =
      insert (of_nat e) {w. 0xC1800 \<le> unat w \<and> unat w < e}"
    using heap_next_unat[OF hs] heap_spaceD(5)[OF hs] by (auto simp: word_unat_eq_iff less_Suc_eq)
  moreover have "inj_on (mmu_frame V') {w. 0xC1800 \<le> unat w \<and> unat w < e}"
    using heap_spaceD(8)[OF hs] by (rule inj_on_cong[THEN iffD2, rotated]) (simp add: old)
  moreover have "mmu_frame V' w \<noteq> Some f" if w: "0xC1800 \<le> unat w" "unat w < e" for w
    using heap_space_page[OF hs w] old[OF w] f(1) by (metis option.inject)
  moreover have "mmu_frame V' (of_nat e) = Some f" using next_page_new[OF hs M f(2)] .
  ultimately show ?thesis by (auto simp: inj_on_insert) blast
qed

lemma next_page_in_heap:
  assumes hs: "heap_space V e" and M: "next_page V e f V'"
  shows "0xC1800 \<le> p \<Longrightarrow> p < e \<Longrightarrow> dir_page V' p = dir_page V p"
    and "n < e * 4096 \<Longrightarrow> in_heap V' (Suc e) n = in_heap V e n"
    and "in_heap V e n \<Longrightarrow> vload (of_nat n) V' = vload (of_nat n) V"
proof -
  note N = next_pageD[OF M]
  have D: "dir_page V' p = dir_page V p" if "0xC1800 \<le> p" "p < e" for p
  proof -
    have "unat (of_nat p :: u32) = p" using that heap_spaceD(6)[OF hs] by (intro unat_of_nat_u32) simp
    then show ?thesis using next_page_keeps[OF hs M, of "of_nat p"] that N(1) by (simp add: dir_page_def)
  qed
  then show "0xC1800 \<le> p \<Longrightarrow> p < e \<Longrightarrow> dir_page V' p = dir_page V p" .
  show "in_heap V' (Suc e) n = in_heap V e n" if "n < e * 4096"
    using D[of "n div 4096"] div_le_mono[of "0xC1800000" n 4096] that
    by (auto simp: in_heap_def less_mult_imp_div_less)
  show "vload (of_nat n) V' = vload (of_nat n) V" if n: "in_heap V e n"
  proof -
    note pn = in_heap_page[OF n heap_spaceD(6)[OF hs]]
    obtain g where g: "mmu_frame V (of_nat n div 4096) = Some g" "g \<notin> ktables" "g \<noteq> pd_frame V"
      using in_heap_frame[OF hs n] .
    then have "phys V' g j = phys V g j" for j using N(6)[OF g(3)] heap_next_table(2)[OF hs] by auto
    then show ?thesis
      using g next_page_keeps[OF hs M, of "of_nat n div 4096"] pn by (simp add: vload_def)
  qed
qed

text \<open>One page more: the space is kept, the new page is not the directory, and the words that were there
  are as before.\<close>

lemma heap_space_map:
  assumes hs: "heap_space V e" and p: "\<not> occ (frames V) (unat f)" "unat f < scanned (frames V)"
    "occupied p = insert (unat f) (occupied (frames V))" "max_pages p = max_pages (frames V)"
    "capacity p = capacity (frames V)"
  obtains V' where "paging_map_page f (of_nat e) True 0 (V\<lparr>frames := p\<rparr>) = Some V'"
    and "heap_space V' (Suc e)" and "next_page V e f V'" and "\<not> dir_page V' e"
proof -
  obtain V' where V': "paging_map_page f (of_nat e) True 0 (V\<lparr>frames := p\<rparr>) = Some V'"
    and frs: "frames V' = p" and M: "next_page V e f V'" by (rule map_next_page[OF hs])
  note N = next_pageD[OF M] and D = heap_spaceD[OF hs]
  have occp: "occ p i \<longleftrightarrow> i = unat f \<or> occ (frames V) i" for i
    using p(3) by (auto simp: occupied_def)
  have sc: "scanned p = scanned (frames V)" using p(4) by (rule scanned_eqI)
  have fk: "f \<notin> ktables" "f \<noteq> pd_frame V" using D(7) p(1) by blast+
  have pages: "\<exists>g. mmu_frame V' w = Some g \<and> g \<notin> ktables \<and> occ p (unat g) \<and> unat g < scanned p"
    if w: "0xC1800 \<le> unat w" "unat w < Suc e" for w
  proof (cases "unat w = e")
    case True
    then have "w = of_nat e" using heap_next_unat[OF hs] by (simp add: word_unat_eq_iff)
    with next_page_new[OF hs M p(2)] fk p(2) show ?thesis by (auto simp: occp sc)
  next
    case False
    then have we: "unat w < e" using w(2) by simp
    from heap_space_page[OF hs w(1) we] obtain g where "mmu_frame V w = Some g"
      "g \<notin> ktables" "occ (frames V) (unat g)" "unat g < scanned (frames V)" .
    then show ?thesis using next_page_keeps[OF hs M w(1) we] by (auto simp: occp sc)
  qed
  have fixed: "e_address (phys V' (pd_frame V) i) = 0x1100 + of_nat i"
    if "774 \<le> i" "i < 1023" "e_present (phys V' (pd_frame V) i)" for i
    using that D(10)[of i] N(3)[of i] N(5) heap_next_table(1)[OF hs] by (cases "i = e div 1024") simp_all
  have "heap_space V' (Suc e)"
    unfolding heap_space_def frs N(1)
    using N(2) D(2-7,9) heap_space_room[OF hs] p(3-5) occp sc pages next_page_inj[OF hs M p(1,2)] fixed
    by (auto simp: pmm_wf_def)
  moreover have "\<not> dir_page V' e"
    using next_page_new[OF hs M p(2)] fk(2) N(1) by (simp add: dir_page_def)
  ultimately show ?thesis using that V' M by blast
qed

text \<open>The frame manager has nothing to give.\<close>

definition no_frame_left :: "pmm \<Rightarrow> bool" where
  "no_frame_left p \<longleftrightarrow> used_pages p = max_pages p \<or> (\<forall>j < scanned p. occ p j)"

lemma heap_view_grow:
  assumes hv: "heap_view V e m"
  obtains (full) "allocate_kernel_virtual_page (of_nat e) True V = Some (False, V)"
      and "no_frame_left (frames V)"
  | (page) V' m' where "allocate_kernel_virtual_page (of_nat e) True V = Some (True, V')"
      and "heap_view V' (Suc e) m'" and "\<And>n. in_heap V e n \<Longrightarrow> m' n = m n"
      and "\<And>n. n < e * 4096 \<Longrightarrow> in_heap V' (Suc e) n = in_heap V e n" and "\<not> dir_page V' e"
proof -
  have hs: "heap_space V e" using hv by (simp add: heap_view_def)
  show ?thesis
  proof (rule pmm_allocate_page_cases[OF heap_spaceD(2)[OF hs]], goal_cases none frame)
    case none
    then show ?case by (intro full) (simp_all add: allocate_kernel_virtual_page_def no_frame_left_def)
  next
    case (frame f p)
    have "f \<noteq> 0" using frame(3) heap_spaceD(3)[OF hs] by auto
    obtain V' where V': "paging_map_page f (of_nat e) True 0 (V\<lparr>frames := p\<rparr>) = Some V'"
      "heap_space V' (Suc e)" "next_page V e f V'" "\<not> dir_page V' e"
      using heap_space_map[OF hs frame(3,2,5,8,9)] by blast
    note old = next_page_in_heap(2,3)[OF hs V'(3)]
    let ?m = "\<lambda>n. the (vload (of_nat n) V')"
    have "vload (of_nat n) V' = Some (?m n)" if n: "in_heap V' (Suc e) n" for n
    proof -
      note pn = in_heap_page[OF n heap_spaceD(6)[OF V'(2)]]
      obtain g where "mmu_frame V' (of_nat n div 4096) = Some g"
        using heap_space_mapped[OF V'(2), of "of_nat n div 4096"] pn by auto
      then show ?thesis by (simp add: vload_def)
    qed
    then have "heap_view V' (Suc e) ?m" using V'(2) by (simp add: heap_view_def)
    then show ?case
      using frame(1) \<open>f \<noteq> 0\<close> V' old
      by (intro page[of V' ?m])
        (simp_all add: allocate_kernel_virtual_page_def paging_map_kernel_page_def
          heap_view_load[OF hv])
  qed
qed

section \<open>Header accesses\<close>

text \<open>
  \<open>hm h n\<close> is the word at heap address \<open>n\<close>, \<open>hin h n\<close> says that there is one in the heap's hands;
  \<open>hok h\<close> says that the pages up to \<open>curr_heap_end\<close> are the heap's, and \<open>wr h n w\<close> is the state after
  storing a word there.
\<close>

definition hend :: "heap \<Rightarrow> nat" where
  "hend h = unat (curr_heap_end h) div 4096"

definition hm :: "heap \<Rightarrow> nat \<Rightarrow> u32" where
  "hm h n = the (vload (of_nat n) (vmem h))"

definition hin :: "heap \<Rightarrow> nat \<Rightarrow> bool" where
  "hin h n \<longleftrightarrow> in_heap (vmem h) (hend h) n"

definition hok :: "heap \<Rightarrow> bool" where
  "hok h \<longleftrightarrow> unat (curr_heap_end h) = hend h * 4096 \<and> heap_view (vmem h) (hend h) (hm h)"

definition wr :: "heap \<Rightarrow> nat \<Rightarrow> u32 \<Rightarrow> heap" where
  "wr h n w = (if hok h \<and> hin h n then h\<lparr>vmem := the (vstore (of_nat n) w (vmem h))\<rparr> else h)"

definition entry_at :: "heap \<Rightarrow> nat \<Rightarrow> bool" where
  "entry_at h a \<longleftrightarrow> a mod 4 = 0 \<and> 0xC1800000 \<le> a \<and> a + 12 \<le> unat (curr_heap_end h) \<and>
     hin h a \<and> hin h (a + 4) \<and> hin h (a + 8)"

text \<open>No word of the range lies on the page of the directory in use.\<close>

definition clear :: "heap \<Rightarrow> nat \<Rightarrow> nat \<Rightarrow> bool" where
  "clear h a b \<longleftrightarrow> (\<forall>n. a \<le> n \<and> n < b \<and> n mod 4 = 0 \<longrightarrow> hin h n)"

definition free_at :: "heap \<Rightarrow> nat \<Rightarrow> bool" where
  "free_at h a \<longleftrightarrow> (ucast (hm h a) :: u8) \<noteq> 0"

definition put_flag :: "bool \<Rightarrow> u32 \<Rightarrow> u32" where
  "put_flag b w = (w AND 0xFFFFFF00) OR (if b then 1 else 0)"

named_theorems hs \<open>reading and writing headers\<close>

lemma store_frame:
  assumes "hok h" and "hin h n"
  obtains f where "wr h n w = h\<lparr>vmem := pwrite f (n mod 4096 div 4) w (vmem h)\<rparr>"
    and "vstore (of_nat n) w (vmem h) = Some (pwrite f (n mod 4096 div 4) w (vmem h))"
    and "heap_view (pwrite f (n mod 4096 div 4) w (vmem h)) (hend h) ((hm h)(n := w))"
    and "\<And>k. in_heap (pwrite f (n mod 4096 div 4) w (vmem h)) (hend h) k = in_heap (vmem h) (hend h) k"
proof -
  have v: "heap_view (vmem h) (hend h) (hm h)" using assms(1) by (simp add: hok_def)
  obtain f where f: "vstore (of_nat n) w (vmem h) = Some (pwrite f (n mod 4096 div 4) w (vmem h))"
    "f \<notin> ktables" "f \<noteq> pd_frame (vmem h)"
    "heap_view (pwrite f (n mod 4096 div 4) w (vmem h)) (hend h) ((hm h)(n := w))"
    using heap_view_store[OF v, of n w] assms(2) by (auto simp: hin_def)
  then show ?thesis
    using that[of f] assms v pwrite_in_heap(2)[of "vmem h" "hend h" f]
    by (simp add: wr_def heap_view_def)
qed

lemma wr_fields [simp]:
  "curr_heap_end (wr h n w) = curr_heap_end h" "last_entry (wr h n w) = last_entry h"
  "hend (wr h n w) = hend h"
  by (simp_all add: wr_def hend_def)

lemma hin_wr [simp]: "hin (wr h n w) k = hin h k"
proof (cases "hok h \<and> hin h n")
  case True
  then show ?thesis by (auto intro: store_frame[of h n w] simp: hin_def hend_def)
next
  case False
  then show ?thesis by (auto simp: wr_def)
qed

lemma entry_at_wr [simp]: "entry_at (wr h n w) a = entry_at h a" and clear_wr [simp]: "clear (wr h n w) a b = clear h a b"
  by (simp_all add: entry_at_def clear_def)

lemma wr_vmem [simp]: "h\<lparr>vmem := vmem (wr h n w)\<rparr> = wr h n w"
  by (simp add: wr_def)

lemma last_entry_fields [simp]:
  "hm (h\<lparr>last_entry := l\<rparr>) = hm h" "hend (h\<lparr>last_entry := l\<rparr>) = hend h"
  "entry_at (h\<lparr>last_entry := l\<rparr>) a = entry_at h a" "hok (h\<lparr>last_entry := l\<rparr>) = hok h"
  "free_at (h\<lparr>last_entry := l\<rparr>) a = free_at h a" "hin (h\<lparr>last_entry := l\<rparr>) n = hin h n"
  "clear (h\<lparr>last_entry := l\<rparr>) a b = clear h a b"
  by (simp_all add: hm_def [abs_def] hend_def entry_at_def hok_def free_at_def hin_def clear_def)

lemma store_wr:
  assumes "hok h" and "hin h n"
  shows "vstore (of_nat n) w (vmem h) = Some (vmem (wr h n w))" and "hok (wr h n w)"
    and "hin h k \<Longrightarrow> hm (wr h n w) k = (if k = n then w else hm h k)"
proof -
  obtain f where f: "wr h n w = h\<lparr>vmem := pwrite f (n mod 4096 div 4) w (vmem h)\<rparr>"
    "vstore (of_nat n) w (vmem h) = Some (pwrite f (n mod 4096 div 4) w (vmem h))"
    "heap_view (pwrite f (n mod 4096 div 4) w (vmem h)) (hend h) ((hm h)(n := w))"
    "\<And>k. in_heap (pwrite f (n mod 4096 div 4) w (vmem h)) (hend h) k = in_heap (vmem h) (hend h) k"
    using store_frame[OF assms] by blast
  then show "vstore (of_nat n) w (vmem h) = Some (vmem (wr h n w))" by simp
  have hm: "hm (wr h n w) k = (if k = n then w else hm h k)" if "hin h k" for k
    using heap_view_load[OF f(3), of k] f(4) that by (simp add: hm_def f(1) hin_def)
  then show "hin h k \<Longrightarrow> hm (wr h n w) k = (if k = n then w else hm h k)" .
  have "hend (h\<lparr>vmem := V\<rparr>) = hend h" for V by (simp add: hend_def)
  then show "hok (wr h n w)"
    using assms(1) f(1,3,4) hm by (simp add: hok_def heap_view_def hin_def)
qed

lemma entry_at_in_heap:
  assumes "hok h" and "entry_at h a"
  shows "hin h a" "hin h (a + 4)" "hin h (a + 8)"
  using assms by (simp_all add: entry_at_def)

lemma header_reads [hs]:
  assumes "hok h" and "entry_at h a"
  shows "is_free (of_nat a) h = Some (free_at h a)" and "next_of (of_nat a) h = Some (hm h (a + 4))"
    and "prev_of (of_nat a) h = Some (hm h (a + 8))"
proof -
  have v: "heap_view (vmem h) (hend h) (hm h)" using assms(1) by (simp add: hok_def)
  note L = entry_at_in_heap[OF assms, unfolded hin_def, THEN heap_view_load[OF v]]
  show "is_free (of_nat a) h = Some (free_at h a)" using L(1) by (simp add: is_free_def free_at_def)
  show "next_of (of_nat a) h = Some (hm h (a + 4))" using L(2) by (simp add: next_of_def add.commute)
  show "prev_of (of_nat a) h = Some (hm h (a + 8))" using L(3) by (simp add: prev_of_def add.commute)
qed

lemma put_wr:
  assumes "hok h" and "hin h n"
  shows "put (of_nat n) g h = Some (wr h n (g (hm h n)))"
proof -
  have v: "heap_view (vmem h) (hend h) (hm h)" using assms(1) by (simp add: hok_def)
  show ?thesis
    using store_wr(1)[OF assms] heap_view_load[OF v, of n] assms(2)
    by (simp add: put_def vmodify_def hin_def)
qed

lemma header_writes [hs]:
  assumes "hok h" and "entry_at h a"
  shows "set_is_free (of_nat a) b h = Some (wr h a (put_flag b (hm h a)))"
    and "set_next (of_nat a) v h = Some (wr h (a + 4) v)"
    and "set_prev (of_nat a) v h = Some (wr h (a + 8) v)"
  using entry_at_in_heap[OF assms, THEN put_wr[OF assms(1)]]
  by (simp_all add: set_is_free_def set_next_def set_prev_def put_flag_def add.commute)

lemma hok_wr [hs]:
  assumes "hok h" and "entry_at h a"
  shows "hok (wr h a w)" "hok (wr h (a + 4) w)" "hok (wr h (a + 8) w)"
  using entry_at_in_heap[OF assms, THEN store_wr(2)[OF assms(1)]] .

lemma hm_wr:
  assumes "hok h" and "hin h n" and "hin h k"
  shows "hm (wr h n w) k = (if k = n then w else hm h k)"
  using store_wr(3)[OF assms] .

lemma bit_flag_mask: "n < 8 \<Longrightarrow> \<not> bit (0xFFFFFF00 :: u32) n"
proof -
  have "take_bit 8 (0xFFFFFF00 :: u32) = 0" by simp
  then show "n < 8 \<Longrightarrow> ?thesis" by (metis bit_0_eq bit_take_bit_iff bot_apply bot_bool_def)
qed

lemma put_flag_byte [simp]: "(ucast (put_flag b w) :: u8) = 0 \<longleftrightarrow> \<not> b"
proof -
  have "(ucast (put_flag b w) :: u8) = (if b then 1 else 0)"
  proof (rule bit_word_eqI)
    fix n assume "n < LENGTH(8)"
    then show "bit (ucast (put_flag b w) :: u8) n = bit (if b then 1 else 0 :: u8) n"
      using bit_flag_mask[of n] by (auto simp: put_flag_def bit_simps)
  qed
  then show ?thesis by simp
qed

section \<open>The block list\<close>

definition link :: "heap \<Rightarrow> nat \<Rightarrow> nat \<Rightarrow> bool" where
  "link h a b \<longleftrightarrow> hm h (a + 4) = of_nat b \<and> hm h (b + 8) = of_nat a \<and> a + 12 \<le> b"

text \<open>
  The heap invariant with the list of header addresses: from \<open>heap_start\<close> to the end
  entry in the last twelve bytes of the last page, each header linked to the next one in both
  directions, headers in increasing order and not overlapping. Neither a header nor a free block lies on
  the page of the directory in use.
\<close>

definition gap :: "heap \<Rightarrow> nat \<Rightarrow> nat \<Rightarrow> bool" where
  "gap h a b \<longleftrightarrow> (free_at h a \<longrightarrow> clear h a b)"

definition heap_wf :: "heap \<Rightarrow> nat list \<Rightarrow> bool" where
  "heap_wf h xs \<longleftrightarrow> hok h \<and> xs \<noteq> [] \<and> successively (link h) xs \<and> (\<forall>a \<in> set xs. entry_at h a) \<and>
     successively (gap h) xs \<and> hd xs = 0xC1800000 \<and> hm h (0xC1800000 + 8) = 0 \<and>
     last xs + 12 = unat (curr_heap_end h) \<and> last xs \<noteq> 0xC1800000 \<and>
     hm h (last xs + 4) = 0 \<and> \<not> free_at h (last xs) \<and> last_entry h = of_nat (last xs)"

text \<open>The blocks in use, as address ranges from a header to the next one.\<close>

fun allocs :: "heap \<Rightarrow> nat list \<Rightarrow> (nat \<times> nat) set" where
  "allocs h (a # b # xs) = (if free_at h a then {} else {(a, b)}) \<union> allocs h (b # xs)"
| "allocs h _ = {}"

lemma allocs_append: "allocs h (ys @ c # zs) = allocs h (ys @ [c]) \<union> allocs h (c # zs)"
  by (induction h ys rule: allocs.induct) auto

lemma allocs_cong:
  "(\<And>a. a \<in> set (butlast xs) \<Longrightarrow> free_at h' a = free_at h a) \<Longrightarrow> allocs h' xs = allocs h xs"
  by (induction h xs rule: allocs.induct) auto

lemma allocs_cong_set:
  "(\<And>a. a \<in> set xs \<Longrightarrow> free_at h' a = free_at h a) \<Longrightarrow> allocs h' xs = allocs h xs"
  by (rule allocs_cong) (blast dest: in_set_butlastD)

lemma chain_cong:
  assumes "successively (link h) xs"
    and "\<And>x. x \<in> set (butlast xs) \<Longrightarrow> hm h' (x + 4) = hm h (x + 4)"
    and "\<And>x. x \<in> set (tl xs) \<Longrightarrow> hm h' (x + 8) = hm h (x + 8)"
  shows "successively (link h') xs"
  using assms
proof (induction xs rule: induct_list012)
  case (3 a b xs)
  then show ?case by (auto simp: link_def split: if_splits)
qed auto

lemma chain_sorted: "successively (link h) xs \<Longrightarrow> sorted_wrt (\<lambda>a b. a + 12 \<le> b) xs"
proof -
  assume "successively (link h) xs"
  then have "successively (\<lambda>a b. a + 12 \<le> b) xs"
    by (rule successively_mono) (auto simp: link_def)
  then show ?thesis by (subst (asm) successively_conv_sorted_wrt) (auto simp: transp_def)
qed

lemma chain_order:
  assumes "successively (link h) (ys @ c # zs)"
  shows "y \<in> set ys \<Longrightarrow> y + 12 \<le> c" and "z \<in> set zs \<Longrightarrow> c + 12 \<le> z"
  using chain_sorted[OF assms] by (auto simp: sorted_wrt_append)

lemma heap_wfD:
  assumes "heap_wf h xs"
  shows "hok h" "successively (link h) xs" "\<And>a. a \<in> set xs \<Longrightarrow> a mod 4 = 0" "hd xs = 0xC1800000"
    "xs \<noteq> []" "last xs + 12 = unat (curr_heap_end h)" "hm h (last xs + 4) = 0"
    "\<not> free_at h (last xs)" "last_entry h = of_nat (last xs)" "successively (gap h) xs"
  using assms by (auto simp: heap_wf_def entry_at_def)

lemma heap_wf_entry: "heap_wf h xs \<Longrightarrow> a \<in> set xs \<Longrightarrow> entry_at h a"
  by (simp add: heap_wf_def)

text \<open>A free block of the list, and what keeps these ranges clear.\<close>

lemma heap_wf_clear: "heap_wf h (ys @ a # b # zs) \<Longrightarrow> free_at h a \<Longrightarrow> clear h a b"
  by (simp add: heap_wf_def successively_append_iff gap_def)

lemma gap_mono:
  assumes "successively (gap h) xs"
    and "\<And>a. a \<in> set (butlast xs) \<Longrightarrow> free_at h' a \<Longrightarrow> free_at h a"
    and "\<And>a b. clear h a b \<Longrightarrow> clear h' a b"
  shows "successively (gap h') xs"
  using assms
proof (induction xs rule: induct_list012)
  case (3 a b xs)
  then show ?case by (auto simp: gap_def split: if_splits)
qed auto

lemma gap_mono_set:
  assumes "successively (gap h) xs" and "\<And>a. a \<in> set xs \<Longrightarrow> free_at h' a \<Longrightarrow> free_at h a"
    and "\<And>a b. clear h a b \<Longrightarrow> clear h' a b"
  shows "successively (gap h') xs"
  by (rule gap_mono[OF assms(1)]) (use assms(2,3) in \<open>auto dest: in_set_butlastD\<close>)

lemma clear_part: "clear h a b \<Longrightarrow> a \<le> c \<Longrightarrow> d \<le> b \<Longrightarrow> clear h c d"
  by (simp add: clear_def)

lemma clear_join: "clear h a b \<Longrightarrow> clear h b c \<Longrightarrow> clear h a c"
  unfolding clear_def by (metis not_le)

lemma clear_hin: "clear h a b \<Longrightarrow> a \<le> n \<Longrightarrow> n < b \<Longrightarrow> n mod 4 = 0 \<Longrightarrow> hin h n"
  by (simp add: clear_def)

lemma clear_entry:
  assumes "hok h" and "clear h a b" and "a \<le> n" "n + 12 \<le> b" "n mod 4 = 0"
  shows "entry_at h n"
proof -
  have m: "(n + 4) mod 4 = 0" "(n + 8) mod 4 = 0" using assms(5) by presburger+
  have h: "hin h n" "hin h (n + 4)" "hin h (n + 8)"
    using assms(3-5) m by (auto intro: clear_hin[OF assms(2)])
  then have "0xC1800000 \<le> n" "n + 8 < unat (curr_heap_end h)"
    using assms(1) by (auto simp: hin_def in_heap_def hok_def)
  moreover have "unat (curr_heap_end h) mod 4 = 0" using assms(1) by (simp add: hok_def)
  ultimately have "n + 12 \<le> unat (curr_heap_end h)" using assms(5) by presburger
  with h \<open>0xC1800000 \<le> n\<close> assms(5) show ?thesis by (simp add: entry_at_def)
qed

lemma heap_end_bounds:
  assumes "hok h"
  shows "unat (curr_heap_end h) \<le> 0xFFC00000" and "unat (curr_heap_end h) mod 4 = 0"
    and "hend h < 0xFFC00" and "0xC1800 \<le> hend h"
proof -
  have "heap_space (vmem h) (hend h)" using assms by (simp add: hok_def heap_view_def)
  then show e: "hend h < 0xFFC00" "0xC1800 \<le> hend h"
    using heap_space_room heap_spaceD(5) by blast+
  have "unat (curr_heap_end h) = hend h * 4096" using assms by (simp add: hok_def)
  with e show "unat (curr_heap_end h) \<le> 0xFFC00000" "unat (curr_heap_end h) mod 4 = 0" by simp_all
qed

lemma unat_entry: "hok h \<Longrightarrow> entry_at h a \<Longrightarrow> unat (of_nat a :: u32) = a"
  using heap_end_bounds(1)[of h] by (intro unat_of_nat_u32) (auto simp: entry_at_def)

lemma entry_nonzero: "hok h \<Longrightarrow> entry_at h a \<Longrightarrow> (of_nat a :: u32) \<noteq> 0"
  using unat_entry[of h a] by (auto simp: entry_at_def simp del: of_nat_eq_0_iff)

text \<open>One page more for the heap.\<close>

lemma allocate_heap_page_cases:
  assumes ok: "hok h"
  obtains (full) "allocate_heap_page h = Some (False, h)" and "no_frame_left (frames (vmem h))"
  | (page) h' where "allocate_heap_page h = Some (True, h')" and "hok h'"
      and "unat (curr_heap_end h') = unat (curr_heap_end h) + 4096" and "last_entry h' = last_entry h"
      and "hend h' = Suc (hend h)"
      and "\<And>n. hin h n \<Longrightarrow> hm h' n = hm h n" and "\<And>n. hin h n \<Longrightarrow> hin h' n"
      and "clear h' (unat (curr_heap_end h)) (unat (curr_heap_end h'))"
proof -
  note B = heap_end_bounds[OF ok]
  have e: "unat (curr_heap_end h) = hend h * 4096" using ok by (simp add: hok_def)
  have lt: "\<not> KERNEL_HEAP_END \<le> curr_heap_end h"
    using B(1) by (simp add: KERNEL_HEAP_END_def word_le_nat_alt)
  have pg: "curr_heap_end h div PAGE_SIZE = of_nat (hend h)"
    using B(3) by (simp add: word_unat_eq_iff unat_div e PAGE_SIZE_def unat_of_nat_u32)
  have v: "heap_view (vmem h) (hend h) (hm h)" using ok by (simp add: hok_def)
  show ?thesis
  proof (rule heap_view_grow[OF v], goal_cases none new)
    case none
    then show ?case using lt by (intro full) (simp_all add: allocate_heap_page_def pg)
  next
    case (new V' m')
    let ?h = "h\<lparr>vmem := V', curr_heap_end := curr_heap_end h + PAGE_SIZE\<rparr>"
    have e': "unat (curr_heap_end ?h) = Suc (hend h) * 4096"
      using B(3) e by (simp add: PAGE_SIZE_def unat_word_ariths)
    then have he: "hend ?h = Suc (hend h)" by (simp add: hend_def)
    have old: "hin ?h n" if "hin h n" for n using that new(4)[of n] by (simp add: hin_def he) (simp add: in_heap_def)
    have "hm ?h n = m' n" if "in_heap V' (Suc (hend h)) n" for n
      using heap_view_load[OF new(2) that] by (simp add: hm_def)
    then have "heap_view V' (Suc (hend h)) (hm ?h)" "\<And>n. hin h n \<Longrightarrow> hm ?h n = hm h n"
      using new(2,3) old by (auto simp: heap_view_def hin_def he)
    moreover have "clear ?h (unat (curr_heap_end h)) (unat (curr_heap_end ?h))"
      unfolding clear_def
    proof (intro allI impI)
      fix n assume n: "unat (curr_heap_end h) \<le> n \<and> n < unat (curr_heap_end ?h) \<and> n mod 4 = 0"
      then have "n div 4096 = hend h" using e e' by (intro div_nat_eqI) simp_all
      then show "hin ?h n" using n new(5) e e' B(4) by (simp add: hin_def he in_heap_def)
    qed
    ultimately show ?case
      using new(1) lt e' e he old
      by (intro page[of ?h]) (simp_all add: allocate_heap_page_def pg hok_def)
  qed
qed

text \<open>
  The block list without its end entry: what is left while the end entry is rebuilt.
\<close>

definition open_chain :: "heap \<Rightarrow> nat list \<Rightarrow> bool" where
  "open_chain h xs \<longleftrightarrow> hok h \<and> successively (link h) xs \<and> successively (gap h) xs \<and> xs \<noteq> [] \<and> hd xs = 0xC1800000 \<and>
     hm h (0xC1800000 + 8) = 0 \<and> (\<forall>a \<in> set xs. entry_at h a)"

lemma entry_at_mod: "entry_at h a \<Longrightarrow> a mod 4 = 0"
  by (simp add: entry_at_def)

lemma entry_clear:
  assumes "entry_at h a"
  shows "clear h a (a + 12)"
  unfolding clear_def
proof (intro allI impI)
  fix n assume "a \<le> n \<and> n < a + 12 \<and> n mod 4 = 0"
  then have "n = a \<or> n = a + 4 \<or> n = a + 8" using entry_at_mod[OF assms] by presburger
  then show "hin h n" using assms by (auto simp: entry_at_def)
qed

text \<open>Closing it with an end entry \<open>l\<close> after the last header \<open>q\<close>, the last steps of a round that
  grows the heap: first the memory this leaves.\<close>

definition end_at :: "nat \<Rightarrow> nat \<Rightarrow> heap \<Rightarrow> heap" where
  "end_at q l h = (let g = (wr h (q + 4) (of_nat l))\<lparr>last_entry := of_nat l\<rparr>;
                       g = wr (wr g (l + 4) 0) (l + 8) (of_nat q)
                   in wr g l (put_flag False (hm g l)))"

lemma end_at_run:
  assumes ok: "hok h" and q: "entry_at h q" and l: "entry_at h l" "q + 12 \<le> l"
    "l + 12 = unat (curr_heap_end h)"
  shows "define_last_entry (of_nat q) h = Some (end_at q l h)" and "hok (end_at q l h)"
    and "curr_heap_end (end_at q l h) = curr_heap_end h" and "last_entry (end_at q l h) = of_nat l"
    and "hin h k \<Longrightarrow> hm (end_at q l h) k =
      (if k = l then put_flag False (hm h l) else if k = l + 8 then of_nat q
       else if k = l + 4 then 0 else if k = q + 4 then of_nat l else hm h k)"
    and "\<And>a b. clear (end_at q l h) a b = clear h a b" and "\<And>a. entry_at (end_at q l h) a = entry_at h a"
proof -
  have "curr_heap_end h = of_nat (l + 12)"
    by (simp only: l(3) word_unat_eq_iff) (simp add: l(3) unat_of_nat)
  then have lw: "curr_heap_end h - sizeof_heap_entry = of_nat l" by (simp add: sizeof_heap_entry_def)
  note i = entry_at_in_heap[OF ok q] entry_at_in_heap[OF ok l(1)]
  show "define_last_entry (of_nat q) h = Some (end_at q l h)"
    unfolding define_last_entry_def lw using ok q l(1) i by (simp add: hs hm_wr end_at_def Let_def)
  show "hok (end_at q l h)" using ok q l(1) by (simp add: end_at_def Let_def hs)
  show "clear (end_at q l h) a b = clear h a b" "entry_at (end_at q l h) a = entry_at h a" for a b
    by (simp_all add: end_at_def Let_def)
  show "curr_heap_end (end_at q l h) = curr_heap_end h" "last_entry (end_at q l h) = of_nat l"
    by (simp_all add: end_at_def Let_def)
  show "hm (end_at q l h) k = (if k = l then put_flag False (hm h l) else if k = l + 8 then of_nat q
       else if k = l + 4 then 0 else if k = q + 4 then of_nat l else hm h k)"
    if "hin h k"
    using ok q l i that by (simp add: end_at_def Let_def hm_wr hs)
qed

lemma end_at_around:
  assumes oc: "open_chain h (us @ [q])" and l: "entry_at h l" "q + 12 \<le> l"
    "l + 12 = unat (curr_heap_end h)"
  shows "a \<in> set (us @ [q]) \<Longrightarrow> free_at (end_at q l h) a = free_at h a"
    and "a \<in> set us \<Longrightarrow> hm (end_at q l h) (a + 4) = hm h (a + 4)"
    and "a \<in> set (us @ [q]) \<Longrightarrow> hm (end_at q l h) (a + 8) = hm h (a + 8)"
    and "link (end_at q l h) q l" and "hm (end_at q l h) (l + 4) = 0" and "\<not> free_at (end_at q l h) l"
proof -
  have ok: "hok h" and ch: "successively (link h) (us @ [q])" and all: "\<forall>a \<in> set (us @ [q]). entry_at h a"
    using oc by (auto simp: open_chain_def)
  then have q: "entry_at h q" by simp
  note run = end_at_run[OF ok q l] and il = entry_at_in_heap[OF ok l(1)] and iq = entry_at_in_heap[OF ok q]
  have en: "hin h a" "hin h (a + 4)" "hin h (a + 8)" "a + 12 \<le> l"
    if "a \<in> set (us @ [q])" for a
    using that all entry_at_in_heap[OF ok, of a] chain_order(1)[OF ch, of a] l(2) by auto
  show "free_at (end_at q l h) a = free_at h a" if "a \<in> set (us @ [q])"
    using en[OF that] chain_order(1)[OF ch, of a] that by (auto simp: free_at_def run(5))
  show "hm (end_at q l h) (a + 4) = hm h (a + 4)" if "a \<in> set us"
    using en[of a] chain_order(1)[OF ch, of a] that by (auto simp: run(5))
  show "hm (end_at q l h) (a + 8) = hm h (a + 8)" if "a \<in> set (us @ [q])"
    using en[OF that] chain_order(1)[OF ch, of a] that by (auto simp: run(5))
  show "link (end_at q l h) q l" "hm (end_at q l h) (l + 4) = 0" "\<not> free_at (end_at q l h) l"
    using iq il l(2) by (simp_all add: link_def free_at_def run(5))
qed

lemma close_chain:
  assumes oc: "open_chain h (us @ [q])" and l: "entry_at h l" "q + 12 \<le> l"
    "l + 12 = unat (curr_heap_end h)" and cl: "free_at h q \<Longrightarrow> clear h q l"
  obtains h' where "define_last_entry (of_nat q) h = Some h'"
    and "heap_wf h' (us @ [q, l])"
    and "allocs h' (us @ [q, l]) = allocs h (us @ [q]) \<union> (if free_at h q then {} else {(q, l)})"
    and "curr_heap_end h' = curr_heap_end h"
proof -
  let ?g = "end_at q l h"
  have ok: "hok h" and q: "entry_at h q" and ch: "successively (link h) (us @ [q])"
    and gp: "successively (gap h) (us @ [q])" and hd: "hd (us @ [q]) = 0xC1800000" "hm h (0xC1800000 + 8) = 0"
    and us: "\<And>u. u \<in> set us \<Longrightarrow> entry_at h u"
    using oc by (auto simp: open_chain_def)
  note run = end_at_run[OF ok q l] and A = end_at_around[OF oc l]
  have "set (tl (us @ [q])) \<subseteq> set (us @ [q])" by (cases us) auto
  then have "successively (link ?g) (us @ [q])" using A(2,3) by (intro chain_cong[OF ch]) auto
  then have "successively (link ?g) (us @ [q, l])" using A(4) by (simp add: successively_append_iff)
  moreover have "successively (gap ?g) (us @ [q])"
    by (rule gap_mono[OF gp]) (use A(1) run(6) in \<open>auto dest: in_set_butlastD\<close>)
  then have "successively (gap ?g) (us @ [q, l])"
    using A(1)[of q] cl run(6) by (simp add: successively_append_iff gap_def)
  moreover have "0xC1800000 \<in> set (us @ [q])" using hd(1) by (metis hd_in_set snoc_eq_iff_butlast)
  then have "hm ?g (0xC1800000 + 8) = 0" using A(3)[of "0xC1800000"] hd(2) by simp
  moreover have "0xC1800000 + 12 \<le> l" using q l(2) by (simp add: entry_at_def)
  ultimately have "heap_wf ?g (us @ [q, l])"
    using run(2-4,7) A(5,6) hd(1) l us q by (auto simp: heap_wf_def hd_append)
  moreover have "allocs ?g (us @ [q]) = allocs h (us @ [q])" using A(1) by (rule allocs_cong_set)
  then have "allocs ?g (us @ [q, l]) = allocs h (us @ [q]) \<union> (if free_at h q then {} else {(q, l)})"
    using allocs_append[of ?g us q "[l]"] A(1)[of q] by simp
  ultimately show ?thesis using run(1,3) by (intro that)
qed

text \<open>Writing the flag of one header of a chain leaves the links and every other flag.\<close>

lemma flag_write:
  fixes f :: bool
  assumes ok: "hok h" and ch: "successively (link h) xs" and all: "\<forall>a \<in> set xs. entry_at h a"
    and b: "b \<in> set xs"
  defines "h' \<equiv> wr h b (put_flag f (hm h b))"
  shows "set_is_free (of_nat b) f h = Some h'" and "hok h'"
    and "a \<in> set xs \<Longrightarrow> hm h' (a + 4) = hm h (a + 4)"
    and "a \<in> set xs \<Longrightarrow> hm h' (a + 8) = hm h (a + 8)"
    and "a \<in> set xs \<Longrightarrow> free_at h' a = (if a = b then f else free_at h a)"
    and "successively (link h') xs"
proof -
  have en: "entry_at h a" if "a \<in> set xs" for a using all that by blast
  note ib = entry_at_in_heap(1)[OF ok en[OF b]]
  have mem: "hm h' k = (if k = b then put_flag f (hm h b) else hm h k)" if "hin h k" for k
    unfolding h'_def using hm_wr[OF ok ib that] .
  obtain us vs where xs: "xs = us @ b # vs" using split_list[OF b] by blast
  have ord: "a + 12 \<le> b \<or> a = b \<or> b + 12 \<le> a" if "a \<in> set xs" for a
    using chain_order[of h us b vs a] ch that xs by auto
  show "set_is_free (of_nat b) f h = Some h'" "hok h'"
    using hs(4,7)[OF ok en[OF b]] by (simp_all add: h'_def)
  show next_of: "hm h' (a + 4) = hm h (a + 4)" and prev_of: "hm h' (a + 8) = hm h (a + 8)"
    if "a \<in> set xs" for a
    using entry_at_in_heap[OF ok en[OF that]] ord[OF that] by (auto simp: mem)
  show "free_at h' a = (if a = b then f else free_at h a)" if "a \<in> set xs"
    using entry_at_in_heap(1)[OF ok en[OF that]] by (simp add: free_at_def mem)
  have "set (tl xs) \<subseteq> set xs" by (cases xs) auto
  with next_of prev_of show "successively (link h') xs"
    by (auto intro!: chain_cong[OF ch] dest: in_set_butlastD)
qed

text \<open>A fresh page leaves the chain below it as it was.\<close>

lemma new_page_chain:
  assumes wf: "heap_wf h xs" and ok: "hok g" and hi: "unat (curr_heap_end g) = unat (curr_heap_end h) + 4096"
    and old: "\<And>n. hin h n \<Longrightarrow> hm g n = hm h n"
    and keep: "\<And>n. hin h n \<Longrightarrow> hin g n"
  shows "a \<in> set xs \<Longrightarrow> entry_at g a" and "a \<in> set xs \<Longrightarrow> free_at g a = free_at h a"
    and "a \<in> set xs \<Longrightarrow> hm g (a + 8) = hm h (a + 8)"
    and "successively (link g) xs" and "hm g (0xC1800000 + 8) = 0"
    and "successively (gap g) xs"
proof -
  note D = heap_wfD[OF wf]
  have en: "entry_at h a" if "a \<in> set xs" for a using heap_wf_entry[OF wf that] .
  have same: "hm g a = hm h a" "hm g (a + 4) = hm h (a + 4)" "hm g (a + 8) = hm h (a + 8)"
    if "a \<in> set xs" for a
    using entry_at_in_heap[OF D(1) en[OF that]] old by auto
  show "entry_at g a" if "a \<in> set xs" using en[OF that] hi keep by (simp add: entry_at_def)
  show fr: "free_at g a = free_at h a" if "a \<in> set xs" for a using same(1)[OF that] by (simp add: free_at_def)
  show "successively (gap g) xs"
    by (rule gap_mono[OF D(10)]) (use fr keep in \<open>auto simp: clear_def dest: in_set_butlastD\<close>)
  show "hm g (a + 8) = hm h (a + 8)" if "a \<in> set xs" using same(3)[OF that] .
  have "set (tl xs) \<subseteq> set xs" by (cases xs) auto
  with same show "successively (link g) xs" by (auto intro!: chain_cong[OF D(2)] dest: in_set_butlastD)
  have "0xC1800000 \<in> set xs" using D(4,5) by (metis hd_in_set)
  then show "hm g (0xC1800000 + 8) = 0" using same(3)[of "0xC1800000"] wf by (simp add: heap_wf_def)
qed

text \<open>
  The two ways a round goes on after a fresh page: the last block is free and takes the page,
  or the old end entry becomes the header of a free block made of the page.
\<close>

lemma heap_grow_join:
  assumes oc: "open_chain g (ys @ [p, c])" and fr: "free_at g p"
    and l: "entry_at g l" "c + 12 \<le> l" "l + 12 = unat (curr_heap_end g)" "clear g c l"
    and pg: "allocate_heap_page h = Some (True, g)"
  obtains h' where "heap_grow (of_nat c) h = Some (Some (of_nat p), h')"
    and "heap_wf h' (ys @ [p, l])" and "allocs h' (ys @ [p, l]) = allocs g (ys @ [p, c])"
    and "curr_heap_end h' = curr_heap_end g"
proof -
  have ok: "hok g" and en: "entry_at g p" "entry_at g c" and lk: "link g p c" and "gap g p c"
    using oc by (auto simp: open_chain_def successively_append_iff)
  then have cl: "clear g p l" using fr l(4) by (auto simp: gap_def intro: clear_join)
  have "open_chain g (ys @ [p])"
    using oc by (auto simp: open_chain_def successively_append_iff hd_append split: if_splits)
  moreover have "p + 12 \<le> l" using lk l(2) by (simp add: link_def)
  ultimately obtain h' where h': "define_last_entry (of_nat p) g = Some h'" "heap_wf h' (ys @ [p, l])"
    "curr_heap_end h' = curr_heap_end g" "allocs h' (ys @ [p, l]) = allocs g (ys @ [p])"
    using fr cl by (auto intro: close_chain[OF _ l(1) _ l(3)])
  moreover have "heap_grow (of_nat c) h = Some (Some (of_nat p), h')"
    using hs(3)[OF ok en(2)] lk hs(1)[OF ok en(1)] entry_nonzero[OF ok en(1)] fr h'(1) pg
    by (simp add: heap_grow_def link_def)
  moreover have "allocs g (ys @ [p, c]) = allocs g (ys @ [p])"
    using allocs_append[of g ys p "[c]"] fr by simp
  ultimately show ?thesis using that by simp
qed

lemma heap_grow_new:
  assumes oc: "open_chain g (ys @ [p, c])" and fr: "\<not> free_at g p"
    and l: "entry_at g l" "c + 12 \<le> l" "l + 12 = unat (curr_heap_end g)" "clear g c l"
    and pg: "allocate_heap_page h = Some (True, g)"
  obtains h' where "heap_grow (of_nat c) h = Some (Some (of_nat c), h')"
    and "heap_wf h' (ys @ [p, c, l])" and "allocs h' (ys @ [p, c, l]) = allocs g (ys @ [p, c])"
    and "curr_heap_end h' = curr_heap_end g"
proof -
  let ?xs = "ys @ [p, c]" and ?g = "wr g c (put_flag True (hm g c))"
  have ok: "hok g" and ch: "successively (link g) ?xs" and all: "\<forall>a \<in> set ?xs. entry_at g a"
    and hd: "hd ?xs = 0xC1800000" "hm g (0xC1800000 + 8) = 0" and lk: "link g p c"
    and gp: "successively (gap g) ?xs"
    using oc by (auto simp: open_chain_def successively_append_iff)
  have en: "entry_at g a" if "a \<in> set ?xs" for a using all that by blast
  have c: "c \<in> set ?xs" by simp
  note F = flag_write[OF ok ch all c, where f = True]
  have "0xC1800000 \<in> set ?xs" using hd(1) by (metis hd_in_set Nil_is_append_conv list.distinct(1))
  then have "hm ?g (0xC1800000 + 8) = 0" using F(4)[of "0xC1800000"] hd(2) by simp
  moreover have "c \<notin> set (ys @ [p])" using chain_order(1)[of g "ys @ [p]" c "[]" c] ch by auto
  then have "successively (gap ?g) ?xs"
    using F(5) by (intro gap_mono[OF gp]) (auto simp: butlast_append split: if_splits)
  ultimately have "open_chain ?g ((ys @ [p]) @ [c])"
    using F(2,6) hd(1) en by (simp add: open_chain_def)
  moreover have "entry_at ?g l" "l + 12 = unat (curr_heap_end ?g)" using l by simp_all
  ultimately obtain h' where h': "define_last_entry (of_nat c) ?g = Some h'"
    "heap_wf h' ((ys @ [p]) @ [c, l])" "curr_heap_end h' = curr_heap_end g"
    "allocs h' ((ys @ [p]) @ [c, l]) = allocs ?g ?xs"
    using close_chain[of ?g "ys @ [p]" c l] l(2,4) F(5)[of c] by auto
  moreover have "heap_grow (of_nat c) h = Some (Some (of_nat c), h')"
    using hs(3)[OF ok en[of c]] lk hs(1)[OF ok en[of p]] entry_nonzero[OF ok en[of p]] fr h'(1) pg F(1)
    by (simp add: heap_grow_def link_def)
  moreover have "c \<notin> set (ys @ [p])" using chain_order(1)[of g "ys @ [p]" c "[]" c] ch by auto
  then have "allocs ?g ?xs = allocs g ?xs"
    using F(5) by (intro allocs_cong) (auto simp: butlast_append split: if_splits)
  ultimately show ?thesis using that by simp
qed

text \<open>A round of the search loop at the end entry.\<close>

lemma heap_grow_cases:
  assumes wf: "heap_wf h (ys @ [p, c])"
  obtains (full) "heap_grow (of_nat c) h = Some (None, h)" and "no_frame_left (frames (vmem h))"
  | (page) h' ys' c' l where "heap_grow (of_nat c) h = Some (Some (of_nat c'), h')"
      and "heap_wf h' (ys' @ [c', l])" and "allocs h' (ys' @ [c', l]) = allocs h (ys @ [p, c])"
      and "hend h' = Suc (hend h)"
using heap_wfD(1)[OF wf]
proof (cases rule: allocate_heap_page_cases)
  case full
  then show ?thesis by (intro that(1)) (simp_all add: heap_grow_def)
next
  case new: (page g)
  note D = heap_wfD[OF wf] and G = new_page_chain[OF wf new(2,3,6,7)]
  have ce: "unat (curr_heap_end h) = c + 12" and c: "entry_at g c" using D(6) G(1)[of c] by simp_all
  have "clear g c (c + 12)" using c by (rule entry_clear)
  then have cl: "clear g c (c + 4096 + 12)"
    using new(3,8) ce by (auto intro: clear_join)
  have "entry_at g (c + 4096)" by (rule clear_entry[OF new(2) cl]) (use entry_at_mod[OF c] in presburger)+
  then have l: "entry_at g (c + 4096)" "c + 12 \<le> c + 4096" "c + 4096 + 12 = unat (curr_heap_end g)"
    "clear g c (c + 4096)"
    using new(3) D(6) clear_part[OF cl, of c "c + 4096"] by simp_all
  have oc: "open_chain g (ys @ [p, c])" using G(1,4-6) new(2) D(4) by (simp add: open_chain_def)
  have al: "allocs g (ys @ [p, c]) = allocs h (ys @ [p, c])" using G(2) by (intro allocs_cong_set) simp
  show ?thesis
  proof (cases "free_at g p")
    case True
    obtain h' where "heap_grow (of_nat c) h = Some (Some (of_nat p), h')"
      "heap_wf h' (ys @ [p, c + 4096])" "allocs h' (ys @ [p, c + 4096]) = allocs g (ys @ [p, c])"
      "curr_heap_end h' = curr_heap_end g"
      using heap_grow_join[OF oc True l new(1)] by blast
    then show ?thesis using al new(5) that(2) by (simp add: hend_def)
  next
    case False
    obtain h' where "heap_grow (of_nat c) h = Some (Some (of_nat c), h')"
      "heap_wf h' ((ys @ [p]) @ [c, c + 4096])"
      "allocs h' ((ys @ [p]) @ [c, c + 4096]) = allocs g (ys @ [p, c])"
      "curr_heap_end h' = curr_heap_end g"
      using heap_grow_new[OF oc False l new(1)] by (metis append_Cons append_Nil append_assoc)
    then show ?thesis using al new(5) that(2)[of c h' "ys @ [p]" "c + 4096"] by (simp add: hend_def)
  qed
qed

section \<open>First fit\<close>

text \<open>What the search returns: NULL when no frame is left, or a free block of the list that is large enough.\<close>

definition found :: "u32 \<Rightarrow> u32 option \<Rightarrow> heap \<Rightarrow> nat list \<Rightarrow> bool" where
  "found w r h xs \<longleftrightarrow> (case r of None \<Rightarrow> no_frame_left (frames (vmem h)) | Some a \<Rightarrow>
     (\<exists>ys c d zs. a = of_nat c \<and> xs = ys @ c # d # zs \<and> free_at h c \<and> unat w \<le> d - c - 12))"

text \<open>What the code reads of a block: its header's next field and the size computed from it.\<close>

lemma block_at:
  assumes wf: "heap_wf h (ys @ c # d # zs)"
  shows "hm h (c + 4) = of_nat d" and "c + 12 \<le> d" and "d \<le> 0xFFC00000"
    and "of_nat d - of_nat c - sizeof_heap_entry = (of_nat (d - c - 12) :: u32)"
    and "unat (of_nat (d - c - 12) :: u32) = d - c - 12"
    and "BLOCK_SIZE (of_nat c) h = Some (of_nat (d - c - 12))"
    and "(of_nat d :: u32) \<noteq> 0" and "\<not> curr_heap_end h \<le> of_nat d"
proof -
  note D = heap_wfD[OF wf]
  have en: "entry_at h c" "entry_at h d" using heap_wf_entry[OF wf] by simp_all
  have "link h c d" using D(2) by (simp add: successively_append_iff)
  then show nx: "hm h (c + 4) = of_nat d" and cd: "c + 12 \<le> d" by (simp_all add: link_def)
  show d: "d \<le> 0xFFC00000" using en(2) heap_end_bounds(1)[OF D(1)] by (simp add: entry_at_def)
  show sz: "of_nat d - of_nat c - sizeof_heap_entry = (of_nat (d - c - 12) :: u32)"
    using cd by (simp add: sizeof_heap_entry_def of_nat_diff)
  show "unat (of_nat (d - c - 12) :: u32) = d - c - 12" using d by (intro unat_of_nat_u32) simp
  show "BLOCK_SIZE (of_nat c) h = Some (of_nat (d - c - 12))"
    using hs(2)[OF D(1) en(1)] nx sz by (simp add: BLOCK_SIZE_def)
  show "(of_nat d :: u32) \<noteq> 0" using entry_nonzero[OF D(1) en(2)] .
  show "\<not> curr_heap_end h \<le> of_nat d"
    using en(2) unat_entry[OF D(1) en(2)] by (simp add: word_le_nat_alt entry_at_def)
qed

text \<open>One round of the search: at a block that fits, at one that does not, at the end entry.\<close>

lemma heap_search_step:
  assumes wf: "heap_wf h (ys @ c # d # zs)"
  shows "heap_search w (of_nat c) h = (if free_at h c \<and> unat w \<le> d - c - 12 then Some (Some (of_nat c), h)
    else heap_search w (of_nat d) h)"
proof -
  have "unat (of_nat d - of_nat c - sizeof_heap_entry :: u32) = d - c - 12"
    using block_at(4,5)[OF wf] by (simp only:)
  then show ?thesis
    using heap_wf_entry[OF wf, of c] hs(1,2)[OF heap_wfD(1)[OF wf], of c] block_at(1,7,8)[OF wf]
    by (subst heap_search.simps) (simp add: word_less_nat_alt not_less)
qed

lemma heap_search_end:
  assumes wf: "heap_wf h (ys @ [c])"
  shows "heap_search w (of_nat c) h = do {
    (r, h) \<leftarrow> heap_grow (of_nat c) h;
    (case r of None \<Rightarrow> Some (None, h) | Some cur \<Rightarrow> heap_search w cur h) }"
  using heap_wf_entry[OF wf, of c] hs(1,2)[OF heap_wfD(1)[OF wf], of c] heap_wfD(7,8)[OF wf]
  by (subst heap_search.simps) simp

lemma heap_search_correct:
  assumes "heap_wf h (ys @ c # zs)"
  shows "\<exists>r h' xs. heap_search w (of_nat c) h = Some (r, h') \<and> heap_wf h' xs \<and>
    allocs h' xs = allocs h (ys @ c # zs) \<and> found w r h' xs"
  using assms
proof (induction "0xFFC00 - hend h" arbitrary: h ys c zs rule: less_induct)
  case less
  note outer = less.hyps
  show ?case
    using less.prems
  proof (induction zs arbitrary: ys c)
    case Nil
    note B = heap_end_bounds(3)[OF heap_wfD(1)[OF Nil]] and en = heap_search_end[OF Nil]
    have "ys \<noteq> []" using Nil by (auto simp: heap_wf_def)
    then obtain us p where ys: "ys = us @ [p]" by (metis append_butlast_last_id)
    with Nil have wf: "heap_wf h (us @ [p, c])" by simp
    then show ?case
    proof (cases rule: heap_grow_cases)
      case full
      then show ?thesis using en Nil by (auto simp: found_def)
    next
      case (page g ys' c' l)
      have "0xFFC00 - hend g < 0xFFC00 - hend h" using page(4) B by simp
      from outer[OF this] page(2) obtain r h' xs where
        "heap_search w (of_nat c') g = Some (r, h') \<and> heap_wf h' xs \<and>
         allocs h' xs = allocs g (ys' @ c' # [l]) \<and> found w r h' xs" by blast
      with page(1,3) ys en show ?thesis by auto
    qed
  next
    case (Cons d zs)
    show ?case
    proof (cases "free_at h c \<and> unat w \<le> d - c - 12")
      case True
      then have "found w (Some (of_nat c)) h (ys @ c # d # zs)" unfolding found_def option.case by blast
      then show ?thesis using True heap_search_step[OF Cons.prems] Cons.prems by auto
    next
      case False
      then show ?thesis
        using heap_search_step[OF Cons.prems] Cons.IH[of "ys @ [c]" d] Cons.prems by auto
    qed
  qed
qed

text \<open>On a well-formed heap, writing a flag keeps the invariant and changes at most the block of
  that header.\<close>

lemma flag_write_wf:
  fixes f :: bool
  assumes wf: "heap_wf h (ys @ b # c # zs)" and cl: "f \<Longrightarrow> clear h b c"
  defines "h' \<equiv> wr h b (put_flag f (hm h b))"
  shows "set_is_free (of_nat b) f h = Some h'" and "heap_wf h' (ys @ b # c # zs)"
    and "a \<in> set (ys @ b # c # zs) \<Longrightarrow> free_at h' a = (if a = b then f else free_at h a)"
    and "allocs h' (ys @ b # c # zs) =
      allocs h (ys @ [b]) \<union> (if f then {} else {(b, c)}) \<union> allocs h (c # zs)"
proof -
  let ?xs = "ys @ b # c # zs"
  note D = heap_wfD[OF wf]
  have en: "\<forall>a \<in> set ?xs. entry_at h a" and b: "b \<in> set ?xs" using heap_wf_entry[OF wf] by simp_all
  note F = flag_write[OF D(1,2) en b, where f = f, folded h'_def]
  have ne: "a \<noteq> b" if "a \<in> set ys \<or> a \<in> set (c # zs)" for a
    using chain_order[OF D(2), of a] that by auto
  show "set_is_free (of_nat b) f h = Some h'" using F(1) by simp
  show fr: "free_at h' a = (if a = b then f else free_at h a)" if "a \<in> set ?xs" for a
    using F(5)[of a] that by simp
  have L: "last ?xs \<in> set ?xs" "last ?xs \<noteq> b" using ne[of "last (c # zs)"] by simp_all
  have S: "0xC1800000 \<in> set ?xs" using D(4,5) by (metis hd_in_set)
  have cc: "clear h' u v = clear h u v" for u v by (simp add: h'_def)
  have "successively (gap h) (ys @ [b])" "successively (gap h) (c # zs)"
    using D(10) by (simp_all add: successively_append_iff)
  then have "successively (gap h') (c # zs)"
    using fr ne by (auto simp: cc elim!: gap_mono_set)
  moreover have "successively (gap h') (ys @ [b])"
    by (rule gap_mono[OF \<open>successively (gap h) (ys @ [b])\<close>]) (use fr ne in \<open>auto simp: cc\<close>)
  ultimately have "successively (gap h') (ys @ [b])" "successively (gap h') (c # zs)" by blast+
  then have G: "successively (gap h') ?xs" using fr[of b] cl by (simp add: successively_append_iff gap_def cc)
  show "heap_wf h' ?xs"
    using wf F(2,6) F(3)[OF L(1)] F(4)[OF S] fr[OF L(1)] L(2) G
    unfolding heap_wf_def by (simp add: h'_def del: last_appendR last.simps)
  have "allocs h' (ys @ [b]) = allocs h (ys @ [b])" "allocs h' (c # zs) = allocs h (c # zs)"
    using fr ne by (auto intro!: allocs_cong[of "ys @ [b]"] allocs_cong_set[of "c # zs"])
  then show "allocs h' ?xs = allocs h (ys @ [b]) \<union> (if f then {} else {(b, c)}) \<union> allocs h (c # zs)"
    using allocs_append[of h' ys b "c # zs"] fr[of b] by auto
qed

text \<open>Taking a whole free block.\<close>

lemma take_whole:
  assumes wf: "heap_wf h (ys @ c # d # zs)" and fr: "free_at h c"
  defines "h' \<equiv> wr h c (put_flag False (hm h c))"
  shows "set_is_free (of_nat c) False h = Some h'" and "heap_wf h' (ys @ c # d # zs)"
    and "allocs h' (ys @ c # d # zs) = insert (c, d) (allocs h (ys @ c # d # zs))"
    and "\<And>a. a \<in> set (ys @ c # d # zs) \<Longrightarrow> free_at h' a = (a \<noteq> c \<and> free_at h a)"
  using flag_write_wf[OF wf, where f = False, folded h'_def] fr allocs_append[of h ys c "d # zs"] by auto

text \<open>Cutting a free block in two: the memory after a new header at \<open>n\<close> has been linked between the
  headers at \<open>c\<close> and \<open>d\<close>.\<close>

definition cut_at :: "nat \<Rightarrow> nat \<Rightarrow> nat \<Rightarrow> heap \<Rightarrow> heap" where
  "cut_at c n d h = (let g = wr (wr (wr h (c + 4) (of_nat n)) (n + 4) (of_nat d)) (n + 8) (of_nat c)
     in wr (wr g n (put_flag True (hm g n))) (d + 8) (of_nat n))"

lemma cut_at_fields [simp]:
  "curr_heap_end (cut_at c n d h) = curr_heap_end h" "last_entry (cut_at c n d h) = last_entry h"
  "clear (cut_at c n d h) a b = clear h a b" "entry_at (cut_at c n d h) a = entry_at h a"
  by (simp_all add: cut_at_def Let_def)

lemma cut_at_run:
  assumes ok: "hok h" and c: "entry_at h c" and n: "entry_at h n" and d: "entry_at h d"
    and ord: "c + 12 \<le> n" "n + 12 \<le> d"
  shows "do {
      h \<leftarrow> set_next (of_nat c) (of_nat n) h;
      n \<leftarrow> next_of (of_nat c) h;
      h \<leftarrow> set_next n (of_nat d) h;
      h \<leftarrow> set_prev n (of_nat c) h;
      h \<leftarrow> set_is_free n True h;
      set_prev (of_nat d) n h } = Some (cut_at c n d h)"
    and "hok (cut_at c n d h)"
    and "hin h k \<Longrightarrow> hm (cut_at c n d h) k =
      (if k = d + 8 then of_nat n else if k = n then put_flag True (hm h n)
       else if k = n + 8 then of_nat c else if k = n + 4 then of_nat d
       else if k = c + 4 then of_nat n else hm h k)"
  using assms entry_at_in_heap[OF ok c] entry_at_in_heap[OF ok n] entry_at_in_heap[OF ok d]
  by (simp_all add: hs hm_wr cut_at_def Let_def)

lemma cut_at_around:
  assumes wf: "heap_wf h (ys @ c # d # zs)" and fc: "free_at h c"
    and n: "c + 12 \<le> n" "n + 12 \<le> d" "n mod 4 = 0"
  shows "a \<in> set (ys @ c # d # zs) \<Longrightarrow> free_at (cut_at c n d h) a = free_at h a"
    and "a \<in> set (ys @ d # zs) \<Longrightarrow> hm (cut_at c n d h) (a + 4) = hm h (a + 4)"
    and "a \<in> set (ys @ c # zs) \<Longrightarrow> hm (cut_at c n d h) (a + 8) = hm h (a + 8)"
    and "link (cut_at c n d h) c n" and "link (cut_at c n d h) n d" and "free_at (cut_at c n d h) n"
    and "hok (cut_at c n d h)"
proof -
  note D = heap_wfD[OF wf]
  have en: "entry_at h a" if "a \<in> set (ys @ c # d # zs)" for a using heap_wf_entry[OF wf that] .
  have enn: "entry_at h n" using n by (intro clear_entry[OF D(1) heap_wf_clear[OF wf fc]]) simp_all
  note run = cut_at_run[OF D(1) en[of c] enn en[of d] n(1,2)] and ih = entry_at_in_heap[OF D(1)]
  have ord: "a + 12 \<le> c \<or> a = c \<or> a = d \<or> d + 12 \<le> a" if "a \<in> set (ys @ c # d # zs)" for a
    using chain_order(1)[OF D(2)] chain_order(2)[of h "ys @ [c]" d zs] D(2) that by auto
  show "free_at (cut_at c n d h) a = free_at h a" if "a \<in> set (ys @ c # d # zs)"
    using ih(1)[OF en[OF that]] ord[OF that] n by (auto simp: free_at_def run(3))
  show "hm (cut_at c n d h) (a + 4) = hm h (a + 4)" if "a \<in> set (ys @ d # zs)"
    using ih(2)[OF en[of a]] ord[of a] chain_order[OF D(2), of a] that n by (auto simp: run(3))
  show "hm (cut_at c n d h) (a + 8) = hm h (a + 8)" if "a \<in> set (ys @ c # zs)"
    using ih(3)[OF en[of a]] ord[of a] chain_order[of h "ys @ [c]" d zs a] D(2) that n
    by (auto simp: run(3))
  show "link (cut_at c n d h) c n" "link (cut_at c n d h) n d" "free_at (cut_at c n d h) n"
    using n ih[OF en[of c]] ih[OF en[of d]] ih[OF enn] by (auto simp: link_def free_at_def run(3))
  show "hok (cut_at c n d h)" using run(2) by simp
qed

lemma split_block:
  assumes wf: "heap_wf h (ys @ c # d # zs)" and fr: "free_at h c"
    and n: "c + 12 \<le> n" "n + 12 \<le> d" "n mod 4 = 0"
  shows "do {
      h \<leftarrow> set_next (of_nat c) (of_nat n) h;
      n \<leftarrow> next_of (of_nat c) h;
      h \<leftarrow> set_next n (of_nat d) h;
      h \<leftarrow> set_prev n (of_nat c) h;
      h \<leftarrow> set_is_free n True h;
      set_prev (of_nat d) n h } = Some (cut_at c n d h)"
    and "heap_wf (cut_at c n d h) (ys @ c # n # d # zs)" and "free_at (cut_at c n d h) c"
    and "allocs (cut_at c n d h) (ys @ c # n # d # zs) = allocs h (ys @ c # d # zs)"
    and "free_at (cut_at c n d h) n"
proof -
  let ?g = "cut_at c n d h"
  note D = heap_wfD[OF wf] and A = cut_at_around[OF wf fr n]
  have en: "entry_at h a" if "a \<in> set (ys @ c # d # zs)" for a using heap_wf_entry[OF wf that] .
  have enn: "entry_at h n" using n by (intro clear_entry[OF D(1) heap_wf_clear[OF wf fr]]) simp_all
  show "do {
      h \<leftarrow> set_next (of_nat c) (of_nat n) h;
      n \<leftarrow> next_of (of_nat c) h;
      h \<leftarrow> set_next n (of_nat d) h;
      h \<leftarrow> set_prev n (of_nat c) h;
      h \<leftarrow> set_is_free n True h;
      set_prev (of_nat d) n h } = Some ?g"
    using cut_at_run(1)[OF D(1) en[of c] enn en[of d] n(1,2)] by simp
  show "free_at ?g c" "free_at ?g n" using A(1)[of c] A(6) fr by simp_all
  have "successively (link h) (ys @ [c])" "successively (link h) (d # zs)"
    using D(2) by (simp_all add: successively_append_iff)
  moreover have "set (tl (ys @ [c])) \<subseteq> set (ys @ c # zs)" by (cases ys) auto
  moreover have "set (butlast (d # zs)) \<subseteq> set (ys @ d # zs)" by (auto dest: in_set_butlastD)
  ultimately have "successively (link ?g) (ys @ [c])" "successively (link ?g) (d # zs)"
    using A(2,3) by (auto elim!: chain_cong)
  then have "successively (link ?g) (ys @ c # n # d # zs)"
    using A(4,5) by (simp add: successively_append_iff)
  moreover have "last (d # zs) \<in> set (d # zs)" by (rule last_in_set) simp
  moreover have "0xC1800000 \<in> set (ys @ [c])" using D(4) by (cases ys) auto
  moreover have "successively (gap h) (ys @ [c])" "successively (gap h) (d # zs)"
    using D(10) by (simp_all add: successively_append_iff)
  then have "successively (gap ?g) (ys @ [c])" "successively (gap ?g) (d # zs)"
    using A(1) by (auto elim!: gap_mono_set)
  then have "successively (gap ?g) (ys @ c # n # d # zs)"
    using n clear_part[OF heap_wf_clear[OF wf fr]] by (simp add: successively_append_iff gap_def)
  ultimately show "heap_wf ?g (ys @ c # n # d # zs)"
    using wf A(7) enn A(1,2)[of "last (d # zs)"] A(3)[of "0xC1800000"]
    by (cases ys) (auto simp: heap_wf_def)
  have "allocs ?g (ys @ [c]) = allocs h (ys @ [c])" "allocs ?g (d # zs) = allocs h (d # zs)"
    using A(1) by (auto intro!: allocs_cong_set)
  then show "allocs ?g (ys @ c # n # d # zs) = allocs h (ys @ c # d # zs)"
    using allocs_append[of ?g ys c "n # d # zs"] allocs_append[of h ys c "d # zs"] A(1)[of c] A(6) fr
    by simp
qed

lemma heap_take_correct:
  assumes wf: "heap_wf h (ys @ c # d # zs)" and fr: "free_at h c"
    and w: "unat w \<le> d - c - 12" "unat w mod 4 = 0"
  obtains h' xs b where "heap_take w (of_nat c) h = Some (of_nat (c + 12), h')"
    and "heap_wf h' xs" and "allocs h' xs = insert (c, b) (allocs h (ys @ c # d # zs))"
    and "c + 12 + unat w \<le> b"
proof -
  note B = block_at[OF wf]
  have en: "entry_at h c" using heap_wf_entry[OF wf] by simp
  have "unat (w + sizeof_heap_entry + MIN_BLOCK_SIZE) = unat w + 16"
    using w(1) B(2,3) en by (simp add: sizeof_heap_entry_def MIN_BLOCK_SIZE_def unat_word_ariths entry_at_def)
  then have big: "w + sizeof_heap_entry + MIN_BLOCK_SIZE \<le> of_nat (d - c - 12) \<longleftrightarrow> unat w + 16 \<le> d - c - 12"
    using B(5) by (simp add: word_le_nat_alt)
  show ?thesis
  proof (cases "unat w + 16 \<le> d - c - 12")
    case True
    let ?n = "c + unat w + 12" and ?g = "cut_at c (c + unat w + 12) d h"
    have nw: "of_nat c + w + sizeof_heap_entry = of_nat ?n" by (simp add: sizeof_heap_entry_def)
    have n: "c + 12 \<le> ?n" "?n + 12 \<le> d" using True B(2) by simp_all
    have n4: "?n mod 4 = 0" using w(2) entry_at_mod[OF en] by presburger
    note sp = split_block[OF wf fr n n4] and t = take_whole[OF split_block(2,3)[OF wf fr n n4]]
    show ?thesis
    proof (rule that[OF _ t(2)])
      show "heap_take w (of_nat c) h = Some (of_nat (c + 12), wr ?g c (put_flag False (hm ?g c)))"
        using True sp(1) t(1) B(1,6) big hs(2)[OF heap_wfD(1)[OF wf] en] nw
        by (simp add: heap_take_def sizeof_heap_entry_def)
    qed (use t(3) sp(4) in \<open>simp, simp\<close>)
  next
    case False
    note t = take_whole[OF wf fr]
    show ?thesis
    proof (rule that[OF _ t(2,3)])
      show "heap_take w (of_nat c) h = Some (of_nat (c + 12), wr h c (put_flag False (hm h c)))"
        using False t(1) B(6) big by (simp add: heap_take_def) (simp add: sizeof_heap_entry_def)
      show "c + 12 + unat w \<le> d" using w(1) B(2) by simp
    qed
  qed
qed

lemma ALIGN_4:
  assumes "unat n \<le> 0x40000000"
  shows "unat (ALIGN n 4) mod 4 = 0" and "unat n \<le> unat (ALIGN n 4)"
proof -
  have u: "unat (n + 3) = unat n + 3" using assms by (simp add: unat_word_ariths)
  have "ALIGN n 4 = (n + 3) AND NOT (mask 2)" by (simp add: ALIGN_def mask_eq_exp_minus_1 add.commute)
  also have "\<dots> = push_bit 2 (drop_bit 2 (n + 3))"
  proof (rule bit_word_eqI)
    fix k
    show "bit ((n + 3) AND NOT (mask 2)) k = bit (push_bit 2 (drop_bit 2 (n + 3))) k" if "k < LENGTH(32)"
    proof (cases "2 \<le> k")
      case True
      then obtain j where "k = 2 + j" using le_Suc_ex by blast
      with that show ?thesis by (simp add: bit_simps)
    qed (simp add: bit_simps)
  qed
  finally have "ALIGN n 4 = (n + 3) div 4 * 4" by (simp add: push_bit_eq_mult drop_bit_eq_div)
  then have "unat (ALIGN n 4) = (unat n + 3) div 4 * 4 mod 2 ^ 32"
    by (simp only: unat_word_ariths(2)) (simp add: unat_div u)
  also have "\<dots> = (unat n + 3) div 4 * 4" using assms by (intro mod_less) simp
  finally show "unat (ALIGN n 4) mod 4 = 0" "unat n \<le> unat (ALIGN n 4)" by simp_all
qed

lemma allocs_member:
  "(a, b) \<in> allocs h xs \<Longrightarrow> \<exists>ys zs. xs = ys @ a # b # zs \<and> \<not> free_at h a"
proof (induction h xs rule: allocs.induct)
  case (1 h c d xs)
  then consider "(a, b) = (c, d)" "\<not> free_at h c" | "(a, b) \<in> allocs h (d # xs)"
    by (auto split: if_splits)
  then show ?case
  proof cases
    case 1
    then show ?thesis by (intro exI[of _ "[]"] exI[of _ xs]) simp
  next
    case 2
    then obtain ys zs where "d # xs = ys @ a # b # zs" "\<not> free_at h a" using 1 by blast
    then show ?thesis by (intro exI[of _ "c # ys"] exI[of _ zs]) simp
  qed
qed simp_all

lemma allocs_disjoint:
  assumes wf: "heap_wf h xs" and A: "(a, b) \<in> allocs h xs" and C: "(c, d) \<in> allocs h xs" and ne: "a \<noteq> c"
  shows "b \<le> c \<or> d \<le> a"
proof -
  note ch = heap_wfD(2)[OF wf]
  obtain ys zs where xs: "xs = ys @ a # b # zs" using allocs_member[OF A] by blast
  obtain us vs where xs': "xs = us @ c # d # vs" using allocs_member[OF C] by blast
  have "c \<in> set xs" using xs' by simp
  then consider "c \<in> set ys" | "c = b" | "c \<in> set zs" using xs ne by auto
  then show ?thesis
  proof cases
    case 1
    then have "c + 12 \<le> a" using chain_order(1)[of h ys a "b # zs" c] ch xs by simp
    moreover have "a \<in> set xs" using xs by simp
    ultimately have "a \<in> set (d # vs)"
      using xs' ch chain_order(1)[of h us c "d # vs" a] by auto
    then have "a = d \<or> d + 12 \<le> a" using chain_order(2)[of h "us @ [c]" d vs a] ch xs' by auto
    then show ?thesis by auto
  next
    case 3
    then have "b + 12 \<le> c" using chain_order(2)[of h "ys @ [a]" b zs c] ch xs by simp
    then show ?thesis by simp
  qed simp
qed

section \<open>Initialisation\<close>

lemma first_block:
  assumes ok: "hok g" and en: "entry_at g a" "entry_at g l" and a: "a = 0xC1800000" "a + 12 \<le> l"
    "l + 12 = unat (curr_heap_end g)" "clear g a l"
  obtains h' where "do {
       let h = g\<lparr>last_entry := of_nat l\<rparr>;
       h \<leftarrow> set_next (of_nat l) 0 h;
       h \<leftarrow> set_prev (of_nat l) (of_nat a) h;
       h \<leftarrow> set_is_free (of_nat l) False h;
       h \<leftarrow> set_next (of_nat a) (of_nat l) h;
       h \<leftarrow> set_prev (of_nat a) 0 h;
       h \<leftarrow> set_is_free (of_nat a) True h;
       Some (True, h)
     } = Some (True, h')"
    and "heap_wf h' [a, l]" and "free_at h' a"
proof -
  note ia = entry_at_in_heap[OF ok en(1)] and il = entry_at_in_heap[OF ok en(2)]
  define g1 where "g1 = wr (wr (g\<lparr>last_entry := of_nat l\<rparr>) (l + 4) 0) (l + 8) (of_nat a)"
  define g2 where "g2 = wr (wr (wr g1 l (put_flag False (hm g1 l))) (a + 4) (of_nat l)) (a + 8) 0"
  define h' where "h' = wr g2 a (put_flag True (hm g2 a))"
  have ok': "hok g1" "hok g2" "hok h'" using ok en by (simp_all add: g1_def g2_def h'_def hs)
  have "hm h' k = (if k = a then put_flag True (hm g a) else if k = a + 8 then 0
      else if k = a + 4 then of_nat l else if k = l then put_flag False (hm g l)
      else if k = l + 8 then of_nat a else if k = l + 4 then 0 else hm g k)" if "hin g k" for k
    using ok en ia il a(2) that by (simp add: h'_def g2_def g1_def hm_wr hs)
  note mem = this[OF ia(1)] this[OF ia(2)] this[OF ia(3)] this[OF il(1)] this[OF il(2)] this[OF il(3)]
  have "curr_heap_end h' = curr_heap_end g" "last_entry h' = of_nat l"
    by (simp_all add: h'_def g2_def g1_def)
  moreover have "link h' a l" using a(2) by (simp add: link_def mem)
  moreover have "free_at h' a" "\<not> free_at h' l" using a(2) by (simp_all add: free_at_def mem)
  moreover have "hm h' (a + 8) = 0" "hm h' (l + 4) = 0" using a(2) by (simp_all add: mem)
  moreover have "clear h' a l" "entry_at h' a" "entry_at h' l"
    using a(4) en by (simp_all add: h'_def g2_def g1_def)
  ultimately have "heap_wf h' [a, l]" "free_at h' a"
    using ok' a by (simp_all add: heap_wf_def gap_def)
  then show ?thesis
    by (rule that[rotated]) (use ok en in \<open>simp add: hs h'_def g2_def g1_def\<close>)
qed

lemma heap_init_ok:
  assumes ok: "hok h" and e: "curr_heap_end h = heap_start"
  obtains (full) "heap_init h = Some (False, h)" and "no_frame_left (frames (vmem h))"
  | (init) h' where "heap_init h = Some (True, h')"
      and "heap_wf h' [0xC1800000, 0xC1800FF4]" and "free_at h' 0xC1800000"
proof (rule allocate_heap_page_cases[OF ok], goal_cases none new)
  case none
  then show ?thesis by (intro full) (simp_all add: heap_init_def)
next
  case (new g)
  note new = new(3-)
  define a l :: nat where "a = 0xC1800000" and "l = 0xC1800FF4"
  have u: "unat (curr_heap_end g) = 0xC1801000"
    using new(3) e by (simp add: heap_start_def KERNEL_CODE_END_def)
  then have eg: "curr_heap_end g = 0xC1801000" by (simp add: word_unat_eq_iff)
  have w: "curr_heap_end g - sizeof_heap_entry = of_nat l" "heap_start = of_nat a"
    by (simp_all add: eg sizeof_heap_entry_def heap_start_def KERNEL_CODE_END_def a_def l_def)
  have cl: "clear g a (l + 12)"
    using new(8) u e by (simp add: heap_start_def KERNEL_CODE_END_def a_def l_def)
  have "entry_at g a" "entry_at g l"
    by (rule clear_entry[OF new(2) cl]; simp add: a_def l_def)+
  moreover have "a + 12 \<le> l" "l + 12 = unat (curr_heap_end g)" "clear g a l"
    using u clear_part[OF cl, of a l] by (simp_all add: a_def l_def)
  ultimately have "entry_at g a" "entry_at g l" "a + 12 \<le> l" "l + 12 = unat (curr_heap_end g)" "clear g a l"
    by blast+
  then show ?thesis
  proof (rule first_block[OF new(2) _ _ a_def], goal_cases)
    case (1 h')
    then have "heap_init h = Some (True, h')" using new(1) by (simp add: heap_init_def w)
    then show ?case using 1 by (intro init) (simp_all add: a_def l_def)
  qed
qed

section \<open>Release\<close>

lemma allocs_start: "(a, b) \<in> allocs h xs \<Longrightarrow> a \<in> set (butlast xs)"
  by (induction h xs rule: allocs.induct) (auto split: if_splits)

text \<open>Marking a block free.\<close>

lemma mark_free:
  assumes wf: "heap_wf h (ys @ b # c # zs)" and al: "\<not> free_at h b" and cl: "clear h b c"
  defines "h' \<equiv> wr h b (put_flag True (hm h b))"
  shows "set_is_free (of_nat b) True h = Some h'" and "heap_wf h' (ys @ b # c # zs)"
    and "allocs h' (ys @ b # c # zs) = allocs h (ys @ b # c # zs) - {(b, c)}" and "free_at h' b"
proof -
  note F = flag_write_wf[where f = True, OF wf cl, folded h'_def]
  show "set_is_free (of_nat b) True h = Some h'" "heap_wf h' (ys @ b # c # zs)" "free_at h' b"
    using F(1,2) F(3)[of b] by simp_all
  have "b \<notin> set ys" "b \<notin> set (c # zs)" using chain_order[OF heap_wfD(2)[OF wf], of b] by auto
  then have "(b, c) \<notin> allocs h (ys @ [b])" "(b, c) \<notin> allocs h (c # zs)"
    by (auto dest!: allocs_start dest: in_set_butlastD simp: butlast_append split: if_splits)
  then show "allocs h' (ys @ b # c # zs) = allocs h (ys @ b # c # zs) - {(b, c)}"
    using F(4) al allocs_append[of h ys b "c # zs"] by auto
qed

section \<open>The boot directory and the directories of processes\<close>

text \<open>The page tables that the boot code builds are a space for an empty heap, once the frames below
  24 MB are taken, which is what \<open>pmm_init\<close> does.\<close>

lemma ktables_small:
  assumes "f \<in> ktables"
  shows "unat f < 0x1800" and "f \<noteq> 6"
proof -
  obtain i where i: "f = 0x1100 + of_nat i" "i < 1023" using assms by (auto simp: ktables_def)
  then have "unat f = 0x1100 + i" by (simp only: i(1), subst unat_word_ariths(1)) (simp add: unat_of_nat_u32)
  then show "unat f < 0x1800" "f \<noteq> 6" using i(2) by auto
qed

lemma boot_heap_space:
  assumes "pmm_wf p" and "\<And>j. j < 0x1800 \<Longrightarrow> occ p j" and "unat (max_pages p) < 0x3E400"
  shows "heap_space ((init_paging s)\<lparr>frames := p\<rparr>) 0xC1800"
proof -
  let ?V = "(init_paging s)\<lparr>frames := p\<rparr>"
  have pd: "pd_frame ?V = 6" using boot_pd_frame[of s] by (simp add: pd_frame_def)
  have "occ p (unat f)" if "f \<in> insert 6 ktables" for f
    using that assms(2) ktables_small(1)[of f] by auto
  moreover have "recursive ?V" using boot_recursive by simp
  moreover have "\<not> e_present (phys ?V 6 i)" if "774 \<le> i" "i < 1023" for i
    using boot_directory_absent[of i s] that by simp
  moreover have "6 \<notin> ktables" using ktables_small(2) by blast
  moreover have "inj_on (mmu_frame ?V) {v. 0xC1800 \<le> unat v \<and> unat v < 0xC1800}" by (rule inj_onI) auto
  moreover have "occ p 0" using assms(2) by simp
  ultimately show ?thesis using assms(1,3) unfolding heap_space_def pd by auto
qed

lemma boot_hok:
  assumes "vmem h = (init_paging s)\<lparr>frames := p\<rparr>" and "curr_heap_end h = heap_start"
    and "pmm_wf p" and "\<And>j. j < 0x1800 \<Longrightarrow> occ p j" and "unat (max_pages p) < 0x3E400"
  shows "hok h"
  using boot_heap_space[OF assms(3-5), of s] assms(1,2)
  by (auto simp: hok_def hend_def heap_view_def in_heap_def heap_start_def KERNEL_CODE_END_def)

text \<open>
  A process's directory lies on a page of the heap, inside a block that \<open>create_process_from_elf\<close> has been given, and it
  has the kernel's entries of the upper half, the heap's among them, and an entry for itself.
  Loading it leaves the heap as it is: the invariant holds in the space of the process, and the heap
  stays away from the page.
\<close>

lemma load_pd_heap_space:
  assumes hs: "heap_space V e" and ld: "load_pd q V = Some V'"
    and p: "0xC1800 \<le> p" "p < e" "mmu_frame V (of_nat p) = Some (pd_frame V')"
    and rec: "recursive V'"
    and up: "\<And>i. 774 \<le> i \<Longrightarrow> i < 1023 \<Longrightarrow> phys V (pd_frame V') i = phys V (pd_frame V) i"
  shows "heap_space V' e" and "\<And>v. 0xC1800 \<le> unat v \<Longrightarrow> unat v < e \<Longrightarrow> mmu_frame V' v = mmu_frame V v"
    and "\<And>k. 0xC1800 \<le> k \<Longrightarrow> k < e \<Longrightarrow> dir_page V' k \<longleftrightarrow> k = p" and "phys V' = phys V"
proof -
  note D = heap_spaceD[OF hs]
  show ph: "phys V' = phys V" using ld by (auto simp: load_pd_def load_pd_phys_addr_def split: bind_splits)
  have fr: "frames V' = frames V" using ld by (auto simp: load_pd_def load_pd_phys_addr_def split: bind_splits)
  have mmu: "mmu_frame V' v = mmu_frame V v" if v: "0xC1800 \<le> unat v" "unat v < e" for v
  proof -
    have "unat v < 0xFFC00" using v(2) D(6) by simp
    then have "pde_of V' v = pde_of V v" using up[OF heap_pde(1,2)[OF v(1)]] by (simp add: pde_of_def ph)
    then show ?thesis by (simp add: mmu_frame_alt ph)
  qed
  then show "\<And>v. 0xC1800 \<le> unat v \<Longrightarrow> unat v < e \<Longrightarrow> mmu_frame V' v = mmu_frame V v" .
  have small: "unat (of_nat k :: u32) = k" if "k < e" for k
    using that D(6) by (intro unat_of_nat_u32) simp
  obtain f where f: "mmu_frame V (of_nat p) = Some f" "f \<notin> ktables" "occ (frames V) (unat f)"
    using heap_space_page[OF hs, of "of_nat p"] p small by metis
  have "inj_on (mmu_frame V') {v. 0xC1800 \<le> unat v \<and> unat v < e} =
      inj_on (mmu_frame V) {v. 0xC1800 \<le> unat v \<and> unat v < e}"
    by (rule inj_on_cong) (simp add: mmu)
  moreover have "e_address (phys V f i) = 0x1100 + of_nat i"
    if "774 \<le> i" "i < 1023" "e_present (phys V f i)" for i
    using up[of i] D(10)[of i] that f(1) p(3) by simp
  ultimately show "heap_space V' e"
    using hs rec f p(3) unfolding heap_space_def fr ph by (simp add: mmu)
  show "dir_page V' k \<longleftrightarrow> k = p" if k: "0xC1800 \<le> k" "k < e" for k
  proof
    assume "dir_page V' k"
    then have "mmu_frame V (of_nat k) = mmu_frame V (of_nat p)"
      using mmu[of "of_nat k"] k small p(3) by (simp add: dir_page_def)
    then have "(of_nat k :: u32) = of_nat p"
      using D(8) k p small by (auto simp: inj_on_def)
    then show "k = p" using small k(2) p(2) by metis
  next
    assume "k = p"
    then show "dir_page V' k" using mmu[of "of_nat p"] p small by (simp add: dir_page_def)
  qed
qed

lemma load_pd_words:
  assumes ok: "hok h" and ld: "load_pd q (vmem h) = Some V'" and pr: "0xC1800 \<le> p" "p < hend h"
    and p: "mmu_frame (vmem h) (of_nat p) = Some (pd_frame V')" and rec: "recursive V'"
    and up: "\<And>i. 774 \<le> i \<Longrightarrow> i < 1023 \<Longrightarrow> phys (vmem h) (pd_frame V') i = phys (vmem h) (pd_frame (vmem h)) i"
  shows "hok (h\<lparr>vmem := V'\<rparr>)" and "hin h n \<Longrightarrow> n div 4096 \<noteq> p \<Longrightarrow> hin (h\<lparr>vmem := V'\<rparr>) n"
    and "hin h n \<Longrightarrow> hm (h\<lparr>vmem := V'\<rparr>) n = hm h n"
proof -
  let ?h = "h\<lparr>vmem := V'\<rparr>"
  have hs: "heap_space (vmem h) (hend h)" and ce: "unat (curr_heap_end h) = hend h * 4096"
    using ok by (simp_all add: hok_def heap_view_def)
  note L = load_pd_heap_space[OF hs ld pr p rec up] and e = heap_spaceD(6)[OF hs]
  have he: "hend ?h = hend h" by (simp add: hend_def)
  show "hin ?h n" if n: "hin h n" "n div 4096 \<noteq> p"
  proof -
    have "0xC1800 \<le> n div 4096" "n div 4096 < hend h"
      using in_heap_page(4,5)[of "vmem h" "hend h" n] n(1) e by (simp_all add: hin_def)
    then show ?thesis using n L(3)[of "n div 4096"] by (simp add: hin_def in_heap_def he)
  qed
  show "hm ?h n = hm h n" if n: "hin h n"
  proof -
    have i: "in_heap (vmem h) (hend h) n" using n by (simp add: hin_def)
    have "mmu_frame V' (of_nat n div 4096) = mmu_frame (vmem h) (of_nat n div 4096)"
      using in_heap_page[OF i e] by (intro L(2)) simp_all
    then show ?thesis by (simp add: hm_def vload_def L(4))
  qed
  have "vload (of_nat n) V' = Some (hm ?h n)" if n: "in_heap V' (hend h) n" for n
    using heap_space_mapped[OF L(1), of "of_nat n div 4096"] in_heap_page[OF n e]
    by (auto simp: hm_def vload_def)
  then show "hok ?h" using L(1) ce by (simp add: hok_def he heap_view_def)
qed

lemma heap_wf_load_pd:
  assumes wf: "heap_wf h xs" and ld: "load_pd q (vmem h) = Some V'"
    and blk: "(a, b) \<in> allocs h xs" "a + 12 \<le> p * 4096" "(p + 1) * 4096 \<le> b"
    and p: "mmu_frame (vmem h) (of_nat p) = Some (pd_frame V')" and rec: "recursive V'"
    and up: "\<And>i. 774 \<le> i \<Longrightarrow> i < 1023 \<Longrightarrow> phys (vmem h) (pd_frame V') i = phys (vmem h) (pd_frame (vmem h)) i"
  shows "heap_wf (h\<lparr>vmem := V'\<rparr>) xs" and "allocs (h\<lparr>vmem := V'\<rparr>) xs = allocs h xs"
proof -
  let ?h = "h\<lparr>vmem := V'\<rparr>"
  note D = heap_wfD[OF wf]
  obtain ys zs where xs: "xs = ys @ a # b # zs" and al: "\<not> free_at h a" using allocs_member[OF blk(1)] by blast
  have en: "entry_at h x" if "x \<in> set xs" for x using heap_wf_entry[OF wf that] .
  have "unat (curr_heap_end h) = hend h * 4096" using D(1) by (simp add: hok_def)
  then have pr: "0xC1800 \<le> p" "p < hend h"
    using blk(2,3) en[of a] en[of b] xs by (auto simp: entry_at_def)
  note W = load_pd_words[OF D(1) ld pr p rec up]
  have ord: "x + 12 \<le> p * 4096 \<and> x \<le> a \<or> (p + 1) * 4096 \<le> x \<and> b \<le> x" if "x \<in> set xs" for x
    using that chain_order(1)[of h ys a "b # zs" x] chain_order(2)[of h "ys @ [a]" b zs x] D(2) blk(2,3) xs by auto
  have part: "x \<in> set (ys @ [a]) \<Longrightarrow> x \<le> p * 4096" "x \<in> set (b # zs) \<Longrightarrow> (p + 1) * 4096 \<le> x" for x
    using chain_order(1)[of h ys a "b # zs" x] chain_order(2)[of h "ys @ [a]" b zs x] D(2) blk(2,3) xs by auto
  have off: "n div 4096 \<noteq> p" if "n < p * 4096 \<or> (p + 1) * 4096 \<le> n" for n
    using that by (auto simp: dividend_less_times_div)
  have cl: "clear ?h u v" if "clear h u v" "v \<le> p * 4096 \<or> (p + 1) * 4096 \<le> u" for u v
    using that W(2) off unfolding clear_def by (meson le_trans less_le_trans)
  have same: "hm ?h x = hm h x" "hm ?h (x + 4) = hm h (x + 4)" "hm ?h (x + 8) = hm h (x + 8)" if "x \<in> set xs" for x
    using entry_at_in_heap[OF D(1) en[OF that]] W(3) by simp_all
  then have fr: "free_at ?h x = free_at h x" if "x \<in> set xs" for x using that by (simp add: free_at_def)
  then show "allocs ?h xs = allocs h xs" by (rule allocs_cong_set)
  have "entry_at ?h x" if x: "x \<in> set xs" for x
    using en[OF x] ord[OF x] W(2) off by (auto simp: entry_at_def)
  moreover have "set (tl xs) \<subseteq> set xs" by (cases xs) auto
  then have "successively (link ?h) xs"
    using same by (auto intro!: chain_cong[OF D(2)] dest: in_set_butlastD)
  moreover have "successively (gap ?h) (ys @ [a])" "successively (gap ?h) (b # zs)"
    by (rule successively_mono[of "gap h"],
        use D(10) xs in \<open>simp add: successively_append_iff\<close>,
        use part fr cl in \<open>fastforce simp: gap_def xs\<close>)+
  then have "successively (gap ?h) xs" using fr[of a] al by (simp add: xs successively_append_iff gap_def)
  moreover have "0xC1800000 \<in> set xs" "last xs \<in> set xs" using D(4,5) by (metis hd_in_set, simp)
  ultimately show "heap_wf ?h xs"
    using wf W(1) same(3)[of "0xC1800000"] same(2)[of "last xs"] fr[of "last xs"] by (simp add: heap_wf_def)
qed

section \<open>Properties\<close>

text \<open>The pointer handed out, right after a header, is not NULL.\<close>

lemma user_pointer_nonzero:
  assumes "hok h" and "entry_at h c"
  shows "(of_nat (c + 12) :: u32) \<noteq> 0"
proof -
  have "unat (of_nat (c + 12) :: u32) = c + 12"
    using assms heap_end_bounds(1)[of h] by (intro unat_of_nat_u32) (simp add: entry_at_def)
  then show ?thesis by (metis add_is_0 unat_0 zero_neq_numeral)
qed

text \<open>A call of \<open>kmalloc\<close> either fails for want of a frame or hands out one new block.\<close>

lemma kmalloc_cases:
  assumes wf: "heap_wf h xs" and n: "0 < n" "unat n \<le> 0x3E7FF000"
  obtains (none) h' xs' where "kmalloc n h = Some (0, h')" and "heap_wf h' xs'"
      and "allocs h' xs' = allocs h xs" and "no_frame_left (frames (vmem h'))"
  | (block) h' xs' a b where "kmalloc n h = Some (of_nat (a + 12), h')" and "(of_nat (a + 12) :: u32) \<noteq> 0"
      and "heap_wf h' xs'" and "allocs h' xs' = insert (a, b) (allocs h xs)" and "a + 12 + unat n \<le> b"
      and "\<And>d. (a, d) \<notin> allocs h xs"
proof -
  let ?w = "ALIGN n 4"
  have al: "unat ?w mod 4 = 0" "unat n \<le> unat ?w" using ALIGN_4[of n] n(2) by simp_all
  have args: "\<not> (n = 0 \<or> KERNEL_HEAP_END - heap_start < n)"
    using n by (auto simp: KERNEL_HEAP_END_def heap_start_def KERNEL_CODE_END_def word_less_nat_alt)
  have st: "heap_start = of_nat 0xC1800000" by (simp add: heap_start_def KERNEL_CODE_END_def)
  obtain zs where xs: "xs = [] @ 0xC1800000 # zs" using heap_wfD(4,5)[OF wf] by (cases xs) auto
  obtain r g ys where r: "heap_search ?w heap_start h = Some (r, g)" "heap_wf g ys"
    "allocs g ys = allocs h xs" "found ?w r g ys"
    using heap_search_correct[of h "[]" "0xC1800000" zs ?w] wf xs st by auto
  show ?thesis
  proof (cases r)
    case None
    then show ?thesis
      using r args by (intro none[of g ys]) (auto simp: kmalloc_def heap_find_first_free_space_def found_def)
  next
    case (Some p)
    then obtain us c d vs where c: "p = of_nat c" "ys = us @ c # d # vs" "free_at g c"
      "unat ?w \<le> d - c - 12" using r(4) by (auto simp: found_def)
    have wfg: "heap_wf g (us @ c # d # vs)" using r(2) c(2) by simp
    obtain h' xs' b where h': "heap_take ?w (of_nat c) g = Some (of_nat (c + 12), h')"
      "heap_wf h' xs'" "allocs h' xs' = insert (c, b) (allocs g (us @ c # d # vs))" "c + 12 + unat ?w \<le> b"
      using heap_take_correct[OF wfg c(3,4) al(1)] by metis
    have "kmalloc n h = Some (of_nat (c + 12), h')"
      using args r(1) Some c(1) h'(1) by (simp add: kmalloc_def heap_find_first_free_space_def)
    moreover have "(c, d) \<notin> allocs h xs" for d using allocs_member[of c d g ys] r(3) c(3) by auto
    moreover have "(of_nat (c + 12) :: u32) \<noteq> 0"
      using user_pointer_nonzero[OF heap_wfD(1)[OF wfg], of c] heap_wf_entry[OF wfg] by simp
    moreover have "c + 12 + unat n \<le> b" using h'(4) al(2) by linarith
    ultimately show ?thesis using h' r(3) c(2) by (intro block) simp_all
  qed
qed


text \<open>The heap right after boot: frames below 8192 reserved, and the boot code's page tables, whatever the memory
  held before.\<close>

definition pmm_boot_example :: pmm where
  "pmm_boot_example = \<lparr>bitmap = replicate 256 0xFFFFFFFF @ replicate 44 0, bitmap_size = 300,
     max_pages = 9600, used_pages = 8192, is_initialized = True\<rparr>"

definition heap_example :: heap where
  "heap_example = \<lparr>vmem = (init_paging vm_example)\<lparr>frames := pmm_boot_example\<rparr>, curr_heap_end = heap_start,
     last_entry = 0\<rparr>"

lemma occ_boot_example: "occ pmm_boot_example i \<longleftrightarrow> i < 8192"
proof -
  have "bit (0xFFFFFFFF :: u32) (i mod 32)" by (rule bit_all_ones_u32) simp
  then show ?thesis
    by (auto simp: occ_def capacity_def pmm_boot_example_def nth_append)
qed

lemma heap_example_ok: "hok heap_example"
proof (rule boot_hok)
  show "vmem heap_example = (init_paging vm_example)\<lparr>frames := pmm_boot_example\<rparr>" "curr_heap_end heap_example = heap_start"
    by (simp_all add: heap_example_def)
  show "pmm_wf pmm_boot_example" "unat (max_pages pmm_boot_example) < 0x3E400"
    by (simp_all add: pmm_wf_def scanned_def capacity_def pmm_boot_example_def)
  show "occ pmm_boot_example j" if "j < 0x1800" for j using that by (simp add: occ_boot_example)
qed

text \<open>The state after \<open>heap_init\<close> on it, with one page and one free block.\<close>

lemma heap_example_init:
  obtains h where "heap_init heap_example = Some (True, h)"
    and "heap_wf h [0xC1800000, 0xC1800FF4]" and "free_at h 0xC1800000"
proof (rule heap_init_ok[OF heap_example_ok])
  show "curr_heap_end heap_example = heap_start" by (simp add: heap_example_def)
  assume "no_frame_left (frames (vmem heap_example))"
  then have "\<forall>j < 9600. occ pmm_boot_example j"
    by (simp add: no_frame_left_def heap_example_def scanned_def) (simp add: pmm_boot_example_def)
  then have "occ pmm_boot_example 9000" by simp
  then show ?thesis by (simp add: occ_boot_example)
qed


text \<open>
  The heap seen from a process: three pages, the middle one is the directory in use, which a block of
  \<open>kmalloc_pages\<close> holds; it has the kernel's entry for the heap's table and the entry for itself.
\<close>

definition process_vm :: vm where
  "process_vm = \<lparr>cr3 = 0x02001000, phys = (\<lambda>f i.
     if f = 0x2001 then (if i = 774 then 0x01406003 else if i = 1023 then 0x02001003 else 0)
     else if f = 0x1406 then (if i < 3 then 0x02000003 + of_nat i * 0x1000 else 0)
     else if f = 0x2000 then (if i = 1 then 0xC1800FF4 else if i = 1022 then 0xC1802000
       else if i = 1023 then 0xC1800000 else 0)
     else if f = 0x2002 then (if i = 0 then 1 else if i = 1 then 0xC1802FF4 else if i = 2 then 0xC1800FF4
       else if i = 1023 then 0xC1802000 else 0)
     else 0),
     current_page_directory = 0xC1801000,
     frames = \<lparr>bitmap = replicate 256 0xFFFFFFFF @ 7 # replicate 43 0, bitmap_size = 300,
       max_pages = 9600, used_pages = 8195, is_initialized = True\<rparr>\<rparr>"

definition process_heap :: heap where
  "process_heap = \<lparr>vmem = process_vm, curr_heap_end = 0xC1803000, last_entry = 0xC1802FF4\<rparr>"

lemma occ_process_vm: "i < 8195 \<Longrightarrow> occ (frames process_vm) i"
proof -
  assume "i < 8195"
  then consider "i < 8192" | "i = 8192" | "i = 8193" | "i = 8194" by linarith
  then show ?thesis
  proof cases
    case 1
    have "bit (0xFFFFFFFF :: u32) (i mod 32)" by (rule bit_all_ones_u32) simp
    with 1 show ?thesis by (simp add: occ_def capacity_def process_vm_def nth_append)
  qed (simp_all add: occ_def capacity_def process_vm_def nth_append)
qed

lemma process_vm_frames:
  "pd_frame process_vm = 0x2001" "mmu_frame process_vm 0xC1800 = Some 0x2000"
  "mmu_frame process_vm 0xC1801 = Some 0x2001" "mmu_frame process_vm 0xC1802 = Some 0x2002"
  by (simp_all add: pd_frame_def mmu_frame_def process_vm_def e_present_def e_address_def drop_bit_eq_div Let_def)

lemma process_pages:
  assumes "0xC1800 \<le> unat (v :: u32)" and "unat v < 0xC1803"
  shows "v = 0xC1800 \<or> v = 0xC1801 \<or> v = 0xC1802"
  using assms by (auto simp: word_unat_eq_iff)

lemma process_vm_space: "heap_space process_vm 0xC1803"
proof -
  note F = process_vm_frames
  have oc: "occ (frames process_vm) (unat f)" if "f \<in> insert 0x2001 ktables" for f
    using that ktables_small(1)[of f] by (auto intro: occ_process_vm)
  have nk: "f \<notin> ktables" if "0x1800 \<le> unat f" for f using that ktables_small(1)[of f] by auto
  have rec: "recursive process_vm"
    by (simp add: recursive_def F(1)) (simp add: process_vm_def e_present_def e_address_def drop_bit_eq_div)
  have sc: "scanned (frames process_vm) = 9600" "pmm_wf (frames process_vm)" "unat (max_pages (frames process_vm)) < 0x3E400"
    by (simp_all add: scanned_def pmm_wf_def capacity_def process_vm_def)
  have fixed: "e_address (phys process_vm 0x2001 i) = 0x1100 + of_nat i"
    if "774 \<le> i" "i < 1023" "e_present (phys process_vm 0x2001 i)" for i
    using that by (cases "i = 774") (simp_all add: process_vm_def e_present_def e_address_def drop_bit_eq_div)
  have pages: "\<exists>f. mmu_frame process_vm v = Some f \<and> f \<notin> ktables \<and> occ (frames process_vm) (unat f) \<and>
      unat f < scanned (frames process_vm)" if "0xC1800 \<le> unat v" "unat v < 0xC1803" for v
    using process_pages[OF that] F(2-4) by (auto simp: sc nk occ_process_vm)
  have "inj_on (mmu_frame process_vm) {v. 0xC1800 \<le> unat v \<and> unat v < 0xC1803}"
  proof (rule inj_onI)
    fix v w :: u32
    assume A: "v \<in> {v. 0xC1800 \<le> unat v \<and> unat v < 0xC1803}" "w \<in> {v. 0xC1800 \<le> unat v \<and> unat v < 0xC1803}"
      "mmu_frame process_vm v = mmu_frame process_vm w"
    then show "v = w" using process_pages[of v] process_pages[of w] F(2-4) by auto
  qed
  then show ?thesis
    using oc nk[of "0x2001"] rec sc fixed pages occ_process_vm[of 0]
    unfolding heap_space_def F(1) by auto
qed

text \<open>It is well formed as well, so that what is shown of \<open>kmalloc\<close> and \<open>kfree\<close> holds in the process's space.\<close>

lemma process_heap_wf:
  "heap_wf process_heap [0xC1800000, 0xC1800FF4, 0xC1802000, 0xC1802FF4]" and "dir_page (vmem process_heap) 0xC1801"
proof -
  note F = process_vm_frames
  have he: "hend process_heap = 0xC1803" by (simp add: hend_def process_heap_def)
  show "dir_page (vmem process_heap) 0xC1801" using F by (simp add: dir_page_def process_heap_def)
  have dp: "\<not> dir_page process_vm 0xC1800" "\<not> dir_page process_vm 0xC1802" using F by (simp_all add: dir_page_def)
  have hin: "hin process_heap n" if "n mod 4 = 0" "0xC1800000 \<le> n \<and> n < 0xC1801000 \<or> 0xC1802000 \<le> n \<and> n < 0xC1803000" for n
  proof -
    have "n div 4096 = 0xC1800 \<or> n div 4096 = 0xC1802" using that(2) by (auto intro: div_nat_eqI)
    then show ?thesis using that dp he by (auto simp: hin_def in_heap_def process_heap_def)
  qed
  have "vload (of_nat n) process_vm = Some (hm process_heap n)" if n: "in_heap process_vm 0xC1803 n" for n
    using heap_space_mapped[OF process_vm_space, of "of_nat n div 4096"] in_heap_page[OF n]
    by (auto simp: hm_def vload_def process_heap_def)
  then have "hok process_heap"
    using process_vm_space he by (simp add: hok_def heap_view_def) (simp add: process_heap_def)
  moreover have "entry_at process_heap a" if "a \<in> {0xC1800000, 0xC1800FF4, 0xC1802000, 0xC1802FF4}" for a
    using that hin by (auto simp: entry_at_def process_heap_def)
  moreover have "clear process_heap 0xC1802000 0xC1802FF4" using hin by (simp add: clear_def)
  moreover have "hm process_heap n = phys process_vm (the (mmu_frame process_vm (of_nat n div 4096))) (n mod 4096 div 4)"
    if "n \<in> {0xC1800000, 0xC1800FF4, 0xC1802000, 0xC1802FF4, 0xC1800004, 0xC1800FF8, 0xC1802004, 0xC1802FF8,
      0xC1800008, 0xC1800FFC, 0xC1802008, 0xC1802FFC}" for n
    using that F by (auto simp: hm_def vload_def process_heap_def)
  ultimately show "heap_wf process_heap [0xC1800000, 0xC1800FF4, 0xC1802000, 0xC1802FF4]"
    using F by (simp add: heap_wf_def link_def gap_def free_at_def) (simp add: process_heap_def process_vm_def)
qed

text \<open>\<open>heap_init\<close>: with no heap page yet, it answers false and changes nothing when no frame is
  left, and otherwise leaves a well-formed heap of one page that is one free block.\<close>

lemma heap_init_one_block:
  assumes "hok h" and "curr_heap_end h = heap_start"
  shows "\<exists>ok h'. heap_init h = Some (ok, h') \<and>
    (if ok then heap_wf h' [0xC1800000, 0xC1800FF4] \<and> free_at h' 0xC1800000
     else h' = h \<and> no_frame_left (frames (vmem h)))"
  by (rule heap_init_ok[OF assms]) auto




text \<open>Giving a page of the heap back: it is not translated any more.\<close>

lemma heap_page_unmapped:
  assumes hs: "heap_space V e" and v: "0xC1800 \<le> unat v" "unat v < e" and f: "mmu_frame V v = Some f"
    and p: "pmm_deallocate_page f (frames V) = Some p"
  shows "\<exists>V'. deallocate_virtual_page v V = Some V' \<and> mmu_frame V' v = None"
proof -
  let ?s = "V\<lparr>frames := p\<rparr>"
  have b: "unat v < 0xFFC00" using v(2) heap_spaceD(6)[OF hs] by simp
  have rec: "recursive V" "recursive ?s" using heap_spaceD(1)[OF hs] by simp_all
  have pde: "e_present (pde_of V v)" using f by (auto simp: mmu_frame_alt split: if_splits)
  let ?t = "e_address (pde_of V v)" and ?j = "unat (v mod 1024)"
  have td: "?t \<noteq> pd_frame V" using heap_space_table(2)[OF hs v(1) b pde] heap_spaceD(9)[OF hs] by metis
  have a: "f = e_address (phys V ?t ?j)" using f by (auto simp: mmu_frame_alt split: if_splits)
  note b20 = below_window(1)[OF b]
  have "vload (get_pte v) V = Some (phys V ?t ?j)"
    using vaccess_pt(1)[OF rec(1) b20 pde] by (simp add: get_pte_eq[OF b20])
  moreover have "vmodify (get_pte v) (e_set_flag 0 False) ?s =
      Some (pwrite ?t ?j (e_set_flag 0 False (phys V ?t ?j)) ?s)"
    using vmodify_pt[OF rec(2) b20] pde by (simp add: get_pte_eq[OF b20] Let_def)
  moreover have "mmu_frame (pwrite ?t ?j (e_set_flag 0 False (phys V ?t ?j)) ?s) v = None"
    using td by (simp add: mmu_frame_alt pde_of_pwrite phys_pwrite pte_simps pd_frame_def)
  ultimately show ?thesis
    using p get_pte_not_null[OF b20] by (simp add: deallocate_virtual_page_def Let_def a)
qed



end
