(* ===== verification/Ata.thy ===== *)
theory Ata
  imports LibC
begin

text \<open>
  Port input and output (\<open>util/io/io.c\<close>) and the ATA driver (\<open>drivers/harddisk/ata/ata.c\<close>).

  The devices behind the ports are not code of the kernel: they are a parameter of the model,
  a record of what the four port instructions answer and do to the device state \<open>'d\<close>. The
  driver's polling loops run until the device says so, so they may not end.

  \<open>disk_read\<close> and \<open>disk_write\<close> state what the driver is for: whole sectors of 512 bytes moved
  between a buffer and the disk. They are proved to be what the driver does on every drive that
  follows the PIO protocol (\<open>pio_protocol\<close>, a hypothesis on the parameter), and they are what the
  file system is modelled on.
\<close>

section \<open>Ports\<close>

record 'd port_io =
  in_byte :: "u16 \<Rightarrow> 'd \<Rightarrow> u8 \<times> 'd"
  out_byte :: "u16 \<Rightarrow> u8 \<Rightarrow> 'd \<Rightarrow> 'd"
  in_word :: "u16 \<Rightarrow> 'd \<Rightarrow> u16 \<times> 'd"
  out_word :: "u16 \<Rightarrow> u16 \<Rightarrow> 'd \<Rightarrow> 'd"

definition io_in_byte :: "'d port_io \<Rightarrow> u16 \<Rightarrow> 'd \<Rightarrow> u8 \<times> 'd" where
  "io_in_byte io port d = in_byte io port d"

definition io_out_byte :: "'d port_io \<Rightarrow> u16 \<Rightarrow> u8 \<Rightarrow> 'd \<Rightarrow> 'd" where
  "io_out_byte io port val d = out_byte io port val d"

definition io_in_word :: "'d port_io \<Rightarrow> u16 \<Rightarrow> 'd \<Rightarrow> u16 \<times> 'd" where
  "io_in_word io port d = in_word io port d"

definition io_out_word :: "'d port_io \<Rightarrow> u16 \<Rightarrow> u16 \<Rightarrow> 'd \<Rightarrow> 'd" where
  "io_out_word io port val d = out_word io port val d"

lemmas io_defs = io_in_byte_def io_out_byte_def io_in_word_def io_out_word_def

section \<open>The driver\<close>

definition ATA_DATA :: u16 where "ATA_DATA = 0x1F0"
definition ATA_SECTOR_COUNT :: u16 where "ATA_SECTOR_COUNT = 0x1F2"
definition ATA_SECTOR_LOW :: u16 where "ATA_SECTOR_LOW = 0x1F3"
definition ATA_SECTOR_MID :: u16 where "ATA_SECTOR_MID = 0x1F4"
definition ATA_SECTOR_HIGH :: u16 where "ATA_SECTOR_HIGH = 0x1F5"
definition ATA_SELECT_DRIVE :: u16 where "ATA_SELECT_DRIVE = 0x1F6"
definition ATA_CMD_STATUS :: u16 where "ATA_CMD_STATUS = 0x1F7"

lemmas ata_ports = ATA_DATA_def ATA_SECTOR_COUNT_def ATA_SECTOR_LOW_def ATA_SECTOR_MID_def
  ATA_SECTOR_HIGH_def ATA_SELECT_DRIVE_def ATA_CMD_STATUS_def

record ata_drive =
  cylinders :: u16
  heads :: u16
  sectors_per_track :: u16
  total_sectors :: u64
  model :: bytes
  is_present :: u8

record 'd ata =
  main_driver :: ata_drive
  device :: 'd

fun wait_times :: "'d port_io \<Rightarrow> nat \<Rightarrow> 'd \<Rightarrow> 'd" where
  "wait_times io 0 d = d"
| "wait_times io (Suc n) d = wait_times io n (snd (io_in_byte io ATA_CMD_STATUS d))"

definition wait_400ns :: "'d port_io \<Rightarrow> 'd \<Rightarrow> 'd" where
  "wait_400ns io d = wait_times io 4 d"

text \<open>\<open>while (!(io_in_byte(ATA_CMD_STATUS) & 0x08));\<close> and \<open>while (io_in_byte(ATA_CMD_STATUS) & 0x80);\<close>\<close>

partial_function (option) wait_drq :: "'d port_io \<Rightarrow> 'd \<Rightarrow> 'd option" where
  "wait_drq io d =
     (let (b, d) = io_in_byte io ATA_CMD_STATUS d
      in if b AND 0x08 = 0 then wait_drq io d else Some d)"

partial_function (option) wait_busy :: "'d port_io \<Rightarrow> 'd \<Rightarrow> 'd option" where
  "wait_busy io d =
     (let (b, d) = io_in_byte io ATA_CMD_STATUS d
      in if b AND 0x80 \<noteq> 0 then wait_busy io d else Some d)"

text \<open>Storing a 16-bit value in the \<open>k\<close>-th word of a buffer, and reading it.\<close>

definition put16 :: "nat \<Rightarrow> u16 \<Rightarrow> bytes \<Rightarrow> bytes option" where
  "put16 k w buf =
     (if 2 * k + 1 < length buf
      then Some (buf[2 * k := ucast w, 2 * k + 1 := ucast (drop_bit 8 w)]) else None)"

definition get16 :: "nat \<Rightarrow> bytes \<Rightarrow> u16 option" where
  "get16 k buf = (if 2 * k + 1 < length buf then Some (le16_word (drop (2 * k) buf)) else None)"

fun read_words :: "'d port_io \<Rightarrow> nat \<Rightarrow> nat \<Rightarrow> bytes \<Rightarrow> 'd \<Rightarrow> (bytes \<times> 'd) option" where
  "read_words io k 0 buf d = Some (buf, d)"
| "read_words io k (Suc n) buf d = do {
     let (w, d) = io_in_word io ATA_DATA d;
     buf \<leftarrow> put16 k w buf;
     read_words io (Suc k) n buf d
   }"

fun write_words :: "'d port_io \<Rightarrow> nat \<Rightarrow> nat \<Rightarrow> bytes \<Rightarrow> 'd \<Rightarrow> 'd option" where
  "write_words io k 0 buf d = Some d"
| "write_words io k (Suc n) buf d = do {
     w \<leftarrow> get16 k buf;
     write_words io (Suc k) n buf (io_out_word io ATA_DATA w d)
   }"

text \<open>The transfer loops: sector \<open>i\<close> of \<open>i + n\<close>.\<close>

fun read_sectors :: "'d port_io \<Rightarrow> nat \<Rightarrow> nat \<Rightarrow> bytes \<Rightarrow> 'd \<Rightarrow> (bytes \<times> 'd) option" where
  "read_sectors io i 0 buf d = Some (buf, d)"
| "read_sectors io i (Suc n) buf d = do {
     (buf, d) \<leftarrow> read_words io (i * 256) 256 buf d;
     d \<leftarrow> wait_busy io (wait_400ns io d);
     read_sectors io (Suc i) n buf d
   }"

fun write_sectors :: "'d port_io \<Rightarrow> nat \<Rightarrow> nat \<Rightarrow> bytes \<Rightarrow> 'd \<Rightarrow> 'd option" where
  "write_sectors io i 0 buf d = Some d"
| "write_sectors io i (Suc n) buf d = do {
     d \<leftarrow> write_words io (i * 256) 256 buf d;
     d \<leftarrow> wait_busy io (wait_400ns io d);
     write_sectors io (Suc i) n buf d
   }"

text \<open>The task file: drive and address bits 24 to 31, the count, the address bytes, the command.\<close>

definition ata_command :: "'d port_io \<Rightarrow> u32 \<Rightarrow> u8 \<Rightarrow> u8 \<Rightarrow> 'd \<Rightarrow> 'd" where
  "ata_command io sector_number sector_count cmd d =
     (let d = io_out_byte io ATA_SELECT_DRIVE (ucast (drop_bit 24 sector_number OR 0xE0)) d;
          d = io_out_byte io ATA_SECTOR_COUNT sector_count d;
          d = io_out_byte io ATA_SECTOR_LOW (ucast (sector_number AND 0xFF)) d;
          d = io_out_byte io ATA_SECTOR_MID (ucast (drop_bit 8 sector_number AND 0xFF)) d;
          d = io_out_byte io ATA_SECTOR_HIGH (ucast (drop_bit 16 sector_number AND 0xFF)) d
      in io_out_byte io ATA_CMD_STATUS cmd d)"

definition ata_read ::
    "'d port_io \<Rightarrow> u32 \<Rightarrow> u8 \<Rightarrow> bytes \<Rightarrow> 'd ata \<Rightarrow> (int \<times> bytes \<times> 'd ata) option" where
  "ata_read io sector_number sector_count buffer a =
     (if is_present (main_driver a) = 0 then Some (1, buffer, a)
      else do {
        d \<leftarrow> wait_drq io (ata_command io sector_number sector_count 0x20 (device a));
        (buffer, d) \<leftarrow> read_sectors io 0 (unat sector_count) buffer d;
        Some (0, buffer, a\<lparr>device := d\<rparr>)
      })"

definition ata_write ::
    "'d port_io \<Rightarrow> u32 \<Rightarrow> u8 \<Rightarrow> bytes \<Rightarrow> 'd ata \<Rightarrow> (int \<times> 'd ata) option" where
  "ata_write io sector_number sector_count buffer a =
     (if is_present (main_driver a) = 0 then Some (1, a)
      else do {
        d \<leftarrow> wait_drq io (ata_command io sector_number sector_count 0x30 (device a));
        d \<leftarrow> write_sectors io 0 (unat sector_count) buffer d;
        Some (0, a\<lparr>device := d\<rparr>)
      })"

text \<open>IDENTIFY: 256 words, of which the geometry, the sector count and the model are kept.\<close>

fun identify_words :: "'d port_io \<Rightarrow> nat \<Rightarrow> 'd \<Rightarrow> u16 list \<times> 'd" where
  "identify_words io 0 d = ([], d)"
| "identify_words io (Suc n) d =
     (let (w, d) = io_in_word io ATA_DATA d; (ws, d) = identify_words io n d in (w # ws, d))"

definition ata_init :: "'d port_io \<Rightarrow> 'd ata \<Rightarrow> 'd ata" where
  "ata_init io a =
     (let d = io_out_byte io ATA_SELECT_DRIVE 0xA0 (device a);
          d = io_out_byte io ATA_SECTOR_LOW 0 d;
          d = io_out_byte io ATA_SECTOR_MID 0 d;
          d = io_out_byte io ATA_SECTOR_HIGH 0 d;
          d = io_out_byte io ATA_CMD_STATUS 0xEC d;
          (drive_status, d) = io_in_byte io ATA_CMD_STATUS d;
          dr = main_driver a
      in if drive_status = 0 then a\<lparr>device := d, main_driver := dr\<lparr>is_present := 0\<rparr>\<rparr>
         else
           let (data_buffer, d) = identify_words io 256 d
           in a\<lparr>device := d, main_driver := dr\<lparr>
                  is_present := 1,
                  cylinders := data_buffer ! 1,
                  heads := data_buffer ! 3,
                  sectors_per_track := data_buffer ! 6,
                  total_sectors := ucast ((ucast (data_buffer ! 60) :: u32) OR
                    push_bit 16 (ucast (data_buffer ! 61))),
                  model := concat (map (\<lambda>w. [ucast (w AND 0xFF), ucast (drop_bit 8 w)])
                    (take 20 (drop 27 data_buffer))) @ [0]\<rparr>\<rparr>)"

definition get_main_drive :: "'d ata \<Rightarrow> ata_drive" where
  "get_main_drive a = main_driver a"

section \<open>Sector transfers\<close>

record hdd =
  present :: bool
  sectors :: "nat \<Rightarrow> bytes"

definition disk_read :: "u32 \<Rightarrow> u8 \<Rightarrow> bytes \<Rightarrow> hdd \<Rightarrow> (int \<times> bytes) option" where
  "disk_read sector_number sector_count buffer d =
     (if \<not> present d then Some (1, buffer)
      else if length buffer < 512 * unat sector_count then None
      else Some (0, concat (map (\<lambda>i. sectors d (unat sector_number + i)) [0..<unat sector_count]) @
                    drop (512 * unat sector_count) buffer))"

definition disk_write :: "u32 \<Rightarrow> u8 \<Rightarrow> bytes \<Rightarrow> hdd \<Rightarrow> (int \<times> hdd) option" where
  "disk_write sector_number sector_count buffer d =
     (if \<not> present d then Some (1, d)
      else if length buffer < 512 * unat sector_count then None
      else Some (0, d\<lparr>sectors := (\<lambda>i.
             if unat sector_number \<le> i \<and> i < unat sector_number + unat sector_count
             then take 512 (drop (512 * (i - unat sector_number)) buffer) else sectors d i)\<rparr>))"

section \<open>The PIO protocol\<close>

text \<open>
  What is documented of a drive on the ports, as seen by its driver: the contents, the registers
  written, the command in progress with its current sector, the number of sectors left and the
  bytes of the current sector still to be delivered (or received so far). After a command, and
  after the last word of a sector, the drive is not ready for the next transfer: its status shows
  the busy bit within 400ns, which is \<open>p_late \<le> 4\<close> reads of the status, and then for some
  finite number \<open>p_busy\<close> of polls, which the drive chooses. The address is 28 bits wide; a count
  of 0 stands for 256.
\<close>

datatype pio_mode = Idle | Reading | Writing

record pio =
  p_sectors :: "nat \<Rightarrow> bytes"
  p_regs :: "u16 \<Rightarrow> u8"
  p_mode :: pio_mode
  p_lba :: nat
  p_left :: nat
  p_buf :: bytes
  p_late :: nat
  p_busy :: nat

definition pio_lba :: "pio \<Rightarrow> nat" where
  "pio_lba d = unat (p_regs d 0x1F3) + 2 ^ 8 * unat (p_regs d 0x1F4) +
     2 ^ 16 * unat (p_regs d 0x1F5) + 2 ^ 24 * (unat (p_regs d 0x1F6) mod 16)"

definition pio_count :: "pio \<Rightarrow> nat" where
  "pio_count d = (if p_regs d 0x1F2 = 0 then 256 else unat (p_regs d 0x1F2))"

text \<open>The next sector of a command, ready after \<open>l\<close> reads of the status and \<open>w\<close> busy ones.\<close>

definition pio_begin :: "pio_mode \<Rightarrow> nat \<Rightarrow> nat \<Rightarrow> nat \<Rightarrow> nat \<Rightarrow> pio \<Rightarrow> pio" where
  "pio_begin m lba n l w d = d\<lparr>p_mode := (if n = 0 then Idle else m), p_lba := lba, p_left := n,
     p_buf := (if m = Reading \<and> n \<noteq> 0 then p_sectors d lba else []), p_late := l, p_busy := w\<rparr>"

definition pio_tick :: "pio \<Rightarrow> pio" where
  "pio_tick d = (if 0 < p_late d then d\<lparr>p_late := p_late d - 1\<rparr> else d\<lparr>p_busy := p_busy d - 1\<rparr>)"

definition settled :: "pio \<Rightarrow> bool" where
  "settled d \<longleftrightarrow> p_late d = 0 \<and> p_busy d = 0"

text \<open>
  The protocol: what a drive \<open>io\<close> whose state \<open>d\<close> is seen as \<open>view d\<close> answers. The data
  request bit comes with the data; nothing is said of what the registers and the data port do while the drive
  is not settled, nor of the busy bit before it must show.
\<close>

definition status_protocol :: "'d port_io \<Rightarrow> ('d \<Rightarrow> pio) \<Rightarrow> bool" where
  "status_protocol io view \<longleftrightarrow> (\<forall>d. view (snd (in_byte io 0x1F7 d)) = pio_tick (view d) \<and>
     (fst (in_byte io 0x1F7 d) AND 0x08 \<noteq> 0 \<longleftrightarrow> settled (view d) \<and> p_mode (view d) \<noteq> Idle) \<and>
     (p_late (view d) = 0 \<longrightarrow> (fst (in_byte io 0x1F7 d) AND 0x80 \<noteq> 0 \<longleftrightarrow> 0 < p_busy (view d))))"

definition register_protocol :: "'d port_io \<Rightarrow> ('d \<Rightarrow> pio) \<Rightarrow> bool" where
  "register_protocol io view \<longleftrightarrow> (\<forall>d port v. settled (view d) \<and> p_mode (view d) = Idle \<and>
     port \<in> {0x1F2, 0x1F3, 0x1F4, 0x1F5, 0x1F6} \<longrightarrow>
     view (out_byte io port v d) = (view d)\<lparr>p_regs := (p_regs (view d))(port := v)\<rparr>)"

definition command_protocol :: "'d port_io \<Rightarrow> ('d \<Rightarrow> pio) \<Rightarrow> bool" where
  "command_protocol io view \<longleftrightarrow> (\<forall>d m. settled (view d) \<and> p_mode (view d) = Idle \<and>
     p_regs (view d) 0x1F6 AND 0xF0 = 0xE0 \<and> m \<noteq> Idle \<longrightarrow>
     (\<exists>l w. l \<le> 4 \<and> view (out_byte io 0x1F7 (if m = Reading then 0x20 else 0x30) d) =
        pio_begin m (pio_lba (view d)) (pio_count (view d)) l w (view d)))"

definition data_in_protocol :: "'d port_io \<Rightarrow> ('d \<Rightarrow> pio) \<Rightarrow> bool" where
  "data_in_protocol io view \<longleftrightarrow> (\<forall>d a b rest. settled (view d) \<and> p_mode (view d) = Reading \<and>
     p_buf (view d) = a # b # rest \<longrightarrow>
     fst (in_word io 0x1F0 d) = le16_word [a, b] \<and>
     (if rest = [] then \<exists>l w. l \<le> 4 \<and> view (snd (in_word io 0x1F0 d)) =
        pio_begin Reading (Suc (p_lba (view d))) (p_left (view d) - 1) l w (view d)
      else view (snd (in_word io 0x1F0 d)) = (view d)\<lparr>p_buf := rest\<rparr>))"

definition data_out_protocol :: "'d port_io \<Rightarrow> ('d \<Rightarrow> pio) \<Rightarrow> bool" where
  "data_out_protocol io view \<longleftrightarrow> (\<forall>d v. settled (view d) \<and> p_mode (view d) = Writing \<longrightarrow>
     (let buf = p_buf (view d) @ le16_bytes v
      in if length buf = 512
         then \<exists>l w. l \<le> 4 \<and> view (out_word io 0x1F0 v d) =
           pio_begin Writing (Suc (p_lba (view d))) (p_left (view d) - 1) l w
             ((view d)\<lparr>p_sectors := (p_sectors (view d))(p_lba (view d) := buf)\<rparr>)
         else view (out_word io 0x1F0 v d) = (view d)\<lparr>p_buf := buf\<rparr>))"

definition pio_protocol :: "'d port_io \<Rightarrow> ('d \<Rightarrow> pio) \<Rightarrow> bool" where
  "pio_protocol io view \<longleftrightarrow> status_protocol io view \<and> register_protocol io view \<and>
     command_protocol io view \<and> data_in_protocol io view \<and> data_out_protocol io view"

definition pio_ok :: "pio \<Rightarrow> bool" where
  "pio_ok d \<longleftrightarrow> (\<forall>i. length (p_sectors d i) = 512)"

lemma pio_begin_simps [simp]:
  "p_sectors (pio_begin m l n x y d) = p_sectors d" "p_lba (pio_begin m l n x y d) = l"
  "p_left (pio_begin m l n x y d) = n" "pio_ok (pio_begin m l n x y d) = pio_ok d"
  "p_late (pio_begin m l n x y d) = x" "p_busy (pio_begin m l n x y d) = y"
  "p_mode (pio_begin m l n x y d) = (if n = 0 then Idle else m)"
  by (simp_all add: pio_begin_def pio_ok_def)

text \<open>Waiting only changes the time left.\<close>

definition settle :: "pio \<Rightarrow> pio" where
  "settle d = d\<lparr>p_late := 0, p_busy := 0\<rparr>"

lemma settle_simps [simp]:
  "settled (settle d)" "p_sectors (settle d) = p_sectors d" "p_mode (settle d) = p_mode d"
  "p_lba (settle d) = p_lba d" "p_left (settle d) = p_left d" "p_buf (settle d) = p_buf d"
  "settle (pio_tick d) = settle d" "settled d \<Longrightarrow> settle d = d"
  by (cases d; simp add: settle_def settled_def pio_tick_def)+

lemma settle_begin:
  "settle (pio_begin m lba n l w d) = pio_begin m lba n 0 0 d"
  "pio_begin m lba n l w (pio_begin m' lba' n' l' w' d) = pio_begin m lba n l w d"
  by (simp_all add: settle_def pio_begin_def)

lemma settled_tick: "settled d \<Longrightarrow> pio_tick d = d"
  by (cases d) (simp add: settled_def pio_tick_def)

locale pio_device =
  fixes io :: "'d port_io" and view :: "'d \<Rightarrow> pio"
  assumes protocol: "pio_protocol io view"
begin

lemma status:
  obtains b d' where "io_in_byte io ATA_CMD_STATUS d = (b, d')" and "view d' = pio_tick (view d)"
    and "b AND 0x08 \<noteq> 0 \<longleftrightarrow> settled (view d) \<and> p_mode (view d) \<noteq> Idle"
    and "p_late (view d) = 0 \<Longrightarrow> b AND 0x80 \<noteq> 0 \<longleftrightarrow> 0 < p_busy (view d)"
proof -
  have "status_protocol io view" using protocol by (simp add: pio_protocol_def)
  then show ?thesis
    using that[of "fst (in_byte io 0x1F7 d)" "snd (in_byte io 0x1F7 d)"]
    by (simp add: status_protocol_def io_in_byte_def ATA_CMD_STATUS_def)
qed

lemma wait_busy_settles:
  "p_late (view d) = 0 \<Longrightarrow> \<exists>d'. wait_busy io d = Some d' \<and> view d' = settle (view d)"
proof (induction "p_busy (view d)" arbitrary: d)
  case 0
  obtain b d' where s: "io_in_byte io ATA_CMD_STATUS d = (b, d')" "view d' = pio_tick (view d)"
      "b AND 0x80 = 0"
    using status[of d] 0 by (metis less_irrefl)
  moreover have "settled (view d)" using 0 by (simp add: settled_def)
  ultimately show ?case by (subst wait_busy.simps) (simp add: settled_tick)
next
  case (Suc n)
  obtain b d' where s: "io_in_byte io ATA_CMD_STATUS d = (b, d')" "view d' = pio_tick (view d)"
      "b AND 0x80 \<noteq> 0"
    using status[of d] Suc.hyps(2) Suc.prems by (metis zero_less_Suc)
  have "p_busy (view d') = n" "p_late (view d') = 0"
    using Suc.hyps(2) Suc.prems by (simp_all add: s(2) pio_tick_def)
  with Suc.hyps(1)[of d'] show ?case using s by (subst wait_busy.simps) simp
qed

lemma wait_drq_settles:
  "p_mode (view d) \<noteq> Idle \<Longrightarrow> \<exists>d'. wait_drq io d = Some d' \<and> view d' = settle (view d)"
proof (induction "p_late (view d) + p_busy (view d)" arbitrary: d rule: less_induct)
  case less
  obtain b d' where s: "io_in_byte io ATA_CMD_STATUS d = (b, d')" "view d' = pio_tick (view d)"
      "b AND 0x08 \<noteq> 0 \<longleftrightarrow> settled (view d)"
    using status[of d] less.prems by metis
  show ?case
  proof (cases "settled (view d)")
    case True
    then show ?thesis using s by (subst wait_drq.simps) (simp add: settled_tick)
  next
    case False
    then have "p_late (view d') + p_busy (view d') < p_late (view d) + p_busy (view d)"
      "p_mode (view d') \<noteq> Idle"
      using less.prems by (auto simp: s(2) pio_tick_def settled_def)
    from less.hyps[OF this] show ?thesis using s False by (subst wait_drq.simps) simp
  qed
qed

lemma wait_times_ticks: "view (wait_times io n d) = (pio_tick ^^ n) (view d)"
proof (induction n arbitrary: d)
  case (Suc n)
  obtain b d' where "io_in_byte io ATA_CMD_STATUS d = (b, d')" "view d' = pio_tick (view d)"
    by (rule status[of d])
  with Suc.IH[of d'] show ?case by (simp add: funpow_swap1)
qed simp

lemma ticks_late: "p_late d \<le> n \<Longrightarrow> p_late ((pio_tick ^^ n) d) = 0"
proof (induction n arbitrary: d)
  case (Suc n)
  have "p_late (pio_tick d) \<le> n" using Suc.prems by (auto simp: pio_tick_def)
  with Suc.IH[of "pio_tick d"] show ?case by (simp add: funpow_swap1)
qed simp

lemma ticks_settle: "settle ((pio_tick ^^ n) d) = settle d"
  by (induction n) simp_all

text \<open>What the driver does between two sectors: 400ns, then polls until the drive is not busy.\<close>

lemma wait_sector:
  "p_late (view d) \<le> 4 \<Longrightarrow> \<exists>d'. wait_busy io (wait_400ns io d) = Some d' \<and> view d' = settle (view d)"
  using wait_busy_settles[of "wait_400ns io d"] ticks_late[of "view d" 4]
  by (simp add: wait_400ns_def wait_times_ticks ticks_settle)

end

lemma base_256:
  "x = 256 * a + r \<Longrightarrow> a = 256 * b + s \<Longrightarrow> b = 256 * c + t \<Longrightarrow>
    (x :: nat) = r + 256 * s + 65536 * t + 16777216 * c"
  by simp

text \<open>The address bytes that the driver sends spell the sector number.\<close>

lemma lba_bytes:
  assumes "unat (n :: u32) < 2 ^ 28"
  shows "unat (ucast (n AND 0xFF) :: u8) + 2 ^ 8 * unat (ucast (drop_bit 8 n AND 0xFF) :: u8) +
     2 ^ 16 * unat (ucast (drop_bit 16 n AND 0xFF) :: u8) +
     2 ^ 24 * (unat (ucast (drop_bit 24 n OR 0xE0) :: u8) mod 16) = unat n"
proof -
  have m: "(0xFF :: u32) = mask 8" by (simp add: mask_eq_exp_minus_1)
  have b: "unat (ucast (x AND 0xFF) :: u8) = unat x mod 256" for x :: u32
    unfolding m by (simp add: unsigned_ucast_eq unsigned_and_eq take_bit_eq_mod unat_mod flip: take_bit_eq_mask)
  have e: "(ucast (drop_bit 24 n OR 0xE0) :: u8) AND 0xF = ucast (drop_bit 24 n) AND 0xF"
  proof (rule bit_word_eqI)
    fix k assume "k < LENGTH(8)"
    have m4: "(0xF :: u8) = mask 4" by (simp add: mask_eq_exp_minus_1)
    have "\<not> bit (0xE0 :: u32) k" if "k < 4"
    proof -
      have "take_bit 4 (0xE0 :: u32) = 0" by simp
      then show ?thesis using that by (metis bit_0_eq bit_take_bit_iff bot_apply bot_bool_def)
    qed
    then show "bit ((ucast (drop_bit 24 n OR 0xE0) :: u8) AND 0xF) k = bit ((ucast (drop_bit 24 n) :: u8) AND 0xF) k"
      unfolding m4 by (auto simp: bit_simps)
  qed
  have m16: "unat (y :: u8) mod 16 = unat (y AND 0xF)" for y
  proof -
    have "(0xF :: u8) = mask 4" by (simp add: mask_eq_exp_minus_1)
    then have "y AND 0xF = take_bit 4 y" by (simp add: take_bit_eq_mask)
    then show ?thesis by (simp add: unat_mod take_bit_eq_mod)
  qed
  have d: "unat n div 2 ^ 24 < 16" using assms by simp
  have "unat (ucast (drop_bit 24 n) :: u8) = unat n div 2 ^ 24"
    using d by (simp add: unsigned_ucast_eq drop_bit_eq_div unat_div take_bit_eq_mod)
  then have h: "unat (ucast (drop_bit 24 n OR 0xE0) :: u8) mod 16 = unat n div 2 ^ 24"
    using d e m16[of "ucast (drop_bit 24 n OR 0xE0)"] m16[of "ucast (drop_bit 24 n)"] by simp
  have "unat n = unat n mod 2 ^ 8 + 2 ^ 8 * (unat n div 2 ^ 8 mod 2 ^ 8) +
      2 ^ 16 * (unat n div 2 ^ 16 mod 2 ^ 8) + 2 ^ 24 * (unat n div 2 ^ 24)"
  proof -
    define x where "x = unat n"
    have "x div 65536 = x div 256 div 256" "x div 16777216 = x div 256 div 256 div 256"
      by (simp_all flip: div_mult2_eq)
    then have "x = x mod 256 + 256 * (x div 256 mod 256) + 65536 * (x div 65536 mod 256) +
        16777216 * (x div 16777216)"
      using base_256[of x "x div 256" "x mod 256" "x div 256 div 256" "x div 256 mod 256"
          "x div 256 div 256 div 256" "x div 256 div 256 mod 256"] by simp
    then show ?thesis by (simp add: x_def)
  qed
  then show ?thesis using h by (simp add: b drop_bit_eq_div unat_div)
qed

text \<open>The drive byte selects the master and addresses by sector number.\<close>

lemma drive_byte:
  assumes "unat (n :: u32) < 2 ^ 28"
  shows "(ucast (drop_bit 24 n OR 0xE0) :: u8) AND 0xF0 = 0xE0"
proof -
  have "unat (drop_bit 24 n) < 2 ^ 4" using assms by (simp add: drop_bit_eq_div unat_div less_mult_imp_div_less)
  then have "drop_bit 24 n = take_bit 4 (drop_bit 24 n)"
    by (metis less_imp_le_nat nat_less_le take_bit_nat_eq_self unsigned_take_bit_eq unsigned_word_eqI)
  then have n: "\<not> bit (drop_bit 24 n) k" if "4 \<le> k" for k
    using that by (metis bit_take_bit_iff not_le)
  have e: "bit (0xE0 :: u32) k = bit (0xE0 :: u8) k" if "k < 8" for k
    using that by (auto simp: less_Suc_eq numeral_eq_Suc)
  have f: "bit (0xF0 :: u8) k = (4 \<le> k)" if "k < 8" for k
    using that by (auto simp: less_Suc_eq numeral_eq_Suc)
  have g: "bit (0xE0 :: u8) k \<Longrightarrow> 4 \<le> k" if "k < 8" for k
    using that by (auto simp: less_Suc_eq numeral_eq_Suc)
  show ?thesis
  proof (rule bit_word_eqI)
    fix k assume "k < LENGTH(8)"
    then have "k < 8" by simp
    from n[of k] e[OF this] f[OF this] g[OF this] this
    show "bit ((ucast (drop_bit 24 n OR 0xE0) :: u8) AND 0xF0) k = bit (0xE0 :: u8) k"
      by (auto simp: bit_and_iff bit_unsigned_iff bit_or_iff simp del: bit_numeral_iff)
  qed
qed

context pio_device
begin

lemma out_register:
  assumes "settled (view d)" and "p_mode (view d) = Idle" and "port \<in> {0x1F2, 0x1F3, 0x1F4, 0x1F5, 0x1F6}"
  shows "view (io_out_byte io port v d) = (view d)\<lparr>p_regs := (p_regs (view d))(port := v)\<rparr>"
  using protocol assms by (simp add: pio_protocol_def register_protocol_def io_out_byte_def)

lemma out_command:
  assumes "settled (view d)" and "p_mode (view d) = Idle" and "p_regs (view d) 0x1F6 AND 0xF0 = 0xE0"
    and "cmd = 0x20 \<and> m = Reading \<or> cmd = 0x30 \<and> m = Writing"
  obtains l w where "l \<le> 4" "view (io_out_byte io ATA_CMD_STATUS cmd d) =
    pio_begin m (pio_lba (view d)) (pio_count (view d)) l w (view d)"
proof -
  have "command_protocol io view" using protocol by (simp add: pio_protocol_def)
  then show ?thesis using assms that
    by (fastforce simp: command_protocol_def io_out_byte_def ATA_CMD_STATUS_def)
qed

lemma ata_command_pio:
  assumes "settled (view d)" and "p_mode (view d) = Idle"
    and "unat n < 2 ^ 28" and "cmd = 0x20 \<and> m = Reading \<or> cmd = 0x30 \<and> m = Writing" and "0 < c"
  shows "\<exists>r l w. l \<le> 4 \<and> view (ata_command io n c cmd d) =
    pio_begin m (unat n) (unat c) l w ((view d)\<lparr>p_regs := r\<rparr>)"
proof -
  let ?r = "(p_regs (view d))(0x1F6 := ucast (drop_bit 24 n OR 0xE0), 0x1F2 := c, 0x1F3 := ucast (n AND 0xFF),
      0x1F4 := ucast (drop_bit 8 n AND 0xFF), 0x1F5 := ucast (drop_bit 16 n AND 0xFF))"
  define e where "e = io_out_byte io ATA_SECTOR_HIGH (ucast (drop_bit 16 n AND 0xFF))
    (io_out_byte io ATA_SECTOR_MID (ucast (drop_bit 8 n AND 0xFF))
    (io_out_byte io ATA_SECTOR_LOW (ucast (n AND 0xFF))
    (io_out_byte io ATA_SECTOR_COUNT c
    (io_out_byte io ATA_SELECT_DRIVE (ucast (drop_bit 24 n OR 0xE0)) d))))"
  have st: "settled (v\<lparr>p_regs := x\<rparr>) = settled v" for v :: pio and x by (simp add: settled_def)
  have e: "view e = (view d)\<lparr>p_regs := ?r\<rparr>"
    using assms(1,2) by (simp add: e_def out_register ata_ports st)
  have "pio_lba (view e) = unat n" using lba_bytes[OF assms(3)] by (simp add: pio_lba_def e)
  moreover have "pio_count (view e) = unat c" using assms(5) by (simp add: pio_count_def e)
  moreover obtain l w where "l \<le> 4" "view (io_out_byte io ATA_CMD_STATUS cmd e) =
      pio_begin m (pio_lba (view e)) (pio_count (view e)) l w (view e)"
  proof (rule out_command[of e cmd m])
    show "p_regs (view e) 0x1F6 AND 0xF0 = 0xE0" using drive_byte[OF assms(3)] by (simp add: e)
  qed (use assms(1,2,4) in \<open>simp_all add: e st\<close>)
  moreover have "ata_command io n c cmd d = io_out_byte io ATA_CMD_STATUS cmd e"
    by (simp add: ata_command_def e_def Let_def)
  ultimately show ?thesis using e by auto
qed

end

text \<open>One sector from the drive to the buffer.\<close>

lemma le16_word_split: "[ucast (le16_word [a, b]), ucast (drop_bit 8 (le16_word [a, b]))] = [a, b :: u8]"
proof -
  have "(ucast (le16_word [a, b]) :: u8) = a" "(ucast (drop_bit 8 (le16_word [a, b])) :: u8) = b"
    by (rule bit_word_eqI, auto simp: le16_word_def bit_simps dest: bit_imp_le_length)+
  then show ?thesis by simp
qed

lemma put16_bytes:
  assumes "2 * k + 1 < length buf"
  shows "put16 k (le16_word [a, b]) buf = Some (take (2 * k) buf @ [a, b] @ drop (2 * k + 2) buf)"
proof -
  have "buf[2 * k := x, 2 * k + 1 := y] = take (2 * k) buf @ [x, y] @ drop (2 * k + 2) buf" for x y
  proof -
    obtain u a' b' v where "buf = u @ a' # b' # v" "length u = 2 * k"
      using assms id_take_nth_drop[of "2 * k" buf] Cons_nth_drop_Suc[of "Suc (2 * k)" buf]
      by (metis One_nat_def Suc_eq_plus1 Suc_lessD length_take min.absorb4)
    then show ?thesis by (simp add: list_update_append nth_append)
  qed
  then show ?thesis using assms le16_word_split[of a b] by (simp add: put16_def)
qed

context pio_device
begin

lemma in_data:
  assumes "settled (view d)" and "p_mode (view d) = Reading" and "p_buf (view d) = a # b # rest"
  obtains d' where "io_in_word io ATA_DATA d = (le16_word [a, b], d')"
    and "rest = [] \<Longrightarrow> \<exists>l w. l \<le> 4 \<and>
      view d' = pio_begin Reading (Suc (p_lba (view d))) (p_left (view d) - 1) l w (view d)"
    and "rest \<noteq> [] \<Longrightarrow> view d' = (view d)\<lparr>p_buf := rest\<rparr>"
proof -
  have "data_in_protocol io view" using protocol by (simp add: pio_protocol_def)
  then have "fst (in_word io 0x1F0 d) = le16_word [a, b] \<and>
     (if rest = [] then \<exists>l w. l \<le> 4 \<and> view (snd (in_word io 0x1F0 d)) =
        pio_begin Reading (Suc (p_lba (view d))) (p_left (view d) - 1) l w (view d)
      else view (snd (in_word io 0x1F0 d)) = (view d)\<lparr>p_buf := rest\<rparr>)"
    using assms unfolding data_in_protocol_def by blast
  then show ?thesis using that[of "snd (in_word io 0x1F0 d)"]
    by (auto simp: io_in_word_def ATA_DATA_def prod_eq_iff split: if_splits)
qed

lemma read_words_pio:
  assumes "settled (view d)" and "p_mode (view d) = Reading" and "length (p_buf (view d)) = 2 * n"
    and "0 < n" and "2 * (k + n) \<le> length buf"
  shows "\<exists>d' l w. read_words io k n buf d =
      Some (take (2 * k) buf @ p_buf (view d) @ drop (2 * (k + n)) buf, d') \<and> l \<le> 4 \<and>
    view d' = pio_begin Reading (Suc (p_lba (view d))) (p_left (view d) - 1) l w (view d)"
  using assms
proof (induction n arbitrary: k buf d)
  case (Suc n)
  then obtain a b rest where buf: "p_buf (view d) = a # b # rest"
    by (cases "p_buf (view d)" rule: list.exhaust; cases "tl (p_buf (view d))") auto
  let ?buf = "take (2 * k) buf @ [a, b] @ drop (2 * k + 2) buf"
  have p: "put16 k (le16_word [a, b]) buf = Some ?buf"
    using Suc.prems by (intro put16_bytes) simp
  obtain e where e: "io_in_word io ATA_DATA d = (le16_word [a, b], e)"
    "rest = [] \<Longrightarrow> \<exists>l w. l \<le> 4 \<and>
      view e = pio_begin Reading (Suc (p_lba (view d))) (p_left (view d) - 1) l w (view d)"
    "rest \<noteq> [] \<Longrightarrow> view e = (view d)\<lparr>p_buf := rest\<rparr>"
    by (rule in_data[OF Suc.prems(1,2) buf]) blast
  show ?case
  proof (cases n)
    case 0
    then have "rest = []" using Suc.prems buf by simp
    with 0 e show ?thesis using p by (simp add: buf)
  next
    case (Suc m)
    then have v: "view e = (view d)\<lparr>p_buf := rest\<rparr>" using Suc.prems buf by (intro e(3)) auto
    have "settled (view e)" "p_mode (view e) = Reading" "length (p_buf (view e)) = 2 * n" "0 < n"
      using Suc.prems(1-3) Suc buf by (simp_all add: v settled_def)
    moreover have "2 * (Suc k + n) \<le> length ?buf" using Suc.prems(5) by simp
    ultimately have "\<exists>d' l w. read_words io (Suc k) n ?buf e =
        Some (take (2 * Suc k) ?buf @ p_buf (view e) @ drop (2 * (Suc k + n)) ?buf, d') \<and> l \<le> 4 \<and>
      view d' = pio_begin Reading (Suc (p_lba (view e))) (p_left (view e) - 1) l w (view e)"
      by (rule Suc.IH)
    then obtain d' l w where d': "read_words io (Suc k) n ?buf e =
        Some (take (2 * Suc k) ?buf @ rest @ drop (2 * (Suc k + n)) ?buf, d')" "l \<le> 4"
      "view d' = pio_begin Reading (Suc (p_lba (view e))) (p_left (view e) - 1) l w (view e)"
      unfolding v by auto
    have "pio_begin Reading j m l w (view e) = pio_begin Reading j m l w (view d)" for j m
      by (simp add: pio_begin_def v)
    moreover have "take (2 * Suc k) ?buf = take (2 * k) buf @ [a, b]"
      "drop (2 * (Suc k + n)) ?buf = drop (2 * (k + Suc n)) buf"
      using Suc.prems by (auto simp: min_def add.commute)
    ultimately show ?thesis using e(1) p d' by (auto simp: buf v)
  qed
qed simp

lemma read_sectors_pio:
  assumes "view d = pio_begin Reading l n 0 0 v" and "pio_ok v" and "512 * (i + n) \<le> length buf"
  shows "\<exists>d'. read_sectors io i n buf d =
    Some (take (512 * i) buf @ concat (map (\<lambda>j. p_sectors v (l + j)) [0..<n]) @ drop (512 * (i + n)) buf, d') \<and>
    settled (view d') \<and> p_mode (view d') = Idle \<and> p_sectors (view d') = p_sectors v"
  using assms
proof (induction n arbitrary: i l buf d)
  case 0
  then show ?case by (simp add: settled_def)
next
  case (Suc n)
  let ?buf = "take (512 * i) buf @ p_sectors v l @ drop (512 * Suc i) buf"
  have len: "length (p_sectors v j) = 512" for j using Suc.prems(2) by (simp add: pio_ok_def)
  have vd: "settled (view d)" "p_mode (view d) = Reading" "p_lba (view d) = l" "p_left (view d) = Suc n"
    "p_buf (view d) = p_sectors v l" "\<And>x y. pio_begin Reading (Suc l) n x y (view d) = pio_begin Reading (Suc l) n x y v"
    by (simp_all add: Suc.prems(1) settled_def settle_begin) (simp add: pio_begin_def)
  have "\<exists>e x y. read_words io (i * 256) 256 buf d = Some
      (take (2 * (i * 256)) buf @ p_buf (view d) @ drop (2 * (i * 256 + 256)) buf, e) \<and> x \<le> 4 \<and>
    view e = pio_begin Reading (Suc (p_lba (view d))) (p_left (view d) - 1) x y (view d)"
    using vd len Suc.prems(3) by (intro read_words_pio) simp_all
  then obtain e x y where e: "read_words io (i * 256) 256 buf d = Some
      (take (2 * (i * 256)) buf @ p_buf (view d) @ drop (2 * (i * 256 + 256)) buf, e)" "x \<le> 4"
    "view e = pio_begin Reading (Suc (p_lba (view d))) (p_left (view d) - 1) x y (view d)"
    by blast
  have m: "2 * (i * 256) = 512 * i" "2 * (i * 256 + 256) = 512 * Suc i" by simp_all
  have rw: "read_words io (i * 256) 256 buf d = Some (?buf, e)" using e(1) unfolding m vd .
  have ve: "view e = pio_begin Reading (Suc l) n x y v" using e(3) vd(6)[of x y] unfolding vd(3,4) by simp
  obtain e' where e': "wait_busy io (wait_400ns io e) = Some e'" "view e' = pio_begin Reading (Suc l) n 0 0 v"
    using wait_sector[of e] e(2) by (auto simp: ve settle_begin)
  have lb: "length ?buf = length buf" using Suc.prems(3) len by simp
  have "512 * (Suc i + n) \<le> length ?buf" unfolding lb using Suc.prems(3) by simp
  from Suc.IH[OF e'(2) Suc.prems(2) this]
  obtain d' where d': "read_sectors io (Suc i) n ?buf e' =
      Some (take (512 * Suc i) ?buf @ concat (map (\<lambda>j. p_sectors v (Suc l + j)) [0..<n]) @
        drop (512 * (Suc i + n)) ?buf, d')" "settled (view d')" "p_mode (view d') = Idle"
    "p_sectors (view d') = p_sectors v"
    by blast
  have "take (512 * Suc i) ?buf = take (512 * i) buf @ p_sectors v l"
    "drop (512 * (Suc i + n)) ?buf = drop (512 * (i + Suc n)) buf"
    using Suc.prems len by (auto simp: min_def add_ac)
  moreover have "concat (map (\<lambda>j. p_sectors v (l + j)) [0..<Suc n]) =
      p_sectors v l @ concat (map (\<lambda>j. p_sectors v (Suc l + j)) [0..<n])"
    by (simp add: upt_conv_Cons map_Suc_upt[symmetric] comp_def del: upt_Suc map_Suc_upt)
  ultimately show ?case using rw e' d' by simp
qed

end

text \<open>One sector from the buffer to the drive.\<close>

lemma le16_bytes_word: "le16_bytes (le16_word (a # b # rest)) = [a, b]"
  using le16_word_split[of a b] by (simp add: le16_bytes_def le16_word_def)

lemma get16_bytes:
  "2 * k + 1 < length buf \<Longrightarrow> \<exists>w. get16 k buf = Some w \<and> le16_bytes w = take 2 (drop (2 * k) buf)"
proof -
  assume k: "2 * k + 1 < length buf"
  then obtain a b rest where "drop (2 * k) buf = a # b # rest"
    by (metis Cons_nth_drop_Suc Suc_eq_plus1 Suc_lessD)
  with k show ?thesis by (simp add: get16_def le16_bytes_word)
qed

context pio_device
begin

lemma out_data:
  assumes "settled (view d)" and "p_mode (view d) = Writing" and "buf = p_buf (view d) @ le16_bytes v"
  shows "length buf = 512 \<Longrightarrow> \<exists>l w. l \<le> 4 \<and> view (io_out_word io ATA_DATA v d) =
      pio_begin Writing (Suc (p_lba (view d))) (p_left (view d) - 1) l w
        ((view d)\<lparr>p_sectors := (p_sectors (view d))(p_lba (view d) := buf)\<rparr>)"
    and "length buf \<noteq> 512 \<Longrightarrow> view (io_out_word io ATA_DATA v d) = (view d)\<lparr>p_buf := buf\<rparr>"
proof -
  have "data_out_protocol io view" using protocol by (simp add: pio_protocol_def)
  then have *: "if length buf = 512
      then \<exists>l w. l \<le> 4 \<and> view (out_word io 0x1F0 v d) =
           pio_begin Writing (Suc (p_lba (view d))) (p_left (view d) - 1) l w
             ((view d)\<lparr>p_sectors := (p_sectors (view d))(p_lba (view d) := buf)\<rparr>)
      else view (out_word io 0x1F0 v d) = (view d)\<lparr>p_buf := buf\<rparr>"
    using assms unfolding data_out_protocol_def Let_def by blast
  { assume "length buf = 512"
    with * show "\<exists>l w. l \<le> 4 \<and> view (io_out_word io ATA_DATA v d) =
      pio_begin Writing (Suc (p_lba (view d))) (p_left (view d) - 1) l w
        ((view d)\<lparr>p_sectors := (p_sectors (view d))(p_lba (view d) := buf)\<rparr>)"
      by (simp add: io_out_word_def ATA_DATA_def) }
  { assume "length buf \<noteq> 512"
    with * show "view (io_out_word io ATA_DATA v d) = (view d)\<lparr>p_buf := buf\<rparr>"
      by (simp add: io_out_word_def ATA_DATA_def) }
qed

lemma write_words_pio:
  assumes "settled (view d)" and "p_mode (view d) = Writing"
    and "length (p_buf (view d)) + 2 * n = 512" and "0 < n" and "2 * (k + n) \<le> length buf"
  shows "\<exists>d' l w. write_words io k n buf d = Some d' \<and> l \<le> 4 \<and>
    view d' = pio_begin Writing (Suc (p_lba (view d))) (p_left (view d) - 1) l w
      ((view d)\<lparr>p_sectors := (p_sectors (view d))(p_lba (view d) :=
         p_buf (view d) @ take (2 * n) (drop (2 * k) buf))\<rparr>)"
  using assms
proof (induction n arbitrary: k d)
  case (Suc n)
  obtain w where w: "get16 k buf = Some w" "le16_bytes w = take 2 (drop (2 * k) buf)"
    using get16_bytes[of k buf] Suc.prems by auto
  have cut: "take (2 * Suc n) (drop (2 * k) buf) = le16_bytes w @ take (2 * n) (drop (2 * Suc k) buf)"
    using take_add[of 2 "2 * n" "drop (2 * k) buf"] by (simp add: w add.commute)
  note od = out_data[OF Suc.prems(1,2) refl, of w]
  let ?e = "io_out_word io ATA_DATA w d"
  show ?case
  proof (cases n)
    case 0
    then have "length (p_buf (view d) @ le16_bytes w) = 512" using Suc.prems by simp
    from od(1)[OF this] 0 show ?thesis using w cut by (simp add: fun_upd_def)
  next
    case (Suc m)
    then have e: "view ?e = (view d)\<lparr>p_buf := p_buf (view d) @ le16_bytes w\<rparr>"
      using Suc.prems by (intro od(2)) simp
    have "settled (view ?e)" using Suc.prems(1) by (simp add: e settled_def)
    moreover have "p_mode (view ?e) = Writing" "length (p_buf (view ?e)) + 2 * n = 512" "0 < n"
      "2 * (Suc k + n) \<le> length buf"
      using Suc.prems Suc by (simp_all add: e)
    ultimately have "\<exists>d' l x. write_words io (Suc k) n buf ?e = Some d' \<and> l \<le> 4 \<and>
      view d' = pio_begin Writing (Suc (p_lba (view ?e))) (p_left (view ?e) - 1) l x
        ((view ?e)\<lparr>p_sectors := (p_sectors (view ?e))(p_lba (view ?e) :=
          p_buf (view ?e) @ take (2 * n) (drop (2 * Suc k) buf))\<rparr>)"
      by (rule Suc.IH)
    then obtain d' l x where d': "write_words io (Suc k) n buf ?e = Some d'" "l \<le> 4"
      "view d' = pio_begin Writing (Suc (p_lba (view ?e))) (p_left (view ?e) - 1) l x
        ((view ?e)\<lparr>p_sectors := (p_sectors (view ?e))(p_lba (view ?e) :=
          p_buf (view ?e) @ take (2 * n) (drop (2 * Suc k) buf))\<rparr>)"
      by blast
    have b: "pio_begin Writing j m l x ((view ?e)\<lparr>p_sectors := z\<rparr>) =
        pio_begin Writing j m l x ((view d)\<lparr>p_sectors := z\<rparr>)" for j m z
      by (simp add: pio_begin_def e)
    have "view d' = pio_begin Writing (Suc (p_lba (view d))) (p_left (view d) - 1) l x
      ((view d)\<lparr>p_sectors := (p_sectors (view d))(p_lba (view d) :=
         p_buf (view d) @ take (2 * Suc n) (drop (2 * k) buf))\<rparr>)"
      using d'(3) unfolding b cut by (simp add: e)
    moreover have "write_words io k (Suc n) buf d = Some d'" using w(1) d'(1) by simp
    ultimately show ?thesis using d'(2) by blast
  qed
qed simp

lemma write_sectors_pio:
  assumes "view d = pio_begin Writing l n 0 0 v" and "512 * (i + n) \<le> length buf"
  shows "\<exists>d'. write_sectors io i n buf d = Some d' \<and> settled (view d') \<and> p_mode (view d') = Idle \<and>
    p_sectors (view d') = (\<lambda>j. if l \<le> j \<and> j < l + n then take 512 (drop (512 * (i + (j - l))) buf)
                        else p_sectors v j)"
  using assms
proof (induction n arbitrary: i l d v)
  case 0
  then show ?case by (auto simp: fun_eq_iff settled_def)
next
  case (Suc n)
  let ?v = "v\<lparr>p_sectors := (p_sectors v)(l := take 512 (drop (512 * i) buf))\<rparr>"
  have w: "pio_begin Writing (Suc l) n x y ((view d)\<lparr>p_sectors := z\<rparr>) =
      pio_begin Writing (Suc l) n x y (v\<lparr>p_sectors := z\<rparr>)" for x y z
    by (simp add: Suc.prems(1) pio_begin_def)
  have "\<exists>e x y. write_words io (i * 256) 256 buf d = Some e \<and> x \<le> 4 \<and>
    view e = pio_begin Writing (Suc (p_lba (view d))) (p_left (view d) - 1) x y
      ((view d)\<lparr>p_sectors := (p_sectors (view d))(p_lba (view d) :=
         p_buf (view d) @ take (2 * 256) (drop (2 * (i * 256)) buf))\<rparr>)"
    using Suc.prems by (intro write_words_pio) (auto simp: settled_def pio_begin_def)
  then obtain e x y where e: "write_words io (i * 256) 256 buf d = Some e" "x \<le> 4"
    "view e = pio_begin Writing (Suc l) n x y ?v"
    by (auto simp: w, simp add: Suc.prems(1) mult.commute pio_begin_def)
  obtain e' where e': "wait_busy io (wait_400ns io e) = Some e'" "view e' = pio_begin Writing (Suc l) n 0 0 ?v"
    using wait_sector[of e] e(2) by (auto simp: e(3) settle_begin)
  obtain d' where d': "write_sectors io (Suc i) n buf e' = Some d'" "settled (view d')"
    "p_mode (view d') = Idle"
    "p_sectors (view d') = (\<lambda>j. if Suc l \<le> j \<and> j < Suc l + n then take 512 (drop (512 * (Suc i + (j - Suc l))) buf)
                          else p_sectors ?v j)"
    using Suc.IH[OF e'(2), of "Suc i"] Suc.prems by auto
  have "p_sectors (view d') j = (if l \<le> j \<and> j < l + Suc n then take 512 (drop (512 * (i + (j - l))) buf)
      else p_sectors v j)" for j
    by (auto simp: d'(4) Suc_diff_le[symmetric] intro!: arg_cong[of _ _ "\<lambda>x. take 512 (drop x buf)"])
  then show ?case using e(1) e'(1) d'(1-3) by auto
qed

end

section \<open>The driver refines sector transfers\<close>

text \<open>The disk as the file system sees it, and the drive between two calls of the driver.\<close>

definition ata_disk :: "('d \<Rightarrow> pio) \<Rightarrow> 'd ata \<Rightarrow> hdd" where
  "ata_disk view a = \<lparr>present = (is_present (main_driver a) \<noteq> 0), sectors = p_sectors (view (device a))\<rparr>"

definition ata_ok :: "('d \<Rightarrow> pio) \<Rightarrow> 'd ata \<Rightarrow> bool" where
  "ata_ok view a \<longleftrightarrow> pio_ok (view (device a)) \<and> settled (view (device a)) \<and> p_mode (view (device a)) = Idle"

context pio_device
begin

lemma ata_command_ready:
  assumes "ata_ok view a" and "unat n < 2 ^ 28" and "cmd = 0x20 \<and> m = Reading \<or> cmd = 0x30 \<and> m = Writing"
    and "0 < c"
  obtains d r where "wait_drq io (ata_command io n c cmd (device a)) = Some d"
    "view d = pio_begin m (unat n) (unat c) 0 0 ((view (device a))\<lparr>p_regs := r\<rparr>)"
proof -
  obtain r l w where r: "view (ata_command io n c cmd (device a)) =
      pio_begin m (unat n) (unat c) l w ((view (device a))\<lparr>p_regs := r\<rparr>)"
    using ata_command_pio[OF _ _ assms(2,3,4), of "device a"] assms(1) by (auto simp: ata_ok_def)
  have "p_mode (view (ata_command io n c cmd (device a))) \<noteq> Idle"
    using assms(3,4) by (auto simp: r unat_eq_zero)
  from wait_drq_settles[OF this] show ?thesis using that by (auto simp: r settle_begin)
qed

lemma ata_read_disk:
  assumes "ata_ok view a" and "unat n < 2 ^ 28" and "0 < c" and "512 * unat c \<le> length buf"
  shows "\<exists>r buf' a'. ata_read io n c buf a = Some (r, buf', a') \<and> ata_ok view a' \<and>
    disk_read n c buf (ata_disk view a) = Some (r, buf') \<and> ata_disk view a' = ata_disk view a"
proof (cases "is_present (main_driver a) = 0")
  case True
  then show ?thesis using assms(1) by (simp add: ata_read_def disk_read_def ata_disk_def)
next
  case False
  obtain d r where d: "wait_drq io (ata_command io n c 0x20 (device a)) = Some d"
    "view d = pio_begin Reading (unat n) (unat c) 0 0 ((view (device a))\<lparr>p_regs := r\<rparr>)"
    using ata_command_ready[OF assms(1,2) _ assms(3), of "0x20" Reading] by blast
  have ok: "pio_ok ((view (device a))\<lparr>p_regs := r\<rparr>)" using assms(1) by (simp add: ata_ok_def pio_ok_def)
  obtain d' where d': "read_sectors io 0 (unat c) buf d =
      Some (concat (map (\<lambda>j. p_sectors (view (device a)) (unat n + j)) [0..<unat c]) @ drop (512 * unat c) buf, d')"
    "settled (view d')" "p_mode (view d') = Idle" "p_sectors (view d') = p_sectors (view (device a))"
    using read_sectors_pio[OF d(2) ok, of 0 buf] assms(4) by auto
  have "ata_read io n c buf a = Some (0,
      concat (map (\<lambda>j. p_sectors (view (device a)) (unat n + j)) [0..<unat c]) @ drop (512 * unat c) buf,
      a\<lparr>device := d'\<rparr>)"
    using False d(1) d'(1) by (simp add: ata_read_def)
  with False d'(2-4) assms(1,4) show ?thesis
    by (simp add: disk_read_def ata_disk_def ata_ok_def pio_ok_def)
qed

lemma ata_write_disk:
  assumes "ata_ok view a" and "unat n < 2 ^ 28" and "0 < c" and "512 * unat c \<le> length buf"
  shows "\<exists>r a'. ata_write io n c buf a = Some (r, a') \<and> ata_ok view a' \<and>
    disk_write n c buf (ata_disk view a) = Some (r, ata_disk view a')"
proof (cases "is_present (main_driver a) = 0")
  case True
  then show ?thesis using assms(1) by (simp add: ata_write_def disk_write_def ata_disk_def)
next
  case False
  obtain d r where d: "wait_drq io (ata_command io n c 0x30 (device a)) = Some d"
    "view d = pio_begin Writing (unat n) (unat c) 0 0 ((view (device a))\<lparr>p_regs := r\<rparr>)"
    using ata_command_ready[OF assms(1,2) _ assms(3), of "0x30" Writing] by blast
  obtain d' where d': "write_sectors io 0 (unat c) buf d = Some d'"
    "settled (view d')" "p_mode (view d') = Idle"
    "p_sectors (view d') = (\<lambda>j. if unat n \<le> j \<and> j < unat n + unat c
        then take 512 (drop (512 * (j - unat n)) buf) else p_sectors (view (device a)) j)"
    using write_sectors_pio[OF d(2), of 0 buf] assms(4) by (auto cong: if_cong)
  have w: "ata_write io n c buf a = Some (0, a\<lparr>device := d'\<rparr>)"
    using False d(1) d'(1) by (simp add: ata_write_def)
  have "length (take 512 (drop (512 * (j - unat n)) buf)) = 512"
    if "unat n \<le> j" "j < unat n + unat c" for j
  proof -
    have "512 * (j - unat n) + 512 \<le> 512 * unat c" using that by simp
    then show ?thesis using assms(4) by simp
  qed
  then have "pio_ok (view d')" using assms(1) by (simp add: pio_ok_def ata_ok_def d'(4))
  with w False d'(2-4) assms(4) show ?thesis
    by (simp add: disk_write_def ata_disk_def ata_ok_def cong: if_cong)
qed

end

section \<open>Block devices\<close>

text \<open>
  What a client of a disk relies on: transfers of whole sectors that succeed when they start below
  the device's limit, a read that returns the contents, a write that sets the sectors it names and
  no other.
\<close>

locale block_device =
  fixes rd :: "u32 \<Rightarrow> u8 \<Rightarrow> bytes \<Rightarrow> 's \<Rightarrow> (int \<times> bytes \<times> 's) option"
    and wrt :: "u32 \<Rightarrow> u8 \<Rightarrow> bytes \<Rightarrow> 's \<Rightarrow> (int \<times> 's) option"
    and content :: "'s \<Rightarrow> nat \<Rightarrow> bytes"
    and ok :: "'s \<Rightarrow> bool"
    and limit :: "'s \<Rightarrow> nat"
  assumes content_length: "ok s \<Longrightarrow> length (content s i) = 512"
    and rd_ok: "ok s \<Longrightarrow> unat n < limit s \<Longrightarrow> 0 < c \<Longrightarrow> 512 * unat c \<le> length buf \<Longrightarrow>
      \<exists>s'. rd n c buf s = Some (0, concat (map (\<lambda>i. content s (unat n + i)) [0..<unat c]) @
             drop (512 * unat c) buf, s') \<and> ok s' \<and> content s' = content s \<and> limit s' = limit s"
    and wrt_ok: "ok s \<Longrightarrow> unat n < limit s \<Longrightarrow> 0 < c \<Longrightarrow> 512 * unat c \<le> length buf \<Longrightarrow>
      \<exists>s'. wrt n c buf s = Some (0, s') \<and> ok s' \<and> limit s' = limit s \<and>
        content s' = (\<lambda>i. if unat n \<le> i \<and> i < unat n + unat c
           then take 512 (drop (512 * (i - unat n)) buf) else content s i)"
begin

lemma concat_blocks:
  "512 * k \<le> length buf \<Longrightarrow> concat (map (\<lambda>i. take 512 (drop (512 * i) buf)) [0..<k]) = take (512 * k) buf"
proof (induction k)
  case (Suc k)
  then show ?case using take_add[of "512 * k" 512 buf] by (simp add: add.commute)
qed simp

lemma read_after_write:
  assumes "ok s" and "unat n < limit s" and "0 < c" and "512 * unat c \<le> length buf"
    and "512 * unat c \<le> length buf'" and "wrt n c buf s = Some (r, s')"
  shows "\<exists>s''. rd n c buf' s' = Some (0, take (512 * unat c) buf @ drop (512 * unat c) buf', s'')"
proof -
  obtain t where t: "wrt n c buf s = Some (0, t)" "ok t" "limit t = limit s"
    "content t = (\<lambda>i. if unat n \<le> i \<and> i < unat n + unat c
       then take 512 (drop (512 * (i - unat n)) buf) else content s i)"
    using wrt_ok[OF assms(1-4)] by blast
  have "map (\<lambda>i. content t (unat n + i)) [0..<unat c] =
      map (\<lambda>i. take 512 (drop (512 * i) buf)) [0..<unat c]"
    by (simp add: t(4))
  then have "concat (map (\<lambda>i. content t (unat n + i)) [0..<unat c]) = take (512 * unat c) buf"
    using concat_blocks[OF assms(4)] by metis
  with rd_ok[OF t(2) assms(2)[folded t(3)] assms(3,5)] t(1) assms(6) show ?thesis by auto
qed

lemma write_elsewhere:
  assumes "ok s" and "unat n < limit s" and "0 < c" and "512 * unat c \<le> length buf"
    and "unat m < limit s" and "0 < e" and "512 * unat e \<le> length buf'"
    and "unat m + unat e \<le> unat n \<or> unat n + unat c \<le> unat m"
    and "wrt n c buf s = Some (r, s')"
  shows "map_option (\<lambda>(r, b, _). (r, b)) (rd m e buf' s') = map_option (\<lambda>(r, b, _). (r, b)) (rd m e buf' s)"
proof -
  obtain t where t: "wrt n c buf s = Some (0, t)" "ok t" "limit t = limit s"
    "content t = (\<lambda>i. if unat n \<le> i \<and> i < unat n + unat c
       then take 512 (drop (512 * (i - unat n)) buf) else content s i)"
    using wrt_ok[OF assms(1-4)] by blast
  have "map (\<lambda>i. content t (unat m + i)) [0..<unat e] = map (\<lambda>i. content s (unat m + i)) [0..<unat e]"
    using assms(8) by (auto simp: t(4))
  with rd_ok[OF t(2) assms(5)[folded t(3)] assms(6,7)] rd_ok[OF assms(1) assms(5-7)] t(1) assms(9) show ?thesis by auto
qed

end

definition hdd_ok :: "hdd \<Rightarrow> bool" where
  "hdd_ok d \<longleftrightarrow> present d \<and> (\<forall>i. length (sectors d i) = 512)"

interpretation hdd_dev: block_device
  "\<lambda>n c buf d. map_option (\<lambda>(r, b). (r, b, d)) (disk_read n c buf d)" disk_write sectors hdd_ok "\<lambda>_. 2 ^ 28"
proof
  fix d :: hdd and n :: u32 and c :: u8 and buf :: bytes
  assume a: "hdd_ok d" "512 * unat c \<le> length buf"
  show "\<exists>s'. map_option (\<lambda>(r, b). (r, b, d)) (disk_read n c buf d) =
      Some (0, concat (map (\<lambda>i. sectors d (unat n + i)) [0..<unat c]) @ drop (512 * unat c) buf, s') \<and>
      hdd_ok s' \<and> sectors s' = sectors d \<and> (2 :: nat) ^ 28 = 2 ^ 28"
    using a by (simp add: disk_read_def hdd_ok_def)
  have "512 * (i - unat n) + 512 \<le> length buf" if "unat n \<le> i" "i < unat n + unat c" for i
    using a(2) that by (simp add: less_eq_Suc_le)
  then show "\<exists>s'. disk_write n c buf d = Some (0, s') \<and> hdd_ok s' \<and> (2 :: nat) ^ 28 = 2 ^ 28 \<and>
      sectors s' = (\<lambda>i. if unat n \<le> i \<and> i < unat n + unat c
        then take 512 (drop (512 * (i - unat n)) buf) else sectors d i)"
    using a by (auto simp: disk_write_def hdd_ok_def)
qed (auto simp: hdd_ok_def)

text \<open>The driver on any drive that follows the protocol is such a device.\<close>

sublocale pio_device \<subseteq> ata_dev: block_device "ata_read io" "ata_write io"
  "\<lambda>a. sectors (ata_disk view a)" "\<lambda>a. ata_ok view a \<and> is_present (main_driver a) \<noteq> 0" "\<lambda>_. 2 ^ 28"
proof
  fix a :: "'d ata" and n :: u32 and c :: u8 and buf :: bytes
  assume a: "ata_ok view a \<and> is_present (main_driver a) \<noteq> 0" "unat n < 2 ^ 28" "0 < c" "512 * unat c \<le> length buf"
  have pr: "ata_disk view a' = ata_disk view b \<Longrightarrow> (is_present (main_driver a') \<noteq> 0) = (is_present (main_driver b) \<noteq> 0)"
    for a' b by (simp add: ata_disk_def)
  have p: "present (ata_disk view a)" using a(1) by (simp add: ata_disk_def)
  show "\<exists>s'. ata_read io n c buf a =
      Some (0, concat (map (\<lambda>i. sectors (ata_disk view a) (unat n + i)) [0..<unat c]) @ drop (512 * unat c) buf, s') \<and>
      (ata_ok view s' \<and> is_present (main_driver s') \<noteq> 0) \<and>
      sectors (ata_disk view s') = sectors (ata_disk view a) \<and> (2 :: nat) ^ 28 = 2 ^ 28"
  proof -
    obtain r buf' a' where r: "ata_read io n c buf a = Some (r, buf', a')" "ata_ok view a'"
      "disk_read n c buf (ata_disk view a) = Some (r, buf')" "ata_disk view a' = ata_disk view a"
      using ata_read_disk[of a n c buf] a by blast
    moreover have "r = 0" "buf' = concat (map (\<lambda>i. sectors (ata_disk view a) (unat n + i)) [0..<unat c]) @
        drop (512 * unat c) buf"
      using r(3) a(4) p by (simp_all add: disk_read_def)
    ultimately show ?thesis using a(1) pr[OF r(4)] by simp
  qed
  show "\<exists>s'. ata_write io n c buf a = Some (0, s') \<and> (ata_ok view s' \<and> is_present (main_driver s') \<noteq> 0) \<and>
      (2 :: nat) ^ 28 = 2 ^ 28 \<and> sectors (ata_disk view s') = (\<lambda>i. if unat n \<le> i \<and> i < unat n + unat c
        then take 512 (drop (512 * (i - unat n)) buf) else sectors (ata_disk view a) i)"
  proof -
    obtain r a' where r: "ata_write io n c buf a = Some (r, a')" "ata_ok view a'"
      "disk_write n c buf (ata_disk view a) = Some (r, ata_disk view a')"
      using ata_write_disk[of a n c buf] a by blast
    have "r = 0" and e: "ata_disk view a' = (ata_disk view a)\<lparr>sectors := (\<lambda>i. if unat n \<le> i \<and> i < unat n + unat c
        then take 512 (drop (512 * (i - unat n)) buf) else sectors (ata_disk view a) i)\<rparr>"
      using r(3) a(4) p by (auto simp: disk_write_def)
    moreover have "present (ata_disk view a')" "sectors (ata_disk view a') = (\<lambda>i. if unat n \<le> i \<and> i < unat n + unat c
        then take 512 (drop (512 * (i - unat n)) buf) else sectors (ata_disk view a) i)"
      unfolding e using p by simp_all
    ultimately show ?thesis using r by (simp add: ata_disk_def)
  qed
qed (auto simp: ata_ok_def pio_ok_def ata_disk_def)

context pio_device
begin

lemma write_then_read:
  assumes "ata_ok view a" and "is_present (main_driver a) \<noteq> 0" and "unat n < 2 ^ 28" and "0 < c"
    and "512 * unat c \<le> length buf" and "512 * unat c \<le> length buf'"
  shows "\<exists>a' a''. ata_write io n c buf a = Some (0, a') \<and>
    ata_read io n c buf' a' = Some (0, take (512 * unat c) buf @ drop (512 * unat c) buf', a'')"
proof -
  obtain a' where a': "ata_write io n c buf a = Some (0, a')"
    using ata_dev.wrt_ok[of a n c buf] assms by blast
  with ata_dev.read_after_write[of a n c buf buf' 0 a'] assms show ?thesis by blast
qed

end

section \<open>A slow drive\<close>

text \<open>
  A drive that follows the protocol: every sector is ready after \<open>l\<close> reads of the status in which
  the busy bit does not show yet, and \<open>w\<close> in which it does. While it is not settled it ignores what is
  written to it, and its data port reads as ones.
\<close>

definition timed_drive :: "nat \<Rightarrow> nat \<Rightarrow> pio port_io" where
  "timed_drive l w = \<lparr>
     in_byte = (\<lambda>port d.
       if port = 0x1F7 then
         (if 0 < p_late d then 0x50 else if 0 < p_busy d then 0x80
          else if p_mode d = Idle then 0x50 else 0x58, pio_tick d)
       else (p_regs d port, d)),
     out_byte = (\<lambda>port v d.
       if \<not> settled d then d
       else if port = 0x1F7 then
         (if v = 0x20 then pio_begin Reading (pio_lba d) (pio_count d) l w d
          else if v = 0x30 then pio_begin Writing (pio_lba d) (pio_count d) l w d else d)
       else d\<lparr>p_regs := (p_regs d)(port := v)\<rparr>),
     in_word = (\<lambda>port d. (case (p_mode d, p_buf d) of
         (Reading, a # b # rest) \<Rightarrow>
           if \<not> settled d then (0xFFFF, d)
           else (le16_word [a, b],
             if rest = [] then pio_begin Reading (Suc (p_lba d)) (p_left d - 1) l w d
             else d\<lparr>p_buf := rest\<rparr>)
       | _ \<Rightarrow> (0xFFFF, d))),
     out_word = (\<lambda>port v d.
       if settled d \<and> p_mode d = Writing then
         let buf = p_buf d @ le16_bytes v
         in if length buf = 512
            then pio_begin Writing (Suc (p_lba d)) (p_left d - 1) l w
                   (d\<lparr>p_sectors := (p_sectors d)(p_lba d := buf)\<rparr>)
            else d\<lparr>p_buf := buf\<rparr>
       else d)\<rparr>"

lemma timed_drive_protocol: "l \<le> 4 \<Longrightarrow> pio_protocol (timed_drive l w) (\<lambda>d. d)"
  unfolding pio_protocol_def
proof (intro conjI)
  show "status_protocol (timed_drive l w) (\<lambda>d. d)"
    by (simp add: status_protocol_def timed_drive_def settled_def)
  show "register_protocol (timed_drive l w) (\<lambda>d. d)"
    by (auto simp: register_protocol_def timed_drive_def)
  assume l: "l \<le> 4"
  show "command_protocol (timed_drive l w) (\<lambda>d. d)"
    unfolding command_protocol_def
  proof (intro allI impI exI conjI)
    fix d :: pio and m
    assume "settled d \<and> p_mode d = Idle \<and> p_regs d 0x1F6 AND 0xF0 = 0xE0 \<and> m \<noteq> Idle"
    then show "out_byte (timed_drive l w) 0x1F7 (if m = Reading then 0x20 else 0x30) d =
        pio_begin m (pio_lba d) (pio_count d) l w d"
      by (cases m) (simp_all add: timed_drive_def)
  qed (rule l)
  show "data_in_protocol (timed_drive l w) (\<lambda>d. d)"
    using l by (auto simp: data_in_protocol_def timed_drive_def)
  show "data_out_protocol (timed_drive l w) (\<lambda>d. d)"
    using l by (auto simp: data_out_protocol_def timed_drive_def Let_def)
qed

interpretation slow_drive: pio_device "timed_drive 3 2" "\<lambda>d. d"
  by unfold_locales (rule timed_drive_protocol, simp)

section \<open>Properties\<close>

text \<open>C15. The driver refines sector transfers: on every drive that follows the PIO protocol
  (\<open>pio_protocol\<close>), however long it is busy between two sectors, a read of at
  least one sector below the 28-bit limit into a large enough buffer, begun when the drive is idle, returns, with the answer and
  the buffer that \<open>disk_read\<close> gives for the drive's contents, and leaves the contents alone and the drive idle.\<close>

theorem ata_read_refines:
  assumes "pio_protocol io view"
    and "ata_ok view a" and "unat n < 2 ^ 28" and "0 < c" and "512 * unat c \<le> length buf"
  shows "\<exists>r buf' a'. ata_read io n c buf a = Some (r, buf', a') \<and> ata_ok view a' \<and>
    disk_read n c buf (ata_disk view a) = Some (r, buf') \<and> ata_disk view a' = ata_disk view a"
  using pio_device.ata_read_disk[OF pio_device.intro[OF assms(1)] assms(2-5)] .

definition drive_example :: "pio ata" where
  "drive_example = \<lparr>main_driver = \<lparr>cylinders = 0, heads = 0, sectors_per_track = 0, total_sectors = 0,
     model = [], is_present = 1\<rparr>,
     device = \<lparr>p_sectors = (\<lambda>_. replicate 512 0), p_regs = (\<lambda>_. 0), p_mode = Idle, p_lba = 0,
       p_left = 0, p_buf = [], p_late = 0, p_busy = 0\<rparr>\<rparr>"

lemma drive_example_ok: "ata_ok (\<lambda>d. d) drive_example" "is_present (main_driver drive_example) \<noteq> 0"
  by (simp_all add: drive_example_def ata_ok_def pio_ok_def settled_def)

theorem ata_read_refines_witness:
  "\<exists>r buf' a'. ata_read (timed_drive 3 2) 7 2 (replicate 1024 1) drive_example = Some (r, buf', a') \<and>
    ata_ok (\<lambda>d. d) a' \<and> disk_read 7 2 (replicate 1024 1) (ata_disk (\<lambda>d. d) drive_example) = Some (r, buf') \<and>
    ata_disk (\<lambda>d. d) a' = ata_disk (\<lambda>d. d) drive_example"
  by (rule ata_read_refines[OF timed_drive_protocol drive_example_ok(1)]) simp_all

text \<open>C27. What \<open>ata_write\<close> stores, \<open>ata_read\<close> returns: on every drive that follows the PIO protocol
  and is present and idle, writing at least one sector below the 28-bit limit and reading the same sectors
  back gives the bytes written, however long the drive is busy between two sectors.\<close>

theorem ata_write_read:
  assumes "pio_protocol io view" and "ata_ok view a" and "is_present (main_driver a) \<noteq> 0"
    and "unat n < 2 ^ 28" and "0 < c" and "512 * unat c \<le> length buf" and "512 * unat c \<le> length buf'"
  shows "\<exists>a' a''. ata_write io n c buf a = Some (0, a') \<and>
    ata_read io n c buf' a' = Some (0, take (512 * unat c) buf @ drop (512 * unat c) buf', a'')"
  using pio_device.write_then_read[OF pio_device.intro[OF assms(1)] assms(2-7)] .

theorem ata_write_read_witness:
  "\<exists>a' a''. ata_write (timed_drive 3 2) 0x0FFFFFF 1 (replicate 512 0xAB) drive_example = Some (0, a') \<and>
    ata_read (timed_drive 3 2) 0x0FFFFFF 1 (replicate 512 0) a' =
      Some (0, take (512 * unat (1 :: u8)) (replicate 512 0xAB) @ drop (512 * unat (1 :: u8)) (replicate 512 0), a'')"
  by (rule ata_write_read[OF timed_drive_protocol drive_example_ok]) simp_all

end
