(* ===== verification/Fat.thy ===== *)
theory Fat
  imports Ata
begin

text \<open>
  The FAT16 file system, \<open>filesystem/fat/fat.h\<close> and \<open>fat.c\<close>: the in-memory copy of the
  allocation table, cluster chains, directories as arrays of 32-byte entries, path lookup, and
  the operations of the file system interface.

  The state has the mounted geometry, the table (\<open>None\<close> for the NULL pointer), the root
  directory's entry and the disk. \<open>kmalloc\<close> is called for one buffer at a time which is
  released again, so all that matters of it is whether a request succeeds, \<open>kmalloc_ok\<close>, and
  what fresh memory holds, \<open>heap_junk\<close>. Both are free: \<open>kmalloc\<close> refuses a request for 0 bytes and those
  that are too large, so no theorem asks for every size to be granted, only for those that the
  volume at hand requests; writing through a NULL buffer is \<open>None\<close>.
  \<open>stack_junk\<close> is what the uninitialised \<open>path_copy[1024]\<close> holds. Screen output is left out.
  Loops that follow chains of the table may not end, so they are partial functions.
\<close>

section \<open>Data\<close>

record FAT16_FS =
  bytes_per_sector :: u16
  sectors_per_cluster :: u8
  reserved_sectors :: u16
  num_fats :: u8
  root_dir_entries :: u16
  total_sectors :: u16
  sectors_per_fat :: u16
  root_dir_start :: u32
  data_start :: u32

record FAT16_DirEntry =
  name :: bytes
  attr :: u8
  case_attr :: u8
  creation_time_ms :: u8
  creation_time :: u16
  creation_date :: u16
  last_access_date :: u16
  reserved :: u16
  last_modification_time :: u16
  last_modification_date :: u16
  start_cluster :: u16
  file_size :: u32

record FileData =
  file_entry :: FAT16_DirEntry
  parent_entry :: FAT16_DirEntry

record fat =
  fat16_fs :: FAT16_FS
  fat_table :: "u16 list option"
  root_dir :: FAT16_DirEntry
  disk :: hdd
  kmalloc_ok :: "nat \<Rightarrow> bool"
  heap_junk :: "nat \<Rightarrow> u8"
  stack_junk :: bytes

definition FAT16_CLUSTER_CHAIN_END :: u16 where "FAT16_CLUSTER_CHAIN_END = 0xFFF8"
definition FAT16_FREE_CLUSTER :: u16 where "FAT16_FREE_CLUSTER = 0"
definition FAT16_FILENAME_SIZE :: nat where "FAT16_FILENAME_SIZE = 11"
definition FAT_ATTR_DIRECTORY :: u8 where "FAT_ATTR_DIRECTORY = 0x10"

definition IS_END_OF_CLUSTER_CHAIN :: "u16 \<Rightarrow> bool" where
  "IS_END_OF_CLUSTER_CHAIN cluster \<longleftrightarrow> 0xFFF8 \<le> cluster \<and> cluster \<le> 0xFFFF"

text \<open>Return codes: \<open>ReturnCode\<close> of fat.h with the numbers of errno-base.h.\<close>

definition SUCCESS :: int where "SUCCESS = 0"
definition GENERAL_ERROR :: int where "GENERAL_ERROR = - 5"
definition DIR_NOT_FOUND :: int where "DIR_NOT_FOUND = - 2"
definition FILE_NOT_FOUND :: int where "FILE_NOT_FOUND = - 2"
definition FILE_ALREADY_EXISTS :: int where "FILE_ALREADY_EXISTS = - 17"
definition DIR_NAME_EXCEEDS_LENGTH :: int where "DIR_NAME_EXCEEDS_LENGTH = - 22"
definition FILE_NAME_EXCEEDS_LENGTH :: int where "FILE_NAME_EXCEEDS_LENGTH = - 22"
definition INVALID_FILE_NAME :: int where "INVALID_FILE_NAME = - 22"
definition DIRECTORY_ISNT_EMPTY :: int where "DIRECTORY_ISNT_EMPTY = - 22"
definition CANT_ALLOCATE_SPACE :: int where "CANT_ALLOCATE_SPACE = - 28"
definition IS_DIR :: int where "IS_DIR = - 21"
definition ENOENT :: int where "ENOENT = 2"
definition ENOTDIR :: int where "ENOTDIR = 20"

text \<open>The memory layout of a directory entry, 32 bytes.\<close>

definition dirent_bytes :: "FAT16_DirEntry \<Rightarrow> bytes" where
  "dirent_bytes e = name e @ [attr e, case_attr e, creation_time_ms e] @ le16_bytes (creation_time e) @
     le16_bytes (creation_date e) @ le16_bytes (last_access_date e) @ le16_bytes (reserved e) @
     le16_bytes (last_modification_time e) @ le16_bytes (last_modification_date e) @
     le16_bytes (start_cluster e) @ le32_bytes (file_size e)"

definition dirent_of :: "bytes \<Rightarrow> FAT16_DirEntry" where
  "dirent_of b = \<lparr>name = take 11 b, attr = b ! 11, case_attr = b ! 12, creation_time_ms = b ! 13,
     creation_time = le16_word (drop 14 b), creation_date = le16_word (drop 16 b),
     last_access_date = le16_word (drop 18 b), reserved = le16_word (drop 20 b),
     last_modification_time = le16_word (drop 22 b), last_modification_date = le16_word (drop 24 b),
     start_cluster = le16_word (drop 26 b), file_size = le32_word (drop 28 b)\<rparr>"

definition zero_entry :: FAT16_DirEntry where
  "zero_entry = dirent_of (replicate 32 0)"

text \<open>Accesses to the table in memory, and its bytes.\<close>

definition table_get :: "nat \<Rightarrow> fat \<Rightarrow> u16 option" where
  "table_get i s = do { t \<leftarrow> fat_table s; arr_get t i }"

definition table_set :: "nat \<Rightarrow> u16 \<Rightarrow> fat \<Rightarrow> fat option" where
  "table_set i v s = do { t \<leftarrow> fat_table s; t \<leftarrow> arr_set t i v; Some (s\<lparr>fat_table := Some t\<rparr>) }"

definition table_bytes :: "u16 list \<Rightarrow> bytes" where
  "table_bytes ws = concat (map le16_bytes ws)"

fun bytes_table :: "bytes \<Rightarrow> u16 list" where
  "bytes_table (a # b # bs) = le16_word [a, b] # bytes_table bs"
| "bytes_table _ = []"

section \<open>Initialisation\<close>

fun read_fat_sectors :: "nat \<Rightarrow> nat \<Rightarrow> bytes \<Rightarrow> fat \<Rightarrow> (bool \<times> bytes) option" where
  "read_fat_sectors i 0 tab s = Some (True, tab)"
| "read_fat_sectors i (Suc n) tab s = do {
     (r, part) \<leftarrow> disk_read (of_nat (unat (reserved_sectors (fat16_fs s)) + i)) 1 (drop (512 * i) tab) (disk s);
     let tab = take (512 * i) tab @ part;
     if r \<noteq> 0 then Some (False, tab) else read_fat_sectors (Suc i) n tab s
   }"

definition parse_boot_sector :: "bytes \<Rightarrow> FAT16_FS option" where
  "parse_boot_sector b =
     (let bps = le16_word (drop 11 b); res = le16_word (drop 14 b); nf = b ! 16;
          rde = le16_word (drop 17 b); spf = le16_word (drop 22 b);
          root = ucast res + of_nat (unat nf * unat spf)
      in if bps = 0 then None
         else Some \<lparr>bytes_per_sector = bps, sectors_per_cluster = b ! 13, reserved_sectors = res,
           num_fats = nf, root_dir_entries = rde, total_sectors = le16_word (drop 19 b),
           sectors_per_fat = spf, root_dir_start = root,
           data_start = root + of_nat (unat rde * 32 div unat bps)\<rparr>)"

definition fat_init :: "fat \<Rightarrow> (bool \<times> fat) option" where
  "fat_init s = do {
     (r, boot_sector) \<leftarrow> disk_read 0 1 (replicate 512 0) (disk s);
     if r \<noteq> 0 then Some (False, s)
     else if le16_word (drop 510 boot_sector) \<noteq> 0xAA55 then Some (False, s)
     else do {
       g \<leftarrow> parse_boot_sector boot_sector;
       let s = s\<lparr>fat16_fs := g\<rparr>;
       let n = unat (sectors_per_fat g) * unat (bytes_per_sector g);
       if \<not> kmalloc_ok s n then Some (False, s\<lparr>fat_table := None\<rparr>)
       else do {
         tab \<leftarrow> memset (map (heap_junk s) [0..<n]) 0
                  (int (unat (bytes_per_sector g) div 2 * unat (sectors_per_fat g)));
         (ok, tab) \<leftarrow> read_fat_sectors 0 (unat (sectors_per_fat g)) tab s;
         let s = s\<lparr>fat_table := Some (bytes_table tab)\<rparr>;
         if \<not> ok then Some (False, s)
         else do {
           nm \<leftarrow> strcpy (name (root_dir s)) (c_str ''~'');
           Some (True, s\<lparr>root_dir := (root_dir s)\<lparr>name := nm, start_cluster := 0,
             attr := attr (root_dir s) OR FAT_ATTR_DIRECTORY,
             file_size := of_nat (unat (root_dir_entries g) * 32)\<rparr>\<rparr>)
         }
       }
     }
   }"

section \<open>Clusters and the table\<close>

definition cluster_bytes :: "fat \<Rightarrow> nat" where
  "cluster_bytes s = unat (bytes_per_sector (fat16_fs s)) * unat (sectors_per_cluster (fat16_fs s))"

definition fat_read_data_cluster :: "u32 \<Rightarrow> bytes \<Rightarrow> fat \<Rightarrow> (int \<times> bytes) option" where
  "fat_read_data_cluster cluster_num buffer s =
     disk_read (cluster_num * ucast (sectors_per_cluster (fat16_fs s)) + root_dir_start (fat16_fs s))
       (sectors_per_cluster (fat16_fs s)) buffer (disk s)"

definition fat_write_data_cluster :: "u32 \<Rightarrow> bytes \<Rightarrow> fat \<Rightarrow> (int \<times> fat) option" where
  "fat_write_data_cluster cluster_num buffer s = do {
     (r, d) \<leftarrow> disk_write (cluster_num * ucast (sectors_per_cluster (fat16_fs s)) + root_dir_start (fat16_fs s))
       (sectors_per_cluster (fat16_fs s)) buffer (disk s);
     Some (r, s\<lparr>disk := d\<rparr>)
   }"

fun find_free_loop :: "nat \<Rightarrow> nat \<Rightarrow> fat \<Rightarrow> int option" where
  "find_free_loop i 0 s = Some (- 1)"
| "find_free_loop i (Suc n) s = do {
     v \<leftarrow> table_get i s;
     if v = FAT16_FREE_CLUSTER then Some (int i) else find_free_loop (Suc i) n s
   }"

definition fat_find_free :: "fat \<Rightarrow> int option" where
  "fat_find_free s =
     find_free_loop 0 (unat (sectors_per_fat (fat16_fs s)) * unat (bytes_per_sector (fat16_fs s)) div 2) s"

text \<open>The table sector with entry \<open>i\<close>, copied to the disk.\<close>

definition write_fat_entry :: "nat \<Rightarrow> fat \<Rightarrow> (int \<times> fat) option" where
  "write_fat_entry i s =
     (let bps = unat (bytes_per_sector (fat16_fs s))
      in if bps = 0 then None
         else do {
           t \<leftarrow> fat_table s;
           (r, d) \<leftarrow> disk_write (of_nat (unat (reserved_sectors (fat16_fs s)) + i * 2 div bps)) 1
             (table_bytes (drop (i * 2 div bps * bps div 2) t)) (disk s);
           Some (r, s\<lparr>disk := d\<rparr>)
         })"

text \<open>
  The walk to the last entry of a chain; the inner \<open>None\<close> is the early return for an entry
  outside all copies of the table.
\<close>

partial_function (option) chain_end :: "nat \<Rightarrow> fat \<Rightarrow> nat option option" where
  "chain_end before_last s = do {
     v \<leftarrow> table_get before_last s;
     if \<not> IS_END_OF_CLUSTER_CHAIN v \<and> v \<noteq> FAT16_FREE_CLUSTER then
       (if unat (num_fats (fat16_fs s)) * unat (sectors_per_fat (fat16_fs s)) *
             unat (bytes_per_sector (fat16_fs s)) div 2 \<le> unat v
        then Some None else chain_end (unat v) s)
     else Some (Some before_last)
   }"

definition fat_update_chain :: "nat \<Rightarrow> nat \<Rightarrow> fat \<Rightarrow> fat option" where
  "fat_update_chain starting_fat new_fat_index s =
     (if \<not> kmalloc_ok s (cluster_bytes s) then None
      else do {
        let buffer = replicate (cluster_bytes s) 0;
        b \<leftarrow> chain_end starting_fat s;
        (case b of
           None \<Rightarrow> Some s
         | Some before_last \<Rightarrow> do {
             s \<leftarrow> table_set before_last (of_nat new_fat_index) s;
             (r, s) \<leftarrow> write_fat_entry before_last s;
             if r \<noteq> 0 then Some s
             else do {
               s \<leftarrow> table_set new_fat_index FAT16_CLUSTER_CHAIN_END s;
               (r, s) \<leftarrow> write_fat_entry new_fat_index s;
               if r \<noteq> 0 then Some s
               else do {
                 (r, s) \<leftarrow> fat_write_data_cluster (of_nat new_fat_index) buffer s;
                 Some s
               }
             }
           })
      })"

partial_function (option) free_chain_loop :: "nat \<Rightarrow> fat \<Rightarrow> (nat \<times> fat) option" where
  "free_chain_loop current_index s = do {
     v \<leftarrow> table_get current_index s;
     if \<not> IS_END_OF_CLUSTER_CHAIN v \<and> v \<noteq> FAT16_FREE_CLUSTER then do {
       s \<leftarrow> table_set current_index FAT16_FREE_CLUSTER s;
       (r, s) \<leftarrow> write_fat_entry current_index s;
       free_chain_loop (unat v) s
     } else Some (current_index, s)
   }"

definition fat_free_chain :: "nat \<Rightarrow> fat \<Rightarrow> fat option" where
  "fat_free_chain fat_index s = do {
     (current_index, s) \<leftarrow> free_chain_loop fat_index s;
     s \<leftarrow> table_set current_index FAT16_FREE_CLUSTER s;
     (r, s) \<leftarrow> write_fat_entry current_index s;
     Some s
   }"

fun get_ith_cluster :: "nat \<Rightarrow> nat \<Rightarrow> fat \<Rightarrow> int option" where
  "get_ith_cluster starting_cluster 0 s = Some (int starting_cluster)"
| "get_ith_cluster starting_cluster (Suc i) s = do {
     v \<leftarrow> table_get starting_cluster s;
     if IS_END_OF_CLUSTER_CHAIN v \<or> v = FAT16_FREE_CLUSTER then Some (- 1)
     else get_ith_cluster (unat v) i s
   }"

fun allocate_loop :: "nat \<Rightarrow> nat \<Rightarrow> fat \<Rightarrow> (bool \<times> fat) option" where
  "allocate_loop start 0 s = Some (True, s)"
| "allocate_loop start (Suc n) s = do {
     index \<leftarrow> fat_find_free s;
     if index = - 1 then Some (False, s)
     else do { s \<leftarrow> fat_update_chain start (nat index) s; allocate_loop start n s }
   }"

definition fat_allocate_space :: "u32 \<Rightarrow> FAT16_DirEntry \<Rightarrow> fat \<Rightarrow> (bool \<times> fat) option" where
  "fat_allocate_space amount_of_clusters entry s =
     allocate_loop (unat (start_cluster entry)) (unat amount_of_clusters) s"

partial_function (option) cluster_amount_loop :: "nat \<Rightarrow> u32 \<Rightarrow> fat \<Rightarrow> u32 option" where
  "cluster_amount_loop starting_cluster count s = do {
     v \<leftarrow> table_get starting_cluster s;
     if \<not> (IS_END_OF_CLUSTER_CHAIN v \<or> v = FAT16_FREE_CLUSTER)
     then cluster_amount_loop (unat v) (count + 1) s
     else Some (if IS_END_OF_CLUSTER_CHAIN v then count + 1 else count)
   }"

definition fat_get_cluster_amount :: "FAT16_DirEntry \<Rightarrow> fat \<Rightarrow> u32 option" where
  "fat_get_cluster_amount entry s = cluster_amount_loop (unat (start_cluster entry)) 0 s"

section \<open>The entry codec\<close>

lemma length_dirent_bytes: "length (name e) = 11 \<Longrightarrow> length (dirent_bytes e) = 32"
  by (simp add: dirent_bytes_def)

lemma dirent_of_bytes:
  assumes "length (name e) = 11"
  shows "dirent_of (dirent_bytes e @ rest) = e"
  using assms by (simp add: dirent_of_def dirent_bytes_def nth_append le_simps)

section \<open>Chains of the table\<close>

text \<open>\<open>is_chain t cs\<close>: the clusters \<open>cs\<close> are linked one after the other in \<open>t\<close>, and the chain ends.\<close>

fun is_chain :: "u16 list \<Rightarrow> nat list \<Rightarrow> bool" where
  "is_chain t [] = False"
| "is_chain t [c] = (c < length t \<and> IS_END_OF_CLUSTER_CHAIN (t ! c))"
| "is_chain t (c # d # cs) = (c < length t \<and> unat (t ! c) = d \<and> d \<noteq> 0 \<and>
     \<not> IS_END_OF_CLUSTER_CHAIN (t ! c) \<and> is_chain t (d # cs))"

named_theorems chain_simps \<open>walking along a chain\<close>

lemma unat_u16_lt: "unat (w :: u16) < 65536"
  using unsigned_less[of w, where 'a = nat] by simp

lemma unat_of_nat_u16: "n < 65536 \<Longrightarrow> unat (of_nat n :: u16) = n"
  by (simp add: unat_of_nat take_bit_nat_eq_self)

lemma end_not_free: "IS_END_OF_CLUSTER_CHAIN v \<Longrightarrow> v \<noteq> 0"
  by (auto simp: IS_END_OF_CLUSTER_CHAIN_def word_le_nat_alt)

lemma is_chain_bound: "is_chain t cs \<Longrightarrow> c \<in> set cs \<Longrightarrow> c < length t"
  by (induction t cs rule: is_chain.induct) auto

lemma is_chain_unique: "is_chain t (c # cs) \<Longrightarrow> is_chain t (c # ds) \<Longrightarrow> cs = ds"
proof (induction cs arbitrary: c ds)
  case Nil
  then show ?case by (cases ds) auto
next
  case (Cons d cs)
  then show ?case by (cases ds) auto
qed

lemma is_chain_suffix: "is_chain t (xs @ c # ys) \<Longrightarrow> is_chain t (c # ys)"
proof (induction xs)
  case (Cons a xs)
  then show ?case by (cases xs) auto
qed simp

lemma is_chain_distinct: "is_chain t cs \<Longrightarrow> distinct cs"
proof (induction t cs rule: is_chain.induct)
  case (3 t c d cs)
  have "c \<notin> set (d # cs)"
  proof
    assume "c \<in> set (d # cs)"
    then obtain xs ys where x: "d # cs = xs @ c # ys" by (meson split_list)
    have "is_chain t (c # xs @ c # ys)" using 3(2) x by simp
    then have "is_chain t (c # ys)" using is_chain_suffix[of t "c # xs" c ys] by simp
    with 3(2) have "d # cs = ys" using is_chain_unique by blast
    with x show False by (metis append_eq_Cons_conv length_append length_Cons less_add_Suc2 not_less_iff_gr_or_eq)
  qed
  with 3 show ?case by simp
qed auto

text \<open>A chain survives changes of the table outside it.\<close>

lemma is_chain_cong:
  "is_chain t cs \<Longrightarrow> length t' = length t \<Longrightarrow> (\<And>c. c \<in> set cs \<Longrightarrow> t' ! c = t ! c) \<Longrightarrow> is_chain t' cs"
  by (induction t cs rule: is_chain.induct) auto

lemma is_chain_append_free:
  assumes "is_chain t cs" and "n < length t" and "t ! n = 0" and "n \<noteq> 0" and "n < 0xFFF8"
  shows "is_chain (t[last cs := of_nat n, n := FAT16_CLUSTER_CHAIN_END]) (cs @ [n])"
proof -
  let ?t = "t[last cs := of_nat n, n := FAT16_CLUSTER_CHAIN_END]"
  have nn: "n \<notin> set cs"
    using assms(1,3)
  proof (induction t cs rule: is_chain.induct)
    case (2 t c)
    then show ?case using end_not_free by auto
  qed auto
  have small: "unat (of_nat n :: u16) = n" "\<not> IS_END_OF_CLUSTER_CHAIN (of_nat n)"
    using assms(5) unat_of_nat_u16[of n] by (simp_all add: IS_END_OF_CLUSTER_CHAIN_def word_le_nat_alt)
  have last: "last cs < length t" "last cs \<noteq> n"
    using assms(1) nn is_chain_bound[OF assms(1), of "last cs"] by (cases cs; auto)+
  have "is_chain ?t (cs @ [n])" if "is_chain t cs" "distinct cs" "last cs = l" "n \<notin> set cs" "n < length t"
      "?t = t[l := of_nat n, n := FAT16_CLUSTER_CHAIN_END]" for l
    using that
  proof (induction t cs rule: is_chain.induct)
    case (2 t c)
    then show ?case
      using small assms(2,4) last by (auto simp: FAT16_CLUSTER_CHAIN_END_def IS_END_OF_CLUSTER_CHAIN_def)
  next
    case (3 t c d cs)
    have "last (d # cs) \<in> set (d # cs)" by (rule last_in_set) simp
    with 3(3,4) have "c \<noteq> l" by auto
    with 3 show ?case by (auto simp: nth_list_update)
  qed simp
  then show ?thesis using assms(1,2) is_chain_distinct nn by blast
qed

section \<open>A mounted file system\<close>

text \<open>
  The geometry the theorems are about: 512-byte sectors, the table in memory has one entry
  for each two bytes of a copy on disk, the copies lie before the data area, and the sector
  numbers stay below the limit of the drive.
\<close>

definition fat_ok :: "fat \<Rightarrow> u16 list \<Rightarrow> bool" where
  "fat_ok s t \<longleftrightarrow> fat_table s = Some t \<and> bytes_per_sector (fat16_fs s) = 512 \<and>
     0 < sectors_per_cluster (fat16_fs s) \<and> 0 < num_fats (fat16_fs s) \<and>
     length t = 256 * unat (sectors_per_fat (fat16_fs s)) \<and> hdd_ok (disk s) \<and>
     kmalloc_ok s (cluster_bytes s) \<and> unat (root_dir_start (fat16_fs s)) < 2 ^ 27 \<and>
     unat (reserved_sectors (fat16_fs s)) + unat (num_fats (fat16_fs s)) * unat (sectors_per_fat (fat16_fs s))
       \<le> unat (root_dir_start (fat16_fs s))"

text \<open>The copy of the table on disk is the table in memory.\<close>

definition fat_synced :: "fat \<Rightarrow> bool" where
  "fat_synced s \<longleftrightarrow> (\<forall>j < unat (sectors_per_fat (fat16_fs s)).
     sectors (disk s) (unat (reserved_sectors (fat16_fs s)) + j) =
       take 512 (drop (512 * j) (table_bytes (the (fat_table s)))))"

text \<open>The bytes of a cluster on disk.\<close>

definition cluster_sector :: "fat \<Rightarrow> nat \<Rightarrow> nat" where
  "cluster_sector s c = unat (root_dir_start (fat16_fs s)) + c * unat (sectors_per_cluster (fat16_fs s))"

definition cluster_data :: "fat \<Rightarrow> nat \<Rightarrow> bytes" where
  "cluster_data s c = concat (map (\<lambda>i. sectors (disk s) (cluster_sector s c + i))
     [0..<unat (sectors_per_cluster (fat16_fs s))])"

lemma fat_okD:
  assumes "fat_ok s t"
  shows "fat_table s = Some t" "bytes_per_sector (fat16_fs s) = 512"
    "0 < sectors_per_cluster (fat16_fs s)" "length t = 256 * unat (sectors_per_fat (fat16_fs s))"
    "hdd_ok (disk s)" "kmalloc_ok s (cluster_bytes s)" "0 < num_fats (fat16_fs s)"
    "unat (root_dir_start (fat16_fs s)) < 2 ^ 27"
  using assms by (simp_all add: fat_ok_def)

lemma fat_ok_fat_area:
  assumes "fat_ok s t" and "j < unat (sectors_per_fat (fat16_fs s))"
  shows "unat (reserved_sectors (fat16_fs s)) + j < unat (root_dir_start (fat16_fs s))"
proof -
  have "1 \<le> unat (num_fats (fat16_fs s))"
    using fat_okD(7)[OF assms(1)] by (simp add: word_less_nat_alt)
  then have "unat (sectors_per_fat (fat16_fs s)) \<le>
      unat (num_fats (fat16_fs s)) * unat (sectors_per_fat (fat16_fs s))" by simp
  with assms show ?thesis unfolding fat_ok_def by linarith
qed

lemma unat_ucast_8: "unat (ucast (w :: u8) :: u32) = unat w"
  using unsigned_less[of w, where 'a = nat] by (simp add: unsigned_ucast_eq take_bit_nat_eq_self)

lemma unat_ucast_16: "unat (ucast (w :: u16) :: u32) = unat w"
  using unat_u16_lt[of w] by (simp add: unsigned_ucast_eq take_bit_nat_eq_self)

lemma cluster_sector_disk [simp]: "cluster_sector (s\<lparr>disk := d\<rparr>) c = cluster_sector s c"
  by (simp add: cluster_sector_def)

lemma cluster_bytes_updates [simp]:
  "cluster_bytes (s\<lparr>disk := d\<rparr>) = cluster_bytes s"
  "cluster_bytes (s\<lparr>fat_table := x\<rparr>) = cluster_bytes s"
  by (simp_all add: cluster_bytes_def)

lemma cluster_sector_word:
  assumes ok: "fat_ok s t" and c: "c < 65536"
  shows "unat (of_nat c * ucast (sectors_per_cluster (fat16_fs s)) + root_dir_start (fat16_fs s) :: u32) =
    cluster_sector s c" and "cluster_sector s c < 2 ^ 28"
proof -
  let ?k = "unat (sectors_per_cluster (fat16_fs s))"
  have k: "?k \<le> 255" using unsigned_less[of "sectors_per_cluster (fat16_fs s)", where 'a = nat] by simp
  have "c * ?k \<le> 65535 * 255" using c k by (intro mult_le_mono) simp_all
  then have b: "c * ?k + unat (root_dir_start (fat16_fs s)) < 2 ^ 28"
    using fat_okD(8)[OF ok] by simp
  have "unat (of_nat c * ucast (sectors_per_cluster (fat16_fs s)) :: u32) = c * ?k"
    using b c by (subst unat_word_ariths(2)) (simp add: unat_of_nat_u32 unat_ucast_8)
  then show "unat (of_nat c * ucast (sectors_per_cluster (fat16_fs s)) + root_dir_start (fat16_fs s) :: u32) =
      cluster_sector s c"
    using b by (subst unat_word_ariths(1)) (simp add: cluster_sector_def)
  show "cluster_sector s c < 2 ^ 28" using b by (simp add: cluster_sector_def add.commute)
qed

lemma length_cluster_data:
  assumes "fat_ok s t"
  shows "length (cluster_data s c) = cluster_bytes s"
proof -
  have "\<forall>i. length (sectors (disk s) i) = 512" using fat_okD(5)[OF assms] by (simp add: hdd_ok_def)
  then have "length (concat (map (\<lambda>i. sectors (disk s) (b + i)) [0..<n])) = 512 * n" for n b
    by (induction n) auto
  then show ?thesis using fat_okD(2)[OF assms] by (simp add: cluster_data_def cluster_bytes_def)
qed

lemma fat_read_cluster:
  assumes ok: "fat_ok s t" and "c < 65536" and "length buf = cluster_bytes s"
  shows "fat_read_data_cluster (of_nat c) buf s = Some (0, cluster_data s c)"
proof -
  have "present (disk s)" using fat_okD(5)[OF ok] by (simp add: hdd_ok_def)
  moreover have "length buf = 512 * unat (sectors_per_cluster (fat16_fs s))"
    using assms(3) fat_okD(2)[OF ok] by (simp add: cluster_bytes_def)
  ultimately show ?thesis
    using cluster_sector_word(1)[OF assms(1,2)]
    by (simp add: fat_read_data_cluster_def disk_read_def cluster_data_def)
qed

text \<open>Writing a cluster sets that cluster and leaves the other clusters and the table copies alone.\<close>

lemma fat_write_cluster:
  assumes ok: "fat_ok s t" and c: "c < 65536" and len: "length buf = cluster_bytes s"
  obtains d where "fat_write_data_cluster (of_nat c) buf s = Some (0, s\<lparr>disk := d\<rparr>)"
    and "fat_ok (s\<lparr>disk := d\<rparr>) t" and "cluster_data (s\<lparr>disk := d\<rparr>) c = buf"
    and "\<And>e. e < 65536 \<Longrightarrow> e \<noteq> c \<Longrightarrow> cluster_data (s\<lparr>disk := d\<rparr>) e = cluster_data s e"
    and "\<And>i. i < unat (root_dir_start (fat16_fs s)) \<Longrightarrow> sectors d i = sectors (disk s) i"
proof -
  let ?k = "unat (sectors_per_cluster (fat16_fs s))" and ?n = "cluster_sector s c"
  let ?w = "of_nat c * ucast (sectors_per_cluster (fat16_fs s)) + root_dir_start (fat16_fs s) :: u32"
  have w: "unat ?w = ?n" "?n < 2 ^ 28" using cluster_sector_word[OF ok c] .
  have l: "length buf = 512 * ?k" using len fat_okD(2)[OF ok] by (simp add: cluster_bytes_def)
  obtain d where d: "disk_write ?w (sectors_per_cluster (fat16_fs s)) buf (disk s) = Some (0, d)" "hdd_ok d"
    "sectors d = (\<lambda>i. if ?n \<le> i \<and> i < ?n + ?k then take 512 (drop (512 * (i - ?n)) buf)
       else sectors (disk s) i)"
    using hdd_dev.wrt_ok[OF fat_okD(5)[OF ok], of ?w "sectors_per_cluster (fat16_fs s)" buf, unfolded w(1)]
      w l fat_okD(3)[OF ok] by auto
  have "cluster_data (s\<lparr>disk := d\<rparr>) c = concat (map (\<lambda>i. take 512 (drop (512 * i) buf)) [0..<?k])"
    unfolding cluster_data_def cluster_sector_disk
    by (intro arg_cong[of _ _ concat] map_cong) (simp_all add: d(3))
  also have "\<dots> = buf" using hdd_dev.concat_blocks[of ?k buf] l by simp
  finally have cd: "cluster_data (s\<lparr>disk := d\<rparr>) c = buf" .
  have oth: "cluster_data (s\<lparr>disk := d\<rparr>) e = cluster_data s e" if "e < 65536" "e \<noteq> c" for e
  proof -
    have "sectors d (cluster_sector s e + i) = sectors (disk s) (cluster_sector s e + i)" if "i < ?k" for i
    proof (cases "e < c")
      case True
      then have "Suc e * ?k \<le> c * ?k" by (intro mult_le_mono1) simp
      then have "cluster_sector s e + i < ?n" using that by (simp add: cluster_sector_def)
      then show ?thesis by (simp add: d(3))
    next
      case False
      with \<open>e \<noteq> c\<close> have "Suc c * ?k \<le> e * ?k" by (intro mult_le_mono1) simp
      then have "?n + ?k \<le> cluster_sector s e + i" by (simp add: cluster_sector_def)
      then show ?thesis by (simp add: d(3))
    qed
    then show ?thesis
      unfolding cluster_data_def cluster_sector_disk
      by (intro arg_cong[of _ _ concat] map_cong) simp_all
  qed
  show ?thesis
  proof (rule that[of d, OF _ _ cd oth])
    show "fat_write_data_cluster (of_nat c) buf s = Some (0, s\<lparr>disk := d\<rparr>)"
      using d(1) by (simp add: fat_write_data_cluster_def)
    show "fat_ok (s\<lparr>disk := d\<rparr>) t" using ok d(2) by (simp add: fat_ok_def)
    show "sectors d i = sectors (disk s) i" if "i < unat (root_dir_start (fat16_fs s))" for i
      using that by (simp add: d(3) cluster_sector_def)
  qed
qed

section \<open>The table on disk\<close>

lemma length_table_bytes [simp]: "length (table_bytes t) = 2 * length t"
  by (induction t) (simp_all add: table_bytes_def)

lemma drop_table_bytes: "drop (2 * n) (table_bytes t) = table_bytes (drop n t)"
proof (induction n arbitrary: t)
  case (Suc n)
  then show ?case by (cases t) (simp_all add: table_bytes_def)
qed simp

lemma take_table_bytes: "take (2 * n) (table_bytes t) = table_bytes (take n t)"
proof (induction n arbitrary: t)
  case (Suc n)
  then show ?case by (cases t) (simp_all add: table_bytes_def)
qed (simp add: table_bytes_def)

lemma sector_table_bytes:
  "take 512 (drop (512 * j) (table_bytes t)) = table_bytes (take 256 (drop (256 * j) t))"
  using drop_table_bytes[of "256 * j" t] take_table_bytes[of 256 "drop (256 * j) t"] by simp

lemma bytes_table_bytes: "bytes_table (table_bytes t @ rest) = t @ bytes_table rest"
proof (induction t)
  case (Cons w t)
  have "le16_word (le16_bytes w) = w" using le16_word_bytes[of w "[]"] by simp
  with Cons show ?case by (simp add: table_bytes_def le16_bytes_def)
qed (simp add: table_bytes_def)

text \<open>Setting an entry and copying its sector out keeps the copy on disk in step.\<close>

definition put_table :: "nat \<Rightarrow> u16 \<Rightarrow> fat \<Rightarrow> (int \<times> fat) option" where
  "put_table i v s = do { s \<leftarrow> table_set i v s; write_fat_entry i s }"

lemma put_table_ok:
  assumes ok: "fat_ok s t" and i: "i < length t"
  obtains d where "put_table i v s = Some (0, s\<lparr>fat_table := Some (t[i := v]), disk := d\<rparr>)"
    and "table_set i v s = Some (s\<lparr>fat_table := Some (t[i := v])\<rparr>)"
    and "write_fat_entry i (s\<lparr>fat_table := Some (t[i := v])\<rparr>) =
      Some (0, s\<lparr>fat_table := Some (t[i := v]), disk := d\<rparr>)"
    and "fat_ok (s\<lparr>fat_table := Some (t[i := v]), disk := d\<rparr>) (t[i := v])"
    and "fat_synced s \<Longrightarrow> fat_synced (s\<lparr>fat_table := Some (t[i := v]), disk := d\<rparr>)"
    and "\<And>c. cluster_data (s\<lparr>fat_table := Some (t[i := v]), disk := d\<rparr>) c = cluster_data s c"
proof -
  let ?t = "t[i := v]" and ?j = "i div 256" and ?r = "unat (reserved_sectors (fat16_fs s))"
  let ?spf = "unat (sectors_per_fat (fat16_fs s))"
  have bps: "bytes_per_sector (fat16_fs s) = 512" and len: "length t = 256 * ?spf"
    and hd: "hdd_ok (disk s)" and tab: "fat_table s = Some t"
    using fat_okD[OF ok] by simp_all
  have idx: "i * 2 div 512 = ?j" by simp
  have j: "?j < ?spf" using i len by (simp add: less_mult_imp_div_less mult.commute)
  have area: "?r + ?j < unat (root_dir_start (fat16_fs s))" using fat_ok_fat_area[OF ok j] .
  have w: "unat (of_nat (?r + ?j) :: u32) = ?r + ?j"
    using area fat_okD(8)[OF ok] by (intro unat_of_nat_u32) simp
  have "256 * ?j + 256 \<le> length t" using j len by simp
  then have big: "512 \<le> length (table_bytes (drop (256 * ?j) ?t))" by simp
  have lim: "unat (of_nat (?r + ?j) :: u32) < 2 ^ 28" using w area fat_okD(8)[OF ok] by simp
  obtain d where d: "disk_write (of_nat (?r + ?j)) 1 (table_bytes (drop (256 * ?j) ?t)) (disk s) = Some (0, d)"
    "hdd_ok d" "sectors d = (\<lambda>k. if ?r + ?j \<le> k \<and> k < ?r + ?j + 1
       then take 512 (drop (512 * (k - (?r + ?j))) (table_bytes (drop (256 * ?j) ?t))) else sectors (disk s) k)"
    using hdd_dev.wrt_ok[OF hd lim, of 1 "table_bytes (drop (256 * ?j) ?t)", unfolded w] big by auto
  have sec: "sectors d k = (if k = ?r + ?j then take 512 (drop (512 * ?j) (table_bytes ?t)) else sectors (disk s) k)"
    for k using drop_table_bytes[of "256 * ?j" ?t] by (auto simp: d(3))
  let ?s = "s\<lparr>fat_table := Some ?t, disk := d\<rparr>"
  have ts: "table_set i v s = Some (s\<lparr>fat_table := Some ?t\<rparr>)"
    using i by (simp add: table_set_def tab arr_set_def)
  have we: "write_fat_entry i (s\<lparr>fat_table := Some ?t\<rparr>) = Some (0, ?s)"
    using d(1) by (simp add: write_fat_entry_def bps idx Let_def)
  have "fat_ok ?s ?t" using ok d(2) by (simp add: fat_ok_def)
  moreover have "fat_synced ?s" if sy: "fat_synced s"
    unfolding fat_synced_def
  proof (intro allI impI)
    fix k assume "k < unat (sectors_per_fat (fat16_fs ?s))"
    then have k: "k < ?spf" by simp
    show "sectors (disk ?s) (unat (reserved_sectors (fat16_fs ?s)) + k) =
        take 512 (drop (512 * k) (table_bytes (the (fat_table ?s))))"
    proof (cases "k = ?j")
      case False
      have "take 256 (drop (256 * k) ?t) = take 256 (drop (256 * k) t)"
        using False by (intro nth_equalityI) (auto simp: nth_list_update)
      moreover have "sectors (disk s) (?r + k) = take 512 (drop (512 * k) (table_bytes t))"
        using sy k tab by (simp add: fat_synced_def)
      ultimately show ?thesis using False by (simp add: sec sector_table_bytes)
    qed (simp add: sec)
  qed
  moreover have "cluster_data ?s c = cluster_data s c" for c
    using area by (auto simp: cluster_data_def cluster_sector_def sec intro!: arg_cong[of _ _ concat])
  ultimately show ?thesis using ts we by (intro that[of d]) (simp_all add: put_table_def)
qed

section \<open>Walking, growing and releasing a chain\<close>

lemma table_get_ok: "fat_table s = Some t \<Longrightarrow> i < length t \<Longrightarrow> table_get i s = Some (t ! i)"
  by (simp add: table_get_def arr_get_def)

lemma get_ith_chain:
  assumes "fat_table s = Some t" and "is_chain t cs"
  shows "get_ith_cluster (hd cs) i s = Some (if i < length cs then int (cs ! i) else - 1)"
  using assms(2)
proof (induction i arbitrary: cs)
  case 0
  then show ?case by (cases cs) auto
next
  case (Suc i)
  then obtain c ds where cs: "cs = c # ds" by (cases cs) auto
  have v: "table_get c s = Some (t ! c)"
    using Suc.prems is_chain_bound[OF Suc.prems, of c] table_get_ok[OF assms(1)] by (simp add: cs)
  show ?case
  proof (cases ds)
    case Nil
    then show ?thesis using Suc.prems v by (simp add: cs)
  next
    case (Cons d es)
    then have "is_chain t ds" "unat (t ! c) = d" "\<not> IS_END_OF_CLUSTER_CHAIN (t ! c)" "t ! c \<noteq> 0"
      using Suc.prems by (auto simp: cs)
    with v Suc.IH[of ds] Cons show ?thesis by (simp add: cs FAT16_FREE_CLUSTER_def)
  qed
qed

lemma chain_end_chain:
  assumes ok: "fat_ok s t" and "is_chain t cs"
  shows "chain_end (hd cs) s = Some (Some (last cs))"
  using assms(2)
proof (induction cs)
  case (Cons c cs)
  have c: "c < length t" using is_chain_bound[OF Cons.prems] by simp
  have v: "table_get c s = Some (t ! c)" using table_get_ok[OF fat_okD(1)[OF ok] c] .
  show ?case
  proof (cases cs)
    case Nil
    then show ?thesis using Cons.prems v by (subst chain_end.simps) simp
  next
    case (Cons d ds)
    then have n: "is_chain t cs" "unat (t ! c) = d" "\<not> IS_END_OF_CLUSTER_CHAIN (t ! c)" "t ! c \<noteq> 0"
      using Cons.prems by auto
    have "d < length t" using is_chain_bound[OF n(1), of d] Cons by simp
    also have "length t = 1 * unat (sectors_per_fat (fat16_fs s)) * 512 div 2"
      using fat_okD(4)[OF ok] by simp
    also have "\<dots> \<le> unat (num_fats (fat16_fs s)) * unat (sectors_per_fat (fat16_fs s)) * 512 div 2"
      using fat_okD(7)[OF ok] by (intro div_le_mono mult_le_mono1) (simp add: word_less_nat_alt)
    finally have "\<not> unat (num_fats (fat16_fs s)) * unat (sectors_per_fat (fat16_fs s)) * 512 div 2 \<le> d"
      by simp
    with n v Cons Cons.IH show ?thesis
      using fat_okD(2)[OF ok] by (subst chain_end.simps) (simp add: FAT16_FREE_CLUSTER_def)
  qed
qed simp

lemma cluster_amount_chain:
  assumes "fat_table s = Some t" and "is_chain t cs"
  shows "cluster_amount_loop (hd cs) n s = Some (n + of_nat (length cs))"
  using assms(2)
proof (induction cs arbitrary: n)
  case (Cons c cs)
  have c: "c < length t" using is_chain_bound[OF Cons.prems] by simp
  have v: "table_get c s = Some (t ! c)" using table_get_ok[OF assms(1) c] .
  show ?case
  proof (cases cs)
    case Nil
    then show ?thesis using Cons.prems v by (subst cluster_amount_loop.simps) simp
  next
    case (Cons d ds)
    then have "is_chain t cs" "unat (t ! c) = d" "\<not> IS_END_OF_CLUSTER_CHAIN (t ! c)" "t ! c \<noteq> 0"
      using Cons.prems by auto
    with v Cons Cons.IH[of "n + 1"] show ?thesis
      by (subst cluster_amount_loop.simps) (simp add: FAT16_FREE_CLUSTER_def)
  qed
qed simp

lemma free_chain_loop_chain:
  assumes "fat_ok s t" and "is_chain t cs"
  shows "\<exists>s' t'. free_chain_loop (hd cs) s = Some (last cs, s') \<and> fat_ok s' t' \<and>
    (fat_synced s \<longrightarrow> fat_synced s') \<and> length t' = length t \<and>
    (\<forall>i. t' ! i = (if i \<in> set (butlast cs) then 0 else t ! i)) \<and>
    (\<forall>c. cluster_data s' c = cluster_data s c) \<and> fat16_fs s' = fat16_fs s"
  using assms
proof (induction cs arbitrary: s t)
  case (Cons c cs)
  have c: "c < length t" using is_chain_bound[OF Cons.prems(2)] by simp
  have v: "table_get c s = Some (t ! c)" using table_get_ok[OF fat_okD(1)[OF Cons.prems(1)] c] .
  show ?case
  proof (cases cs)
    case Nil
    then have "free_chain_loop c s = Some (c, s)"
      using Cons.prems v by (subst free_chain_loop.simps) simp
    then show ?thesis using Nil Cons.prems(1) by auto
  next
    case (Cons d ds)
    then have n: "is_chain t cs" "unat (t ! c) = d" "\<not> IS_END_OF_CLUSTER_CHAIN (t ! c)" "t ! c \<noteq> 0"
      using Cons.prems by auto
    have dist: "c \<notin> set cs" using is_chain_distinct[OF Cons.prems(2)] by simp
    let ?t = "t[c := 0]"
    obtain dk where dk: "table_set c 0 s = Some (s\<lparr>fat_table := Some ?t\<rparr>)"
      "write_fat_entry c (s\<lparr>fat_table := Some ?t\<rparr>) = Some (0, s\<lparr>fat_table := Some ?t, disk := dk\<rparr>)"
      "fat_ok (s\<lparr>fat_table := Some ?t, disk := dk\<rparr>) ?t"
      "fat_synced s \<Longrightarrow> fat_synced (s\<lparr>fat_table := Some ?t, disk := dk\<rparr>)"
      "\<And>c. cluster_data (s\<lparr>fat_table := Some ?t, disk := dk\<rparr>) c = cluster_data s c"
      using put_table_ok[OF Cons.prems(1) c, of 0] by metis
    have ch: "is_chain ?t cs"
      using dist by (intro is_chain_cong[OF n(1)]) (auto intro: nth_list_update_neq)
    obtain s' t' where s': "free_chain_loop d (s\<lparr>fat_table := Some ?t, disk := dk\<rparr>) = Some (last cs, s')"
      "fat_ok s' t'" "fat_synced (s\<lparr>fat_table := Some ?t, disk := dk\<rparr>) \<longrightarrow> fat_synced s'" "length t' = length t"
      "\<And>i. t' ! i = (if i \<in> set (butlast cs) then 0 else ?t ! i)"
      "\<And>e. cluster_data s' e = cluster_data s e" "fat16_fs s' = fat16_fs s"
      using Cons.IH[OF dk(3) ch] Cons dk(5) by auto
    have "free_chain_loop c s = Some (last cs, s')"
      using v n dk(1,2) s'(1) by (subst free_chain_loop.simps) (simp add: FAT16_FREE_CLUSTER_def)
    moreover have "t' ! i = (if i \<in> set (butlast (c # cs)) then 0 else t ! i)" for i
      using s'(5)[of i] Cons c by (auto simp: nth_list_update)
    ultimately show ?thesis using s' dk(4) Cons by auto
  qed
qed simp

lemma fat_free_chain_chain:
  assumes ok: "fat_ok s t" and ch: "is_chain t cs"
  shows "\<exists>s' t'. fat_free_chain (hd cs) s = Some s' \<and> fat_ok s' t' \<and>
    (fat_synced s \<longrightarrow> fat_synced s') \<and> length t' = length t \<and>
    (\<forall>i. t' ! i = (if i \<in> set cs then 0 else t ! i)) \<and> (\<forall>c. cluster_data s' c = cluster_data s c)"
proof -
  have ne: "cs \<noteq> []" using ch by auto
  obtain s1 t1 where s1: "free_chain_loop (hd cs) s = Some (last cs, s1)" "fat_ok s1 t1"
    "fat_synced s \<longrightarrow> fat_synced s1" "length t1 = length t"
    "\<And>i. t1 ! i = (if i \<in> set (butlast cs) then 0 else t ! i)" "\<And>c. cluster_data s1 c = cluster_data s c"
    using free_chain_loop_chain[OF ok ch] by blast
  have l: "last cs < length t1" using is_chain_bound[OF ch, of "last cs"] ne s1(4) by simp
  obtain dk where dk: "table_set (last cs) 0 s1 = Some (s1\<lparr>fat_table := Some (t1[last cs := 0])\<rparr>)"
    "write_fat_entry (last cs) (s1\<lparr>fat_table := Some (t1[last cs := 0])\<rparr>) =
      Some (0, s1\<lparr>fat_table := Some (t1[last cs := 0]), disk := dk\<rparr>)"
    "fat_ok (s1\<lparr>fat_table := Some (t1[last cs := 0]), disk := dk\<rparr>) (t1[last cs := 0])"
    "fat_synced s1 \<Longrightarrow> fat_synced (s1\<lparr>fat_table := Some (t1[last cs := 0]), disk := dk\<rparr>)"
    "\<And>c. cluster_data (s1\<lparr>fat_table := Some (t1[last cs := 0]), disk := dk\<rparr>) c = cluster_data s1 c"
    using put_table_ok[OF s1(2) l, of 0] by metis
  have "t1[last cs := 0] ! i = (if i \<in> set cs then 0 else t ! i)" for i
  proof -
    have "set (butlast cs @ [last cs]) = insert (last cs) (set (butlast cs))" by simp
    then have "set cs = insert (last cs) (set (butlast cs))" unfolding append_butlast_last_id[OF ne] .
    then show ?thesis using s1(5)[of i] l by (cases "i = last cs") (auto simp: nth_list_update)
  qed
  then show ?thesis
    using s1 dk
    by (intro exI[of _ "s1\<lparr>fat_table := Some (t1[last cs := 0]), disk := dk\<rparr>"]
          exI[of _ "t1[last cs := 0]"])
      (simp add: fat_free_chain_def FAT16_FREE_CLUSTER_def)
qed

text \<open>Linking the new cluster behind an end of a chain that has been found.\<close>

lemma fat_update_chain_at:
  assumes ok: "fat_ok s t" and st: "chain_end c s = Some (Some l)" and l: "l < length t"
    and n: "n < length t" "n < 0xFFF8"
  shows "\<exists>s'. fat_update_chain c n s = Some s' \<and>
    fat_ok s' (t[l := of_nat n, n := FAT16_CLUSTER_CHAIN_END]) \<and> (fat_synced s \<longrightarrow> fat_synced s') \<and>
    cluster_data s' n = replicate (cluster_bytes s) 0 \<and>
    (\<forall>c. c < 65536 \<and> c \<noteq> n \<longrightarrow> cluster_data s' c = cluster_data s c)"
proof -
  let ?t1 = "t[l := of_nat n]" and ?t2 = "t[l := of_nat n, n := FAT16_CLUSTER_CHAIN_END]"
  obtain d1 where d1: "table_set l (of_nat n) s = Some (s\<lparr>fat_table := Some ?t1\<rparr>)"
    "write_fat_entry l (s\<lparr>fat_table := Some ?t1\<rparr>) = Some (0, s\<lparr>fat_table := Some ?t1, disk := d1\<rparr>)"
    "fat_ok (s\<lparr>fat_table := Some ?t1, disk := d1\<rparr>) ?t1"
    "fat_synced s \<Longrightarrow> fat_synced (s\<lparr>fat_table := Some ?t1, disk := d1\<rparr>)"
    "\<And>c. cluster_data (s\<lparr>fat_table := Some ?t1, disk := d1\<rparr>) c = cluster_data s c"
    using put_table_ok[OF ok l, of "of_nat n"] by metis
  define s1 where "s1 = s\<lparr>fat_table := Some ?t1, disk := d1\<rparr>"
  have n1: "n < length ?t1" using n(1) by simp
  obtain d2 where d2: "table_set n FAT16_CLUSTER_CHAIN_END s1 = Some (s1\<lparr>fat_table := Some ?t2\<rparr>)"
    "write_fat_entry n (s1\<lparr>fat_table := Some ?t2\<rparr>) = Some (0, s1\<lparr>fat_table := Some ?t2, disk := d2\<rparr>)"
    "fat_ok (s1\<lparr>fat_table := Some ?t2, disk := d2\<rparr>) ?t2"
    "fat_synced s1 \<Longrightarrow> fat_synced (s1\<lparr>fat_table := Some ?t2, disk := d2\<rparr>)"
    "\<And>c. cluster_data (s1\<lparr>fat_table := Some ?t2, disk := d2\<rparr>) c = cluster_data s1 c"
    using put_table_ok[OF d1(3)[folded s1_def] n1, of FAT16_CLUSTER_CHAIN_END] by metis
  define s2 where "s2 = s1\<lparr>fat_table := Some ?t2, disk := d2\<rparr>"
  have n16: "n < 65536" using n(2) by simp
  have cb: "cluster_bytes s2 = cluster_bytes s" by (simp add: s2_def s1_def cluster_bytes_def)
  obtain d3 where d3: "fat_write_data_cluster (of_nat n) (replicate (cluster_bytes s) 0) s2 = Some (0, s2\<lparr>disk := d3\<rparr>)"
    "fat_ok (s2\<lparr>disk := d3\<rparr>) ?t2" "cluster_data (s2\<lparr>disk := d3\<rparr>) n = replicate (cluster_bytes s) 0"
    "\<And>e. e < 65536 \<Longrightarrow> e \<noteq> n \<Longrightarrow> cluster_data (s2\<lparr>disk := d3\<rparr>) e = cluster_data s2 e"
    "\<And>i. i < unat (root_dir_start (fat16_fs s2)) \<Longrightarrow> sectors d3 i = sectors (disk s2) i"
    using fat_write_cluster[OF d2(3)[folded s2_def] n16, of "replicate (cluster_bytes s) 0"] cb
    by (metis length_replicate)
  have "fat_synced (s2\<lparr>disk := d3\<rparr>)" if "fat_synced s2"
    using that d3(5) fat_ok_fat_area[OF d2(3)[folded s2_def]] by (simp add: fat_synced_def)
  moreover have "fat_update_chain c n s = Some (s2\<lparr>disk := d3\<rparr>)"
    using fat_okD(6)[OF ok] st d1(1,2) d2(1,2) d3(1) by (simp add: fat_update_chain_def s1_def s2_def)
  ultimately show ?thesis
    using d1(4,5) d2(4,5) d3 by (intro exI[of _ "s2\<lparr>disk := d3\<rparr>"]) (auto simp: s1_def s2_def)
qed

lemma fat_update_chain_chain:
  assumes ok: "fat_ok s t" and ch: "is_chain t cs"
    and n: "n < length t" "t ! n = 0" "n \<noteq> 0" "n < 0xFFF8"
  shows "\<exists>s'. fat_update_chain (hd cs) n s = Some s' \<and>
    fat_ok s' (t[last cs := of_nat n, n := FAT16_CLUSTER_CHAIN_END]) \<and> (fat_synced s \<longrightarrow> fat_synced s') \<and>
    cluster_data s' n = replicate (cluster_bytes s) 0 \<and>
    (\<forall>c. c < 65536 \<and> c \<noteq> n \<longrightarrow> cluster_data s' c = cluster_data s c)"
proof -
  have "last cs < length t" using is_chain_bound[OF ch, of "last cs"] ch by (cases cs) auto
  then show ?thesis using fat_update_chain_at[OF ok chain_end_chain[OF ok ch] _ n(1,4)] by blast
qed

text \<open>A free cluster that is linked to itself becomes a chain of its own.\<close>

lemma fat_update_chain_new:
  assumes ok: "fat_ok s t" and n: "n < length t" "t ! n = 0" "n < 0xFFF8"
  shows "\<exists>s'. fat_update_chain n n s = Some s' \<and>
    fat_ok s' (t[n := FAT16_CLUSTER_CHAIN_END]) \<and> (fat_synced s \<longrightarrow> fat_synced s') \<and>
    cluster_data s' n = replicate (cluster_bytes s) 0 \<and>
    (\<forall>c. c < 65536 \<and> c \<noteq> n \<longrightarrow> cluster_data s' c = cluster_data s c)"
proof -
  have "chain_end n s = Some (Some n)"
    using table_get_ok[OF fat_okD(1)[OF ok] n(1)] n(2)
    by (subst chain_end.simps) (simp add: FAT16_FREE_CLUSTER_def)
  then show ?thesis using fat_update_chain_at[OF ok _ n(1,1,3), of n] by simp
qed

lemma find_free_loop_result:
  assumes "fat_table s = Some t" and "i + n \<le> length t"
  shows "\<exists>r. find_free_loop i n s = Some r \<and>
    (if r = - 1 then \<forall>j. i \<le> j \<and> j < i + n \<longrightarrow> t ! j \<noteq> 0
     else \<exists>k. r = int k \<and> i \<le> k \<and> k < i + n \<and> t ! k = 0 \<and> (\<forall>j. i \<le> j \<and> j < k \<longrightarrow> t ! j \<noteq> 0))"
  using assms(2)
proof (induction n arbitrary: i)
  case (Suc n)
  have v: "table_get i s = Some (t ! i)" using Suc.prems by (intro table_get_ok[OF assms(1)]) simp
  show ?case
  proof (cases "t ! i = 0")
    case True
    then show ?thesis using v by (auto simp: FAT16_FREE_CLUSTER_def intro!: exI[of _ i])
  next
    case False
    have step: "\<And>j. i \<le> j \<Longrightarrow> j = i \<or> Suc i \<le> j" by auto
    obtain r where r: "find_free_loop (Suc i) n s = Some r"
      "if r = - 1 then \<forall>j. Suc i \<le> j \<and> j < Suc i + n \<longrightarrow> t ! j \<noteq> 0
       else \<exists>k. r = int k \<and> Suc i \<le> k \<and> k < Suc i + n \<and> t ! k = 0 \<and> (\<forall>j. Suc i \<le> j \<and> j < k \<longrightarrow> t ! j \<noteq> 0)"
      using Suc.IH[of "Suc i"] Suc.prems by auto
    have "find_free_loop i (Suc n) s = Some r" using v r(1) False by (simp add: FAT16_FREE_CLUSTER_def)
    moreover have "if r = - 1 then \<forall>j. i \<le> j \<and> j < i + Suc n \<longrightarrow> t ! j \<noteq> 0
       else \<exists>k. r = int k \<and> i \<le> k \<and> k < i + Suc n \<and> t ! k = 0 \<and> (\<forall>j. i \<le> j \<and> j < k \<longrightarrow> t ! j \<noteq> 0)"
    proof (cases "r = - 1")
      case True
      then show ?thesis using r(2) False step by (auto dest: step)
    next
      case nz: False
      then obtain k where k: "r = int k" "Suc i \<le> k" "k < Suc i + n" "t ! k = 0"
        "\<forall>j. Suc i \<le> j \<and> j < k \<longrightarrow> t ! j \<noteq> 0" using r(2) by auto
      have "\<forall>j. i \<le> j \<and> j < k \<longrightarrow> t ! j \<noteq> 0" using k(5) False by (auto dest: step)
      then show ?thesis using nz k by (auto intro!: exI[of _ k])
    qed
    ultimately show ?thesis by blast
  qed
qed auto

section \<open>Properties\<close>

text \<open>A directory entry survives the disk: reading the 32 bytes that an entry is stored as gives
  the entry back, whatever follows them.\<close>

lemma dirent_roundtrip:
  assumes "length (name e) = 11"
  shows "length (dirent_bytes e) = 32 \<and> dirent_of (dirent_bytes e @ rest) = e"
  using length_dirent_bytes[OF assms] dirent_of_bytes[OF assms] by simp

definition entry_example :: FAT16_DirEntry where
  "entry_example = zero_entry\<lparr>name := [0x46, 0x2E, 0x54, 0, 0, 0, 0, 0, 0, 0, 0], start_cluster := 2,
     file_size := 700\<rparr>"

text \<open>\<open>fat_find_free\<close> on a mounted file system returns the lowest free index of the table, and
  -1 only when no entry is free.\<close>

lemma fat_find_free_lowest:
  assumes "fat_ok s t"
  shows "\<exists>r. fat_find_free s = Some r \<and> (if r = - 1 then \<forall>j < length t. t ! j \<noteq> 0
    else \<exists>k < length t. r = int k \<and> t ! k = 0 \<and> (\<forall>j < k. t ! j \<noteq> 0))"
proof -
  have "unat (sectors_per_fat (fat16_fs s)) * unat (bytes_per_sector (fat16_fs s)) div 2 = length t"
    using fat_okD[OF assms] by simp
  then have eq: "fat_find_free s = find_free_loop 0 (length t) s" by (simp add: fat_find_free_def)
  have "0 + length t \<le> length t" by simp
  from find_free_loop_result[OF fat_okD(1)[OF assms] this] obtain r where
    r: "find_free_loop 0 (length t) s = Some r"
    "if r = - 1 then \<forall>j. 0 \<le> j \<and> j < 0 + length t \<longrightarrow> t ! j \<noteq> 0
     else \<exists>k. r = int k \<and> 0 \<le> k \<and> k < 0 + length t \<and> t ! k = 0 \<and> (\<forall>j. 0 \<le> j \<and> j < k \<longrightarrow> t ! j \<noteq> 0)"
    by blast
  show ?thesis
    unfolding eq by (rule exI[of _ r]) (use r in \<open>cases "r = - 1"; auto\<close>)
qed

text \<open>A small disk: one sector of table with the chain of clusters 2 and 3, one sector per cluster.\<close>

definition table_example :: "u16 list" where
  "table_example = [0xFFF8, 0xFFFF, 3, 0xFFFF] @ replicate 252 0"

definition fat_example :: fat where
  "fat_example = \<lparr>fat16_fs = \<lparr>bytes_per_sector = 512, sectors_per_cluster = 1, reserved_sectors = 1,
       num_fats = 1, root_dir_entries = 16, total_sectors = 300, sectors_per_fat = 1, root_dir_start = 2,
       data_start = 3\<rparr>,
     fat_table = Some table_example, root_dir = zero_entry,
     disk = \<lparr>present = True, sectors = (\<lambda>i. if i = 1 then table_bytes table_example else replicate 512 0)\<rparr>,
     kmalloc_ok = (\<lambda>n. 0 < n \<and> n \<le> 65536), heap_junk = (\<lambda>_. 0), stack_junk = replicate 1024 0\<rparr>"

lemma fat_example_ok: "fat_ok fat_example table_example" "fat_synced fat_example"
  "is_chain table_example [2, 3]"
  by (simp_all add: fat_ok_def fat_example_def table_example_def hdd_ok_def fat_synced_def
      IS_END_OF_CLUSTER_CHAIN_def cluster_bytes_def)

text \<open>\<open>get_ith_cluster\<close> and \<open>fat_get_cluster_amount\<close> follow the chain: for the clusters \<open>cs\<close> of an
  entry, the \<open>i\<close>-th cluster is the \<open>i\<close>-th element, -1 past the end, and the amount is their number.\<close>

lemma chain_walks:
  assumes "fat_ok s t" and "is_chain t cs" and "unat (start_cluster e) = hd cs"
  shows "get_ith_cluster (unat (start_cluster e)) i s = Some (if i < length cs then int (cs ! i) else - 1) \<and>
    fat_get_cluster_amount e s = Some (of_nat (length cs))"
  using get_ith_chain[OF fat_okD(1)[OF assms(1)] assms(2)] cluster_amount_chain[OF fat_okD(1)[OF assms(1)] assms(2)]
    assms(3) by (simp add: fat_get_cluster_amount_def)

text \<open>C2. \<open>fat_update_chain\<close> appends: given the first cluster of a chain and a free cluster, it returns,
  the table in memory has the chain with the new cluster at its end, the copy on disk is
  in step with the table if it was before, the new cluster is filled with zeros and no other
  cluster changes.\<close>

theorem fat_update_chain_appends:
  assumes "fat_ok s t" and "is_chain t cs" and "n < length t" and "t ! n = 0" and "n \<noteq> 0" and "n < 0xFFF8"
  shows "\<exists>s' t'. fat_update_chain (hd cs) n s = Some s' \<and> fat_ok s' t' \<and> is_chain t' (cs @ [n]) \<and>
    (fat_synced s \<longrightarrow> fat_synced s') \<and> cluster_data s' n = replicate (cluster_bytes s) 0 \<and>
    (\<forall>c. c < 65536 \<and> c \<noteq> n \<longrightarrow> cluster_data s' c = cluster_data s c)"
  using fat_update_chain_chain[OF assms] is_chain_append_free[OF assms(2-6)] by blast

theorem fat_update_chain_appends_witness:
  "\<exists>s' t'. fat_update_chain (hd [2, 3]) 9 fat_example = Some s' \<and> fat_ok s' t' \<and> is_chain t' ([2, 3] @ [9]) \<and>
    (fat_synced fat_example \<longrightarrow> fat_synced s') \<and> cluster_data s' 9 = replicate (cluster_bytes fat_example) 0 \<and>
    (\<forall>c. c < 65536 \<and> c \<noteq> 9 \<longrightarrow> cluster_data s' c = cluster_data fat_example c)"
  by (rule fat_update_chain_appends[OF fat_example_ok(1,3)]) (simp_all add: table_example_def)

end
