(* ===== verification/FatDir.thy ===== *)
theory FatDir
  imports Fat
begin

text \<open>
  Directories of the FAT16 file system (\<open>filesystem/fat/fat.c\<close>): searching, adding, replacing
  and removing an entry, path lookup, file name checks, and the operations on paths:
  create, delete, rename and the queries.

  A directory is the array of 32-byte entries in the clusters of its chain. A name argument is
  the object the pointer points into, so a comparison that runs past an eleven-byte name reads
  the attribute byte behind it.
\<close>

section \<open>Directory entries\<close>

definition entries_per_cluster :: "fat \<Rightarrow> nat" where
  "entries_per_cluster s =
     unat (bytes_per_sector (fat16_fs s)) div 32 * unat (sectors_per_cluster (fat16_fs s))"

text \<open>The inner loop: the first of the entries \<open>k\<close>, \<open>k + 1\<close>, ... whose comparison answers 0.\<close>

fun scan_entries :: "(bytes \<Rightarrow> int option) \<Rightarrow> nat \<Rightarrow> nat \<Rightarrow> bytes \<Rightarrow> nat option option" where
  "scan_entries cmp k 0 dir = Some None"
| "scan_entries cmp k (Suc n) dir = do {
     r \<leftarrow> cmp (drop (32 * k) dir);
     if r = 0 then Some (Some k) else scan_entries cmp (Suc k) n dir
   }"

text \<open>
  The outer loop over the clusters of a directory: each cluster is read into the buffer and
  given to \<open>body\<close>, which answers with the value to return or asks for the next cluster.
\<close>

partial_function (option) dir_walk ::
    "nat \<Rightarrow> nat \<Rightarrow> bytes \<Rightarrow> (u32 \<Rightarrow> bytes \<Rightarrow> fat \<Rightarrow> ('r option \<times> fat) option) \<Rightarrow> 'r \<Rightarrow> fat \<Rightarrow>
     ('r option \<times> fat) option" where
  "dir_walk start i dir body err s = do {
     cluster_num \<leftarrow> get_ith_cluster start i s;
     if cluster_num = - 1 then Some (None, s)
     else do {
       (r, dir) \<leftarrow> fat_read_data_cluster (of_int cluster_num) dir s;
       if r \<noteq> 0 then Some (Some err, s)
       else do {
         (x, s) \<leftarrow> body (of_int cluster_num) dir s;
         (case x of Some v \<Rightarrow> Some (Some v, s) | None \<Rightarrow> dir_walk start (Suc i) dir body err s)
       }
     }
   }"

text \<open>
  The buffer every one of these functions gets first. The test after it looks at \<open>fat_table\<close>
  and not at the buffer, so a refused request ends in a write through NULL.
\<close>

definition dir_buffer :: "fat \<Rightarrow> bytes option" where
  "dir_buffer s = (if kmalloc_ok s (cluster_bytes s) then Some (replicate (cluster_bytes s) 0) else None)"

definition nth_entry :: "nat \<Rightarrow> bytes \<Rightarrow> FAT16_DirEntry" where
  "nth_entry k dir = dirent_of (take 32 (drop (32 * k) dir))"

definition put_entry :: "nat \<Rightarrow> bytes \<Rightarrow> bytes \<Rightarrow> bytes" where
  "put_entry k e dir = take (32 * k) dir @ e @ drop (32 * k + 32) dir"

definition fat_find_dir_entry :: "bytes \<Rightarrow> FAT16_DirEntry \<Rightarrow> fat \<Rightarrow> FAT16_DirEntry option option" where
  "fat_find_dir_entry nm current_dir s =
     (if fat_table s = None then Some None
      else do {
        dir \<leftarrow> dir_buffer s;
        (x, s) \<leftarrow> dir_walk (unat (start_cluster current_dir)) 0 dir
          (\<lambda>cluster_num dir s. do {
             k \<leftarrow> scan_entries (\<lambda>p. strncmp p nm FAT16_FILENAME_SIZE) 0 (entries_per_cluster s) dir;
             Some (map_option (\<lambda>k. Some (nth_entry k dir)) k, s)
           }) None s;
        Some (case x of None \<Rightarrow> None | Some v \<Rightarrow> v)
      })"

definition fat_add_dir_entry :: "FAT16_DirEntry \<Rightarrow> FAT16_DirEntry \<Rightarrow> fat \<Rightarrow> (bool \<times> fat) option" where
  "fat_add_dir_entry parent_dir new_entry s =
     (if fat_table s = None then Some (False, s)
      else do {
        dir \<leftarrow> dir_buffer s;
        (x, s) \<leftarrow> dir_walk (unat (start_cluster parent_dir)) 0 dir
          (\<lambda>cluster_num dir s. do {
             k \<leftarrow> scan_entries (\<lambda>p. strncmp p [0] FAT16_FILENAME_SIZE) 0 (entries_per_cluster s) dir;
             (case k of
                None \<Rightarrow> Some (None, s)
              | Some k \<Rightarrow> do {
                  (r, s) \<leftarrow> fat_write_data_cluster cluster_num (put_entry k (dirent_bytes new_entry) dir) s;
                  Some (Some (r = 0), s)
                })
           }) False s;
        (case x of
           Some v \<Rightarrow> Some (v, s)
         | None \<Rightarrow> do {
             new_fat_index \<leftarrow> fat_find_free s;
             if new_fat_index = - 1 then Some (False, s)
             else do {
               s \<leftarrow> fat_update_chain (unat (start_cluster parent_dir)) (nat new_fat_index) s;
               (r, dir) \<leftarrow> fat_read_data_cluster (of_int new_fat_index) dir s;
               if r \<noteq> 0 then Some (False, s)
               else if length dir < 32 then None
               else do {
                 (r, s) \<leftarrow> fat_write_data_cluster (of_int new_fat_index)
                   (put_entry 0 (dirent_bytes new_entry) dir) s;
                 Some (r = 0, s)
               }
             }
           })
      })"

definition fat_update_dir_entry ::
    "bytes \<Rightarrow> FAT16_DirEntry \<Rightarrow> FAT16_DirEntry \<Rightarrow> fat \<Rightarrow> (bool \<times> fat) option" where
  "fat_update_dir_entry nm current_dir new_entry s =
     (if fat_table s = None then Some (False, s)
      else do {
        dir \<leftarrow> dir_buffer s;
        (x, s) \<leftarrow> dir_walk (unat (start_cluster current_dir)) 0 dir
          (\<lambda>cluster_num dir s. do {
             k \<leftarrow> scan_entries (\<lambda>p. strcmp p nm) 0 (entries_per_cluster s) dir;
             (case k of
                None \<Rightarrow> Some (None, s)
              | Some k \<Rightarrow> do {
                  (r, s) \<leftarrow> fat_write_data_cluster cluster_num (put_entry k (dirent_bytes new_entry) dir) s;
                  Some (Some (r = 0), s)
                })
           }) False s;
        Some (case x of None \<Rightarrow> False | Some v \<Rightarrow> v, s)
      })"

definition fat_remove_dir_entry ::
    "bytes \<Rightarrow> FAT16_DirEntry \<Rightarrow> bool \<Rightarrow> fat \<Rightarrow> (bool \<times> fat) option" where
  "fat_remove_dir_entry nm current_dir delete_chain s =
     (if fat_table s = None then Some (False, s)
      else do {
        dir \<leftarrow> dir_buffer s;
        (x, s) \<leftarrow> dir_walk (unat (start_cluster current_dir)) 0 dir
          (\<lambda>cluster_num dir s. do {
             k \<leftarrow> scan_entries (\<lambda>p. strncmp p nm FAT16_FILENAME_SIZE) 0 (entries_per_cluster s) dir;
             (case k of
                None \<Rightarrow> Some (None, s)
              | Some k \<Rightarrow> do {
                  s \<leftarrow> (if delete_chain then fat_free_chain (unat (start_cluster (nth_entry k dir))) s
                        else Some s);
                  (r, s) \<leftarrow> fat_write_data_cluster cluster_num (put_entry k (replicate 32 0) dir) s;
                  Some (Some True, s)
                })
           }) False s;
        Some (case x of None \<Rightarrow> False | Some v \<Rightarrow> v, s)
      })"

text \<open>The \<open>n\<close>-th entry in use: the counter runs over all clusters.\<close>

fun nth_entry_loop :: "nat \<Rightarrow> int \<Rightarrow> nat \<Rightarrow> nat \<Rightarrow> bytes \<Rightarrow> (nat option \<times> nat) option" where
  "nth_entry_loop count n k 0 dir = Some (None, count)"
| "nth_entry_loop count n k (Suc m) dir =
     (if int count = n then Some (Some k, count)
      else do {
        r \<leftarrow> strncmp (drop (32 * k) dir) [0] FAT16_FILENAME_SIZE;
        nth_entry_loop (if r \<noteq> 0 then Suc count else count) n (Suc k) m dir
      })"

partial_function (option) nth_entry_walk ::
    "nat \<Rightarrow> nat \<Rightarrow> nat \<Rightarrow> int \<Rightarrow> bytes \<Rightarrow> fat \<Rightarrow> (int \<times> FAT16_DirEntry option) option" where
  "nth_entry_walk start i count n dir s = do {
     cluster_num \<leftarrow> get_ith_cluster start i s;
     if cluster_num = - 1 then Some (FILE_NOT_FOUND, None)
     else do {
       (r, dir) \<leftarrow> fat_read_data_cluster (of_int cluster_num) dir s;
       if r \<noteq> 0 then Some (CANT_ALLOCATE_SPACE, None)
       else do {
         (k, count) \<leftarrow> nth_entry_loop count n 0 (entries_per_cluster s) dir;
         (case k of Some k \<Rightarrow> Some (0, Some (nth_entry k dir))
          | None \<Rightarrow> nth_entry_walk start (Suc i) count n dir s)
       }
     }
   }"

text \<open>\<open>n >= dir->file_size\<close> compares an int with an unsigned number.\<close>

definition fat_get_dir_entry :: "FAT16_DirEntry \<Rightarrow> int \<Rightarrow> fat \<Rightarrow> (int \<times> FAT16_DirEntry option) option" where
  "fat_get_dir_entry dir n s =
     (if file_size dir \<le> word_of_int n then Some (FILE_NOT_FOUND, None)
      else if fat_table s = None then Some (0, None)
      else do {
        dir_buff \<leftarrow> dir_buffer s;
        nth_entry_walk (unat (start_cluster dir)) 0 0 n dir_buff s
      })"

section \<open>Paths\<close>

text \<open>The scan over one component: from \<open>index\<close> on, at most twelve steps.\<close>

fun component_end :: "bytes \<Rightarrow> nat \<Rightarrow> nat \<Rightarrow> nat \<Rightarrow> nat option" where
  "component_end path path_len index 0 = Some index"
| "component_end path path_len index (Suc n) = do {
     c \<leftarrow> arr_get path index;
     if c \<noteq> 0x2F \<and> index < path_len then component_end path path_len (Suc index) n else Some index
   }"

partial_function (option) path_loop ::
    "bytes \<Rightarrow> nat \<Rightarrow> nat \<Rightarrow> bytes \<Rightarrow> FAT16_DirEntry \<Rightarrow> fat \<Rightarrow> (int \<times> FAT16_DirEntry option) option" where
  "path_loop path path_len start_index sub_name cur s = do {
     index \<leftarrow> component_end path path_len start_index 12;
     if 11 < index - start_index then Some (DIR_NAME_EXCEEDS_LENGTH, None)
     else do {
       sub_name \<leftarrow> memset sub_name 0 (int FAT16_FILENAME_SIZE);
       sub_name \<leftarrow> strncpy sub_name (drop start_index path) (index - start_index);
       if start_index = 0 then do {
         e \<leftarrow> strncmp sub_name [0] FAT16_FILENAME_SIZE;
         t \<leftarrow> strncmp sub_name (c_str ''~'') FAT16_FILENAME_SIZE;
         if e \<noteq> 0 \<and> t \<noteq> 0 then Some (DIR_NOT_FOUND, None)
         else path_loop path path_len (Suc index) sub_name cur s
       }
       else if int path_len - 1 \<le> int index then do {
         x \<leftarrow> fat_find_dir_entry sub_name cur s;
         (case x of
            None \<Rightarrow> Some (if int index = int path_len - 1 then DIR_NOT_FOUND else FILE_NOT_FOUND, None)
          | Some cur \<Rightarrow> Some (SUCCESS, Some cur))
       }
       else if attr cur AND FAT_ATTR_DIRECTORY = 0 then Some (DIR_NOT_FOUND, None)
       else do {
         x \<leftarrow> fat_find_dir_entry sub_name cur s;
         (case x of
            None \<Rightarrow> Some (DIR_NOT_FOUND, None)
          | Some cur \<Rightarrow> path_loop path path_len (Suc index) sub_name cur s)
       }
     }
   }"

definition fat_find_dir_entry_from_path :: "bytes \<Rightarrow> fat \<Rightarrow> (int \<times> FAT16_DirEntry option) option" where
  "fat_find_dir_entry_from_path path s = do {
     path_len \<leftarrow> strlen path;
     a \<leftarrow> strncmp path (c_str ''~/'') 3;
     b \<leftarrow> (if a = 0 then Some 0 else strncmp path (c_str ''/'') 2);
     c \<leftarrow> (if b = 0 then Some 0 else strncmp path (c_str ''./'') 3);
     if c = 0 then Some (SUCCESS, Some (root_dir s))
     else path_loop path path_len 0 (replicate 12 0) (root_dir s) s
   }"

fun legal_chars :: "bytes \<Rightarrow> bool option" where
  "legal_chars [] = None"
| "legal_chars (c # p) =
     (if c = 0 then Some True
      else if isalnum (uint c) = 0 \<and> c \<noteq> 0x2D \<and> c \<noteq> 0x5F \<and> c \<noteq> 0x2E then Some False
      else legal_chars p)"

definition check_file_name :: "bytes \<Rightarrow> bool option" where
  "check_file_name file_name = do {
     ok \<leftarrow> legal_chars file_name;
     if \<not> ok then Some False
     else do {
       a \<leftarrow> strcmp file_name [0];
       b \<leftarrow> strcmp file_name (c_str ''.'');
       c \<leftarrow> strcmp file_name (c_str ''..'');
       d \<leftarrow> strcmp file_name (c_str ''~'');
       Some (\<not> (a = 0 \<or> b = 0 \<or> c = 0 \<or> d = 0))
     }
   }"

definition get_parent_dir :: "bytes \<Rightarrow> bytes \<Rightarrow> fat \<Rightarrow> bytes option" where
  "get_parent_dir path parent_dir s = do {
     path_copy \<leftarrow> strcpy (stack_junk s) path;
     last_slash \<leftarrow> strrchr path_copy 0x2F;
     let directory = (case last_slash of Some i \<Rightarrow> path_copy[i := 0] | None \<Rightarrow> path_copy);
     n \<leftarrow> strlen directory;
     if n = 0 then strcpy parent_dir (c_str ''/'') else strcpy parent_dir directory
   }"

definition get_base_name :: "bytes \<Rightarrow> bytes \<Rightarrow> fat \<Rightarrow> bytes option" where
  "get_base_name path nm s = do {
     path_copy \<leftarrow> strcpy (stack_junk s) path;
     last_slash \<leftarrow> strrchr path_copy 0x2F;
     let path_copy = (case last_slash of Some i \<Rightarrow> path_copy[i := 0] | None \<Rightarrow> path_copy);
     strcpy nm (case last_slash of Some i \<Rightarrow> drop (Suc i) path_copy | None \<Rightarrow> path_copy)
   }"

section \<open>Operations on paths\<close>

definition add_dot_entry :: "string \<Rightarrow> u16 \<Rightarrow> FAT16_DirEntry \<Rightarrow> fat \<Rightarrow> (bool \<times> fat) option" where
  "add_dot_entry nm cluster dir s = do {
     n \<leftarrow> strcpy (name zero_entry) (c_str nm);
     fat_add_dir_entry dir (zero_entry\<lparr>start_cluster := cluster,
       attr := attr zero_entry OR FAT_ATTR_DIRECTORY, name := n\<rparr>) s
   }"

text \<open>The end of \<open>fat_create\<close>: one entry more for the parent, recorded in its own parent.\<close>

definition update_parent_count ::
    "(u32 \<Rightarrow> u32) \<Rightarrow> FAT16_DirEntry \<Rightarrow> FAT16_DirEntry \<Rightarrow> fat \<Rightarrow> (bool \<times> fat) option" where
  "update_parent_count f parent_dir parent_parent_dir s =
     (let parent_dir = parent_dir\<lparr>file_size := f (file_size parent_dir)\<rparr>
      in fat_update_dir_entry (dirent_bytes parent_dir) parent_parent_dir parent_dir s)"

definition fat_create :: "bytes \<Rightarrow> bool \<Rightarrow> fat \<Rightarrow> (int \<times> fat) option" where
  "fat_create path is_directory s = do {
     dir_name \<leftarrow> get_base_name path (replicate 12 0) s;
     directory \<leftarrow> get_parent_dir path (replicate 1024 0) s;
     ok \<leftarrow> check_file_name dir_name;
     if \<not> ok then Some (INVALID_FILE_NAME, s)
     else do {
       (err, p) \<leftarrow> fat_find_dir_entry_from_path directory s;
       (case p of
          None \<Rightarrow> Some (err, s)
        | Some parent_dir \<Rightarrow>
            if attr parent_dir AND FAT_ATTR_DIRECTORY = 0 then Some (DIR_NOT_FOUND, s)
            else do {
              x \<leftarrow> fat_find_dir_entry dir_name parent_dir s;
              if x \<noteq> None then Some (FILE_ALREADY_EXISTS, s)
              else do {
                i \<leftarrow> fat_find_free s;
                let cluster = (word_of_int i :: u16);
                s \<leftarrow> fat_update_chain (unat cluster) (unat cluster) s;
                nm \<leftarrow> strncpy (name zero_entry) dir_name FAT16_FILENAME_SIZE;
                let dir = zero_entry\<lparr>start_cluster := cluster, name := nm\<rparr>;
                let dir = (if is_directory then dir\<lparr>attr := attr dir OR FAT_ATTR_DIRECTORY, file_size := 2\<rparr>
                           else dir);
                (ok, s) \<leftarrow> fat_add_dir_entry parent_dir dir s;
                if \<not> ok then do { s \<leftarrow> fat_free_chain (unat cluster) s; Some (GENERAL_ERROR, s) }
                else do {
                  (ok, s) \<leftarrow> (if is_directory then add_dot_entry ''.'' cluster dir s else Some (True, s));
                  (ok, s) \<leftarrow> (if ok \<and> is_directory
                               then add_dot_entry ''..'' (start_cluster parent_dir) dir s else Some (ok, s));
                  if \<not> ok then do { s \<leftarrow> fat_free_chain (unat cluster) s; Some (GENERAL_ERROR, s) }
                  else do {
                    parent_parent \<leftarrow> get_parent_dir directory (replicate 1024 0) s;
                    (err, pp) \<leftarrow> fat_find_dir_entry_from_path parent_parent s;
                    (case pp of
                       None \<Rightarrow> Some (err, s)
                     | Some parent_parent_dir \<Rightarrow> do {
                         (_, s) \<leftarrow> update_parent_count (\<lambda>n. n + 1) parent_dir parent_parent_dir s;
                         Some (SUCCESS, s)
                       })
                  }
                }
              }
            })
     }
   }"

definition fat_delete :: "bytes \<Rightarrow> bool \<Rightarrow> fat \<Rightarrow> (int \<times> fat) option" where
  "fat_delete path is_directory s = do {
     dir_name \<leftarrow> get_base_name path (replicate 12 0) s;
     parent_dir_name \<leftarrow> get_parent_dir path (replicate 1024 0) s;
     parent_parent_dir_name \<leftarrow> get_parent_dir parent_dir_name (replicate 1024 0) s;
     (err, d) \<leftarrow> fat_find_dir_entry_from_path path s;
     (case d of
        None \<Rightarrow> Some (err, s)
      | Some dir \<Rightarrow>
          if is_directory \<and> attr dir = 0 then Some (DIR_NOT_FOUND, s)
          else if is_directory \<and> file_size dir \<noteq> 2 then Some (DIRECTORY_ISNT_EMPTY, s)
          else if \<not> is_directory \<and> attr dir AND FAT_ATTR_DIRECTORY \<noteq> 0 then Some (IS_DIR, s)
          else do {
            (err, p) \<leftarrow> fat_find_dir_entry_from_path parent_dir_name s;
            (case p of
               None \<Rightarrow> Some (err, s)
             | Some parent_dir \<Rightarrow> do {
                 (err, pp) \<leftarrow> fat_find_dir_entry_from_path parent_parent_dir_name s;
                 (case pp of
                    None \<Rightarrow> Some (err, s)
                  | Some parent_parent_dir \<Rightarrow> do {
                      (_, s) \<leftarrow> fat_remove_dir_entry dir_name parent_dir True s;
                      (_, s) \<leftarrow> update_parent_count (\<lambda>n. n - 1) parent_dir parent_parent_dir s;
                      Some (SUCCESS, s)
                    })
               })
          })
   }"

text \<open>These two have no return statement: their value is not defined, so only the state is kept.\<close>

definition fat_create_file :: "bytes \<Rightarrow> fat \<Rightarrow> fat option" where
  "fat_create_file path s = map_option snd (fat_create path False s)"

definition fat_create_directory :: "bytes \<Rightarrow> fat \<Rightarrow> fat option" where
  "fat_create_directory path s = map_option snd (fat_create path True s)"

definition fat_delete_file :: "bytes \<Rightarrow> fat \<Rightarrow> (int \<times> fat) option" where
  "fat_delete_file path s = fat_delete path False s"

definition fat_delete_dir :: "bytes \<Rightarrow> fat \<Rightarrow> (int \<times> fat) option" where
  "fat_delete_dir path s = fat_delete path True s"

definition fat_rename :: "bytes \<Rightarrow> bytes \<Rightarrow> fat \<Rightarrow> (int \<times> fat) option" where
  "fat_rename path new_name s = do {
     (err, f) \<leftarrow> fat_find_dir_entry_from_path path s;
     (case f of
        None \<Rightarrow> Some (err, s)
      | Some file \<Rightarrow> do {
          directory \<leftarrow> get_parent_dir path (replicate 1024 0) s;
          (err, p) \<leftarrow> fat_find_dir_entry_from_path directory s;
          (case p of
             None \<Rightarrow> Some (err, s)
           | Some parent_dir \<Rightarrow>
               if attr parent_dir AND FAT_ATTR_DIRECTORY = 0 then Some (DIR_NOT_FOUND, s)
               else do {
                 n \<leftarrow> strlen new_name;
                 if FAT16_FILENAME_SIZE < n then Some (FILE_NAME_EXCEEDS_LENGTH, s)
                 else do {
                   ok \<leftarrow> check_file_name new_name;
                   if \<not> ok then Some (INVALID_FILE_NAME, s)
                   else do {
                     previous_name \<leftarrow> strncpy (replicate 12 0) (dirent_bytes file) FAT16_FILENAME_SIZE;
                     nm \<leftarrow> memset (name file) 0 (int FAT16_FILENAME_SIZE);
                     nm \<leftarrow> strncpy nm new_name FAT16_FILENAME_SIZE;
                     let file = file\<lparr>name := nm\<rparr>;
                     x \<leftarrow> fat_find_dir_entry (dirent_bytes file) parent_dir s;
                     if x \<noteq> None then Some (FILE_ALREADY_EXISTS, s)
                     else do {
                       (ok, s) \<leftarrow> fat_update_dir_entry previous_name parent_dir file s;
                       Some (if ok then SUCCESS else GENERAL_ERROR, s)
                     }
                   }
                 }
               })
        })
   }"

definition fat_get_file_data :: "bytes \<Rightarrow> fat \<Rightarrow> (int \<times> FileData option) option" where
  "fat_get_file_data path s = do {
     (err, f) \<leftarrow> fat_find_dir_entry_from_path path s;
     (case f of
        None \<Rightarrow> Some (- ENOENT, None)
      | Some file \<Rightarrow> do {
          parent_path \<leftarrow> get_parent_dir path (replicate 1024 0) s;
          (err, p) \<leftarrow> fat_find_dir_entry_from_path parent_path s;
          (case p of
             None \<Rightarrow> Some (- 1, None)
           | Some parent \<Rightarrow> Some (0, Some \<lparr>file_entry = file, parent_entry = parent\<rparr>))
        })
   }"

definition fat_get_dir_data :: "bytes \<Rightarrow> fat \<Rightarrow> (int \<times> FileData option) option" where
  "fat_get_dir_data path s = do {
     (err, d) \<leftarrow> fat_find_dir_entry_from_path path s;
     (case d of
        None \<Rightarrow> Some (- 1, None)
      | Some dir \<Rightarrow>
          if attr dir AND FAT_ATTR_DIRECTORY = 0 then Some (- ENOTDIR, None)
          else do {
            parent_path \<leftarrow> get_parent_dir path (replicate 1024 0) s;
            (err, p) \<leftarrow> fat_find_dir_entry_from_path parent_path s;
            (case p of
               None \<Rightarrow> Some (- 1, None)
             | Some parent \<Rightarrow> Some (0, Some \<lparr>file_entry = dir, parent_entry = parent\<rparr>))
          })
   }"

section \<open>Names and paths\<close>

definition legal_char :: "u8 \<Rightarrow> bool" where
  "legal_char c \<longleftrightarrow> isalnum (uint c) \<noteq> 0 \<or> c = 0x2D \<or> c = 0x5F \<or> c = 0x2E"

lemma legal_chars_cstr: "0 \<notin> set n \<Longrightarrow> legal_chars (n @ 0 # rest) = Some (\<forall>c \<in> set n. legal_char c)"
  by (induction n) (auto simp: legal_char_def)

lemma strrchr_absent:
  "x \<noteq> [] \<Longrightarrow> 0 \<notin> set x \<Longrightarrow> ch \<notin> set x \<Longrightarrow> strrchr_loop (x @ 0 # r) ch i ret = Some ret"
proof (induction x arbitrary: i ret)
  case (Cons a x)
  then show ?case by (cases x) auto
qed simp

lemma strrchr_present:
  "0 \<notin> set u \<Longrightarrow> 0 \<notin> set v \<Longrightarrow> ch \<noteq> 0 \<Longrightarrow> ch \<notin> set v \<Longrightarrow>
    strrchr_loop (u @ ch # v @ 0 # r) ch i ret = Some (Some (i + length u))"
proof (induction u arbitrary: i ret)
  case Nil
  then show ?case
  proof (cases v)
    case (Cons b v')
    then show ?thesis using Nil strrchr_absent[of v ch r "Suc i" "Some i"] by simp
  qed simp
next
  case (Cons a u)
  then show ?case by (cases u) auto
qed

text \<open>A path with its last slash.\<close>

lemma split_path:
  assumes "0 \<notin> set dir" and "0 \<notin> set base" and "0x2F \<notin> set base"
    and "length dir + length base + 1 < length (stack_junk s)"
  obtains junk where "strcpy (stack_junk s) (dir @ 0x2F # base @ 0 # rest) = Some (dir @ 0x2F # base @ 0 # junk)"
    and "strrchr (dir @ 0x2F # base @ 0 # junk) 0x2F = Some (Some (length dir))"
proof -
  let ?p = "dir @ 0x2F # base"
  have "strcpy (stack_junk s) (?p @ 0 # rest) = Some (?p @ 0 # drop (Suc (length ?p)) (stack_junk s))"
    using assms by (intro strcpy_append) auto
  moreover have "strrchr (?p @ 0 # drop (Suc (length ?p)) (stack_junk s)) 0x2F = Some (Some (length dir))"
    using strrchr_present[of dir base "0x2F" _ 0 None] assms by (simp add: strrchr_def)
  ultimately show ?thesis using that by simp
qed

lemma get_base_name_split:
  assumes "0 \<notin> set dir" and "0 \<notin> set base" and "0x2F \<notin> set base" and "base \<noteq> []"
    and "length dir + length base + 1 < length (stack_junk s)"
  shows "get_base_name (dir @ 0x2F # base @ 0 # rest) nm s =
    (if length base < length nm then Some (base @ 0 # drop (Suc (length base)) nm) else None)"
proof -
  obtain junk where j: "strcpy (stack_junk s) (dir @ 0x2F # base @ 0 # rest) = Some (dir @ 0x2F # base @ 0 # junk)"
    "strrchr (dir @ 0x2F # base @ 0 # junk) 0x2F = Some (Some (length dir))"
    using split_path[OF assms(1-3,5)] by blast
  have "strcpy nm (base @ 0 # junk) =
      (if length base < length nm then Some (base @ 0 # drop (Suc (length base)) nm) else None)"
    using assms(2,4) by (auto intro: strcpy_append strcpy_too_long)
  then show ?thesis by (simp add: get_base_name_def j Let_def)
qed

lemma get_parent_dir_split:
  assumes "0 \<notin> set dir" and "0 \<notin> set base" and "0x2F \<notin> set base"
    and "length dir + length base + 1 < length (stack_junk s)" and "length dir < length buf" and "2 \<le> length buf"
  shows "get_parent_dir (dir @ 0x2F # base @ 0 # rest) buf s =
    Some (if dir = [] then 0x2F # 0 # drop 2 buf else dir @ 0 # drop (Suc (length dir)) buf)"
proof -
  obtain junk where j: "strcpy (stack_junk s) (dir @ 0x2F # base @ 0 # rest) = Some (dir @ 0x2F # base @ 0 # junk)"
    "strrchr (dir @ 0x2F # base @ 0 # junk) 0x2F = Some (Some (length dir))"
    using split_path[OF assms(1-4)] by blast
  have upd: "(dir @ 0x2F # base @ 0 # junk)[length dir := 0] = dir @ 0 # base @ 0 # junk"
    by (simp add: list_update_append)
  have sl: "strcpy buf (c_str ''/'') = Some (0x2F # 0 # drop 2 buf)"
  proof -
    have "strcpy buf ([0x2F] @ 0 # []) = Some ([0x2F] @ 0 # drop (Suc (length [0x2F :: 8 word])) buf)"
      by (rule strcpy_append) (use assms(6) in simp_all)
    then show ?thesis by (simp add: c_str_def bytes_of_def numeral_2_eq_2)
  qed
  show ?thesis
  proof (cases "dir = []")
    case True
    then show ?thesis using sl j upd by (simp add: get_parent_dir_def Let_def)
  next
    case False
    have "strcpy buf (dir @ 0 # base @ 0 # junk) = Some (dir @ 0 # drop (Suc (length dir)) buf)"
      using False assms(1,5) by (intro strcpy_append)
    then show ?thesis
      using False assms(1) j upd strlen_append[of dir "base @ 0 # junk"] by (simp add: get_parent_dir_def Let_def)
  qed
qed

section \<open>Properties\<close>

text \<open>\<open>check_file_name\<close> accepts exactly the non-empty strings of letters, digits, dash, underscore
  and dot other than one or two dots.\<close>

lemma check_file_name_correct:
  assumes "is_cstr n buf"
  shows "check_file_name buf =
    Some (n \<noteq> [] \<and> (\<forall>c \<in> set n. legal_char c) \<and> n \<noteq> bytes_of ''.'' \<and> n \<noteq> bytes_of ''..'')"
proof -
  obtain rest where z: "0 \<notin> set n" and buf: "buf = n @ 0 # rest" using assms by (rule is_cstrE)
  have cmp: "\<exists>r. strcmp buf (c_str w) = Some r \<and> (r = 0 \<longleftrightarrow> n = bytes_of w)"
    if "0 \<notin> set (bytes_of w)" for w
    using strcmp_append[of n "bytes_of w" rest "[]"] z that buf by (simp add: c_str_def)
  have nz: "0 \<notin> set (bytes_of w)" if "w \<in> {[], ''.'', ''..'', ''~''}" for w
    using that by (auto simp: bytes_of_def)
  have lits: "c_str [] = [0]" "bytes_of [] = []" by (simp_all add: c_str_def bytes_of_def)
  obtain a b c d where abcd:
    "strcmp buf [0] = Some a" "a = 0 \<longleftrightarrow> n = []"
    "strcmp buf (c_str ''.'') = Some b" "b = 0 \<longleftrightarrow> n = bytes_of ''.''"
    "strcmp buf (c_str ''..'') = Some c" "c = 0 \<longleftrightarrow> n = bytes_of ''..''"
    "strcmp buf (c_str ''~'') = Some d" "d = 0 \<longleftrightarrow> n = bytes_of ''~''"
    using cmp[OF nz, of "[]"] cmp[OF nz, of "''.''"] cmp[OF nz, of "''..''"] cmp[OF nz, of "''~''"]
    unfolding lits by blast
  have "\<not> legal_char 0x7E" by (simp add: legal_char_def isalnum_def)
  then have "n = bytes_of ''~'' \<Longrightarrow> \<not> (\<forall>c \<in> set n. legal_char c)" by (simp add: bytes_of_def)
  with abcd show ?thesis
    using legal_chars_cstr[OF z, of rest] unfolding check_file_name_def buf[symmetric] by auto
qed

text \<open>\<open>get_parent_dir\<close> and \<open>get_base_name\<close> take a path apart at its last slash: for a path that
  fits the 1024-byte copy, the parent is what precedes the slash (\<open>/\<close> when that is empty), and
  the base name is what follows it if it fits the caller's buffer. A base name that does not
  fit, in the callers one of more than eleven characters, runs over the end of that buffer.\<close>

lemma path_split:
  assumes "0 \<notin> set dir" and "0 \<notin> set base" and "0x2F \<notin> set base" and "base \<noteq> []"
    and "length (stack_junk s) = 1024" and "length dir + length base + 1 < 1024"
  shows "get_parent_dir (dir @ 0x2F # base @ 0 # rest) (replicate 1024 0) s =
      Some (if dir = [] then 0x2F # 0 # replicate 1022 0 else dir @ 0 # replicate (1023 - length dir) 0) \<and>
    get_base_name (dir @ 0x2F # base @ 0 # rest) (replicate 12 0) s =
      (if length base \<le> 11 then Some (base @ 0 # replicate (11 - length base) 0) else None)"
proof
  show "get_parent_dir (dir @ 0x2F # base @ 0 # rest) (replicate 1024 0) s =
      Some (if dir = [] then 0x2F # 0 # replicate 1022 0 else dir @ 0 # replicate (1023 - length dir) 0)"
    using get_parent_dir_split[of dir base s "replicate 1024 0" rest] assms by simp
  show "get_base_name (dir @ 0x2F # base @ 0 # rest) (replicate 12 0) s =
      (if length base \<le> 11 then Some (base @ 0 # replicate (11 - length base) 0) else None)"
    using get_base_name_split[of dir base s rest "replicate 12 0"] assms by auto
qed

end
