(* ===== verification/FatFile.thy ===== *)
theory FatFile
  imports FatDir
begin

text \<open>
  Files of the FAT16 file system (\<open>filesystem/fat/fat.c\<close>): \<open>fat_read\<close>, \<open>fat_write\<close> and
  \<open>fat_truncate\<close> over the clusters of a chain. Offsets and sizes are 32-bit and wrap as in
  the code; the answer is the number of bytes as a signed number, or a negative code.
\<close>

section \<open>Operations\<close>

definition bytes_per_cluster :: "fat \<Rightarrow> u32" where
  "bytes_per_cluster s = of_nat (cluster_bytes s)"

text \<open>Copying \<open>n\<close> bytes into a buffer at an offset; running over its end is \<open>None\<close>.\<close>

definition copy_into :: "bytes \<Rightarrow> nat \<Rightarrow> bytes \<Rightarrow> nat \<Rightarrow> bytes option" where
  "copy_into dst at src n =
     map_option (\<lambda>d. take at dst @ d) (if at \<le> length dst then memcpy (drop at dst) src n else None)"

text \<open>The walk to the cluster of the offset; the inner \<open>None\<close> is the return of \<open>-1\<close>.\<close>

fun skip_clusters :: "bool \<Rightarrow> u32 \<Rightarrow> nat \<Rightarrow> fat \<Rightarrow> u32 option option" where
  "skip_clusters stop_at_0 current_cluster 0 s = Some (Some current_cluster)"
| "skip_clusters stop_at_0 current_cluster (Suc n) s =
     (if ucast FAT16_CLUSTER_CHAIN_END \<le> current_cluster \<or> stop_at_0 \<and> current_cluster = 0 then Some None
      else do {
        v \<leftarrow> table_get (unat current_cluster) s;
        skip_clusters stop_at_0 (ucast v) n s
      })"

partial_function (option) read_loop ::
    "u32 \<Rightarrow> u32 \<Rightarrow> u32 \<Rightarrow> u32 \<Rightarrow> bytes \<Rightarrow> bytes \<Rightarrow> fat \<Rightarrow> (int \<times> bytes) option" where
  "read_loop sz bytes_read current_cluster cluster_offset cluster_buffer buffer s =
     (if bytes_read < sz \<and> current_cluster < ucast FAT16_CLUSTER_CHAIN_END \<and> current_cluster \<noteq> 0 then do {
        (r, cluster_buffer) \<leftarrow> fat_read_data_cluster current_cluster cluster_buffer s;
        if r \<noteq> 0 then Some (- 1, buffer)
        else do {
          let bytes_to_copy = min (bytes_per_cluster s - cluster_offset) (sz - bytes_read);
          buffer \<leftarrow> copy_into buffer (unat bytes_read) (drop (unat cluster_offset) cluster_buffer)
                     (unat bytes_to_copy);
          let bytes_read = bytes_read + bytes_to_copy;
          if bytes_read < sz then do {
            v \<leftarrow> table_get (unat current_cluster) s;
            read_loop sz bytes_read (ucast v) 0 cluster_buffer buffer s
          } else read_loop sz bytes_read current_cluster 0 cluster_buffer buffer s
        }
      } else Some (sint bytes_read, buffer))"

definition fat_read :: "FAT16_DirEntry \<Rightarrow> u32 \<Rightarrow> u32 \<Rightarrow> bytes \<Rightarrow> fat \<Rightarrow> (int \<times> bytes) option" where
  "fat_read file offset sz buffer s =
     (if attr file AND FAT_ATTR_DIRECTORY \<noteq> 0 then Some (- 1, buffer)
      else if file_size file \<le> offset then Some (0, buffer)
      else if bytes_per_cluster s = 0 then None
      else do {
        let sz = (if file_size file < offset + sz then file_size file - offset else sz);
        c \<leftarrow> skip_clusters True (ucast (start_cluster file)) (unat (offset div bytes_per_cluster s)) s;
        (case c of
           None \<Rightarrow> Some (- 1, buffer)
         | Some current_cluster \<Rightarrow>
             if \<not> kmalloc_ok s (cluster_bytes s) then Some (GENERAL_ERROR, buffer)
             else read_loop sz 0 current_cluster (offset mod bytes_per_cluster s)
                    (replicate (cluster_bytes s) 0) buffer s)
      })"

partial_function (option) write_loop ::
    "u32 \<Rightarrow> u32 \<Rightarrow> u32 \<Rightarrow> u32 \<Rightarrow> bytes \<Rightarrow> bytes \<Rightarrow> fat \<Rightarrow> (int \<times> fat) option" where
  "write_loop sz bytes_written current_cluster cluster_offset cluster_buffer buffer s =
     (if bytes_written < sz then do {
        (r, cluster_buffer) \<leftarrow>
          (if 0 < cluster_offset \<or> sz - bytes_written < bytes_per_cluster s
           then fat_read_data_cluster current_cluster cluster_buffer s else Some (0, cluster_buffer));
        if r \<noteq> 0 then Some (- 1, s)
        else do {
          let bytes_to_write = min (bytes_per_cluster s - cluster_offset) (sz - bytes_written);
          cluster_buffer \<leftarrow> copy_into cluster_buffer (unat cluster_offset)
            (drop (unat bytes_written) buffer) (unat bytes_to_write);
          (r, s) \<leftarrow> fat_write_data_cluster current_cluster cluster_buffer s;
          if r \<noteq> 0 then Some (- 1, s)
          else do {
            let bytes_written = bytes_written + bytes_to_write;
            if bytes_written < sz then do {
              v \<leftarrow> table_get (unat current_cluster) s;
              write_loop sz bytes_written (ucast v) 0 cluster_buffer buffer s
            } else write_loop sz bytes_written current_cluster 0 cluster_buffer buffer s
          }
        }
      } else Some (sint bytes_written, s))"

text \<open>
  \<open>fat_write\<close> and \<open>fat_truncate\<close> call each other. \<open>fat_write_with\<close> is \<open>fat_write\<close> with the
  call of \<open>fat_truncate\<close> as an argument. \<open>fat_truncate\<close> calls it to write zero bytes at the end of
  the file, which does not grow the file, so the argument is not used there. The entry that
  comes back is the caller's, updated in place.
\<close>

definition fat_write_with ::
    "(FileData \<Rightarrow> u32 \<Rightarrow> fat \<Rightarrow> (int \<times> FileData \<times> fat) option) \<Rightarrow>
     FAT16_DirEntry \<Rightarrow> FAT16_DirEntry \<Rightarrow> u32 \<Rightarrow> u32 \<Rightarrow> bytes \<Rightarrow> fat \<Rightarrow>
     (int \<times> FAT16_DirEntry \<times> fat) option" where
  "fat_write_with trunc file parent_dir offset sz buffer s =
     (if attr file AND FAT_ATTR_DIRECTORY \<noteq> 0 then Some (- 1, file, s)
      else if bytes_per_cluster s = 0 then None
      else do {
        let start_cluster_index = unat (offset div bytes_per_cluster s);
        let cluster_offset = offset mod bytes_per_cluster s;
        let new_size = offset + sz;
        (ok, file, s) \<leftarrow>
          (if file_size file < new_size then do {
             (r, fd, s) \<leftarrow> trunc \<lparr>file_entry = file, parent_entry = parent_dir\<rparr> new_size s;
             Some (if r \<noteq> 0 then (False, file, s) else (True, file_entry fd, s))
           } else Some (True, file, s));
        if \<not> ok then Some (- 1, file, s)
        else do {
          c \<leftarrow> skip_clusters False (ucast (start_cluster file)) start_cluster_index s;
          (case c of
             None \<Rightarrow> Some (- 1, file, s)
           | Some current_cluster \<Rightarrow>
               if \<not> kmalloc_ok s (cluster_bytes s) then Some (GENERAL_ERROR, file, s)
               else do {
                 (r, s) \<leftarrow> write_loop sz 0 current_cluster cluster_offset
                            (replicate (cluster_bytes s) 0) buffer s;
                 Some (r, file, s)
               })
        }
      })"

text \<open>The loop of a shrinking \<open>fat_truncate\<close>: \<open>n\<close> clusters are given up.\<close>

fun shrink_loop :: "nat \<Rightarrow> nat \<Rightarrow> fat \<Rightarrow> (nat \<times> fat) option" where
  "shrink_loop cluster 0 s = Some (cluster, s)"
| "shrink_loop cluster (Suc n) s = do {
     next_cluster \<leftarrow> table_get cluster s;
     s \<leftarrow> table_set cluster FAT16_FREE_CLUSTER s;
     shrink_loop (unat next_cluster) n s
   }"

definition fat_truncate :: "FileData \<Rightarrow> u32 \<Rightarrow> fat \<Rightarrow> (int \<times> FileData \<times> fat) option" where
  "fat_truncate file sz s =
     (let fe = file_entry file
      in if attr fe AND FAT_ATTR_DIRECTORY \<noteq> 0 then Some (- 1, file, s)
         else if sz = file_size fe then Some (0, file, s)
         else if cluster_bytes s = 0 then None
         else do {
           amount \<leftarrow> fat_get_cluster_amount fe s;
           let new_cluster_amount = unat sz div cluster_bytes s + 1;
           (ok, s) \<leftarrow>
             (if sz < file_size fe then do {
                (cluster, s) \<leftarrow> shrink_loop (unat (start_cluster fe)) (unat amount - new_cluster_amount) s;
                s \<leftarrow> table_set cluster FAT16_CLUSTER_CHAIN_END s;
                Some (True, s)
              } else do {
                (ok, s) \<leftarrow> fat_allocate_space (of_nat new_cluster_amount - amount) fe s;
                if \<not> ok \<or> \<not> kmalloc_ok s (unat (sz - file_size fe)) then Some (False, s)
                else do {
                  (r, fe, s) \<leftarrow> fat_write_with (\<lambda>_ _ _. None) (fe\<lparr>file_size := sz\<rparr>) (parent_entry file)
                                 sz 0 (replicate (unat (sz - file_size fe)) 0) s;
                  Some (True, s)
                }
              });
           if \<not> ok then Some (- 1, file, s)
           else do {
             let fe = fe\<lparr>file_size := sz\<rparr>;
             (ok, s) \<leftarrow> fat_update_dir_entry (dirent_bytes fe) (parent_entry file) fe s;
             Some (if ok then 0 else - 1, file\<lparr>file_entry := fe\<rparr>, s)
           }
         })"

definition fat_write ::
    "FAT16_DirEntry \<Rightarrow> FAT16_DirEntry \<Rightarrow> u32 \<Rightarrow> u32 \<Rightarrow> bytes \<Rightarrow> fat \<Rightarrow>
     (int \<times> FAT16_DirEntry \<times> fat) option" where
  "fat_write = fat_write_with fat_truncate"

section \<open>Reading\<close>

text \<open>The bytes of a file: the clusters of its chain one after the other.\<close>

definition chain_data :: "fat \<Rightarrow> nat list \<Rightarrow> bytes" where
  "chain_data s cs = concat (map (cluster_data s) cs)"

lemma chain_data_Cons [simp]: "chain_data s (c # cs) = cluster_data s c @ chain_data s cs"
  by (simp add: chain_data_def)

lemma length_chain_data: "fat_ok s t \<Longrightarrow> length (chain_data s cs) = cluster_bytes s * length cs"
  by (induction cs) (simp_all add: chain_data_def length_cluster_data)

lemma drop_chain_data:
  "fat_ok s t \<Longrightarrow> drop (cluster_bytes s * i) (chain_data s cs) = chain_data s (drop i cs)"
proof (induction i arbitrary: cs)
  case (Suc i)
  then show ?case by (cases cs) (simp_all add: length_cluster_data, simp add: chain_data_def)
qed simp

lemma cluster_bytes_bound: "cluster_bytes s < 2 ^ 32"
proof -
  have "unat (bytes_per_sector (fat16_fs s)) \<le> 65535" "unat (sectors_per_cluster (fat16_fs s)) \<le> 255"
    using unat_u16_lt[of "bytes_per_sector (fat16_fs s)"]
      unsigned_less[of "sectors_per_cluster (fat16_fs s)", where 'a = nat] by simp_all
  then have "cluster_bytes s \<le> 65535 * 255" unfolding cluster_bytes_def by (intro mult_le_mono)
  then show ?thesis by simp
qed

lemma unat_bytes_per_cluster: "unat (bytes_per_cluster s) = cluster_bytes s"
  using cluster_bytes_bound[of s] by (simp add: bytes_per_cluster_def unat_of_nat_u32)

lemma cluster_bytes_pos: "fat_ok s t \<Longrightarrow> 0 < cluster_bytes s"
  using fat_okD(2,3)[of s t] by (simp add: cluster_bytes_def word_less_nat_alt)

lemma bytes_per_cluster_nonzero: "fat_ok s t \<Longrightarrow> bytes_per_cluster s \<noteq> 0"
  using cluster_bytes_pos[of s t] unat_bytes_per_cluster[of s] by (metis less_irrefl unat_0)

text \<open>A chain inside the range of data clusters.\<close>

definition data_chain :: "u16 list \<Rightarrow> nat list \<Rightarrow> bool" where
  "data_chain t cs \<longleftrightarrow> is_chain t cs \<and> (\<forall>c \<in> set cs. 0 < c \<and> c < 0xFFF8)"

lemma data_chain_hd:
  assumes "data_chain t (c # cs)"
  shows "c < length t" "0 < c" "c < 0xFFF8" "unat (of_nat c :: u32) = c"
    "(of_nat c :: u32) < ucast FAT16_CLUSTER_CHAIN_END" "(of_nat c :: u32) \<noteq> 0"
proof -
  show c: "c < length t" "0 < c" "c < 0xFFF8"
    using assms is_chain_bound[of t "c # cs" c] by (auto simp: data_chain_def)
  then show u: "unat (of_nat c :: u32) = c" by (intro unat_of_nat_u32) simp
  show "(of_nat c :: u32) < ucast FAT16_CLUSTER_CHAIN_END"
    using c(3) u by (simp add: word_less_nat_alt FAT16_CLUSTER_CHAIN_END_def)
  show "(of_nat c :: u32) \<noteq> 0" using u c(2) by (metis less_irrefl unat_0)
qed

lemma data_chain_next:
  assumes "fat_table s = Some t" and "data_chain t (c # d # cs)"
  shows "table_get c s = Some (t ! c)" "(ucast (t ! c) :: u32) = of_nat d" "data_chain t (d # cs)"
proof -
  have "c < length t" using data_chain_hd(1)[OF assms(2)] .
  then show "table_get c s = Some (t ! c)" using table_get_ok[OF assms(1)] by simp
  have "unat (t ! c) = d" using assms(2) by (simp add: data_chain_def)
  then have "unat (ucast (t ! c) :: u32) = unat (of_nat d :: u32)"
    using unat_u16_lt[of "t ! c"] by (simp add: unat_ucast_16 unat_of_nat_u32)
  then show "(ucast (t ! c) :: u32) = of_nat d" by (simp only: word_unat_eq_iff)
  show "data_chain t (d # cs)" using assms(2) by (simp add: data_chain_def)
qed

lemma skip_clusters_chain:
  assumes "fat_table s = Some t" and "data_chain t cs" and "i < length cs"
  shows "skip_clusters b (of_nat (hd cs)) i s = Some (Some (of_nat (cs ! i)))"
  using assms(2,3)
proof (induction i arbitrary: cs)
  case 0
  then show ?case by (cases cs) auto
next
  case (Suc i)
  then obtain c d ds where cs: "cs = c # d # ds" by (cases cs; cases "tl cs") auto
  note h = data_chain_hd[OF Suc.prems(1)[unfolded cs]] and n = data_chain_next[OF assms(1) Suc.prems(1)[unfolded cs]]
  have "skip_clusters b (of_nat d) i s = Some (Some (of_nat ((d # ds) ! i)))"
    using Suc.IH[of "d # ds"] n(3) Suc.prems(2) by (simp add: cs)
  then show ?case using h n by (simp add: cs not_le)
qed

lemma copy_into_eq:
  assumes "at + n \<le> length dst" and "n \<le> length src"
  shows "copy_into dst at src n = Some (take at dst @ take n src @ drop (at + n) dst)"
  using assms memcpy_eq[of n "drop at dst" src] by (simp add: copy_into_def add.commute)

lemma read_loop_done: "\<not> br < sz \<Longrightarrow> read_loop sz br c co cb buf s = Some (sint br, buf)"
  by (subst read_loop.simps) simp

text \<open>One round of the loop: the part of the cluster that is wanted goes into the buffer.\<close>

lemma read_loop_round:
  assumes ok: "fat_ok s t" and dc: "data_chain t (c # cs)" and br: "br < sz" and co: "unat co < cluster_bytes s"
    and cbuf: "length cbuf = cluster_bytes s" and buf: "unat sz \<le> length buf"
  defines "n \<equiv> min (cluster_bytes s - unat co) (unat sz - unat br)"
  defines "buf' \<equiv> take (unat br) buf @ take n (drop (unat co) (cluster_data s c)) @ drop (unat br + n) buf"
  shows "unat (br + of_nat n) = unat br + n"
    and "read_loop sz br (of_nat c) co cbuf buf s =
      (if unat br + n < unat sz then do {
         v \<leftarrow> table_get c s;
         read_loop sz (br + of_nat n) (ucast v) 0 (cluster_data s c) buf' s }
       else Some (sint sz, buf'))"
proof -
  note h = data_chain_hd[OF dc]
  have rd: "fat_read_data_cluster (of_nat c) cbuf s = Some (0, cluster_data s c)"
    using h(3) cbuf by (intro fat_read_cluster[OF ok]) simp_all
  have n: "n \<le> unat sz - unat br" "unat br < unat sz" using br by (simp_all add: n_def word_less_nat_alt)
  then have un: "unat (of_nat n :: u32) = n" using unat_lt_u32[of sz] by (intro unat_of_nat_u32) simp
  show br': "unat (br + of_nat n) = unat br + n"
    using n un unat_lt_u32[of sz] by (simp add: unat_word_ariths(1))
  have "unat (bytes_per_cluster s - co) = cluster_bytes s - unat co" "unat (sz - br) = unat sz - unat br"
    using co br unat_bytes_per_cluster[of s] by (simp_all add: unat_sub word_le_nat_alt word_less_nat_alt)
  then have m: "min (bytes_per_cluster s - co) (sz - br) = of_nat n"
    unfolding word_unat_eq_iff un by (simp add: n_def min_def word_le_nat_alt)
  have cp: "copy_into buf (unat br) (drop (unat co) (cluster_data s c)) n = Some buf'"
    unfolding buf'_def using n buf length_cluster_data[OF ok, of c] by (intro copy_into_eq) (auto simp: n_def)
  have lt: "br + of_nat n < sz \<longleftrightarrow> unat br + n < unat sz" by (simp only: word_less_nat_alt br')
  have "read_loop sz (br + of_nat n) (of_nat c) 0 (cluster_data s c) buf' s = Some (sint sz, buf')"
    if "\<not> unat br + n < unat sz"
  proof -
    have "br + of_nat n = sz" using that n br' by (simp add: word_unat_eq_iff)
    then show ?thesis using read_loop_done[of sz sz] by simp
  qed
  then show "read_loop sz br (of_nat c) co cbuf buf s = (if unat br + n < unat sz then do {
         v \<leftarrow> table_get c s;
         read_loop sz (br + of_nat n) (ucast v) 0 (cluster_data s c) buf' s }
       else Some (sint sz, buf'))"
    using br h(4-6)
    by (subst read_loop.simps) (simp only: rd m un cp lt Let_def bind.bind_lunit prod.case simp_thms if_True if_False
        cong: if_cong)
qed

lemma read_loop_chain:
  assumes ok: "fat_ok s t" and "data_chain t cs" and "br < sz" and "unat co < cluster_bytes s"
    and "unat sz - unat br \<le> length (chain_data s cs) - unat co"
    and "length cbuf = cluster_bytes s" and "unat sz \<le> length buf"
  shows "read_loop sz br (of_nat (hd cs)) co cbuf buf s = Some (sint sz,
    take (unat br) buf @ take (unat sz - unat br) (drop (unat co) (chain_data s cs)) @ drop (unat sz) buf)"
  using assms(2-7)
proof (induction cs arbitrary: br co cbuf buf)
  case Nil
  then show ?case by (simp add: data_chain_def)
next
  case (Cons c cs)
  let ?cb = "cluster_bytes s" and ?data = "cluster_data s c"
  define n where "n = min (?cb - unat co) (unat sz - unat br)"
  define buf' where "buf' = take (unat br) buf @ take n (drop (unat co) ?data) @ drop (unat br + n) buf"
  note R = read_loop_round[OF ok Cons.prems(1-3,5,6), folded n_def, folded buf'_def]
  note ld = length_cluster_data[OF ok, of c]
  have br: "unat br < unat sz" using Cons.prems(2) by (simp add: word_less_nat_alt)
  show ?case
  proof (cases "unat br + n < unat sz")
    case False
    then have "n = unat sz - unat br" "unat br + n = unat sz" using br by (simp_all add: n_def)
    moreover have "n \<le> ?cb - unat co" by (simp add: n_def)
    ultimately show ?thesis using R(2) False ld by (simp add: buf'_def)
  next
    case True
    then have n: "n = ?cb - unat co" by (simp add: n_def)
    then have all: "take n (drop (unat co) ?data) = drop (unat co) ?data" "length (drop (unat co) ?data) = n"
      using ld by simp_all
    have "cs \<noteq> []" using True n Cons.prems(4) ld by (auto simp: chain_data_def)
    then obtain d ds where cs: "cs = d # ds" by (cases cs) auto
    note nx = data_chain_next[OF fat_okD(1)[OF ok] Cons.prems(1)[unfolded cs]]
    have lb: "length buf' = length buf" "take (unat br + n) buf' = take (unat br) buf @ drop (unat co) ?data"
      "drop (unat sz) buf' = drop (unat sz) buf"
      using True Cons.prems(6) all by (simp_all add: buf'_def)
    have "read_loop sz (br + of_nat n) (of_nat (hd cs)) 0 ?data buf' s = Some (sint sz,
        take (unat (br + of_nat n)) buf' @ take (unat sz - unat (br + of_nat n)) (drop (unat (0 :: u32)) (chain_data s cs)) @
        drop (unat sz) buf')"
      using nx(3) cs True R(1) ld lb(1) n Cons.prems(3,4,6) cluster_bytes_pos[OF ok]
      by (intro Cons.IH) (simp_all add: word_less_nat_alt)
    moreover have "take (unat sz - unat br) (drop (unat co) (chain_data s (c # cs))) =
        drop (unat co) ?data @ take (unat sz - (unat br + n)) (chain_data s cs)"
      using ld Cons.prems(3) all(2) True by simp
    ultimately show ?thesis
      using R(2) True nx(1,2) cs lb(2,3) R(1) by (simp del: chain_data_Cons)
  qed
qed

lemma sint_small:
  assumes "unat (w :: u32) < 2 ^ 31"
  shows "sint w = int (unat w)"
proof -
  have u: "uint w = int (unat w)" by simp
  have "sint w = signed_take_bit 31 (int (unat w))" by (simp only: sint_uint u) simp
  also have "\<dots> = int (unat w)"
  proof (rule signed_take_bit_int_eq_self)
    show "- (2 ^ 31) \<le> int (unat w)" by (rule order_trans[of _ 0]) simp_all
    have "int (unat w) < int (2 ^ 31)" using assms by (simp only: of_nat_less_iff)
    then show "int (unat w) < 2 ^ 31" by simp
  qed
  finally show ?thesis .
qed

text \<open>The chain from the cluster that holds an offset on.\<close>

lemma chain_at_offset:
  assumes ok: "fat_ok s t" and ch: "data_chain t cs" and lt: "n < cluster_bytes s * length cs"
  defines "i \<equiv> n div cluster_bytes s"
  shows "i < length cs" and "data_chain t (drop i cs)" and "hd (drop i cs) = cs ! i"
    and "drop n (chain_data s cs) = drop (n mod cluster_bytes s) (chain_data s (drop i cs))"
proof -
  show i: "i < length cs" using lt by (simp add: i_def less_mult_imp_div_less mult.commute)
  then show "hd (drop i cs) = cs ! i" by (simp add: hd_drop_conv_nth)
  have "is_chain t (drop i cs)"
    using ch is_chain_suffix[of t "take i cs" "cs ! i" "drop (Suc i) cs"] i
    by (simp add: data_chain_def id_take_nth_drop[symmetric] Cons_nth_drop_Suc)
  then show "data_chain t (drop i cs)" using ch by (auto simp: data_chain_def dest: in_set_dropD)
  show "drop n (chain_data s cs) = drop (n mod cluster_bytes s) (chain_data s (drop i cs))"
    unfolding i_def using drop_chain_data[OF ok, of _ cs] by (metis add.commute drop_drop mult_div_mod_eq)
qed

lemma fat_read_chain:
  assumes ok: "fat_ok s t" and ch: "data_chain t cs" and st: "unat (start_cluster file) = hd cs"
    and at: "attr file AND FAT_ATTR_DIRECTORY = 0"
    and fs: "unat (file_size file) \<le> cluster_bytes s * length cs" and off: "offset < file_size file"
    and ov: "unat offset + unat sz < 2 ^ 32"
    and n: "n = min (unat sz) (unat (file_size file) - unat offset)" "n \<le> length buffer" "n < 2 ^ 31"
  shows "fat_read file offset sz buffer s =
    Some (int n, take n (drop (unat offset) (chain_data s cs)) @ drop n buffer)"
proof -
  let ?cb = "cluster_bytes s" and ?i = "unat offset div cluster_bytes s" and ?co = "offset mod bytes_per_cluster s"
  define m where "m = (if file_size file < offset + sz then file_size file - offset else sz)"
  have uo: "unat (offset + sz) = unat offset + unat sz" using ov by (simp add: unat_word_ariths)
  have m: "unat m = n"
    using off uo n(1) by (auto simp: m_def unat_sub word_le_nat_alt word_less_nat_alt)
  have i: "unat (offset div bytes_per_cluster s) = ?i" "unat ?co = unat offset mod ?cb"
    by (simp_all add: unat_div unat_mod unat_bytes_per_cluster)
  have lt: "unat offset < ?cb * length cs" using off fs by (simp add: word_less_nat_alt)
  note C = chain_at_offset[OF ok ch lt]
  let ?ds = "drop ?i cs"
  have s0: "(ucast (start_cluster file) :: u32) = of_nat (hd cs)"
    using st unat_u16_lt[of "start_cluster file"]
    by (simp add: word_unat_eq_iff unat_ucast_16 unat_of_nat_u32)
  have "\<not> file_size file \<le> offset" using off by (simp add: not_le)
  then have eq: "fat_read file offset sz buffer s =
      read_loop m 0 (of_nat (hd ?ds)) ?co (replicate ?cb 0) buffer s"
    using at bytes_per_cluster_nonzero[OF ok] fat_okD(6)[OF ok]
      skip_clusters_chain[OF fat_okD(1)[OF ok] ch C(1), of True]
    by (simp add: fat_read_def s0 i C(3) Let_def flip: m_def)
  show ?thesis
  proof (cases "0 < m")
    case True
    have "n \<le> length (drop (unat offset) (chain_data s cs))"
      using fs n(1) by (simp add: length_chain_data[OF ok])
    then have "n \<le> length (chain_data s ?ds) - unat ?co" unfolding C(4) i(2) by simp
    then have "read_loop m 0 (of_nat (hd ?ds)) ?co (replicate ?cb 0) buffer s = Some (sint m,
        take (unat (0 :: u32)) buffer @ take (unat m - unat (0 :: u32)) (drop (unat ?co) (chain_data s ?ds)) @
        drop (unat m) buffer)"
      using True m n(2) cluster_bytes_pos[OF ok] by (intro read_loop_chain[OF ok C(2)]) (simp_all add: i)
    then show ?thesis using eq m n(3) sint_small[of m] by (simp add: i C(4))
  next
    case False
    then have "m = 0" using word_neq_0_conv by blast
    then show ?thesis using eq m read_loop_done[of 0 0] by auto
  qed
qed

lemma shrink_loop_chain:
  assumes "fat_table s = Some t" and "is_chain t cs" and "n < length cs"
  shows "shrink_loop (hd cs) n s = Some (cs ! n, s\<lparr>fat_table := Some (fold (\<lambda>c t. t[c := 0]) (take n cs) t)\<rparr>)"
  using assms
proof (induction n arbitrary: s t cs)
  case 0
  then show ?case by (cases cs) auto
next
  case (Suc n)
  then obtain c d ds where cs: "cs = c # d # ds" by (cases cs; cases "tl cs") auto
  have c: "c < length t" using is_chain_bound[OF Suc.prems(2)] cs by simp
  have cn: "c \<notin> set (d # ds)" using is_chain_distinct[OF Suc.prems(2)] cs by simp
  have ch: "is_chain (t[c := 0]) (d # ds)"
  proof (rule is_chain_cong)
    show "is_chain t (d # ds)" using Suc.prems(2) cs by simp
    fix x assume "x \<in> set (d # ds)"
    with cn have "c \<noteq> x" by blast
    then show "t[c := 0] ! x = t ! x" by (rule nth_list_update_neq)
  qed simp
  have nx: "unat (t ! c) = d" using Suc.prems(2) cs by simp
  have "shrink_loop d n (s\<lparr>fat_table := Some (t[c := 0])\<rparr>) =
      Some ((d # ds) ! n, s\<lparr>fat_table := Some (fold (\<lambda>c t. t[c := 0]) (take n (d # ds)) (t[c := 0]))\<rparr>)"
    using Suc.IH[of "s\<lparr>fat_table := Some (t[c := 0])\<rparr>" "t[c := 0]" "d # ds"] ch Suc.prems(3) cs by simp
  then show ?case
    using Suc.prems(1) c nx
    by (simp add: cs table_get_def table_set_def arr_get_def arr_set_def FAT16_FREE_CLUSTER_def)
qed

lemma fold_clear: "c < length t \<Longrightarrow> c \<in> set cs \<or> t ! c = 0 \<Longrightarrow> fold (\<lambda>c t. t[c := 0]) cs t ! c = 0"
proof (induction cs arbitrary: t)
  case (Cons d cs)
  then show ?case by (cases "d = c") (auto simp: nth_list_update)
qed simp

lemma length_fold_clear [simp]: "length (fold (\<lambda>c t. t[c := 0]) cs t) = length t"
  by (induction cs arbitrary: t) auto

text \<open>Replacing a directory entry does not touch the table, in memory or before the data area of the disk.\<close>

definition keeps_table :: "fat \<Rightarrow> fat \<Rightarrow> bool" where
  "keeps_table s s' \<longleftrightarrow> fat_table s' = fat_table s \<and> fat16_fs s' = fat16_fs s \<and>
     (\<forall>i < unat (root_dir_start (fat16_fs s)). sectors (disk s') i = sectors (disk s) i)"

lemma keeps_table_refl [simp]: "keeps_table s s"
  by (simp add: keeps_table_def)

lemma keeps_table_trans: "keeps_table s s' \<Longrightarrow> keeps_table s' s'' \<Longrightarrow> keeps_table s s''"
  by (simp add: keeps_table_def)

lemma write_cluster_keeps_table:
  assumes "fat_write_data_cluster c buf s = Some (r, s')" and "unat c < 65536"
    and "unat (root_dir_start (fat16_fs s)) < 2 ^ 27"
  shows "keeps_table s s'"
proof -
  let ?k = "unat (sectors_per_cluster (fat16_fs s))"
  have "?k \<le> 255" using unsigned_less[of "sectors_per_cluster (fat16_fs s)", where 'a = nat] by simp
  then have "unat c * ?k \<le> 65535 * 255" using assms(2) by (intro mult_le_mono) simp_all
  then have "unat c * ?k + unat (root_dir_start (fat16_fs s)) < 2 ^ 32" using assms(3) by simp
  then have "unat (c * ucast (sectors_per_cluster (fat16_fs s)) + root_dir_start (fat16_fs s)) =
      unat c * ?k + unat (root_dir_start (fat16_fs s))"
    by (simp add: unat_word_ariths unat_ucast_8)
  then show ?thesis using assms(1)
    by (auto simp: fat_write_data_cluster_def disk_write_def keeps_table_def split: bind_splits if_splits)
qed

lemma get_ith_cluster_bound:
  "get_ith_cluster c i s = Some v \<Longrightarrow> c < 65536 \<Longrightarrow> v = - 1 \<or> 0 \<le> v \<and> v < 65536"
proof (induction i arbitrary: c)
  case (Suc i)
  then show ?case using unat_u16_lt by (force split: bind_splits if_splits)
qed simp

lemma dir_walk_keeps_table:
  assumes w: "dir_walk start i dir body err s = Some (x, s')" and "start < 65536"
    and "unat (root_dir_start (fat16_fs s)) < 2 ^ 27"
    and body: "\<And>c d s x s'. body c d s = Some (x, s') \<Longrightarrow> unat c < 65536 \<Longrightarrow>
      unat (root_dir_start (fat16_fs s)) < 2 ^ 27 \<Longrightarrow> keeps_table s s'"
  shows "keeps_table s s'"
proof -
  let ?b = "\<lambda>body :: u32 \<Rightarrow> bytes \<Rightarrow> fat \<Rightarrow> ('a option \<times> fat) option. \<forall>c d s x s'. body c d s = Some (x, s') \<longrightarrow> unat c < 65536 \<longrightarrow>
      unat (root_dir_start (fat16_fs s)) < 2 ^ 27 \<longrightarrow> keeps_table s s'"
  let ?P = "\<lambda>start i dir body err s y. start < 65536 \<longrightarrow> unat (root_dir_start (fat16_fs s)) < 2 ^ 27 \<longrightarrow>
      ?b body \<longrightarrow> keeps_table s (snd y)"
  have "?P start i dir body err s (x, s')"
  proof (rule dir_walk.raw_induct[where P = ?P, OF _ w], intro impI, goal_cases)
    case (1 f start i dir body err s y)
    then obtain c where c: "get_ith_cluster start i s = Some c" by (auto split: bind_splits)
    show ?case
    proof (cases "c = - 1")
      case True
      then show ?thesis using 1(2) c by auto
    next
      case False
      then obtain k where k: "c = int k" "k < 65536"
        using get_ith_cluster_bound[OF c 1(3)] by (cases c rule: int_cases) auto
      then have b: "unat (word_of_int c :: u32) < 65536" using unat_of_nat_u32[of k] by simp
      have body: "keeps_table s s''" if "body (word_of_int c) d s = Some (x, s'')" for d x s''
        using 1(4,5) b that by blast
      have step: "keeps_table s (snd y)" if "body (word_of_int c) d s = Some (None, s'')"
        "f start (Suc i) d body err s'' = Some y" for d s''
      proof -
        have k: "keeps_table s s''" by (rule body[OF that(1)])
        then have "unat (root_dir_start (fat16_fs s'')) < 2 ^ 27" using 1(4) by (simp add: keeps_table_def)
        then have "keeps_table s'' (snd y)" using 1(1)[OF that(2)] 1(3,5) by blast
        with k show ?thesis by (rule keeps_table_trans)
      qed
      show ?thesis using 1(2) c False
        by (auto split: bind_splits if_splits option.splits) (rule step, assumption+, rule body, assumption)
    qed
  qed
  with assms(2,3) body show ?thesis by simp
qed

lemma fat_update_dir_entry_keeps_table:
  assumes u: "fat_update_dir_entry nm cur e s = Some (r, s')"
    and root: "unat (root_dir_start (fat16_fs s)) < 2 ^ 27"
  shows "keeps_table s s'"
proof (cases "fat_table s = None")
  case False
  have start: "unat (start_cluster cur) < 65536" using unat_u16_lt .
  from False u obtain dir x where w: "dir_walk (unat (start_cluster cur)) 0 dir
          (\<lambda>cluster_num dir s. do {
             k \<leftarrow> scan_entries (\<lambda>p. strcmp p nm) 0 (entries_per_cluster s) dir;
             (case k of
                None \<Rightarrow> Some (None, s)
              | Some k \<Rightarrow> do {
                  (r, s) \<leftarrow> fat_write_data_cluster cluster_num (put_entry k (dirent_bytes e) dir) s;
                  Some (Some (r = 0), s)
                })
           }) False s = Some (x, s')"
    unfolding fat_update_dir_entry_def by (auto split: bind_splits)
  show ?thesis
    by (rule dir_walk_keeps_table[OF w start root])
      (auto split: bind_splits option.splits intro: write_cluster_keeps_table)
qed (use u in \<open>simp add: fat_update_dir_entry_def\<close>)

definition shrunk :: "nat list \<Rightarrow> u16 list \<Rightarrow> u16 list" where
  "shrunk cs t = (fold (\<lambda>c t. t[c := 0]) (take (length cs - 1) cs) t)
     [cs ! (length cs - 1) := FAT16_CLUSTER_CHAIN_END]"

lemma fat_truncate_shrink_eq:
  assumes ok: "fat_ok s t" and ch: "is_chain t cs" and "2 \<le> length cs" and "length cs < 2 ^ 32"
    and "unat (start_cluster (file_entry file)) = hd cs"
    and "attr (file_entry file) AND FAT_ATTR_DIRECTORY = 0"
    and "sz < file_size (file_entry file)" and "unat sz < cluster_bytes s"
  defines "fe \<equiv> (file_entry file)\<lparr>file_size := sz\<rparr>"
  shows "fat_truncate file sz s = do {
      (ok, s) \<leftarrow> fat_update_dir_entry (dirent_bytes fe) (parent_entry file) fe
        (s\<lparr>fat_table := Some (shrunk cs t)\<rparr>);
      Some (if ok then 0 else - 1, file\<lparr>file_entry := fe\<rparr>, s) }"
proof -
  let ?fe = "file_entry file" and ?l = "cs ! (length cs - 1)"
  define t1 where "t1 = fold (\<lambda>c t. t[c := 0]) (take (length cs - 1) cs) t"
  have amount: "fat_get_cluster_amount ?fe s = Some (of_nat (length cs))"
    using cluster_amount_chain[OF fat_okD(1)[OF ok] ch, of 0] assms(5) by (simp add: fat_get_cluster_amount_def)
  have ua: "unat (of_nat (length cs) :: u32) = length cs" using assms(4) by (rule unat_of_nat_u32)
  have sl: "shrink_loop (hd cs) (length cs - 1) s = Some (?l, s\<lparr>fat_table := Some t1\<rparr>)"
    using shrink_loop_chain[OF fat_okD(1)[OF ok] ch, of "length cs - 1"] assms(3) by (simp add: t1_def)
  have l: "?l < length t" using assms(3) by (intro is_chain_bound[OF ch] nth_mem) simp
  have ts: "table_set ?l FAT16_CLUSTER_CHAIN_END (s\<lparr>fat_table := Some t1\<rparr>) =
      Some (s\<lparr>fat_table := Some (shrunk cs t)\<rparr>)"
    using l by (simp add: table_set_def arr_set_def t1_def shrunk_def)
  have "unat sz div cluster_bytes s + 1 = 1" "sz \<noteq> file_size ?fe" using assms(7,8) by auto
  then show ?thesis
    using assms(5-7) amount ua sl ts cluster_bytes_pos[OF ok]
    by (simp add: fat_truncate_def fe_def Let_def)
qed

lemma shrunk_head:
  assumes ch: "is_chain t cs" and "2 \<le> length cs"
  shows "shrunk cs t ! hd cs = 0" and "length (shrunk cs t) = length t"
proof -
  have "cs \<noteq> []" using assms(2) by auto
  then have h0: "hd cs = cs ! 0" by (rule hd_conv_nth)
  then have "cs ! (length cs - 1) \<noteq> hd cs"
    using nth_eq_iff_index_eq[OF is_chain_distinct[OF ch], of "length cs - 1" 0] assms(2) \<open>cs \<noteq> []\<close> by auto
  moreover have "hd cs < length t" using is_chain_bound[OF ch] \<open>cs \<noteq> []\<close> by simp
  moreover have "hd cs \<in> set (take (length cs - 1) cs)"
    using assms(2) h0 by (auto simp: in_set_conv_nth intro!: exI[of _ 0])
  ultimately show "shrunk cs t ! hd cs = 0" by (simp add: shrunk_def fold_clear)
  show "length (shrunk cs t) = length t" by (simp add: shrunk_def)
qed

section \<open>Properties\<close>

text \<open>C3. \<open>fat_read\<close> reads the file: on a mounted file system, for a file whose size fits the clusters of
  its chain, with an offset inside the file and no wrap-around of offset plus size, it
  returns the number of bytes that are left up to the requested size, the buffer starts
  with exactly those bytes of the file from the offset on, and the rest of it is untouched.\<close>

theorem fat_read_reads:
  assumes "fat_ok s t" and "data_chain t cs" and "unat (start_cluster file) = hd cs"
    and "attr file AND FAT_ATTR_DIRECTORY = 0"
    and "unat (file_size file) \<le> cluster_bytes s * length cs" and "offset < file_size file"
    and "unat offset + unat sz < 2 ^ 32"
    and "n = min (unat sz) (unat (file_size file) - unat offset)" and "n \<le> length buffer" and "n < 2 ^ 31"
  shows "fat_read file offset sz buffer s =
    Some (int n, take n (drop (unat offset) (chain_data s cs)) @ drop n buffer)"
  using assms by (rule fat_read_chain)

lemma data_chain_example: "data_chain table_example [2, 3]"
  using fat_example_ok(3) by (simp add: data_chain_def)

lemma cluster_bytes_example: "cluster_bytes fat_example = 512"
  by (simp add: cluster_bytes_def fat_example_def)

theorem fat_read_reads_witness:
  "fat_read entry_example 690 20 (replicate 20 9) fat_example =
    Some (int 10, take 10 (drop (unat (690 :: u32)) (chain_data fat_example [2, 3])) @ drop 10 (replicate 20 9))"
proof (rule fat_read_reads[OF fat_example_ok(1) data_chain_example])
  show "attr entry_example AND FAT_ATTR_DIRECTORY = 0"
    by (simp add: entry_example_def zero_entry_def dirent_of_def)
qed (simp_all add: entry_example_def cluster_bytes_example)


text \<open>C36. Shrinking a file with \<open>fat_truncate\<close> keeps the wrong clusters: the loop frees the clusters at
  the head of the chain, and the entry still starts at the first of them. After shrinking a file of
  two or more clusters to a size in the first cluster, with the directory update going through, the
  cluster that the file's entry starts at is marked free in the table in memory, while every copy of
  the table on disk is left as it was.\<close>

theorem fat_truncate_shrink_loses_head:
  assumes "fat_ok s t" and "data_chain t cs" and "2 \<le> length cs" and "length cs < 2 ^ 32"
    and "unat (start_cluster (file_entry file)) = hd cs"
    and "attr (file_entry file) AND FAT_ATTR_DIRECTORY = 0"
    and "sz < file_size (file_entry file)" and "unat sz < cluster_bytes s"
    and "fat_truncate file sz s = Some (0, file', s')"
  shows "start_cluster (file_entry file') = start_cluster (file_entry file) \<and>
    (\<exists>t'. fat_table s' = Some t' \<and> t' ! hd cs = 0) \<and>
    (\<forall>j < unat (num_fats (fat16_fs s)) * unat (sectors_per_fat (fat16_fs s)).
       sectors (disk s') (unat (reserved_sectors (fat16_fs s)) + j) =
       sectors (disk s) (unat (reserved_sectors (fat16_fs s)) + j))"
proof -
  let ?fe = "(file_entry file)\<lparr>file_size := sz\<rparr>"
  have ch: "is_chain t cs" using assms(2) by (simp add: data_chain_def)
  have f: "file' = file\<lparr>file_entry := ?fe\<rparr>"
    and "\<exists>r. fat_update_dir_entry (dirent_bytes ?fe) (parent_entry file) ?fe
      (s\<lparr>fat_table := Some (shrunk cs t)\<rparr>) = Some (r, s')"
    using assms(9) fat_truncate_shrink_eq[OF assms(1) ch assms(3-8)] by (auto split: bind_splits)
  then have "keeps_table (s\<lparr>fat_table := Some (shrunk cs t)\<rparr>) s'"
    using fat_update_dir_entry_keeps_table fat_okD(8)[OF assms(1)] by fastforce
  then have "fat_table s' = Some (shrunk cs t)"
    "\<forall>i < unat (root_dir_start (fat16_fs s)). sectors (disk s') i = sectors (disk s) i"
    by (simp_all add: keeps_table_def)
  then show ?thesis using f shrunk_head(1)[OF ch assms(3)] assms(1) by (auto simp: fat_ok_def)
qed

text \<open>The small disk with the file listed in its root directory.\<close>

definition fat_dir_example :: fat where
  "fat_dir_example = fat_example\<lparr>disk := (disk fat_example)\<lparr>sectors := (sectors (disk fat_example))
     (2 := dirent_bytes entry_example @ replicate 480 0)\<rparr>\<rparr>"

definition file_example :: FileData where
  "file_example = \<lparr>file_entry = entry_example, parent_entry = zero_entry\<rparr>"

lemma entry_example_fields:
  "name entry_example = [0x46, 0x2E, 0x54, 0, 0, 0, 0, 0, 0, 0, 0]" "attr entry_example = 0"
  "start_cluster entry_example = 2" "file_size entry_example = 700"
  by (simp_all add: entry_example_def zero_entry_def dirent_of_def)

lemma fat_dir_example_ok: "fat_ok fat_dir_example table_example"
  using fat_example_ok(1)
  by (auto simp: fat_ok_def fat_dir_example_def hdd_ok_def length_dirent_bytes entry_example_fields)

lemma zero_entry_start: "start_cluster zero_entry = 0"
  by (simp add: zero_entry_def dirent_of_def le16_word_def)

lemma root_cluster_example:
  "fat_ok s table_example \<Longrightarrow> disk s = disk fat_dir_example \<Longrightarrow> fat16_fs s = fat16_fs fat_dir_example \<Longrightarrow>
    cluster_data s 0 = dirent_bytes entry_example @ replicate 480 0"
  by (simp add: cluster_data_def cluster_sector_def fat_dir_example_def fat_example_def)

lemma truncate_example: "\<exists>file' s'. fat_truncate file_example 10 fat_dir_example = Some (0, file', s')"
proof -
  let ?s = "fat_dir_example\<lparr>fat_table := Some (shrunk [2, 3] table_example)\<rparr>"
  let ?fe = "entry_example\<lparr>file_size := 10\<rparr>"
  let ?t = "shrunk [2, 3] table_example"
  have ok: "fat_ok ?s ?t"
    using fat_dir_example_ok shrunk_head(2)[OF fat_example_ok(3)] by (simp add: fat_ok_def)
  have cd: "cluster_data ?s 0 = dirent_bytes entry_example @ replicate 480 0"
    by (simp add: cluster_data_def cluster_sector_def fat_dir_example_def fat_example_def)
  have cb: "cluster_bytes ?s = 512" by (simp add: cluster_bytes_def fat_dir_example_def fat_example_def)
  have rd: "fat_read_data_cluster 0 (replicate 512 0) ?s = Some (0, dirent_bytes entry_example @ replicate 480 0)"
    using fat_read_cluster[OF ok, of 0 "replicate 512 0"] cb cd by simp
  have cmp: "strcmp (dirent_bytes entry_example @ replicate 480 0) (dirent_bytes ?fe) = Some 0"
    by (simp add: dirent_bytes_def entry_example_fields)
  have ep: "entries_per_cluster ?s = Suc 15"
    by (simp add: entries_per_cluster_def fat_dir_example_def fat_example_def)
  have sc: "scan_entries (\<lambda>p. strcmp p (dirent_bytes ?fe)) 0 (entries_per_cluster ?s)
      (dirent_bytes entry_example @ replicate 480 0) = Some (Some 0)"
    unfolding ep scan_entries.simps using cmp by simp
  have lb: "length (put_entry 0 (dirent_bytes ?fe) (dirent_bytes entry_example @ replicate 480 0)) = 512"
    by (simp add: put_entry_def length_dirent_bytes entry_example_fields)
  define b where "b = put_entry 0 (dirent_bytes ?fe) (dirent_bytes entry_example @ replicate 480 0)"
  have c0: "(0 :: nat) < 65536" by simp
  have "length b = cluster_bytes ?s" using lb cb by (simp add: b_def)
  then have "\<exists>d. fat_write_data_cluster (of_nat 0) b ?s = Some (0, ?s\<lparr>disk := d\<rparr>)"
    by (rule fat_write_cluster[OF ok c0]) (rule exI)
  then obtain d where "fat_write_data_cluster (of_nat 0) b ?s = Some (0, ?s\<lparr>disk := d\<rparr>)" ..
  then have d: "fat_write_data_cluster 0 b ?s = Some (0, ?s\<lparr>disk := d\<rparr>)" by simp
  define u where "u = ?s"
  have u: "fat_table u = Some ?t" "kmalloc_ok u 512" "cluster_bytes u = 512"
    using fat_okD(1,6)[OF ok] cb by (simp_all only: u_def)
  note facts = rd[folded u_def] sc[folded u_def] d[folded u_def]
  let ?body = "\<lambda>cluster_num dir s. do {
      k \<leftarrow> scan_entries (\<lambda>p. strcmp p (dirent_bytes ?fe)) 0 (entries_per_cluster s) dir;
      (case k of None \<Rightarrow> Some (None, s)
       | Some k \<Rightarrow> do { (r, s) \<leftarrow> fat_write_data_cluster cluster_num (put_entry k (dirent_bytes ?fe) dir) s;
                         Some (Some (r = 0), s) }) }"
  have "dir_walk 0 0 (replicate 512 0) ?body False u = Some (Some True, u\<lparr>disk := d\<rparr>)"
    by (subst dir_walk.simps) (simp add: facts flip: b_def)
  then have "fat_update_dir_entry (dirent_bytes ?fe) zero_entry ?fe u = Some (True, u\<lparr>disk := d\<rparr>)"
    using u by (simp add: fat_update_dir_entry_def dir_buffer_def zero_entry_start)
  then have "fat_update_dir_entry (dirent_bytes ?fe) zero_entry ?fe ?s = Some (True, u\<lparr>disk := d\<rparr>)"
    by (simp only: u_def)
  moreover have "fat_truncate file_example 10 fat_dir_example = do {
      (ok, s) \<leftarrow> fat_update_dir_entry (dirent_bytes ?fe) zero_entry ?fe ?s;
      Some (if ok then 0 else - 1, file_example\<lparr>file_entry := ?fe\<rparr>, s) }"
    using fat_truncate_shrink_eq[OF fat_dir_example_ok fat_example_ok(3), of file_example 10] cb
    by (simp add: file_example_def entry_example_fields)
  ultimately show ?thesis by simp
qed

theorem fat_truncate_shrink_loses_head_witness:
  "\<exists>file' s'. fat_truncate file_example 10 fat_dir_example = Some (0, file', s') \<and>
    start_cluster (file_entry file') = start_cluster (file_entry file_example) \<and>
    (\<exists>t'. fat_table s' = Some t' \<and> t' ! hd [2, 3] = 0) \<and>
    (\<forall>j < unat (num_fats (fat16_fs fat_dir_example)) * unat (sectors_per_fat (fat16_fs fat_dir_example)).
       sectors (disk s') (unat (reserved_sectors (fat16_fs fat_dir_example)) + j) =
       sectors (disk fat_dir_example) (unat (reserved_sectors (fat16_fs fat_dir_example)) + j))"
proof -
  obtain file' s' where f: "fat_truncate file_example 10 fat_dir_example = Some (0, file', s')"
    using truncate_example by blast
  have cb: "cluster_bytes fat_dir_example = 512" by (simp add: cluster_bytes_def fat_dir_example_def fat_example_def)
  have "start_cluster (file_entry file') = start_cluster (file_entry file_example) \<and>
      (\<exists>t'. fat_table s' = Some t' \<and> t' ! hd [2, 3] = 0) \<and>
    (\<forall>j < unat (num_fats (fat16_fs fat_dir_example)) * unat (sectors_per_fat (fat16_fs fat_dir_example)).
       sectors (disk s') (unat (reserved_sectors (fat16_fs fat_dir_example)) + j) =
       sectors (disk fat_dir_example) (unat (reserved_sectors (fat16_fs fat_dir_example)) + j))"
    using f
    by (intro fat_truncate_shrink_loses_head[OF fat_dir_example_ok data_chain_example])
      (simp_all add: file_example_def entry_example_fields cb)
  with f show ?thesis by blast
qed

end
