(* ===== verification/Vga.thy ===== *)
theory Vga
  imports LibC
begin

text \<open>
  The text screen, \<open>drivers/vga/vga.h\<close> and \<open>vga.c\<close>.

  The state has the 80 by 25 cells that \<open>vga_buffer\<close> points to, the cursor
  (\<open>vga_curr_column\<close>, \<open>vga_curr_row\<close>, 16-bit as in the code) and the bytes written to the
  ports of the display controller, the latest first. A cell outside the screen is \<open>None\<close>. The
  loops over the columns and rows count down the number of iterations that are left.
\<close>

section \<open>State and screen memory\<close>

record vga_char =
  ascii_code :: u8
  color :: u8

record vga =
  vga_buffer :: "vga_char list"
  vga_curr_column :: u16
  vga_curr_row :: u16
  port_writes :: "(u16 \<times> u8) list"

definition screen_width :: nat where "screen_width = 80"
definition screen_height :: nat where "screen_height = 25"

definition VGA_COLOR_BLACK :: u8 where "VGA_COLOR_BLACK = 0x0"
definition VGA_COLOR_RED :: u8 where "VGA_COLOR_RED = 0x4"
definition VGA_COLOR_PINK :: u8 where "VGA_COLOR_PINK = 0xD"
definition VGA_COLOR_WHITE :: u8 where "VGA_COLOR_WHITE = 0xF"

definition emptyChar :: vga_char where
  "emptyChar = \<lparr>ascii_code = 0x20, color = VGA_COLOR_WHITE\<rparr>"

definition vga_store :: "nat \<Rightarrow> vga_char \<Rightarrow> vga \<Rightarrow> vga option" where
  "vga_store i c s = do {
     b \<leftarrow> arr_set (vga_buffer s) i c;
     Some (s\<lparr>vga_buffer := b\<rparr>)
   }"

fun fill_row :: "nat \<Rightarrow> nat \<Rightarrow> nat \<Rightarrow> vga \<Rightarrow> vga option" where
  "fill_row row col 0 s = Some s"
| "fill_row row col (Suc n) s = do {
     s \<leftarrow> vga_store (row * screen_width + col) emptyChar s;
     fill_row row (Suc col) n s
   }"

fun fill_rows :: "nat \<Rightarrow> nat \<Rightarrow> vga \<Rightarrow> vga option" where
  "fill_rows row 0 s = Some s"
| "fill_rows row (Suc n) s = do {
     s \<leftarrow> fill_row row 0 screen_width s;
     fill_rows (Suc row) n s
   }"

definition vga_init :: "vga \<Rightarrow> vga option" where
  "vga_init s = do {
     s \<leftarrow> fill_rows 0 screen_height s;
     Some (s\<lparr>vga_curr_column := 0, vga_curr_row := 0\<rparr>)
   }"

fun copy_row :: "nat \<Rightarrow> nat \<Rightarrow> nat \<Rightarrow> vga \<Rightarrow> vga option" where
  "copy_row row col 0 s = Some s"
| "copy_row row col (Suc n) s = do {
     c \<leftarrow> arr_get (vga_buffer s) (row * screen_width + col);
     s \<leftarrow> vga_store ((row - 1) * screen_width + col) c s;
     copy_row row (Suc col) n s
   }"

fun copy_rows :: "nat \<Rightarrow> nat \<Rightarrow> vga \<Rightarrow> vga option" where
  "copy_rows row 0 s = Some s"
| "copy_rows row (Suc n) s = do {
     s \<leftarrow> copy_row row 0 screen_width s;
     copy_rows (Suc row) n s
   }"

definition vga_scroll :: "vga \<Rightarrow> vga option" where
  "vga_scroll s = do {
     s \<leftarrow> copy_rows 1 (screen_height - 1) s;
     fill_row (screen_height - 1) 0 screen_width s
   }"

definition vga_line_down :: "vga \<Rightarrow> vga option" where
  "vga_line_down s =
     (let s = s\<lparr>vga_curr_column := 0\<rparr>
      in if unat (vga_curr_row s) = screen_height - 1 then vga_scroll s
         else Some (s\<lparr>vga_curr_row := vga_curr_row s + 1\<rparr>))"

section \<open>Cursor\<close>

definition vga_out :: "u16 \<Rightarrow> u8 \<Rightarrow> vga \<Rightarrow> vga" where
  "vga_out port v s = s\<lparr>port_writes := (port, v) # port_writes s\<rparr>"

definition move_cursor :: "u16 \<Rightarrow> u16 \<Rightarrow> vga \<Rightarrow> vga" where
  "move_cursor x y s =
     (let pos = y * 80 + x
      in vga_out 0x3D5 (ucast (drop_bit 8 pos AND 0xFF))
          (vga_out 0x3D4 0x0E
            (vga_out 0x3D5 (ucast (pos AND 0xFF))
              (vga_out 0x3D4 0x0F s))))"

definition update_cursor :: "vga \<Rightarrow> vga" where
  "update_cursor s = move_cursor (vga_curr_column s) (vga_curr_row s) s"

section \<open>Characters and strings\<close>

definition vga_pos :: "vga \<Rightarrow> nat" where
  "vga_pos s = unat (vga_curr_column s) + unat (vga_curr_row s) * screen_width"

definition vga_del_char :: "vga \<Rightarrow> vga option" where
  "vga_del_char s =
     (let s = (if vga_curr_column s = 0
               then (if 0 < vga_curr_row s
                     then s\<lparr>vga_curr_row := vga_curr_row s - 1, vga_curr_column := of_nat screen_width - 1\<rparr>
                     else s)
               else s\<lparr>vga_curr_column := vga_curr_column s - 1\<rparr>)
      in do {
        s \<leftarrow> vga_store (vga_pos s) emptyChar s;
        Some (update_cursor s)
      })"

definition vga_putchar_colored :: "u8 \<Rightarrow> u8 \<Rightarrow> u8 \<Rightarrow> vga \<Rightarrow> vga option" where
  "vga_putchar_colored c bg ch_color s =
     (if c = 0x0A then do { s \<leftarrow> vga_line_down s; Some (update_cursor s) }
      else if c = 0x08 then vga_del_char s
      else do {
        s \<leftarrow> (if unat (vga_curr_column s) = screen_width then vga_line_down s
              else if unat (vga_curr_row s) = screen_height then do {
                s \<leftarrow> vga_scroll (s\<lparr>vga_curr_column := 0\<rparr>);
                Some (s\<lparr>vga_curr_row := vga_curr_row s - 1\<rparr>)
              } else Some s);
        s \<leftarrow> vga_store (vga_pos s) \<lparr>ascii_code = c, color = ch_color OR push_bit 4 bg\<rparr> s;
        Some (update_cursor (s\<lparr>vga_curr_column := vga_curr_column s + 1\<rparr>))
      })"

definition vga_putchar :: "u8 \<Rightarrow> vga \<Rightarrow> vga option" where
  "vga_putchar c s = vga_putchar_colored c VGA_COLOR_BLACK VGA_COLOR_WHITE s"

fun vga_putstring_colored :: "bytes \<Rightarrow> u8 \<Rightarrow> u8 \<Rightarrow> vga \<Rightarrow> vga option" where
  "vga_putstring_colored [] bg ch_color s = None"
| "vga_putstring_colored (c # cs) bg ch_color s =
     (if c = 0 then Some s
      else do {
        s \<leftarrow> vga_putchar_colored c bg ch_color s;
        vga_putstring_colored cs bg ch_color s
      })"

definition vga_putstring :: "bytes \<Rightarrow> vga \<Rightarrow> vga option" where
  "vga_putstring str s = vga_putstring_colored str VGA_COLOR_BLACK VGA_COLOR_WHITE s"

text \<open>
  \<open>vga_printf\<close>: the variable arguments are a list of integers and strings; a conversion without
  a matching argument is undefined in C and \<open>None\<close> here. A format that ends in a percent sign is
  read past its terminator, and so is \<open>None\<close> as soon as the object ends.
\<close>

datatype vga_arg = IntArg int | StrArg bytes

fun vga_printf :: "bytes \<Rightarrow> vga_arg list \<Rightarrow> vga \<Rightarrow> vga option" where
  "vga_printf [] args s = None"
| "vga_printf (c # fmt) args s =
     (if c = 0 then Some s
      else if c = 0x25 then
        (case fmt of
           [] \<Rightarrow> None
         | d # fmt' \<Rightarrow>
             if d = 0x64 \<or> d = 0x78 then
               (case args of
                  IntArg v # args' \<Rightarrow> do {
                    buffer \<leftarrow> itoa v (replicate 32 0) (if d = 0x64 then 10 else 16);
                    s \<leftarrow> vga_putstring buffer s;
                    vga_printf fmt' args' s
                  }
                | _ \<Rightarrow> None)
             else if d = 0x73 then
               (case args of
                  StrArg str # args' \<Rightarrow> do {
                    s \<leftarrow> vga_putstring str s;
                    vga_printf fmt' args' s
                  }
                | _ \<Rightarrow> None)
             else do {
               s \<leftarrow> vga_putstring (c_str (if d = 0x25 then ''%'' else ''?'')) s;
               vga_printf fmt' args s
             })
      else do {
        s \<leftarrow> vga_putstring [c, 0] s;
        vga_printf fmt args s
      })"

text \<open>The two pictures; \<open>#\<close> stands for the backslash, which a literal cannot hold.\<close>

definition art_char :: "char \<Rightarrow> u8" where
  "art_char c = (if c = CHR ''#'' then 0x5C else of_char c)"

fun put_lines :: "string list \<Rightarrow> u8 \<Rightarrow> vga \<Rightarrow> vga option" where
  "put_lines [] ch_color s = Some s"
| "put_lines (l # ls) ch_color s = do {
     s \<leftarrow> vga_putstring_colored (map art_char l @ [0x0A, 0]) VGA_COLOR_BLACK ch_color s;
     put_lines ls ch_color s
   }"

definition print_logo :: "vga \<Rightarrow> vga option" where
  "print_logo s = put_lines
     [''____________       _ _____ _____ '',
      ''|  _  # ___ #     | |  _  /  ___|'',
      ''| | | | |_/ / ___ | | | | # `--. '',
      ''| | | | ___ #/ _ #| | | | |`--. #'',
      ''| |/ /| |_/ / (_) | # #_/ /#__/ /'',
      ''|___/ #____/ #___/|_|#___/#____/ ''] VGA_COLOR_PINK s"

definition print_bye :: "vga \<Rightarrow> vga option" where
  "print_bye s = put_lines
     [''  ____             '',
      '' |  _ #            '',
      '' | |_) |_   _  ___ '',
      '' |  _ <| | | |/ _ #'',
      '' | |_) | |_| |  __/'',
      '' |____/ #__, |#___|'',
      ''         __/ |     '',
      ''        |___/      ''] VGA_COLOR_RED s"

text \<open>\<open>panic_screen\<close> prints its message and halts for good; this is the screen it leaves.\<close>

definition panic_screen :: "bytes \<Rightarrow> vga \<Rightarrow> vga option" where
  "panic_screen panic_message s = vga_putstring_colored panic_message VGA_COLOR_RED VGA_COLOR_WHITE s"

section \<open>Abstract screen\<close>

text \<open>
  The abstract screen is a list of 25 rows of 80 cells with a cursor (column, row). A column of 80
  is a full row: the next character starts a new one.
\<close>

type_synonym grid = "vga_char list list \<times> nat \<times> nat"

definition grid_newline :: "grid \<Rightarrow> grid" where
  "grid_newline = (\<lambda>(g, c, r). if r = 24 then (tl g @ [replicate 80 emptyChar], 0, 24) else (g, 0, Suc r))"

definition grid_back :: "grid \<Rightarrow> grid" where
  "grid_back = (\<lambda>(g, c, r).
     let (c, r) = (if c = 0 then (if 0 < r then (79, r - 1) else (0, 0)) else (c - 1, r))
     in (g[r := (g ! r)[c := emptyChar]], c, r))"

definition grid_put :: "vga_char \<Rightarrow> grid \<Rightarrow> grid" where
  "grid_put ch x =
     (let (g, c, r) = (if fst (snd x) = 80 then grid_newline x else x)
      in (g[r := (g ! r)[c := ch]], Suc c, r))"

definition grid_char :: "u8 \<Rightarrow> u8 \<Rightarrow> u8 \<Rightarrow> grid \<Rightarrow> grid" where
  "grid_char bg ch_color c x =
     (if c = 0x0A then grid_newline x
      else if c = 0x08 then grid_back x
      else grid_put \<lparr>ascii_code = c, color = ch_color OR push_bit 4 bg\<rparr> x)"

definition rows_of :: "vga_char list \<Rightarrow> vga_char list list" where
  "rows_of b = map (\<lambda>r. take 80 (drop (r * 80) b)) [0..<25]"

definition vga_abs :: "vga \<Rightarrow> grid" where
  "vga_abs s = (rows_of (vga_buffer s), unat (vga_curr_column s), unat (vga_curr_row s))"

definition vga_ok :: "vga \<Rightarrow> bool" where
  "vga_ok s \<longleftrightarrow> length (vga_buffer s) = 2000 \<and> unat (vga_curr_column s) \<le> 80 \<and> unat (vga_curr_row s) < 25"

text \<open>The position that the display controller shows the cursor at, from the bytes it was sent.\<close>

fun crtc_pos :: "(u16 \<times> u8) list \<Rightarrow> nat option" where
  "crtc_pos ((d1, hi) # (i1, r1) # (d0, lo) # (i0, r0) # ws) =
     (if d1 = 0x3D5 \<and> i1 = 0x3D4 \<and> r1 = 0x0E \<and> d0 = 0x3D5 \<and> i0 = 0x3D4 \<and> r0 = 0x0F
      then Some (256 * unat hi + unat lo) else None)"
| "crtc_pos _ = None"

named_theorems vga_simps

lemmas [vga_simps] = screen_width_def screen_height_def

subsection \<open>Loops over cells\<close>

lemma vga_store_Some [vga_simps]:
  "i < length (vga_buffer s) \<Longrightarrow> vga_store i c s = Some (s\<lparr>vga_buffer := (vga_buffer s)[i := c]\<rparr>)"
  by (simp add: vga_store_def arr_simps)

lemma fill_row_eq:
  assumes "row * 80 + col + n \<le> length (vga_buffer s)"
  shows "fill_row row col n s = Some (s\<lparr>vga_buffer :=
    take (row * 80 + col) (vga_buffer s) @ replicate n emptyChar @ drop (row * 80 + col + n) (vga_buffer s)\<rparr>)"
  using assms
proof (induction n arbitrary: col s)
  case 0
  then show ?case by simp
next
  case (Suc n)
  then show ?case
    by (simp add: vga_simps take_Suc_conv_app_nth list_update_append)
qed

lemma copy_row_eq:
  assumes "Suc k * 80 + col + n \<le> length (vga_buffer s)" and "col + n \<le> 80"
  shows "copy_row (Suc k) col n s = Some (s\<lparr>vga_buffer :=
    take (k * 80 + col) (vga_buffer s) @ take n (drop (Suc k * 80 + col) (vga_buffer s))
      @ drop (k * 80 + col + n) (vga_buffer s)\<rparr>)"
  using assms
proof (induction n arbitrary: col s)
  case 0
  then show ?case by simp
next
  case (Suc n)
  define b where "b = vga_buffer s"
  define p where "p = k * 80 + col"
  have len: "p + 80 + Suc n \<le> length b" using Suc.prems by (simp add: b_def p_def)
  have t: "take (Suc p) (b[p := b ! (p + 80)]) = take p b @ [b ! (p + 80)]"
    using len by (simp add: take_Suc_conv_app_nth list_update_append)
  have d: "take (Suc n) (drop (p + 80) b) = b ! (p + 80) # take n (drop (Suc (p + 80)) b)"
    using len by (simp add: Cons_nth_drop_Suc[symmetric])
  have "copy_row (Suc k) (Suc col) n (s\<lparr>vga_buffer := b[p := b ! (p + 80)]\<rparr>) =
      Some (s\<lparr>vga_buffer := take (Suc p) (b[p := b ! (p + 80)]) @ take n (drop (Suc (p + 80)) b)
        @ drop (Suc (p + n)) b\<rparr>)"
    using Suc.IH[of "Suc col" "s\<lparr>vga_buffer := b[p := b ! (p + 80)]\<rparr>"] Suc.prems
    by (simp add: p_def b_def ac_simps)
  moreover have "copy_row (Suc k) col (Suc n) s =
      copy_row (Suc k) (Suc col) n (s\<lparr>vga_buffer := b[p := b ! (p + 80)]\<rparr>)"
    using len by (simp add: vga_simps arr_simps b_def p_def ac_simps)
  moreover have "take (Suc n) (drop (80 + k * 80 + col) b) = b ! (p + 80) # take n (drop (Suc (p + 80)) b)"
    using d by (simp add: p_def ac_simps)
  ultimately show ?case using t by (simp add: b_def p_def)
qed

lemma copy_rows_eq:
  assumes "(Suc k + n) * 80 \<le> length (vga_buffer s)"
  shows "copy_rows (Suc k) n s = Some (s\<lparr>vga_buffer :=
    take (k * 80) (vga_buffer s) @ take (n * 80) (drop (Suc k * 80) (vga_buffer s))
      @ drop ((k + n) * 80) (vga_buffer s)\<rparr>)"
  using assms
proof (induction n arbitrary: k s)
  case 0
  then show ?case by simp
next
  case (Suc n)
  define b where "b = vga_buffer s"
  define b' where "b' = take (k * 80) b @ take 80 (drop (Suc k * 80) b) @ drop (k * 80 + 80) b"
  have len: "(Suc (Suc k) + n) * 80 \<le> length b" using Suc.prems by (simp add: b_def)
  then have len': "length b' = length b" by (simp add: b'_def)
  have "copy_row (Suc k) 0 80 s = Some (s\<lparr>vga_buffer := b'\<rparr>)"
    using copy_row_eq[of k 0 80 s] len by (simp add: b_def b'_def)
  moreover have "copy_rows (Suc (Suc k)) n (s\<lparr>vga_buffer := b'\<rparr>) = Some (s\<lparr>vga_buffer :=
      take (Suc k * 80) b' @ take (n * 80) (drop (Suc (Suc k) * 80) b') @ drop ((Suc k + n) * 80) b'\<rparr>)"
    using Suc.IH[of "Suc k" "s\<lparr>vga_buffer := b'\<rparr>"] len len' by simp
  moreover have "take (Suc k * 80) b' = take (k * 80) b @ take 80 (drop (Suc k * 80) b)"
    and "drop (Suc (Suc k) * 80) b' = drop (Suc (Suc k) * 80) b"
    and "drop ((Suc k + n) * 80) b' = drop ((Suc k + n) * 80) b"
    using len by (simp_all add: b'_def ac_simps)
  moreover have "take (Suc n * 80) (drop (Suc k * 80) b) =
      take 80 (drop (Suc k * 80) b) @ take (n * 80) (drop (Suc (Suc k) * 80) b)"
    by (simp add: take_add ac_simps)
  ultimately show ?case by (simp add: vga_simps b_def)
qed

lemma vga_scroll_eq [vga_simps]:
  assumes "length (vga_buffer s) = 2000"
  shows "vga_scroll s = Some (s\<lparr>vga_buffer := drop 80 (vga_buffer s) @ replicate 80 emptyChar\<rparr>)"
proof -
  have "copy_rows 1 24 s = Some (s\<lparr>vga_buffer := drop 80 (vga_buffer s) @ drop 1920 (vga_buffer s)\<rparr>)"
    using copy_rows_eq[of 0 24 s] assms by simp
  then show ?thesis
    using fill_row_eq[of 24 0 80 "s\<lparr>vga_buffer := drop 80 (vga_buffer s) @ drop 1920 (vga_buffer s)\<rparr>"] assms
    by (simp add: vga_scroll_def vga_simps)
qed

lemma fill_rows_eq:
  assumes "(row + n) * 80 \<le> length (vga_buffer s)"
  shows "fill_rows row n s = Some (s\<lparr>vga_buffer :=
    take (row * 80) (vga_buffer s) @ replicate (n * 80) emptyChar @ drop ((row + n) * 80) (vga_buffer s)\<rparr>)"
  using assms
proof (induction n arbitrary: row s)
  case 0
  then show ?case by simp
next
  case (Suc n)
  define b where "b = take (row * 80) (vga_buffer s) @ replicate 80 emptyChar @ drop (row * 80 + 80) (vga_buffer s)"
  have "fill_row row 0 80 s = Some (s\<lparr>vga_buffer := b\<rparr>)"
    using fill_row_eq[of row 0 80 s] Suc.prems by (simp add: b_def)
  moreover have "take (Suc row * 80) b = take (row * 80) (vga_buffer s) @ replicate 80 emptyChar"
    and "drop ((Suc row + n) * 80) b = drop ((Suc row + n) * 80) (vga_buffer s)" and "length b = length (vga_buffer s)"
    using Suc.prems by (simp_all add: b_def ac_simps)
  ultimately show ?case
    using Suc.IH[of "Suc row" "s\<lparr>vga_buffer := b\<rparr>"] Suc.prems by (simp add: vga_simps replicate_add)
qed

subsection \<open>Rows\<close>

lemma length_rows_of [simp]: "length (rows_of b) = 25"
  by (simp add: rows_of_def)

lemma rows_of_nth: "i < 25 \<Longrightarrow> rows_of b ! i = take 80 (drop (i * 80) b)"
  by (simp add: rows_of_def)

lemma rows_of_scroll:
  assumes "length b = 2000"
  shows "rows_of (drop 80 b @ replicate 80 x) = tl (rows_of b) @ [replicate 80 x]"
proof (rule nth_equalityI)
  show "rows_of (drop 80 b @ replicate 80 x) ! i = (tl (rows_of b) @ [replicate 80 x]) ! i"
    if "i < length (rows_of (drop 80 b @ replicate 80 x))" for i
  proof (cases "i = 24")
    case True
    then show ?thesis using assms by (simp add: rows_of_nth nth_append)
  next
    case False
    then have i: "i < 24" using that by simp
    then have "Suc i * 80 + 80 \<le> length b" using assms by simp
    then show ?thesis using i
      by (simp add: rows_of_nth nth_append nth_tl ac_simps)
  qed
qed simp

lemma rows_of_update:
  assumes "length b = 2000" and "c < 80" and "r < 25"
  shows "rows_of (b[c + r * 80 := x]) = (rows_of b)[r := (rows_of b ! r)[c := x]]"
proof (rule nth_equalityI)
  show "rows_of (b[c + r * 80 := x]) ! i = (rows_of b)[r := (rows_of b ! r)[c := x]] ! i"
    if "i < length (rows_of (b[c + r * 80 := x]))" for i
  proof (cases i r rule: linorder_cases)
    case less
    then have "i * 80 + 80 \<le> r * 80" by linarith
    then have "i * 80 \<le> c + r * 80" and "80 \<le> c + r * 80 - i * 80" by linarith+
    then show ?thesis using that assms less
      by (simp add: rows_of_nth drop_update_swap take_update_cancel)
  next
    case equal
    then show ?thesis using that assms
      by (simp add: rows_of_nth drop_update_swap take_update_swap)
  next
    case greater
    then have "c + r * 80 < i * 80" using assms(2) by linarith
    then show ?thesis using that assms greater
      by (simp add: rows_of_nth drop_update_cancel)
  qed
qed simp

subsection \<open>One character\<close>

lemma port_writes_abs [simp]:
  "vga_abs (update_cursor s) = vga_abs s" "vga_ok (update_cursor s) = vga_ok s"
  by (simp_all add: update_cursor_def move_cursor_def Let_def vga_out_def vga_abs_def vga_ok_def)

lemma vga_okE:
  assumes "vga_ok s"
  shows "length (vga_buffer s) = 2000" and "unat (vga_curr_column s) \<le> 80" and "unat (vga_curr_row s) < 25"
  using assms by (simp_all add: vga_ok_def)

lemma unat_Suc_u16: "unat (w :: u16) < 65535 \<Longrightarrow> unat (w + 1) = Suc (unat w)"
  using unat_add_lem[of w 1] by simp

lemma unat_pred_u16: "w \<noteq> 0 \<Longrightarrow> unat (w - 1 :: u16) = unat w - 1"
  by (simp add: unat_sub word_le_nat_alt unat_gt_0[symmetric] del: unat_gt_0)

lemma vga_line_down_abs:
  assumes "vga_ok s"
  obtains s' where "vga_line_down s = Some s'" and "vga_ok s'" and "vga_abs s' = grid_newline (vga_abs s)"
    and "vga_curr_column s' = 0"
proof (cases "unat (vga_curr_row s) = 24")
  case True
  then show ?thesis using vga_okE[OF assms]
    by (intro that[of "s\<lparr>vga_curr_column := 0, vga_buffer := drop 80 (vga_buffer s) @ replicate 80 emptyChar\<rparr>"])
      (simp_all add: vga_line_down_def vga_simps vga_ok_def vga_abs_def grid_newline_def rows_of_scroll)
next
  case False
  then show ?thesis using vga_okE[OF assms]
    by (intro that[of "s\<lparr>vga_curr_column := 0, vga_curr_row := vga_curr_row s + 1\<rparr>"])
      (simp_all add: vga_line_down_def vga_simps vga_ok_def vga_abs_def grid_newline_def unat_Suc_u16)
qed

lemma vga_pos_less:
  assumes "vga_ok s" and "unat (vga_curr_column s) < 80"
  shows "vga_pos s < length (vga_buffer s)"
  using assms by (simp add: vga_pos_def vga_ok_def vga_simps)

lemma vga_store_abs:
  assumes "vga_ok s" and "unat (vga_curr_column s) < 80"
  shows "vga_store (vga_pos s) x s = Some (s\<lparr>vga_buffer := (vga_buffer s)[vga_pos s := x]\<rparr>)"
    and "rows_of ((vga_buffer s)[vga_pos s := x]) =
      (let g = rows_of (vga_buffer s); r = unat (vga_curr_row s) in g[r := (g ! r)[unat (vga_curr_column s) := x]])"
  using vga_pos_less[OF assms] rows_of_update[of "vga_buffer s" "unat (vga_curr_column s)" "unat (vga_curr_row s)" x]
    vga_okE[OF assms(1)] assms(2)
  by (simp_all add: vga_store_Some vga_pos_def vga_simps Let_def)

lemma vga_del_char_abs:
  assumes "vga_ok s"
  obtains s' where "vga_del_char s = Some (update_cursor s')" and "vga_ok s'" and "vga_abs s' = grid_back (vga_abs s)"
proof -
  define t where "t = (if vga_curr_column s = 0
      then (if 0 < vga_curr_row s then s\<lparr>vga_curr_row := vga_curr_row s - 1, vga_curr_column := 79\<rparr> else s)
      else s\<lparr>vga_curr_column := vga_curr_column s - 1\<rparr>)"
  have cur: "(unat (vga_curr_column t), unat (vga_curr_row t)) =
      (let c = unat (vga_curr_column s); r = unat (vga_curr_row s)
       in if c = 0 then (if 0 < r then (79, r - 1) else (0, 0)) else (c - 1, r))"
    by (auto simp: t_def Let_def unat_pred_u16 word_gt_0 unat_eq_zero)
  have buf: "vga_buffer t = vga_buffer s" by (simp add: t_def)
  have col: "unat (vga_curr_column t) < 80"
    using cur vga_okE[OF assms] by (auto simp: Let_def split: if_splits)
  have row: "unat (vga_curr_row t) < 25"
    using cur vga_okE[OF assms] by (auto simp: Let_def split: if_splits)
  have ok: "vga_ok t" using col row vga_okE[OF assms] by (simp add: vga_ok_def buf)
  let ?t = "t\<lparr>vga_buffer := (vga_buffer t)[vga_pos t := emptyChar]\<rparr>"
  have "vga_del_char s = do { s \<leftarrow> vga_store (vga_pos t) emptyChar t; Some (update_cursor s) }"
    by (simp add: vga_del_char_def screen_width_def t_def Let_def)
  then have "vga_del_char s = Some (update_cursor ?t)"
    using vga_store_abs(1)[OF ok col] by simp
  moreover have "vga_ok ?t" using ok by (simp add: vga_ok_def)
  moreover have "vga_abs ?t = grid_back (vga_abs s)"
    using vga_store_abs(2)[OF ok col, of emptyChar] cur
    by (simp add: vga_abs_def grid_back_def Let_def buf split: if_splits)
  ultimately show ?thesis by (rule that)
qed

lemma vga_putchar_colored_abs:
  assumes "vga_ok s"
  obtains s' where "vga_putchar_colored c bg fg s = Some (update_cursor s')" and "vga_ok s'"
    and "vga_abs s' = grid_char bg fg c (vga_abs s)"
proof -
  consider "c = 0x0A" | "c = 0x08" | "c \<noteq> 0x0A" "c \<noteq> 0x08" by blast
  then show ?thesis
  proof cases
    case 1
    obtain s' where "vga_line_down s = Some s'" "vga_ok s'" "vga_abs s' = grid_newline (vga_abs s)"
      by (rule vga_line_down_abs[OF assms])
    then show ?thesis using 1 by (intro that[of s']) (simp_all add: vga_putchar_colored_def grid_char_def)
  next
    case 2
    obtain s' where "vga_del_char s = Some (update_cursor s')" "vga_ok s'" "vga_abs s' = grid_back (vga_abs s)"
      by (rule vga_del_char_abs[OF assms])
    then show ?thesis using 2 by (intro that[of s']) (simp_all add: vga_putchar_colored_def grid_char_def)
  next
    case 3
    define ch where "ch = \<lparr>ascii_code = c, color = fg OR push_bit 4 bg\<rparr>"
    have "\<exists>t. (if unat (vga_curr_column s) = screen_width then vga_line_down s
        else if unat (vga_curr_row s) = screen_height then do {
                s \<leftarrow> vga_scroll (s\<lparr>vga_curr_column := 0\<rparr>);
                Some (s\<lparr>vga_curr_row := vga_curr_row s - 1\<rparr>)
              } else Some s) = Some t \<and> vga_ok t \<and> unat (vga_curr_column t) < 80 \<and>
        vga_abs t = (if fst (snd (vga_abs s)) = 80 then grid_newline (vga_abs s) else vga_abs s)"
    proof (cases "unat (vga_curr_column s) = 80")
      case True
      obtain t where "vga_line_down s = Some t" "vga_ok t" "vga_abs t = grid_newline (vga_abs s)" "vga_curr_column t = 0"
        by (rule vga_line_down_abs[OF assms])
      then show ?thesis using True by (simp add: vga_simps vga_abs_def)
    next
      case False
      then show ?thesis using assms vga_okE[OF assms] by (simp add: vga_simps vga_abs_def)
    qed
    then obtain t where t: "vga_ok t" "unat (vga_curr_column t) < 80"
      "vga_abs t = (if fst (snd (vga_abs s)) = 80 then grid_newline (vga_abs s) else vga_abs s)"
      "vga_putchar_colored c bg fg s = do {
         s \<leftarrow> vga_store (vga_pos t) ch t;
         Some (update_cursor (s\<lparr>vga_curr_column := vga_curr_column s + 1\<rparr>)) }"
      using 3 by (auto simp: vga_putchar_colored_def ch_def)
    let ?t = "t\<lparr>vga_buffer := (vga_buffer t)[vga_pos t := ch], vga_curr_column := vga_curr_column t + 1\<rparr>"
    have "vga_putchar_colored c bg fg s = Some (update_cursor ?t)"
      using t(4) vga_store_abs(1)[OF t(1,2)] by simp
    moreover have "vga_ok ?t" using t(1,2) by (simp add: vga_ok_def unat_Suc_u16)
    moreover have "vga_abs ?t = grid_put ch (vga_abs s)"
      using vga_store_abs(2)[OF t(1,2), of ch] t(2) unfolding grid_put_def t(3)[symmetric]
      by (simp add: vga_abs_def Let_def unat_Suc_u16)
    ultimately show ?thesis using 3 by (intro that[of ?t]) (simp_all add: grid_char_def ch_def)
  qed
qed

lemma crtc_pos_update_cursor:
  assumes "vga_ok s"
  shows "crtc_pos (port_writes (update_cursor s)) = Some (unat (vga_curr_column s) + 80 * unat (vga_curr_row s))"
proof -
  define pos where "pos = vga_curr_row s * 80 + vga_curr_column s"
  have "unat (vga_curr_row s * 80) = unat (vga_curr_row s) * 80"
    using vga_okE(3)[OF assms] by (subst unat_mult_lem[THEN iffD1]) simp_all
  then have p: "unat pos = unat (vga_curr_column s) + 80 * unat (vga_curr_row s)"
    using vga_okE[OF assms] unfolding pos_def by (subst unat_add_lem[THEN iffD1]) simp_all
  have hi: "unat (ucast (drop_bit 8 pos AND 0xFF) :: u8) = unat pos div 256"
  proof -
    have "drop_bit 8 pos AND 0xFF = take_bit 8 (drop_bit 8 pos)" by (simp add: take_bit_eq_mask mask_eq_exp_minus_1)
    moreover have "unat (drop_bit 8 pos) = unat pos div 256" by (simp add: drop_bit_eq_div unat_div)
    moreover have "unat pos div 256 < 256" using vga_okE[OF assms] p by simp
    ultimately show ?thesis by (simp add: unsigned_ucast_eq unsigned_take_bit_eq take_bit_nat_eq_self)
  qed
  have lo: "unat (ucast (pos AND 0xFF) :: u8) = unat pos mod 256"
  proof -
    have "pos AND 0xFF = take_bit 8 pos" by (simp add: take_bit_eq_mask mask_eq_exp_minus_1)
    then show ?thesis by (simp add: unsigned_ucast_eq take_bit_eq_mod unat_mod)
  qed
  show ?thesis
    using hi lo p by (simp add: update_cursor_def move_cursor_def vga_out_def Let_def pos_def[symmetric])
qed

subsection \<open>Strings and formats\<close>

text \<open>The numeral of a number, most significant digit first.\<close>

function numeral_text :: "nat \<Rightarrow> nat \<Rightarrow> bytes" where
  "numeral_text base n =
     (if base < 2 \<or> n < base then [itoa_digits ! n] else numeral_text base (n div base) @ [itoa_digits ! (n mod base)])"
  by pat_completeness auto
termination
  by (relation "measure snd") auto

declare numeral_text.simps [simp del]

definition int_text :: "nat \<Rightarrow> int \<Rightarrow> bytes" where
  "int_text base v = (if v < 0 then [0x2D] else []) @ numeral_text base (nat \<bar>v\<bar>)"

text \<open>The text that a format and its arguments stand for.\<close>

fun render :: "bytes \<Rightarrow> vga_arg list \<Rightarrow> bytes option" where
  "render [] args = Some []"
| "render (c # fmt) args =
     (if c = 0x25 then
        (case fmt of
           [] \<Rightarrow> None
         | d # fmt' \<Rightarrow>
             if d = 0x64 \<or> d = 0x78 then
               (case args of
                  IntArg v # args' \<Rightarrow>
                    if - (2 ^ 31) < v \<and> v < 2 ^ 31 \<and> (0 \<le> v \<or> d = 0x64)
                    then map_option ((@) (int_text (if d = 0x64 then 10 else 16) v)) (render fmt' args')
                    else None
                | _ \<Rightarrow> None)
             else if d = 0x73 then
               (case args of
                  StrArg str # args' \<Rightarrow>
                    if 0 \<in> set str then map_option ((@) (takeWhile (\<lambda>c. c \<noteq> 0) str)) (render fmt' args') else None
                | _ \<Rightarrow> None)
             else map_option ((@) [if d = 0x25 then 0x25 else 0x3F]) (render fmt' args))
      else map_option ((@) [c]) (render fmt args))"

lemma itoa_loop_text:
  assumes "2 \<le> base" and "base \<le> 16" and "n < base ^ k" and "0 < k" and "length temp + k \<le> 32"
  shows "itoa_loop (int n) (int base) temp = Some (temp @ rev (numeral_text base n)) \<and>
    length (numeral_text base n) \<le> k"
  using assms
proof (induction k arbitrary: n temp)
  case 0
  then show ?case by simp
next
  case (Suc k)
  have "n mod base < base" using Suc.prems by simp
  then have m: "n mod base < 16" using Suc.prems(2) by linarith
  then have step: "itoa_loop (int n) (int base) temp =
      (if 0 < n div base then itoa_loop (int (n div base)) (int base) (temp @ [itoa_digits ! (n mod base)])
       else Some (temp @ [itoa_digits ! (n mod base)]))"
    using Suc.prems by (subst itoa_loop.simps) (simp add: smod_nonneg sdiv_nonneg zmod_int[symmetric] zdiv_int[symmetric]
        not_le Let_def)
  show ?case
  proof (cases "n < base")
    case True
    then show ?thesis using step Suc.prems by (simp add: numeral_text.simps[of base n])
  next
    case False
    then have k: "0 < k" using Suc.prems by (cases k) auto
    have "n div base < base ^ k"
      using Suc.prems by (simp add: less_mult_imp_div_less mult.commute)
    moreover have "0 < n div base" using False Suc.prems by (simp add: div_greater_zero_iff)
    ultimately show ?thesis
      using Suc.IH[of "n div base" "temp @ [itoa_digits ! (n mod base)]"] k step False Suc.prems
      by (simp add: numeral_text.simps[of base n])
  qed
qed

lemma itoa_digits_nonzero: "i < 16 \<Longrightarrow> itoa_digits ! i \<noteq> 0"
proof -
  have "\<forall>j < 16. itoa_digits ! j \<noteq> 0" by code_simp
  then show "i < 16 \<Longrightarrow> itoa_digits ! i \<noteq> 0" by blast
qed

lemma numeral_text_nonzero:
  assumes "2 \<le> base" and "base \<le> 16"
  shows "0 \<notin> set (numeral_text base n)"
  using assms
proof (induction base n rule: numeral_text.induct)
  case (1 base n)
  have "n mod base < base" using 1 by simp
  then have "n mod base < 16" using "1.prems" by linarith
  then show ?case
    using 1 itoa_digits_nonzero[of n] itoa_digits_nonzero[of "n mod base"]
    by (subst numeral_text.simps) (auto simp: eq_commute[of 0])
qed

lemma itoa_text:
  assumes "- (2 ^ 31) < v" and "v < 2 ^ 31" and "base = 10 \<or> base = 16 \<and> 0 \<le> v"
  obtains rest where "itoa v (replicate 32 0) (int base) = Some (int_text base v @ 0 # rest)"
proof -
  have b: "2 \<le> base" "base \<le> 16" "nat \<bar>v\<bar> < base ^ 10" using assms by auto
  then have "itoa_loop \<bar>v\<bar> (int base) [] = Some (rev (numeral_text base (nat \<bar>v\<bar>)))"
    and "length (numeral_text base (nat \<bar>v\<bar>)) \<le> 10"
    using itoa_loop_text[of base "nat \<bar>v\<bar>" 10 "[]"] by simp_all
  then have "itoa v (replicate 32 0) (int base) =
      Some (int_text base v @ 0 # drop (Suc (length (int_text base v))) (replicate 32 0))"
    using assms by (cases "v < 0") (auto simp: itoa_def int_text_def)
  then show ?thesis by (rule that)
qed

lemma putstring_append:
  assumes "0 \<notin> set t"
  shows "vga_putstring_colored (t @ u) bg fg s =
    do { s \<leftarrow> vga_putstring_colored (t @ [0]) bg fg s; vga_putstring_colored u bg fg s }"
  using assms by (induction t arbitrary: s) (auto simp: bind_eq_None_conv split: bind_splits)

lemma putstring_cstr: "vga_putstring_colored (t @ 0 # rest) bg fg s = vga_putstring_colored (t @ [0]) bg fg s"
  by (induction t arbitrary: s) (auto split: bind_splits)

lemma update_cursor_fields [simp]:
  "vga_curr_column (update_cursor s) = vga_curr_column s" "vga_curr_row (update_cursor s) = vga_curr_row s"
  by (simp_all add: update_cursor_def move_cursor_def vga_out_def Let_def)

lemma putstring_abs:
  assumes "vga_ok s" and "0 \<notin> set t"
  shows "\<exists>s'. vga_putstring_colored (t @ 0 # rest) bg fg s = Some s' \<and> vga_ok s' \<and>
    vga_abs s' = fold (grid_char bg fg) t (vga_abs s) \<and>
    (t = [] \<or> crtc_pos (port_writes s') = Some (unat (vga_curr_column s') + 80 * unat (vga_curr_row s')))"
  using assms
proof (induction t arbitrary: s)
  case Nil
  then show ?case by simp
next
  case (Cons c t)
  obtain s1 where s1: "vga_putchar_colored c bg fg s = Some (update_cursor s1)" "vga_ok s1"
    "vga_abs s1 = grid_char bg fg c (vga_abs s)"
    by (rule vga_putchar_colored_abs[OF Cons.prems(1)])
  show ?case
  proof (cases "t = []")
    case True
    then show ?thesis using s1 Cons.prems crtc_pos_update_cursor[OF s1(2)] by simp
  next
    case False
    then show ?thesis using s1 Cons.prems Cons.IH[of "update_cursor s1"] by simp
  qed
qed

text \<open>The text of the first piece of the format is printed, then the rest.\<close>

lemma vga_putstring_cstr: "vga_putstring (v @ 0 # r) s = vga_putstring (v @ [0]) s"
  using putstring_cstr by (simp add: vga_putstring_def)

lemma vga_printf_int:
  assumes d: "d = 0x64 \<or> d = 0x78" and v: "- (2 ^ 31) < v" "v < 2 ^ 31" "0 \<le> v \<or> d = 0x64"
  defines "base \<equiv> (if d = 0x64 then 10 else 16) :: nat"
  shows "vga_printf (0x25 # d # f) (IntArg v # args) s =
      do { s \<leftarrow> vga_putstring (int_text base v @ [0]) s; vga_printf f args s }"
    and "0 \<notin> set (int_text base v)"
proof -
  obtain r where r: "itoa v (replicate 32 0) (int base) = Some (int_text base v @ 0 # r)"
    by (rule itoa_text[of v base]) (use v d in \<open>auto simp: base_def\<close>)
  have "int base = (if d = 0x64 then 10 else 16)" by (simp add: base_def)
  with r d show "vga_printf (0x25 # d # f) (IntArg v # args) s =
      do { s \<leftarrow> vga_putstring (int_text base v @ [0]) s; vga_printf f args s }"
    using vga_putstring_cstr[of "int_text base v" r] by simp
  show "0 \<notin> set (int_text base v)"
    using numeral_text_nonzero[of base] by (simp add: int_text_def base_def)
qed

lemma vga_printf_str:
  assumes "0 \<in> set str"
  defines "v \<equiv> takeWhile (\<lambda>c. c \<noteq> 0) str"
  shows "vga_printf (0x25 # 0x73 # f) (StrArg str # args) s =
      do { s \<leftarrow> vga_putstring (v @ [0]) s; vga_printf f args s }"
    and "0 \<notin> set v"
proof -
  obtain u r where str: "str = u @ 0 # r" "0 \<notin> set u" using split_list_first[OF assms(1)] by blast
  then have v: "v = u" unfolding v_def by (subst str(1), subst takeWhile_append2) auto
  then show "vga_printf (0x25 # 0x73 # f) (StrArg str # args) s =
      do { s \<leftarrow> vga_putstring (v @ [0]) s; vga_printf f args s }"
    using vga_putstring_cstr[of u r] str(1) by simp
  show "0 \<notin> set v" using v str(2) by simp
qed

lemma vga_printf_rest:
  assumes "vga_printf p args s = do { s \<leftarrow> vga_putstring (v @ [0]) s; vga_printf f a s }"
    and "0 \<notin> set v" and "\<And>s. 0 \<notin> set w \<and> vga_printf f a s = vga_putstring (w @ [0]) s"
  shows "0 \<notin> set (v @ w) \<and> vga_printf p args s = vga_putstring ((v @ w) @ [0]) s"
  using assms putstring_append[of v "w @ [0]" VGA_COLOR_BLACK VGA_COLOR_WHITE s] by (simp add: vga_putstring_def)

lemma vga_printf_render:
  assumes "render fmt args = Some t" and "0 \<notin> set fmt"
  shows "0 \<notin> set t \<and> vga_printf (fmt @ 0 # rest) args s = vga_putstring (t @ [0]) s"
  using assms
proof (induction fmt args arbitrary: t s rule: render.induct)
  case (1 args)
  then show ?case by (simp add: vga_putstring_def)
next
  case (2 c fmt args)
  show ?case
  proof (cases "c = 0x25")
    case False
    then obtain w where a: "render fmt args = Some w" "t = [c] @ w" using "2.prems" by auto
    have IH: "0 \<notin> set w \<and> vga_printf (fmt @ 0 # rest) args s = vga_putstring (w @ [0]) s" for s
      using "2.IH"(4)[of w s] "2.prems" False a by auto
    have p: "vga_printf ((c # fmt) @ 0 # rest) args s =
        do { s \<leftarrow> vga_putstring ([c] @ [0]) s; vga_printf (fmt @ 0 # rest) args s }"
      using False "2.prems" by simp
    show ?thesis unfolding a(2) using "2.prems"(2) by (intro vga_printf_rest[OF p _ IH]) simp
  next
    case True
    then obtain d fmt' where f: "fmt = d # fmt'" using "2.prems" by (cases fmt) auto
    consider "d = 0x64 \<or> d = 0x78" | "d = 0x73" | "d \<noteq> 0x64" "d \<noteq> 0x78" "d \<noteq> 0x73" by blast
    then show ?thesis
    proof cases
      case 1
      then obtain v args' w where a: "args = IntArg v # args'" "render fmt' args' = Some w"
        "- (2 ^ 31) < v" "v < 2 ^ 31" "0 \<le> v \<or> d = 0x64" "t = int_text (if d = 0x64 then 10 else 16) v @ w"
        using "2.prems" True f by (auto split: list.splits vga_arg.splits if_splits)
      have IH: "0 \<notin> set w \<and> vga_printf (fmt' @ 0 # rest) args' s = vga_putstring (w @ [0]) s" for s
        using "2.IH"(1)[of d fmt' "IntArg v" args' v w s] "2.prems" f True a 1 by auto
      then show ?thesis
        unfolding a(6) True f a(1) append_Cons
        by (intro vga_printf_rest[OF vga_printf_int(1)[OF 1 a(3-5)] _ IH] vga_printf_int(2)[OF 1 a(3-5)])
    next
      case 2
      then obtain str args' w where a: "args = StrArg str # args'" "render fmt' args' = Some w" "0 \<in> set str"
        "t = takeWhile (\<lambda>c. c \<noteq> 0) str @ w"
        using "2.prems" True f by (auto split: list.splits vga_arg.splits if_splits)
      have IH: "0 \<notin> set w \<and> vga_printf (fmt' @ 0 # rest) args' s = vga_putstring (w @ [0]) s" for s
        using "2.IH"(2)[of d fmt' "StrArg str" args' str w s] "2.prems" f True a 2 by auto
      then show ?thesis
        unfolding a(4) True f 2 a(1) append_Cons
        by (intro vga_printf_rest[OF vga_printf_str(1)[OF a(3)] _ IH] vga_printf_str(2)[OF a(3)])
    next
      case 3
      then obtain w where a: "render fmt' args = Some w" "t = [if d = 0x25 then 0x25 else 0x3F] @ w"
        using "2.prems" True f by (auto split: if_splits)
      have IH: "0 \<notin> set w \<and> vga_printf (fmt' @ 0 # rest) args s = vga_putstring (w @ [0]) s" for s
        using "2.IH"(3)[of d fmt' w s] "2.prems" f True a 3 by auto
      have p: "vga_printf ((c # fmt) @ 0 # rest) args s = do {
          s \<leftarrow> vga_putstring ([if d = 0x25 then 0x25 else 0x3F] @ [0]) s; vga_printf (fmt' @ 0 # rest) args s }"
        using True 3 f by (simp add: c_str_def bytes_of_def)
      show ?thesis unfolding a(2) by (intro vga_printf_rest[OF p _ IH]) simp
    qed
  qed
qed

section \<open>Properties\<close>

text \<open>C25. The screen driver refines the abstract screen: from any state with the cursor on the screen, a
  NUL-terminated string with any characters, newlines and backspaces included, is printed without
  an access outside the 80 by 25 cells; the cells and the cursor are those that the abstract
  screen gives character by character (with wrapping at column 80 and scrolling at the last row);
  the cursor is on the screen again, and the display controller shows it there.\<close>

theorem vga_putstring_refines:
  assumes "vga_ok s" and "0 \<notin> set t"
  shows "\<exists>s'. vga_putstring_colored (t @ 0 # rest) bg fg s = Some s' \<and> vga_ok s' \<and>
    vga_abs s' = fold (grid_char bg fg) t (vga_abs s) \<and>
    (t = [] \<or> crtc_pos (port_writes s') = Some (unat (vga_curr_column s') + 80 * unat (vga_curr_row s')))"
  using assms by (rule putstring_abs)

definition vga_example :: vga where
  "vga_example = \<lparr>vga_buffer = replicate 2000 emptyChar, vga_curr_column = 80, vga_curr_row = 24, port_writes = []\<rparr>"

lemma vga_example_ok: "vga_ok vga_example"
  by (simp add: vga_example_def vga_ok_def)

theorem vga_putstring_refines_witness:
  "\<exists>s'. vga_putstring_colored ([0x68, 0x08] @ 0 # []) 0 15 vga_example = Some s' \<and> vga_ok s' \<and>
    vga_abs s' = fold (grid_char 0 15) [0x68, 0x08] (vga_abs vga_example) \<and>
    ([0x68, 0x08] = ([] :: bytes) \<or>
     crtc_pos (port_writes s') = Some (unat (vga_curr_column s') + 80 * unat (vga_curr_row s')))"
  by (rule vga_putstring_refines[OF vga_example_ok]) simp

text \<open>\<open>vga_printf\<close> prints its format: for a format that its arguments match (\<open>%d\<close> an integer other
  than \<open>INT_MIN\<close>, \<open>%x\<close> a non-negative one, \<open>%s\<close> a terminated string), the call is the printing of the
  text that the format stands for, with the numbers in base 10 and 16, and it stays on the screen.\<close>

lemma vga_printf_prints:
  assumes "vga_ok s" and "0 \<notin> set fmt" and "render fmt args = Some t"
  shows "\<exists>s'. vga_printf (fmt @ 0 # rest) args s = Some s' \<and> vga_ok s' \<and>
    vga_abs s' = fold (grid_char VGA_COLOR_BLACK VGA_COLOR_WHITE) t (vga_abs s)"
proof -
  have "0 \<notin> set t" and p: "vga_printf (fmt @ 0 # rest) args s = vga_putstring (t @ [0]) s"
    using vga_printf_render[OF assms(3,2)] by simp_all
  then show ?thesis
    using putstring_abs[OF assms(1), of t "[]" VGA_COLOR_BLACK VGA_COLOR_WHITE] by (auto simp: vga_putstring_def)
qed

end
