(* ===== verification/Cpu.thy ===== *)
theory Cpu
  imports Ata
begin

text \<open>
  The processor's tables and the interrupt hardware: segment descriptors and the task state
  segment (\<open>cpu/gdt/gdt.c\<close>), interrupt gates (\<open>cpu/idt/idt.c\<close>), the interrupt controllers
  (\<open>cpu/pic/pic.c\<close>, \<open>cpu/idt/irq.c\<close>) and the programming of the timer (\<open>cpu/pit/pit.c\<close>).

  The addresses of the tables and of the first interrupt handlers come from the linker and are
  fields of the state. Port accesses go through the port interface of the ATA theory; the two
  8259 controllers are a device of their own here.
\<close>

section \<open>Segment descriptors\<close>

record gdt_entry =
  limit_low :: u16
  base_low :: u16
  base_mid :: u8
  accessed :: bool
  readable_writeable :: bool
  direction :: bool
  executable :: bool
  segment_type :: bool
  privilege :: "2 word"
  g_present :: bool
  limit_high :: "4 word"
  g_reserved :: bool
  long_mode :: bool
  segment_size :: bool
  granularity :: bool
  base_high :: u8

record tss_entry =
  prev_tss :: u32
  esp0 :: u32
  ss0 :: u32
  t_rest :: "u32 list"
  t_trap :: u16
  iomap_base :: u16

record cpu =
  gdt_table :: "gdt_entry list"
  tss :: tss_entry
  gdt_info :: "u16 \<times> u32"
  gdt_loaded :: bool
  gdt_address :: u32
  tss_address :: u32

definition zero_gdt :: gdt_entry where
  "zero_gdt = \<lparr>limit_low = 0, base_low = 0, base_mid = 0, accessed = False, readable_writeable = False,
     direction = False, executable = False, segment_type = False, privilege = 0, g_present = False,
     limit_high = 0, g_reserved = False, long_mode = False, segment_size = False, granularity = False,
     base_high = 0\<rparr>"

definition GDT_KERNEL_CODE_INDEX :: u32 where "GDT_KERNEL_CODE_INDEX = 1 * 8"
definition GDT_KERNEL_DATA_INDEX :: u32 where "GDT_KERNEL_DATA_INDEX = 2 * 8"
definition GDT_USER_CODE_INDEX :: u32 where "GDT_USER_CODE_INDEX = 3 * 8"
definition GDT_USER_DATA_INDEX :: u32 where "GDT_USER_DATA_INDEX = 4 * 8"

text \<open>The fields from \<open>esp1\<close> to \<open>ldt\<close> are all set to zero; \<open>t_rest\<close> has them in order.\<close>

definition tss_fill_entry :: "u32 \<Rightarrow> u32 \<Rightarrow> tss_entry \<Rightarrow> tss_entry" where
  "tss_fill_entry e0 s0 filled_tss = filled_tss\<lparr>prev_tss := 0, esp0 := e0, ss0 := s0,
     t_rest := replicate 22 0, t_trap := 0, iomap_base := 0\<rparr>"

definition gdt_modify :: "nat \<Rightarrow> (gdt_entry \<Rightarrow> gdt_entry) \<Rightarrow> cpu \<Rightarrow> cpu option" where
  "gdt_modify index f s = do {
     e \<leftarrow> arr_get (gdt_table s) index;
     t \<leftarrow> arr_set (gdt_table s) index (f e);
     Some (s\<lparr>gdt_table := t\<rparr>)
   }"

definition gdt_fill_entry :: "nat \<Rightarrow> u32 \<Rightarrow> u32 \<Rightarrow> bool \<Rightarrow> u8 \<Rightarrow> cpu \<Rightarrow> cpu option" where
  "gdt_fill_entry index base limit is_executable privilege_level =
     gdt_modify index (\<lambda>e. e\<lparr>
       limit_low := ucast (limit AND 0xFFFF), limit_high := ucast (drop_bit 16 limit AND 0x0F),
       base_low := ucast (base AND 0xFFFF), base_mid := ucast (drop_bit 16 base AND 0xFF),
       base_high := ucast (drop_bit 24 base AND 0xFF),
       accessed := False, readable_writeable := True, direction := False, executable := is_executable,
       segment_type := True, privilege := ucast privilege_level, g_present := True,
       g_reserved := False, segment_size := True, granularity := True\<rparr>)"

definition gdt_fill_entry_as_tss :: "nat \<Rightarrow> u32 \<Rightarrow> cpu \<Rightarrow> cpu option" where
  "gdt_fill_entry_as_tss index tss_entry_address =
     (let tss_entry_size = 104 :: u32
      in gdt_modify index (\<lambda>e. e\<lparr>
           limit_low := ucast tss_entry_size, base_low := ucast tss_entry_address,
           base_mid := ucast (drop_bit 16 tss_entry_address),
           accessed := True, readable_writeable := False, direction := False, executable := True,
           segment_type := False, privilege := 0, g_present := True,
           limit_high := ucast (drop_bit 16 tss_entry_size), g_reserved := False, segment_size := False,
           granularity := False, base_high := ucast (drop_bit 24 tss_entry_address)\<rparr>))"

definition tss_fill_esp0 :: "u32 \<Rightarrow> cpu \<Rightarrow> cpu option" where
  "tss_fill_esp0 e0 s = gdt_fill_entry_as_tss 5 (tss_address s) (s\<lparr>tss := tss_fill_entry e0 0x10 (tss s)\<rparr>)"

definition gdt_init :: "cpu \<Rightarrow> cpu option" where
  "gdt_init s = do {
     s \<leftarrow> gdt_modify 0 (\<lambda>_. zero_gdt) s;
     s \<leftarrow> gdt_fill_entry 1 0 0xFFFFF True 0 s;
     s \<leftarrow> gdt_fill_entry 2 0 0xFFFFF False 0 s;
     s \<leftarrow> gdt_fill_entry 3 0 0xFFFFF True 3 s;
     s \<leftarrow> gdt_fill_entry 4 0 0xFFFFF False 3 s;
     let s = s\<lparr>tss := tss_fill_entry 0xC1100000 0x10 (tss s)\<rparr>;
     s \<leftarrow> gdt_fill_entry_as_tss 5 (tss_address s) s;
     Some (s\<lparr>gdt_info := (8 * 6, gdt_address s), gdt_loaded := True\<rparr>)
   }"

section \<open>Interrupt gates\<close>

record idt_entry =
  offset_low :: u16
  selector :: u16
  zero :: u8
  type_attributes :: u8
  offset_high :: u16

definition idt_set_entry :: "u8 \<Rightarrow> u32 \<Rightarrow> bool \<Rightarrow> idt_entry list \<Rightarrow> idt_entry list option" where
  "idt_set_entry index handlerAddress is_userspace idt = arr_set idt (unat index)
     \<lparr>offset_low = ucast (handlerAddress AND 0xFFFF), selector = ucast GDT_KERNEL_CODE_INDEX, zero = 0,
      type_attributes = 0x8E OR (if is_userspace then 0x60 else 0),
      offset_high = ucast (drop_bit 16 handlerAddress AND 0xFFFF)\<rparr>"

text \<open>The loop of \<open>idt_init\<close> over the handlers of \<open>int_handlers.asm\<close>, which are a parameter.\<close>

fun idt_loop :: "u32 list \<Rightarrow> nat \<Rightarrow> nat \<Rightarrow> idt_entry list \<Rightarrow> idt_entry list option" where
  "idt_loop first_int_handlers i 0 idt = Some idt"
| "idt_loop first_int_handlers i (Suc n) idt = do {
     h \<leftarrow> arr_get first_int_handlers i;
     idt \<leftarrow> idt_set_entry (of_nat i) h (i = 0x80) idt;
     idt_loop first_int_handlers (Suc i) n idt
   }"

section \<open>Interrupt controllers\<close>

definition PIC1_CMD :: u16 where "PIC1_CMD = 0x20"
definition PIC1_DATA :: u16 where "PIC1_DATA = 0x21"
definition PIC2_CMD :: u16 where "PIC2_CMD = 0xA0"
definition PIC2_DATA :: u16 where "PIC2_DATA = 0xA1"
definition PIC1_IRQ_INDEX :: u32 where "PIC1_IRQ_INDEX = 0x20"
definition PIC2_IRQ_INDEX :: u32 where "PIC2_IRQ_INDEX = PIC1_IRQ_INDEX + 8"
definition PIC_EOI :: u8 where "PIC_EOI = 0x20"

definition io_wait :: "'d port_io \<Rightarrow> 'd \<Rightarrow> 'd" where
  "io_wait io d = io_out_byte io 0x80 0 d"

text \<open>A write followed by \<open>io_wait\<close>, as \<open>init_pic\<close> does them.\<close>

definition out_wait :: "'d port_io \<Rightarrow> u16 \<Rightarrow> u8 \<Rightarrow> 'd \<Rightarrow> 'd" where
  "out_wait io port v d = io_wait io (io_out_byte io port v d)"

definition init_pic :: "'d port_io \<Rightarrow> u8 \<Rightarrow> u8 \<Rightarrow> 'd \<Rightarrow> 'd" where
  "init_pic io irq_offset1 irq_offset2 d =
     (let (irq_mask_1, d) = io_in_byte io PIC1_DATA d;
          d = io_wait io d;
          (irq_mask_2, d) = io_in_byte io PIC2_DATA d;
          d = io_wait io d;
          icw1 = 0x10 OR 0x1;
          d = out_wait io PIC1_CMD icw1 d;
          d = out_wait io PIC2_CMD icw1 d;
          d = out_wait io PIC1_DATA irq_offset1 d;
          d = out_wait io PIC2_DATA irq_offset2 d;
          d = out_wait io PIC1_DATA 4 d;
          d = out_wait io PIC2_DATA 2 d;
          d = out_wait io PIC1_DATA 1 d;
          d = out_wait io PIC2_DATA 1 d;
          d = out_wait io PIC1_DATA irq_mask_1 d
      in out_wait io PIC2_DATA irq_mask_2 d)"

definition pic_toggle_irq :: "'d port_io \<Rightarrow> u8 \<Rightarrow> bool \<Rightarrow> 'd \<Rightarrow> 'd" where
  "pic_toggle_irq io irq_number toggle_on d =
     (let port = (if 7 < irq_number then PIC2_DATA else PIC1_DATA);
          (irq_mask, d) = io_in_byte io port d;
          d = io_wait io d;
          n = unat (irq_number mod 8);
          irq_mask = (if toggle_on then irq_mask AND NOT (push_bit n 1) else irq_mask OR push_bit n 1)
      in out_wait io port irq_mask d)"

definition irq_exit :: "'d port_io \<Rightarrow> u32 \<Rightarrow> 'd \<Rightarrow> 'd" where
  "irq_exit io interrupt_number d =
     (let d = (if PIC2_IRQ_INDEX \<le> interrupt_number then io_out_byte io PIC2_CMD PIC_EOI d else d)
      in io_out_byte io PIC1_CMD PIC_EOI d)"

fun mask_irqs :: "'d port_io \<Rightarrow> nat \<Rightarrow> nat \<Rightarrow> 'd \<Rightarrow> 'd" where
  "mask_irqs io i 0 d = d"
| "mask_irqs io i (Suc n) d = mask_irqs io (Suc i) n (pic_toggle_irq io (of_nat i) False d)"

definition init_irqs :: "'d port_io \<Rightarrow> 'd \<Rightarrow> 'd" where
  "init_irqs io d = pic_toggle_irq io 2 True (mask_irqs io 0 16 d)"

definition idt_init :: "u32 list \<Rightarrow> 'd port_io \<Rightarrow> idt_entry list \<Rightarrow> 'd \<Rightarrow> (idt_entry list \<times> 'd) option" where
  "idt_init first_int_handlers io idt d = do {
     idt \<leftarrow> idt_loop first_int_handlers 0 256 idt;
     let d = init_pic io (ucast PIC1_IRQ_INDEX) (ucast PIC2_IRQ_INDEX) d;
     Some (idt, init_irqs io d)
   }"

section \<open>Timer\<close>

definition FREQ_HZ :: u32 where "FREQ_HZ = 1193182"
definition TARGET_FREQ_HZ :: u32 where "TARGET_FREQ_HZ = 1000"

record pit =
  expected_clock_fraction :: u32
  reload_time :: u16
  system_time :: u32
  system_clock_fractions :: u32
  context_switch :: u32

definition get_reload_time :: u16 where
  "get_reload_time = ucast (FREQ_HZ div TARGET_FREQ_HZ)"

definition get_expected_clock_fraction :: "pit \<Rightarrow> u32" where
  "get_expected_clock_fraction s = FREQ_HZ - ucast (reload_time s) * TARGET_FREQ_HZ"

definition get_system_time :: "pit \<Rightarrow> u32" where
  "get_system_time s = system_time s"

text \<open>The first part of \<open>pit_init\<close>, which programs channel 0; the handler is registered in \<open>Process\<close>.\<close>

definition pit_program :: "'d port_io \<Rightarrow> pit \<times> 'd \<Rightarrow> pit \<times> 'd" where
  "pit_program io = (\<lambda>(s, d).
     let d = io_out_byte io 0x43 0x36 d;
         s = s\<lparr>reload_time := get_reload_time\<rparr>;
         s = s\<lparr>expected_clock_fraction := get_expected_clock_fraction s\<rparr>;
         d = io_out_byte io 0x40 (ucast (reload_time s AND 0xFF)) d;
         d = io_out_byte io 0x40 (ucast (drop_bit 8 (reload_time s))) d
     in (s, d))"

text \<open>
  The counting part of \<open>timer_irq\<close>; the flag says whether a context switch is due.
\<close>

definition timer_count :: "pit \<Rightarrow> bool \<times> pit" where
  "timer_count s =
     (let s = s\<lparr>system_time := system_time s + 1, context_switch := context_switch s + 1,
            system_clock_fractions := system_clock_fractions s + expected_clock_fraction s\<rparr>;
          s = (if TARGET_FREQ_HZ < system_clock_fractions s
               then s\<lparr>system_time := system_time s + 1,
                      system_clock_fractions := system_clock_fractions s - TARGET_FREQ_HZ\<rparr>
               else s)
      in if context_switch s = 1 then (True, s\<lparr>context_switch := 0\<rparr>) else (False, s))"

section \<open>What the hardware reads\<close>

text \<open>Base and limit that the processor puts together from a descriptor, and the target of a gate.\<close>

definition seg_base :: "gdt_entry \<Rightarrow> u32" where
  "seg_base e = ucast (base_low e) OR push_bit 16 (ucast (base_mid e)) OR push_bit 24 (ucast (base_high e))"

definition seg_limit :: "gdt_entry \<Rightarrow> u32" where
  "seg_limit e = ucast (limit_low e) OR push_bit 16 (ucast (limit_high e))"

definition gate_offset :: "idt_entry \<Rightarrow> u32" where
  "gate_offset e = ucast (offset_low e) OR push_bit 16 (ucast (offset_high e))"

text \<open>
  One 8259 controller: the next initialisation word that it waits for (0 when it runs), its
  vector offset, the third and fourth initialisation words, its interrupt mask, and whether an
  interrupt is in service. The first initialisation word clears the mask.
\<close>

record chip =
  c_step :: nat
  c_offset :: u8
  c_icw3 :: u8
  c_icw4 :: u8
  c_mask :: u8
  c_service :: bool

definition chip_cmd :: "u8 \<Rightarrow> chip \<Rightarrow> chip" where
  "chip_cmd v c = (if bit v 4 then c\<lparr>c_step := 2, c_mask := 0\<rparr>
     else if v = 0x20 then c\<lparr>c_service := False\<rparr> else c)"

definition chip_data :: "u8 \<Rightarrow> chip \<Rightarrow> chip" where
  "chip_data v c =
     (if c_step c = 2 then c\<lparr>c_offset := v, c_step := 3\<rparr>
      else if c_step c = 3 then c\<lparr>c_icw3 := v, c_step := 4\<rparr>
      else if c_step c = 4 then c\<lparr>c_icw4 := v, c_step := 0\<rparr>
      else c\<lparr>c_mask := v\<rparr>)"

definition pics :: "(chip \<times> chip) port_io" where
  "pics = \<lparr>
     in_byte = (\<lambda>port d. (if port = 0x21 then c_mask (fst d) else if port = 0xA1 then c_mask (snd d) else 0, d)),
     out_byte = (\<lambda>port v d.
       if port = 0x20 then (chip_cmd v (fst d), snd d)
       else if port = 0x21 then (chip_data v (fst d), snd d)
       else if port = 0xA0 then (fst d, chip_cmd v (snd d))
       else if port = 0xA1 then (fst d, chip_data v (snd d))
       else d),
     in_word = (\<lambda>port d. (0, d)),
     out_word = (\<lambda>port v d. d)\<rparr>"

named_theorems pic_simps

lemmas [pic_simps] = PIC1_IRQ_INDEX_def PIC2_IRQ_INDEX_def PIC_EOI_def

lemma bit_17: "bit (17 :: u8) 4"
  by code_simp

lemma pics_ports [pic_simps]:
  "io_in_byte pics PIC1_DATA (m, s) = (c_mask m, (m, s))"
  "io_in_byte pics PIC2_DATA (m, s) = (c_mask s, (m, s))"
  "io_wait pics d = d"
  "out_wait pics PIC1_CMD v (m, s) = (chip_cmd v m, s)"
  "out_wait pics PIC2_CMD v (m, s) = (m, chip_cmd v s)"
  "out_wait pics PIC1_DATA v (m, s) = (chip_data v m, s)"
  "out_wait pics PIC2_DATA v (m, s) = (m, chip_data v s)"
  by (simp_all add: pics_def io_defs io_wait_def out_wait_def PIC1_CMD_def PIC1_DATA_def PIC2_CMD_def PIC2_DATA_def)

lemma chip_init:
  "chip_data im (chip_data w4 (chip_data w3 (chip_data off (chip_cmd 17 c)))) =
     c\<lparr>c_step := 0, c_offset := off, c_icw3 := w3, c_icw4 := w4, c_mask := im\<rparr>"
  by (simp add: chip_cmd_def chip_data_def bit_17)

lemma init_pic_eq:
  "init_pic pics o1 o2 (m, s) =
     (m\<lparr>c_step := 0, c_offset := o1, c_icw3 := 4, c_icw4 := 1\<rparr>,
      s\<lparr>c_step := 0, c_offset := o2, c_icw3 := 2, c_icw4 := 1\<rparr>)"
  by (simp add: init_pic_def pic_simps chip_init)

definition toggle_bit :: "bool \<Rightarrow> nat \<Rightarrow> u8 \<Rightarrow> u8" where
  "toggle_bit on n w = (if on then unset_bit n w else set_bit n w)"

lemma toggle_bit_eq:
  "(if on then w AND NOT (push_bit n 1) else w OR push_bit n 1) = toggle_bit on n (w :: u8)"
  by (rule bit_word_eqI) (auto simp: toggle_bit_def bit_simps)

lemma pic_toggle_irq_eq:
  assumes "c_step m = 0" and "c_step s = 0" and "n < 16"
  shows "pic_toggle_irq pics (of_nat n) on (m, s) =
    (if 7 < n then (m, s\<lparr>c_mask := toggle_bit on (n mod 8) (c_mask s)\<rparr>)
     else (m\<lparr>c_mask := toggle_bit on (n mod 8) (c_mask m)\<rparr>, s))"
proof -
  have u: "unat (of_nat n :: u8) = n" using assms(3) by (simp add: unat_of_nat take_bit_nat_eq_self)
  then have "7 < (of_nat n :: u8) \<longleftrightarrow> 7 < n" by (simp add: word_less_nat_alt)
  moreover have "unat (of_nat n mod 8 :: u8) = n mod 8" using u by (simp add: unat_mod)
  ultimately show ?thesis using assms
    by (simp add: pic_toggle_irq_def pic_simps chip_data_def Let_def toggle_bit_eq)
qed

lemma mask_irqs_eq:
  assumes "c_step m = 0" and "c_step s = 0" and "i + n \<le> 16"
  shows "\<exists>m' s'. mask_irqs pics i n (m, s) = (m\<lparr>c_mask := m'\<rparr>, s\<lparr>c_mask := s'\<rparr>) \<and>
    (\<forall>j < 8. bit m' j = (bit (c_mask m) j \<or> i \<le> j \<and> j < i + n)) \<and>
    (\<forall>j < 8. bit s' j = (bit (c_mask s) j \<or> i \<le> j + 8 \<and> j + 8 < i + n))"
  using assms
proof (induction n arbitrary: i m s)
  case 0
  then show ?case by (intro exI[of _ "c_mask m"] exI[of _ "c_mask s"]) auto
next
  case (Suc n)
  show ?case
  proof (cases "7 < i")
    case True
    define k where "k = i - 8"
    have k: "i = k + 8" "k < 8" using True Suc.prems by (simp_all add: k_def)
    obtain m' s' where "mask_irqs pics (Suc i) n (m, s\<lparr>c_mask := toggle_bit False k (c_mask s)\<rparr>) =
        (m\<lparr>c_mask := m'\<rparr>, s\<lparr>c_mask := s'\<rparr>)"
      "\<forall>j < 8. bit m' j = (bit (c_mask m) j \<or> Suc i \<le> j \<and> j < Suc i + n)"
      "\<forall>j < 8. bit s' j = (bit (toggle_bit False k (c_mask s)) j \<or> Suc i \<le> j + 8 \<and> j + 8 < Suc i + n)"
      using Suc.IH[of m "s\<lparr>c_mask := toggle_bit False k (c_mask s)\<rparr>" "Suc i"] Suc.prems by auto
    then show ?thesis using pic_toggle_irq_eq[OF Suc.prems(1,2), of i False] Suc.prems k
      by (intro exI[of _ m'] exI[of _ s']) (auto simp: toggle_bit_def bit_simps)
  next
    case False
    obtain m' s' where "mask_irqs pics (Suc i) n (m\<lparr>c_mask := toggle_bit False i (c_mask m)\<rparr>, s) =
        (m\<lparr>c_mask := m'\<rparr>, s\<lparr>c_mask := s'\<rparr>)"
      "\<forall>j < 8. bit m' j = (bit (toggle_bit False i (c_mask m)) j \<or> Suc i \<le> j \<and> j < Suc i + n)"
      "\<forall>j < 8. bit s' j = (bit (c_mask s) j \<or> Suc i \<le> j + 8 \<and> j + 8 < Suc i + n)"
      using Suc.IH[of "m\<lparr>c_mask := toggle_bit False i (c_mask m)\<rparr>" s "Suc i"] Suc.prems by auto
    then show ?thesis using pic_toggle_irq_eq[OF Suc.prems(1,2), of i False] Suc.prems False
      by (intro exI[of _ m'] exI[of _ s']) (auto simp: toggle_bit_def bit_simps)
  qed
qed

lemma init_irqs_eq:
  assumes "c_step m = 0" and "c_step s = 0"
  shows "init_irqs pics (m, s) = (m\<lparr>c_mask := 0xFB\<rparr>, s\<lparr>c_mask := 0xFF\<rparr>)"
proof -
  obtain m' s' where ms: "mask_irqs pics 0 16 (m, s) = (m\<lparr>c_mask := m'\<rparr>, s\<lparr>c_mask := s'\<rparr>)"
    and "\<forall>j < 8. bit m' j" and "\<forall>j < 8. bit s' j"
    using mask_irqs_eq[OF assms, of 0 16] by auto
  then have "m' = - 1" and "s' = - 1" by (auto intro!: bit_word_eqI)
  then show ?thesis
    using ms assms pic_toggle_irq_eq[of "m\<lparr>c_mask := - 1\<rparr>" "s\<lparr>c_mask := - 1\<rparr>" 2 True]
    by (simp add: init_irqs_def toggle_bit_def unset_bit_eq_and_not)
qed

section \<open>Descriptors and gates\<close>

lemma split_word_16:
  "ucast (ucast (w AND 0xFFFF) :: u16) OR push_bit 16 (ucast (ucast (drop_bit 16 w AND 0xFFFF) :: u16)) = (w :: u32)"
  (is "?l = _")
proof (rule bit_word_eqI)
  have m: "(0xFFFF :: u32) = mask 16" by (simp add: mask_eq_exp_minus_1)
  show "n < LENGTH(32) \<Longrightarrow> bit ?l n = bit w n" for n
    unfolding m by (auto simp: bit_simps not_less)
qed

lemma seg_base_split:
  "ucast (ucast (w AND 0xFFFF) :: u16) OR push_bit 16 (ucast (ucast (drop_bit 16 w AND 0xFF) :: u8))
     OR push_bit 24 (ucast (ucast (drop_bit 24 w AND 0xFF) :: u8)) = (w :: u32)" (is "?l = _")
proof (rule bit_word_eqI)
  have m: "(0xFFFF :: u32) = mask 16" "(0xFF :: u32) = mask 8" by (simp_all add: mask_eq_exp_minus_1)
  show "n < LENGTH(32) \<Longrightarrow> bit ?l n = bit w n" for n
    unfolding m by (cases "n < 16"; cases "n < 24") (auto simp: bit_simps not_less)
qed

lemma seg_limit_split:
  "ucast (ucast (w AND 0xFFFF) :: u16) OR push_bit 16 (ucast (ucast (drop_bit 16 w AND 0xF) :: 4 word))
    = take_bit 20 (w :: u32)" (is "?l = _")
proof (rule bit_word_eqI)
  have m: "(0xFFFF :: u32) = mask 16" "(0xF :: u32) = mask 4" by (simp_all add: mask_eq_exp_minus_1)
  show "n < LENGTH(32) \<Longrightarrow> bit ?l n = bit (take_bit 20 w) n" for n
    unfolding m by (cases "n < 16") (auto simp: bit_simps not_less)
qed

lemma gdt_modify_Some:
  "i < length (gdt_table s) \<Longrightarrow> gdt_modify i f s = Some (s\<lparr>gdt_table := (gdt_table s)[i := f (gdt_table s ! i)]\<rparr>)"
  by (simp add: gdt_modify_def arr_simps)

lemma idt_loop_eq:
  assumes "i + n \<le> 256" and "length hs = 256" and "length idt = 256"
  shows "\<exists>idt'. idt_loop hs i n idt = Some idt' \<and> length idt' = 256 \<and>
    (\<forall>j < 256. if i \<le> j \<and> j < i + n
       then gate_offset (idt' ! j) = hs ! j \<and> selector (idt' ! j) = 8 \<and>
         type_attributes (idt' ! j) = (if j = 0x80 then 0xEE else 0x8E)
       else idt' ! j = idt ! j)"
  using assms
proof (induction n arbitrary: i idt)
  case 0
  then show ?case by auto
next
  case (Suc n)
  have u: "unat (of_nat i :: u8) = i" using Suc.prems(1) by (simp add: unat_of_nat take_bit_nat_eq_self)
  define e where "e = \<lparr>offset_low = ucast (hs ! i AND 0xFFFF), selector = ucast GDT_KERNEL_CODE_INDEX, zero = 0,
      type_attributes = 0x8E OR (if i = 0x80 then 0x60 else 0), offset_high = ucast (drop_bit 16 (hs ! i) AND 0xFFFF)\<rparr>"
  have e: "gate_offset e = hs ! i" "selector e = 8" "type_attributes e = (if i = 0x80 then 0xEE else 0x8E)"
    using split_word_16[of "hs ! i"] by (simp_all add: e_def gate_offset_def GDT_KERNEL_CODE_INDEX_def)
  have "idt_loop hs i (Suc n) idt = idt_loop hs (Suc i) n (idt[i := e])"
    using Suc.prems u by (simp add: arr_simps idt_set_entry_def e_def)
  moreover obtain idt' where "idt_loop hs (Suc i) n (idt[i := e]) = Some idt'" "length idt' = 256"
    "\<forall>j < 256. if Suc i \<le> j \<and> j < Suc i + n
       then gate_offset (idt' ! j) = hs ! j \<and> selector (idt' ! j) = 8 \<and>
         type_attributes (idt' ! j) = (if j = 0x80 then 0xEE else 0x8E)
       else idt' ! j = idt[i := e] ! j"
    using Suc.IH[of "Suc i" "idt[i := e]"] Suc.prems by auto
  ultimately show ?case using e Suc.prems
    by (intro exI[of _ idt']) (auto simp: nth_list_update split: if_splits)
qed

section \<open>Properties\<close>

text \<open>A descriptor that \<open>gdt_fill_entry\<close> writes means what was asked for: the processor reads back the
  base, the low 20 bits of the limit in 4 KB units, the privilege level and the kind of segment, and
  no other descriptor changes.\<close>

lemma gdt_fill_entry_decodes:
  assumes "i < length (gdt_table s)"
  shows "\<exists>s'. gdt_fill_entry i base limit ex dpl s = Some s' \<and>
    seg_base (gdt_table s' ! i) = base \<and> seg_limit (gdt_table s' ! i) = take_bit 20 limit \<and>
    granularity (gdt_table s' ! i) \<and> g_present (gdt_table s' ! i) \<and> executable (gdt_table s' ! i) = ex \<and>
    privilege (gdt_table s' ! i) = ucast dpl \<and> (\<forall>j. j \<noteq> i \<longrightarrow> gdt_table s' ! j = gdt_table s ! j)"
  using assms seg_base_split[of base] seg_limit_split[of limit]
  by (simp add: gdt_fill_entry_def gdt_modify_Some seg_base_def seg_limit_def)

definition cpu_example :: cpu where
  "cpu_example = \<lparr>gdt_table = replicate 6 zero_gdt,
     tss = \<lparr>prev_tss = 0, esp0 = 0, ss0 = 0, t_rest = replicate 22 0, t_trap = 0, iomap_base = 0\<rparr>,
     gdt_info = (0, 0), gdt_loaded = False, gdt_address = 0xC0104000, tss_address = 0xC0104080\<rparr>"

text \<open>After \<open>idt_init\<close> every one of the 256 gates is present, enters the kernel code segment at the
  handler of its own number, and can be raised from user mode only for interrupt 0x80; the two
  interrupt controllers run with the vectors 0x20 and 0x28 and have every line masked but the
  cascade.\<close>

lemma idt_init_gates:
  assumes "length hs = 256" and "length idt = 256"
  shows "\<exists>idt'. idt_init hs pics idt (m, s) = Some (idt',
      (m\<lparr>c_step := 0, c_offset := 0x20, c_icw3 := 4, c_icw4 := 1, c_mask := 0xFB\<rparr>,
       s\<lparr>c_step := 0, c_offset := 0x28, c_icw3 := 2, c_icw4 := 1, c_mask := 0xFF\<rparr>)) \<and>
    (\<forall>i < 256. gate_offset (idt' ! i) = hs ! i \<and> selector (idt' ! i) = 8 \<and>
       type_attributes (idt' ! i) = (if i = 0x80 then 0xEE else 0x8E))"
proof -
  obtain idt' where "idt_loop hs 0 256 idt = Some idt'" and "\<forall>i < 256. gate_offset (idt' ! i) = hs ! i \<and>
      selector (idt' ! i) = 8 \<and> type_attributes (idt' ! i) = (if i = 0x80 then 0xEE else 0x8E)"
    using idt_loop_eq[of 0 256 hs idt] assms by auto
  then show ?thesis
    by (simp add: idt_init_def init_pic_eq init_irqs_eq pic_simps Let_def)
qed

text \<open>A number of timer interrupts after the start.\<close>

fun timer_ticks :: "nat \<Rightarrow> pit \<Rightarrow> pit" where
  "timer_ticks 0 s = s"
| "timer_ticks (Suc n) s = snd (timer_count (timer_ticks n s))"

definition pit0 :: pit where
  "pit0 = \<lparr>expected_clock_fraction = 0, reload_time = 0, system_time = 0, system_clock_fractions = 0,
     context_switch = 0\<rparr>"

lemma pit_program_fields:
  "expected_clock_fraction (fst (pit_program io (pit0, d))) = 182 \<and> system_time (fst (pit_program io (pit0, d))) = 0 \<and>
   system_clock_fractions (fst (pit_program io (pit0, d))) = 0"
  by (simp add: pit_program_def pit0_def get_reload_time_def get_expected_clock_fraction_def FREQ_HZ_def
      TARGET_FREQ_HZ_def Let_def)

lemma timer_ticks_inv:
  assumes "expected_clock_fraction s = 182" and "system_time s = 0" and "system_clock_fractions s = 0"
    and "n + 182 * n div 1000 < 2 ^ 32"
  shows "\<exists>f. expected_clock_fraction (timer_ticks n s) = 182 \<and>
    unat (system_time (timer_ticks n s)) = n + (182 * n - 1) div 1000 \<and>
    unat (system_clock_fractions (timer_ticks n s)) = f \<and> f \<le> 1000 \<and> (0 < n \<longrightarrow> 0 < f) \<and>
    182 * n = 1000 * ((182 * n - 1) div 1000) + f"
  using assms(4)
proof (induction n)
  case 0
  then show ?case using assms by simp
next
  case (Suc n)
  define t where "t = timer_ticks n s"
  have "182 * n div 1000 \<le> 182 * Suc n div 1000" by (rule div_le_mono) simp
  then have "n + 182 * n div 1000 < 2 ^ 32" using Suc.prems by linarith
  then obtain f where f: "expected_clock_fraction t = 182" "unat (system_time t) = n + (182 * n - 1) div 1000"
    "unat (system_clock_fractions t) = f" "f \<le> 1000" "0 < n \<longrightarrow> 0 < f"
    "182 * n = 1000 * ((182 * n - 1) div 1000) + f"
    using Suc.IH by (auto simp: t_def)
  define c where "c = (182 * n - 1) div 1000"
  have g: "unat (system_clock_fractions t + 182) = f + 182"
    using f(3,4) unat_add_lem[of "system_clock_fractions t" 182] by simp
  have "c \<le> 182 * Suc n div 1000" unfolding c_def by (rule div_le_mono) simp
  then have "Suc n + c < 2 ^ 32" using Suc.prems by linarith
  then have st: "unat (system_time t + 1) = Suc n + c"
    using f(2) unat_add_lem[of "system_time t" 1] by (simp add: c_def)
  show ?case
  proof (cases "1000 < f + 182")
    case True
    have c': "(182 * Suc n - 1) div 1000 = Suc c"
      using True f(4,6) by (simp add: c_def)
    have "unat (system_clock_fractions t + 182 - 1000) = f + 182 - 1000"
      using True g by (subst unat_sub) (simp_all add: word_le_nat_alt)
    moreover have "(182 * Suc n - 1) div 1000 \<le> 182 * Suc n div 1000" by (rule div_le_mono) simp
    then have "Suc n + Suc c < 2 ^ 32" using Suc.prems c' by linarith
    then have "unat (system_time t + 1 + 1) = Suc n + Suc c"
      using st unat_add_lem[of "system_time t + 1" 1] by simp
    moreover have "1000 < system_clock_fractions t + 182" using True g by (simp add: word_less_nat_alt)
    ultimately show ?thesis using c' f(1,4,6) True
      by (simp add: timer_count_def TARGET_FREQ_HZ_def Let_def t_def[symmetric] c_def)
  next
    case False
    have c': "(182 * Suc n - 1) div 1000 = c"
      using False f(4,5,6) by (cases "n = 0") (simp_all add: c_def)
    moreover have "\<not> 1000 < system_clock_fractions t + 182" using False g by (simp add: word_less_nat_alt)
    ultimately show ?thesis using f(1,6) g st False
      by (simp add: timer_count_def TARGET_FREQ_HZ_def Let_def t_def[symmetric] c_def)
  qed
qed

text \<open>The clock compensates for its rounding: the reload value leaves 182 cycles per second over, and
  after \<open>n\<close> interrupts \<open>system_time\<close> is \<open>n\<close> plus the whole milliseconds in the cycles left over (the
  last one counted when it is exceeded), as long as that fits 32 bits.\<close>

lemma timer_compensates:
  assumes "n + 182 * n div 1000 < 2 ^ 32"
  shows "unat (get_system_time (timer_ticks n (fst (pit_program io (pit0, d))))) = n + (182 * n - 1) div 1000"
  using timer_ticks_inv[of "fst (pit_program io (pit0, d))" n] pit_program_fields[of io d] assms
  by (auto simp: get_system_time_def)

definition chip_example :: chip where
  "chip_example = \<lparr>c_step = 0, c_offset = 0x20, c_icw3 = 4, c_icw4 = 1, c_mask = 0xFB, c_service = False\<rparr>"

end
