(* ===== verification/Kernel.thy ===== *)
theory Kernel
  imports Heap FatFile Vga Cpu
begin

text \<open>
  The state of the running kernel: the data types of \<open>process_manager.h\<close>, \<open>terminal_manager.h\<close> and
  \<open>keyboard.h\<close>, and one record with the globals of every component. The table of open files
  (\<open>filesystem/vfs/file.c\<close>) is modelled here as well.

  A process node lives in the heap: \<open>nodes\<close> maps the address that \<open>kmalloc\<close> returned to its
  contents, and an access through an address without a node (NULL or released) is \<open>None\<close>. A pointer
  to a global file descriptor is an index into \<open>global_fd_table\<close>, NULL is \<open>None\<close>.
\<close>

section \<open>Data\<close>

datatype process_state =
  PROCESS_RUNNING | PROCESS_READY | PROCESS_BLOCKED | PROCESS_WAITING | PROCESS_TERMINATED

text \<open>The two functions that a \<open>_read\<close> pointer of a descriptor is set to.\<close>

datatype read_fn = Read_fat_fs | Read_terminal_input

record global_file_descriptor =
  g_read :: "read_fn option"
  g_file :: FileData
  ref_count :: int
  g_path :: bytes
  is_dir :: bool
  g_used :: bool
  is_device :: bool

record file_descriptor =
  global_fd :: "nat option"
  fd_flags :: u32
  fd_offset :: u32
  fd_used :: bool

record process_registers =
  r_edi :: u32
  r_esi :: u32
  r_ebp :: u32
  r_unused :: u32
  r_ebx :: u32
  r_edx :: u32
  r_ecx :: u32
  r_eax :: u32
  r_eip :: u32
  r_cs :: u32
  r_eflags :: u32
  r_esp :: u32
  r_ss :: u32

record int_registers =
  i_ds :: u32
  i_edi :: u32
  i_esi :: u32
  i_ebp :: u32
  i_kern_esp :: u32
  i_ebx :: u32
  i_edx :: u32
  i_ecx :: u32
  i_eax :: u32
  i_interrupt :: u32
  i_error :: u32
  i_eip :: u32
  i_cs :: u32
  i_eflags :: u32
  i_esp :: u32
  i_ss :: u32

record process =
  pid :: u32
  terminal_id :: u32
  waiting_for :: u32
  is_kernel_mode :: bool
  cwd :: bytes
  page_directory :: u32
  kernel_stack :: u32
  process_break :: u32
  p_state :: process_state
  fd_table :: "file_descriptor list"
  p_registers :: process_registers

record process_node =
  proc :: process
  n_next :: u32
  n_prev :: u32

record terminal =
  t_id :: u32
  input_buf :: bytes
  input_len :: u32
  is_input_ready :: bool
  parent_process_pid :: u32
  t_stdin :: "nat option"
  t_stdout :: "nat option"
  t_stderr :: "nat option"

record keyboard_state_flags =
  right_shift_pressed :: bool
  left_shift_pressed :: bool
  ctrl_pressed :: bool
  alt_pressed :: bool
  scroll_lock_pressed :: bool
  num_lock_pressed :: bool
  caps_lock_pressed :: bool

datatype isr_handler = Timer_irq | Keyboard_irq | Handle_syscall | Switch_process

datatype syscall =
    Sys_exit | Sys_read | Sys_write | Sys_open | Sys_close | Sys_unlink | Sys_chdir | Sys_lseek
  | Sys_getpid | Sys_rename | Sys_mkdir | Sys_rmdir | Sys_times | Sys_gettimeofday | Sys_truncate
  | Sys_ftruncate | Sys_stat | Sys_fstat | Sys_getdents | Sys_getcwd | Sys_execve | Sys_sbrk
  | Print_logo | Print_bye

record kernel =
  kheap :: heap
  kfat :: fat
  screen :: vga
  kcpu :: cpu
  timer :: pit
  pic_chips :: "chip \<times> chip"
  nodes :: "u32 \<Rightarrow> process_node option"
  process_list_head :: u32
  process_list_tail :: u32
  next_pid :: u32
  current_process_g :: u32
  run_processes :: bool
  manage_initialized :: bool
  global_fd_table :: "global_file_descriptor list"
  terminals :: "terminal list"
  current_active_terminal_id :: u32
  keyboard_state :: keyboard_state_flags
  handlers :: "isr_handler option list"
  syscall_handler_array :: "syscall option list"

definition MAX_FD :: nat where "MAX_FD = 256"
definition MAX_LOCAL_FD :: nat where "MAX_LOCAL_FD = 128"
definition IDT_SIZE :: nat where "IDT_SIZE = 256"
definition TERMINAL_AMMOUNT :: nat where "TERMINAL_AMMOUNT = 4"
definition INPUT_BUFFER_SIZE :: nat where "INPUT_BUFFER_SIZE = 256"

definition zero_fd :: file_descriptor where
  "zero_fd = \<lparr>global_fd = None, fd_flags = 0, fd_offset = 0, fd_used = False\<rparr>"

definition zero_global_fd :: global_file_descriptor where
  "zero_global_fd = \<lparr>g_read = None, g_file = \<lparr>file_entry = zero_entry, parent_entry = zero_entry\<rparr>,
     ref_count = 0, g_path = replicate 256 0, is_dir = False, g_used = False, is_device = False\<rparr>"

definition zero_regs :: process_registers where
  "zero_regs = \<lparr>r_edi = 0, r_esi = 0, r_ebp = 0, r_unused = 0, r_ebx = 0, r_edx = 0, r_ecx = 0, r_eax = 0,
     r_eip = 0, r_cs = 0, r_eflags = 0, r_esp = 0, r_ss = 0\<rparr>"

section \<open>Process nodes\<close>

definition node_set :: "u32 \<Rightarrow> (process_node \<Rightarrow> process_node) \<Rightarrow> kernel \<Rightarrow> kernel option" where
  "node_set a f s = do {
     n \<leftarrow> nodes s a;
     Some (s\<lparr>nodes := (nodes s)(a \<mapsto> f n)\<rparr>)
   }"

definition proc_set :: "u32 \<Rightarrow> (process \<Rightarrow> process) \<Rightarrow> kernel \<Rightarrow> kernel option" where
  "proc_set a f = node_set a (\<lambda>n. n\<lparr>proc := f (proc n)\<rparr>)"

definition get_current_process :: "kernel \<Rightarrow> u32 option" where
  "get_current_process s = (if current_process_g s \<noteq> 0 then Some (current_process_g s) else None)"

section \<open>Interrupt handlers\<close>

definition register_isr_handler :: "u32 \<Rightarrow> isr_handler \<Rightarrow> kernel \<Rightarrow> bool \<times> kernel" where
  "register_isr_handler index handler s =
     (if of_nat IDT_SIZE \<le> index then (False, s)
      else (True, s\<lparr>handlers := (handlers s)[unat index := Some handler]\<rparr>))"

section \<open>The table of open files\<close>

definition gfd_set :: "nat \<Rightarrow> (global_file_descriptor \<Rightarrow> global_file_descriptor) \<Rightarrow> kernel \<Rightarrow> kernel option" where
  "gfd_set i f s = do {
     g \<leftarrow> arr_get (global_fd_table s) i;
     t \<leftarrow> arr_set (global_fd_table s) i (f g);
     Some (s\<lparr>global_fd_table := t\<rparr>)
   }"

text \<open>The loops over the table: \<open>i\<close> is the index, \<open>n\<close> entries are left.\<close>

fun find_opened :: "bytes \<Rightarrow> nat \<Rightarrow> nat \<Rightarrow> global_file_descriptor list \<Rightarrow> nat option option" where
  "find_opened path i 0 t = Some None"
| "find_opened path i (Suc n) t = do {
     g \<leftarrow> arr_get t i;
     if g_used g then do {
       r \<leftarrow> strncmp (g_path g) path 256;
       if r = 0 then Some (Some i) else find_opened path (Suc i) n t
     } else find_opened path (Suc i) n t
   }"

definition get_opened_fd :: "bytes \<Rightarrow> kernel \<Rightarrow> nat option option" where
  "get_opened_fd path s = find_opened path 0 MAX_FD (global_fd_table s)"

fun find_unused :: "nat \<Rightarrow> nat \<Rightarrow> global_file_descriptor list \<Rightarrow> nat option option" where
  "find_unused i 0 t = Some None"
| "find_unused i (Suc n) t = do {
     g \<leftarrow> arr_get t i;
     if \<not> g_used g then Some (Some i) else find_unused (Suc i) n t
   }"

definition allocate_global_fd :: "bytes \<Rightarrow> kernel \<Rightarrow> (nat option \<times> kernel) option" where
  "allocate_global_fd path s = do {
     r \<leftarrow> find_unused 0 MAX_FD (global_fd_table s);
     (case r of
        None \<Rightarrow> Some (None, s)
      | Some i \<Rightarrow> do {
          p \<leftarrow> strncpy (replicate 256 0) path 255;
          s \<leftarrow> gfd_set i (\<lambda>_. zero_global_fd\<lparr>g_path := p, g_read := Some Read_fat_fs, is_device := False,
                 ref_count := 1\<rparr>) s;
          Some (Some i, s)
        })
   }"

definition allocate_device_fd :: "kernel \<Rightarrow> (nat option \<times> kernel) option" where
  "allocate_device_fd s = do {
     r \<leftarrow> find_unused 0 MAX_FD (global_fd_table s);
     (case r of
        None \<Rightarrow> Some (None, s)
      | Some i \<Rightarrow> do {
          s \<leftarrow> gfd_set i (\<lambda>_. zero_global_fd\<lparr>ref_count := 1, is_device := True, g_used := True\<rparr>) s;
          Some (Some i, s)
        })
   }"

definition read_fat_fs :: "bytes \<Rightarrow> u32 \<Rightarrow> u32 \<Rightarrow> nat \<Rightarrow> kernel \<Rightarrow> (int \<times> bytes) option" where
  "read_fat_fs buf count off glob_fd s = do {
     g \<leftarrow> arr_get (global_fd_table s) glob_fd;
     fat_read (file_entry (g_file g)) off count buf (kfat s)
   }"

end
