(* ===== verification/Process.thy ===== *)
theory Process
  imports Kernel
begin

text \<open>
  The process list and the scheduler, \<open>process/manager/process_manager.c\<close> (the creation of processes
  is in the loader theory).

  \<open>switch_process\<close> and \<open>exit_proc\<close> end in a jump to a process: the result says how the call ends.
  \<open>jump_kernelmode\<close> and \<open>jump_usermode\<close> are assembly that loads the given registers. The loops over the
  circular process list are partial functions; a loop that finds nothing to run never ends.
\<close>

section \<open>Operations\<close>

datatype control =
    Returned int
  | Jump_kernelmode process_registers
  | Jump_usermode process_registers
  | Panic string

definition add_to_linked_list :: "u32 \<Rightarrow> kernel \<Rightarrow> kernel option" where
  "add_to_linked_list new_process_node s =
     (if new_process_node = 0 then Some s
      else do {
        s \<leftarrow> node_set new_process_node (\<lambda>n. n\<lparr>n_next := 0\<rparr>) s;
        s \<leftarrow> node_set new_process_node (\<lambda>n. n\<lparr>n_prev := 0\<rparr>) s;
        if process_list_head s = 0
        then Some (s\<lparr>process_list_head := new_process_node, process_list_tail := new_process_node\<rparr>)
        else do {
          s \<leftarrow> node_set (process_list_tail s) (\<lambda>n. n\<lparr>n_next := new_process_node\<rparr>) s;
          s \<leftarrow> node_set new_process_node (\<lambda>n. n\<lparr>n_prev := process_list_tail s\<rparr>) s;
          Some (s\<lparr>process_list_tail := new_process_node\<rparr>)
        }
      })"

definition proc_manager_init :: "kernel \<Rightarrow> kernel option" where
  "proc_manager_init s = do {
     s \<leftarrow> gfd_set 0 (\<lambda>g. g\<lparr>g_used := True\<rparr>) s;
     s \<leftarrow> gfd_set 1 (\<lambda>g. g\<lparr>g_used := True\<rparr>) s;
     s \<leftarrow> gfd_set 2 (\<lambda>g. g\<lparr>g_used := True\<rparr>) s;
     let s = s\<lparr>manage_initialized := True\<rparr>;
     Some (snd (register_isr_handler 0x69 Switch_process s))
   }"

definition init_proc_fd :: "file_descriptor list \<Rightarrow> file_descriptor list" where
  "init_proc_fd t = t[0 := zero_fd\<lparr>fd_used := True\<rparr>, 1 := zero_fd\<lparr>fd_used := True\<rparr>, 2 := zero_fd\<lparr>fd_used := True\<rparr>]"

definition remove_from_linked_list :: "u32 \<Rightarrow> kernel \<Rightarrow> (int \<times> kernel) option" where
  "remove_from_linked_list proc_node s =
     (if proc_node = 0 then Some (- 1, s)
      else do {
        n \<leftarrow> nodes s proc_node;
        let s = (if proc_node = process_list_head s then s\<lparr>process_list_head := n_next n\<rparr> else s);
        let s = (if proc_node = process_list_tail s then s\<lparr>process_list_tail := n_prev n\<rparr> else s);
        s \<leftarrow> (if n_prev n \<noteq> 0 then node_set (n_prev n) (\<lambda>m. m\<lparr>n_next := n_next n\<rparr>) s else Some s);
        n \<leftarrow> nodes s proc_node;
        s \<leftarrow> (if n_next n \<noteq> 0 then node_set (n_next n) (\<lambda>m. m\<lparr>n_prev := n_prev n\<rparr>) s else Some s);
        Some (0, s)
      })"

definition free_proc_node :: "u32 \<Rightarrow> kernel \<Rightarrow> kernel option" where
  "free_proc_node process s = do {
     n \<leftarrow> nodes s process;
     h \<leftarrow> kfree (page_directory (proc n)) (kheap s);
     h \<leftarrow> kfree process h;
     Some (s\<lparr>kheap := h, nodes := (nodes s)(process := None)\<rparr>)
   }"

definition load_directory :: "u32 \<Rightarrow> kernel \<Rightarrow> kernel option" where
  "load_directory pd s = do {
     v \<leftarrow> load_pd pd (vmem (kheap s));
     Some (s\<lparr>kheap := (kheap s)\<lparr>vmem := v\<rparr>\<rparr>)
   }"

definition jump_proc_wrapper :: "u32 \<Rightarrow> kernel \<Rightarrow> (control \<times> kernel) option" where
  "jump_proc_wrapper p s = do {
     n \<leftarrow> nodes s p;
     s \<leftarrow> load_directory (page_directory (proc n)) s;
     c \<leftarrow> tss_fill_esp0 (kernel_stack (proc n)) (kcpu s);
     let s = s\<lparr>kcpu := c\<rparr>;
     Some (if is_kernel_mode (proc n) then Jump_kernelmode (p_registers (proc n))
           else Jump_usermode (p_registers (proc n)), s)
   }"

text \<open>The step that every loop over the processes makes: the next node, or the head after the last.\<close>

definition next_process :: "u32 \<Rightarrow> kernel \<Rightarrow> u32 option" where
  "next_process iter s = do {
     n \<leftarrow> nodes s iter;
     Some (if n_next n \<noteq> 0 then n_next n else process_list_head s)
   }"

partial_function (option) wake_loop :: "(process \<Rightarrow> process) \<Rightarrow> u32 \<Rightarrow> kernel \<Rightarrow> kernel option" where
  "wake_loop f iter s = do {
     s \<leftarrow> proc_set iter f s;
     iter \<leftarrow> next_process iter s;
     if iter \<noteq> current_process_g s then wake_loop f iter s else Some s
   }"

definition wake_up_terminal_processes :: "u32 \<Rightarrow> kernel \<Rightarrow> kernel option" where
  "wake_up_terminal_processes tid s =
     wake_loop (\<lambda>p. if p_state p = PROCESS_BLOCKED \<and> terminal_id p = tid then p\<lparr>p_state := PROCESS_READY\<rparr> else p)
       (current_process_g s) s"

definition wake_up_waiting_processes :: "u32 \<Rightarrow> kernel \<Rightarrow> kernel option" where
  "wake_up_waiting_processes wait_for_pid s =
     wake_loop (\<lambda>p. if p_state p = PROCESS_WAITING \<and> waiting_for p = wait_for_pid
                    then p\<lparr>p_state := PROCESS_READY, waiting_for := 0\<rparr> else p)
       (current_process_g s) s"

definition exit_proc :: "u32 \<Rightarrow> kernel \<Rightarrow> (control \<times> kernel) option" where
  "exit_proc exiting_proc s =
     (if exiting_proc = 0 then Some (Returned (- 22), s)
      else if process_list_head s = 0 then Some (Panic ''No process running, Reboot PC1!!!'', s)
      else do {
        n \<leftarrow> nodes s exiting_proc;
        s \<leftarrow> wake_up_waiting_processes (pid (proc n)) s;
        c \<leftarrow> next_process (current_process_g s) s;
        let s = s\<lparr>current_process_g := c\<rparr>;
        if c = 0 then Some (Panic ''No process running, Reboot PC2!!!'', s)
        else do {
          s \<leftarrow> load_directory get_kernel_pd s;
          (r, s) \<leftarrow> remove_from_linked_list exiting_proc s;
          s \<leftarrow> free_proc_node exiting_proc s;
          jump_proc_wrapper (current_process_g s) s
        }
      })"

definition exit_current_process :: "kernel \<Rightarrow> (control \<times> kernel) option" where
  "exit_current_process s = exit_proc (current_process_g s) s"

definition copy_registers :: "int_registers \<Rightarrow> process_registers \<Rightarrow> process_registers" where
  "copy_registers src dst = dst\<lparr>r_edi := i_edi src, r_esi := i_esi src, r_ebp := i_ebp src, r_unused := 0,
     r_ebx := i_ebx src, r_edx := i_edx src, r_ecx := i_ecx src, r_eax := i_eax src, r_eip := i_eip src,
     r_cs := i_cs src, r_eflags := i_eflags src, r_esp := i_esp src, r_ss := i_ss src\<rparr>"

partial_function (option) find_ready :: "u32 \<Rightarrow> kernel \<Rightarrow> u32 option" where
  "find_ready cur s = do {
     cur \<leftarrow> next_process cur s;
     n \<leftarrow> nodes s cur;
     if p_state (proc n) \<noteq> PROCESS_READY then find_ready cur s else Some cur
   }"

definition switch_process :: "int_registers \<Rightarrow> kernel \<Rightarrow> (control \<times> kernel) option" where
  "switch_process regs s =
     (if process_list_head s = 0 then Some (Returned 0, s)
      else do {
        s \<leftarrow> (if current_process_g s = 0 then Some (s\<lparr>current_process_g := process_list_head s\<rparr>)
              else do {
                s \<leftarrow> proc_set (current_process_g s)
                       (\<lambda>p. if p_state p = PROCESS_RUNNING then p\<lparr>p_state := PROCESS_READY\<rparr> else p) s;
                s \<leftarrow> proc_set (current_process_g s) (\<lambda>p. p\<lparr>p_registers := copy_registers regs (p_registers p)\<rparr>) s;
                c \<leftarrow> find_ready (current_process_g s) s;
                Some (s\<lparr>current_process_g := c\<rparr>)
              });
        s \<leftarrow> proc_set (current_process_g s) (\<lambda>p. p\<lparr>p_state := PROCESS_RUNNING\<rparr>) s;
        jump_proc_wrapper (current_process_g s) s
      })"

definition enable_processes :: "kernel \<Rightarrow> kernel" where
  "enable_processes s = (if \<not> manage_initialized s then s else s\<lparr>run_processes := True\<rparr>)"

definition is_schduling :: "kernel \<Rightarrow> bool" where
  "is_schduling s = run_processes s"

definition pit_init :: "kernel \<Rightarrow> kernel" where
  "pit_init s =
     (let (t, p) = pit_program pics (timer s, pic_chips s);
          s = snd (register_isr_handler PIC1_IRQ_INDEX Timer_irq (s\<lparr>timer := t, pic_chips := p\<rparr>))
      in s\<lparr>pic_chips := pic_toggle_irq pics 0 True (pic_chips s)\<rparr>)"

text \<open>\<open>timer_irq\<close> of \<open>cpu/pit/pit.c\<close>: the clock, the end-of-interrupt, and the switch when it is due.\<close>

definition timer_irq :: "int_registers \<Rightarrow> kernel \<Rightarrow> (control \<times> kernel) option" where
  "timer_irq regs s =
     (let (due, t) = timer_count (timer s);
          s = s\<lparr>timer := t, pic_chips := irq_exit pics 0 (pic_chips s)\<rparr>
      in if due \<and> is_schduling s then switch_process regs s else Some (Returned 0, s))"

section \<open>The process list\<close>

definition first :: "u32 list \<Rightarrow> u32 \<Rightarrow> u32" where
  "first xs a = (case xs of [] \<Rightarrow> a | x # _ \<Rightarrow> x)"

definition final :: "u32 \<Rightarrow> u32 list \<Rightarrow> u32" where
  "final a xs = (if xs = [] then a else last xs)"

lemma first_simps [simp]: "first [] a = a" "first (x # xs) a = x" "first (xs @ ys) a = first xs (first ys a)"
  by (simp_all add: first_def split: list.split)

lemma final_simps [simp]: "final a [] = a" "final a (xs @ [x]) = x" "final a (x # xs) = final x xs"
  by (simp_all add: final_def)

lemma final_append [simp]: "final a (xs @ ys) = final (final a xs) ys"
  by (simp add: final_def)

text \<open>
  \<open>seg m p xs q\<close>: the nodes \<open>xs\<close> are linked in this order, the predecessor of the first one is \<open>p\<close> and
  the successor of the last one is \<open>q\<close>.
\<close>

definition links :: "process_node \<Rightarrow> u32 \<times> u32" where
  "links n = (n_next n, n_prev n)"

fun seg :: "(u32 \<Rightarrow> process_node option) \<Rightarrow> u32 \<Rightarrow> u32 list \<Rightarrow> u32 \<Rightarrow> bool" where
  "seg m p [] q \<longleftrightarrow> True"
| "seg m p (x # xs) q \<longleftrightarrow> map_option links (m x) = Some (first xs q, p) \<and> seg m x xs q"

definition plist :: "kernel \<Rightarrow> u32 list \<Rightarrow> bool" where
  "plist s xs \<longleftrightarrow> distinct xs \<and> 0 \<notin> set xs \<and> process_list_head s = first xs 0 \<and>
     process_list_tail s = final 0 xs \<and> seg (nodes s) 0 xs 0"

lemma seg_append [simp]: "seg m p (xs @ ys) q \<longleftrightarrow> seg m p xs (first ys q) \<and> seg m (final p xs) ys q"
  by (induction xs arbitrary: p) auto

text \<open>Changes of the process data and of nodes elsewhere leave a segment as it is.\<close>

lemma seg_cong:
  "(\<And>x. x \<in> set xs \<Longrightarrow> map_option links (m' x) = map_option links (m x)) \<Longrightarrow> seg m' p xs q = seg m p xs q"
  by (induction xs arbitrary: p) auto

lemma seg_nodes: "seg m p xs q \<Longrightarrow> x \<in> set xs \<Longrightarrow> \<exists>n. m x = Some n"
  by (induction xs arbitrary: p) auto

lemma plist_nodes: "plist s xs \<Longrightarrow> x \<in> set xs \<Longrightarrow> \<exists>n. nodes s x = Some n"
  by (auto simp: plist_def intro: seg_nodes)

lemma node_set_Some: "nodes s a = Some n \<Longrightarrow> node_set a f s = Some (s\<lparr>nodes := (nodes s)(a \<mapsto> f n)\<rparr>)"
  by (simp add: node_set_def)

lemma proc_set_Some:
  "nodes s a = Some n \<Longrightarrow> proc_set a f s = Some (s\<lparr>nodes := (nodes s)(a \<mapsto> n\<lparr>proc := f (proc n)\<rparr>)\<rparr>)"
  by (simp add: proc_set_def node_set_Some)

lemma links_simps [simp]:
  "links (n\<lparr>proc := x\<rparr>) = links n" "links (n\<lparr>n_next := a\<rparr>) = (a, n_prev n)" "links (n\<lparr>n_prev := a\<rparr>) = (n_next n, a)"
  by (simp_all add: links_def)

definition procs :: "kernel \<Rightarrow> u32 \<Rightarrow> process option" where
  "procs s a = map_option proc (nodes s a)"

lemma add_to_linked_list_plist:
  assumes "plist s xs" and "a \<noteq> 0" and "a \<notin> set xs" and "nodes s a = Some n"
  shows "\<exists>s'. add_to_linked_list a s = Some s' \<and> plist s' (xs @ [a]) \<and> procs s' = procs s \<and>
    (\<forall>f m t. s'\<lparr>nodes := f, process_list_head := m, process_list_tail := t\<rparr> =
       s\<lparr>nodes := f, process_list_head := m, process_list_tail := t\<rparr>)"
proof (cases xs rule: rev_cases)
  case Nil
  then show ?thesis using assms
    by (auto simp: add_to_linked_list_def node_set_def plist_def links_def procs_def fun_eq_iff)
next
  case (snoc ys z)
  with assms obtain k where k: "nodes s z = Some k" "n_next k = 0" "n_prev k = final 0 ys"
    by (auto simp: plist_def links_def)
  have h: "process_list_head s \<noteq> 0" "process_list_tail s = z" "z \<noteq> a" "z \<noteq> 0"
    using assms snoc by (cases ys; auto simp: plist_def)+
  let ?m = "(nodes s)(a \<mapsto> n\<lparr>n_next := 0, n_prev := z\<rparr>, z \<mapsto> k\<lparr>n_next := a\<rparr>)"
  have "add_to_linked_list a s = Some (s\<lparr>nodes := ?m, process_list_tail := a\<rparr>)"
    using assms(2,4) h k by (simp add: add_to_linked_list_def node_set_def fun_upd_twist)
  moreover have "seg ?m 0 ys z = seg (nodes s) 0 ys z"
    by (rule seg_cong) (use assms snoc in \<open>auto simp: plist_def\<close>)
  then have "plist (s\<lparr>nodes := ?m, process_list_tail := a\<rparr>) (xs @ [a])"
    using assms snoc k h by (auto simp: plist_def links_def)
  ultimately show ?thesis using k(1) assms(4) by (auto simp: procs_def fun_eq_iff)
qed

lemma remove_from_linked_list_plist:
  assumes "plist s (ys @ a # zs)"
  shows "\<exists>s'. remove_from_linked_list a s = Some (0, s') \<and> plist s' (ys @ zs) \<and> procs s' = procs s \<and>
    nodes s' a = nodes s a \<and> kheap s' = kheap s \<and> kcpu s' = kcpu s \<and> current_process_g s' = current_process_g s"
proof -
  have d: "distinct (ys @ a # zs)" "0 \<notin> set (ys @ a # zs)" "seg (nodes s) 0 ys a"
    "process_list_head s = first ys a" "process_list_tail s = final a zs"
    and z: "seg (nodes s) a zs 0"
    using assms by (auto simp: plist_def)
  obtain n where n: "nodes s a = Some n" "n_next n = first zs 0" "n_prev n = final 0 ys"
    using assms by (auto simp: plist_def links_def)
  have head: "a = process_list_head s \<longleftrightarrow> ys = []" using d by (cases ys) auto
  have tail: "a = process_list_tail s \<longleftrightarrow> zs = []" using d by (cases zs rule: rev_cases) auto
  show ?thesis
  proof (cases ys rule: rev_cases; cases zs)
    show ?thesis if "ys = []" and "zs = []"
      using that d n head tail
      by (auto simp: remove_from_linked_list_def plist_def procs_def)
  next
    fix v vs
    assume eq: "ys = []" "zs = v # vs"
    obtain k where k: "nodes s v = Some k" "n_next k = first vs 0" "n_prev k = a"
      using z eq by (auto simp: links_def)
    have "seg ((nodes s)(v \<mapsto> k\<lparr>n_prev := 0\<rparr>)) v vs 0 = seg (nodes s) v vs 0"
      by (rule seg_cong) (use d eq in auto)
    then show ?thesis using eq d n z head tail k
      by (auto simp: remove_from_linked_list_def node_set_def plist_def links_def procs_def fun_eq_iff)
  next
    fix us u
    assume eq: "ys = us @ [u]" "zs = []"
    obtain k where k: "nodes s u = Some k" "n_next k = a" "n_prev k = final 0 us"
      using d(3) eq by (auto simp: links_def)
    have "seg ((nodes s)(u \<mapsto> k\<lparr>n_next := 0\<rparr>)) 0 us u = seg (nodes s) 0 us u"
      by (rule seg_cong) (use d eq in auto)
    then show ?thesis using eq d n head tail k
      by (auto simp: remove_from_linked_list_def node_set_def plist_def links_def procs_def fun_eq_iff)
  next
    fix us u v vs
    assume eq: "ys = us @ [u]" "zs = v # vs"
    obtain k where k: "nodes s u = Some k" "n_next k = a" "n_prev k = final 0 us"
      using d(3) eq by (auto simp: links_def)
    obtain l where l: "nodes s v = Some l" "n_next l = first vs 0" "n_prev l = a"
      using z eq by (auto simp: links_def)
    let ?m = "(nodes s)(u \<mapsto> k\<lparr>n_next := v\<rparr>, v \<mapsto> l\<lparr>n_prev := u\<rparr>)"
    have "seg ?m 0 us u = seg (nodes s) 0 us u" "seg ?m v vs 0 = seg (nodes s) v vs 0"
      by (rule seg_cong; use d eq in auto)+
    then show ?thesis using eq d n z head tail k l
      by (auto simp: remove_from_linked_list_def node_set_def plist_def links_def procs_def fun_eq_iff)
  qed
qed

section \<open>Going round the list\<close>

fun walk :: "kernel \<Rightarrow> u32 \<Rightarrow> u32 list \<Rightarrow> bool" where
  "walk s a [] \<longleftrightarrow> True"
| "walk s a (w # ws) \<longleftrightarrow> next_process a s = Some w \<and> walk s w ws"

lemma walk_append: "walk s a (us @ vs) \<longleftrightarrow> walk s a us \<and> walk s (final a us) vs"
  by (induction us arbitrary: a) auto

lemma walk_seg: "seg (nodes s) p (x # us) q \<Longrightarrow> 0 \<notin> set us \<Longrightarrow> walk s x us"
proof (induction us arbitrary: p x)
  case Nil
  then show ?case by simp
next
  case (Cons u us)
  then show ?case by (auto simp: next_process_def links_def)
qed

text \<open>The cyclic order: from a process over the ones behind it, then from the head, back to itself.\<close>

lemma plist_walk:
  assumes "plist s (ys @ a # zs)"
  shows "walk s a (zs @ ys @ [a])"
proof -
  have seg: "seg (nodes s) 0 ys a" "seg (nodes s) (final 0 ys) (a # zs) 0" "0 \<notin> set (ys @ a # zs)"
    "process_list_head s = first ys a"
    using assms by (auto simp: plist_def)
  have z: "walk s a zs" using walk_seg[OF seg(2)] seg(3) by simp
  have "map_option links (nodes s (final a zs)) = Some (0, final (final 0 ys) (butlast (a # zs)))"
  proof (cases zs rule: rev_cases)
    case Nil
    then show ?thesis using seg(2) by simp
  next
    case (snoc us u)
    then show ?thesis using seg(2) by (cases us) (auto simp: butlast_append)
  qed
  then have n: "next_process (final a zs) s = Some (first ys a)"
    using seg(4) by (auto simp: next_process_def links_def)
  have "walk s (final a zs) (ys @ [a])"
  proof (cases ys)
    case Nil
    then show ?thesis using n by simp
  next
    case (Cons y us)
    have "seg (nodes s) 0 (y # us @ [a]) (first zs 0)" using seg(1,2) Cons by simp
    then have "walk s y (us @ [a])" by (rule walk_seg) (use seg(3) Cons in auto)
    then show ?thesis using n Cons by simp
  qed
  then show ?thesis using z by (simp add: walk_append)
qed

lemma next_process_cong:
  assumes "\<And>x. map_option links (nodes s' x) = map_option links (nodes s x)"
    and "process_list_head s' = process_list_head s"
  shows "next_process a s' = next_process a s"
proof -
  have "map_option links (nodes s' a) = map_option links (nodes s a)" by (rule assms(1))
  then show ?thesis
    using assms(2) by (cases "nodes s a"; cases "nodes s' a") (auto simp: next_process_def links_def)
qed

lemma walk_cong:
  assumes "\<And>x. map_option links (nodes s' x) = map_option links (nodes s x)"
    and "process_list_head s' = process_list_head s"
  shows "walk s' a ws = walk s a ws"
  by (induction ws arbitrary: a) (auto simp: next_process_cong[OF assms])

lemma plist_cong:
  assumes "\<And>x. map_option links (nodes s' x) = map_option links (nodes s x)"
    and "process_list_head s' = process_list_head s" and "process_list_tail s' = process_list_tail s"
  shows "plist s' xs = plist s xs"
  unfolding plist_def assms(2,3) using seg_cong[of xs "nodes s'" "nodes s"] assms(1) by metis

subsection \<open>Waking up\<close>

text \<open>The nodes of a set with their processes changed by \<open>f\<close>.\<close>

definition map_procs :: "u32 set \<Rightarrow> (process \<Rightarrow> process) \<Rightarrow> kernel \<Rightarrow> kernel" where
  "map_procs A f s = s\<lparr>nodes := (\<lambda>x. if x \<in> A then map_option (\<lambda>n. n\<lparr>proc := f (proc n)\<rparr>) (nodes s x) else nodes s x)\<rparr>"

lemma map_procs_sel [simp]:
  "current_process_g (map_procs A f s) = current_process_g s"
  "process_list_head (map_procs A f s) = process_list_head s"
  "process_list_tail (map_procs A f s) = process_list_tail s"
  "kheap (map_procs A f s) = kheap s" "kcpu (map_procs A f s) = kcpu s"
  "map_option links (nodes (map_procs A f s) x) = map_option links (nodes s x)"
  by (simp_all add: map_procs_def option.map_comp o_def)

lemma plist_map_procs [simp]: "plist (map_procs A f s) xs = plist s xs"
  by (rule plist_cong) simp_all

lemma procs_map_procs: "procs (map_procs A f s) x = (if x \<in> A then map_option f (procs s x) else procs s x)"
  by (simp add: procs_def map_procs_def option.map_comp o_def)

lemma proc_set_map: "nodes s a = Some n \<Longrightarrow> proc_set a f s = Some (map_procs {a} f s)"
  by (auto simp: proc_set_Some map_procs_def fun_eq_iff intro!: arg_cong[where f = "\<lambda>m. s\<lparr>nodes := m\<rparr>"])

lemma map_procs_insert: "a \<notin> A \<Longrightarrow> map_procs A f (map_procs {a} f s) = map_procs (insert a A) f s"
  by (auto simp: map_procs_def fun_eq_iff intro!: arg_cong[where f = "\<lambda>m. s\<lparr>nodes := m\<rparr>"])

lemma wake_loop_walk:
  assumes "walk s u (us @ [current_process_g s])" and "current_process_g s \<notin> set us"
    and "distinct (u # us)" and "\<forall>x \<in> set (u # us). nodes s x \<noteq> None"
  shows "wake_loop f u s = Some (map_procs (set (u # us)) f s)"
  using assms
proof (induction us arbitrary: u s)
  case Nil
  then obtain n where "nodes s u = Some n" by auto
  moreover have "walk (map_procs {u} f s) u [current_process_g s]"
    using Nil.prems(1) by (subst walk_cong[of _ s]) simp_all
  ultimately show ?case by (simp add: wake_loop.simps proc_set_map)
next
  case (Cons v us)
  then obtain n where n: "nodes s u = Some n" by auto
  let ?s = "map_procs {u} f s"
  have w: "walk ?s u (v # us @ [current_process_g s])"
    using Cons.prems(1) by (subst walk_cong[of _ s]) simp_all
  have "\<forall>x \<in> set (v # us). nodes ?s x \<noteq> None"
    using Cons.prems(4) by (simp add: map_procs_def)
  then have "wake_loop f v ?s = Some (map_procs (set (v # us)) f ?s)"
    using Cons.IH[of ?s v] Cons.prems w by simp
  moreover have "map_procs (set (v # us)) f ?s = map_procs (set (u # v # us)) f s"
    using map_procs_insert[of u "set (v # us)" f s] Cons.prems(3) by simp
  ultimately show ?case using n w Cons.prems(2)
    by (subst wake_loop.simps) (auto simp: proc_set_map)
qed

lemma wake_loop_all:
  assumes "plist s xs" and "current_process_g s \<in> set xs"
  shows "wake_loop f (current_process_g s) s = Some (map_procs (set xs) f s)"
proof -
  obtain ys zs where xs: "xs = ys @ current_process_g s # zs"
    using assms(2) by (meson split_list)
  have "walk s (current_process_g s) ((zs @ ys) @ [current_process_g s])"
    using plist_walk[of s ys] assms(1) xs by simp
  moreover have "distinct (current_process_g s # zs @ ys)" "set (current_process_g s # zs @ ys) = set xs"
    using assms(1) xs by (auto simp: plist_def)
  moreover have "\<forall>x \<in> set xs. nodes s x \<noteq> None" using plist_nodes[OF assms(1)] by auto
  ultimately show ?thesis using wake_loop_walk[of s "current_process_g s" "zs @ ys" f] by simp
qed

subsection \<open>Scheduling\<close>

lemma find_ready_walk:
  assumes "walk s a (us @ [w])" and "\<forall>u \<in> set us. \<exists>p. procs s u = Some p \<and> p_state p \<noteq> PROCESS_READY"
    and "procs s w = Some p" and "p_state p = PROCESS_READY"
  shows "find_ready a s = Some w"
  using assms
proof (induction us arbitrary: a)
  case Nil
  then show ?case by (subst find_ready.simps) (auto simp: procs_def)
next
  case (Cons u us)
  then show ?case by (subst find_ready.simps) (fastforce simp: procs_def)
qed

text \<open>
  The page directories that are in use: each can be loaded while any of them is active. They share the
  kernel's part, and each has the recursive entry.
\<close>

definition pds_ok :: "vm \<Rightarrow> u32 set \<Rightarrow> bool" where
  "pds_ok v P \<longleftrightarrow> (\<exists>f. cr3 v \<in> f ` P \<and>
     (\<forall>p \<in> P. \<forall>q \<in> P. get_physical_address q (v\<lparr>cr3 := f p\<rparr>) = Some (f q)))"

lemma get_physical_address_cpd [simp]:
  "get_physical_address q (v\<lparr>current_page_directory := d\<rparr>) = get_physical_address q v"
  by (simp add: get_physical_address_def vload_def mmu_frame_def Let_def)

lemma load_pd_ok:
  assumes "pds_ok v P" and "q \<in> P"
  obtains v' where "load_pd q v = Some v'" and "pds_ok v' P" and "current_page_directory v' = q"
proof -
  obtain f where f: "cr3 v \<in> f ` P" "\<forall>p \<in> P. \<forall>q \<in> P. get_physical_address q (v\<lparr>cr3 := f p\<rparr>) = Some (f q)"
    using assms(1) by (auto simp: pds_ok_def)
  then obtain p where p: "p \<in> P" "cr3 v = f p" by auto
  have "v\<lparr>cr3 := f p\<rparr> = v" using p(2) by simp
  then have g: "get_physical_address q v = Some (f q)" using f(2) p(1) assms(2) by metis
  let ?v = "v\<lparr>current_page_directory := q, cr3 := f q\<rparr>"
  have eq: "?v\<lparr>cr3 := c\<rparr> = v\<lparr>cr3 := c, current_page_directory := q\<rparr>" for c by simp
  have "get_physical_address q' (?v\<lparr>cr3 := f p\<rparr>) = Some (f q')" if "p \<in> P" "q' \<in> P" for p q'
    using f(2) that by (simp add: eq del: get_physical_address_cpd) (simp add: get_physical_address_cpd)
  then have "pds_ok ?v P" using assms(2) by (auto simp: pds_ok_def intro!: exI[of _ f])
  then show ?thesis using g by (intro that[of ?v]) (simp_all add: load_pd_def load_pd_phys_addr_def)
qed

text \<open>
  What the scheduler relies on: a process list with the current process on it, the page
  directories of the processes, and the descriptor table.
\<close>

definition sched_ok :: "kernel \<Rightarrow> u32 list \<Rightarrow> bool" where
  "sched_ok s xs \<longleftrightarrow> plist s xs \<and> current_process_g s \<in> set xs \<and> length (gdt_table (kcpu s)) = 6 \<and>
     (\<exists>P. pds_ok (vmem (kheap s)) P \<and> (\<forall>x \<in> set xs. \<forall>p. procs s x = Some p \<longrightarrow> page_directory p \<in> P))"

lemma tss_fill_esp0_Some: "length (gdt_table c) = 6 \<Longrightarrow>
    \<exists>c'. tss_fill_esp0 e c = Some c' \<and> length (gdt_table c') = 6 \<and> esp0 (tss c') = e"
  by (simp add: tss_fill_esp0_def gdt_fill_entry_as_tss_def gdt_modify_Some tss_fill_entry_def Let_def)

definition jump_of :: "process \<Rightarrow> control" where
  "jump_of p = (if is_kernel_mode p then Jump_kernelmode (p_registers p) else Jump_usermode (p_registers p))"

lemma jump_proc_wrapper_ok:
  assumes "procs s a = Some p" and "pds_ok (vmem (kheap s)) P" and "page_directory p \<in> P"
    and "length (gdt_table (kcpu s)) = 6"
  obtains v c where "jump_proc_wrapper a s = Some (jump_of p, s\<lparr>kheap := (kheap s)\<lparr>vmem := v\<rparr>, kcpu := c\<rparr>)"
    and "pds_ok v P" and "current_page_directory v = page_directory p" and "length (gdt_table c) = 6"
    and "esp0 (tss c) = kernel_stack p"
proof -
  obtain n where n: "nodes s a = Some n" "proc n = p" using assms(1) by (auto simp: procs_def)
  obtain v where v: "load_pd (page_directory p) (vmem (kheap s)) = Some v" "pds_ok v P"
    "current_page_directory v = page_directory p"
    by (rule load_pd_ok[OF assms(2,3)])
  obtain c where c: "tss_fill_esp0 (kernel_stack p) (kcpu s) = Some c" "length (gdt_table c) = 6"
    "esp0 (tss c) = kernel_stack p"
    using tss_fill_esp0_Some[OF assms(4)] by blast
  show ?thesis
    by (rule that[of c v]) (use n v c in \<open>simp_all add: jump_proc_wrapper_def load_directory_def jump_of_def Let_def\<close>)
qed

text \<open>The ring of processes from the one behind \<open>a\<close> to \<open>a\<close> itself.\<close>

definition ring :: "kernel \<Rightarrow> u32 \<Rightarrow> u32 list \<Rightarrow> bool" where
  "ring s a ws \<longleftrightarrow> walk s a ws \<and> ws \<noteq> [] \<and> last ws = a \<and> distinct ws"

lemma plist_ring: "plist s (ys @ a # zs) \<Longrightarrow> ring s a (zs @ ys @ [a])"
  using plist_walk[of s ys a zs] by (auto simp: ring_def plist_def)

lemma ring_rotate:
  assumes "ring s a (us @ w # vs)"
  shows "ring s w (vs @ us @ [w])"
proof -
  have "final w vs = a" using assms by (auto simp: ring_def final_def split: if_splits)
  then show ?thesis using assms by (auto simp: ring_def walk_append)
qed

text \<open>The state in which \<open>switch_process\<close> looks for the next process.\<close>

definition suspend :: "int_registers \<Rightarrow> kernel \<Rightarrow> kernel" where
  "suspend regs s = map_procs {current_process_g s}
     (\<lambda>p. (if p_state p = PROCESS_RUNNING then p\<lparr>p_state := PROCESS_READY\<rparr> else p)
       \<lparr>p_registers := copy_registers regs (p_registers p)\<rparr>) s"

lemma suspend_sel [simp]:
  "current_process_g (suspend regs s) = current_process_g s" "kheap (suspend regs s) = kheap s"
  "kcpu (suspend regs s) = kcpu s" "plist (suspend regs s) xs = plist s xs"
  by (simp_all add: suspend_def)

lemma ring_suspend [simp]: "ring (suspend regs s) a ws = ring s a ws"
  unfolding ring_def by (subst walk_cong[of _ s]) (simp_all add: suspend_def)

lemma procs_suspend: "procs (suspend regs s) x = (if x = current_process_g s
    then map_option (\<lambda>p. (if p_state p = PROCESS_RUNNING then p\<lparr>p_state := PROCESS_READY\<rparr> else p)
           \<lparr>p_registers := copy_registers regs (p_registers p)\<rparr>) (procs s x) else procs s x)"
  by (simp add: suspend_def procs_map_procs)

definition is_ready :: "kernel \<Rightarrow> u32 \<Rightarrow> bool" where
  "is_ready s x \<longleftrightarrow> (\<exists>p. procs s x = Some p \<and> p_state p = PROCESS_READY)"

lemma procs_upd [simp]:
  "procs (s\<lparr>kheap := h\<rparr>) x = procs s x" "procs (s\<lparr>kcpu := c\<rparr>) x = procs s x"
  by (simp_all add: procs_def)

lemma suspend_run:
  assumes "nodes s (current_process_g s) = Some n"
  obtains s1 where "proc_set (current_process_g s)
      (\<lambda>p. if p_state p = PROCESS_RUNNING then p\<lparr>p_state := PROCESS_READY\<rparr> else p) s = Some s1"
    and "current_process_g s1 = current_process_g s"
    and "proc_set (current_process_g s) (\<lambda>p. p\<lparr>p_registers := copy_registers regs (p_registers p)\<rparr>) s1 =
      Some (suspend regs s)"
  using assms by (auto simp: proc_set_Some suspend_def map_procs_def fun_eq_iff
        intro!: arg_cong[where f = "\<lambda>m. s\<lparr>nodes := m\<rparr>"])

text \<open>The switch to \<open>w\<close>, up to the jump.\<close>

definition resume :: "u32 \<Rightarrow> kernel \<Rightarrow> kernel" where
  "resume w s = map_procs {w} (\<lambda>p. p\<lparr>p_state := PROCESS_RUNNING\<rparr>) (s\<lparr>current_process_g := w\<rparr>)"

lemma resume_sel [simp]:
  "current_process_g (resume w s) = w" "kheap (resume w s) = kheap s" "kcpu (resume w s) = kcpu s"
  "process_list_head (resume w s) = process_list_head s" "process_list_tail (resume w s) = process_list_tail s"
  "map_option links (nodes (resume w s) x) = map_option links (nodes s x)"
  by (simp_all add: resume_def)

lemma procs_resume:
  "procs (resume w s) x = (if x = w then map_option (\<lambda>p. p\<lparr>p_state := PROCESS_RUNNING\<rparr>) (procs s x) else procs s x)"
  by (simp add: resume_def procs_map_procs) (simp add: procs_def)

lemma switch_process_run:
  assumes "process_list_head s \<noteq> 0" and "current_process_g s \<noteq> 0" and "nodes s (current_process_g s) = Some n"
    and "find_ready (current_process_g s) (suspend regs s) = Some w" and "nodes (suspend regs s) w = Some k"
  shows "switch_process regs s = jump_proc_wrapper w (resume w (suspend regs s))"
proof -
  have "proc_set w (\<lambda>p. p\<lparr>p_state := PROCESS_RUNNING\<rparr>) (suspend regs s\<lparr>current_process_g := w\<rparr>) =
      Some (resume w (suspend regs s))"
    unfolding resume_def by (rule proc_set_map[of _ _ k]) (use assms(5) in simp)
  moreover obtain s1 where "proc_set (current_process_g s)
      (\<lambda>p. if p_state p = PROCESS_RUNNING then p\<lparr>p_state := PROCESS_READY\<rparr> else p) s = Some s1"
    "current_process_g s1 = current_process_g s"
    "proc_set (current_process_g s) (\<lambda>p. p\<lparr>p_registers := copy_registers regs (p_registers p)\<rparr>) s1 =
      Some (suspend regs s)"
    by (rule suspend_run[OF assms(3)])
  ultimately show ?thesis using assms(1,2,4) by (simp add: switch_process_def)
qed

lemma find_ready_ring:
  assumes "plist s xs" and "ring s (current_process_g s) (us @ w # vs)" and "set us \<subseteq> set xs"
    and "\<forall>u \<in> set us. \<not> is_ready (suspend regs s) u" and "is_ready (suspend regs s) w"
  shows "find_ready (current_process_g s) (suspend regs s) = Some w"
proof -
  have "\<forall>u \<in> set us. \<exists>p. procs (suspend regs s) u = Some p \<and> p_state p \<noteq> PROCESS_READY"
    using assms(3,4) plist_nodes[of "suspend regs s" xs] assms(1) by (fastforce simp: is_ready_def procs_def)
  moreover have "ring (suspend regs s) (current_process_g s) (us @ w # vs)" using assms(2) by simp
  then have "walk (suspend regs s) (current_process_g s) (us @ [w])" by (simp add: ring_def walk_append)
  ultimately show ?thesis using assms(5) find_ready_walk by (auto simp: is_ready_def)
qed

lemma switch_process_ring:
  assumes ok: "sched_ok s xs" and ring: "ring s (current_process_g s) (us @ w # vs)" and set: "set (us @ w # vs) \<subseteq> set xs"
    and us: "\<forall>u \<in> set us. \<not> is_ready (suspend regs s) u"
    and w: "procs (suspend regs s) w = Some p" "p_state p = PROCESS_READY"
  obtains s' where "switch_process regs s = Some (jump_of p, s')" and "sched_ok s' xs" and "current_process_g s' = w"
    and "\<And>x. procs s' x = (if x = w then Some (p\<lparr>p_state := PROCESS_RUNNING\<rparr>) else procs (suspend regs s) x)"
    and "\<And>a ws. ring s' a ws = ring s a ws"
    and "current_page_directory (vmem (kheap s')) = page_directory p" and "esp0 (tss (kcpu s')) = kernel_stack p"
proof -
  let ?t = "resume w (suspend regs s)" and ?q = "p\<lparr>p_state := PROCESS_RUNNING\<rparr>"
  have cur: "current_process_g s \<in> set xs" and pl: "plist s xs" and len: "length (gdt_table (kcpu s)) = 6"
    using ok by (auto simp: sched_ok_def)
  obtain P where P: "pds_ok (vmem (kheap s)) P" "\<forall>x \<in> set xs. \<forall>p. procs s x = Some p \<longrightarrow> page_directory p \<in> P"
    using ok by (auto simp: sched_ok_def)
  have Pt: "\<forall>x \<in> set xs. \<forall>p. procs (suspend regs s) x = Some p \<longrightarrow> page_directory p \<in> P"
    using P(2) by (auto simp: procs_suspend split: if_splits)
  have head: "process_list_head s \<noteq> 0" "current_process_g s \<noteq> 0"
    using pl cur by (cases xs; auto simp: plist_def)+
  obtain n k where n: "nodes s (current_process_g s) = Some n" "nodes (suspend regs s) w = Some k"
    using plist_nodes[OF pl cur] w(1) by (auto simp: procs_def)
  have run: "switch_process regs s = jump_proc_wrapper w ?t"
    using w by (intro switch_process_run[OF head n(1) _ n(2)] find_ready_ring[OF pl ring _ us])
      (use set in \<open>auto simp: is_ready_def\<close>)
  have t: "procs ?t x = (if x = w then Some ?q else procs (suspend regs s) x)" for x
    using w(1) by (simp add: procs_resume)
  have pd: "page_directory p \<in> P" using Pt set w(1) by auto
  obtain v c where vc: "jump_proc_wrapper w ?t = Some (jump_of ?q, ?t\<lparr>kheap := (kheap ?t)\<lparr>vmem := v\<rparr>, kcpu := c\<rparr>)"
    "pds_ok v P" "current_page_directory v = page_directory ?q" "length (gdt_table c) = 6"
    "esp0 (tss c) = kernel_stack ?q"
    by (rule jump_proc_wrapper_ok[of ?t w ?q P]) (use t[of w] P(1) pd len in simp_all)
  let ?s = "?t\<lparr>kheap := (kheap ?t)\<lparr>vmem := v\<rparr>, kcpu := c\<rparr>"
  have lk: "map_option links (nodes ?s x) = map_option links (nodes s x)" for x
    by (simp add: suspend_def del: map_option_eq_Some)
  have hd: "process_list_head ?s = process_list_head s" "process_list_tail ?s = process_list_tail s"
    by (simp_all add: suspend_def)
  have "plist ?s xs" using pl plist_cong[OF lk hd, of xs] by blast
  moreover have "\<forall>x \<in> set xs. \<forall>p. procs ?s x = Some p \<longrightarrow> page_directory p \<in> P"
    using Pt pd by (auto simp: t split: if_splits)
  ultimately have "sched_ok ?s xs" using vc(2,4) set by (auto simp: sched_ok_def)
  moreover have "ring ?s a ws = ring s a ws" for a ws
    using walk_cong[OF lk hd(1), of a ws] by (simp add: ring_def)
  moreover have "switch_process regs s = Some (jump_of p, ?s)" using run vc(1) by (simp add: jump_of_def)
  ultimately show ?thesis using vc(3,5) t by (intro that[of ?s]) simp_all
qed

section \<open>Fairness of a ring scheduler\<close>

text \<open>A number of successive steps, one for each element of the list.\<close>

fun run_steps :: "('r \<Rightarrow> 's \<Rightarrow> 's option) \<Rightarrow> 'r list \<Rightarrow> 's \<Rightarrow> 's option" where
  "run_steps step [] s = Some s"
| "run_steps step (r # rs) s = do { s \<leftarrow> step r s; run_steps step rs s }"

text \<open>
  The contract of a scheduler that goes round a ring: \<open>order s ws\<close> has the processes in the order of
  the search, the current one at the end. A step picks the first ready process, passing only over
  processes that are not ready, turns the ring to it, and changes the readiness of no process but the
  one left and the one picked.
\<close>

locale ring_scheduler =
  fixes step :: "'r \<Rightarrow> 's \<Rightarrow> 's option"
    and cur :: "'s \<Rightarrow> 'p"
    and rdy :: "'s \<Rightarrow> 'p \<Rightarrow> bool"
    and order :: "'s \<Rightarrow> 'p list \<Rightarrow> bool"
  assumes step_next: "order s ws \<Longrightarrow> a \<in> set ws \<Longrightarrow> a \<noteq> cur s \<Longrightarrow> rdy s a \<Longrightarrow>
      \<exists>us w vs s'. ws = us @ w # vs \<and> (\<forall>u \<in> set us. u = cur s \<or> \<not> rdy s u) \<and> step r s = Some s' \<and> cur s' = w \<and>
        order s' (vs @ us @ [w]) \<and> (\<forall>x. x \<noteq> w \<and> x \<noteq> cur s \<longrightarrow> rdy s' x = rdy s x)"
begin

lemma picked:
  assumes "order s (us @ a # vs)" and "a \<noteq> cur s" and "rdy s a" and "length us < length rs"
  shows "\<exists>k \<le> length us. \<exists>s'. run_steps step (take (Suc k) rs) s = Some s' \<and> cur s' = a"
  using assms
proof (induction "length us" arbitrary: us vs s rs rule: less_induct)
  case less
  obtain r rs' where rs: "rs = r # rs'" using less.prems(4) by (cases rs) auto
  obtain us1 w vs1 s' where st: "us @ a # vs = us1 @ w # vs1" "\<forall>u \<in> set us1. u = cur s \<or> \<not> rdy s u"
    "step r s = Some s'" "cur s' = w" "order s' (vs1 @ us1 @ [w])" "\<forall>x. x \<noteq> w \<and> x \<noteq> cur s \<longrightarrow> rdy s' x = rdy s x"
    using step_next[OF less.prems(1) _ less.prems(2,3), of r] by auto
  show ?case
  proof (cases "w = a")
    case True
    then show ?thesis using st(3,4) rs by (intro exI[of _ 0]) simp
  next
    case False
    have "a \<notin> set us1" using st(2) less.prems(2,3) by auto
    then obtain us2 where us: "us = us1 @ w # us2" "vs1 = us2 @ a # vs"
      using st(1) False by (auto simp: append_eq_append_conv2 Cons_eq_append_conv append_eq_Cons_conv)
    have "length us2 < length us" using us(1) by simp
    moreover have "order s' (us2 @ a # (vs @ us1 @ [w]))" using st(5) us(2) by simp
    moreover have "a \<noteq> cur s'" "rdy s' a" using False st(4,6) less.prems(2,3) by auto
    moreover have "length us2 < length rs'" using less.prems(4) us(1) rs by simp
    ultimately obtain k s'' where "k \<le> length us2" "run_steps step (take (Suc k) rs') s' = Some s''" "cur s'' = a"
      using less.hyps[of us2 s' "vs @ us1 @ [w]" rs'] by blast
    then show ?thesis using st(3) rs us(1) by (intro exI[of _ "Suc k"]) simp
  qed
qed

end

definition sched_order :: "u32 list \<Rightarrow> kernel \<Rightarrow> u32 list \<Rightarrow> bool" where
  "sched_order xs s ws \<longleftrightarrow> sched_ok s xs \<and> ring s (current_process_g s) ws \<and> set ws = set xs"

lemma is_ready_suspend: "x \<noteq> current_process_g s \<Longrightarrow> is_ready (suspend regs s) x = is_ready s x"
  by (simp add: is_ready_def procs_suspend)

lemma first_ready:
  assumes "x \<in> set ws" and "P x"
  obtains us w vs where "ws = us @ w # vs" and "\<forall>u \<in> set us. \<not> P u" and "P w"
  using split_list_first_prop[of ws P] assms by blast

interpretation sched: ring_scheduler "\<lambda>regs s. map_option snd (switch_process regs s)" current_process_g is_ready
  "sched_order xs" for xs
proof (unfold_locales, goal_cases)
  case (1 s ws a regs)
  obtain us w vs where w: "ws = us @ w # vs" "\<forall>u \<in> set us. \<not> is_ready (suspend regs s) u" "is_ready (suspend regs s) w"
    using first_ready[of a ws "is_ready (suspend regs s)"] 1 is_ready_suspend by blast
  then obtain p where p: "procs (suspend regs s) w = Some p" "p_state p = PROCESS_READY" by (auto simp: is_ready_def)
  have ok: "sched_ok s xs" "ring s (current_process_g s) (us @ w # vs)" "set (us @ w # vs) = set xs"
    using 1(1) w(1) by (auto simp: sched_order_def)
  obtain s' where s': "switch_process regs s = Some (jump_of p, s')" "sched_ok s' xs" "current_process_g s' = w"
    "\<And>x. procs s' x = (if x = w then Some (p\<lparr>p_state := PROCESS_RUNNING\<rparr>) else procs (suspend regs s) x)"
    "\<And>a ws. ring s' a ws = ring s a ws"
    by (rule switch_process_ring[OF ok(1,2) _ w(2) p]) (use ok(3) in auto)
  have "ring s' w (vs @ us @ [w])" using ring_rotate[OF ok(2)] s'(5) by simp
  then have "sched_order xs s' (vs @ us @ [w])" using s'(2,3) ok(3) by (auto simp: sched_order_def)
  moreover have "\<forall>u \<in> set us. u = current_process_g s \<or> \<not> is_ready s u"
    using w(2) is_ready_suspend by blast
  moreover have "\<forall>x. x \<noteq> w \<and> x \<noteq> current_process_g s \<longrightarrow> is_ready s' x = is_ready s x"
    using is_ready_suspend[of _ s regs] by (simp add: is_ready_def s'(4))
  ultimately show ?case using s'(1,3) w(1) by (intro exI[of _ us] exI[of _ w] exI[of _ vs] exI[of _ s']) simp
qed

section \<open>Leaving a process\<close>

lemma next_process_plist:
  assumes "plist s (ys @ a # zs)"
  shows "next_process a s = Some (first (zs @ ys @ [a]) 0)"
  using plist_walk[OF assms] by (cases zs; cases ys) auto

lemma walk_load [simp]:
  "nodes (s\<lparr>kheap := h\<rparr>) = nodes s" "plist (s\<lparr>kheap := h\<rparr>) xs = plist s xs"
  "plist (s\<lparr>current_process_g := c\<rparr>) xs = plist s xs" "procs (s\<lparr>current_process_g := c\<rparr>) x = procs s x"
  by (simp_all add: plist_def procs_def)

definition woken :: "u32 \<Rightarrow> process \<Rightarrow> process" where
  "woken waited p = (if p_state p = PROCESS_WAITING \<and> waiting_for p = waited
     then p\<lparr>p_state := PROCESS_READY, waiting_for := 0\<rparr> else p)"

lemma plist_forget: "a \<notin> set xs \<Longrightarrow> plist (s\<lparr>nodes := (nodes s)(a := None)\<rparr>) xs = plist s xs"
  by (simp add: plist_def, intro conj_cong refl seg_cong) auto

lemma exit_run:
  assumes pl: "plist s (ys @ current_process_g s # zs)" and p: "procs s (current_process_g s) = Some p"
    and v0: "load_pd get_kernel_pd (vmem (kheap s)) = Some v0"
    and h1: "kfree (page_directory p) ((kheap s)\<lparr>vmem := v0\<rparr>) = Some h1"
    and h2: "kfree (current_process_g s) h1 = Some h2"
  obtains t where "exit_current_process s = jump_proc_wrapper (first (zs @ ys) (current_process_g s)) t"
    and "plist t (ys @ zs)" and "nodes t (current_process_g s) = None" and "kheap t = h2" and "kcpu t = kcpu s"
    and "current_process_g t = first (zs @ ys) (current_process_g s)"
    and "\<And>x. x \<in> set (ys @ zs) \<Longrightarrow> procs t x = map_option (woken (pid p)) (procs s x)"
proof -
  let ?a = "current_process_g s" and ?w = "first (zs @ ys) (current_process_g s)"
  obtain n where n: "nodes s ?a = Some n" "proc n = p" using p by (auto simp: procs_def)
  have nz: "?a \<noteq> 0" "process_list_head s \<noteq> 0" using pl by (cases ys; auto simp: plist_def)+
  define s1 where "s1 = map_procs (set (ys @ ?a # zs)) (woken (pid p)) s"
  have wake: "wake_up_waiting_processes (pid p) s = Some s1"
    using wake_loop_all[OF pl, of "woken (pid p)"]
    by (simp add: wake_up_waiting_processes_def s1_def woken_def[abs_def])
  have pl1: "plist s1 (ys @ ?a # zs)" using pl by (simp add: s1_def)
  have w: "next_process (current_process_g s1) s1 = Some ?w" "?w \<noteq> 0"
    using next_process_plist[of s1 ys ?a zs] pl1 pl
    by (cases zs; cases ys; auto simp: s1_def plist_def)+
  define s2 where "s2 = s1\<lparr>current_process_g := ?w, kheap := (kheap s)\<lparr>vmem := v0\<rparr>\<rparr>"
  have ld: "load_directory get_kernel_pd (s1\<lparr>current_process_g := ?w\<rparr>) = Some s2"
    using v0 by (simp add: load_directory_def s2_def s1_def)
  have "plist s2 (ys @ ?a # zs)" using pl1 by (simp add: s2_def)
  then obtain s3 where s3: "remove_from_linked_list ?a s2 = Some (0, s3)" "plist s3 (ys @ zs)" "procs s3 = procs s2"
    "nodes s3 ?a = nodes s2 ?a" "kheap s3 = kheap s2" "kcpu s3 = kcpu s2" "current_process_g s3 = current_process_g s2"
    using remove_from_linked_list_plist[of s2 ys ?a zs] by blast
  define t where "t = s3\<lparr>kheap := h2, nodes := (nodes s3)(?a := None)\<rparr>"
  have a2: "nodes s2 ?a = Some (n\<lparr>proc := woken (pid p) p\<rparr>)"
    using n by (simp add: s2_def s1_def map_procs_def)
  have "page_directory (woken (pid p) p) = page_directory p" by (simp add: woken_def)
  then have free: "free_proc_node ?a s3 = Some t"
    using a2 s3(4,5) h1 h2 by (simp add: free_proc_node_def t_def s2_def)
  have run: "exit_current_process s = jump_proc_wrapper ?w t"
    using nz n wake w ld s3(1,7) free
    by (simp add: exit_current_process_def exit_proc_def Let_def) (simp add: t_def s3(7) s2_def)
  have "?a \<notin> set (ys @ zs)" using pl by (auto simp: plist_def)
  then have "plist t (ys @ zs)"
    using s3(2) plist_forget[of ?a "ys @ zs" "s3\<lparr>kheap := h2\<rparr>"] by (simp add: t_def)
  moreover have "procs t x = map_option (woken (pid p)) (procs s x)" if "x \<in> set (ys @ zs)" for x
  proof -
    have "x \<noteq> ?a" using that pl by (auto simp: plist_def)
    then have "procs t x = procs s2 x" using s3(3) by (simp add: t_def procs_def fun_eq_iff)
    also have "\<dots> = procs s1 x" by (simp add: s2_def procs_def)
    finally show ?thesis using that by (auto simp: s1_def procs_map_procs)
  qed
  ultimately show ?thesis using run s3(5,6,7)
    by (intro that[of t]) (simp_all add: t_def s2_def s1_def)
qed

section \<open>Properties\<close>

text \<open>Three processes of one address space; the first one runs, the second one is blocked on its terminal.\<close>

definition process_example :: "u32 \<Rightarrow> process_state \<Rightarrow> process" where
  "process_example n st = \<lparr>pid = n, terminal_id = 1, waiting_for = 0, is_kernel_mode = False, cwd = replicate 256 0,
     page_directory = get_kernel_pd, kernel_stack = 0xC1900000, process_break = 0, p_state = st,
     fd_table = replicate 128 zero_fd, p_registers = zero_regs\<rparr>"

definition nodes_example :: "u32 \<Rightarrow> process_node option" where
  "nodes_example = [0x1000 \<mapsto> \<lparr>proc = process_example 1 PROCESS_RUNNING, n_next = 0x2000, n_prev = 0\<rparr>,
     0x2000 \<mapsto> \<lparr>proc = process_example 2 PROCESS_BLOCKED, n_next = 0x3000, n_prev = 0x1000\<rparr>,
     0x3000 \<mapsto> \<lparr>proc = process_example 3 PROCESS_READY, n_next = 0, n_prev = 0x2000\<rparr>]"

definition vm_kernel :: vm where
  "vm_kernel = vm_example\<lparr>phys := (\<lambda>f i. if f = 6 \<and> i = 1023 then 0x6003
     else if f = 6 \<and> i = 768 then 0x8003 else if f = 8 \<and> i = 6 then 0x6003 else 0)\<rparr>"

definition kernel_example :: kernel where
  "kernel_example = \<lparr>kheap = heap_example\<lparr>vmem := vm_kernel\<rparr>, kfat = fat_example, screen = vga_example, kcpu = cpu_example, timer = pit0,
     pic_chips = (chip_example, chip_example), nodes = nodes_example, process_list_head = 0x1000,
     process_list_tail = 0x3000, next_pid = 4, current_process_g = 0x1000, run_processes = True,
     manage_initialized = True, global_fd_table = replicate 256 zero_global_fd,
     terminals = replicate 4 \<lparr>t_id = 0, input_buf = replicate 256 0, input_len = 0, is_input_ready = False,
       parent_process_pid = 0, t_stdin = None, t_stdout = None, t_stderr = None\<rparr>,
     current_active_terminal_id = 0,
     keyboard_state = \<lparr>right_shift_pressed = False, left_shift_pressed = False, ctrl_pressed = False,
       alt_pressed = False, scroll_lock_pressed = False, num_lock_pressed = False, caps_lock_pressed = False\<rparr>,
     handlers = replicate 256 None, syscall_handler_array = replicate 256 None\<rparr>"

lemma example_pd: "get_physical_address get_kernel_pd vm_kernel = Some 0x6000"
  by (simp add: get_physical_address_def get_kernel_pd_def vload_def mmu_frame_def vm_kernel_def vm_example_def
      paging_consts GET_PAGE_TABLE_def e_present_def e_address_def drop_bit_eq_div push_bit_eq_mult Let_def)

lemma example_pds: "pds_ok vm_kernel {get_kernel_pd}"
proof -
  have "vm_kernel\<lparr>cr3 := 0x6000\<rparr> = vm_kernel" by (simp add: vm_kernel_def vm_example_def)
  then have "get_physical_address get_kernel_pd (vm_kernel\<lparr>cr3 := 0x6000\<rparr>) = Some 0x6000"
    using example_pd by presburger
  then show ?thesis unfolding pds_ok_def
    by (intro exI[of _ "\<lambda>_. 0x6000"]) (simp add: vm_kernel_def vm_example_def)
qed

lemma example_load: "load_pd get_kernel_pd vm_kernel = Some vm_kernel"
  using example_pd
  by (simp add: load_pd_def load_pd_phys_addr_def) (simp add: vm_kernel_def vm_example_def)

lemma example_plist: "plist kernel_example [0x1000, 0x2000, 0x3000]"
  by (simp add: plist_def kernel_example_def nodes_example_def links_def)

lemma example_sched: "sched_ok kernel_example [0x1000, 0x2000, 0x3000]"
  using example_plist example_pds
  by (auto simp: sched_ok_def procs_def kernel_example_def nodes_example_def process_example_def cpu_example_def
      split: if_splits intro!: exI[of _ "{get_kernel_pd}"])

text \<open>C13. The scheduler is round robin: with the processes \<open>ys @ current # zs\<close> on the list, \<open>switch_process\<close>
  stores the interrupted process's registers, makes it ready if it was running, and looks at \<open>zs\<close>, then
  \<open>ys\<close>, then the process itself. The first ready process \<open>w\<close> in this order is run: the call ends in a jump
  to its saved registers with its page directory loaded and its kernel stack in the TSS; it is the
  current process and running, and nothing else about any process changes.\<close>

theorem switch_process_round_robin:
  assumes "sched_ok s (ys @ current_process_g s # zs)" and "zs @ ys @ [current_process_g s] = us @ w # vs"
    and "\<forall>u \<in> set us. \<not> is_ready (suspend regs s) u"
    and "procs (suspend regs s) w = Some p" and "p_state p = PROCESS_READY"
  shows "\<exists>s'. switch_process regs s = Some (jump_of p, s') \<and> sched_ok s' (ys @ current_process_g s # zs) \<and>
    current_process_g s' = w \<and> current_page_directory (vmem (kheap s')) = page_directory p \<and>
    esp0 (tss (kcpu s')) = kernel_stack p \<and>
    (\<forall>x. procs s' x = (if x = w then Some (p\<lparr>p_state := PROCESS_RUNNING\<rparr>) else procs (suspend regs s) x))"
proof -
  have "ring s (current_process_g s) (us @ w # vs)"
    using plist_ring[of s ys "current_process_g s" zs] assms(1,2) by (simp add: sched_ok_def)
  moreover have "set (us @ w # vs) \<subseteq> set (ys @ current_process_g s # zs)" unfolding assms(2)[symmetric] by auto
  ultimately show ?thesis
    using switch_process_ring[OF assms(1) _ _ assms(3-5)] by metis
qed

definition regs_example :: int_registers where
  "regs_example = \<lparr>i_ds = 0x23, i_edi = 1, i_esi = 2, i_ebp = 3, i_kern_esp = 0, i_ebx = 4, i_edx = 5, i_ecx = 6,
     i_eax = 7, i_interrupt = 0x20, i_error = 0, i_eip = 0x8048000, i_cs = 0x1B, i_eflags = 0x202,
     i_esp = 0xBFFFEF00, i_ss = 0x23\<rparr>"

lemma example_processes:
  "procs kernel_example 0x1000 = Some (process_example 1 PROCESS_RUNNING)"
  "procs kernel_example 0x2000 = Some (process_example 2 PROCESS_BLOCKED)"
  "procs kernel_example 0x3000 = Some (process_example 3 PROCESS_READY)"
  "current_process_g kernel_example = 0x1000"
  by (simp_all add: procs_def kernel_example_def nodes_example_def)

lemma example_procs:
  "procs (suspend regs_example kernel_example) 0x3000 = Some (process_example 3 PROCESS_READY)"
  "\<not> is_ready (suspend regs_example kernel_example) 0x2000" "is_ready kernel_example 0x3000"
  "current_process_g kernel_example = 0x1000"
  by (simp_all add: procs_suspend is_ready_def example_processes process_example_def)

theorem switch_process_round_robin_witness:
  "\<exists>s'. switch_process regs_example kernel_example = Some (jump_of (process_example 3 PROCESS_READY), s') \<and>
    sched_ok s' ([] @ current_process_g kernel_example # [0x2000, 0x3000]) \<and>
    current_process_g s' = 0x3000 \<and>
    current_page_directory (vmem (kheap s')) = page_directory (process_example 3 PROCESS_READY) \<and>
    esp0 (tss (kcpu s')) = kernel_stack (process_example 3 PROCESS_READY) \<and>
    (\<forall>x. procs s' x = (if x = 0x3000 then Some (process_example 3 PROCESS_READY\<lparr>p_state := PROCESS_RUNNING\<rparr>)
      else procs (suspend regs_example kernel_example) x))"
  by (rule switch_process_round_robin[of kernel_example "[]" "[0x2000, 0x3000]" "[0x2000]" "0x3000" "[0x1000]"])
    (simp_all add: example_procs example_sched, simp add: process_example_def)

text \<open>C28. No ready process starves: from any state with \<open>n\<close> processes on the list, a ready process is running
  after at most \<open>n - 1\<close> context switches, whatever the other processes are and whatever registers the
  interrupts save.\<close>

theorem ready_process_runs:
  assumes "sched_ok s xs" and "a \<in> set xs" and "a \<noteq> current_process_g s" and "is_ready s a"
    and "length xs - 1 \<le> length rs"
  shows "\<exists>k < length xs. \<exists>s'.
    run_steps (\<lambda>regs s. map_option snd (switch_process regs s)) (take k rs) s = Some s' \<and> current_process_g s' = a"
proof -
  obtain ys zs where xs: "xs = ys @ current_process_g s # zs"
    using assms(1) by (meson sched_ok_def split_list)
  have "ring s (current_process_g s) ((zs @ ys) @ [current_process_g s])"
    using plist_ring[of s ys] assms(1) xs by (simp add: sched_ok_def)
  then have o: "sched_order xs s ((zs @ ys) @ [current_process_g s])"
    using assms(1) xs by (auto simp: sched_order_def)
  obtain us vs where us: "zs @ ys = us @ a # vs"
    using assms(2,3) xs by (metis (no_types, opaque_lifting) Un_iff insert_iff list.set(2) set_append split_list)
  have "length zs + length ys = length us + Suc (length vs)" using arg_cong[OF us, of length] by simp
  then have len: "length us < length xs - 1" using xs by simp
  then obtain k s' where "k \<le> length us" "run_steps (\<lambda>regs s. map_option snd (switch_process regs s)) (take (Suc k) rs) s = Some s'"
    "current_process_g s' = a"
    using sched.picked[of xs s us a "vs @ [current_process_g s]" rs] o us assms(3-5) by auto
  then show ?thesis using len by (intro exI[of _ "Suc k"]) auto
qed

theorem ready_process_runs_witness:
  "\<exists>k < 3. \<exists>s'. run_steps (\<lambda>regs s. map_option snd (switch_process regs s)) (take k [regs_example, regs_example])
      kernel_example = Some s' \<and> current_process_g s' = 0x3000"
  using ready_process_runs[OF example_sched, of "0x3000" "[regs_example, regs_example]"] example_procs
  by (simp add: numeral_3_eq_3)

text \<open>C29. \<open>remove_from_linked_list\<close> unlinks: taking a process out of a well-formed list leaves the list of
  the others in their order, head, tail and both kinds of links included, and no process's data
  changes; \<open>add_to_linked_list\<close> puts a new node at the end.\<close>

theorem process_list_operations:
  assumes "plist s (ys @ a # zs)" and "b \<noteq> 0" and "b \<notin> set (ys @ a # zs)" and "nodes s b \<noteq> None"
  shows "(\<exists>s'. remove_from_linked_list a s = Some (0, s') \<and> plist s' (ys @ zs) \<and> procs s' = procs s) \<and>
    (\<exists>s'. add_to_linked_list b s = Some s' \<and> plist s' ((ys @ a # zs) @ [b]) \<and> procs s' = procs s)"
  using remove_from_linked_list_plist[OF assms(1)] add_to_linked_list_plist[OF assms(1-3)] assms(4) by blast

definition kernel_with_new :: kernel where
  "kernel_with_new = kernel_example\<lparr>nodes := nodes_example(0x4000 \<mapsto>
     \<lparr>proc = process_example 4 PROCESS_READY, n_next = 0, n_prev = 0\<rparr>)\<rparr>"

theorem process_list_operations_witness:
  "(\<exists>s'. remove_from_linked_list 0x2000 kernel_with_new = Some (0, s') \<and> plist s' ([0x1000] @ [0x3000]) \<and>
      procs s' = procs kernel_with_new) \<and>
    (\<exists>s'. add_to_linked_list 0x4000 kernel_with_new = Some s' \<and> plist s' (([0x1000] @ 0x2000 # [0x3000]) @ [0x4000]) \<and>
      procs s' = procs kernel_with_new)"
  by (rule process_list_operations)
    (simp_all add: kernel_with_new_def plist_def kernel_example_def nodes_example_def links_def)

text \<open>C30. A finished line of input wakes exactly its readers: \<open>wake_up_terminal_processes\<close> goes once round
  the list and returns; the processes blocked on this terminal are ready afterwards, every other
  process on the list is as it was, and the list does not change.\<close>

theorem wake_up_terminal_processes_wakes:
  assumes "plist s xs" and "current_process_g s \<in> set xs"
  shows "\<exists>s'. wake_up_terminal_processes tid s = Some s' \<and> plist s' xs \<and>
    (\<forall>x. procs s' x = (if x \<in> set xs then map_option (\<lambda>p.
       if p_state p = PROCESS_BLOCKED \<and> terminal_id p = tid then p\<lparr>p_state := PROCESS_READY\<rparr> else p) (procs s x)
     else procs s x))"
  using wake_loop_all[OF assms] assms(1)
  by (simp add: wake_up_terminal_processes_def procs_map_procs)

theorem wake_up_terminal_processes_wakes_witness:
  "\<exists>s'. wake_up_terminal_processes 1 kernel_example = Some s' \<and> plist s' [0x1000, 0x2000, 0x3000] \<and>
    (\<forall>x. procs s' x = (if x \<in> set [0x1000, 0x2000, 0x3000] then map_option (\<lambda>p.
       if p_state p = PROCESS_BLOCKED \<and> terminal_id p = 1 then p\<lparr>p_state := PROCESS_READY\<rparr> else p)
         (procs kernel_example x)
     else procs kernel_example x))"
  by (rule wake_up_terminal_processes_wakes[OF example_plist]) (simp add: example_procs)

text \<open>C37. Leaving a process: the exiting process is taken off the list and its node released, the processes
  that waited for it are ready, and control passes to the process behind it on the list (the head
  after the last), in whatever state that process is: it is not asked whether it is ready.\<close>

theorem exit_runs_next_in_any_state:
  assumes "plist s (ys @ current_process_g s # zs)" and "procs s (current_process_g s) = Some p"
    and "load_pd get_kernel_pd (vmem (kheap s)) = Some v0"
    and "kfree (page_directory p) ((kheap s)\<lparr>vmem := v0\<rparr>) = Some h1"
    and "kfree (current_process_g s) h1 = Some h2"
    and "zs @ ys = w # ws" and "procs s w = Some q" and "load_pd (page_directory q) (vmem h2) = Some v2"
    and "length (gdt_table (kcpu s)) = 6"
  shows "\<exists>s'. exit_current_process s = Some (jump_of q, s') \<and> plist s' (ys @ zs) \<and>
    current_process_g s' = w \<and> nodes s' (current_process_g s) = None \<and>
    (\<forall>x \<in> set (ys @ zs). procs s' x = map_option (woken (pid p)) (procs s x))"
proof -
  obtain t where t: "exit_current_process s = jump_proc_wrapper w t" "plist t (ys @ zs)"
    "nodes t (current_process_g s) = None" "kheap t = h2" "kcpu t = kcpu s" "current_process_g t = w"
    "\<And>x. x \<in> set (ys @ zs) \<Longrightarrow> procs t x = map_option (woken (pid p)) (procs s x)"
    using exit_run[OF assms(1-5)] unfolding assms(6) first_simps by blast
  have "w \<in> set (ys @ zs)" using assms(6) by (metis Un_commute list.set_intros(1) set_append)
  then have "procs t w = Some (woken (pid p) q)" using t(7) assms(7) by simp
  then obtain n where n: "nodes t w = Some n" "proc n = woken (pid p) q" by (auto simp: procs_def)
  have f: "page_directory (woken (pid p) q) = page_directory q" "jump_of (woken (pid p) q) = jump_of q"
    "kernel_stack (woken (pid p) q) = kernel_stack q" "is_kernel_mode (woken (pid p) q) = is_kernel_mode q"
    "p_registers (woken (pid p) q) = p_registers q"
    by (simp_all add: woken_def jump_of_def)
  obtain c where "tss_fill_esp0 (kernel_stack q) (kcpu s) = Some c" using tss_fill_esp0_Some[OF assms(9)] by blast
  then have "exit_current_process s = Some (jump_of q, t\<lparr>kheap := h2\<lparr>vmem := v2\<rparr>, kcpu := c\<rparr>)"
    using t(1,4,5) n f assms(8) by (simp add: jump_proc_wrapper_def load_directory_def jump_of_def Let_def)
  moreover have "plist (t\<lparr>kheap := h2\<lparr>vmem := v2\<rparr>, kcpu := c\<rparr>) (ys @ zs)" using t(2) by (simp add: plist_def)
  ultimately show ?thesis using t(3,6,7) by auto
qed

lemma example_kfree: "unat a < 0xC1800000 \<Longrightarrow> kfree (a + 12) h = Some h"
  by (simp add: kfree_def free_block_def sizeof_heap_entry_def heap_start_def KERNEL_CODE_END_def word_less_nat_alt)

theorem exit_runs_next_in_any_state_witness:
  "p_state (process_example 2 PROCESS_BLOCKED) \<noteq> PROCESS_READY \<and>
   (\<exists>s'. exit_current_process kernel_example = Some (jump_of (process_example 2 PROCESS_BLOCKED), s') \<and>
    plist s' ([] @ [0x2000, 0x3000]) \<and> current_process_g s' = 0x2000 \<and>
    nodes s' (current_process_g kernel_example) = None \<and>
    (\<forall>x \<in> set ([] @ [0x2000, 0x3000]). procs s' x =
       map_option (woken (pid (process_example 1 PROCESS_RUNNING))) (procs kernel_example x)))"
proof
  have heap: "vmem (kheap kernel_example) = vm_kernel" by (simp add: kernel_example_def)
  have k: "kfree get_kernel_pd h = Some h" "kfree 0x1000 h = Some h" for h
    using example_kfree[of "get_kernel_pd - 12" h] example_kfree[of "0xFF4" h]
    by (simp_all add: get_kernel_pd_def paging_consts)
  show "p_state (process_example 2 PROCESS_BLOCKED) \<noteq> PROCESS_READY" by (simp add: process_example_def)
  show "\<exists>s'. exit_current_process kernel_example = Some (jump_of (process_example 2 PROCESS_BLOCKED), s') \<and>
    plist s' ([] @ [0x2000, 0x3000]) \<and> current_process_g s' = 0x2000 \<and>
    nodes s' (current_process_g kernel_example) = None \<and>
    (\<forall>x \<in> set ([] @ [0x2000, 0x3000]). procs s' x =
       map_option (woken (pid (process_example 1 PROCESS_RUNNING))) (procs kernel_example x))"
    by (rule exit_runs_next_in_any_state[of kernel_example "[]" "[0x2000, 0x3000]" "process_example 1 PROCESS_RUNNING"
          vm_kernel "kheap kernel_example\<lparr>vmem := vm_kernel\<rparr>" "kheap kernel_example\<lparr>vmem := vm_kernel\<rparr>"
          "0x2000" "[0x3000]" "process_example 2 PROCESS_BLOCKED" vm_kernel])
      (use example_plist in \<open>simp_all add: example_processes heap example_load k process_example_def\<close>,
       simp add: kernel_example_def cpu_example_def)
qed

text \<open>When the last process exits, the kernel goes on with it: the next process is the exiting one itself,
  its node is released, and the jump then reads the released node.\<close>

lemma exit_last_process_uses_freed_node:
  assumes "plist s [current_process_g s]"
  shows "exit_current_process s = None"
proof (rule ccontr)
  assume "exit_current_process s \<noteq> None"
  moreover have nz: "current_process_g s \<noteq> 0" "process_list_head s \<noteq> 0"
    using assms by (auto simp: plist_def)
  moreover obtain n where n: "nodes s (current_process_g s) = Some n"
    using plist_nodes[OF assms] by auto
  define s1 where "s1 = map_procs {current_process_g s} (woken (pid (proc n))) s"
  have pl: "plist s1 [current_process_g s]" using assms by (simp add: s1_def)
  have "wake_up_waiting_processes (pid (proc n)) s = Some s1"
    using wake_loop_all[OF assms, of "woken (pid (proc n))"]
    by (simp add: wake_up_waiting_processes_def s1_def woken_def[abs_def])
  moreover have "next_process (current_process_g s1) s1 = Some (current_process_g s)"
    using next_process_plist[of s1 "[]" "current_process_g s" "[]"] pl by (simp add: s1_def)
  ultimately show False using n
    by (auto simp: exit_current_process_def exit_proc_def free_proc_node_def jump_proc_wrapper_def Let_def
        remove_from_linked_list_def load_directory_def node_set_def s1_def split: bind_splits if_splits)
qed

end
