(* ===== verification/Terminal.thy ===== *)
theory Terminal
  imports Process
begin

text \<open>
  Terminals and the keyboard, \<open>terminal/terminal_manager.c\<close> and \<open>drivers/keyboard/keyboard.c\<close>.

  \<open>read_terminal_input\<close> waits in a loop: it marks the current process blocked and forces a context
  switch until a line is there. One pass of that loop is modelled: the result \<open>Yields\<close> says that the
  switch was forced, and the read goes on with another pass when the process runs again.
\<close>

section \<open>Terminals\<close>

definition term_get :: "u32 \<Rightarrow> kernel \<Rightarrow> terminal option" where
  "term_get i s = arr_get (terminals s) (unat i)"

definition term_set :: "u32 \<Rightarrow> (terminal \<Rightarrow> terminal) \<Rightarrow> kernel \<Rightarrow> kernel option" where
  "term_set i f s = do {
     t \<leftarrow> term_get i s;
     ts \<leftarrow> arr_set (terminals s) (unat i) (f t);
     Some (s\<lparr>terminals := ts\<rparr>)
   }"

text \<open>
  The range checks of \<open>attach_process_to_terminal\<close> and \<open>set_active_terminal\<close> are statements without effect
  (a missing \<open>return\<close>), so that an identifier out of range indexes the array.
\<close>

definition attach_process_to_terminal :: "u32 \<Rightarrow> process \<Rightarrow> kernel \<Rightarrow> (bool \<times> process) option" where
  "attach_process_to_terminal tid proc_info s = do {
     t \<leftarrow> term_get (tid - 1) s;
     if t_id t \<noteq> tid then Some (False, proc_info)
     else Some (True, proc_info\<lparr>terminal_id := tid, fd_table := (fd_table proc_info)
            [0 := (fd_table proc_info ! 0)\<lparr>global_fd := t_stdin t\<rparr>,
             1 := (fd_table proc_info ! 1)\<lparr>global_fd := t_stdout t\<rparr>,
             2 := (fd_table proc_info ! 2)\<lparr>global_fd := t_stderr t\<rparr>]\<rparr>)
   }"

text \<open>The search for a free terminal: \<open>ts\<close> are the terminals from index \<open>i\<close> on.\<close>

fun find_terminal :: "nat \<Rightarrow> terminal list \<Rightarrow> nat option option" where
  "find_terminal i [] = None"
| "find_terminal i (t # ts) =
     (if t_id t \<noteq> 0 then (if TERMINAL_AMMOUNT \<le> i then Some None else find_terminal (Suc i) ts)
      else Some (Some i))"

definition create_terminal :: "u32 \<Rightarrow> kernel \<Rightarrow> (u32 \<times> kernel) option" where
  "create_terminal parent_process_id s = do {
     r \<leftarrow> find_terminal 0 (terminals s);
     (case r of
        None \<Rightarrow> Some (0, s)
      | Some i \<Rightarrow> do {
          s \<leftarrow> term_set (of_nat i) (\<lambda>t. t\<lparr>t_id := of_nat i + 1, input_buf := replicate INPUT_BUFFER_SIZE 0,
                 is_input_ready := False, parent_process_pid := parent_process_id\<rparr>) s;
          (g0, s) \<leftarrow> allocate_device_fd s;
          (g1, s) \<leftarrow> allocate_device_fd s;
          (g2, s) \<leftarrow> allocate_device_fd s;
          s \<leftarrow> term_set (of_nat i) (\<lambda>t. t\<lparr>t_stdin := g0, t_stdout := g1, t_stderr := g2, input_len := 0\<rparr>) s;
          stdin \<leftarrow> g0;
          s \<leftarrow> gfd_set stdin (\<lambda>g. g\<lparr>g_read := Some Read_terminal_input\<rparr>) s;
          Some (of_nat i + 1, s)
        })
   }"

text \<open>The index of the active terminal in the array, or NULL.\<close>

definition get_active_terminal_struct :: "kernel \<Rightarrow> u32 option" where
  "get_active_terminal_struct s =
     (if current_active_terminal_id s = 0 then None else Some (current_active_terminal_id s - 1))"

definition get_active_terminal_id :: "kernel \<Rightarrow> u32" where
  "get_active_terminal_id s = current_active_terminal_id s"

definition set_active_terminal :: "u32 \<Rightarrow> kernel \<Rightarrow> (bool \<times> kernel) option" where
  "set_active_terminal tid s = do {
     t \<leftarrow> term_get (tid - 1) s;
     if t_id t \<noteq> tid then Some (False, s)
     else Some (True, s\<lparr>current_active_terminal_id := tid\<rparr>)
   }"

datatype read_result = Yields | Got int bytes

definition read_terminal_input :: "bytes \<Rightarrow> u32 \<Rightarrow> kernel \<Rightarrow> (read_result \<times> kernel) option" where
  "read_terminal_input buf count s = do {
     i \<leftarrow> get_active_terminal_struct s;
     t \<leftarrow> term_get i s;
     if \<not> is_input_ready t then do {
       cur \<leftarrow> get_current_process s;
       s \<leftarrow> proc_set cur (\<lambda>p. p\<lparr>p_state := PROCESS_BLOCKED\<rparr>) s;
       Some (Yields, s)
     } else do {
       let copy_len = (if input_len t < count then input_len t else count);
       buf \<leftarrow> memcpy buf (input_buf t) (unat copy_len);
       ib \<leftarrow> memset (input_buf t) 0 (int INPUT_BUFFER_SIZE);
       s \<leftarrow> term_set i (\<lambda>t. t\<lparr>is_input_ready := False, input_buf := ib, input_len := 0\<rparr>) s;
       Some (Got (sint copy_len) buf, s)
     }
   }"

section \<open>Keyboard\<close>

definition key_map :: bytes where
  "key_map = [
     0, 27, 49, 50, 51, 52, 53, 54, 55, 56, 57, 48, 45, 61, 8, 9,
     113, 119, 101, 114, 116, 121, 117, 105, 111, 112, 91, 93, 10, 0, 97, 115,
     100, 102, 103, 104, 106, 107, 108, 59, 39, 96, 0, 92, 122, 120, 99, 118,
     98, 110, 109, 44, 46, 47, 0, 42, 0, 32, 0, 0, 0, 0, 0, 0,
     0, 0, 0, 0, 0, 0, 0, 0, 0, 0, 45, 0, 0, 0, 43, 0,
     0, 0, 0, 0, 0, 0, 0, 0, 0, 0] @ replicate 38 0"

definition key_map_shift :: bytes where
  "key_map_shift = [
     0, 27, 33, 64, 35, 36, 37, 94, 38, 42, 40, 41, 95, 43, 8, 9,
     81, 87, 69, 82, 84, 89, 85, 73, 79, 80, 123, 125, 10, 0, 65, 83,
     68, 70, 71, 72, 74, 75, 76, 58, 34, 126, 0, 124, 90, 88, 67, 86,
     66, 78, 77, 60, 62, 63, 0, 42, 0, 32, 0, 0, 0, 0, 0, 0,
     0, 0, 0, 0, 0, 0, 0, 55, 56, 57, 45, 52, 53, 54, 43, 49,
     50, 51, 48, 44, 0, 0, 0, 0, 0, 0] @ replicate 38 0"

definition kbd_set :: "(keyboard_state_flags \<Rightarrow> keyboard_state_flags) \<Rightarrow> kernel \<Rightarrow> kernel" where
  "kbd_set f s = s\<lparr>keyboard_state := f (keyboard_state s)\<rparr>"

definition kbd_putchar :: "u8 \<Rightarrow> kernel \<Rightarrow> kernel option" where
  "kbd_putchar c s = do { v \<leftarrow> vga_putchar c (screen s); Some (s\<lparr>screen := v\<rparr>) }"

text \<open>The character of a key under the current modifiers.\<close>

definition key_char :: "u8 \<Rightarrow> keyboard_state_flags \<Rightarrow> u8" where
  "key_char scan_code k =
     (let c = key_map ! unat scan_code; shift = (left_shift_pressed k \<or> right_shift_pressed k)
      in if caps_lock_pressed k \<and> 0x61 \<le> c \<and> c \<le> 0x7A \<and> \<not> shift \<or> shift
         then key_map_shift ! unat scan_code else c)"

text \<open>The default case of the switch: a key that is not a modifier.\<close>

definition plain_key :: "u8 \<Rightarrow> kernel \<Rightarrow> kernel option" where
  "plain_key scan_code s =
     (if key_map ! unat scan_code = 0x08 then do {
        i \<leftarrow> get_active_terminal_struct s;
        t \<leftarrow> term_get i s;
        if 0 < input_len t then do {
          b \<leftarrow> arr_set (input_buf t) (unat (input_len t - 1)) 0;
          s \<leftarrow> term_set i (\<lambda>t. t\<lparr>input_len := input_len t - 1, input_buf := b\<rparr>) s;
          kbd_putchar 0x08 s
        } else Some s
      } else do {
        i \<leftarrow> get_active_terminal_struct s;
        t \<leftarrow> term_get i s;
        let c = key_char scan_code (keyboard_state s);
        b \<leftarrow> arr_set (input_buf t) (unat (input_len t)) c;
        s \<leftarrow> term_set i (\<lambda>t. t\<lparr>input_len := input_len t + 1, input_buf := b\<rparr>) s;
        s \<leftarrow> kbd_putchar c s;
        if key_map ! unat scan_code = 0x0A then do {
          s \<leftarrow> term_set i (\<lambda>t. t\<lparr>is_input_ready := True\<rparr>) s;
          wake_up_terminal_processes (get_active_terminal_id s) s
        } else Some s
      })"

definition keyboard_handler :: "u8 \<Rightarrow> kernel \<Rightarrow> kernel option" where
  "keyboard_handler scan_code s =
     (if scan_code AND 0x80 \<noteq> 0 then
        (if scan_code = 0xAA then Some (kbd_set (\<lambda>k. k\<lparr>left_shift_pressed := False\<rparr>) s)
         else if scan_code = 0xB6 then Some (kbd_set (\<lambda>k. k\<lparr>right_shift_pressed := False\<rparr>) s)
         else if scan_code = 0x9D then Some (kbd_set (\<lambda>k. k\<lparr>ctrl_pressed := False\<rparr>) s)
         else if scan_code = 0xB8 then Some (kbd_set (\<lambda>k. k\<lparr>alt_pressed := False\<rparr>) s)
         else if scan_code = 0x45 then Some (kbd_set (\<lambda>k. k\<lparr>num_lock_pressed := False\<rparr>) s)
         else if scan_code = 0x3A then Some (kbd_set (\<lambda>k. k\<lparr>caps_lock_pressed := False\<rparr>) s)
         else if scan_code = 0x46 then Some (kbd_set (\<lambda>k. k\<lparr>scroll_lock_pressed := False\<rparr>) s)
         else Some s)
      else
        (if scan_code = 0x2A then Some (kbd_set (\<lambda>k. k\<lparr>left_shift_pressed := True\<rparr>) s)
         else if scan_code = 0x36 then Some (kbd_set (\<lambda>k. k\<lparr>right_shift_pressed := True\<rparr>) s)
         else if scan_code = 0x1D then Some (kbd_set (\<lambda>k. k\<lparr>ctrl_pressed := True\<rparr>) s)
         else if scan_code = 0x38 then Some (kbd_set (\<lambda>k. k\<lparr>alt_pressed := True\<rparr>) s)
         else if scan_code = 0x45 then Some (kbd_set (\<lambda>k. k\<lparr>num_lock_pressed := True\<rparr>) s)
         else if scan_code = 0x3A then Some (kbd_set (\<lambda>k. k\<lparr>caps_lock_pressed := \<not> caps_lock_pressed k\<rparr>) s)
         else if scan_code = 0x46 then Some (kbd_set (\<lambda>k. k\<lparr>scroll_lock_pressed := True\<rparr>) s)
         else plain_key scan_code s))"

text \<open>The interrupt: the scan code from port 0x60 (a parameter), then the end-of-interrupt.\<close>

definition keyboard_irq :: "u8 \<Rightarrow> kernel \<Rightarrow> kernel option" where
  "keyboard_irq scan_code s = do {
     s \<leftarrow> keyboard_handler scan_code s;
     Some (s\<lparr>pic_chips := irq_exit pics 1 (pic_chips s)\<rparr>)
   }"

definition keyboard_init :: "kernel \<Rightarrow> kernel" where
  "keyboard_init s = snd (register_isr_handler (PIC1_IRQ_INDEX + 1) Keyboard_irq
     (s\<lparr>pic_chips := pic_toggle_irq pics 1 True (pic_chips s)\<rparr>))"

section \<open>Line editing\<close>

definition active_index :: "kernel \<Rightarrow> nat" where
  "active_index s = unat (current_active_terminal_id s) - 1"

definition active :: "kernel \<Rightarrow> terminal" where
  "active s = terminals s ! active_index s"

definition line :: "kernel \<Rightarrow> bytes" where
  "line s = take (unat (input_len (active s))) (input_buf (active s))"

definition tty_ok :: "kernel \<Rightarrow> u32 list \<Rightarrow> bool" where
  "tty_ok s xs \<longleftrightarrow> length (terminals s) = 4 \<and> 0 < unat (current_active_terminal_id s) \<and>
     unat (current_active_terminal_id s) \<le> 4 \<and> length (input_buf (active s)) = 256 \<and>
     unat (input_len (active s)) \<le> 256 \<and> vga_ok (screen s) \<and> plist s xs \<and> current_process_g s \<in> set xs"

text \<open>
  What a key does to the modifiers and to the line that is being typed: a modifier key changes the
  modifiers, backspace takes back the last character, any other key adds its character.
\<close>

definition kbd_flags :: "u8 \<Rightarrow> keyboard_state_flags \<Rightarrow> keyboard_state_flags" where
  "kbd_flags c k =
     (if c = 0xAA then k\<lparr>left_shift_pressed := False\<rparr> else if c = 0xB6 then k\<lparr>right_shift_pressed := False\<rparr>
      else if c = 0x9D then k\<lparr>ctrl_pressed := False\<rparr> else if c = 0xB8 then k\<lparr>alt_pressed := False\<rparr>
      else if c = 0x2A then k\<lparr>left_shift_pressed := True\<rparr> else if c = 0x36 then k\<lparr>right_shift_pressed := True\<rparr>
      else if c = 0x1D then k\<lparr>ctrl_pressed := True\<rparr> else if c = 0x38 then k\<lparr>alt_pressed := True\<rparr>
      else if c = 0x45 then k\<lparr>num_lock_pressed := True\<rparr>
      else if c = 0x3A then k\<lparr>caps_lock_pressed := \<not> caps_lock_pressed k\<rparr>
      else if c = 0x46 then k\<lparr>scroll_lock_pressed := True\<rparr> else k)"

definition modifier_keys :: "u8 set" where
  "modifier_keys = {0x2A, 0x36, 0x1D, 0x38, 0x45, 0x3A, 0x46}"

definition kbd_edit :: "u8 \<Rightarrow> keyboard_state_flags \<times> bytes \<Rightarrow> keyboard_state_flags \<times> bytes" where
  "kbd_edit c = (\<lambda>(k, l). (kbd_flags c k,
     if c AND 0x80 \<noteq> 0 \<or> c \<in> modifier_keys then l
     else if key_map ! unat c = 0x08 then butlast l
     else l @ [key_char c k]))"

lemma active_struct:
  assumes "0 < unat (current_active_terminal_id s)" and "unat (current_active_terminal_id s) \<le> 4"
    and "length (terminals s) = 4"
  shows "get_active_terminal_struct s = Some (current_active_terminal_id s - 1)"
    and "unat (current_active_terminal_id s - 1) = active_index s" and "active_index s < 4"
    and "term_get (current_active_terminal_id s - 1) s = Some (active s)"
    and "term_set (current_active_terminal_id s - 1) f s =
      Some (s\<lparr>terminals := (terminals s)[active_index s := f (active s)]\<rparr>)"
proof -
  have nz: "current_active_terminal_id s \<noteq> 0" using assms(1) by auto
  then show "get_active_terminal_struct s = Some (current_active_terminal_id s - 1)"
    by (simp add: get_active_terminal_struct_def)
  show u: "unat (current_active_terminal_id s - 1) = active_index s"
    using nz assms(1) by (simp add: active_index_def unat_sub word_le_nat_alt)
  show l: "active_index s < 4" using assms(1,2) by (simp add: active_index_def)
  show "term_get (current_active_terminal_id s - 1) s = Some (active s)"
    using u l assms(3) by (simp add: term_get_def arr_simps active_def)
  then show "term_set (current_active_terminal_id s - 1) f s =
      Some (s\<lparr>terminals := (terminals s)[active_index s := f (active s)]\<rparr>)"
    using u l assms(3) by (simp add: term_set_def arr_simps)
qed

text \<open>The state with the active terminal changed and something printed on the screen.\<close>

definition retype :: "(terminal \<Rightarrow> terminal) \<Rightarrow> vga \<Rightarrow> kernel \<Rightarrow> kernel" where
  "retype f v s = s\<lparr>terminals := (terminals s)[active_index s := f (active s)], screen := v\<rparr>"

lemma retype_sel:
  assumes "active_index s < length (terminals s)"
  shows "active (retype f v s) = f (active s)" "active_index (retype f v s) = active_index s"
    "current_active_terminal_id (retype f v s) = current_active_terminal_id s"
    "length (terminals (retype f v s)) = length (terminals s)" "screen (retype f v s) = v"
    "nodes (retype f v s) = nodes s" "procs (retype f v s) = procs s" "plist (retype f v s) xs = plist s xs"
    "current_process_g (retype f v s) = current_process_g s" "keyboard_state (retype f v s) = keyboard_state s"
  using assms by (simp_all add: retype_def active_def active_index_def procs_def[abs_def] plist_def)

lemma tty_okE:
  assumes "tty_ok s xs"
  shows "active_index s < length (terminals s)" "length (terminals s) = 4" "0 < unat (current_active_terminal_id s)"
    "unat (current_active_terminal_id s) \<le> 4" "length (input_buf (active s)) = 256"
    "unat (input_len (active s)) \<le> 256" "vga_ok (screen s)" "plist s xs" "current_process_g s \<in> set xs"
  using assms by (auto simp: tty_ok_def active_index_def)

lemma putchar_ok:
  assumes "vga_ok v"
  obtains v' where "vga_putchar c v = Some v'" and "vga_ok v'"
proof -
  obtain v1 where "vga_putchar_colored c VGA_COLOR_BLACK VGA_COLOR_WHITE v = Some (update_cursor v1)" "vga_ok v1"
    by (rule vga_putchar_colored_abs[OF assms])
  then show ?thesis by (intro that[of "update_cursor v1"]) (simp_all add: vga_putchar_def)
qed

text \<open>A key that adds its character, before a possible end of the line.\<close>

definition add_char :: "u8 \<Rightarrow> terminal \<Rightarrow> terminal" where
  "add_char c t = t\<lparr>input_len := input_len t + 1, input_buf := (input_buf t)[unat (input_len t) := c]\<rparr>"

lemma type_char:
  assumes ok: "tty_ok s xs" and room: "length (line s) < 256"
  obtains b v where "arr_set (input_buf (active s)) (unat (input_len (active s))) c = Some b"
    and "term_set (current_active_terminal_id s - 1) (\<lambda>t. t\<lparr>input_len := input_len t + 1, input_buf := b\<rparr>) s =
      Some (retype (add_char c) (screen s) s)"
    and "kbd_putchar c (retype (add_char c) (screen s) s) = Some (retype (add_char c) v s)"
    and "tty_ok (retype (add_char c) v s) xs" and "line (retype (add_char c) v s) = line s @ [c]"
proof -
  note o = tty_okE[OF ok]
  have n: "unat (input_len (active s)) < 256" using room o(5,6) by (simp add: line_def)
  have u: "unat (input_len (active s) + 1) = Suc (unat (input_len (active s)))"
    using n unat_add_lem[of "input_len (active s)" 1] by simp
  obtain v where v: "vga_putchar c (screen s) = Some v" "vga_ok v" by (rule putchar_ok[OF o(7)])
  let ?b = "(input_buf (active s))[unat (input_len (active s)) := c]"
  show ?thesis
  proof (rule that[of ?b v])
    show "arr_set (input_buf (active s)) (unat (input_len (active s))) c = Some ?b" using n o(5) by (simp add: arr_simps)
    show "term_set (current_active_terminal_id s - 1) (\<lambda>t. t\<lparr>input_len := input_len t + 1, input_buf := ?b\<rparr>) s =
      Some (retype (add_char c) (screen s) s)"
      using active_struct(5)[OF o(3,4,2)] by (simp add: retype_def add_char_def)
    show "kbd_putchar c (retype (add_char c) (screen s) s) = Some (retype (add_char c) v s)"
      using v(1) by (simp add: kbd_putchar_def retype_def)
    show "tty_ok (retype (add_char c) v s) xs"
      using o n u v by (simp add: tty_ok_def retype_sel add_char_def)
    show "line (retype (add_char c) v s) = line s @ [c]"
      using o n u by (simp add: line_def retype_sel add_char_def take_Suc_conv_app_nth)
  qed
qed

lemma key_map_enter: "i < 128 \<Longrightarrow> key_map ! i = 0x0A \<Longrightarrow> i = 0x1C"
proof -
  have "\<forall>i < 128. key_map ! i = 0x0A \<longrightarrow> i = 0x1C" by code_simp
  then show "i < 128 \<Longrightarrow> key_map ! i = 0x0A \<Longrightarrow> i = 0x1C" by blast
qed

lemma plain_scan_code:
  assumes "c AND 0x80 = (0 :: u8)"
  shows "unat c < 128"
proof (rule ccontr)
  assume "\<not> unat c < 128"
  moreover have "unat c < 256" using unsigned_less[of c, where 'a = nat] by simp
  ultimately have "unat c div 2 ^ 7 = 1" by simp
  then have "bit (unat c) 7" by (simp add: bit_iff_odd)
  moreover have "(0x80 :: u8) = 2 ^ 7" by simp
  then have "\<not> bit c 7" using assms by (metis and_exp_eq_0_iff_not_bit)
  ultimately show False by (simp add: bit_unsigned_iff)
qed

lemma plain_key_char:
  assumes "tty_ok s xs" and "length (line s) < 256" and "key_map ! unat c \<noteq> 0x08"
  obtains v where "plain_key c s = (let s' = retype (add_char (key_char c (keyboard_state s))) v s
      in if key_map ! unat c = 0x0A then do {
           s \<leftarrow> term_set (current_active_terminal_id s - 1) (\<lambda>t. t\<lparr>is_input_ready := True\<rparr>) s';
           wake_up_terminal_processes (get_active_terminal_id s) s
         } else Some s')"
    and "tty_ok (retype (add_char (key_char c (keyboard_state s))) v s) xs"
    and "line (retype (add_char (key_char c (keyboard_state s))) v s) = line s @ [key_char c (keyboard_state s)]"
proof -
  note a = active_struct[OF tty_okE(3,4,2)[OF assms(1)]]
  obtain b v where "arr_set (input_buf (active s)) (unat (input_len (active s))) (key_char c (keyboard_state s)) = Some b"
    and "term_set (current_active_terminal_id s - 1) (\<lambda>t. t\<lparr>input_len := input_len t + 1, input_buf := b\<rparr>) s =
      Some (retype (add_char (key_char c (keyboard_state s))) (screen s) s)"
    and "kbd_putchar (key_char c (keyboard_state s)) (retype (add_char (key_char c (keyboard_state s))) (screen s) s) =
      Some (retype (add_char (key_char c (keyboard_state s))) v s)"
    and "tty_ok (retype (add_char (key_char c (keyboard_state s))) v s) xs"
    and "line (retype (add_char (key_char c (keyboard_state s))) v s) = line s @ [key_char c (keyboard_state s)]"
    by (rule type_char[OF assms(1,2), of "key_char c (keyboard_state s)"])
  then show ?thesis using assms(3) a(1,4) by (intro that[of v]) (simp_all add: plain_key_def Let_def)
qed

lemma plain_key_edit:
  assumes ok: "tty_ok s xs" and room: "length (line s) < 256 \<or> key_map ! unat c = 0x08" and c: "key_map ! unat c \<noteq> 0x0A"
  shows "\<exists>s'. plain_key c s = Some s' \<and> tty_ok s' xs \<and> keyboard_state s' = keyboard_state s \<and> procs s' = procs s \<and>
    current_active_terminal_id s' = current_active_terminal_id s \<and>
    line s' = (if key_map ! unat c = 0x08 then butlast (line s) else line s @ [key_char c (keyboard_state s)])"
proof (cases "key_map ! unat c = 0x08")
  case False
  then have room: "length (line s) < 256" using room by simp
  let ?f = "add_char (key_char c (keyboard_state s))"
  obtain v where "plain_key c s = (let s' = retype ?f v s in if key_map ! unat c = 0x0A then do {
           s \<leftarrow> term_set (current_active_terminal_id s - 1) (\<lambda>t. t\<lparr>is_input_ready := True\<rparr>) s';
           wake_up_terminal_processes (get_active_terminal_id s) s
         } else Some s')" "tty_ok (retype ?f v s) xs" "line (retype ?f v s) = line s @ [key_char c (keyboard_state s)]"
    by (rule plain_key_char[OF ok room False])
  then show ?thesis using False c tty_okE(1)[OF ok] by (intro exI[of _ "retype ?f v s"]) (simp add: retype_sel Let_def)
next
  case True
  note o = tty_okE[OF ok] and a = active_struct[OF tty_okE(3,4,2)[OF ok]]
  show ?thesis
  proof (cases "0 < input_len (active s)")
    case False
    then have "line s = []" by (simp add: line_def word_gt_0)
    then show ?thesis using True False a(1,4) ok by (simp add: plain_key_def)
  next
    case len: True
    obtain v where v: "vga_putchar 0x08 (screen s) = Some v" "vga_ok v" by (rule putchar_ok[OF o(7)])
    let ?f = "\<lambda>t. t\<lparr>input_len := input_len t - 1, input_buf := (input_buf t)[unat (input_len t - 1) := 0]\<rparr>"
    have pos: "0 < unat (input_len (active s))" using len by (simp add: word_less_nat_alt)
    then have u: "unat (input_len (active s) - 1) = unat (input_len (active s)) - 1"
      by (simp add: unat_sub word_le_nat_alt)
    have b: "arr_set (input_buf (active s)) (unat (input_len (active s)) - 1) 0 =
        Some ((input_buf (active s))[unat (input_len (active s)) - 1 := 0])"
      by (rule arr_set_Some) (use pos o(5,6) in linarith)
    have "plain_key c s = Some (retype ?f v s)"
      using True len a(1,4,5) b u v(1) by (simp add: plain_key_def kbd_putchar_def retype_def)
    moreover have "tty_ok (retype ?f v s) xs" using o u v(2) by (simp add: tty_ok_def retype_sel)
    moreover have "line (retype ?f v s) = butlast (line s)"
      using o u by (simp add: line_def retype_sel butlast_take)
    ultimately show ?thesis using True o(1) by (simp add: retype_sel)
  qed
qed

lemma tty_ok_kbd [simp]: "tty_ok (kbd_set f s) xs = tty_ok s xs" "line (kbd_set f s) = line s"
  "procs (kbd_set f s) = procs s" "keyboard_state (kbd_set f s) = f (keyboard_state s)"
  "current_active_terminal_id (kbd_set f s) = current_active_terminal_id s"
  by (simp_all add: kbd_set_def tty_ok_def active_def active_index_def line_def plist_def procs_def[abs_def])

lemma keyboard_handler_modifier:
  assumes "c AND 0x80 \<noteq> 0 \<or> c \<in> modifier_keys"
  shows "keyboard_handler c s = Some (kbd_set (kbd_flags c) s)"
proof (cases "c \<in> modifier_keys \<union> {0xAA, 0xB6, 0x9D, 0xB8}")
  case True
  then show ?thesis unfolding modifier_keys_def
    by (elim UnE insertE emptyE) (simp_all add: keyboard_handler_def kbd_set_def kbd_flags_def)
next
  case False
  then have "c AND 0x80 \<noteq> 0" using assms by blast
  then show ?thesis using False by (auto simp: keyboard_handler_def kbd_set_def kbd_flags_def modifier_keys_def)
qed

lemma keyboard_handler_plain:
  assumes "\<not> (c AND 0x80 \<noteq> 0 \<or> c \<in> modifier_keys)"
  shows "keyboard_handler c s = plain_key c s" and "kbd_flags c k = k" and "unat c < 128"
  using assms plain_scan_code[of c] by (auto simp: keyboard_handler_def kbd_flags_def modifier_keys_def)

lemma keyboard_handler_edit:
  assumes "tty_ok s xs" and "length (line s) < 256 \<or> c = 0x0E" and "c \<noteq> 0x1C"
  shows "\<exists>s'. keyboard_handler c s = Some s' \<and> tty_ok s' xs \<and> procs s' = procs s \<and>
    current_active_terminal_id s' = current_active_terminal_id s \<and>
    (keyboard_state s', line s') = kbd_edit c (keyboard_state s, line s)"
proof (cases "c AND 0x80 \<noteq> 0 \<or> c \<in> modifier_keys")
  case True
  then show ?thesis using assms(1) by (simp add: keyboard_handler_modifier kbd_edit_def)
next
  case False
  note p = keyboard_handler_plain[OF False]
  have "unat c \<noteq> 0x1C" using assms(3) by (simp add: word_unat_eq_iff)
  then have "key_map ! unat c \<noteq> 0x0A" using key_map_enter[of "unat c"] p(3) by blast
  moreover have "key_map ! unat (0x0E :: u8) = 0x08" by code_simp
  then have "length (line s) < 256 \<or> key_map ! unat c = 0x08" using assms(2) by auto
  ultimately obtain s' where "plain_key c s = Some s'" "tty_ok s' xs" "keyboard_state s' = keyboard_state s" "procs s' = procs s"
    "current_active_terminal_id s' = current_active_terminal_id s"
    "line s' = (if key_map ! unat c = 0x08 then butlast (line s) else line s @ [key_char c (keyboard_state s)])"
    using plain_key_edit[OF assms(1)] by blast
  then show ?thesis using False p by (auto simp: kbd_edit_def)
qed

lemma tty_map_procs [simp]:
  "tty_ok (map_procs A f s) xs = tty_ok s xs" "active (map_procs A f s) = active s" "line (map_procs A f s) = line s"
  by (simp_all add: tty_ok_def active_def active_index_def line_def, simp_all add: map_procs_def)

text \<open>What \<open>wake_up_terminal_processes\<close> does to a process.\<close>

definition unblock :: "u32 \<Rightarrow> process \<Rightarrow> process" where
  "unblock tid p = (if p_state p = PROCESS_BLOCKED \<and> terminal_id p = tid then p\<lparr>p_state := PROCESS_READY\<rparr> else p)"

lemma enter_key:
  assumes ok: "tty_ok s xs" and room: "length (line s) < 256"
  obtains s' where "keyboard_handler 0x1C s = Some s'" and "tty_ok s' xs" and "is_input_ready (active s')"
    and "line s' = line s @ [0x0A]"
    and "\<And>x. x \<in> set xs \<Longrightarrow> procs s' x = map_option (unblock (current_active_terminal_id s)) (procs s x)"
proof -
  have k: "key_map ! unat (0x1C :: u8) = 0x0A" "key_map_shift ! unat (0x1C :: u8) = 0x0A" by code_simp+
  then have c: "key_char 0x1C (keyboard_state s) = 0x0A" by (simp add: key_char_def Let_def)
  obtain v where v: "plain_key 0x1C s = (let s' = retype (add_char 0x0A) v s
      in if key_map ! unat (0x1C :: u8) = 0x0A then do {
           s \<leftarrow> term_set (current_active_terminal_id s - 1) (\<lambda>t. t\<lparr>is_input_ready := True\<rparr>) s';
           wake_up_terminal_processes (get_active_terminal_id s) s
         } else Some s')" "tty_ok (retype (add_char 0x0A) v s) xs" "line (retype (add_char 0x0A) v s) = line s @ [0x0A]"
    using plain_key_char[OF ok room, of "0x1C"] k c by auto
  define t where "t = retype (add_char 0x0A) v s"
  define u where "u = t\<lparr>terminals := (terminals t)[active_index t := (active t)\<lparr>is_input_ready := True\<rparr>]\<rparr>"
  note o = tty_okE[OF v(2), folded t_def]
  have id: "current_active_terminal_id t = current_active_terminal_id s"
    using retype_sel(3) tty_okE(1)[OF ok] by (simp add: t_def)
  have u: "active u = (active t)\<lparr>is_input_ready := True\<rparr>" "current_active_terminal_id u = current_active_terminal_id t"
    "current_process_g u = current_process_g t" "plist u xs" "procs u = procs s" "tty_ok u xs" "line u = line t"
    using o tty_okE(1)[OF ok] by (simp_all add: u_def active_def active_index_def plist_def procs_def[abs_def] tty_ok_def line_def)
      (simp add: t_def retype_def)
  have set: "term_set (current_active_terminal_id s - 1) (\<lambda>t. t\<lparr>is_input_ready := True\<rparr>) t = Some u"
    using active_struct(5)[OF o(3,4,2)] by (simp add: u_def id)
  have "wake_up_terminal_processes (current_active_terminal_id u) u =
      Some (map_procs (set xs) (unblock (current_active_terminal_id u)) u)"
    using wake_loop_all[OF u(4), of "unblock (current_active_terminal_id u)"] o(9) u(3)
    by (simp add: wake_up_terminal_processes_def unblock_def[abs_def])
  moreover have "keyboard_handler 0x1C s = plain_key 0x1C s" by (simp add: keyboard_handler_def)
  ultimately have "keyboard_handler 0x1C s = Some (map_procs (set xs) (unblock (current_active_terminal_id u)) u)"
    using v(1) set k(1) by (simp add: t_def[symmetric] get_active_terminal_id_def)
  then show ?thesis using u v(3) id
    by (intro that[of "map_procs (set xs) (unblock (current_active_terminal_id u)) u"])
      (simp_all add: t_def[symmetric] procs_map_procs)
qed

lemma kbd_edit_length: "length (snd (kbd_edit c (k, l))) \<le> Suc (length l)"
  by (simp add: kbd_edit_def le_SucI)

lemma type_keys:
  assumes "tty_ok s xs" and "length (line s) + length ks < 256" and "0x1C \<notin> set ks"
  shows "\<exists>s'. run_steps keyboard_handler ks s = Some s' \<and> tty_ok s' xs \<and> procs s' = procs s \<and>
    (keyboard_state s', line s') = fold kbd_edit ks (keyboard_state s, line s) \<and>
    length (line s') \<le> length (line s) + length ks \<and> current_active_terminal_id s' = current_active_terminal_id s"
  using assms
proof (induction ks arbitrary: s)
  case Nil
  then show ?case by simp
next
  case (Cons c ks)
  obtain s1 where s1: "keyboard_handler c s = Some s1" "tty_ok s1 xs" "procs s1 = procs s"
    "(keyboard_state s1, line s1) = kbd_edit c (keyboard_state s, line s)"
    "current_active_terminal_id s1 = current_active_terminal_id s"
    using keyboard_handler_edit[OF Cons.prems(1), of c] Cons.prems by auto
  have "length (line s1) \<le> Suc (length (line s))"
    using s1(4) kbd_edit_length[of c "keyboard_state s" "line s"] by (metis snd_conv)
  then show ?case using Cons.IH[OF s1(2)] Cons.prems s1 by auto
qed

lemma read_line:
  assumes "tty_ok s xs" and "is_input_ready (active s)" and "length (line s) \<le> unat count"
    and "length (line s) \<le> length buf"
  shows "\<exists>s'. read_terminal_input buf count s =
    Some (Got (int (length (line s))) (line s @ drop (length (line s)) buf), s') \<and> line s' = [] \<and> tty_ok s' xs \<and>
    \<not> is_input_ready (active s')"
proof -
  note o = tty_okE[OF assms(1)] and a = active_struct[OF tty_okE(3,4,2)[OF assms(1)]]
  have len: "length (line s) = unat (input_len (active s))" using o(5,6) by (simp add: line_def)
  then have c: "(if input_len (active s) < count then input_len (active s) else count) = input_len (active s)"
    using assms(3) by (simp add: word_less_nat_alt word_unat_eq_iff)
  have m: "memcpy buf (input_buf (active s)) (unat (input_len (active s))) = Some (line s @ drop (length (line s)) buf)"
    using memcpy_eq[of "unat (input_len (active s))" buf "input_buf (active s)"] assms(4) o(5,6) len
    by (simp add: line_def)
  have z: "memset (input_buf (active s)) 0 256 = Some (replicate 256 0)"
    using memset_eq[of 256 "input_buf (active s)" 0] o(5) by simp
  have "sint (input_len (active s)) = int (length (line s))"
    using sint_small[of "input_len (active s)"] o(6) len by simp
  moreover define u where "u = s\<lparr>terminals := (terminals s)[active_index s :=
      (active s)\<lparr>is_input_ready := False, input_buf := replicate 256 0, input_len := 0\<rparr>]\<rparr>"
  ultimately have "read_terminal_input buf count s =
      Some (Got (int (length (line s))) (line s @ drop (length (line s)) buf), u)"
    using a(1,4,5) assms(2) c m z by (simp add: read_terminal_input_def Let_def INPUT_BUFFER_SIZE_def)
  moreover have "active u = (active s)\<lparr>is_input_ready := False, input_buf := replicate 256 0, input_len := 0\<rparr>"
    using o(1) by (simp add: u_def active_def active_index_def)
  moreover from this have "tty_ok u xs" using o by (simp add: tty_ok_def) (simp add: u_def plist_def)
  ultimately show ?thesis by (simp add: line_def)
qed

lemma run_steps_snoc: "run_steps step (rs @ [r]) s = do { s \<leftarrow> run_steps step rs s; step r s }"
  by (induction rs arbitrary: s) (auto split: bind_splits)

section \<open>Properties\<close>

text \<open>C18. What is typed is what is read: from any state of the terminal, a sequence of key presses and
  releases (modifiers, shifted and plain keys, backspaces) that ends in Enter and leaves the line within the
  buffer is handled without a fault; the processes blocked on the terminal are ready afterwards; and a
  \<open>read_terminal_input\<close> with enough room returns the edited line and its newline, and empties the line.\<close>

theorem typed_line_is_read:
  assumes "tty_ok s xs" and "length (line s) + length ks < 256" and "0x1C \<notin> set ks"
    and "l = snd (fold kbd_edit ks (keyboard_state s, line s)) @ [0x0A]"
    and "length l \<le> unat count" and "length l \<le> length buf"
  shows "\<exists>s'. run_steps keyboard_handler (ks @ [0x1C]) s = Some s' \<and>
    (\<forall>x \<in> set xs. procs s' x = map_option (unblock (current_active_terminal_id s)) (procs s x)) \<and>
    (\<exists>s''. read_terminal_input buf count s' = Some (Got (int (length l)) (l @ drop (length l) buf), s'') \<and> line s'' = [])"
proof -
  obtain s1 where s1: "run_steps keyboard_handler ks s = Some s1" "tty_ok s1 xs" "procs s1 = procs s"
    "(keyboard_state s1, line s1) = fold kbd_edit ks (keyboard_state s, line s)"
    "length (line s1) \<le> length (line s) + length ks" "current_active_terminal_id s1 = current_active_terminal_id s"
    using type_keys[OF assms(1-3)] by blast
  have room: "length (line s1) < 256" using s1(5) assms(2) by simp
  obtain s2 where s2: "keyboard_handler 0x1C s1 = Some s2" "tty_ok s2 xs" "is_input_ready (active s2)"
    "line s2 = line s1 @ [0x0A]"
    "\<And>x. x \<in> set xs \<Longrightarrow> procs s2 x = map_option (unblock (current_active_terminal_id s1)) (procs s1 x)"
    using enter_key[OF s1(2) room] by blast
  have l: "line s2 = l" using s2(4) s1(4) assms(4) by (metis snd_conv)
  then have "\<exists>s''. read_terminal_input buf count s2 = Some (Got (int (length l)) (l @ drop (length l) buf), s'') \<and> line s'' = []"
    using read_line[OF s2(2,3), of count buf] assms(5,6) by auto
  then show ?thesis using s1(1,3,6) s2(1,5) by (intro exI[of _ s2]) (simp add: run_steps_snoc)
qed

definition tty_example :: kernel where
  "tty_example = kernel_example\<lparr>current_active_terminal_id := 1\<rparr>"

lemma tty_example_ok: "tty_ok tty_example [0x1000, 0x2000, 0x3000]" "line tty_example = []"
  using example_plist vga_example_ok
  by (simp_all add: tty_ok_def tty_example_def plist_def active_def active_index_def line_def kernel_example_def)

text \<open>The keys: shift down, \<open>h\<close>, shift up, \<open>i\<close>, \<open>x\<close>, backspace, Enter.\<close>

theorem typed_line_is_read_witness:
  "\<exists>s'. run_steps keyboard_handler ([0x2A, 0x23, 0xAA, 0x17, 0x2D, 0x0E] @ [0x1C]) tty_example = Some s' \<and>
    (\<forall>x \<in> set [0x1000, 0x2000, 0x3000]. procs s' x = map_option (unblock (current_active_terminal_id tty_example))
       (procs tty_example x)) \<and>
    (\<exists>s''. read_terminal_input (replicate 5 0) 5 s' =
       Some (Got (int (length (bytes_of ''Hi'' @ [0x0A]))) ((bytes_of ''Hi'' @ [0x0A]) @
         drop (length (bytes_of ''Hi'' @ [0x0A])) (replicate 5 0)), s'') \<and> line s'' = [])"
proof (rule typed_line_is_read[OF tty_example_ok(1)])
  have m: "key_map_shift ! 0x23 = 0x48" "key_map ! 0x17 = 0x69" "key_map ! 0x2D = 0x78" "key_map ! 0x0E = 8" "key_map ! 0x23 = 0x68"
    by code_simp+
  have k: "keyboard_state tty_example = \<lparr>right_shift_pressed = False, left_shift_pressed = False, ctrl_pressed = False,
       alt_pressed = False, scroll_lock_pressed = False, num_lock_pressed = False, caps_lock_pressed = False\<rparr>"
    by (simp add: tty_example_def kernel_example_def)
  show "bytes_of ''Hi'' @ [0x0A] =
      snd (fold kbd_edit [0x2A, 0x23, 0xAA, 0x17, 0x2D, 0x0E] (keyboard_state tty_example, line tty_example)) @ [0x0A]"
    by (simp add: k tty_example_ok(2) kbd_edit_def kbd_flags_def modifier_keys_def key_char_def Let_def m bytes_of_def)
qed (simp_all add: tty_example_ok bytes_of_def)

text \<open>The line buffer has no guard: with 256 characters typed and not yet read, any further key that
  stands for a character, Enter included, writes behind \<open>input_buf\<close>.\<close>

lemma keyboard_overflows_input_buffer:
  assumes "tty_ok s xs" and "length (line s) = 256" and "c AND 0x80 = 0" and "c \<notin> modifier_keys" and "c \<noteq> 0x0E"
  shows "keyboard_handler c s = None"
proof -
  have "\<forall>i < 128. key_map ! i = 8 \<longrightarrow> i = 0x0E" by code_simp
  moreover have p: "keyboard_handler c s = plain_key c s" "unat c < 128"
    using keyboard_handler_plain[of c] assms(3,4) by blast+
  moreover have "unat c \<noteq> 0x0E" using assms(5) by (simp add: word_unat_eq_iff)
  ultimately have "key_map ! unat c \<noteq> 8" by blast
  moreover have "length (input_buf (active s)) \<le> unat (input_len (active s))"
    using assms(2) tty_okE(5)[OF assms(1)] by (simp add: line_def)
  then have "arr_set (input_buf (active s)) (unat (input_len (active s))) (key_char c (keyboard_state s)) = None"
    by (rule arr_set_None)
  ultimately show ?thesis
    using p(1) active_struct(1,4)[OF tty_okE(3,4,2)[OF assms(1)]] by (simp add: plain_key_def Let_def)
qed

end
