(* ===== verification/Machine.thy ===== *)
theory Machine
  imports Terminal
begin

text \<open>
  The running system as a transition system: the timer interrupt, the keyboard interrupt, a process that
  reads its terminal, and a process that gives up the processor. The kernel starts the program \<open>/dummy\<close>
  before any other process; it never blocks, and it is what keeps the loop of the scheduler from running
  forever. The theory shows that this works: with such an idle process on the list, the invariant of the
  scheduler and of the terminals holds in every reachable state, and in every reachable state a timer
  interrupt finds a process to run.
\<close>

section \<open>Steps\<close>

text \<open>
  \<open>idle\<close> is the node of the idle process, which makes no system call. There is a step only where the
  code returns: none for a key beyond the 256 characters of a line, which writes behind
  \<open>input_buf\<close> (\<open>keyboard_overflows_input_buffer\<close>), nor for a read into too small a buffer. The property
  states exactly which keys that excludes, and that nothing else is excluded.
\<close>

inductive kstep :: "u32 \<Rightarrow> kernel \<Rightarrow> kernel \<Rightarrow> bool" for idle :: u32 where
  tick: "timer_irq regs s = Some (c, s') \<Longrightarrow> kstep idle s s'"
| key: "keyboard_irq scan_code s = Some s' \<Longrightarrow> kstep idle s s'"
| read: "current_process_g s \<noteq> idle \<Longrightarrow> read_terminal_input buf count s = Some (r, s') \<Longrightarrow> kstep idle s s'"
| yield: "switch_process regs s = Some (c, s') \<Longrightarrow> kstep idle s s'"

inductive_cases kstepE: "kstep idle s s'"

definition idle_ready :: "u32 \<Rightarrow> kernel \<Rightarrow> bool" where
  "idle_ready idle s \<longleftrightarrow> (\<exists>p. procs s idle = Some p \<and>
     (p_state p = PROCESS_READY \<or> p_state p = PROCESS_RUNNING \<and> current_process_g s = idle))"

definition machine_ok :: "u32 \<Rightarrow> u32 list \<Rightarrow> kernel \<Rightarrow> bool" where
  "machine_ok idle xs s \<longleftrightarrow> sched_ok s xs \<and> tty_ok s xs \<and> idle \<in> set xs \<and> idle_ready idle s"

section \<open>Frames\<close>

lemma sched_ok_frame:
  assumes "sched_ok s xs" and "plist s' xs" and "current_process_g s' \<in> set xs"
    and "kheap s' = kheap s" and "kcpu s' = kcpu s"
    and "\<And>x p. x \<in> set xs \<Longrightarrow> procs s' x = Some p \<Longrightarrow> \<exists>q. procs s x = Some q \<and> page_directory q = page_directory p"
  shows "sched_ok s' xs"
  using assms unfolding sched_ok_def by metis

definition same_tty :: "kernel \<Rightarrow> kernel \<Rightarrow> bool" where
  "same_tty s s' \<longleftrightarrow> terminals s' = terminals s \<and> screen s' = screen s \<and>
     current_active_terminal_id s' = current_active_terminal_id s"

lemma tty_ok_frame:
  "tty_ok s xs \<Longrightarrow> same_tty s s' \<Longrightarrow> plist s' xs \<Longrightarrow> current_process_g s' \<in> set xs \<Longrightarrow> tty_ok s' xs"
  by (simp add: tty_ok_def same_tty_def active_def active_index_def)

lemma switch_process_tty: "switch_process regs s = Some (c, s') \<Longrightarrow> same_tty s s'"
  by (auto simp: switch_process_def jump_proc_wrapper_def load_directory_def proc_set_def node_set_def same_tty_def Let_def
      split: bind_splits if_splits)

definition same_frame :: "kernel \<Rightarrow> kernel \<Rightarrow> bool" where
  "same_frame s s' \<longleftrightarrow> kheap s' = kheap s \<and> kcpu s' = kcpu s \<and> current_process_g s' = current_process_g s"

lemma wake_loop_frame: "wake_loop f i s = Some s' \<Longrightarrow> same_frame s s'"
  by (rule wake_loop.raw_induct[where P = "\<lambda>f i s s'. same_frame s s'"])
    (auto simp: proc_set_def node_set_def same_frame_def split: bind_splits if_splits)

lemma keyboard_handler_frame:
  assumes "keyboard_handler c s = Some s'"
  shows "same_frame s s'"
proof -
  have w: "same_frame s1 s2" if "wake_up_terminal_processes t s1 = Some s2" for t s1 s2
    using that wake_loop_frame by (auto simp: wake_up_terminal_processes_def)
  show ?thesis
    using assms unfolding keyboard_handler_def plain_key_def
    by (auto simp: kbd_set_def term_set_def kbd_putchar_def same_frame_def Let_def dest!: w split: bind_splits if_splits)
qed


section \<open>The scheduler\<close>

lemma idle_suspend:
  assumes "idle_ready idle s"
  shows "is_ready (suspend regs s) idle"
proof -
  obtain p where p: "procs s idle = Some p"
    and st: "p_state p = PROCESS_READY \<or> p_state p = PROCESS_RUNNING \<and> current_process_g s = idle"
    using assms by (auto simp: idle_ready_def)
  define f where "f p = (if p_state p = PROCESS_RUNNING then p\<lparr>p_state := PROCESS_READY\<rparr> else p)
    \<lparr>p_registers := copy_registers regs (p_registers p)\<rparr>" for p :: process
  have "procs (suspend regs s) idle = Some (if idle = current_process_g s then f p else p)"
    using p by (cases "idle = current_process_g s") (simp_all add: procs_suspend f_def del: map_option_eq_Some)
  moreover have "p_state (f p) = PROCESS_READY" using st by (auto simp: f_def)
  ultimately show ?thesis using st by (auto simp: is_ready_def)
qed

text \<open>The first ready process behind the current one.\<close>

lemma first_ready_process:
  assumes "current_process_g s \<in> set xs" and "x \<in> set xs" and "is_ready t x"
  obtains ys zs us w vs where "xs = ys @ current_process_g s # zs" and "zs @ ys @ [current_process_g s] = us @ w # vs"
    and "\<forall>u \<in> set us. \<not> is_ready t u" and "is_ready t w"
proof -
  obtain ys zs where xs: "xs = ys @ current_process_g s # zs" using assms(1) by (meson split_list)
  then have "\<exists>x \<in> set (zs @ ys @ [current_process_g s]). is_ready t x" using assms(2,3) by auto
  then obtain us w vs where "zs @ ys @ [current_process_g s] = us @ w # vs" "is_ready t w" "\<forall>u \<in> set us. \<not> is_ready t u"
    by (rule split_list_first_propE)
  then show ?thesis using that[OF xs] by blast
qed

lemma machine_switch:
  assumes "machine_ok idle xs s"
  obtains c s' where "switch_process regs s = Some (c, s')" and "machine_ok idle xs s'"
proof -
  have s: "sched_ok s xs" "tty_ok s xs" "idle \<in> set xs" "idle_ready idle s" using assms by (auto simp: machine_ok_def)
  have cur: "current_process_g s \<in> set xs" using s(1) by (simp add: sched_ok_def)
  obtain ys zs us w vs where xs: "xs = ys @ current_process_g s # zs"
    and ring: "zs @ ys @ [current_process_g s] = us @ w # vs"
    and us: "\<forall>u \<in> set us. \<not> is_ready (suspend regs s) u" and w: "is_ready (suspend regs s) w"
    by (rule first_ready_process[OF cur s(3) idle_suspend[OF s(4)]])
  have "ring s (current_process_g s) (us @ w # vs)"
    using plist_ring[of s ys "current_process_g s" zs] s(1) xs ring by (simp add: sched_ok_def)
  moreover have sub: "set (us @ w # vs) \<subseteq> set xs" unfolding ring[symmetric] xs by auto
  moreover obtain p where p: "procs (suspend regs s) w = Some p" "p_state p = PROCESS_READY"
    using w by (auto simp: is_ready_def)
  ultimately obtain s' where s': "switch_process regs s = Some (jump_of p, s')" "sched_ok s' xs" "current_process_g s' = w"
    "\<And>x. procs s' x = (if x = w then Some (p\<lparr>p_state := PROCESS_RUNNING\<rparr>) else procs (suspend regs s) x)"
    using switch_process_ring[OF s(1) _ _ us] by metis
  have "tty_ok s' xs"
    using tty_ok_frame[OF s(2) switch_process_tty[OF s'(1)]] s'(2) by (simp add: sched_ok_def)
  moreover have "idle_ready idle s'"
    using idle_suspend[OF s(4), of regs] s'(3,4) by (auto simp: idle_ready_def is_ready_def)
  ultimately show ?thesis using s' s(3) that by (auto simp: machine_ok_def)
qed

lemma machine_ok_clock [simp]:
  "machine_ok idle xs (s\<lparr>timer := t\<rparr>) = machine_ok idle xs s"
  "machine_ok idle xs (s\<lparr>pic_chips := c\<rparr>) = machine_ok idle xs s"
  by (simp_all add: machine_ok_def sched_ok_def tty_ok_def idle_ready_def plist_def procs_def active_def active_index_def)

lemma machine_tick:
  assumes "machine_ok idle xs s"
  obtains c s' where "timer_irq regs s = Some (c, s')" and "machine_ok idle xs s'"
proof -
  obtain due t where t: "timer_count (timer s) = (due, t)" by (cases "timer_count (timer s)")
  define u where "u = s\<lparr>timer := t, pic_chips := irq_exit pics 0 (pic_chips s)\<rparr>"
  have u: "machine_ok idle xs u" using assms by (simp add: u_def)
  show ?thesis
  proof (cases "due \<and> is_schduling u")
    case True
    then show ?thesis using machine_switch[OF u, of regs] that t by (auto simp: timer_irq_def u_def)
  next
    case False
    then show ?thesis using u that t by (auto simp: timer_irq_def u_def)
  qed
qed


section \<open>The keyboard\<close>

lemma full_line_key:
  assumes "tty_ok s xs" and "keyboard_handler c s = Some s'"
  shows "length (line s) < 256 \<or> c AND 0x80 \<noteq> 0 \<or> c \<in> modifier_keys \<or> c = 0x0E"
proof (rule ccontr)
  assume *: "\<not> ?thesis"
  have "length (line s) \<le> 256" using tty_okE(6)[OF assms(1)] by (simp add: line_def)
  then have "keyboard_handler c s = None" using * assms(1) by (intro keyboard_overflows_input_buffer) auto
  then show False using assms(2) by simp
qed

text \<open>The keys that are handled: those that add no character, and the others while the line has room.\<close>

definition key_handled :: "u8 \<Rightarrow> kernel \<Rightarrow> bool" where
  "key_handled c s \<longleftrightarrow> length (line s) < 256 \<or> c AND 0x80 \<noteq> 0 \<or> c \<in> modifier_keys \<or> c = 0x0E"

lemma keyboard_irq_handled:
  assumes "tty_ok s xs"
  shows "keyboard_irq c s \<noteq> None \<longleftrightarrow> key_handled c s"
proof
  assume "keyboard_irq c s \<noteq> None"
  then obtain s' where "keyboard_handler c s = Some s'" by (auto simp: keyboard_irq_def split: bind_splits)
  from full_line_key[OF assms this] show "key_handled c s" by (simp add: key_handled_def)
next
  assume k: "key_handled c s"
  have "\<exists>s'. keyboard_handler c s = Some s'"
  proof (cases "c AND 0x80 \<noteq> 0 \<or> c \<in> modifier_keys")
    case True
    then show ?thesis using keyboard_handler_modifier[of c s] by blast
  next
    case False
    then have room: "length (line s) < 256 \<or> c = 0x0E" using k by (auto simp: key_handled_def)
    show ?thesis
    proof (cases "c = 0x1C")
      case True
      then have "length (line s) < 256" using room by auto
      from enter_key[OF assms this] True show ?thesis by metis
    next
      case False
      then show ?thesis using keyboard_handler_edit[OF assms room] by blast
    qed
  qed
  then show "keyboard_irq c s \<noteq> None" by (auto simp: keyboard_irq_def)
qed

lemma read_terminal_input_returns:
  assumes "tty_ok s xs" and "unat count \<le> length buf"
  shows "read_terminal_input buf count s \<noteq> None"
proof -
  note o = tty_okE[OF assms(1)] and a = active_struct[OF tty_okE(3,4,2)[OF assms(1)]]
  obtain n where n: "nodes s (current_process_g s) = Some n" using plist_nodes[OF o(8,9)] by auto
  have cur: "current_process_g s \<noteq> 0" using o(8,9) by (auto simp: plist_def)
  obtain m where m: "memset (input_buf (active s)) 0 256 = Some m"
    using memset_eq[of 256 "input_buf (active s)" 0] o(5) by simp
  let ?n = "if input_len (active s) < count then input_len (active s) else count"
  have "unat ?n \<le> length buf" "unat ?n \<le> length (input_buf (active s))"
    using assms(2) o(5,6) by (auto simp: word_less_nat_alt)
  then obtain b where "memcpy buf (input_buf (active s)) (unat ?n) = Some b" using memcpy_eq by blast
  then show ?thesis
    using a(1,4,5) proc_set_map[OF n] m cur
    by (auto simp: read_terminal_input_def get_current_process_def INPUT_BUFFER_SIZE_def Let_def)
qed

text \<open>A key leaves every process as it is, or is Enter, which wakes up processes that are blocked.\<close>

lemma key_effect:
  assumes "tty_ok s xs" and "keyboard_handler c s = Some s'"
  shows "tty_ok s' xs \<and> (procs s' = procs s \<or>
    (\<forall>x \<in> set xs. procs s' x = map_option (unblock (current_active_terminal_id s)) (procs s x)))"
proof -
  consider "c AND 0x80 \<noteq> 0 \<or> c \<in> modifier_keys" | "length (line s) < 256" "c = 0x1C"
    | "length (line s) < 256 \<or> c = 0x0E" "c \<noteq> 0x1C"
    using full_line_key[OF assms] by auto
  then show ?thesis
  proof cases
    case 1
    then show ?thesis using assms keyboard_handler_modifier[OF 1, of s] by auto
  next
    case 2
    obtain u where "keyboard_handler 0x1C s = Some u" "tty_ok u xs" "is_input_ready (active u)"
      "line u = line s @ [0x0A]" "\<And>x. x \<in> set xs \<Longrightarrow> procs u x = map_option (unblock (current_active_terminal_id s)) (procs s x)"
      using enter_key[OF assms(1) 2(1)] by metis
    then show ?thesis using assms(2) 2(2) by simp
  next
    case 3
    then show ?thesis using keyboard_handler_edit[OF assms(1) 3] assms(2) by auto
  qed
qed

lemma machine_key:
  assumes "machine_ok idle xs s" and "keyboard_irq c s = Some s'"
  shows "machine_ok idle xs s'"
proof -
  have s: "sched_ok s xs" "tty_ok s xs" "idle \<in> set xs" "idle_ready idle s"
    using assms(1) by (auto simp: machine_ok_def)
  obtain u where u: "keyboard_handler c s = Some u" and s': "s' = u\<lparr>pic_chips := irq_exit pics 1 (pic_chips u)\<rparr>"
    using assms(2) by (auto simp: keyboard_irq_def split: bind_splits)
  have f: "same_frame s u" by (rule keyboard_handler_frame[OF u])
  have tty: "tty_ok u xs" and pr: "procs u = procs s \<or>
      (\<forall>x \<in> set xs. procs u x = map_option (unblock (current_active_terminal_id s)) (procs s x))"
    using key_effect[OF s(2) u] by blast+
  have "sched_ok u xs"
    by (rule sched_ok_frame[OF s(1) tty_okE(8,9)[OF tty]])
      (use f pr in \<open>auto simp: same_frame_def unblock_def\<close>)
  moreover have "idle_ready idle u"
    using pr s(3,4) f by (auto simp: idle_ready_def same_frame_def unblock_def)
  ultimately have "machine_ok idle xs u" using tty s(3) by (simp add: machine_ok_def)
  then show ?thesis by (simp add: s')
qed

section \<open>Reading\<close>

lemma machine_read:
  assumes "machine_ok idle xs s" and "current_process_g s \<noteq> idle" and "read_terminal_input buf count s = Some (r, s')"
  shows "machine_ok idle xs s'"
proof -
  have s: "sched_ok s xs" "tty_ok s xs" "idle \<in> set xs" "idle_ready idle s"
    using assms(1) by (auto simp: machine_ok_def)
  note o = tty_okE[OF s(2)] and a = active_struct[OF tty_okE(3,4,2)[OF s(2)]]
  obtain n where n: "nodes s (current_process_g s) = Some n"
    using plist_nodes[OF o(8,9)] by auto
  show ?thesis
  proof (cases "is_input_ready (active s)")
    case False
    have "s' = map_procs {current_process_g s} (\<lambda>p. p\<lparr>p_state := PROCESS_BLOCKED\<rparr>) s"
      using assms(3) False a(1,4) proc_set_map[OF n]
      by (auto simp: read_terminal_input_def get_current_process_def split: bind_splits if_splits)
    moreover have "sched_ok (map_procs {current_process_g s} (\<lambda>p. p\<lparr>p_state := PROCESS_BLOCKED\<rparr>) s) xs"
      by (rule sched_ok_frame[OF s(1)]) (use o in \<open>auto simp: procs_map_procs split: if_splits\<close>)
    ultimately show ?thesis using s assms(2) by (auto simp: machine_ok_def idle_ready_def procs_map_procs)
  next
    case True
    obtain ib where ib: "memset (input_buf (active s)) 0 256 = Some ib" "length ib = 256"
      using memset_eq[of 256 "input_buf (active s)" 0] o(5) by simp
    have "s' = s\<lparr>terminals := (terminals s)[active_index s :=
        (active s)\<lparr>is_input_ready := False, input_buf := ib, input_len := 0\<rparr>]\<rparr>"
      using assms(3) True a(1,4,5) ib(1)
      by (auto simp: read_terminal_input_def INPUT_BUFFER_SIZE_def Let_def split: bind_splits)
    then show ?thesis
      using s o ib(2)
      by (simp add: machine_ok_def sched_ok_def tty_ok_def idle_ready_def plist_def procs_def active_def active_index_def)
  qed
qed

section \<open>Properties\<close>

lemma machine_step: "kstep idle s s' \<Longrightarrow> machine_ok idle xs s \<Longrightarrow> machine_ok idle xs s'"
proof (erule kstepE)
  fix regs c assume "machine_ok idle xs s" "timer_irq regs s = Some (c, s')"
  then show "machine_ok idle xs s'" using machine_tick[of idle xs s regs] by fastforce
next
  fix regs c assume "machine_ok idle xs s" "switch_process regs s = Some (c, s')"
  then show "machine_ok idle xs s'" using machine_switch[of idle xs s regs] by fastforce
qed (use machine_key machine_read in blast)+

text \<open>C14. An idle process keeps the system going: start in a state in which the process list, the page directories,
  the terminals and the screen are well formed and the idle process is ready or running. In every state that timer
  interrupts, key presses, terminal reads by the other processes and switches lead to, in any order, as long as each of
  them returns, all this still holds. There the next timer interrupt is handled (the search of the scheduler ends), and so is a
  switch, and a terminal read into a buffer as large as it says; a key press is handled if and only if it adds no character (a
  key release, a modifier, backspace) or the line has less than 256 characters: the 257th character overflows the line's buffer.\<close>

theorem idle_process_keeps_running:
  assumes "(kstep idle)\<^sup>*\<^sup>* s s'" and "machine_ok idle xs s"
  shows "machine_ok idle xs s' \<and> (\<exists>c s''. timer_irq regs s' = Some (c, s'')) \<and>
    (\<exists>c s''. switch_process regs s' = Some (c, s'')) \<and>
    (unat count \<le> length buf \<longrightarrow> read_terminal_input buf count s' \<noteq> None) \<and>
    (keyboard_irq scan_code s' \<noteq> None \<longleftrightarrow> key_handled scan_code s')"
proof -
  have m: "machine_ok idle xs s'" using assms by (induction rule: rtranclp_induct) (blast intro: machine_step)+
  then have "tty_ok s' xs" by (simp add: machine_ok_def)
  moreover obtain c s'' where "timer_irq regs s' = Some (c, s'')" by (rule machine_tick[OF m])
  moreover obtain c s'' where "switch_process regs s' = Some (c, s'')" by (rule machine_switch[OF m])
  ultimately show ?thesis using m keyboard_irq_handled read_terminal_input_returns by blast
qed

lemma tty_example_machine: "machine_ok 0x3000 [0x1000, 0x2000, 0x3000] tty_example"
proof -
  have "sched_ok tty_example [0x1000, 0x2000, 0x3000]"
    using example_sched by (simp add: sched_ok_def tty_example_def plist_def procs_def)
  moreover have "idle_ready 0x3000 tty_example"
    by (simp add: idle_ready_def tty_example_def kernel_example_def procs_def nodes_example_def process_example_def)
  ultimately show ?thesis using tty_example_ok(1) by (simp add: machine_ok_def)
qed

theorem idle_process_keeps_running_witness:
  "\<exists>s'. keyboard_irq 0x2A tty_example = Some s' \<and> machine_ok 0x3000 [0x1000, 0x2000, 0x3000] s' \<and>
    (\<exists>c s''. timer_irq regs_example s' = Some (c, s'')) \<and> (\<exists>c s''. switch_process regs_example s' = Some (c, s'')) \<and>
    read_terminal_input [0, 0] 2 s' \<noteq> None \<and> keyboard_irq 0x36 s' \<noteq> None"
proof -
  obtain s' where s': "keyboard_irq 0x2A tty_example = Some s'"
    by (auto simp: keyboard_irq_def keyboard_handler_def)
  then have "(kstep 0x3000)\<^sup>*\<^sup>* tty_example s'" by (blast intro: kstep.key)
  moreover have "key_handled 0x36 s'" by (simp add: key_handled_def modifier_keys_def)
  ultimately show ?thesis
    using idle_process_keeps_running[OF _ tty_example_machine, of s' regs_example 2 "[0, 0]" "0x36"] s' by auto
qed

end
