(* ===== verification/Elf.thy ===== *)
theory Elf
  imports Terminal
begin

text \<open>
  ELF files and the creation of processes: \<open>process/elf/parser.c\<close>, \<open>process/loader/elf_loader.c\<close> and
  \<open>create_process_from_elf\<close> and its callers in \<open>process/manager/process_manager.c\<close>.

  The file is a byte list; the header structs are read at their offsets, and a field outside the file is
  \<open>None\<close>. The loader writes through the virtual memory of the heap's state, byte by byte, and so a section
  that is not covered by mapped pages is \<open>None\<close> too.
\<close>

section \<open>Header fields\<close>

definition rd8 :: "nat \<Rightarrow> bytes \<Rightarrow> u8 option" where
  "rd8 off content = arr_get content off"

definition rd16 :: "nat \<Rightarrow> bytes \<Rightarrow> u16 option" where
  "rd16 off content = (if off + 2 \<le> length content then Some (le16_word (drop off content)) else None)"

definition rd32 :: "nat \<Rightarrow> bytes \<Rightarrow> u32 option" where
  "rd32 off content = (if off + 4 \<le> length content then Some (le32_word (drop off content)) else None)"

definition sizeof_elf_hdr :: u32 where "sizeof_elf_hdr = 52"
definition sizeof_elf_Shdr :: u32 where "sizeof_elf_Shdr = 40"

definition e_entry :: "bytes \<Rightarrow> u32 option" where "e_entry content = rd32 24 content"
definition e_phoff :: "bytes \<Rightarrow> u32 option" where "e_phoff content = rd32 28 content"
definition e_shoff :: "bytes \<Rightarrow> u32 option" where "e_shoff content = rd32 32 content"
definition e_shnum :: "bytes \<Rightarrow> u16 option" where "e_shnum content = rd16 48 content"

text \<open>A section header, given by its offset in the file.\<close>

definition sh_type :: "u32 \<Rightarrow> bytes \<Rightarrow> u32 option" where "sh_type h content = rd32 (unat h + 4) content"
definition sh_flags :: "u32 \<Rightarrow> bytes \<Rightarrow> u32 option" where "sh_flags h content = rd32 (unat h + 8) content"
definition sh_virtual_address :: "u32 \<Rightarrow> bytes \<Rightarrow> u32 option" where
  "sh_virtual_address h content = rd32 (unat h + 12) content"
definition sh_file_offset :: "u32 \<Rightarrow> bytes \<Rightarrow> u32 option" where
  "sh_file_offset h content = rd32 (unat h + 16) content"
definition sh_size :: "u32 \<Rightarrow> bytes \<Rightarrow> u32 option" where "sh_size h content = rd32 (unat h + 20) content"

section \<open>Parser\<close>

definition elf_is_valid_and_loadable :: "bytes \<Rightarrow> u32 \<Rightarrow> bool option" where
  "elf_is_valid_and_loadable content content_len =
     (if content_len < sizeof_elf_hdr then Some False
      else do {
        entry \<leftarrow> e_entry content;
        if entry = 0 then Some False
        else do {
          i0 \<leftarrow> rd8 0 content;
          i1 \<leftarrow> rd8 1 content;
          i2 \<leftarrow> rd8 2 content;
          i3 \<leftarrow> rd8 3 content;
          Some (\<not> (i0 \<noteq> 0x7F \<or> i1 \<noteq> 0x45 \<or> i2 \<noteq> 0x4C \<or> i3 \<noteq> 0x46))
        }
      })"

text \<open>A pointer into the file is its offset, NULL is \<open>None\<close> inside the outer option.\<close>

definition elf_get_program_header :: "bytes \<Rightarrow> u32 \<Rightarrow> u32 option option" where
  "elf_get_program_header content content_len = do {
     off \<leftarrow> e_phoff content;
     Some (if content_len \<le> off then None else Some off)
   }"

definition elf_get_indexed_section_header :: "bytes \<Rightarrow> u32 \<Rightarrow> u8 \<Rightarrow> u32 option option" where
  "elf_get_indexed_section_header content content_len index = do {
     off \<leftarrow> e_shoff content;
     let h = off + ucast index * sizeof_elf_Shdr;
     Some (if content_len \<le> h then None else Some h)
   }"

text \<open>The loop over the section headers; the index is passed on as one byte.\<close>

fun size_loop :: "bytes \<Rightarrow> u32 \<Rightarrow> nat \<Rightarrow> nat \<Rightarrow> u32 \<Rightarrow> u32 option" where
  "size_loop content content_len i 0 sz = Some sz"
| "size_loop content content_len i (Suc n) sz = do {
     h \<leftarrow> elf_get_indexed_section_header content content_len (of_nat i);
     (case h of
        None \<Rightarrow> Some sz
      | Some h \<Rightarrow> do {
          va \<leftarrow> sh_virtual_address h content;
          sz \<leftarrow> (if va \<noteq> 0 then do { k \<leftarrow> sh_size h content; Some (sz + k) } else Some sz);
          size_loop content content_len (Suc i) n sz
        })
   }"

definition elf_get_size_in_mem :: "bytes \<Rightarrow> u32 \<Rightarrow> u32 option" where
  "elf_get_size_in_mem content content_len = do {
     shnum \<leftarrow> e_shnum content;
     size_loop content content_len 0 (unat shnum) 0
   }"

section \<open>Loader\<close>

definition byte_put :: "u32 \<Rightarrow> u8 \<Rightarrow> u32 \<Rightarrow> u32" where
  "byte_put va b w =
     (let k = 8 * (unat va mod 4) in (w AND NOT (push_bit k 0xFF)) OR push_bit k (ucast b))"

fun vcopy :: "u32 \<Rightarrow> bytes \<Rightarrow> vm \<Rightarrow> vm option" where
  "vcopy va [] v = Some v"
| "vcopy va (b # bs) v = do {
     v \<leftarrow> vmodify va (byte_put va b) v;
     vcopy (va + 1) bs v
   }"

definition DEFAULT_STACK_PAGE_AMOUNT :: u32 where "DEFAULT_STACK_PAGE_AMOUNT = 0x100"
definition USER_STACK_TOP :: u32 where "USER_STACK_TOP = 0xC0000000 - 0x1000"

text \<open>
  The copy of the sections. \<open>brk\<close> is \<open>program_break\<close>, which has no value before the first section that is
  copied.
\<close>

fun load_sections :: "bytes \<Rightarrow> u32 \<Rightarrow> nat \<Rightarrow> nat \<Rightarrow> u32 option \<Rightarrow> vm \<Rightarrow> (u32 option \<times> vm) option" where
  "load_sections elf_content elf_len i 0 brk v = Some (brk, v)"
| "load_sections elf_content elf_len i (Suc n) brk v = do {
     h \<leftarrow> elf_get_indexed_section_header elf_content elf_len (of_nat i);
     h \<leftarrow> h;
     sz \<leftarrow> sh_size h elf_content;
     flags \<leftarrow> sh_flags h elf_content;
     if sz = 0 \<or> \<not> bit flags 1 then load_sections elf_content elf_len (Suc i) n brk v
     else do {
       type \<leftarrow> sh_type h elf_content;
       va \<leftarrow> sh_virtual_address h elf_content;
       if type = 1 then do {
         off \<leftarrow> sh_file_offset h elf_content;
         data \<leftarrow> (if unat off + unat sz \<le> length elf_content
                  then Some (take (unat sz) (drop (unat off) elf_content)) else None);
         v \<leftarrow> vcopy va data v;
         load_sections elf_content elf_len (Suc i) n (Some (va + sz)) v
       } else if type = 8 then do {
         v \<leftarrow> vcopy va (replicate (unat sz) 0) v;
         load_sections elf_content elf_len (Suc i) n (Some (va + sz)) v
       } else load_sections elf_content elf_len (Suc i) n brk v
     }
   }"

definition elf_load_process :: "bytes \<Rightarrow> u32 \<Rightarrow> bool \<Rightarrow> heap \<Rightarrow> (u32 \<times> heap) option" where
  "elf_load_process elf_content elf_len kernel_mode h = do {
     entry \<leftarrow> e_entry elf_content;
     process_size \<leftarrow> elf_get_size_in_mem elf_content elf_len;
     (process_page_tables, h) \<leftarrow> kmalloc_pages (process_size div PAGE_SIZE div 1024 + 1) h;
     page_tables_phys_addr \<leftarrow> get_physical_address process_page_tables (vmem h);
     (ok, v) \<leftarrow> allocate_multiple_pages (entry div PAGE_SIZE) (process_size div PAGE_SIZE + 2) kernel_mode
                  page_tables_phys_addr (vmem h);
     let h = h\<lparr>vmem := v\<rparr>;
     if \<not> ok then do { h \<leftarrow> kfree process_page_tables h; Some (0, h) }
     else do {
       (ok, v) \<leftarrow> allocate_multiple_pages (USER_STACK_TOP div PAGE_SIZE - DEFAULT_STACK_PAGE_AMOUNT)
                    DEFAULT_STACK_PAGE_AMOUNT kernel_mode page_tables_phys_addr (vmem h);
       let h = h\<lparr>vmem := v\<rparr>;
       if \<not> ok then do {
         v \<leftarrow> deallocate_pages_loop (entry div PAGE_SIZE) (unat (process_size div PAGE_SIZE + 1)) (vmem h);
         h \<leftarrow> kfree process_page_tables (h\<lparr>vmem := v\<rparr>);
         Some (0, h)
       } else do {
         shnum \<leftarrow> e_shnum elf_content;
         (brk, v) \<leftarrow> load_sections elf_content elf_len 0 (unat shnum) None (vmem h);
         brk \<leftarrow> brk;
         Some (brk, h\<lparr>vmem := v\<rparr>)
       }
     }
   }"

section \<open>Creating a process\<close>

definition PROC_KERNEL_STACK_SIZE :: u32 where "PROC_KERNEL_STACK_SIZE = 2"

text \<open>The size of a process node: the process has 128 descriptors of 16 bytes.\<close>

definition sizeof_process_node :: u32 where "sizeof_process_node = 2396"

fun copy_words :: "u32 \<Rightarrow> u32 \<Rightarrow> nat \<Rightarrow> vm \<Rightarrow> vm option" where
  "copy_words dst src 0 v = Some v"
| "copy_words dst src (Suc n) v = do {
     w \<leftarrow> vload src v;
     v \<leftarrow> vstore dst w v;
     copy_words (dst + 4) (src + 4) n v
   }"

definition start_regs :: "u32 \<Rightarrow> bool \<Rightarrow> process_registers" where
  "start_regs entry kernel_mode = zero_regs\<lparr>r_eip := entry, r_esp := USER_STACK_TOP - 4,
     r_cs := (if kernel_mode then GDT_KERNEL_CODE_INDEX else GDT_USER_CODE_INDEX OR 3),
     r_ss := (if kernel_mode then GDT_KERNEL_DATA_INDEX else GDT_USER_DATA_INDEX OR 3),
     r_eflags := 0x0202\<rparr>"

text \<open>
  \<open>junk\<close> is what the freshly allocated node holds: the fields that the function does not set
  (\<open>terminal_id\<close> when no terminal is attached, \<open>waiting_for\<close>, the descriptors from 3 on) keep it.
\<close>

definition create_process_from_elf ::
    "process \<Rightarrow> bytes \<Rightarrow> u32 \<Rightarrow> bool \<Rightarrow> kernel \<Rightarrow> (bool \<times> kernel) option" where
  "create_process_from_elf junk elf_content elf_len kernel_mode s =
     (if \<not> manage_initialized s then Some (False, s)
      else do {
        valid \<leftarrow> elf_is_valid_and_loadable elf_content elf_len;
        if \<not> valid then Some (False, s)
        else do {
          let prev_pd = get_current_pd (vmem (kheap s));
          s \<leftarrow> load_directory get_kernel_pd s;
          (node, h) \<leftarrow> kmalloc sizeof_process_node (kheap s);
          let s = s\<lparr>kheap := h\<rparr>;
          if node = 0 then Some (False, s)
          else do {
            entry \<leftarrow> e_entry elf_content;
            let new_pid = next_pid s;
            let s = s\<lparr>next_pid := next_pid s + 1\<rparr>;
            (stack, h) \<leftarrow> kmalloc_pages PROC_KERNEL_STACK_SIZE (kheap s);
            (pd, h) \<leftarrow> kmalloc_pages 1 h;
            let s = s\<lparr>kheap := h\<rparr>;
            if pd = 0 then do {
              h \<leftarrow> kfree node (kheap s);
              Some (False, s\<lparr>kheap := h\<rparr>)
            } else do {
              v \<leftarrow> copy_words (pd + 4 * 0x300) (get_kernel_pd + 4 * 0x300) 256 (vmem (kheap s));
              phys_addr \<leftarrow> get_physical_address pd v;
              v \<leftarrow> vmodify (pd + 4 * 1023) (e_set_address (drop_bit 12 phys_addr)) v;
              s \<leftarrow> load_directory pd (s\<lparr>kheap := (kheap s)\<lparr>vmem := v\<rparr>\<rparr>);
              (brk, h) \<leftarrow> elf_load_process elf_content elf_len kernel_mode (kheap s);
              s \<leftarrow> load_directory get_kernel_pd (s\<lparr>kheap := h\<rparr>);
              if brk = 0 then do {
                h \<leftarrow> kfree pd (kheap s);
                h \<leftarrow> kfree node h;
                Some (False, s\<lparr>kheap := h\<rparr>)
              } else do {
                let p = junk\<lparr>cwd := 0x2F # replicate 255 0, pid := new_pid, p_state := PROCESS_READY,
                          p_registers := zero_regs, kernel_stack := stack + PAGE_SIZE * PROC_KERNEL_STACK_SIZE,
                          page_directory := pd, process_break := brk, fd_table := init_proc_fd (fd_table junk)\<rparr>;
                (r, p) \<leftarrow> attach_process_to_terminal (get_active_terminal_id s) p s;
                let p = p\<lparr>p_registers := start_regs entry kernel_mode, is_kernel_mode := kernel_mode\<rparr>;
                let s = s\<lparr>nodes := (nodes s)(node \<mapsto> \<lparr>proc = p, n_next = 0, n_prev = 0\<rparr>)\<rparr>;
                s \<leftarrow> add_to_linked_list node s;
                s \<leftarrow> load_directory prev_pd s;
                s \<leftarrow> (case get_current_process s of
                        None \<Rightarrow> Some s
                      | Some cur \<Rightarrow> proc_set cur (\<lambda>p. p\<lparr>waiting_for := new_pid, p_state := PROCESS_WAITING\<rparr>) s);
                Some (True, s)
              }
            }
          }
        }
      })"

definition create_process :: "process \<Rightarrow> bytes \<Rightarrow> bool \<Rightarrow> kernel \<Rightarrow> (int \<times> kernel) option" where
  "create_process junk path kernel_mode s =
     (if \<not> manage_initialized s then Some (0, s)
      else do {
        (r, data) \<leftarrow> fat_get_file_data path (kfat s);
        if r \<noteq> 0 then Some (r, s)
        else do {
          data \<leftarrow> data;
          (_, h) \<leftarrow> kmalloc 1 (kheap s);
          let elf_len = file_size (file_entry data);
          (elf_content, h) \<leftarrow> kmalloc elf_len h;
          let s = s\<lparr>kheap := h\<rparr>;
          if elf_content = 0 \<and> elf_len \<noteq> 0 then None
          else do {
            (_, content) \<leftarrow> fat_read (file_entry data) 0 elf_len (replicate (unat elf_len) 0) (kfat s);
            valid \<leftarrow> elf_is_valid_and_loadable content elf_len;
            (r, s) \<leftarrow> (if valid then do {
                          (ok, s) \<leftarrow> create_process_from_elf junk content elf_len kernel_mode s;
                          Some (if ok then 0 else - 1, s)
                        } else Some (- 1, s));
            h \<leftarrow> kfree elf_content (kheap s);
            Some (r, s\<lparr>kheap := h\<rparr>)
          }
        }
      })"

definition create_usermode_process :: "process \<Rightarrow> bytes \<Rightarrow> kernel \<Rightarrow> (int \<times> kernel) option" where
  "create_usermode_process junk path s = create_process junk path False s"

definition create_kernelmode_process :: "process \<Rightarrow> bytes \<Rightarrow> kernel \<Rightarrow> (int \<times> kernel) option" where
  "create_kernelmode_process junk path s = create_process junk path True s"


section \<open>The size of a program\<close>

text \<open>What section \<open>i\<close> of the table at offset \<open>off\<close> takes in memory: its size, if it has an address.\<close>

definition sh_word :: "bytes \<Rightarrow> nat \<Rightarrow> nat \<Rightarrow> nat \<Rightarrow> u32" where
  "sh_word content off i k = le32_word (drop (off + 40 * i + k) content)"

definition section_size :: "bytes \<Rightarrow> nat \<Rightarrow> nat \<Rightarrow> u32" where
  "section_size content off i = (if sh_word content off i 12 \<noteq> 0 then sh_word content off i 20 else 0)"

lemma section_header_at:
  assumes "e_shoff content = Some off" and "i < 256" and "unat off + 40 * i < unat len"
  shows "\<exists>h. elf_get_indexed_section_header content len (of_nat i) = Some (Some h) \<and> unat h = unat off + 40 * i"
proof -
  let ?h = "off + ucast (of_nat i :: u8) * 40"
  have u8: "unat (ucast (of_nat i :: u8) :: u32) = i" using assms(2) by (simp add: unsigned_ucast_eq unat_of_nat take_bit_nat_eq_self)
  have lt: "unat off + 40 * i < 2 ^ 32" using assms(3) unat_lt_u32[of len] by linarith
  have m: "unat (ucast (of_nat i :: u8) * (40 :: u32)) = 40 * i"
    using u8 assms(2) by (simp add: unat_word_ariths)
  have h: "unat ?h = unat off + 40 * i" using m lt by (simp add: unat_word_ariths(1))
  then have "\<not> len \<le> ?h" using assms(3) by (simp add: word_le_nat_alt)
  with h assms(1) show ?thesis
    by (intro exI[of _ ?h]) (simp add: elf_get_indexed_section_header_def sizeof_elf_Shdr_def Let_def)
qed

lemma size_loop_sum:
  assumes "length content = unat len" and "e_shoff content = Some off"
  shows "i + n \<le> 256 \<Longrightarrow> unat off + 40 * (i + n) \<le> unat len \<Longrightarrow>
    size_loop content len i n sz = Some (sz + (\<Sum>j \<leftarrow> [i..<i + n]. section_size content (unat off) j))"
proof (induction n arbitrary: i sz)
  case (Suc n)
  obtain h where h: "elf_get_indexed_section_header content len (of_nat i) = Some (Some h)" "unat h = unat off + 40 * i"
    using section_header_at[OF assms(2), of i len] Suc.prems by auto
  have f: "sh_virtual_address h content = Some (sh_word content (unat off) i 12)"
    "sh_size h content = Some (sh_word content (unat off) i 20)"
    using h(2) Suc.prems assms(1) by (simp_all add: sh_virtual_address_def sh_size_def rd32_def sh_word_def)
  have "[i..<i + Suc n] = i # [Suc i..<Suc i + n]" by (simp add: upt_rec)
  then show ?case using Suc.IH[of "Suc i"] Suc.prems h(1) f by (simp add: section_size_def add.assoc)
qed simp

section \<open>Properties\<close>

text \<open>\<open>elf_get_size_in_mem\<close> of a file that holds its whole section table, of at most 256 sections, is the sum of
  the sizes of the sections that have an address, modulo the word size.\<close>

lemma elf_get_size_in_mem_sums:
  assumes "length content = unat len" and "e_shoff content = Some off" and "e_shnum content = Some num"
    and "unat num \<le> 256" and "unat off + 40 * unat num \<le> unat len"
  shows "elf_get_size_in_mem content len = Some (\<Sum>j \<leftarrow> [0..<unat num]. section_size content (unat off) j)"
  using size_loop_sum[OF assms(1,2), of 0 "unat num" 0] assms(3-5) by (simp add: elf_get_size_in_mem_def)

text \<open>A file of two sections: the first one without an address, the second one of 24 bytes.\<close>

definition elf_example :: bytes where
  "elf_example = replicate 32 0 @ le32_bytes 52 @ replicate 12 0 @ le16_bytes 2 @ replicate 2 0 @
     replicate 40 0 @ replicate 12 0 @ le32_bytes 0x8048000 @ replicate 4 0 @ le32_bytes 24 @ replicate 16 0"

end
