(* ===== verification/Path.thy ===== *)
theory Path
  imports Heap
begin

text \<open>
  The path routines of \<open>process/syscalls/handlers/dir/dir.c\<close>: joining a path to the working directory,
  normalising it, and taking it apart.

  Buffers are byte lists as in the C library theory. \<open>simplify_path\<close> allocates its pieces on the kernel
  heap: a piece is its address together with the bytes of its block, an array of pieces its address, its
  capacity and the pieces. A block is as long as its header says, which is the request rounded up to a
  multiple of 4 or more; what it holds at first is a parameter, \<open>junk\<close> by address. \<open>dir_get_parent_dir\<close> and \<open>dir_get_base_name\<close> are \<open>get_parent_dir\<close> and
  \<open>get_base_name\<close> of dir.c (fat.c has two of the same names); \<open>junk\<close> is what their local array holds.
\<close>

section \<open>Joining\<close>

text \<open>A write through a pointer \<open>k\<close> bytes into a buffer.\<close>

definition at_offset :: "(bytes \<Rightarrow> bytes option) \<Rightarrow> nat \<Rightarrow> bytes \<Rightarrow> bytes option" where
  "at_offset f k buf =
     (if k \<le> length buf then do { r \<leftarrow> f (drop k buf); Some (take k buf @ r) } else None)"

text \<open>The slash between the two parts, unless the first ends in one.\<close>

definition put_slash :: "bytes \<Rightarrow> nat \<Rightarrow> (bytes \<times> nat) option" where
  "put_slash full_path cwd_len = do {
     l \<leftarrow> (if cwd_len = 0 then None else arr_get full_path (cwd_len - 1));
     if l \<noteq> 0x2F then do { full_path \<leftarrow> arr_set full_path cwd_len 0x2F; Some (full_path, cwd_len) }
     else Some (full_path, cwd_len - 1)
   }"

text \<open>The end of the routine: a last component \<open>.\<close> is dropped, an empty path is the root.\<close>

definition strip_dot :: "bytes \<Rightarrow> nat \<Rightarrow> bytes option" where
  "strip_dot full_path total_len = do {
     e \<leftarrow> arr_get full_path (total_len - 1);
     full_path \<leftarrow> (if e = 0x2E then do {
        p \<leftarrow> (if total_len < 2 then None else arr_get full_path (total_len - 2));
        if p = 0x2F then do {
          full_path \<leftarrow> arr_set full_path (total_len - 2) 0;
          arr_set full_path (total_len - 1) 0
        } else Some full_path
      } else Some full_path);
     f \<leftarrow> arr_get full_path 0;
     if f = 0 then arr_set full_path 0 0x2F else Some full_path
   }"

definition join_path :: "bytes \<Rightarrow> bytes \<Rightarrow> bytes \<Rightarrow> nat \<Rightarrow> bytes option" where
  "join_path cwd pathname full_path sz = do {
     cwd_len \<leftarrow> strlen cwd;
     path_len \<leftarrow> strlen pathname;
     if sz < cwd_len + path_len + 2 then arr_set full_path 0 0
     else do {
       full_path \<leftarrow> memset full_path 0 (int sz);
       c \<leftarrow> arr_get pathname 0;
       if c = 0x2F then strncpy full_path pathname (path_len + 1)
       else do {
         full_path \<leftarrow> strncpy full_path cwd cwd_len;
         (full_path, cwd_len) \<leftarrow> put_slash full_path cwd_len;
         full_path \<leftarrow> at_offset (\<lambda>d. strncpy d pathname (path_len + 1)) (cwd_len + 1) full_path;
         strip_dot full_path (cwd_len + path_len + 1)
       }
     }
   }"

section \<open>Normalising\<close>

type_synonym piece = "u32 \<times> bytes"

record parray =
  pa_addr :: u32
  pa_capacity :: u32
  pa_items :: "piece list"

definition empty_parray :: parray where
  "empty_parray = \<lparr>pa_addr = 0, pa_capacity = 0, pa_items = []\<rparr>"

fun free_all :: "piece list \<Rightarrow> heap \<Rightarrow> heap option" where
  "free_all [] h = Some h"
| "free_all (c # cs) h = do { h \<leftarrow> kfree (fst c) h; free_all cs h }"

text \<open>One more element, the array grown to twice its capacity when it is full.\<close>

definition pa_push :: "piece \<Rightarrow> parray \<Rightarrow> heap \<Rightarrow> (bool \<times> parray \<times> heap) option" where
  "pa_push c a h =
     (if pa_capacity a \<le> of_nat (length (pa_items a)) then do {
        let new_capacity = (if pa_capacity a = 0 then 4 else pa_capacity a * 2);
        (p, h) \<leftarrow> kmalloc (new_capacity * 4) h;
        if p = 0 then Some (False, a, h)
        else do {
          h \<leftarrow> kfree (pa_addr a) h;
          Some (True, \<lparr>pa_addr = p, pa_capacity = new_capacity, pa_items = pa_items a @ [c]\<rparr>, h)
        }
      } else Some (True, a\<lparr>pa_items := pa_items a @ [c]\<rparr>, h))"

text \<open>The bytes of a fresh block.\<close>

definition block_bytes :: "(nat \<Rightarrow> u8) \<Rightarrow> u32 \<Rightarrow> heap \<Rightarrow> bytes option" where
  "block_bytes junk p h = do {
     n \<leftarrow> BLOCK_SIZE (p - sizeof_heap_entry) h;
     Some (map (\<lambda>i. junk (unat p + i)) [0..<unat n])
   }"

definition add_component ::
    "(nat \<Rightarrow> u8) \<Rightarrow> bytes \<Rightarrow> u32 \<Rightarrow> u32 \<Rightarrow> parray \<Rightarrow> heap \<Rightarrow> (bool \<times> parray \<times> heap) option" where
  "add_component junk path start comp_len a h = do {
     (p, h) \<leftarrow> kmalloc (comp_len + 1) h;
     if p = 0 then do {
       h \<leftarrow> free_all (pa_items a) h;
       h \<leftarrow> kfree (pa_addr a) h;
       Some (False, a, h)
     } else do {
       block \<leftarrow> block_bytes junk p h;
       comp \<leftarrow> strncpy block (drop (unat start) path) (unat comp_len);
       comp \<leftarrow> arr_set comp (unat comp_len) 0;
       (ok, a, h) \<leftarrow> pa_push (p, comp) a h;
       if ok then Some (True, a, h)
       else do {
         h \<leftarrow> kfree p h;
         h \<leftarrow> free_all (pa_items a) h;
         h \<leftarrow> kfree (pa_addr a) h;
         Some (False, a, h)
       }
     }
   }"

text \<open>The first loop: \<open>n\<close> indices are left, from \<open>i\<close> on. The end \<open>i - 1\<close> of a component is unsigned.\<close>

fun split_loop :: "(nat \<Rightarrow> u8) \<Rightarrow> bytes \<Rightarrow> u32 \<Rightarrow> nat \<Rightarrow> nat \<Rightarrow> parray \<Rightarrow> heap \<Rightarrow> (parray option \<times> heap) option" where
  "split_loop junk path start i 0 a h = Some (Some a, h)"
| "split_loop junk path start i (Suc n) a h = do {
     c \<leftarrow> arr_get path i;
     if c = 0x2F \<or> c = 0 then do {
       let last_index = of_nat i - 1;
       (ok, a, h) \<leftarrow> (if start \<le> last_index then add_component junk path start (last_index - start + 1) a h
                       else Some (True, a, h));
       if ok then split_loop junk path (of_nat i + 1) (Suc i) n a h else Some (None, h)
     } else split_loop junk path start (Suc i) n a h
   }"

text \<open>The code at the label \<open>error\<close>, which frees what either array holds.\<close>

definition simplify_error :: "parray \<Rightarrow> parray \<Rightarrow> heap \<Rightarrow> heap option" where
  "simplify_error components stack h = do {
     h \<leftarrow> (if pa_addr components \<noteq> 0
           then do { h \<leftarrow> free_all (pa_items components) h; kfree (pa_addr components) h } else Some h);
     if pa_addr stack \<noteq> 0 then do { h \<leftarrow> free_all (pa_items stack) h; kfree (pa_addr stack) h } else Some h
   }"

definition pa_pop :: "parray \<Rightarrow> heap \<Rightarrow> (parray \<times> heap) option" where
  "pa_pop a h = do {
     h \<leftarrow> kfree (fst (last (pa_items a))) h;
     Some (a\<lparr>pa_items := butlast (pa_items a)\<rparr>, h)
   }"

text \<open>One pass of the second loop: the component \<open>c\<close>. \<open>False\<close> is the jump to the label \<open>error\<close>.\<close>

definition stack_step :: "bool \<Rightarrow> piece \<Rightarrow> parray \<Rightarrow> heap \<Rightarrow> (bool \<times> parray \<times> heap) option" where
  "stack_step is_absolute c stack h = do {
     d \<leftarrow> strcmp (snd c) (c_str ''.'');
     if d = 0 then do { h \<leftarrow> kfree (fst c) h; Some (True, stack, h) }
     else do {
       dd \<leftarrow> strcmp (snd c) (c_str ''..'');
       if dd = 0 \<and> is_absolute then do {
         (stack, h) \<leftarrow> (if pa_items stack \<noteq> [] then pa_pop stack h else Some (stack, h));
         h \<leftarrow> kfree (fst c) h;
         Some (True, stack, h)
       } else do {
         top \<leftarrow> (if dd = 0 \<and> pa_items stack \<noteq> []
                then strcmp (snd (last (pa_items stack))) (c_str ''..'') else Some 0);
         if dd = 0 \<and> pa_items stack \<noteq> [] \<and> top \<noteq> 0 then do {
           (stack, h) \<leftarrow> pa_pop stack h;
           h \<leftarrow> kfree (fst c) h;
           Some (True, stack, h)
         } else do {
           (ok, stack, h) \<leftarrow> pa_push c stack h;
           if ok then Some (True, stack, h) else do { h \<leftarrow> kfree (fst c) h; Some (False, stack, h) }
         }
       }
     }
   }"

fun stack_loop :: "bool \<Rightarrow> piece list \<Rightarrow> parray \<Rightarrow> heap \<Rightarrow> (bool \<times> parray \<times> heap) option" where
  "stack_loop is_absolute [] stack h = Some (True, stack, h)"
| "stack_loop is_absolute (c # cs) stack h = do {
     (ok, stack, h) \<leftarrow> stack_step is_absolute c stack h;
     if ok then stack_loop is_absolute cs stack h else Some (False, stack, h)
   }"

fun total_strlen :: "piece list \<Rightarrow> nat option" where
  "total_strlen [] = Some 0"
| "total_strlen (c # cs) = do { n \<leftarrow> strlen (snd c); m \<leftarrow> total_strlen cs; Some (n + m) }"

definition put_piece :: "piece \<Rightarrow> bytes \<Rightarrow> nat \<Rightarrow> (bytes \<times> nat) option" where
  "put_piece c result pos = do {
     result \<leftarrow> at_offset (\<lambda>d. strcpy d (snd c)) pos result;
     n \<leftarrow> strlen (snd c);
     Some (result, pos + n)
   }"

fun put_pieces :: "piece list \<Rightarrow> bytes \<Rightarrow> nat \<Rightarrow> (bytes \<times> nat) option" where
  "put_pieces [] result pos = Some (result, pos)"
| "put_pieces (c # cs) result pos = do {
     result \<leftarrow> arr_set result pos 0x2F;
     (result, pos) \<leftarrow> put_piece c result (Suc pos);
     put_pieces cs result pos
   }"

definition build_result :: "bool \<Rightarrow> piece list \<Rightarrow> bytes \<Rightarrow> bytes option" where
  "build_result is_absolute stack result = do {
     (result, pos) \<leftarrow> (if is_absolute then do { result \<leftarrow> arr_set result 0 0x2F; Some (result, 1) }
                       else if stack = [] then do { result \<leftarrow> arr_set result 0 0x2E; Some (result, 1) }
                       else Some (result, 0));
     (result, pos) \<leftarrow> (case stack of
        [] \<Rightarrow> Some (result, pos)
      | c # cs \<Rightarrow> do { (result, pos) \<leftarrow> put_piece c result pos; put_pieces cs result pos });
     arr_set result pos 0
   }"

definition simplify_path :: "(nat \<Rightarrow> u8) \<Rightarrow> bytes \<Rightarrow> heap \<Rightarrow> (piece option \<times> heap) option" where
  "simplify_path junk path h = do {
     c0 \<leftarrow> arr_get path 0;
     let is_absolute = (c0 = 0x2F);
     len \<leftarrow> strlen path;
     (comps, h) \<leftarrow> split_loop junk path 0 0 (Suc len) empty_parray h;
     (case comps of
        None \<Rightarrow> Some (None, h)
      | Some components \<Rightarrow> do {
          (ok, stack, h) \<leftarrow> stack_loop is_absolute (pa_items components) empty_parray h;
          if \<not> ok then do { h \<leftarrow> simplify_error components stack h; Some (None, h) }
          else do {
            h \<leftarrow> kfree (pa_addr components) h;
            chars \<leftarrow> total_strlen (pa_items stack);
            let total_len = (if pa_items stack = [] then 1
                             else (if is_absolute then 1 else 0) + chars + (length (pa_items stack) - 1));
            (p, h) \<leftarrow> kmalloc (of_nat total_len + 1) h;
            if p = 0 then do { h \<leftarrow> simplify_error components stack h; Some (None, h) }
            else do {
              block \<leftarrow> block_bytes junk p h;
              result \<leftarrow> build_result is_absolute (pa_items stack) block;
              h \<leftarrow> free_all (pa_items stack) h;
              h \<leftarrow> kfree (pa_addr stack) h;
              Some (Some (p, result), h)
            }
          }
        })
   }"

section \<open>Taking apart\<close>

definition dir_get_parent_dir :: "bytes \<Rightarrow> bytes \<Rightarrow> bytes \<Rightarrow> nat \<Rightarrow> bytes option" where
  "dir_get_parent_dir junk path parent_dir sz = do {
     path_copy \<leftarrow> strncpy junk path 256;
     last_slash \<leftarrow> strrchr path_copy 0x2F;
     let directory = (case last_slash of Some i \<Rightarrow> path_copy[i := 0] | None \<Rightarrow> path_copy);
     n \<leftarrow> strlen directory;
     if n = 0 then strncpy parent_dir (c_str ''/'') sz else strncpy parent_dir directory sz
   }"

text \<open>The copy cut at its last slash, and what follows the slash.\<close>

definition base_name_of :: "bytes \<Rightarrow> bytes \<Rightarrow> bytes option" where
  "base_name_of junk path = do {
     path_copy \<leftarrow> strncpy junk path 256;
     last_slash \<leftarrow> strrchr path_copy 0x2F;
     Some (case last_slash of Some i \<Rightarrow> drop (Suc i) path_copy | None \<Rightarrow> path_copy)
   }"

definition dir_get_base_name :: "bytes \<Rightarrow> bytes \<Rightarrow> bytes \<Rightarrow> nat \<Rightarrow> bytes option" where
  "dir_get_base_name junk path nm sz = do {
     base_name \<leftarrow> base_name_of junk path;
     strncpy nm base_name sz
   }"

definition get_base_name_with_len :: "bytes \<Rightarrow> bytes \<Rightarrow> bytes \<Rightarrow> nat \<Rightarrow> bytes option" where
  "get_base_name_with_len junk path nm name_len = do {
     base_name \<leftarrow> base_name_of junk path;
     n \<leftarrow> strlen base_name;
     if name_len < n then do {
       nm \<leftarrow> strncpy nm base_name name_len;
       arr_set nm name_len 0
     } else strncpy nm base_name name_len
   }"


section \<open>What joining computes\<close>

text \<open>The specification: the two parts with one slash between them, a last component \<open>.\<close> dropped.\<close>

definition base_dir :: "bytes \<Rightarrow> bytes" where
  "base_dir c = (if last c = 0x2F then butlast c else c)"

definition drop_dot :: "bytes \<Rightarrow> bytes" where
  "drop_dot j = (if 2 \<le> length j \<and> drop (length j - 2) j = [0x2F, 0x2E] then take (length j - 2) j else j)"

definition joined :: "bytes \<Rightarrow> bytes \<Rightarrow> bytes" where
  "joined c p = (let r = drop_dot (base_dir c @ 0x2F # p) in if r = [] then [0x2F] else r)"

lemma put_slash_base_dir:
  assumes "c \<noteq> []" and "length c < n"
  shows "put_slash (c @ replicate (n - length c) 0) (length c) =
    Some (base_dir c @ 0x2F # replicate (n - Suc (length (base_dir c))) 0, length (base_dir c))"
proof -
  have get: "arr_get (c @ replicate (n - length c) 0) (length c - 1) = Some (last c)"
    using assms by (cases c) (auto simp: arr_get_def nth_append last_conv_nth)
  show ?thesis
  proof (cases "last c = 0x2F")
    case True
    then obtain b where c: "c = b @ [0x2F]" using assms(1) by (metis append_butlast_last_id)
    then show ?thesis using get by (simp add: put_slash_def base_dir_def)
  next
    case False
    obtain k where k: "n - length c = Suc k" using assms(2) by (metis Suc_diff_Suc)
    then have "n - Suc (length c) = k" by simp
    with False k get assms(1) show ?thesis
      by (simp add: put_slash_def base_dir_def arr_set_Some list_update_append)
  qed
qed

lemma strip_dot_drop_dot:
  assumes "0 \<notin> set j" and "2 \<le> length j"
  shows "strip_dot (j @ z) (length j) =
    Some (let r = drop_dot j; s = (if r = [] then [0x2F] else r) in s @ replicate (length j - length s) 0 @ z)"
proof -
  from assms(2) obtain t b where t: "j = t @ [b]" by (cases j rule: rev_cases) auto
  with assms(2) obtain u a where "t = u @ [a]" by (cases t rule: rev_cases) auto
  with t have j: "j = u @ [a, b]" by simp
  have dd: "drop_dot j = (if a = 0x2F \<and> b = 0x2E then u else j)"
    by (simp add: drop_dot_def j)
  have upd: "(u @ a # b # z)[length u := 0, Suc (length u) := 0] = u @ 0 # 0 # z"
    by (simp add: list_update_append)
  show ?thesis
    unfolding strip_dot_def dd using assms(1)
    by (cases u) (auto simp: j arr_get_Some arr_set_Some upd list_update_append nth_append Let_def numeral_2_eq_2)
qed

lemma length_base_dir: "length (base_dir c) \<le> length c"
  by (simp add: base_dir_def)

lemma set_base_dir: "set (base_dir c) \<subseteq> set c"
  by (auto simp: base_dir_def dest: in_set_butlastD)

lemma length_drop_dot: "length (drop_dot j) \<le> length j"
  by (simp add: drop_dot_def)

lemma at_offset_append: "at_offset f (length u) (u @ v) = map_option ((@) u) (f v)"
  by (cases "f v") (simp_all add: at_offset_def)

lemma memset_256: "length buf = 256 \<Longrightarrow> memset buf v 256 = Some (replicate 256 v)"
  using memset_full[of 256 buf v] by simp

lemma strncpy_zeros:
  assumes "s \<noteq> []" and "0 \<notin> set s" and "length s \<le> num" and "length s \<le> n"
  shows "strncpy (replicate n 0) (s @ 0 # rest) num = Some (s @ replicate (n - length s) 0)"
  using strncpy_append[OF assms(1,2), of num "replicate n 0" rest] assms(3,4) by (simp add: min_def)

lemma join_path_relative:
  assumes c: "0 \<notin> set c" "c \<noteq> []" and p: "0 \<notin> set p" "p \<noteq> []" "hd p \<noteq> 0x2F"
    and buf: "length buf = 256" and fits: "length c + length p + 2 \<le> 256"
  shows "join_path (c @ 0 # cr) (p @ 0 # pr) buf 256 = Some (joined c p @ replicate (256 - length (joined c p)) 0)"
proof -
  let ?b = "base_dir c"
  define j where "j = ?b @ 0x2F # p"
  have lj: "length j = length ?b + length p + 1" "2 \<le> length j" using p(2) by (auto simp: j_def Suc_le_eq)
  have lj256: "length j \<le> 256" using lj(1) fits length_base_dir[of c] by simp
  have j0: "0 \<notin> set j" using c(1) p(1) set_base_dir[of c] by (auto simp: j_def)
  have hd: "arr_get (p @ 0 # pr) 0 = Some (hd p)" using p(2) by (cases p) (auto simp: arr_get_def)
  have one: "strncpy (replicate 256 0) (c @ 0 # cr) (length c) = Some (c @ replicate (256 - length c) 0)"
    using c fits by (intro strncpy_zeros) auto
  have three: "at_offset (\<lambda>d. strncpy d (p @ 0 # pr) (length p + 1)) (length ?b + 1)
      (?b @ 0x2F # replicate (256 - Suc (length ?b)) 0) = Some (j @ replicate (256 - length j) 0)"
    using at_offset_append[of "\<lambda>d. strncpy d (p @ 0 # pr) (length p + 1)" "?b @ [0x2F]"
        "replicate (256 - Suc (length ?b)) 0"]
      strncpy_zeros[OF p(2,1), of "length p + 1" "256 - Suc (length ?b)" pr] fits length_base_dir[of c]
    by (simp add: j_def)
  have ls: "length (joined c p) \<le> length j"
    using length_drop_dot[of j] lj by (auto simp: joined_def Let_def simp flip: j_def)
  have "join_path (c @ 0 # cr) (p @ 0 # pr) buf 256 = strip_dot (j @ replicate (256 - length j) 0) (length j)"
    using put_slash_base_dir[OF c(2), of 256] three fits p(3)
    by (simp add: join_path_def strlen_append c(1) p(1) memset_256[OF buf] hd one lj(1))
  also have "\<dots> = Some (joined c p @ replicate (length j - length (joined c p)) 0 @ replicate (256 - length j) 0)"
    using strip_dot_drop_dot[OF j0 lj(2), of "replicate (256 - length j) 0"]
    by (simp add: joined_def Let_def flip: j_def)
  finally show ?thesis using ls lj256 by (simp flip: replicate_add)
qed


lemma join_path_absolute:
  assumes c: "0 \<notin> set c" and p: "0 \<notin> set p" "p \<noteq> []" "hd p = 0x2F"
    and buf: "length buf = 256" and fits: "length c + length p + 2 \<le> 256"
  shows "join_path (c @ 0 # cr) (p @ 0 # pr) buf 256 = Some (p @ replicate (256 - length p) 0)"
proof -
  have hd: "arr_get (p @ 0 # pr) 0 = Some 0x2F" using p(2,3) by (cases p) (auto simp: arr_get_def)
  show ?thesis
    using strncpy_zeros[OF p(2,1), of "length p + 1" 256 pr] fits
    by (simp add: join_path_def strlen_append c p(1) memset_256[OF buf] hd)
qed

section \<open>The first component of an absolute path\<close>

lemma strncpy_prefix:
  "strncpy d s n = Some r \<Longrightarrow>
    \<exists>k \<le> n. k \<le> length s \<and> k \<le> length d \<and> r = take k s @ drop k d \<and> (k = n \<or> 0 < k \<and> k < length s \<and> s ! k = 0)"
proof (induction d s n arbitrary: r rule: strncpy.induct)
  case (2 x d c c' s n)
  show ?case
  proof (cases "c' \<noteq> 0 \<and> n \<noteq> 0")
    case True
    then obtain r' where r': "strncpy d (c' # s) n = Some r'" "r = c # r'" using "2.prems" by auto
    with "2.IH"[OF True r'(1)] obtain k where "k \<le> n" "k \<le> length (c' # s)" "k \<le> length d" "r' = take k (c' # s) @ drop k d"
      "k = n \<or> 0 < k \<and> k < length (c' # s) \<and> (c' # s) ! k = 0"
      by blast
    then show ?thesis using r'(2) by (intro exI[of _ "Suc k"]) auto
  next
    case False
    then show ?thesis using "2.prems" by (intro exI[of _ 1]) auto
  qed
qed simp_all

definition no_dotdot :: "bytes \<Rightarrow> bool" where
  "no_dotdot path \<longleftrightarrow> (\<forall>i. Suc i < length path \<longrightarrow> \<not> (path ! i = 0x2E \<and> path ! Suc i = 0x2E))"

definition is_dotdot :: "piece \<Rightarrow> bool" where
  "is_dotdot c \<longleftrightarrow> strcmp (snd c) (c_str ''..'') = Some 0"

lemma uint_dot: "uint (a :: u8) = 46 \<longleftrightarrow> a = 0x2E"
  by (simp add: word_uint_eq_iff)

lemma is_dotdot_start: "is_dotdot (p, x) \<Longrightarrow> \<exists>y. x = 0x2E # 0x2E # y"
  by (cases x; cases "tl x") (auto simp: is_dotdot_def c_str_def bytes_of_def uint_dot split: if_splits)

text \<open>A component is copied from the part of the path without a terminator, so that \<open>..\<close> stands in the path.\<close>

lemma copied_component_not_dotdot:
  assumes "no_dotdot path" and r: "strncpy block (drop st path) n = Some r" and cp: "arr_set r n 0 = Some cp"
    and nz: "\<And>j. st \<le> j \<Longrightarrow> j < st + n \<Longrightarrow> path ! j \<noteq> 0"
  shows "\<not> is_dotdot (p, cp)"
proof
  assume "is_dotdot (p, cp)"
  then obtain y where y: "cp = 0x2E # 0x2E # y" using is_dotdot_start by blast
  obtain k where k: "k \<le> n" "k \<le> length (drop st path)" "k \<le> length block" "r = take k (drop st path) @ drop k block"
    "k = n \<or> 0 < k \<and> k < length (drop st path) \<and> drop st path ! k = 0"
    using strncpy_prefix[OF r] by blast
  have kn: "k = n"
  proof (rule ccontr)
    assume "k \<noteq> n"
    then have "drop st path ! k = 0" "k < n" "k < length (drop st path)" using k(1,5) by auto
    then show False using nz[of "st + k"] by simp
  qed
  have eq: "cp = r[n := 0]" using cp by (simp add: arr_set_eq_Some_iff)
  have in_r: "n < length r" using cp by (simp add: arr_set_eq_Some_iff)
  have byte: "i < n \<and> path ! (st + i) = 0x2E" if "cp ! i = 0x2E" "i \<le> n" for i
  proof -
    have "i \<noteq> n" using that(1) in_r by (auto simp: eq)
    then have "i < n" using that(2) by simp
    then show ?thesis using that(1) k kn by (simp add: eq nth_append)
  qed
  have "0 < n \<and> path ! st = 0x2E" using byte[of 0] y by simp
  moreover from this have "1 < n \<and> path ! Suc st = 0x2E" using byte[of 1] y by simp
  moreover have "n \<le> length path - st" using k(2) kn by simp
  ultimately show False using assms(1) by (auto simp: no_dotdot_def)
qed

lemma pa_push_items: "pa_push c a h = Some (True, a', h') \<Longrightarrow> pa_items a' = pa_items a @ [c]"
  by (auto simp: pa_push_def Let_def split: if_splits bind_splits)

lemma add_component_items:
  assumes "add_component junk path st n a h = Some (True, a', h')" and "no_dotdot path"
    and "\<And>j. unat st \<le> j \<Longrightarrow> j < unat st + unat n \<Longrightarrow> path ! j \<noteq> 0"
  shows "\<exists>p cp. pa_items a' = pa_items a @ [(p, cp)] \<and> \<not> is_dotdot (p, cp) \<and> (n = 0 \<longrightarrow> (\<exists>cp'. cp = 0 # cp'))"
proof -
  obtain p b r cp h1 where r: "strncpy b (drop (unat st) path) (unat n) = Some r"
    and cp: "arr_set r (unat n) 0 = Some cp" and push: "pa_push (p, cp) a h1 = Some (True, a', h')"
    using assms(1) by (auto simp: add_component_def split: bind_splits if_splits)
  have "\<exists>cp'. cp = 0 # cp'" if "n = 0" using cp that by (cases r) (auto simp: arr_set_eq_Some_iff)
  then show ?thesis
    using pa_push_items[OF push] copied_component_not_dotdot[OF assms(2) r cp assms(3), of p] by blast
qed

text \<open>The loop after the first character: it is between two slashes, or has just passed one.\<close>

lemma split_loop_items:
  "split_loop junk path (of_nat st) i n a h = Some (Some a', h') \<Longrightarrow> no_dotdot path \<Longrightarrow> st \<le> i \<Longrightarrow> 0 < i \<Longrightarrow> i + n < 2 ^ 32 \<Longrightarrow>
    \<forall>j. st \<le> j \<longrightarrow> j < i \<longrightarrow> path ! j \<noteq> 0 \<Longrightarrow>
    \<exists>cs. pa_items a' = pa_items a @ cs \<and> (\<forall>c \<in> set cs. \<not> is_dotdot c)"
proof (induction n arbitrary: st i a h)
  case (Suc n)
  have u: "unat (of_nat st :: u32) = st" "unat (of_nat i :: u32) = i" "unat (of_nat i - 1 :: u32) = i - 1"
    using Suc.prems(3-5) unat_of_nat_u32[of "i - 1"] by (simp_all add: unat_of_nat_u32 of_nat_diff)
  have nx: "of_nat i + 1 = (of_nat (Suc i) :: u32)" by simp
  consider (cut) "path ! i = 0x2F \<or> path ! i = 0" "st < i" | (skip) "path ! i = 0x2F \<or> path ! i = 0" "st = i"
    | (char) "path ! i \<noteq> 0x2F" "path ! i \<noteq> 0" using Suc.prems(3) by linarith
  then show ?case
  proof cases
    case cut
    then have le: "(of_nat st :: u32) \<le> of_nat i - 1" using u by (simp add: word_le_nat_alt)
    have len: "unat (of_nat i - 1 - of_nat st + 1 :: u32) = i - st"
      using cut(2) Suc.prems(5) unat_of_nat_u32[of "i - st"] by (simp add: of_nat_diff)
    from Suc.prems(1) cut le obtain a1 h1 where
        add: "add_component junk path (of_nat st) (of_nat i - 1 - of_nat st + 1) a h = Some (True, a1, h1)"
      and loop: "split_loop junk path (of_nat (Suc i)) (Suc i) n a1 h1 = Some (Some a', h')"
      unfolding nx by (auto simp: arr_get_def Let_def nx simp del: of_nat_Suc split: bind_splits if_splits)
    have nz: "path ! j \<noteq> 0" if "unat (of_nat st :: u32) \<le> j"
      "j < unat (of_nat st :: u32) + unat (of_nat i - 1 - of_nat st + 1 :: u32)" for j
      using Suc.prems(6) that cut(2) unfolding len u by auto
    show ?thesis
      using Suc.IH[OF loop Suc.prems(2)] add_component_items[OF add Suc.prems(2) nz] Suc.prems(5) by force
  next
    case skip
    then have le: "\<not> (of_nat st :: u32) \<le> of_nat i - 1" using u Suc.prems(4) by (simp add: word_le_nat_alt)
    with Suc.prems(1) skip have loop: "split_loop junk path (of_nat (Suc i)) (Suc i) n a h = Some (Some a', h')"
      by (auto simp: arr_get_def Let_def nx simp del: of_nat_Suc split: bind_splits if_splits)
    show ?thesis using Suc.IH[OF loop Suc.prems(2)] Suc.prems(5) by force
  next
    case char
    with Suc.prems(1) have loop: "split_loop junk path (of_nat st) (Suc i) n a h = Some (Some a', h')"
      by (auto simp: arr_get_def split: bind_splits if_splits)
    have "\<forall>j. st \<le> j \<longrightarrow> j < Suc i \<longrightarrow> path ! j \<noteq> 0" using Suc.prems(6) char(2) by (auto simp: less_Suc_eq)
    then show ?thesis using Suc.IH[OF loop Suc.prems(2)] Suc.prems(3,5) by force
  qed
qed simp

lemma stack_step_items:
  assumes "stack_step True c st h = Some (ok, st', h')" and "\<not> is_dotdot c"
  shows "\<exists>cs. pa_items st' = pa_items st @ cs"
proof -
  have push: "\<exists>cs. pa_items st' = pa_items st @ cs" if "pa_push c st h1 = Some (ok', st', h2)" for ok' h1 h2
    using that by (auto simp: pa_push_def Let_def split: bind_splits if_splits)
  show ?thesis
    using assms push by (auto simp: stack_step_def is_dotdot_def split: bind_splits if_splits)
qed

lemma stack_loop_items:
  "stack_loop True cs st h = Some (ok, st', h') \<Longrightarrow> \<forall>c \<in> set cs. \<not> is_dotdot c \<Longrightarrow>
    \<exists>ds. pa_items st' = pa_items st @ ds"
proof (induction cs arbitrary: st h)
  case (Cons c cs)
  then obtain ok1 st1 h1 where step: "stack_step True c st h = Some (ok1, st1, h1)"
    and rest: "if ok1 then stack_loop True cs st1 h1 = Some (ok, st', h') else st' = st1"
    by (auto split: bind_splits if_splits)
  obtain ds where ds: "pa_items st1 = pa_items st @ ds" using stack_step_items[OF step] Cons.prems(2) by auto
  show ?case
  proof (cases ok1)
    case True
    then show ?thesis using Cons.IH[of st1 h1] rest ds Cons.prems(2) by auto
  qed (use rest ds in auto)
qed simp

lemma stack_step_empty_component:
  "stack_step True (p, 0 # x) st h = Some (True, st', h') \<Longrightarrow> pa_items st' = pa_items st @ [(p, 0 # x)]"
  by (auto simp: stack_step_def c_str_def bytes_of_def pa_push_items split: bind_splits if_splits)

lemma split_absolute:
  assumes "split_loop junk (0x2F # path) 0 0 (Suc n) empty_parray h = Some (Some a, h')" and "no_dotdot (0x2F # path)"
    and "Suc n < 2 ^ 32"
  shows "\<exists>p x cs. pa_items a = (p, 0 # x) # cs \<and> (\<forall>c \<in> set cs. \<not> is_dotdot c)"
proof -
  obtain a1 h1 where add: "add_component junk (0x2F # path) 0 0 empty_parray h = Some (True, a1, h1)"
    and loop: "split_loop junk (0x2F # path) (of_nat 1) 1 n a1 h1 = Some (Some a, h')"
    using assms(1) by (auto simp: arr_get_def Let_def split: bind_splits if_splits)
  have "\<exists>cs. pa_items a = pa_items a1 @ cs \<and> (\<forall>c \<in> set cs. \<not> is_dotdot c)"
    using split_loop_items[OF loop assms(2)] assms(3) by simp
  with add_component_items[OF add assms(2)] show ?thesis by (force simp: empty_parray_def)
qed

lemma stack_absolute:
  assumes "stack_loop True ((p, 0 # x) # cs) empty_parray h = Some (True, st, h')" and "\<forall>c \<in> set cs. \<not> is_dotdot c"
  shows "\<exists>ds. pa_items st = (p, 0 # x) # ds"
proof -
  obtain st1 h1 where "stack_step True (p, 0 # x) empty_parray h = Some (True, st1, h1)"
    and "stack_loop True cs st1 h1 = Some (True, st, h')"
    using assms(1) by (auto split: bind_splits if_splits)
  then show ?thesis
    using stack_step_empty_component stack_loop_items assms(2) by (fastforce simp: empty_parray_def)
qed

text \<open>Writing further components leaves what is before them.\<close>

lemma at_offset_before: "at_offset f k buf = Some r \<Longrightarrow> i < k \<Longrightarrow> r ! i = buf ! i"
  by (auto simp: at_offset_def nth_append split: bind_splits if_splits)

lemma put_pieces_before:
  "put_pieces cs result pos = Some (result', pos') \<Longrightarrow> pos \<le> pos' \<and> (\<forall>i < pos. result' ! i = result ! i)"
proof (induction cs arbitrary: result pos)
  case (Cons c cs)
  then obtain r1 r2 n where s: "arr_set result pos 0x2F = Some r1" "at_offset (\<lambda>d. strcpy d (snd c)) (Suc pos) r1 = Some r2"
    "put_pieces cs r2 (Suc pos + n) = Some (result', pos')"
    by (auto simp: put_piece_def split: bind_splits)
  have "r2 ! i = result ! i" if "i < pos" for i
    using at_offset_before[OF s(2), of i] s(1) that by (auto simp: arr_set_eq_Some_iff)
  with Cons.IH[OF s(3)] show ?case by auto
qed simp

lemma build_result_doubles_slash:
  assumes "build_result True ((p, 0 # x) # cs) block = Some result"
  shows "result ! 0 = 0x2F \<and> (result ! 1 = 0x2F \<or> result ! 1 = 0 \<and> cs = [])"
proof -
  obtain r0 r1 r2 pos where s: "arr_set block 0 0x2F = Some r0" "at_offset (\<lambda>d. strcpy d (0 # x)) 1 r0 = Some r1"
    "put_pieces cs r1 1 = Some (r2, pos)" "arr_set r2 pos 0 = Some result"
    using assms by (auto simp: build_result_def put_piece_def split: bind_splits)
  have r1: "r1 ! 0 = 0x2F" using at_offset_before[OF s(2), of 0] s(1) by (auto simp: arr_set_eq_Some_iff)
  show ?thesis
  proof (cases cs)
    case Nil
    then show ?thesis using r1 s(3,4) by (auto simp: arr_set_eq_Some_iff)
  next
    case (Cons c ds)
    then obtain r3 r4 n where t: "arr_set r1 1 0x2F = Some r3" "at_offset (\<lambda>d. strcpy d (snd c)) 2 r3 = Some r4"
      "put_pieces ds r4 (2 + n) = Some (r2, pos)"
      using s(3) by (auto simp: put_piece_def numeral_2_eq_2 split: bind_splits)
    have "r4 ! 0 = 0x2F" "r4 ! 1 = 0x2F"
      using at_offset_before[OF t(2), of 0] at_offset_before[OF t(2), of 1] t(1) r1 by (auto simp: arr_set_eq_Some_iff)
    then have "r2 ! 0 = 0x2F" "r2 ! 1 = 0x2F" "2 \<le> pos" using put_pieces_before[OF t(3)] by auto
    then show ?thesis using s(4) by (auto simp: arr_set_eq_Some_iff)
  qed
qed

lemma strlen_less: "strlen s = Some n \<Longrightarrow> n < length s"
  by (induction s arbitrary: n) (auto split: if_splits)

text \<open>
  Normalising an absolute path doubles its slash: at index 0 the unsigned end of the component wraps around,
  so that the first component is the empty string, and the slash between it and the next component
  follows the leading one. (For \<open>/\<close> itself the result is right.) Copying the empty component,
  \<open>strcpy\<close> goes on behind its terminator, through what the block held before.
\<close>

lemma simplify_path_doubles_slash:
  assumes s: "simplify_path junk path h = Some (Some (p, result), h')" and "no_dotdot path" and "path ! 0 = 0x2F"
    and small: "length path < 2 ^ 32"
  shows "result ! 0 = 0x2F \<and> (result ! 1 = 0x2F \<or> result ! 1 = 0)"
proof -
  obtain path' where path: "path = 0x2F # path'"
    using s assms(3) by (cases path) (auto simp: simplify_path_def arr_get_def)
  obtain len a h1 st h2 block where len: "strlen path = Some len"
    and split: "split_loop junk path 0 0 (Suc len) empty_parray h = Some (Some a, h1)"
    and stack: "stack_loop True (pa_items a) empty_parray h1 = Some (True, st, h2)"
    and res: "build_result True (pa_items st) block = Some result"
    using s path
    by (auto simp: simplify_path_def arr_get_def Let_def simp del: split_loop.simps strlen.simps replicate.simps
        split: bind_splits if_splits option.splits)
  have "len < length path" by (rule strlen_less[OF len])
  then have "Suc len < 2 ^ 32" using small by simp
  then obtain q x cs where cs: "pa_items a = (q, 0 # x) # cs" "\<forall>c \<in> set cs. \<not> is_dotdot c"
    using split_absolute split assms(2) unfolding path by blast
  then obtain ds where "pa_items st = (q, 0 # x) # ds" using stack_absolute stack by metis
  then show ?thesis using build_result_doubles_slash res by metis
qed

section \<open>Properties\<close>

text \<open>C35. \<open>join_path\<close> of a working directory and a path that fit the buffer of 256 bytes gives the path
  itself when it is absolute, and otherwise the two with exactly one slash between them, without a
  last component \<open>.\<close>, and \<open>/\<close> when nothing is left; the rest of the buffer is zero. When they do not
  fit, the buffer holds the empty string.\<close>

theorem join_path_joins:
  assumes "is_cstr c cwd" and "is_cstr p pathname" and "c \<noteq> []" and "p \<noteq> []" and "length buf = 256"
  shows "join_path cwd pathname buf 256 =
    Some (if 254 < length c + length p then buf[0 := 0]
          else let r = (if hd p = 0x2F then p else joined c p) in r @ replicate (256 - length r) 0)"
proof -
  obtain cr where c: "0 \<notin> set c" "cwd = c @ 0 # cr" using assms(1) by (rule is_cstrE)
  obtain pr where p: "0 \<notin> set p" "pathname = p @ 0 # pr" using assms(2) by (rule is_cstrE)
  consider "254 < length c + length p" | "length c + length p + 2 \<le> 256" "hd p = 0x2F"
    | "length c + length p + 2 \<le> 256" "hd p \<noteq> 0x2F" by linarith
  then show ?thesis
  proof cases
    case 1
    then show ?thesis using assms(5) by (simp add: join_path_def strlen_append c p arr_set_Some)
  next
    case 2
    then show ?thesis using join_path_absolute[OF c(1) p(1) assms(4), of buf cr pr] assms(5) c(2) p(2) by simp
  next
    case 3
    then show ?thesis
      using join_path_relative[OF c(1) assms(3) p(1) assms(4), of buf cr pr] assms(5) c(2) p(2) by (simp add: Let_def)
  qed
qed

theorem join_path_joins_witness:
  "is_cstr (bytes_of ''/usr/'') (c_str ''/usr/'') \<and> is_cstr (bytes_of ''bin/.'') (c_str ''bin/.'') \<and>
    join_path (c_str ''/usr/'') (c_str ''bin/.'') (replicate 256 7) 256 = Some (bytes_of ''/usr/bin'' @ replicate 248 0)"
proof -
  have "is_cstr (bytes_of ''/usr/'') (c_str ''/usr/'')" "is_cstr (bytes_of ''bin/.'') (c_str ''bin/.'')"
    by (simp_all add: is_cstr_def c_str_def bytes_of_def)
  then show ?thesis
    using join_path_joins[of "bytes_of ''/usr/''" "c_str ''/usr/''" "bytes_of ''bin/.''" "c_str ''bin/.''" "replicate 256 7"]
    by (simp add: bytes_of_def joined_def drop_dot_def base_dir_def Let_def)
qed

text \<open>The path that a call resolves to: the absolute path itself, or the path joined to the directory.\<close>

definition full_name :: "bytes \<Rightarrow> bytes \<Rightarrow> bytes" where
  "full_name c p = (if hd p = 0x2F then p else joined c p)"

lemma full_name_cstr:
  assumes "0 \<notin> set c" and "0 \<notin> set p" and "p \<noteq> []" and "length c + length p \<le> 254"
  shows "full_name c p \<noteq> []" "0 \<notin> set (full_name c p)" "length (full_name c p) \<le> 255"
proof -
  let ?j = "base_dir c @ 0x2F # p"
  have "set (drop_dot ?j) \<subseteq> set ?j" by (auto simp: drop_dot_def dest: in_set_takeD)
  then show "0 \<notin> set (full_name c p)"
    using assms(1,2) set_base_dir[of c] by (auto simp: full_name_def joined_def Let_def)
  show "full_name c p \<noteq> []" using assms(3) by (auto simp: full_name_def joined_def Let_def)
  have "length (drop_dot ?j) \<le> length c + length p + 1"
    using length_drop_dot[of ?j] length_base_dir[of c] by simp
  then show "length (full_name c p) \<le> 255"
    using assms(4) by (auto simp: full_name_def joined_def Let_def)
qed

lemma join_path_full_name:
  assumes "is_cstr c cwd" and "is_cstr p pathname" and "c \<noteq> []" and "p \<noteq> []" and "length buf = 256"
    and "length c + length p \<le> 254"
  shows "join_path cwd pathname buf 256 = Some (full_name c p @ replicate (256 - length (full_name c p)) 0)"
proof -
  obtain cr where c: "0 \<notin> set c" "cwd = c @ 0 # cr" using assms(1) by (rule is_cstrE)
  obtain pr where p: "0 \<notin> set p" "pathname = p @ 0 # pr" using assms(2) by (rule is_cstrE)
  have fits: "length c + length p + 2 \<le> 256" using assms(6) by simp
  show ?thesis
    using join_path_absolute[OF c(1) p(1) assms(4) _ assms(5) fits, of cr pr]
      join_path_relative[OF c(1) assms(3) p(1) assms(4) _ assms(5) fits, of cr pr]
    by (cases "hd p = 0x2F") (simp_all add: full_name_def c(2) p(2))
qed

end
