(* ===== verification/FileCalls.thy ===== *)
theory FileCalls
  imports Terminal Path
begin

text \<open>
  The file system calls, \<open>process/syscalls/handlers/file/file.c\<close>: \<open>file_open\<close> is \<open>_open\<close>, and so on.

  A buffer argument is the list of bytes it points to; a call that fills it returns its new contents.
  The table of a process has 128 descriptors while the checks compare with 256, so that an access past
  the table is possible; like every access out of bounds it is \<open>None\<close>. \<open>fat_create_file\<close> has no return
  statement: \<open>undef\<close> is the value its caller finds.
\<close>

section \<open>Constants\<close>

definition O_RDONLY :: u32 where "O_RDONLY = 0x0"
definition O_CREAT :: u32 where "O_CREAT = 0x40"
definition O_EXCL :: u32 where "O_EXCL = 0x80"
definition O_TRUNC :: u32 where "O_TRUNC = 0x200"
definition O_APPEND :: u32 where "O_APPEND = 0x400"
definition O_DIRECTORY :: u32 where "O_DIRECTORY = 0x10000"

definition EPERM :: int where "EPERM = 1"
definition ESRCH :: int where "ESRCH = 3"
definition EBADF :: int where "EBADF = 9"
definition EAGAIN :: int where "EAGAIN = 11"
definition ENOMEM :: int where "ENOMEM = 12"
definition EBUSY :: int where "EBUSY = 16"
definition EEXIST :: int where "EEXIST = 17"
definition EISDIR :: int where "EISDIR = 21"
definition EINVAL :: int where "EINVAL = 22"
definition EMFILE :: int where "EMFILE = 24"
definition ERANGE :: int where "ERANGE = 34"

definition has_flag :: "u32 \<Rightarrow> u32 \<Rightarrow> bool" where
  "has_flag flags f \<longleftrightarrow> flags AND f \<noteq> 0"

section \<open>The descriptors of a process\<close>

definition fd_get :: "u32 \<Rightarrow> nat \<Rightarrow> kernel \<Rightarrow> file_descriptor option" where
  "fd_get cur i s = do { n \<leftarrow> nodes s cur; arr_get (fd_table (proc n)) i }"

definition fd_set :: "u32 \<Rightarrow> nat \<Rightarrow> (file_descriptor \<Rightarrow> file_descriptor) \<Rightarrow> kernel \<Rightarrow> kernel option" where
  "fd_set cur i f s = do {
     n \<leftarrow> nodes s cur;
     d \<leftarrow> arr_get (fd_table (proc n)) i;
     t \<leftarrow> arr_set (fd_table (proc n)) i (f d);
     proc_set cur (\<lambda>p. p\<lparr>fd_table := t\<rparr>) s
   }"

text \<open>The entry of the table of open files that a descriptor points to; NULL is not dereferenced.\<close>

definition gfd_get :: "file_descriptor \<Rightarrow> kernel \<Rightarrow> (nat \<times> global_file_descriptor) option" where
  "gfd_get d s = do {
     g \<leftarrow> global_fd d;
     e \<leftarrow> arr_get (global_fd_table s) g;
     Some (g, e)
   }"

text \<open>
  The start of the calls on a descriptor: the descriptor, or the error code that the call returns.
  \<open>std\<close> says for which of the first three descriptors the call is refused.
\<close>

definition check_fd :: "int set \<Rightarrow> int \<Rightarrow> kernel \<Rightarrow> (int + u32 \<times> file_descriptor) option" where
  "check_fd std fd s =
     (case get_current_process s of
        None \<Rightarrow> Some (Inl (- ESRCH))
      | Some cur \<Rightarrow>
          if fd < 0 \<or> int MAX_FD \<le> fd \<or> fd \<in> std then Some (Inl (- EBADF))
          else do {
            d \<leftarrow> fd_get cur (nat fd) s;
            Some (if fd_used d then Inr (cur, d) else Inl (- EBADF))
          })"

section \<open>Opening and closing\<close>

text \<open>The loop over the descriptors: \<open>n\<close> are left, from \<open>i\<close> on.\<close>

fun free_fd :: "nat \<Rightarrow> nat \<Rightarrow> file_descriptor list \<Rightarrow> nat option option" where
  "free_fd i 0 t = Some None"
| "free_fd i (Suc n) t = do {
     d \<leftarrow> arr_get t i;
     if \<not> fd_used d then Some (Some i) else free_fd (Suc i) n t
   }"

definition store_file :: "nat option \<Rightarrow> FileData option \<Rightarrow> kernel \<Rightarrow> kernel option" where
  "store_file g data s = do { g \<leftarrow> g; d \<leftarrow> data; gfd_set g (\<lambda>e. e\<lparr>g_file := d\<rparr>) s }"

text \<open>A path that is not open: a new entry, the file looked up or created.\<close>

definition open_new :: "int \<Rightarrow> u32 \<Rightarrow> nat \<Rightarrow> bytes \<Rightarrow> u32 \<Rightarrow> kernel \<Rightarrow> (int \<times> kernel) option" where
  "open_new undef cur i full_path flags s = do {
     (g, s) \<leftarrow> allocate_global_fd full_path s;
     s \<leftarrow> fd_set cur i (\<lambda>d. d\<lparr>global_fd := g\<rparr>) s;
     if \<not> has_flag flags O_DIRECTORY then do {
       (r, data) \<leftarrow> fat_get_file_data full_path (kfat s);
       if r = 0 then do { s \<leftarrow> store_file g data s; Some (0, s) }
       else if has_flag flags O_CREAT then do {
         f \<leftarrow> fat_create_file full_path (kfat s);
         let s = s\<lparr>kfat := f\<rparr>;
         if undef \<noteq> 0 then Some (- ENOENT, s)
         else do {
           (r, data) \<leftarrow> fat_get_file_data full_path (kfat s);
           if r \<noteq> 0 then Some (- ENOENT, s)
           else do { s \<leftarrow> store_file g data s; Some (0, s) }
         }
       } else Some (- ENOENT, s)
     } else do {
       (r, data) \<leftarrow> fat_get_dir_data full_path (kfat s);
       if r \<noteq> 0 then Some (- ENOENT, s)
       else do { s \<leftarrow> store_file g data s; Some (0, s) }
     }
   }"

text \<open>A path that is open already, as entry \<open>g\<close>.\<close>

definition open_again :: "u32 \<Rightarrow> nat \<Rightarrow> nat \<Rightarrow> u32 \<Rightarrow> kernel \<Rightarrow> (int \<times> kernel) option" where
  "open_again cur i g flags s = do {
     s \<leftarrow> fd_set cur i (\<lambda>d. d\<lparr>global_fd := Some g\<rparr>) s;
     e \<leftarrow> arr_get (global_fd_table s) g;
     if is_dir e \<and> \<not> has_flag flags O_DIRECTORY then Some (- EISDIR, s)
     else if \<not> is_dir e \<and> has_flag flags O_DIRECTORY then Some (- ENOTDIR, s)
     else do {
       s \<leftarrow> gfd_set g (\<lambda>e. e\<lparr>ref_count := ref_count e + 1\<rparr>) s;
       Some (0, s)
     }
   }"

text \<open>The flags that concern the contents of a file, and its offset.\<close>

definition open_contents :: "u32 \<Rightarrow> nat \<Rightarrow> u32 \<Rightarrow> kernel \<Rightarrow> (int \<times> kernel) option" where
  "open_contents cur i flags s =
     (if has_flag flags O_DIRECTORY then Some (0, s)
      else if has_flag flags O_EXCL then Some (- EEXIST, s)
      else do {
        d \<leftarrow> fd_get cur i s;
        (g, e) \<leftarrow> gfd_get d s;
        s \<leftarrow> (if has_flag flags O_TRUNC then do {
                (r, file, f) \<leftarrow> fat_truncate (g_file e) 0 (kfat s);
                gfd_set g (\<lambda>e. e\<lparr>g_file := file\<rparr>) (s\<lparr>kfat := f\<rparr>)
              } else Some s);
        e \<leftarrow> arr_get (global_fd_table s) g;
        s \<leftarrow> fd_set cur i (\<lambda>d. d\<lparr>fd_offset := (if has_flag flags O_APPEND
                                               then file_size (file_entry (g_file e)) else 0)\<rparr>) s;
        Some (0, s)
      })"

text \<open>The last assignments.\<close>

definition open_finish :: "u32 \<Rightarrow> nat \<Rightarrow> u32 \<Rightarrow> kernel \<Rightarrow> (int \<times> kernel) option" where
  "open_finish cur i flags s = do {
     d \<leftarrow> fd_get cur i s;
     (g, e) \<leftarrow> gfd_get d s;
     let dir = (attr (file_entry (g_file e)) AND FAT_ATTR_DIRECTORY \<noteq> 0);
     s \<leftarrow> gfd_set g (\<lambda>e. e\<lparr>g_used := True, is_dir := dir\<rparr>) s;
     s \<leftarrow> fd_set cur i (\<lambda>d. d\<lparr>fd_used := True, fd_flags := (if dir then flags OR O_DIRECTORY else flags)\<rparr>) s;
     Some (int i, s)
   }"

definition open_path :: "bytes \<Rightarrow> process \<Rightarrow> bytes option" where
  "open_path path p = do {
     c \<leftarrow> arr_get path 0;
     if c = 0x2F then strncpy (replicate 256 0) path 255
     else join_path (cwd p) path (replicate 256 0) 256
   }"

definition file_open :: "int \<Rightarrow> bytes \<Rightarrow> u32 \<Rightarrow> kernel \<Rightarrow> (int \<times> kernel) option" where
  "file_open undef path flags s =
     (case get_current_process s of
        None \<Rightarrow> Some (- ESRCH, s)
      | Some cur \<Rightarrow> do {
          n \<leftarrow> nodes s cur;
          c \<leftarrow> arr_get path 0;
          full_path \<leftarrow> open_path path (proc n);
          f \<leftarrow> arr_get full_path 0;
          if c \<noteq> 0x2F \<and> f = 0 then Some (- ENOMEM, s)
          else do {
            slot \<leftarrow> free_fd 0 MAX_FD (fd_table (proc n));
            (case slot of
               None \<Rightarrow> Some (- EMFILE, s)
             | Some i \<Rightarrow> do {
                 s \<leftarrow> fd_set cur i (\<lambda>_. zero_fd) s;
                 og \<leftarrow> get_opened_fd full_path s;
                 (r, s) \<leftarrow> (case og of None \<Rightarrow> open_new undef cur i full_path flags s
                            | Some g \<Rightarrow> open_again cur i g flags s);
                 if r \<noteq> 0 then Some (r, s)
                 else do {
                   (r, s) \<leftarrow> open_contents cur i flags s;
                   if r \<noteq> 0 then Some (r, s) else open_finish cur i flags s
                 }
               })
          }
        })"

definition file_close :: "int \<Rightarrow> kernel \<Rightarrow> (int \<times> kernel) option" where
  "file_close fd s = do {
     x \<leftarrow> check_fd {0, 1} fd s;
     (case x of
        Inl e \<Rightarrow> Some (e, s)
      | Inr (cur, d) \<Rightarrow> do {
          (g, e) \<leftarrow> gfd_get d s;
          s \<leftarrow> gfd_set g (\<lambda>e. e\<lparr>ref_count := ref_count e - 1\<rparr>) s;
          s \<leftarrow> (if ref_count e - 1 = 0 then gfd_set g (\<lambda>_. zero_global_fd) s else Some s);
          s \<leftarrow> fd_set cur (nat fd) (\<lambda>_. zero_fd) s;
          Some (0, s)
        })
   }"

section \<open>Reading, writing, seeking\<close>

definition file_read :: "int \<Rightarrow> bytes \<Rightarrow> u32 \<Rightarrow> kernel \<Rightarrow> (read_result \<times> kernel) option" where
  "file_read fd buf count s = do {
     x \<leftarrow> check_fd {} fd s;
     (case x of
        Inl e \<Rightarrow> Some (Got e buf, s)
      | Inr (cur, d) \<Rightarrow>
          if has_flag (fd_flags d) O_DIRECTORY then Some (Got (- EISDIR) buf, s)
          else if has_flag (fd_flags d) O_RDONLY then Some (Got (- EPERM) buf, s)
          else if global_fd d = None then Some (Got (- EBADF) buf, s)
          else do {
            (g, e) \<leftarrow> gfd_get d s;
            f \<leftarrow> g_read e;
            (r, s) \<leftarrow> (case f of
               Read_fat_fs \<Rightarrow> do {
                 (n, buf) \<leftarrow> read_fat_fs buf count (fd_offset d) g s;
                 Some (Got n buf, s)
               }
             | Read_terminal_input \<Rightarrow> read_terminal_input buf count s);
            (case r of
               Yields \<Rightarrow> Some (Yields, s)
             | Got n buf \<Rightarrow> do {
                 s \<leftarrow> fd_set cur (nat fd) (\<lambda>d. d\<lparr>fd_offset := fd_offset d + word_of_int n\<rparr>) s;
                 Some (Got n buf, s)
               })
          })
   }"

fun put_chars :: "bytes \<Rightarrow> nat \<Rightarrow> vga \<Rightarrow> vga option" where
  "put_chars str 0 v = Some v"
| "put_chars [] (Suc n) v = None"
| "put_chars (c # str) (Suc n) v = do { v \<leftarrow> vga_putchar c v; put_chars str n v }"

definition file_write :: "int \<Rightarrow> bytes \<Rightarrow> u32 \<Rightarrow> kernel \<Rightarrow> (int \<times> kernel) option" where
  "file_write fd buf count s =
     (case get_current_process s of
        None \<Rightarrow> Some (- ESRCH, s)
      | Some _ \<Rightarrow>
          if fd = 1 then do {
            v \<leftarrow> put_chars buf (unat count) (screen s);
            Some (sint count, s\<lparr>screen := v\<rparr>)
          } else do {
            x \<leftarrow> check_fd {0, 2} fd s;
            (case x of
               Inl e \<Rightarrow> Some (e, s)
             | Inr (cur, d) \<Rightarrow>
                 if has_flag (fd_flags d) O_DIRECTORY then Some (- EISDIR, s)
                 else if has_flag (fd_flags d) O_RDONLY then Some (- EPERM, s)
                 else do {
                   (g, e) \<leftarrow> gfd_get d s;
                   (n, fe, f) \<leftarrow> fat_write (file_entry (g_file e)) (parent_entry (g_file e)) (fd_offset d) count buf
                                  (kfat s);
                   s \<leftarrow> gfd_set g (\<lambda>e. e\<lparr>g_file := (g_file e)\<lparr>file_entry := fe\<rparr>\<rparr>) (s\<lparr>kfat := f\<rparr>);
                   if n < 0 then Some (EAGAIN, s)
                   else do {
                     s \<leftarrow> fd_set cur (nat fd) (\<lambda>d. d\<lparr>fd_offset := fd_offset d + word_of_int n\<rparr>) s;
                     Some (n, s)
                   }
                 })
          })"

definition file_lseek :: "int \<Rightarrow> int \<Rightarrow> int \<Rightarrow> kernel \<Rightarrow> (int \<times> kernel) option" where
  "file_lseek fd offset whence s = do {
     x \<leftarrow> check_fd {0, 1, 2} fd s;
     (case x of
        Inl e \<Rightarrow> Some (e, s)
      | Inr (cur, d) \<Rightarrow> do {
          new_offset \<leftarrow>
            (if whence = 0 then Some (Some 0)
             else if whence = 1 then Some (Some (sint (fd_offset d + word_of_int offset)))
             else if whence = 2 then do {
               (g, e) \<leftarrow> gfd_get d s;
               Some (Some (sint (file_size (file_entry (g_file e)))))
             } else Some None);
          (case new_offset of
             None \<Rightarrow> Some (- EINVAL, s)
           | Some new_offset \<Rightarrow>
               if new_offset < 0 then Some (- EINVAL, s)
               else do {
                 past \<leftarrow> (if has_flag (fd_flags d) O_DIRECTORY then do {
                           (g, e) \<leftarrow> gfd_get d s;
                           Some (file_size (file_entry (g_file e)) < word_of_int new_offset)
                         } else Some False);
                 if past then Some (- EINVAL, s)
                 else do {
                   s \<leftarrow> fd_set cur (nat fd) (\<lambda>d. d\<lparr>fd_offset := word_of_int new_offset\<rparr>) s;
                   Some (new_offset, s)
                 }
               })
        })
   }"

section \<open>Metadata\<close>

record stat =
  st_dev :: u32
  st_ino :: u32
  st_mode :: u32
  st_nlink :: u32
  st_uid :: u32
  st_gid :: u32
  st_rdev :: u32
  st_size :: u32
  st_blksize :: u32
  st_blocks :: u32
  st_times :: "u32 list"

definition fill_stat :: "u32 \<Rightarrow> u32 \<Rightarrow> stat \<Rightarrow> stat" where
  "fill_stat sz mode st = st\<lparr>st_size := sz, st_mode := mode, st_blocks := (sz + 511) div 512, st_blksize := 512,
     st_nlink := 1, st_uid := 0, st_gid := 0\<rparr>"

text \<open>The prologue that the calls on a path share: \<open>buf\<close> is the local array of 256 bytes.\<close>

definition call_path :: "bytes \<Rightarrow> bytes \<Rightarrow> kernel \<Rightarrow> bytes option" where
  "call_path buf pathname s = do {
     c \<leftarrow> arr_get pathname 0;
     if c = 0x2F then strncpy buf pathname 256
     else do {
       cur \<leftarrow> get_current_process s;
       n \<leftarrow> nodes s cur;
       join_path (cwd (proc n)) pathname buf 256
     }
   }"

definition file_stat :: "bytes \<Rightarrow> stat \<Rightarrow> kernel \<Rightarrow> (int \<times> stat) option" where
  "file_stat pathname statbuf s = do {
     c \<leftarrow> arr_get pathname 0;
     full_path \<leftarrow> call_path (replicate 256 0) pathname s;
     f \<leftarrow> arr_get full_path 0;
     if c \<noteq> 0x2F \<and> f = 0 then Some (- ENOMEM, statbuf)
     else do {
       (r, data) \<leftarrow> fat_get_file_data full_path (kfat s);
       (r, data) \<leftarrow> (if r = 0 then Some (r, data) else fat_get_dir_data full_path (kfat s));
       if r \<noteq> 0 then Some (- ENOENT, statbuf)
       else do {
         tmp_file \<leftarrow> data;
         Some (0, fill_stat (file_size (file_entry tmp_file)) (ucast (attr (file_entry tmp_file))) statbuf)
       }
     }
   }"

definition file_fstat :: "int \<Rightarrow> stat \<Rightarrow> kernel \<Rightarrow> (int \<times> stat) option" where
  "file_fstat fd statbuf s = do {
     x \<leftarrow> check_fd {0, 1, 2} fd s;
     (case x of
        Inl e \<Rightarrow> Some (e, statbuf)
      | Inr (cur, d) \<Rightarrow> do {
          (g, e) \<leftarrow> gfd_get d s;
          Some (0, fill_stat (file_size (file_entry (g_file e)))
            (if is_device e then 3 else if attr (file_entry (g_file e)) AND FAT_ATTR_DIRECTORY \<noteq> 0 then 2 else 1) statbuf)
        })
   }"

definition file_truncate :: "bytes \<Rightarrow> u32 \<Rightarrow> kernel \<Rightarrow> (int \<times> kernel) option" where
  "file_truncate path len s = do {
     full_path \<leftarrow> call_path (replicate 256 0) path s;
     (r, data) \<leftarrow> fat_get_file_data full_path (kfat s);
     if r \<noteq> 0 then Some (- ENOENT, s)
     else do {
       tmp_file \<leftarrow> data;
       (r, tmp_file, f) \<leftarrow> fat_truncate tmp_file len (kfat s);
       Some (r, s\<lparr>kfat := f\<rparr>)
     }
   }"

definition file_ftruncate :: "int \<Rightarrow> u32 \<Rightarrow> kernel \<Rightarrow> (int \<times> kernel) option" where
  "file_ftruncate fd len s = do {
     x \<leftarrow> check_fd {0, 1, 2} fd s;
     (case x of
        Inl e \<Rightarrow> Some (e, s)
      | Inr (cur, d) \<Rightarrow> do {
          (g, e) \<leftarrow> gfd_get d s;
          (r, file, f) \<leftarrow> fat_truncate (g_file e) len (kfat s);
          let file = (if r = 0 then file\<lparr>file_entry := (file_entry file)\<lparr>file_size := len\<rparr>\<rparr> else file);
          s \<leftarrow> gfd_set g (\<lambda>e. e\<lparr>g_file := file\<rparr>) (s\<lparr>kfat := f\<rparr>);
          Some (r, s)
        })
   }"


section \<open>The state of the descriptors\<close>

definition set_fds :: "u32 \<Rightarrow> process_node \<Rightarrow> file_descriptor list \<Rightarrow> kernel \<Rightarrow> kernel" where
  "set_fds cur n t s = s\<lparr>nodes := (nodes s)(cur \<mapsto> n\<lparr>proc := (proc n)\<lparr>fd_table := t\<rparr>\<rparr>)\<rparr>"

lemma set_fds_simps [simp]:
  "nodes (set_fds cur n t s) cur = Some (n\<lparr>proc := (proc n)\<lparr>fd_table := t\<rparr>\<rparr>)"
  "set_fds cur (n\<lparr>proc := (proc n)\<lparr>fd_table := t'\<rparr>\<rparr>) t (set_fds cur n t' s) = set_fds cur n t s"
  "global_fd_table (set_fds cur n t s) = global_fd_table s" "kfat (set_fds cur n t s) = kfat s"
  "current_process_g (set_fds cur n t s) = current_process_g s"
  "get_current_process (set_fds cur n t s) = get_current_process s"
  "get_current_process (s\<lparr>global_fd_table := G\<rparr>) = get_current_process s"
  "(set_fds cur n t s)\<lparr>global_fd_table := G\<rparr> = set_fds cur n t (s\<lparr>global_fd_table := G\<rparr>)"
  by (simp_all add: set_fds_def get_current_process_def)

lemma set_fds_same: "nodes s cur = Some n \<Longrightarrow> set_fds cur n (fd_table (proc n)) s = s"
  by (simp add: set_fds_def map_upd_triv)

lemma fd_get_eq: "nodes s cur = Some n \<Longrightarrow> i < length (fd_table (proc n)) \<Longrightarrow> fd_get cur i s = Some (fd_table (proc n) ! i)"
  by (simp add: fd_get_def arr_get_Some)

lemma fd_set_eq:
  "nodes s cur = Some n \<Longrightarrow> i < length (fd_table (proc n)) \<Longrightarrow>
    fd_set cur i f s = Some (set_fds cur n ((fd_table (proc n))[i := f (fd_table (proc n) ! i)]) s)"
  by (simp add: fd_set_def arr_get_Some arr_set_Some proc_set_def node_set_def set_fds_def)

lemma gfd_set_eq:
  "g < length (global_fd_table s) \<Longrightarrow>
    gfd_set g f s = Some (s\<lparr>global_fd_table := (global_fd_table s)[g := f (global_fd_table s ! g)]\<rparr>)"
  by (simp add: gfd_set_def arr_get_Some arr_set_Some)

lemma gfd_get_eq:
  "global_fd d = Some g \<Longrightarrow> g < length (global_fd_table s) \<Longrightarrow> gfd_get d s = Some (g, global_fd_table s ! g)"
  by (simp add: gfd_get_def arr_get_Some)

lemmas fd_simps = fd_get_eq fd_set_eq gfd_set_eq gfd_get_eq

section \<open>Looking up a path\<close>

definition path_of :: "global_file_descriptor \<Rightarrow> bytes" where
  "path_of e = takeWhile (\<lambda>c. c \<noteq> 0) (g_path e)"

definition gfds_ok :: "kernel \<Rightarrow> bool" where
  "gfds_ok s \<longleftrightarrow> length (global_fd_table s) = MAX_FD \<and> (\<forall>e \<in> set (global_fd_table s). 0 \<in> set (g_path e))"

text \<open>The entry of the table of open files under which a path is open.\<close>

definition opened :: "bytes \<Rightarrow> kernel \<Rightarrow> nat option" where
  "opened p s = find (\<lambda>g. g_used (global_fd_table s ! g) \<and> path_of (global_fd_table s ! g) = p) [0..<MAX_FD]"

lemma path_of_cstr:
  assumes "0 \<in> set (g_path e)"
  shows "\<exists>r. g_path e = path_of e @ 0 # r \<and> 0 \<notin> set (path_of e)"
proof -
  obtain r where "dropWhile (\<lambda>c. c \<noteq> 0) (g_path e) = 0 # r"
    using assms by (cases "dropWhile (\<lambda>c. c \<noteq> 0) (g_path e)") (auto simp: dropWhile_eq_Cons_conv)
  then have "g_path e = path_of e @ 0 # r" unfolding path_of_def by (metis takeWhile_dropWhile_id)
  then show ?thesis by (auto simp: path_of_def dest: set_takeWhileD)
qed

lemma find_opened_find:
  assumes "0 \<notin> set p" and "length p < 256" and "\<forall>e \<in> set t. 0 \<in> set (g_path e)"
  shows "i + n \<le> length t \<Longrightarrow>
    find_opened (p @ 0 # r) i n t = Some (find (\<lambda>g. g_used (t ! g) \<and> path_of (t ! g) = p) [i..<i + n])"
proof (induction n arbitrary: i)
  case (Suc n)
  then have i: "i < length t" by simp
  obtain q where q: "g_path (t ! i) = path_of (t ! i) @ 0 # q" "0 \<notin> set (path_of (t ! i))"
    using path_of_cstr assms(3) i by (meson nth_mem)
  obtain x where x: "strncmp (g_path (t ! i)) (p @ 0 # r) 256 = Some x" "x = 0 \<longleftrightarrow> path_of (t ! i) = p"
    unfolding q(1) using strncmp_short[OF q(2) assms(1), of 256 q r] assms(2) by blast
  have "[i..<i + Suc n] = i # [Suc i..<Suc i + n]" by (simp add: upt_rec)
  then show ?case using Suc.IH[of "Suc i"] Suc.prems i x by (auto simp: arr_get_Some)
qed simp

lemma get_opened_fd_opened:
  assumes "gfds_ok s" and "0 \<notin> set p" and "length p < 256"
  shows "get_opened_fd (p @ 0 # r) s = Some (opened p s)"
  using find_opened_find[OF assms(2,3), of "global_fd_table s" 0 MAX_FD r] assms(1)
  by (simp add: get_opened_fd_def opened_def gfds_ok_def)

lemma open_path_full_name:
  assumes c: "is_cstr c (cwd p)" "c \<noteq> []" and n: "is_cstr nm path" "nm \<noteq> []" and fits: "length c + length nm \<le> 254"
  shows "open_path path p = Some (full_name c nm @ replicate (256 - length (full_name c nm)) 0)"
proof -
  obtain pr where nm: "0 \<notin> set nm" "path = nm @ 0 # pr" using n(1) by (rule is_cstrE)
  have hd: "arr_get path 0 = Some (hd nm)" using n(2) by (cases nm) (auto simp: nm(2) arr_get_def)
  show ?thesis
    using join_path_full_name[OF c(1) n(1) c(2) n(2), of "replicate 256 0"] fits hd
      strncpy_zeros[OF n(2) nm(1), of 255 256 pr]
    by (cases "hd nm = 0x2F") (simp_all add: open_path_def full_name_def nm(2))
qed


section \<open>Opening and closing\<close>

lemma free_fd_first:
  "i \<le> k \<Longrightarrow> k < i + n \<Longrightarrow> k < length t \<Longrightarrow> \<not> fd_used (t ! k) \<Longrightarrow> \<forall>j. i \<le> j \<and> j < k \<longrightarrow> fd_used (t ! j) \<Longrightarrow>
    free_fd i n t = Some (Some k)"
proof (induction n arbitrary: i)
  case (Suc n)
  show ?case
  proof (cases "i = k")
    case True
    with Suc.prems show ?thesis by (simp add: arr_get_Some)
  next
    case False
    with Suc show ?thesis by (simp add: arr_get_Some)
  qed
qed simp

text \<open>The descriptor that a successful open of an open file installs.\<close>

definition open_fd :: "nat \<Rightarrow> u32 \<Rightarrow> global_file_descriptor \<Rightarrow> file_descriptor" where
  "open_fd g flags e = \<lparr>global_fd = Some g, fd_flags = flags,
     fd_offset = (if has_flag flags O_APPEND then file_size (file_entry (g_file e)) else 0), fd_used = True\<rparr>"

definition file_entry_ok :: "global_file_descriptor \<Rightarrow> bool" where
  "file_entry_ok e \<longleftrightarrow> g_used e \<and> \<not> is_dir e \<and> attr (file_entry (g_file e)) AND FAT_ATTR_DIRECTORY = 0"

definition plain_flags :: "u32 \<Rightarrow> bool" where
  "plain_flags flags \<longleftrightarrow> \<not> has_flag flags O_DIRECTORY \<and> \<not> has_flag flags O_EXCL \<and> \<not> has_flag flags O_TRUNC"

lemma open_steps:
  assumes n: "nodes s cur = Some n" "i < length (fd_table (proc n))"
    and g: "g < length (global_fd_table s)" "global_fd_table s ! g = e" "file_entry_ok e" and f: "plain_flags flags"
  shows "do {
      s \<leftarrow> fd_set cur i (\<lambda>_. zero_fd) s;
      (r, s) \<leftarrow> open_again cur i g flags s;
      if r \<noteq> 0 then Some (r, s)
      else do {
        (r, s) \<leftarrow> open_contents cur i flags s;
        if r \<noteq> 0 then Some (r, s) else open_finish cur i flags s
      }
    } = Some (int i, set_fds cur n ((fd_table (proc n))[i := open_fd g flags e])
          (s\<lparr>global_fd_table := (global_fd_table s)[g := e\<lparr>ref_count := ref_count e + 1\<rparr>]\<rparr>))"
proof -
  have e: "e\<lparr>ref_count := r, g_used := True, is_dir := False\<rparr> = e\<lparr>ref_count := r\<rparr>" for r
    using g(3) by (cases e) (simp add: file_entry_ok_def)
  show ?thesis
    using n g f
    by (simp add: open_again_def open_contents_def open_finish_def plain_flags_def file_entry_ok_def fd_simps
        arr_get_Some Let_def open_fd_def zero_fd_def e)
qed

lemma open_opened:
  assumes "gfds_ok s" and "get_current_process s = Some cur" and "nodes s cur = Some n"
    and "is_cstr c (cwd (proc n))" "c \<noteq> []" and "is_cstr nm path" "nm \<noteq> []" and "length c + length nm \<le> 254"
    and "opened (full_name c nm) s = Some g" and "global_fd_table s ! g = e" and "file_entry_ok e"
    and "i < length (fd_table (proc n))" "i < MAX_FD" "\<not> fd_used (fd_table (proc n) ! i)"
    and "\<forall>j < i. fd_used (fd_table (proc n) ! j)" and "plain_flags flags"
  shows "file_open undef path flags s = Some (int i,
    set_fds cur n ((fd_table (proc n))[i := open_fd g flags e])
      (s\<lparr>global_fd_table := (global_fd_table s)[g := e\<lparr>ref_count := ref_count e + 1\<rparr>]\<rparr>))"
proof -
  let ?f = "full_name c nm"
  have c0: "0 \<notin> set c" and n0: "0 \<notin> set nm" using assms(4,6) by (auto simp: is_cstr_def)
  note f = full_name_cstr[OF c0 n0 assms(7,8)]
  obtain k where k: "256 - length ?f = Suc k" using f(3) by (cases "256 - length ?f") auto
  have full: "open_path path (proc n) = Some (?f @ 0 # replicate k 0)"
    using open_path_full_name[OF assms(4-8)] k by simp
  have g: "g < length (global_fd_table s)"
    using assms(1,9) by (auto simp: opened_def gfds_ok_def find_Some_iff)
  have path0: "\<exists>x. arr_get path 0 = Some x" using assms(6,7) by (cases nm) (auto simp: is_cstr_def arr_get_def)
  have full0: "arr_get (?f @ 0 # replicate k 0) 0 = Some (hd ?f)" "hd ?f \<noteq> 0"
    using f(1,2) by (cases ?f; auto simp: arr_get_def)+
  have slot: "free_fd 0 MAX_FD (fd_table (proc n)) = Some (Some i)"
    using assms(12-15) by (intro free_fd_first) auto
  have look: "get_opened_fd (?f @ 0 # replicate k 0) (set_fds cur n t s) = Some (Some g)" for t
    using get_opened_fd_opened[OF assms(1) f(2), of "replicate k 0"] f(3) assms(9)
    by (simp add: get_opened_fd_def)
  show ?thesis
    using open_steps[OF assms(3,12) g assms(10,11,16)] path0 full0(2)
    by (auto simp: file_open_def assms(2,3) full full0(1) slot fd_set_eq assms(12) look)
qed


lemma close_shared:
  assumes "get_current_process s = Some cur" and "nodes s cur = Some n" and "2 \<le> i" and "i < MAX_FD"
    and "i < length (fd_table (proc n))" and "fd_used (fd_table (proc n) ! i)"
    and "global_fd (fd_table (proc n) ! i) = Some g" and "g < length (global_fd_table s)"
    and "1 < ref_count (global_fd_table s ! g)"
  shows "file_close (int i) s = Some (0, set_fds cur n ((fd_table (proc n))[i := zero_fd])
    (s\<lparr>global_fd_table := (global_fd_table s)[g := (global_fd_table s ! g)
       \<lparr>ref_count := ref_count (global_fd_table s ! g) - 1\<rparr>]\<rparr>))"
  using assms by (simp add: file_close_def check_fd_def fd_simps)

section \<open>Reading\<close>

lemma file_read_fat:
  assumes p: "get_current_process s = Some cur" "nodes s cur = Some n" "i < length (fd_table (proc n))" "i < MAX_FD"
    and d: "fd_table (proc n) ! i = d" "fd_used d" "\<not> has_flag (fd_flags d) O_DIRECTORY" "global_fd d = Some g"
    and e: "g < length (global_fd_table s)" "g_read (global_fd_table s ! g) = Some Read_fat_fs"
    and r: "fat_read (file_entry (g_file (global_fd_table s ! g))) (fd_offset d) count buf (kfat s) = Some (int m, buf')"
  shows "file_read (int i) buf count s =
    Some (Got (int m) buf', set_fds cur n ((fd_table (proc n))[i := d\<lparr>fd_offset := fd_offset d + of_nat m\<rparr>]) s)"
  using assms by (simp add: file_read_def check_fd_def fd_simps read_fat_fs_def arr_get_Some has_flag_def O_RDONLY_def)

section \<open>Properties\<close>

text \<open>C22. Opening a file that is open already and closing the descriptor again leaves the kernel as it was:
  for a path that resolves to entry \<open>g\<close> of the table of open files, which is in use, counts a reference and is a file and no directory,
  and for flags without \<open>O_DIRECTORY\<close>, \<open>O_EXCL\<close> and \<open>O_TRUNC\<close>, \<open>_open\<close> installs a descriptor in the first free
  slot of the process, which must hold zeros (as after \<open>_close\<close>), and counts one more reference, and \<open>_close\<close> of this descriptor undoes
  both. (\<open>O_EXCL\<close> fails on an open file and keeps the reference it counted; \<open>O_TRUNC\<close> shrinks the file.)\<close>

theorem open_close_roundtrip:
  assumes "gfds_ok s" and "get_current_process s = Some cur" and "nodes s cur = Some n"
    and "is_cstr c (cwd (proc n))" "c \<noteq> []" and "is_cstr nm path" "nm \<noteq> []" and "length c + length nm \<le> 254"
    and "opened (full_name c nm) s = Some g" and "file_entry_ok (global_fd_table s ! g)"
    and "0 < ref_count (global_fd_table s ! g)"
    and "2 \<le> i" "i < length (fd_table (proc n))" "i < MAX_FD" "fd_table (proc n) ! i = zero_fd"
    and "\<forall>j < i. fd_used (fd_table (proc n) ! j)" and "plain_flags flags"
  shows "\<exists>s'. file_open undef path flags s = Some (int i, s') \<and>
    ref_count (global_fd_table s' ! g) = ref_count (global_fd_table s ! g) + 1 \<and>
    fd_get cur i s' = Some (open_fd g flags (global_fd_table s ! g)) \<and> file_close (int i) s' = Some (0, s)"
proof -
  let ?e = "global_fd_table s ! g" and ?t = "fd_table (proc n)"
  define s' where "s' = set_fds cur n (?t[i := open_fd g flags ?e])
    (s\<lparr>global_fd_table := (global_fd_table s)[g := ?e\<lparr>ref_count := ref_count ?e + 1\<rparr>]\<rparr>)"
  have g: "g < length (global_fd_table s)"
    using assms(1,9) by (auto simp: opened_def gfds_ok_def find_Some_iff)
  have "\<not> fd_used (?t ! i)" using assms(15) by (simp add: zero_fd_def)
  then have "file_open undef path flags s = Some (int i, s')"
    unfolding s'_def using assms by (intro open_opened) auto
  moreover have "file_close (int i) s' = Some (0, set_fds cur n (?t[i := zero_fd]) s)"
    using close_shared[of s' cur "n\<lparr>proc := (proc n)\<lparr>fd_table := ?t[i := open_fd g flags ?e]\<rparr>\<rparr>" i g] assms(2,11-14) g
    by (simp add: s'_def) (simp add: open_fd_def)
  moreover have "set_fds cur n (?t[i := zero_fd]) s = s"
    using set_fds_same[OF assms(3)] assms(15) by (metis list_update_id)
  ultimately show ?thesis using g assms(13) by (simp add: s'_def fd_get_eq)
qed


text \<open>A process in the directory \<open>/\<close> of a kernel in which the file \<open>/F.T\<close> is open.\<close>

definition fds_example :: "file_descriptor list" where
  "fds_example = replicate 3 (zero_fd\<lparr>fd_used := True\<rparr>) @ replicate 125 zero_fd"

definition node_example :: process_node where
  "node_example = \<lparr>proc = (process_example 1 PROCESS_RUNNING)\<lparr>cwd := 0x2F # replicate 255 0, fd_table := fds_example\<rparr>,
     n_next = 0x2000, n_prev = 0\<rparr>"

definition gfd_example :: global_file_descriptor where
  "gfd_example = zero_global_fd\<lparr>g_read := Some Read_fat_fs, g_file := file_example, ref_count := 1,
     g_path := bytes_of ''/F.T'' @ replicate 252 0, g_used := True\<rparr>"

definition files_example :: kernel where
  "files_example = kernel_example\<lparr>global_fd_table := (replicate 256 zero_global_fd)[3 := gfd_example],
     nodes := nodes_example(0x1000 \<mapsto> node_example)\<rparr>"

lemma files_example_simps:
  "get_current_process files_example = Some 0x1000" "nodes files_example 0x1000 = Some node_example"
  "global_fd_table files_example ! 3 = gfd_example" "kfat files_example = fat_example"
  "file_entry_ok gfd_example" "fd_table (proc node_example) = fds_example" "length fds_example = 128"
  "length (global_fd_table files_example) = 256"
  by (auto simp: files_example_def kernel_example_def get_current_process_def MAX_FD_def
      file_entry_ok_def gfd_example_def file_example_def entry_example_fields zero_global_fd_def node_example_def
      fds_example_def FAT_ATTR_DIRECTORY_def)

lemma files_example_ok: "gfds_ok files_example"
proof -
  have "set (global_fd_table files_example) \<subseteq> {gfd_example, zero_global_fd}"
    unfolding files_example_def using set_update_subset_insert[of "replicate 256 zero_global_fd" 3 gfd_example] by simp
  moreover have "0 \<in> set (g_path gfd_example)" "0 \<in> set (g_path zero_global_fd)"
    by (simp_all add: gfd_example_def zero_global_fd_def)
  ultimately show ?thesis by (auto simp: gfds_ok_def files_example_simps(8) MAX_FD_def)
qed

lemma files_example_opened: "opened (bytes_of ''/F.T'') files_example = Some 3"
proof -
  have "\<not> (g_used (global_fd_table files_example ! j) \<and> path_of (global_fd_table files_example ! j) = bytes_of ''/F.T'')"
    if "j < 3" for j
    using that by (simp add: files_example_def zero_global_fd_def)
  moreover have "path_of gfd_example = bytes_of ''/F.T''" "g_used gfd_example"
    by (simp_all add: path_of_def gfd_example_def bytes_of_def)
  ultimately show ?thesis
    unfolding opened_def find_Some_iff
    by (intro exI[of _ 3]) (auto simp: files_example_simps(3) MAX_FD_def)
qed

lemma files_example_cwd: "is_cstr (bytes_of ''/'') (cwd (proc node_example))"
  by (auto simp: is_cstr_def node_example_def bytes_of_def intro!: exI[of _ "replicate 254 0"]
      simp flip: replicate_Suc)

theorem open_close_roundtrip_witness:
  "\<exists>s'. file_open 0 (c_str ''F.T'') 2 files_example = Some (int 3, s') \<and>
    ref_count (global_fd_table s' ! 3) = ref_count (global_fd_table files_example ! 3) + 1 \<and>
    fd_get 0x1000 3 s' = Some (open_fd 3 2 (global_fd_table files_example ! 3)) \<and>
    file_close (int 3) s' = Some (0, files_example)"
proof (rule open_close_roundtrip[OF files_example_ok files_example_simps(1,2) files_example_cwd])
  show "is_cstr (bytes_of ''F.T'') (c_str ''F.T'')" by (simp add: is_cstr_def c_str_def bytes_of_def)
  have "full_name (bytes_of ''/'') (bytes_of ''F.T'') = bytes_of ''/F.T''"
    by (simp add: full_name_def joined_def base_dir_def drop_dot_def bytes_of_def Let_def)
  then show "opened (full_name (bytes_of ''/'') (bytes_of ''F.T'')) files_example = Some 3"
    using files_example_opened by simp
  show "file_entry_ok (global_fd_table files_example ! 3)" by (simp only: files_example_simps)
  show "\<forall>j < 3. fd_used (fd_table (proc node_example) ! j)"
    by (auto simp: files_example_simps fds_example_def nth_append)
qed (simp_all add: bytes_of_def files_example_simps MAX_FD_def plain_flags_def has_flag_def O_DIRECTORY_def
    O_EXCL_def O_TRUNC_def fds_example_def gfd_example_def nth_append)


text \<open>C23. Successive reads of a file give consecutive parts of it: for a descriptor on a regular file whose clusters
  are \<open>cs\<close>, a read of \<open>a\<close> bytes that stay inside the file and then a read of up to \<open>b\<close> bytes return \<open>a\<close> bytes and
  the \<open>m\<close> bytes that are left up to \<open>b\<close>, and the two results together are the \<open>a + m\<close> bytes of the file from the
  offset of the descriptor on.\<close>

theorem sequential_reads:
  assumes "get_current_process s = Some cur" and "nodes s cur = Some n"
    and "i < length (fd_table (proc n))" and "i < MAX_FD"
    and "fd_table (proc n) ! i = d" and "fd_used d" and "\<not> has_flag (fd_flags d) O_DIRECTORY" and "global_fd d = Some g"
    and "g < length (global_fd_table s)" and "global_fd_table s ! g = e" and "g_read e = Some Read_fat_fs"
    and "fat_ok (kfat s) t" and "data_chain t cs" and "fe = file_entry (g_file e)"
    and "unat (start_cluster fe) = hd cs" and "attr fe AND FAT_ATTR_DIRECTORY = 0"
    and "unat (file_size fe) \<le> cluster_bytes (kfat s) * length cs"
    and "unat (fd_offset d) + unat a < unat (file_size fe)" and "unat (fd_offset d) + unat a + unat b < 2 ^ 32"
    and "m = min (unat b) (unat (file_size fe) - unat (fd_offset d) - unat a)"
    and "unat a \<le> length buf1" and "m \<le> length buf2" and "unat a < 2 ^ 31" and "m < 2 ^ 31"
  shows "\<exists>x y s' s''. file_read (int i) buf1 a s = Some (Got (int (unat a)) (x @ drop (unat a) buf1), s') \<and>
    file_read (int i) buf2 b s' = Some (Got (int m) (y @ drop m buf2), s'') \<and>
    x @ y = take (unat a + m) (drop (unat (fd_offset d)) (chain_data (kfat s) cs))"
proof -
  let ?D = "drop (unat (fd_offset d)) (chain_data (kfat s) cs)"
  define d' where "d' = d\<lparr>fd_offset := fd_offset d + of_nat (unat a)\<rparr>"
  define n' where "n' = n\<lparr>proc := (proc n)\<lparr>fd_table := (fd_table (proc n))[i := d']\<rparr>\<rparr>"
  define s' where "s' = set_fds cur n ((fd_table (proc n))[i := d']) s"
  have off: "unat (fd_offset d') = unat (fd_offset d) + unat a"
    using assms(19) by (simp add: d'_def unat_word_ariths)
  have lt: "fd_offset d < file_size fe" "fd_offset d' < file_size fe"
    using assms(18) off by (simp_all add: word_less_nat_alt)
  have r1: "fat_read (file_entry (g_file (global_fd_table s ! g))) (fd_offset d) a buf1 (kfat s) =
      Some (int (unat a), take (unat a) ?D @ drop (unat a) buf1)"
    unfolding assms(10) assms(14)[symmetric]
    using assms(18-21,23) by (intro fat_read_chain[OF assms(12,13,15-17) lt(1)]) auto
  have f1: "file_read (int i) buf1 a s = Some (Got (int (unat a)) (take (unat a) ?D @ drop (unat a) buf1), s')"
    unfolding s'_def d'_def using file_read_fat[OF assms(1-9) _ r1] assms(10,11) by simp
  have r2: "fat_read (file_entry (g_file (global_fd_table s' ! g))) (fd_offset d') b buf2 (kfat s') =
      Some (int m, take m (drop (unat (fd_offset d')) (chain_data (kfat s) cs)) @ drop m buf2)"
    unfolding s'_def set_fds_simps assms(10) assms(14)[symmetric]
    using assms(19,20,22,24) off by (intro fat_read_chain[OF assms(12,13,15-17) lt(2)]) auto
  have "\<exists>s''. file_read (int i) buf2 b s' =
      Some (Got (int m) (take m (drop (unat (fd_offset d')) (chain_data (kfat s) cs)) @ drop m buf2), s'')"
    using file_read_fat[of s' cur n' i d' g b buf2 m, OF _ _ _ assms(4) _ _ _ _ _ _ r2] assms(1,3,6-11)
    by (simp add: s'_def n'_def d'_def)
  moreover have "take (unat a) ?D @ take m (drop (unat (fd_offset d')) (chain_data (kfat s) cs)) = take (unat a + m) ?D"
    by (simp add: take_add off) (simp add: add.commute)
  ultimately show ?thesis using f1 by blast
qed


definition reading_example :: kernel where
  "reading_example = set_fds 0x1000 node_example
     (fds_example[3 := \<lparr>global_fd = Some 3, fd_flags = 2, fd_offset = 500, fd_used = True\<rparr>]) files_example"

theorem sequential_reads_witness:
  "\<exists>x y s' s''. file_read (int 3) (replicate 100 0) 100 reading_example =
      Some (Got (int (unat (100 :: u32))) (x @ drop (unat (100 :: u32)) (replicate 100 0)), s') \<and>
    file_read (int 3) (replicate 200 0) 200 s' = Some (Got (int 100) (y @ drop 100 (replicate 200 0)), s'') \<and>
    x @ y = take (unat (100 :: u32) + 100) (drop (unat (500 :: u32)) (chain_data (kfat reading_example) [2, 3]))"
proof -
  define d where "d = \<lparr>global_fd = Some 3, fd_flags = 2, fd_offset = 500, fd_used = True\<rparr>"
  have k: "kfat reading_example = fat_example" by (simp add: reading_example_def files_example_simps)
  have e: "global_fd_table reading_example ! 3 = gfd_example" by (simp add: reading_example_def files_example_simps)
  have fe: "file_entry (g_file gfd_example) = entry_example" by (simp add: gfd_example_def file_example_def)
  have d: "fd_offset d = 500" by (simp add: d_def)
  show ?thesis
  proof (rule sequential_reads[where s = reading_example and cur = "0x1000" and i = 3 and d = d and g = 3
        and e = gfd_example and n = "node_example\<lparr>proc := (proc node_example)\<lparr>fd_table := fds_example[3 := d]\<rparr>\<rparr>"
        and t = table_example and cs = "[2, 3]" and fe = entry_example, unfolded d])
    show "fat_ok (kfat reading_example) table_example" using fat_example_ok(1) k by simp
    show "data_chain table_example [2, 3]" by (rule data_chain_example)
    show "nodes reading_example 0x1000 =
        Some (node_example\<lparr>proc := (proc node_example)\<lparr>fd_table := fds_example[3 := d]\<rparr>\<rparr>)"
      by (simp add: reading_example_def d_def)
    show "g_read gfd_example = Some Read_fat_fs" by (simp add: gfd_example_def)
    show "get_current_process reading_example = Some 0x1000" by (simp add: reading_example_def files_example_simps)
    show "3 < length (global_fd_table reading_example)" by (simp add: reading_example_def files_example_simps)
  qed (simp_all add: k e fe d_def entry_example_fields cluster_bytes_example MAX_FD_def has_flag_def O_DIRECTORY_def
      files_example_simps)
qed

end
