(* ===== verification/DirCalls.thy ===== *)
theory DirCalls
  imports FileCalls
begin

text \<open>
  The directory system calls, \<open>process/syscalls/handlers/dir/dir.c\<close>: \<open>dir_chdir\<close> is \<open>_chdir\<close>, and so on.

  The calls build paths in local arrays that are not initialised; \<open>stk k\<close> is what the \<open>k\<close>-th of them
  holds. As the kernel's \<open>strncpy\<close> does not write a terminator, these bytes matter. \<open>undef\<close> is the value
  of a function without a return statement.
\<close>

type_synonym stack = "nat \<Rightarrow> nat \<Rightarrow> u8"

definition local_array :: "stack \<Rightarrow> nat \<Rightarrow> nat \<Rightarrow> bytes" where
  "local_array stk k n = map (stk k) [0..<n]"

section \<open>Directories\<close>

definition dir_chdir :: "stack \<Rightarrow> bytes \<Rightarrow> kernel \<Rightarrow> (int \<times> kernel) option" where
  "dir_chdir stk pathname s = do {
     newPath \<leftarrow> call_path (local_array stk 0 256) pathname s;
     (r, data) \<leftarrow> fat_get_dir_data newPath (kfat s);
     if r \<noteq> 0 then Some (- ENOENT, s)
     else do {
       tmp_dir \<leftarrow> data;
       if attr (file_entry tmp_dir) AND FAT_ATTR_DIRECTORY \<noteq> 0 then do {
         cur \<leftarrow> get_current_process s;
         n \<leftarrow> nodes s cur;
         c \<leftarrow> strncpy (cwd (proc n)) newPath 256;
         s \<leftarrow> proc_set cur (\<lambda>p. p\<lparr>cwd := c\<rparr>) s;
         Some (0, s)
       } else Some (- ENOTDIR, s)
     }
   }"

definition dir_mkdir :: "int \<Rightarrow> stack \<Rightarrow> bytes \<Rightarrow> kernel \<Rightarrow> (int \<times> kernel) option" where
  "dir_mkdir undef stk pathname s = do {
     newPath \<leftarrow> call_path (local_array stk 0 256) pathname s;
     f \<leftarrow> fat_create_directory newPath (kfat s);
     Some (undef, s\<lparr>kfat := f\<rparr>)
   }"

text \<open>\<open>get_glob_fd\<close> gives the table of open files, whatever it is called with.\<close>

definition get_glob_fd :: "kernel \<Rightarrow> global_file_descriptor list option" where
  "get_glob_fd s = Some (global_fd_table s)"

definition dir_rmdir :: "stack \<Rightarrow> bytes \<Rightarrow> kernel \<Rightarrow> (int \<times> kernel) option" where
  "dir_rmdir stk pathname s = do {
     newPath \<leftarrow> call_path (local_array stk 0 256) pathname s;
     if get_glob_fd s \<noteq> None then Some (- EBUSY, s)
     else do {
       (code, f) \<leftarrow> fat_delete_dir newPath (kfat s);
       Some (code, s\<lparr>kfat := f\<rparr>)
     }
   }"

definition dir_rename :: "stack \<Rightarrow> bytes \<Rightarrow> bytes \<Rightarrow> kernel \<Rightarrow> (int \<times> kernel) option" where
  "dir_rename stk oldpath newpath s = do {
     fullOldPath \<leftarrow> call_path (local_array stk 0 256) oldpath s;
     cur \<leftarrow> get_current_process s;
     n \<leftarrow> nodes s cur;
     fullNewPath \<leftarrow> join_path (cwd (proc n)) newpath (local_array stk 1 256) 256;
     (p, h) \<leftarrow> simplify_path (heap_junk (kfat s)) fullOldPath (kheap s);
     oldFormattedPath \<leftarrow> p;
     (p, h) \<leftarrow> simplify_path (heap_junk (kfat s)) fullNewPath h;
     newFormattedPath \<leftarrow> p;
     let s = s\<lparr>kheap := h\<rparr>;
     oldDir \<leftarrow> dir_get_parent_dir (local_array stk 2 256) (snd oldFormattedPath) (local_array stk 3 256) 256;
     newDir \<leftarrow> dir_get_parent_dir (local_array stk 4 256) (snd newFormattedPath) (local_array stk 5 256) 256;
     d \<leftarrow> strcmp oldDir newDir;
     if d \<noteq> 0 then Some (- EINVAL, s)
     else do {
       newName \<leftarrow> get_base_name_with_len (local_array stk 6 256) (snd newFormattedPath) (local_array stk 7 12) 11;
       (r, f) \<leftarrow> fat_rename (snd oldFormattedPath) newName (kfat s);
       let s = s\<lparr>kfat := f\<rparr>;
       if r \<noteq> 0 then Some (- EINVAL, s)
       else do {
         file_fd \<leftarrow> get_opened_fd (snd oldFormattedPath) s;
         (case file_fd of
            None \<Rightarrow> Some (0, s)
          | Some g \<Rightarrow> do {
              e \<leftarrow> arr_get (global_fd_table s) g;
              path \<leftarrow> strncpy (g_path e) (snd newFormattedPath) 256;
              s \<leftarrow> gfd_set g (\<lambda>e. e\<lparr>g_path := path\<rparr>) s;
              Some (0, s)
            })
       }
     }
   }"

definition dir_unlink :: "bytes \<Rightarrow> kernel \<Rightarrow> (int \<times> kernel) option" where
  "dir_unlink path s = do {
     full_path \<leftarrow> call_path (replicate 256 0) path s;
     (r, data) \<leftarrow> fat_get_file_data full_path (kfat s);
     if r \<noteq> 0 then Some (r, s)
     else do {
       g \<leftarrow> get_opened_fd full_path s;
       if g = None then do {
         (r, f) \<leftarrow> fat_delete_file full_path (kfat s);
         Some (r, s\<lparr>kfat := f\<rparr>)
       } else Some (- EBUSY, s)
     }
   }"

section \<open>Directory entries\<close>

definition sizeof_linux_dirent :: nat where "sizeof_linux_dirent = 12"

text \<open>
  The record of one entry: \<open>d_ino\<close>, \<open>d_off\<close>, \<open>d_reclen\<close>, then from offset 10 on the name with its
  terminator and the type. The last of the \<open>entry_size\<close> bytes is not written.
\<close>

definition fill_dirent :: "bytes \<Rightarrow> FAT16_DirEntry \<Rightarrow> u32 \<Rightarrow> nat \<Rightarrow> bytes option" where
  "fill_dirent tmp entry off entry_size = do {
     let tmp = le32_bytes (ucast (start_cluster entry)) @ le32_bytes off @ le16_bytes (of_nat entry_size) @ drop 10 tmp;
     name_len \<leftarrow> strlen (dirent_bytes entry);
     tmp \<leftarrow> at_offset (\<lambda>d. strcpy d (dirent_bytes entry)) 10 tmp;
     tmp \<leftarrow> arr_set tmp (10 + name_len) 0;
     arr_set tmp (10 + name_len + 1) (if attr entry AND FAT_ATTR_DIRECTORY \<noteq> 0 then 4 else 8)
   }"

partial_function (option) getdents_loop ::
    "u32 \<Rightarrow> nat \<Rightarrow> bytes \<Rightarrow> u32 \<Rightarrow> nat \<Rightarrow> kernel \<Rightarrow> (int \<times> bytes \<times> kernel) option" where
  "getdents_loop cur fd dirp count buff_index s =
     (if count = 0 then Some (int buff_index, dirp, s)
      else do {
        d \<leftarrow> fd_get cur fd s;
        (g, e) \<leftarrow> gfd_get d s;
        if file_size (file_entry (g_file e)) \<le> fd_offset d then Some (int buff_index, dirp, s)
        else do {
          (r, x) \<leftarrow> fat_get_dir_entry (file_entry (g_file e)) (sint (fd_offset d)) (kfat s);
          if r = FILE_NOT_FOUND then Some (int buff_index, dirp, s)
          else if r \<noteq> 0 then Some (r, dirp, s)
          else do {
            entry \<leftarrow> x;
            name_len \<leftarrow> strlen (dirent_bytes entry);
            let entry_size = sizeof_linux_dirent + name_len + 1;
            if unat count < entry_size then Some (int buff_index, dirp, s)
            else do {
              (p, h) \<leftarrow> kmalloc (of_nat entry_size) (kheap s);
              let s = s\<lparr>kheap := h\<rparr>;
              if p = 0 then Some (- ENOMEM, dirp, s)
              else do {
                tmp \<leftarrow> fill_dirent (map (heap_junk (kfat s)) [0..<entry_size]) entry (fd_offset d) entry_size;
                dirp \<leftarrow> at_offset (\<lambda>b. memcpy b tmp entry_size) buff_index dirp;
                h \<leftarrow> kfree p (kheap s);
                s \<leftarrow> fd_set cur fd (\<lambda>d. d\<lparr>fd_offset := fd_offset d + 1\<rparr>) (s\<lparr>kheap := h\<rparr>);
                getdents_loop cur fd dirp (count - of_nat entry_size) (buff_index + entry_size) s
              }
            }
          }
        }
      })"

definition dir_getdents :: "u32 \<Rightarrow> bytes \<Rightarrow> u32 \<Rightarrow> kernel \<Rightarrow> (int \<times> bytes \<times> kernel) option" where
  "dir_getdents fd dirp count s =
     (if of_nat MAX_LOCAL_FD \<le> fd then Some (- EBADF, dirp, s)
      else do {
        cur \<leftarrow> get_current_process s;
        d \<leftarrow> fd_get cur (unat fd) s;
        if \<not> fd_used d then Some (- EBADF, dirp, s)
        else if \<not> has_flag (fd_flags d) O_DIRECTORY then Some (- ENOTDIR, dirp, s)
        else if has_flag (fd_flags d) O_RDONLY then Some (- EPERM, dirp, s)
        else do {
          (g, e) \<leftarrow> gfd_get d s;
          if file_size (file_entry (g_file e)) \<le> fd_offset d then Some (0, dirp, s)
          else getdents_loop cur (unat fd) dirp count 0 s
        }
      })"

definition dir_getcwd :: "bytes \<Rightarrow> u32 \<Rightarrow> kernel \<Rightarrow> (int \<times> bytes) option" where
  "dir_getcwd buf sz s = do {
     cur \<leftarrow> get_current_process s;
     n \<leftarrow> nodes s cur;
     len \<leftarrow> strlen (cwd (proc n));
     if unat sz < len + 1 then Some (- ERANGE, buf)
     else do {
       buf \<leftarrow> strcpy buf (cwd (proc n));
       Some (0, buf)
     }
   }"

end
