(* ===== verification/Syscalls.thy ===== *)
theory Syscalls
  imports DirCalls Elf
begin

text \<open>
  The system call interface: the process and time calls (\<open>handlers/proc/proc.c\<close>, \<open>handlers/time/time.c\<close>), the
  wrappers that take the arguments from the registers (\<open>sys/sys.c\<close>), the dispatcher (\<open>syscalls.c\<close>) and the
  interrupt dispatcher (\<open>cpu/idt/isr.c\<close>).

  A pointer in a register is an address of the memory model. What a call reads there is the mapped bytes
  from that address on, up to the length that it is given or to the terminator; what it writes is copied
  back. \<open>force_switch_process\<close> is a software interrupt that ends in a jump to another process: such a call
  has the result \<open>Switched\<close>, with the registers that it will return to its caller when the process runs
  again, or \<open>Blocked\<close> when it will repeat its wait.
\<close>

section \<open>Memory of the caller\<close>

definition vbyte :: "u32 \<Rightarrow> vm \<Rightarrow> u8 option" where
  "vbyte va v = do { w \<leftarrow> vload va v; Some (ucast (drop_bit (8 * (unat va mod 4)) w)) }"

fun ubytes :: "u32 \<Rightarrow> nat \<Rightarrow> vm \<Rightarrow> bytes" where
  "ubytes va 0 v = []"
| "ubytes va (Suc n) v = (case vbyte va v of None \<Rightarrow> [] | Some b \<Rightarrow> b # ubytes (va + 1) n v)"

fun ustring_upto :: "nat \<Rightarrow> u32 \<Rightarrow> vm \<Rightarrow> bytes" where
  "ustring_upto 0 va v = []"
| "ustring_upto (Suc n) va v =
     (case vbyte va v of None \<Rightarrow> [] | Some b \<Rightarrow> if b = 0 then [0] else b # ustring_upto n (va + 1) v)"

definition ustring :: "u32 \<Rightarrow> kernel \<Rightarrow> bytes" where
  "ustring va s = ustring_upto (2 ^ 32) va (vmem (kheap s))"

definition ubuffer :: "u32 \<Rightarrow> u32 \<Rightarrow> kernel \<Rightarrow> bytes" where
  "ubuffer va n s = ubytes va (unat n) (vmem (kheap s))"

definition uwrite :: "u32 \<Rightarrow> bytes \<Rightarrow> kernel \<Rightarrow> kernel option" where
  "uwrite va bs s = do {
     v \<leftarrow> vcopy va bs (vmem (kheap s));
     Some (s\<lparr>kheap := (kheap s)\<lparr>vmem := v\<rparr>\<rparr>)
   }"

section \<open>Process calls\<close>

definition ALIGN_UP :: "u32 \<Rightarrow> u32 \<Rightarrow> u32" where
  "ALIGN_UP sz alignment = (sz + alignment - 1) AND NOT (alignment - 1)"

definition proc_getpid :: "kernel \<Rightarrow> u32 option" where
  "proc_getpid s = do { cur \<leftarrow> get_current_process s; n \<leftarrow> nodes s cur; Some (pid (proc n)) }"

text \<open>The pages past the boundary of the last page table: new tables, and the pages that they map.\<close>

definition sbrk_tables :: "u32 \<Rightarrow> u32 \<Rightarrow> heap \<Rightarrow> (bool \<times> u32 \<times> u32 \<times> u32 \<times> heap) option" where
  "sbrk_tables new_break page_tables_boundary h =
     (if page_tables_boundary < new_break then do {
        let tables = (new_break - page_tables_boundary) div (PAGES_PER_TABLE * PAGE_SIZE) + 1;
        let past = (tables - 1) * PAGES_PER_TABLE + 1;
        (new_page_tables, h) \<leftarrow> kmalloc_pages tables h;
        if new_page_tables = 0 then Some (False, 0, 0, 0, h)
        else do {
          phys_addr \<leftarrow> get_physical_address new_page_tables (vmem h);
          (ok, v) \<leftarrow> allocate_multiple_pages (page_tables_boundary div PAGE_SIZE) past False phys_addr (vmem h);
          let h = h\<lparr>vmem := v\<rparr>;
          if ok then Some (True, new_page_tables, tables, past, h)
          else do { h \<leftarrow> kfree new_page_tables h; Some (False, 0, 0, 0, h) }
        }
      } else Some (True, 0, 0, 0, h))"

fun free_tables :: "u32 \<Rightarrow> nat \<Rightarrow> nat \<Rightarrow> heap \<Rightarrow> heap option" where
  "free_tables new_page_tables i 0 h = Some h"
| "free_tables new_page_tables i (Suc n) h = do {
     h \<leftarrow> kfree (new_page_tables + of_nat i * PAGE_SIZE * 4) h;
     free_tables new_page_tables (Suc i) n h
   }"

definition proc_sbrk :: "u32 \<Rightarrow> kernel \<Rightarrow> (u32 \<times> kernel) option" where
  "proc_sbrk increment s = do {
     cur \<leftarrow> get_current_process s;
     n \<leftarrow> nodes s cur;
     let proc_break = process_break (proc n);
     let current_page_end = ALIGN_UP proc_break PAGE_SIZE;
     let page_tables_boundary = ALIGN_UP proc_break (PAGES_PER_TABLE * PAGE_SIZE);
     phys_addr \<leftarrow> get_physical_address proc_break (vmem (kheap s));
     if phys_addr = 0 then Some (- 1, s)
     else do {
       (ok, h) \<leftarrow> (if current_page_end < proc_break + increment then do {
          (ok, new_page_tables, tables, past, h) \<leftarrow> sbrk_tables (proc_break + increment) page_tables_boundary (kheap s);
          if \<not> ok then Some (False, h)
          else do {
            let pages = (proc_break + increment - current_page_end) div PAGE_SIZE - past;
            phys_addr \<leftarrow> get_physical_address (get_page_table current_page_end) (vmem h);
            (ok, v) \<leftarrow> allocate_multiple_pages (current_page_end div PAGE_SIZE) pages False phys_addr (vmem h);
            let h = h\<lparr>vmem := v\<rparr>;
            if ok then Some (True, h)
            else do { h \<leftarrow> free_tables new_page_tables 0 (unat tables) h; Some (False, h) }
          }
        } else Some (True, kheap s));
       let s = s\<lparr>kheap := h\<rparr>;
       if \<not> ok then Some (- 1, s)
       else do {
         s \<leftarrow> proc_set cur (\<lambda>p. p\<lparr>process_break := process_break p + increment\<rparr>) s;
         Some (proc_break, s)
       }
     }
   }"

section \<open>Time calls\<close>

text \<open>\<open>cmos\<close> gives the contents of a register of the real-time clock.\<close>

definition time_gettimeofday :: "(u8 \<Rightarrow> u8) \<Rightarrow> u32 \<Rightarrow> u32 \<Rightarrow> kernel \<Rightarrow> (int \<times> kernel) option" where
  "time_gettimeofday cmos p z s = do {
     let sec = uint (cmos 0x09) * 3600 + uint (cmos 0x08) * 60 + uint (cmos 0x07);
     s \<leftarrow> uwrite p (le32_bytes (word_of_int sec) @ le32_bytes 0) s;
     s \<leftarrow> uwrite (p + 8) (le32_bytes 0) s;
     s \<leftarrow> (if z \<noteq> 0 then uwrite z (le32_bytes 0 @ le32_bytes 0) s else Some s);
     Some (0, s)
   }"

definition time_times :: "u32 \<Rightarrow> kernel \<Rightarrow> (int \<times> kernel) option" where
  "time_times buf s = do { s \<leftarrow> uwrite buf (replicate 32 0) s; Some (0, s) }"

section \<open>Handlers\<close>

text \<open>
  What the handlers depend on besides the kernel: values of functions without a return statement, contents of
  stack arrays and of a fresh process node, the clock and the keyboard controller.
\<close>

record env =
  undef :: int
  stk :: stack
  fresh_process :: process
  cmos :: "u8 \<Rightarrow> u8"
  scan_code_port :: u8

datatype sys_result =
    Finished int_registers
  | Switched int_registers
  | Blocked
  | Left control

definition ret :: "int_registers \<Rightarrow> (int \<times> kernel) option \<Rightarrow> (sys_result \<times> kernel) option" where
  "ret r x = do { (code, s) \<leftarrow> x; Some (Finished (r\<lparr>i_eax := word_of_int code\<rparr>), s) }"

text \<open>The fields of \<open>struct stat\<close> that are written, at their offsets.\<close>

definition put_stat :: "u32 \<Rightarrow> stat \<Rightarrow> kernel \<Rightarrow> kernel option" where
  "put_stat va st s = do {
     s \<leftarrow> uwrite (va + 8) (le32_bytes (st_mode st) @ le32_bytes (st_nlink st) @ le32_bytes (st_uid st) @
                          le32_bytes (st_gid st)) s;
     uwrite (va + 28) (le32_bytes (st_size st) @ le32_bytes (st_blksize st) @ le32_bytes (st_blocks st)) s
   }"

definition empty_stat :: stat where
  "empty_stat = \<lparr>st_dev = 0, st_ino = 0, st_mode = 0, st_nlink = 0, st_uid = 0, st_gid = 0, st_rdev = 0, st_size = 0,
     st_blksize = 0, st_blocks = 0, st_times = replicate 6 0\<rparr>"

definition ret_stat :: "int_registers \<Rightarrow> u32 \<Rightarrow> (int \<times> stat) option \<Rightarrow> kernel \<Rightarrow> (sys_result \<times> kernel) option" where
  "ret_stat r va x s = do {
     (code, st) \<leftarrow> x;
     s \<leftarrow> (if code = 0 then put_stat va st s else Some s);
     ret r (Some (code, s))
   }"

definition sys_exit :: "int_registers \<Rightarrow> kernel \<Rightarrow> (sys_result \<times> kernel) option" where
  "sys_exit r s = do {
     (c, s) \<leftarrow> exit_current_process s;
     Some (case c of Returned _ \<Rightarrow> Finished r | _ \<Rightarrow> Left c, s)
   }"

definition sys_read :: "int_registers \<Rightarrow> kernel \<Rightarrow> (sys_result \<times> kernel) option" where
  "sys_read r s = do {
     (x, s) \<leftarrow> file_read (sint (i_ebx r)) (ubuffer (i_ecx r) (i_edx r) s) (i_edx r) s;
     (case x of
        Yields \<Rightarrow> Some (Blocked, s)
      | Got n buf \<Rightarrow> do { s \<leftarrow> uwrite (i_ecx r) buf s; ret r (Some (n, s)) })
   }"

definition sys_getdents :: "int_registers \<Rightarrow> kernel \<Rightarrow> (sys_result \<times> kernel) option" where
  "sys_getdents r s = do {
     (n, dirp, s) \<leftarrow> dir_getdents (i_ebx r) (ubuffer (i_ecx r) (i_edx r) s) (i_edx r) s;
     s \<leftarrow> uwrite (i_ecx r) dirp s;
     ret r (Some (n, s))
   }"

definition sys_getcwd :: "int_registers \<Rightarrow> kernel \<Rightarrow> (sys_result \<times> kernel) option" where
  "sys_getcwd r s = do {
     (code, buf) \<leftarrow> dir_getcwd (ubuffer (i_ebx r) (i_ecx r) s) (i_ecx r) s;
     s \<leftarrow> uwrite (i_ebx r) buf s;
     ret r (Some (code, s))
   }"

definition sys_execve :: "env \<Rightarrow> int_registers \<Rightarrow> kernel \<Rightarrow> (sys_result \<times> kernel) option" where
  "sys_execve e r s = do {
     (code, s) \<leftarrow> create_usermode_process (fresh_process e) (ustring (i_ebx r) s) s;
     Some (Switched (r\<lparr>i_eax := word_of_int code\<rparr>), s)
   }"

definition screen_call :: "(vga \<Rightarrow> vga option) \<Rightarrow> int_registers \<Rightarrow> kernel \<Rightarrow> (sys_result \<times> kernel) option" where
  "screen_call f r s = do { v \<leftarrow> f (screen s); Some (Finished r, s\<lparr>screen := v\<rparr>) }"

fun run_handler :: "env \<Rightarrow> syscall \<Rightarrow> int_registers \<Rightarrow> kernel \<Rightarrow> (sys_result \<times> kernel) option" where
  "run_handler e Sys_exit r s = sys_exit r s"
| "run_handler e Sys_read r s = sys_read r s"
| "run_handler e Sys_write r s =
     ret r (file_write (sint (i_ebx r)) (ubuffer (i_ecx r) (i_edx r) s) (i_edx r) s)"
| "run_handler e Sys_open r s = ret r (file_open (undef e) (ustring (i_ebx r) s) (i_ecx r) s)"
| "run_handler e Sys_close r s = ret r (file_close (sint (i_ebx r)) s)"
| "run_handler e Sys_unlink r s = ret r (dir_unlink (ustring (i_ebx r) s) s)"
| "run_handler e Sys_chdir r s = ret r (dir_chdir (stk e) (ustring (i_ebx r) s) s)"
| "run_handler e Sys_lseek r s = ret r (file_lseek (sint (i_ebx r)) (sint (i_ecx r)) (sint (i_edx r)) s)"
| "run_handler e Sys_getpid r s = do { p \<leftarrow> proc_getpid s; Some (Finished (r\<lparr>i_eax := p\<rparr>), s) }"
| "run_handler e Sys_rename r s = ret r (dir_rename (stk e) (ustring (i_ebx r) s) (ustring (i_ecx r) s) s)"
| "run_handler e Sys_mkdir r s = ret r (dir_mkdir (undef e) (stk e) (ustring (i_ebx r) s) s)"
| "run_handler e Sys_rmdir r s = ret r (dir_rmdir (stk e) (ustring (i_ebx r) s) s)"
| "run_handler e Sys_times r s = ret r (time_times (i_ebx r) s)"
| "run_handler e Sys_gettimeofday r s = ret r (time_gettimeofday (cmos e) (i_ebx r) (i_ecx r) s)"
| "run_handler e Sys_truncate r s = ret r (file_truncate (ustring (i_ebx r) s) (i_ecx r) s)"
| "run_handler e Sys_ftruncate r s = ret r (file_ftruncate (sint (i_ebx r)) (i_ecx r) s)"
| "run_handler e Sys_stat r s = ret_stat r (i_ecx r) (file_stat (ustring (i_ebx r) s) empty_stat s) s"
| "run_handler e Sys_fstat r s = ret_stat r (i_ecx r) (file_fstat (sint (i_ebx r)) empty_stat s) s"
| "run_handler e Sys_getdents r s = sys_getdents r s"
| "run_handler e Sys_getcwd r s = sys_getcwd r s"
| "run_handler e Sys_execve r s = sys_execve e r s"
| "run_handler e Sys_sbrk r s = do {
     (p, s) \<leftarrow> proc_sbrk (i_ebx r) s;
     Some (Finished (r\<lparr>i_eax := p\<rparr>), s)
   }"
| "run_handler e Print_logo r s = screen_call print_logo r s"
| "run_handler e Print_bye r s = screen_call print_bye r s"

section \<open>Dispatch\<close>

definition SYSCALLS_MANAGER_MAX_HANDLERS :: nat where "SYSCALLS_MANAGER_MAX_HANDLERS = 256"

definition syscalls_manager_attach_handler :: "u8 \<Rightarrow> syscall \<Rightarrow> kernel \<Rightarrow> kernel" where
  "syscalls_manager_attach_handler function_number handler s =
     (if unat function_number < SYSCALLS_MANAGER_MAX_HANDLERS
      then s\<lparr>syscall_handler_array := (syscall_handler_array s)[unat function_number := Some handler]\<rparr> else s)"

definition syscalls_manager_detach_handler :: "u8 \<Rightarrow> kernel \<Rightarrow> kernel" where
  "syscalls_manager_detach_handler function_number s =
     (if unat function_number < SYSCALLS_MANAGER_MAX_HANDLERS
      then s\<lparr>syscall_handler_array := (syscall_handler_array s)[unat function_number := None]\<rparr> else s)"

definition attached :: "(u8 \<times> syscall) list" where
  "attached = [(1, Sys_exit), (3, Sys_read), (4, Sys_write), (5, Sys_open), (6, Sys_close), (10, Sys_unlink),
     (12, Sys_chdir), (19, Sys_lseek), (38, Sys_rename), (39, Sys_mkdir), (40, Sys_rmdir), (40, Sys_times),
     (78, Sys_gettimeofday), (92, Sys_truncate), (93, Sys_ftruncate), (106, Sys_stat), (108, Sys_fstat),
     (141, Sys_getdents), (183, Sys_getcwd), (59, Sys_execve), (183, Sys_getcwd), (45, Sys_sbrk),
     (169, Print_logo), (170, Print_bye)]"

definition syscall_init :: "kernel \<Rightarrow> kernel" where
  "syscall_init s = fold (\<lambda>(n, h). syscalls_manager_attach_handler n h) attached
     (snd (register_isr_handler 0x80 Handle_syscall s))"

definition handle_syscall :: "env \<Rightarrow> int_registers \<Rightarrow> kernel \<Rightarrow> (sys_result \<times> kernel) option" where
  "handle_syscall e r s =
     (if unat (i_eax r) < SYSCALLS_MANAGER_MAX_HANDLERS then do {
        h \<leftarrow> arr_get (syscall_handler_array s) (unat (i_eax r));
        (case h of
           None \<Rightarrow> Some (Finished r, s)
         | Some h \<Rightarrow> do {
             cur \<leftarrow> get_current_process s;
             s \<leftarrow> proc_set cur (\<lambda>p. p\<lparr>is_kernel_mode := True\<rparr>) s;
             (x, s) \<leftarrow> run_handler e h r s;
             (case x of
                Finished r \<Rightarrow> do {
                  cur \<leftarrow> get_current_process s;
                  s \<leftarrow> proc_set cur (\<lambda>p. p\<lparr>is_kernel_mode := False\<rparr>) s;
                  n \<leftarrow> nodes s cur;
                  c \<leftarrow> tss_fill_esp0 (kernel_stack (proc n)) (kcpu s);
                  Some (Finished r, s\<lparr>kcpu := c\<rparr>)
                }
              | _ \<Rightarrow> Some (x, s))
           })
      } else Some (Finished r, s))"

definition exception_messages :: "string list" where
  "exception_messages = [''Divide by zero error'', ''Debug'', ''Non-maskable Interrupt'', ''Breakpoint'', ''Overflow'',
     ''Bound Range Exceeded'', ''Invalid Opcode'', ''Device Not Available'', ''Double Fault'',
     ''Coprocessor Segment Overrun'', ''Invalid TSS'', ''Segment Not Present'', ''Stack-Segment Fault'',
     ''General Protection Fault'', ''Page Fault'', '''', ''x87 Floating-Point Exception'', ''Alignment Check'',
     ''Machine Check'', ''SIMD Floating-Point Exception'', ''Virtualization Exception'',
     ''Control Protection Exception '', '''', '''', '''', '''', '''', '''', ''Hypervisor Injection Exception'',
     ''VMM Communication Exception'', ''Security Exception'', '''']"

definition control_result :: "int_registers \<Rightarrow> control \<Rightarrow> sys_result" where
  "control_result r c = (case c of Returned _ \<Rightarrow> Finished r | _ \<Rightarrow> Left c)"

definition run_isr :: "env \<Rightarrow> isr_handler \<Rightarrow> int_registers \<Rightarrow> kernel \<Rightarrow> (sys_result \<times> kernel) option" where
  "run_isr e h r s = (case h of
     Timer_irq \<Rightarrow> do { (c, s) \<leftarrow> timer_irq r s; Some (control_result r c, s) }
   | Keyboard_irq \<Rightarrow> do { s \<leftarrow> keyboard_irq (scan_code_port e) s; Some (Finished r, s) }
   | Handle_syscall \<Rightarrow> handle_syscall e r s
   | Switch_process \<Rightarrow> do { (c, s) \<leftarrow> switch_process r s; Some (control_result r c, s) })"

definition print_fault :: "int_registers \<Rightarrow> vga \<Rightarrow> vga option" where
  "print_fault r = vga_printf
     (bytes_of ''Segmentation fault'' @ 0x0A # bytes_of ''regs->eip=%x'' @ 0x0A # bytes_of ''regs->eax=%x'' @ [0x0A, 0])
     [IntArg (sint (i_eip r)), IntArg (sint (i_eax r))]"

definition panic :: "string \<Rightarrow> kernel \<Rightarrow> (sys_result \<times> kernel) option" where
  "panic msg s = do { v \<leftarrow> panic_screen (c_str msg) (screen s); Some (Left (Panic msg), s\<lparr>screen := v\<rparr>) }"

definition isr_wrapper :: "env \<Rightarrow> int_registers \<Rightarrow> kernel \<Rightarrow> (sys_result \<times> kernel) option" where
  "isr_wrapper e r s = do {
     h \<leftarrow> arr_get (handlers s) (unat (i_interrupt r));
     (case h of
        Some h \<Rightarrow> run_isr e h r s
      | None \<Rightarrow>
          if PIC1_IRQ_INDEX \<le> i_interrupt r then do {
            v \<leftarrow> vga_printf (bytes_of ''Unhandled interrupt %d'' @ [0x0A, 0]) [IntArg (sint (i_interrupt r))] (screen s);
            Some (Finished r, s\<lparr>screen := v\<rparr>)
          } else if i_interrupt r = 14 then do {
            v \<leftarrow> print_fault r (screen s);
            (c, s) \<leftarrow> exit_current_process (s\<lparr>screen := v\<rparr>);
            (case c of Returned _ \<Rightarrow> panic (exception_messages ! 14) s | _ \<Rightarrow> Some (Left c, s))
          } else panic (exception_messages ! unat (i_interrupt r)) s)
   }"


section \<open>The table of handlers\<close>

lemma attach_handler_eq:
  "syscalls_manager_attach_handler n h s = s\<lparr>syscall_handler_array := (syscall_handler_array s)[unat n := Some h]\<rparr>"
proof -
  have "unat n < 256" using unsigned_less[of n, where ?'a = nat] by simp
  then show ?thesis by (simp add: syscalls_manager_attach_handler_def SYSCALLS_MANAGER_MAX_HANDLERS_def)
qed

lemma fold_attach:
  "fold (\<lambda>(n, h). syscalls_manager_attach_handler n h) xs s =
    s\<lparr>syscall_handler_array := fold (\<lambda>(n, h) t. t[unat n := Some h]) xs (syscall_handler_array s)\<rparr>"
  by (induction xs arbitrary: s) (auto simp: attach_handler_eq)

lemma fold_updates:
  "i < length t \<Longrightarrow> \<forall>(n, h) \<in> set xs. n < length t \<Longrightarrow>
    fold (\<lambda>(n, h) t. t[n := Some h]) xs t ! i = (case map_of (rev xs) i of None \<Rightarrow> t ! i | Some h \<Rightarrow> Some h)"
  by (induction xs arbitrary: t) (auto simp: nth_list_update map_add_def split: option.splits)

lemma length_fold_updates: "length (fold (\<lambda>(n, h) t. t[n := Some h]) xs t) = length t"
  by (induction xs arbitrary: t) auto

text \<open>The initialised table, by number.\<close>

definition syscall_of :: "nat \<Rightarrow> syscall option" where
  "syscall_of = map_of (rev (map (\<lambda>(n, h). (unat n, h)) attached))"

lemma syscall_init_eq:
  assumes "length (handlers s) = IDT_SIZE" and "length (syscall_handler_array s) = 256"
  shows "\<exists>t. syscall_init s = s\<lparr>handlers := (handlers s)[0x80 := Some Handle_syscall], syscall_handler_array := t\<rparr> \<and>
    length t = 256 \<and>
    (\<forall>n < 256. t ! n = (case syscall_of n of None \<Rightarrow> syscall_handler_array s ! n | Some h \<Rightarrow> Some h))"
proof -
  let ?xs = "map (\<lambda>(n, h). (unat n, h)) attached"
  define t where "t = fold (\<lambda>(n, h) t. t[n := Some h]) ?xs (syscall_handler_array s)"
  have "fold (\<lambda>(n, h) t. t[unat n := Some h]) attached (syscall_handler_array s) = t"
    unfolding t_def fold_map by (rule fold_cong) auto
  then have "syscall_init s = s\<lparr>handlers := (handlers s)[0x80 := Some Handle_syscall], syscall_handler_array := t\<rparr>"
    by (simp add: syscall_init_def fold_attach register_isr_handler_def IDT_SIZE_def)
  moreover have "\<forall>(n, h) \<in> set ?xs. n < 256" by (simp add: attached_def)
  moreover have "length t = 256" using length_fold_updates[of ?xs "syscall_handler_array s"] assms(2) by (simp only: t_def)
  ultimately show ?thesis
    using fold_updates[of _ "syscall_handler_array s" ?xs] assms(2)
    by (intro exI[of _ t]) (simp add: t_def syscall_of_def)
qed


section \<open>Properties\<close>

definition in_kernel_mode :: "bool \<Rightarrow> u32 \<Rightarrow> process_node \<Rightarrow> kernel \<Rightarrow> kernel" where
  "in_kernel_mode b cur n s = s\<lparr>nodes := (nodes s)(cur \<mapsto> n\<lparr>proc := (proc n)\<lparr>is_kernel_mode := b\<rparr>\<rparr>)\<rparr>"

lemma proc_set_kernel_mode:
  "nodes s cur = Some n \<Longrightarrow> proc_set cur (\<lambda>p. p\<lparr>is_kernel_mode := b\<rparr>) s = Some (in_kernel_mode b cur n s)"
  by (simp add: proc_set_def node_set_def in_kernel_mode_def)

text \<open>The frame of a call that returns: kernel mode on, the handler, kernel mode off, the stack of the process.\<close>

lemma handle_syscall_finished:
  assumes "unat (i_eax r) < 256" and "length (syscall_handler_array s) = 256"
    and "syscall_handler_array s ! unat (i_eax r) = Some h"
    and "get_current_process s = Some cur" and "nodes s cur = Some n"
    and "run_handler e h r (in_kernel_mode True cur n s) = Some (Finished r', s1)"
    and "get_current_process s1 = Some cur'" and "nodes s1 cur' = Some n'" and "length (gdt_table (kcpu s1)) = 6"
  shows "\<exists>c. handle_syscall e r s = Some (Finished r', (in_kernel_mode False cur' n' s1)\<lparr>kcpu := c\<rparr>) \<and>
    esp0 (tss c) = kernel_stack (proc n')"
proof -
  obtain c where "tss_fill_esp0 (kernel_stack (proc n')) (kcpu s1) = Some c" "esp0 (tss c) = kernel_stack (proc n')"
    using tss_fill_esp0_Some[OF assms(9)] by blast
  then show ?thesis
    using assms
    by (intro exI[of _ c]) (simp add: handle_syscall_def SYSCALLS_MANAGER_MAX_HANDLERS_def arr_get_Some proc_set_kernel_mode in_kernel_mode_def)
qed

text \<open>C24. The system call \<open>close\<close> from user mode: in a kernel whose tables \<open>syscall_init\<close> has filled, an interrupt
  0x80 with 6 in eax and an open descriptor of a shared file in ebx returns to the caller with 0 in eax; the
  descriptor is cleared, the file has one reference less, the process is in user mode again, and the TSS holds
  its kernel stack.\<close>

theorem close_system_call:
  assumes "length (handlers s0) = IDT_SIZE" and "length (syscall_handler_array s0) = 256" and "s = syscall_init s0"
    and "i_interrupt r = 0x80" and "i_eax r = 6" and "i_ebx r = of_nat i"
    and "get_current_process s = Some cur" and "nodes s cur = Some n" and "length (gdt_table (kcpu s)) = 6"
    and "2 \<le> i" and "i < MAX_FD" and "i < length (fd_table (proc n))" and "fd_used (fd_table (proc n) ! i)"
    and "global_fd (fd_table (proc n) ! i) = Some g" and "g < length (global_fd_table s)"
    and "1 < ref_count (global_fd_table s ! g)"
  shows "\<exists>s' n'. isr_wrapper e r s = Some (Finished (r\<lparr>i_eax := 0\<rparr>), s') \<and> nodes s' cur = Some n' \<and>
    fd_table (proc n') = (fd_table (proc n))[i := zero_fd] \<and> \<not> is_kernel_mode (proc n') \<and>
    ref_count (global_fd_table s' ! g) = ref_count (global_fd_table s ! g) - 1 \<and>
    esp0 (tss (kcpu s')) = kernel_stack (proc n)"
proof -
  obtain t where s: "s = s0\<lparr>handlers := (handlers s0)[0x80 := Some Handle_syscall], syscall_handler_array := t\<rparr>"
    and t: "length t = 256" "\<forall>n < 256. t ! n = (case syscall_of n of None \<Rightarrow> syscall_handler_array s0 ! n | Some h \<Rightarrow> Some h)"
    using syscall_init_eq[OF assms(1,2)] assms(3) by auto
  have six: "t ! 6 = Some Sys_close" using t(2) by (simp add: syscall_of_def attached_def)
  have h: "arr_get (handlers s) (unat (i_interrupt r)) = Some (Some Handle_syscall)"
    using assms(1,4) by (simp add: s arr_get_Some IDT_SIZE_def)
  define sk where "sk = in_kernel_mode True cur n s"
  define nk where "nk = n\<lparr>proc := (proc n)\<lparr>is_kernel_mode := True\<rparr>\<rparr>"
  define s1 where "s1 = set_fds cur nk ((fd_table (proc nk))[i := zero_fd]) (sk\<lparr>global_fd_table :=
    (global_fd_table sk)[g := (global_fd_table sk ! g)\<lparr>ref_count := ref_count (global_fd_table sk ! g) - 1\<rparr>]\<rparr>)"
  have i: "sint (i_ebx r) = int i"
    using assms(6,11) sint_small[of "i_ebx r"] by (simp add: MAX_FD_def unat_of_nat_u32)
  have close: "file_close (int i) sk = Some (0, s1)"
    unfolding s1_def using assms(7,8,10-16)
    by (intro close_shared) (auto simp: sk_def nk_def in_kernel_mode_def get_current_process_def split: if_splits)
  have run: "run_handler e Sys_close r sk = Some (Finished (r\<lparr>i_eax := 0\<rparr>), s1)" by (simp add: ret_def i close)
  have tab: "syscall_handler_array s = t" by (simp add: s)
  have k: "get_current_process s1 = Some cur" "kcpu s1 = kcpu s"
    "nodes s1 cur = Some (nk\<lparr>proc := (proc nk)\<lparr>fd_table := (fd_table (proc nk))[i := zero_fd]\<rparr>\<rparr>)"
    using assms(7) by (auto simp: s1_def sk_def in_kernel_mode_def set_fds_def get_current_process_def split: if_splits)
  have "\<exists>c. handle_syscall e r s = Some (Finished (r\<lparr>i_eax := 0\<rparr>), (in_kernel_mode False cur
      (nk\<lparr>proc := (proc nk)\<lparr>fd_table := (fd_table (proc nk))[i := zero_fd]\<rparr>\<rparr>) s1)\<lparr>kcpu := c\<rparr>) \<and>
      esp0 (tss c) = kernel_stack (proc n)"
    using handle_syscall_finished[of r s Sys_close cur n e "r\<lparr>i_eax := 0\<rparr>" s1 cur, OF _ _ _ assms(7,8) _ k(1,3)]
      assms(5,9) tab t(1) six run k(2) unfolding sk_def nk_def by simp
  then show ?thesis
    using h assms(15) by (auto simp: isr_wrapper_def run_isr_def in_kernel_mode_def s1_def sk_def nk_def set_fds_def)
qed


definition closing_example :: kernel where
  "closing_example = reading_example\<lparr>global_fd_table := (global_fd_table reading_example)[3 := gfd_example\<lparr>ref_count := 2\<rparr>]\<rparr>"

definition close_regs :: int_registers where
  "close_regs = regs_example\<lparr>i_interrupt := 0x80, i_eax := 6, i_ebx := of_nat 3\<rparr>"

definition env_example :: env where
  "env_example = \<lparr>undef = 0, stk = (\<lambda>_ _. 0), fresh_process = process_example 9 PROCESS_READY, cmos = (\<lambda>_. 0),
     scan_code_port = 0\<rparr>"

theorem close_system_call_witness:
  "\<exists>s' n'. isr_wrapper env_example close_regs (syscall_init closing_example) = Some (Finished (close_regs\<lparr>i_eax := 0\<rparr>), s') \<and>
    nodes s' 0x1000 = Some n' \<and> fd_table (proc n') ! 3 = zero_fd \<and> \<not> is_kernel_mode (proc n') \<and>
    ref_count (global_fd_table s' ! 3) = 1"
proof -
  let ?d = "\<lparr>global_fd = Some 3, fd_flags = 2, fd_offset = 500, fd_used = True\<rparr>"
  let ?n = "node_example\<lparr>proc := (proc node_example)\<lparr>fd_table := fds_example[3 := ?d]\<rparr>\<rparr>"
  have len: "length (handlers closing_example) = IDT_SIZE" "length (syscall_handler_array closing_example) = 256"
    by (simp_all add: closing_example_def reading_example_def set_fds_def files_example_def kernel_example_def IDT_SIZE_def)
  obtain hs t where s: "syscall_init closing_example = closing_example\<lparr>handlers := hs, syscall_handler_array := t\<rparr>"
    using syscall_init_eq[OF len] by blast
  have c: "get_current_process closing_example = Some 0x1000" "nodes closing_example 0x1000 = Some ?n"
    by (simp_all add: closing_example_def reading_example_def files_example_simps)
  have k: "length (gdt_table (kcpu closing_example)) = 6"
    by (simp add: closing_example_def reading_example_def set_fds_def files_example_def kernel_example_def cpu_example_def)
  have g: "global_fd_table closing_example ! 3 = gfd_example\<lparr>ref_count := 2\<rparr>" "length (global_fd_table closing_example) = 256"
    by (simp_all add: closing_example_def reading_example_def files_example_simps)
  have "\<exists>s' n'. isr_wrapper env_example close_regs (syscall_init closing_example) =
      Some (Finished (close_regs\<lparr>i_eax := 0\<rparr>), s') \<and> nodes s' 0x1000 = Some n' \<and>
    fd_table (proc n') = (fd_table (proc ?n))[3 := zero_fd] \<and> \<not> is_kernel_mode (proc n') \<and>
    ref_count (global_fd_table s' ! 3) = ref_count (global_fd_table (syscall_init closing_example) ! 3) - 1 \<and>
    esp0 (tss (kcpu s')) = kernel_stack (proc ?n)"
  proof (rule close_system_call[OF len refl])
    show "get_current_process (syscall_init closing_example) = Some 0x1000"
      using c(1) by (auto simp: s get_current_process_def split: if_splits)
    show "length (gdt_table (kcpu (syscall_init closing_example))) = 6"
      by (simp add: s k)
  qed (simp_all add: s c(2) g close_regs_def files_example_simps MAX_FD_def)
  then show ?thesis by (auto simp: files_example_simps g(1) s)
qed

end
