(* ===== verification/FatEntries.thy ===== *)
theory FatEntries
  imports FatDir
begin

text \<open>
  What the directory operations of \<open>filesystem/fat/fat.c\<close> compute. A directory is abstracted to
  \<open>entries\<close>, the list of the 32-byte entries in the clusters of its chain. Looking up, adding
  and replacing an entry are then list operations: the first entry with the name, the first free
  entry, the first match replaced. Names are compared by \<open>entry_key\<close>: \<open>strncmp\<close> with a limit
  of eleven looks at twelve bytes, so a name of eleven characters takes the attribute byte in.
\<close>

section \<open>Comparing names\<close>

definition entry_key :: "bytes \<Rightarrow> bytes" where
  "entry_key b = takeWhile (\<lambda>c. c \<noteq> 0) (take 12 b)"

lemma strncmp_zero_iff:
  "n < length a \<or> 0 \<in> set a \<Longrightarrow> n < length b \<or> 0 \<in> set b \<Longrightarrow>
    \<exists>r. strncmp a b n = Some r \<and> (r = 0 \<longleftrightarrow>
      takeWhile (\<lambda>c. c \<noteq> 0) (take (Suc n) a) = takeWhile (\<lambda>c. c \<noteq> 0) (take (Suc n) b))"
proof (induction a b n rule: strncmp.induct)
  case (1 a as b bs n)
  show ?case
  proof (cases "n \<noteq> 0 \<and> a \<noteq> 0 \<and> a = b")
    case True
    then obtain m where "n = Suc m" by (cases n) auto
    with 1 True show ?thesis by auto
  next
    case False
    then show ?thesis by (cases n) auto
  qed
qed auto

lemma strncmp_take: "n < m \<Longrightarrow> m \<le> length a \<Longrightarrow> strncmp (take m a) b n = strncmp a b n"
proof (induction a b n arbitrary: m rule: strncmp.induct)
  case (1 a as b bs n)
  then obtain k where "m = Suc k" by (cases m) auto
  with 1 show ?case by auto
qed auto

text \<open>A comparison that looks at one entry only: it answers, and the bytes behind the entry do not matter.\<close>

definition entry_test :: "(bytes \<Rightarrow> int option) \<Rightarrow> bool" where
  "entry_test cmp \<longleftrightarrow> (\<forall>b. 32 \<le> length b \<longrightarrow> (\<exists>r. cmp b = Some r) \<and> cmp (take 32 b) = cmp b)"

lemma entry_test_strncmp:
  assumes "11 < length nm \<or> 0 \<in> set nm"
  shows "entry_test (\<lambda>p. strncmp p nm FAT16_FILENAME_SIZE)"
  unfolding entry_test_def FAT16_FILENAME_SIZE_def
proof (intro allI impI conjI)
  fix b :: bytes assume b: "32 \<le> length b"
  then show "\<exists>r. strncmp b nm 11 = Some r" using strncmp_zero_iff[of 11 b nm] assms by auto
  show "strncmp (take 32 b) nm 11 = strncmp b nm 11" using b by (intro strncmp_take) simp_all
qed

lemma strncmp_entry:
  assumes "11 < length nm \<or> 0 \<in> set nm" and "32 \<le> length e"
  shows "strncmp e nm FAT16_FILENAME_SIZE = Some 0 \<longleftrightarrow> entry_key e = entry_key nm"
  using strncmp_zero_iff[of 11 e nm] assms by (auto simp: FAT16_FILENAME_SIZE_def entry_key_def)

lemma entry_key_Nil: "entry_key (0 # b) = []"
  by (simp add: entry_key_def)

section \<open>A directory as a list of entries\<close>

definition slots :: "bytes \<Rightarrow> bytes list" where
  "slots b = map (\<lambda>k. take 32 (drop (32 * k) b)) [0..<length b div 32]"

definition entries :: "fat \<Rightarrow> nat list \<Rightarrow> bytes list" where
  "entries s cs = concat (map (\<lambda>c. slots (cluster_data s c)) cs)"

lemma length_slots [simp]: "length (slots b) = length b div 32"
  by (simp add: slots_def)

lemma nth_slots: "k < length b div 32 \<Longrightarrow> slots b ! k = take 32 (drop (32 * k) b)"
  by (simp add: slots_def)

lemma slot_fits: "k < length (b :: bytes) div 32 \<Longrightarrow> 32 * k + 32 \<le> length b"
proof -
  assume "k < length b div 32"
  then have "32 * Suc k \<le> 32 * (length b div 32)" by simp
  also have "\<dots> \<le> length b" by simp
  finally show ?thesis by simp
qed

lemma length_slot: "e \<in> set (slots b) \<Longrightarrow> length e = 32"
  using slot_fits[of _ b] by (fastforce simp: slots_def)

lemma length_entry: "e \<in> set (entries s cs) \<Longrightarrow> length e = 32"
  by (auto simp: entries_def length_slot)

lemma entries_simps [simp]:
  "entries s [] = []" "entries s (c # cs) = slots (cluster_data s c) @ entries s cs"
  "entries s (cs @ ds) = entries s cs @ entries s ds"
  by (simp_all add: entries_def)

lemma slots_put_entry:
  assumes "length e = 32" and k: "k < length b div 32"
  shows "slots (put_entry k e b) = (slots b)[k := e]"
proof (rule nth_equalityI)
  have fit: "32 * k + 32 \<le> length b" using slot_fits[OF k] .
  then have len: "length (put_entry k e b) = length b" using assms(1) by (simp add: put_entry_def)
  then show "length (slots (put_entry k e b)) = length ((slots b)[k := e])" by simp
  fix j assume "j < length (slots (put_entry k e b))"
  then have j: "j < length b div 32" by (simp add: len)
  have "32 * j + 32 \<le> 32 * k \<or> j = k \<or> 32 * k + 32 \<le> 32 * j" by auto
  then show "slots (put_entry k e b) ! j = (slots b)[k := e] ! j"
    using j fit assms(1) by (auto simp: nth_slots len nth_list_update put_entry_def drop_take min_def)
qed

lemma length_put_entry: "length e = 32 \<Longrightarrow> k < length b div 32 \<Longrightarrow> length (put_entry k e b) = length b"
  using slot_fits[of k b] by (simp add: put_entry_def)

section \<open>Scanning the clusters\<close>

lemma find_append_none: "List.find P xs = None \<Longrightarrow> List.find P (xs @ ys) = List.find P ys"
  by (induction xs) auto

lemma scan_entries_find:
  assumes "entry_test cmp" and "32 * (k + n) \<le> length b"
  shows "scan_entries cmp k n b = Some (List.find (\<lambda>j. cmp (take 32 (drop (32 * j) b)) = Some 0) [k..<k + n])"
  using assms(2)
proof (induction n arbitrary: k)
  case (Suc n)
  have "32 \<le> length (drop (32 * k) b)" using Suc.prems by simp
  then obtain r where r: "cmp (drop (32 * k) b) = Some r" "cmp (take 32 (drop (32 * k) b)) = Some r"
    using assms(1) unfolding entry_test_def by metis
  have u: "[k..<k + Suc n] = k # [Suc k..<Suc k + n]" by (simp add: upt_conv_Cons)
  show ?case using r Suc.IH[of "Suc k"] Suc.prems unfolding u by (auto simp del: upt_Suc)
qed simp

lemma scan_slots_none:
  assumes "entry_test cmp" and "n = length b div 32" and "\<And>e. e \<in> set (slots b) \<Longrightarrow> cmp e \<noteq> Some 0"
  shows "scan_entries cmp 0 n b = Some None"
proof -
  have "List.find (\<lambda>j. cmp (take 32 (drop (32 * j) b)) = Some 0) [0..<0 + n] = None"
    using assms(2,3) by (auto simp: find_None_iff slots_def)
  then show ?thesis using scan_entries_find[OF assms(1), of 0 n b] assms(2) by simp
qed

lemma scan_slots_first:
  assumes "entry_test cmp" and "n = length b div 32" and sl: "slots b = xs @ e # ys"
    and "\<And>x. x \<in> set xs \<Longrightarrow> cmp x \<noteq> Some 0" and "cmp e = Some 0"
  shows "scan_entries cmp 0 n b = Some (Some (length xs))"
proof -
  have n: "n = length xs + Suc (length ys)" using arg_cong[OF sl, of length] assms(2) by simp
  have nth: "take 32 (drop (32 * j) b) = (xs @ e # ys) ! j" if "j < n" for j
    using that assms(2) nth_slots[of j b] by (simp add: sl)
  let ?P = "\<lambda>j. cmp (take 32 (drop (32 * j) b)) = Some 0"
  have "[0..<n] = [0..<length xs] @ length xs # [Suc (length xs)..<n]"
    using upt_add_eq_append[of 0 "length xs" "Suc (length ys)"] upt_conv_Cons[of "length xs" n] n by simp
  moreover have "List.find ?P [0..<length xs] = None"
    using assms(4) n by (auto simp: find_None_iff nth nth_append)
  moreover have "?P (length xs)" using assms(5) n nth[of "length xs"] by simp
  ultimately have "List.find ?P [0..<n] = Some (length xs)" by (simp add: find_append_none)
  then show ?thesis using scan_entries_find[OF assms(1), of 0 n b] assms(2) by simp
qed

lemma is_chain_small:
  "is_chain t cs \<Longrightarrow> hd cs < 65536 \<Longrightarrow> c \<in> set cs \<Longrightarrow> c < 65536"
proof (induction t cs rule: is_chain.induct)
  case (3 t c d cs)
  then have "d < 65536" using unat_u16_lt[of "t ! c"] by simp
  with 3 show ?case by auto
qed auto

lemma dir_walk_skip:
  assumes ok: "fat_ok s t" and ch: "is_chain t cs" "hd cs < 65536" and "i \<le> m" and m: "m \<le> length cs"
    and "length dir = cluster_bytes s"
    and "\<And>j. i \<le> j \<Longrightarrow> j < m \<Longrightarrow> body (of_nat (cs ! j)) (cluster_data s (cs ! j)) s = Some (None, s)"
  obtains dir' where "length dir' = cluster_bytes s"
    and "dir_walk (hd cs) i dir body err s = dir_walk (hd cs) m dir' body err s"
proof -
  have "\<exists>dir'. length dir' = cluster_bytes s \<and>
      dir_walk (hd cs) i dir body err s = dir_walk (hd cs) m dir' body err s"
    using assms(4,6,7)
  proof (induction "m - i" arbitrary: i dir)
    case (Suc n)
    then have i: "i < length cs" "i < m" using m by simp_all
    have "cs ! i < 65536" using is_chain_small[OF ch] i(1) by simp
    then have rd: "fat_read_data_cluster (of_nat (cs ! i)) dir s = Some (0, cluster_data s (cs ! i))"
      using fat_read_cluster[OF ok] Suc.prems(2) by simp
    have "dir_walk (hd cs) i dir body err s = dir_walk (hd cs) (Suc i) (cluster_data s (cs ! i)) body err s"
      using get_ith_chain[OF fat_okD(1)[OF ok] ch(1), of i] i rd Suc.prems(3)[of i]
      by (subst dir_walk.simps) simp
    moreover have "length (cluster_data s (cs ! i)) = cluster_bytes s" using length_cluster_data[OF ok] .
    ultimately show ?case using Suc.hyps(1)[of "Suc i" "cluster_data s (cs ! i)"] Suc.hyps(2) Suc.prems by auto
  qed auto
  then show ?thesis using that by blast
qed

lemma dir_walk_miss:
  assumes ok: "fat_ok s t" and ch: "is_chain t cs" "hd cs < 65536" and "length dir = cluster_bytes s"
    and "\<And>c. c \<in> set cs \<Longrightarrow> body (of_nat c) (cluster_data s c) s = Some (None, s)"
  shows "dir_walk (hd cs) 0 dir body err s = Some (None, s)"
proof (rule dir_walk_skip[OF ok ch, of 0 "length cs" dir body err])
  fix dir' assume "dir_walk (hd cs) 0 dir body err s = dir_walk (hd cs) (length cs) dir' body err s"
  then show ?thesis
    using get_ith_chain[OF fat_okD(1)[OF ok] ch(1), of "length cs"] by (simp add: dir_walk.simps)
qed (use assms in simp_all)

lemma dir_walk_hit:
  assumes ok: "fat_ok s t" and ch: "is_chain t (us @ c # vs)" "hd (us @ c # vs) < 65536"
    and "length dir = cluster_bytes s"
    and "\<And>u. u \<in> set us \<Longrightarrow> body (of_nat u) (cluster_data s u) s = Some (None, s)"
    and "body (of_nat c) (cluster_data s c) s = Some (Some v, s')"
  shows "dir_walk (hd (us @ c # vs)) 0 dir body err s = Some (Some v, s')"
proof (rule dir_walk_skip[OF ok ch, of 0 "length us" dir body err])
  fix dir' :: bytes assume l: "length dir' = cluster_bytes s"
    and eq: "dir_walk (hd (us @ c # vs)) 0 dir body err s = dir_walk (hd (us @ c # vs)) (length us) dir' body err s"
  have "c < 65536" using is_chain_small[OF ch] by simp
  then have rd: "fat_read_data_cluster (of_nat c) dir' s = Some (0, cluster_data s c)"
    using fat_read_cluster[OF ok] l by simp
  show ?thesis
    unfolding eq using get_ith_chain[OF fat_okD(1)[OF ok] ch(1), of "length us"] rd assms(6)
    by (subst dir_walk.simps) simp
qed (use assms(4,5) in \<open>simp_all add: nth_append\<close>)

lemma entries_per_cluster_slots: "fat_ok s t \<Longrightarrow> entries_per_cluster s = length (cluster_data s c) div 32"
  using fat_okD(2)[of s t] length_cluster_data[of s t c]
  by (simp add: entries_per_cluster_def cluster_bytes_def)

text \<open>An entry of a directory lies in one of its clusters.\<close>

lemma entries_split:
  assumes "entries s cs = xs @ e # ys"
  obtains us c vs as bs where "cs = us @ c # vs" and "slots (cluster_data s c) = as @ e # bs"
    and "xs = entries s us @ as" and "ys = bs @ entries s vs"
proof -
  have "\<exists>us c vs as bs. cs = us @ c # vs \<and> slots (cluster_data s c) = as @ e # bs \<and>
      xs = entries s us @ as \<and> ys = bs @ entries s vs"
    using assms
  proof (induction cs arbitrary: xs)
    case (Cons c cs)
    then have eq: "slots (cluster_data s c) @ entries s cs = xs @ e # ys" by simp
    show ?case
    proof (cases "length xs < length (slots (cluster_data s c))")
      case True
      have "slots (cluster_data s c) = xs @ take (length (slots (cluster_data s c)) - length xs) (e # ys)"
        using arg_cong[OF eq, of "take (length (slots (cluster_data s c)))"] True
        by (simp del: length_slots)
      then obtain bs where bs: "slots (cluster_data s c) = xs @ e # bs"
        using True by (cases "length (slots (cluster_data s c)) - length xs") (auto simp del: length_slots)
      with eq have "ys = bs @ entries s cs" by simp
      with bs show ?thesis by (intro exI[of _ "[]"]) auto
    next
      case False
      then obtain zs where "xs = slots (cluster_data s c) @ zs" "entries s cs = zs @ e # ys"
        using eq by (auto simp: append_eq_append_conv2 Cons_eq_append_conv simp del: length_slots)
      then show ?thesis using Cons.IH[of zs] by (metis append_Cons append_assoc entries_simps(2))
    qed
  qed simp
  then show ?thesis using that by blast
qed

section \<open>Looking up an entry\<close>

lemma find_first: "List.find P xs = Some e \<Longrightarrow> \<exists>as bs. xs = as @ e # bs \<and> (\<forall>a \<in> set as. \<not> P a) \<and> P e"
proof (induction xs)
  case (Cons x xs)
  show ?case
  proof (cases "P x")
    case False
    with Cons obtain as bs where "xs = as @ e # bs" "\<forall>a \<in> set as. \<not> P a" "P e" by auto
    with False show ?thesis by (intro exI[of _ "x # as"] exI[of _ bs]) auto
  next
    case True
    with Cons show ?thesis by (intro exI[of _ "[]"] exI[of _ xs]) auto
  qed
qed simp

definition dir_chain :: "u16 list \<Rightarrow> FAT16_DirEntry \<Rightarrow> nat list \<Rightarrow> bool" where
  "dir_chain t d cs \<longleftrightarrow> is_chain t cs \<and> unat (start_cluster d) = hd cs"

lemma dir_chainD:
  assumes "dir_chain t d cs"
  shows "is_chain t cs" "hd cs < 65536" "unat (start_cluster d) = hd cs"
  using assms unat_u16_lt[of "start_cluster d"] by (simp_all add: dir_chain_def)

text \<open>Where the first match lies: the scan of its cluster stops there, the scans before it find nothing.\<close>

lemma first_match_scan:
  assumes ok: "fat_ok s t" and test: "entry_test cmp"
    and sp: "entries s cs = xs @ e # ys" and no: "\<And>x. x \<in> set xs \<Longrightarrow> cmp x \<noteq> Some 0" and hit: "cmp e = Some 0"
  obtains us c vs as bs where "cs = us @ c # vs" and "slots (cluster_data s c) = as @ e # bs"
    and "xs = entries s us @ as" and "ys = bs @ entries s vs"
    and "\<And>u. u \<in> set us \<Longrightarrow> scan_entries cmp 0 (entries_per_cluster s) (cluster_data s u) = Some None"
    and "scan_entries cmp 0 (entries_per_cluster s) (cluster_data s c) = Some (Some (length as))"
    and "nth_entry (length as) (cluster_data s c) = dirent_of e"
proof -
  obtain us c vs as bs where S: "cs = us @ c # vs" "slots (cluster_data s c) = as @ e # bs"
    "xs = entries s us @ as" "ys = bs @ entries s vs" by (rule entries_split[OF sp])
  note epc = entries_per_cluster_slots[OF ok]
  have k: "length as < length (cluster_data s c) div 32" using arg_cong[OF S(2), of length] by simp
  show ?thesis
  proof (rule that[OF S])
    show "scan_entries cmp 0 (entries_per_cluster s) (cluster_data s u) = Some None" if "u \<in> set us" for u
      using that no by (intro scan_slots_none[OF test epc[of u]]) (auto simp: S(3) entries_def)
    show "scan_entries cmp 0 (entries_per_cluster s) (cluster_data s c) = Some (Some (length as))"
      using no hit by (intro scan_slots_first[OF test epc[of c] S(2)]) (simp_all add: S(3))
    show "nth_entry (length as) (cluster_data s c) = dirent_of e"
      using nth_slots[OF k] by (simp add: nth_entry_def S(2))
  qed
qed

lemma no_match_scan:
  assumes "fat_ok s t" and "entry_test cmp" and "\<And>x. x \<in> set (entries s cs) \<Longrightarrow> cmp x \<noteq> Some 0" and "c \<in> set cs"
  shows "scan_entries cmp 0 (entries_per_cluster s) (cluster_data s c) = Some None"
  using assms(3,4) by (intro scan_slots_none[OF assms(2) entries_per_cluster_slots[OF assms(1)]])
    (auto simp: entries_def)

text \<open>The body of \<open>fat_find_dir_entry\<close>.\<close>

definition find_body ::
    "(bytes \<Rightarrow> int option) \<Rightarrow> u32 \<Rightarrow> bytes \<Rightarrow> fat \<Rightarrow> (FAT16_DirEntry option option \<times> fat) option" where
  "find_body cmp cluster_num dir s = do {
     k \<leftarrow> scan_entries cmp 0 (entries_per_cluster s) dir;
     Some (map_option (\<lambda>k. Some (nth_entry k dir)) k, s)
   }"

lemma find_walk_miss:
  assumes ok: "fat_ok s t" and ch: "is_chain t cs" "hd cs < 65536" and test: "entry_test cmp"
    and "length dir = cluster_bytes s" and "\<And>x. x \<in> set (entries s cs) \<Longrightarrow> cmp x \<noteq> Some 0"
  shows "dir_walk (hd cs) 0 dir (find_body cmp) err s = Some (None, s)"
  using no_match_scan[OF ok test assms(6)] by (intro dir_walk_miss[OF ok ch assms(5)]) (simp add: find_body_def)

lemma find_walk_hit:
  assumes ok: "fat_ok s t" and ch: "is_chain t cs" "hd cs < 65536" and test: "entry_test cmp"
    and "length dir = cluster_bytes s"
    and sp: "entries s cs = xs @ e # ys" and no: "\<And>x. x \<in> set xs \<Longrightarrow> cmp x \<noteq> Some 0" and "cmp e = Some 0"
  shows "dir_walk (hd cs) 0 dir (find_body cmp) err s = Some (Some (Some (dirent_of e)), s)"
proof -
  obtain us c vs as bs where S: "cs = us @ c # vs" "slots (cluster_data s c) = as @ e # bs"
    "xs = entries s us @ as" "ys = bs @ entries s vs"
    "\<And>u. u \<in> set us \<Longrightarrow> scan_entries cmp 0 (entries_per_cluster s) (cluster_data s u) = Some None"
    "scan_entries cmp 0 (entries_per_cluster s) (cluster_data s c) = Some (Some (length as))"
    "nth_entry (length as) (cluster_data s c) = dirent_of e"
    using first_match_scan[OF ok test sp no assms(8)] by metis
  show ?thesis
    unfolding S(1) by (rule dir_walk_hit[OF ok ch[unfolded S(1)] assms(5)]) (simp_all add: find_body_def S)
qed

lemma dir_buffer_ok: "fat_ok s t \<Longrightarrow> dir_buffer s = Some (replicate (cluster_bytes s) 0)"
  by (simp add: dir_buffer_def fat_okD)

lemma fat_find_dir_entry_walk:
  assumes "fat_ok s t"
  shows "fat_find_dir_entry nm d s = do {
    (x, s) \<leftarrow> dir_walk (unat (start_cluster d)) 0 (replicate (cluster_bytes s) 0)
      (find_body (\<lambda>p. strncmp p nm FAT16_FILENAME_SIZE)) None s;
    Some (case x of None \<Rightarrow> None | Some v \<Rightarrow> v) }"
  using fat_okD(1)[OF assms] dir_buffer_ok[OF assms] by (simp add: fat_find_dir_entry_def find_body_def[abs_def])

lemma find_dir_entry_eq:
  assumes ok: "fat_ok s t" and d: "dir_chain t d cs" and nm: "11 < length nm \<or> 0 \<in> set nm"
  shows "fat_find_dir_entry nm d s =
    Some (map_option dirent_of (List.find (\<lambda>e. entry_key e = entry_key nm) (entries s cs)))"
proof -
  let ?cmp = "\<lambda>p. strncmp p nm FAT16_FILENAME_SIZE"
  note D = dir_chainD[OF d] and buf = length_replicate[of "cluster_bytes s" "0 :: u8"]
  note walk = fat_find_dir_entry_walk[OF ok, of nm d, unfolded D(3)] and test = entry_test_strncmp[OF nm]
  have key: "?cmp e = Some 0 \<longleftrightarrow> entry_key e = entry_key nm" if "e \<in> set (entries s cs)" for e
    using strncmp_entry[OF nm, of e] length_entry[OF that] by simp
  show ?thesis
  proof (cases "List.find (\<lambda>e. entry_key e = entry_key nm) (entries s cs)")
    case None
    then have "?cmp e \<noteq> Some 0" if "e \<in> set (entries s cs)" for e using that key by (auto simp: find_None_iff)
    from find_walk_miss[OF ok D(1,2) test buf this] None show ?thesis by (simp add: walk)
  next
    case (Some e)
    from find_first[OF this] obtain as bs where e: "entries s cs = as @ e # bs"
      "\<And>a. a \<in> set as \<Longrightarrow> entry_key a \<noteq> entry_key nm" "entry_key e = entry_key nm" by blast
    then have "?cmp a \<noteq> Some 0" if "a \<in> set as" for a using that key[of a] by auto
    moreover have "?cmp e = Some 0" using key[of e] e by simp
    ultimately have "dir_walk (hd cs) 0 (replicate (cluster_bytes s) 0) (find_body ?cmp) None s =
        Some (Some (Some (dirent_of e)), s)"
      by (intro find_walk_hit[OF ok D(1,2) test buf e(1)])
    then show ?thesis using Some by (simp add: walk)
  qed
qed

section \<open>Replacing an entry\<close>

text \<open>
  The body that \<open>fat_add_dir_entry\<close> and \<open>fat_update_dir_entry\<close> have in common: the first entry that passes
  the test is overwritten and its cluster written back.
\<close>

definition replace_body :: "(bytes \<Rightarrow> int option) \<Rightarrow> bytes \<Rightarrow> u32 \<Rightarrow> bytes \<Rightarrow> fat \<Rightarrow> (bool option \<times> fat) option" where
  "replace_body cmp e cluster_num dir s = do {
     k \<leftarrow> scan_entries cmp 0 (entries_per_cluster s) dir;
     (case k of
        None \<Rightarrow> Some (None, s)
      | Some k \<Rightarrow> do {
          (r, s) \<leftarrow> fat_write_data_cluster cluster_num (put_entry k e dir) s;
          Some (Some (r = 0), s)
        })
   }"

lemma replace_walk_miss:
  assumes ok: "fat_ok s t" and ch: "is_chain t cs" "hd cs < 65536" and test: "entry_test cmp"
    and "length dir = cluster_bytes s" and "\<And>x. x \<in> set (entries s cs) \<Longrightarrow> cmp x \<noteq> Some 0"
  shows "dir_walk (hd cs) 0 dir (replace_body cmp e) err s = Some (None, s)"
  using no_match_scan[OF ok test assms(6)] by (intro dir_walk_miss[OF ok ch assms(5)]) (simp add: replace_body_def)

lemma fat_synced_clusters:
  assumes "fat_ok s t" and "fat_synced s"
    and "\<And>i. i < unat (root_dir_start (fat16_fs s)) \<Longrightarrow> sectors d i = sectors (disk s) i"
  shows "fat_synced (s\<lparr>disk := d\<rparr>)"
  using assms fat_ok_fat_area[OF assms(1)] by (simp add: fat_synced_def)

text \<open>Writing an entry back into its cluster.\<close>

lemma write_slot:
  assumes ok: "fat_ok s t" and ch: "is_chain t (us @ c # vs)" "hd (us @ c # vs) < 65536"
    and sl: "slots (cluster_data s c) = as @ old # bs" and e: "length e = 32"
  obtains d where "fat_write_data_cluster (of_nat c) (put_entry (length as) e (cluster_data s c)) s = Some (0, s\<lparr>disk := d\<rparr>)"
    and "fat_ok (s\<lparr>disk := d\<rparr>) t" and "fat_synced s \<Longrightarrow> fat_synced (s\<lparr>disk := d\<rparr>)"
    and "entries (s\<lparr>disk := d\<rparr>) (us @ c # vs) = entries s us @ as @ e # bs @ entries s vs"
proof -
  have k: "length as < length (cluster_data s c) div 32" using arg_cong[OF sl, of length] by simp
  have small: "u < 65536" if "u \<in> set (us @ c # vs)" for u using is_chain_small[OF ch that] .
  let ?b = "put_entry (length as) e (cluster_data s c)"
  have lb: "length ?b = cluster_bytes s" using length_put_entry[OF e k] length_cluster_data[OF ok] by simp
  obtain d where d: "fat_write_data_cluster (of_nat c) ?b s = Some (0, s\<lparr>disk := d\<rparr>)"
    "fat_ok (s\<lparr>disk := d\<rparr>) t" "cluster_data (s\<lparr>disk := d\<rparr>) c = ?b"
    "\<And>u. u < 65536 \<Longrightarrow> u \<noteq> c \<Longrightarrow> cluster_data (s\<lparr>disk := d\<rparr>) u = cluster_data s u"
    "\<And>i. i < unat (root_dir_start (fat16_fs s)) \<Longrightarrow> sectors d i = sectors (disk s) i"
    using fat_write_cluster[OF ok small lb, of c] by auto
  have "entries (s\<lparr>disk := d\<rparr>) us = entries s us" "entries (s\<lparr>disk := d\<rparr>) vs = entries s vs"
    unfolding entries_def using is_chain_distinct[OF ch(1)] small
    by (intro arg_cong[of _ _ concat] map_cong refl arg_cong[of _ _ slots] d(4); force)+
  moreover have "slots ?b = as @ e # bs" using slots_put_entry[OF e k] by (simp add: sl list_update_append)
  ultimately show ?thesis using d fat_synced_clusters[OF ok _ d(5)] by (intro that[of d]) auto
qed

lemma replace_walk_hit:
  assumes ok: "fat_ok s t" and ch: "is_chain t cs" "hd cs < 65536" and test: "entry_test cmp"
    and "length dir = cluster_bytes s" and e: "length e = 32"
    and sp: "entries s cs = xs @ old # ys" and no: "\<And>x. x \<in> set xs \<Longrightarrow> cmp x \<noteq> Some 0" and "cmp old = Some 0"
  obtains d where "dir_walk (hd cs) 0 dir (replace_body cmp e) err s = Some (Some True, s\<lparr>disk := d\<rparr>)"
    and "fat_ok (s\<lparr>disk := d\<rparr>) t" and "fat_synced s \<Longrightarrow> fat_synced (s\<lparr>disk := d\<rparr>)"
    and "entries (s\<lparr>disk := d\<rparr>) cs = xs @ e # ys"
proof -
  obtain us c vs as bs where S: "cs = us @ c # vs" "slots (cluster_data s c) = as @ old # bs"
    "xs = entries s us @ as" "ys = bs @ entries s vs"
    "\<And>u. u \<in> set us \<Longrightarrow> scan_entries cmp 0 (entries_per_cluster s) (cluster_data s u) = Some None"
    "scan_entries cmp 0 (entries_per_cluster s) (cluster_data s c) = Some (Some (length as))"
    using first_match_scan[OF ok test sp no assms(9)] by metis
  obtain d where d: "fat_write_data_cluster (of_nat c) (put_entry (length as) e (cluster_data s c)) s = Some (0, s\<lparr>disk := d\<rparr>)"
    "fat_ok (s\<lparr>disk := d\<rparr>) t" "fat_synced s \<Longrightarrow> fat_synced (s\<lparr>disk := d\<rparr>)"
    "entries (s\<lparr>disk := d\<rparr>) (us @ c # vs) = entries s us @ as @ e # bs @ entries s vs"
    using write_slot[OF ok ch[unfolded S(1)] S(2) e] by blast
  have "dir_walk (hd cs) 0 dir (replace_body cmp e) err s = Some (Some True, s\<lparr>disk := d\<rparr>)"
    unfolding S(1) by (rule dir_walk_hit[OF ok ch[unfolded S(1)] assms(5)]) (simp_all add: replace_body_def S d(1))
  with d S show ?thesis by (intro that[of d]) simp_all
qed

section \<open>Adding an entry\<close>

abbreviation named :: "bytes \<Rightarrow> bytes \<Rightarrow> bool" where
  "named nm e \<equiv> entry_key e = entry_key nm"

abbreviation free_test :: "bytes \<Rightarrow> int option" where
  "free_test p \<equiv> strncmp p [0] FAT16_FILENAME_SIZE"

lemma free_test: "entry_test free_test" "32 \<le> length e \<Longrightarrow> free_test e = Some 0 \<longleftrightarrow> entry_key e = []"
  using entry_test_strncmp[of "[0]"] strncmp_entry[of "[0]" e] by (simp_all add: entry_key_Nil)

lemma free_test_entry: "e \<in> set (entries s cs) \<Longrightarrow> free_test e = Some 0 \<longleftrightarrow> entry_key e = []"
  using free_test(2)[of e] length_entry[of e s cs] by simp

lemma fat_add_dir_entry_walk:
  assumes "fat_ok s t"
  shows "fat_add_dir_entry d e s = do {
    let dir = replicate (cluster_bytes s) 0;
    (x, s) \<leftarrow> dir_walk (unat (start_cluster d)) 0 dir
      (replace_body free_test (dirent_bytes e)) False s;
    (case x of
       Some v \<Rightarrow> Some (v, s)
     | None \<Rightarrow> do {
         new_fat_index \<leftarrow> fat_find_free s;
         if new_fat_index = - 1 then Some (False, s)
         else do {
           s' \<leftarrow> fat_update_chain (unat (start_cluster d)) (nat new_fat_index) s;
           (r, dir) \<leftarrow> fat_read_data_cluster (of_int new_fat_index) dir s';
           if r \<noteq> 0 then Some (False, s')
           else if length dir < 32 then None
           else do {
             (r, s) \<leftarrow> fat_write_data_cluster (of_int new_fat_index) (put_entry 0 (dirent_bytes e) dir) s';
             Some (r = 0, s)
           }
         }
       }) }"
  using fat_okD(1)[OF assms] dir_buffer_ok[OF assms]
  by (simp add: fat_add_dir_entry_def replace_body_def[abs_def] Let_def)

lemma add_dir_entry_reuses:
  assumes ok: "fat_ok s t" and d: "dir_chain t d cs" and nm: "length (name e) = 11"
    and sp: "entries s cs = as @ old # bs" and no: "\<And>x. x \<in> set as \<Longrightarrow> entry_key x \<noteq> []" and "entry_key old = []"
  shows "\<exists>dk. fat_add_dir_entry d e s = Some (True, s\<lparr>disk := dk\<rparr>) \<and> fat_ok (s\<lparr>disk := dk\<rparr>) t \<and>
    (fat_synced s \<longrightarrow> fat_synced (s\<lparr>disk := dk\<rparr>)) \<and> entries (s\<lparr>disk := dk\<rparr>) cs = as @ dirent_bytes e # bs"
proof -
  note D = dir_chainD[OF d] and buf = length_replicate[of "cluster_bytes s" "0 :: u8"]
  have ft: "free_test x = Some 0 \<longleftrightarrow> entry_key x = []" if "x \<in> set (as @ old # bs)" for x
    using free_test_entry[of x s cs] that sp by simp
  then have "free_test x \<noteq> Some 0" if "x \<in> set as" for x using no that by simp
  moreover have "free_test old = Some 0" using ft assms(6) by simp
  ultimately obtain dk where "dir_walk (hd cs) 0 (replicate (cluster_bytes s) 0)
      (replace_body free_test (dirent_bytes e)) False s = Some (Some True, s\<lparr>disk := dk\<rparr>)"
    "fat_ok (s\<lparr>disk := dk\<rparr>) t" "fat_synced s \<Longrightarrow> fat_synced (s\<lparr>disk := dk\<rparr>)"
    "entries (s\<lparr>disk := dk\<rparr>) cs = as @ dirent_bytes e # bs"
    using replace_walk_hit[OF ok D(1,2) free_test(1) buf length_dirent_bytes[OF nm] sp] by metis
  then show ?thesis by (auto simp: fat_add_dir_entry_walk[OF ok] D(3))
qed

lemma slots_zero: "slots (replicate n 0) = replicate (n div 32) (replicate 32 0)"
proof (rule nth_equalityI)
  fix k assume "k < length (slots (replicate n 0))"
  then have k: "k < n div 32" by simp
  then have "32 \<le> n - 32 * k" using slot_fits[of k "replicate n 0"] by simp
  then show "slots (replicate n 0) ! k = replicate (n div 32) (replicate 32 0) ! k"
    using k by (simp add: nth_slots min_def)
qed simp

lemma fat_find_free_is:
  assumes ok: "fat_ok s t" and k: "k < length t" "t ! k = 0" "\<And>j. j < k \<Longrightarrow> t ! j \<noteq> 0"
  shows "fat_find_free s = Some (int k)"
proof -
  obtain r where r: "fat_find_free s = Some r" "if r = - 1 then \<forall>j < length t. t ! j \<noteq> 0
    else \<exists>k < length t. r = int k \<and> t ! k = 0 \<and> (\<forall>j < k. t ! j \<noteq> 0)" using fat_find_free_lowest[OF ok] by blast
  then obtain m where "r = int m" "t ! m = 0" "\<forall>j < m. t ! j \<noteq> 0" using k by (auto split: if_splits)
  then show ?thesis using r(1) k(2,3) by (metis linorder_neqE_nat)
qed

lemma cluster_has_entries:
  assumes ok: "fat_ok s t"
  shows "0 < cluster_bytes s div 32"
proof -
  have "512 * 1 \<le> cluster_bytes s"
    unfolding cluster_bytes_def fat_okD(2)[OF ok] using fat_okD(3)[OF ok]
    by (intro mult_le_mono) (simp_all add: word_less_nat_alt)
  then show ?thesis using div_le_mono[of 512 "cluster_bytes s" 32] by simp
qed

text \<open>A fresh directory cluster with its first entry.\<close>

lemma first_entry_cluster:
  assumes ok: "fat_ok s t" and nm: "length (name e) = 11"
  defines "b \<equiv> put_entry 0 (dirent_bytes e) (replicate (cluster_bytes s) 0)"
  shows "length b = cluster_bytes s"
    and "slots b = dirent_bytes e # replicate (cluster_bytes s div 32 - 1) (replicate 32 0)"
  unfolding b_def
  using length_put_entry[OF length_dirent_bytes[OF nm], of 0 "replicate (cluster_bytes s) 0"]
    slots_put_entry[OF length_dirent_bytes[OF nm], of 0 "replicate (cluster_bytes s) 0"] cluster_has_entries[OF ok]
  by (simp, cases "cluster_bytes s div 32") (simp_all add: slots_zero)

text \<open>A full directory gets a cluster more, with the entry at its start.\<close>

lemma add_dir_entry_extends:
  assumes ok: "fat_ok s t" and d: "dir_chain t d cs" and nm: "length (name e) = 11"
    and full: "\<And>x. x \<in> set (entries s cs) \<Longrightarrow> entry_key x \<noteq> []"
    and k: "k < length t" "t ! k = 0" "\<And>j. j < k \<Longrightarrow> t ! j \<noteq> 0" "k \<noteq> 0" "k < 0xFFF8"
  defines "t' \<equiv> t[last cs := of_nat k, k := FAT16_CLUSTER_CHAIN_END]"
  shows "\<exists>s' n. fat_add_dir_entry d e s = Some (True, s') \<and> fat_ok s' t' \<and> is_chain t' (cs @ [k]) \<and>
    (fat_synced s \<longrightarrow> fat_synced s') \<and>
    entries s' (cs @ [k]) = entries s cs @ dirent_bytes e # replicate n (replicate 32 0)"
proof -
  note D = dir_chainD[OF d] and buf = length_replicate[of "cluster_bytes s" "0 :: u8"]
  have walk: "dir_walk (hd cs) 0 (replicate (cluster_bytes s) 0) (replace_body free_test (dirent_bytes e)) False s =
      Some (None, s)"
    using full free_test_entry by (intro replace_walk_miss[OF ok D(1,2) free_test(1) buf]) auto
  have ff: "fat_find_free s = Some (int k)" using fat_find_free_is[OF ok k(1,2)] k(3) by blast
  obtain s1 where s1: "fat_update_chain (hd cs) k s = Some s1"
    "fat_ok s1 t'" "fat_synced s \<longrightarrow> fat_synced s1"
    "cluster_data s1 k = replicate (cluster_bytes s) 0"
    "\<forall>c. c < 65536 \<and> c \<noteq> k \<longrightarrow> cluster_data s1 c = cluster_data s c"
    using fat_update_chain_chain[OF ok D(1) k(1,2,4,5)] unfolding t'_def by blast
  have ch: "is_chain t' (cs @ [k])" unfolding t'_def using is_chain_append_free[OF D(1) k(1,2,4,5)] .
  have kk: "k < 65536" using k(5) by simp
  have cb: "cluster_bytes s1 = cluster_bytes s" using length_cluster_data[OF s1(2), of k] s1(4) by simp
  let ?b = "put_entry 0 (dirent_bytes e) (replicate (cluster_bytes s) 0)"
  note big = cluster_has_entries[OF ok] and first = first_entry_cluster[OF ok nm]
  have lb: "length ?b = cluster_bytes s1" using first(1) cb by simp
  obtain dk where dk: "fat_write_data_cluster (of_nat k) ?b s1 = Some (0, s1\<lparr>disk := dk\<rparr>)"
    "fat_ok (s1\<lparr>disk := dk\<rparr>) t'" "cluster_data (s1\<lparr>disk := dk\<rparr>) k = ?b"
    "\<And>u. u < 65536 \<Longrightarrow> u \<noteq> k \<Longrightarrow> cluster_data (s1\<lparr>disk := dk\<rparr>) u = cluster_data s1 u"
    "\<And>i. i < unat (root_dir_start (fat16_fs s1)) \<Longrightarrow> sectors dk i = sectors (disk s1) i"
    using fat_write_cluster[OF s1(2) kk lb] by metis
  have "fat_read_data_cluster (of_nat k) (replicate (cluster_bytes s) 0) s1 = Some (0, replicate (cluster_bytes s) 0)"
    using fat_read_cluster[OF s1(2) kk] cb s1(4) by simp
  moreover have "\<not> cluster_bytes s < 32" using big by (simp add: div_greater_zero_iff)
  ultimately have add: "fat_add_dir_entry d e s = Some (True, s1\<lparr>disk := dk\<rparr>)"
    using walk ff s1(1) dk(1) by (simp add: fat_add_dir_entry_walk[OF ok] D(3))
  have nk: "k \<notin> set cs" using is_chain_distinct[OF ch] by simp
  have "entries (s1\<lparr>disk := dk\<rparr>) cs = entries s cs"
    unfolding entries_def using nk is_chain_small[OF D(1,2)] dk(4) s1(5)
    by (intro arg_cong[of _ _ concat] map_cong refl arg_cong[of _ _ slots]) auto
  then show ?thesis
    using first(2) add dk(2,3) ch s1(3) fat_synced_clusters[OF s1(2) _ dk(5)]
    by (intro exI[of _ "s1\<lparr>disk := dk\<rparr>"] exI[of _ "cluster_bytes s div 32 - 1"]) auto
qed

section \<open>Properties\<close>

lemma find_named_other:
  "\<not> named nm x \<Longrightarrow> \<not> named nm y \<Longrightarrow>
    List.find (named nm) (as @ x # bs) = List.find (named nm) (as @ y # bs)"
  by (induction as) auto

lemma find_named_new:
  "(\<And>a. a \<in> set as \<Longrightarrow> \<not> named nm a) \<Longrightarrow> named nm e \<Longrightarrow> List.find (named nm) (as @ e # bs) = Some e"
  by (simp add: find_append_none find_None_iff)

lemma find_skip: "\<not> named nm e \<Longrightarrow> List.find (named nm) (as @ e # bs) = List.find (named nm) (as @ bs)"
  by (induction as) auto

lemma find_free_tail: "entry_key nm \<noteq> [] \<Longrightarrow>
    List.find (named nm) (xs @ replicate n (replicate 32 0)) = List.find (named nm) xs"
proof (induction xs)
  case Nil
  have "entry_key (replicate 32 0) = []" by (simp add: entry_key_def)
  with Nil show ?case by (simp add: find_None_iff)
qed auto

text \<open>C6. \<open>fat_find_dir_entry\<close> is the first match: on the cluster chain of a directory it returns, with the
  first entry whose name agrees with the one asked for, and answers that there is none only when
  no entry agrees. What agrees is decided by twelve bytes: the eleven of a name and, when all of
  them are in use, the attribute byte behind it.\<close>

theorem find_dir_entry_first_match:
  assumes "fat_ok s t" and "dir_chain t d cs" and "11 < length nm \<or> 0 \<in> set nm"
  shows "fat_find_dir_entry nm d s =
    Some (map_option dirent_of (List.find (\<lambda>e. entry_key e = entry_key nm) (entries s cs)))"
  using assms by (rule find_dir_entry_eq)

text \<open>A disk whose root directory, in cluster 0, has a file \<open>F.T\<close>, and free entries behind it.\<close>

definition dir_example :: fat where
  "dir_example = fat_example\<lparr>disk := (disk fat_example)\<lparr>sectors := (sectors (disk fat_example))
     (2 := dirent_bytes entry_example @ replicate 480 0)\<rparr>\<rparr>"

lemma dir_example_ok: "fat_ok dir_example table_example" "dir_chain table_example zero_entry [0]"
proof -
  have "length (dirent_bytes entry_example) = 32" by (rule length_dirent_bytes) (simp add: entry_example_def)
  then show "fat_ok dir_example table_example"
    by (simp add: fat_ok_def fat_example_def dir_example_def table_example_def hdd_ok_def cluster_bytes_def)
  show "dir_chain table_example zero_entry [0]"
    by (simp add: dir_chain_def table_example_def IS_END_OF_CLUSTER_CHAIN_def zero_entry_def dirent_of_def
        le16_word_def)
qed

theorem find_dir_entry_first_match_witness:
  "fat_find_dir_entry [0x46, 0x2E, 0x54, 0] zero_entry dir_example =
    Some (map_option dirent_of (List.find (\<lambda>e. entry_key e = entry_key [0x46, 0x2E, 0x54, 0])
      (entries dir_example [0])))"
  by (rule find_dir_entry_first_match[OF dir_example_ok]) simp

text \<open>Both ways of adding an entry: in both, the lookup of another name is not affected.\<close>

lemma add_dir_entry_effect:
  assumes ok: "fat_ok s t" and d: "dir_chain t d cs" and nm: "length (name e) = 11"
    and room: "(\<exists>x \<in> set (entries s cs). entry_key x = []) \<or>
      (\<exists>k < length t. t ! k = 0 \<and> (\<forall>j < k. t ! j \<noteq> 0) \<and> k \<noteq> 0 \<and> k < 0xFFF8)"
  defines "b \<equiv> dirent_bytes e"
  shows "\<exists>s' t' cs' as bs. fat_add_dir_entry d e s = Some (True, s') \<and> fat_ok s' t' \<and> dir_chain t' d cs' \<and>
      (fat_synced s \<longrightarrow> fat_synced s') \<and> entries s' cs' = as @ b # bs \<and> set as \<subseteq> set (entries s cs) \<and>
      set bs \<subseteq> insert (replicate 32 0) (set (entries s cs)) \<and>
      length t' = length t \<and> (\<forall>i. i \<notin> set cs \<and> t ! i \<noteq> 0 \<longrightarrow> t' ! i = t ! i) \<and>
      (\<forall>i \<in> set cs'. i \<in> set cs \<or> t ! i = 0) \<and>
      (\<forall>nm. entry_key nm \<noteq> [] \<and> entry_key nm \<noteq> entry_key b \<longrightarrow>
        List.find (named nm) (as @ b # bs) = List.find (named nm) (entries s cs))"
proof (cases "List.find (\<lambda>x. entry_key x = []) (entries s cs)")
  case (Some old)
  from find_first[OF this] obtain as bs where sp: "entries s cs = as @ old # bs"
    "\<And>x. x \<in> set as \<Longrightarrow> entry_key x \<noteq> []" "entry_key old = []" by blast
  from add_dir_entry_reuses[OF ok d nm sp, folded b_def] obtain dk where "fat_add_dir_entry d e s = Some (True, s\<lparr>disk := dk\<rparr>)"
    "fat_ok (s\<lparr>disk := dk\<rparr>) t" "fat_synced s \<longrightarrow> fat_synced (s\<lparr>disk := dk\<rparr>)"
    "entries (s\<lparr>disk := dk\<rparr>) cs = as @ b # bs" by blast
  moreover have "List.find (named nm) (as @ b # bs) = List.find (named nm) (entries s cs)"
    if "entry_key nm \<noteq> []" "entry_key nm \<noteq> entry_key b" for nm
    unfolding sp(1) using that sp(3) by (intro find_named_other) auto
  moreover have "set as \<subseteq> set (entries s cs)" "set bs \<subseteq> insert (replicate 32 0) (set (entries s cs))"
    by (auto simp: sp(1))
  ultimately show ?thesis using d by blast
next
  case None
  then have full: "entry_key x \<noteq> []" if "x \<in> set (entries s cs)" for x using that by (auto simp: find_None_iff)
  then obtain k where k: "k < length t" "t ! k = 0" "\<And>j. j < k \<Longrightarrow> t ! j \<noteq> 0" "k \<noteq> 0" "k < 0xFFF8"
    using room by blast
  let ?t = "t[last cs := of_nat k, k := FAT16_CLUSTER_CHAIN_END]"
  from add_dir_entry_extends[OF ok d nm full k, folded b_def] obtain s' n where s': "fat_add_dir_entry d e s = Some (True, s')"
    "fat_ok s' ?t" "is_chain ?t (cs @ [k])" "fat_synced s \<longrightarrow> fat_synced s'"
    "entries s' (cs @ [k]) = entries s cs @ b # replicate n (replicate 32 0)" by blast
  moreover have "List.find (named nm) (entries s cs @ b # replicate n (replicate 32 0)) =
      List.find (named nm) (entries s cs)"
    if "entry_key nm \<noteq> []" "entry_key nm \<noteq> entry_key b" for nm
    using that find_skip[of b nm "entries s cs"] find_free_tail[of nm "entries s cs" n] by simp
  moreover have "dir_chain ?t d (cs @ [k])"
    using s'(3) dir_chainD[OF d] by (cases cs) (simp_all add: dir_chain_def)
  moreover have "last cs \<in> set cs" using dir_chainD(1)[OF d] by (cases cs) simp_all
  then have "length ?t = length t" "\<forall>i. i \<notin> set cs \<and> t ! i \<noteq> 0 \<longrightarrow> ?t ! i = t ! i"
    using k(2) by (simp, metis nth_list_update_neq)
  moreover have "set (replicate n (replicate 32 0)) \<subseteq> insert (replicate 32 0) (set (entries s cs))" by auto
  moreover have "\<forall>i \<in> set (cs @ [k]). i \<in> set cs \<or> t ! i = 0" using k(2) by simp
  ultimately show ?thesis by blast
qed

text \<open>C7. What is added is found: if a directory has no entry of the new entry's name and there is room (a free
  entry, or a free cluster to extend the directory with), \<open>fat_add_dir_entry\<close> succeeds, the
  file system stays well formed and in step with the disk, looking the name up gives the new
  entry, and looking up any other name gives what it gave before.\<close>

theorem add_dir_entry_found:
  assumes ok: "fat_ok s t" and d: "dir_chain t d cs" and nm: "length (name e) = 11"
    and new: "entry_key (dirent_bytes e) \<noteq> []" "\<forall>x \<in> set (entries s cs). entry_key x \<noteq> entry_key (dirent_bytes e)"
    and room: "(\<exists>x \<in> set (entries s cs). entry_key x = []) \<or>
      (\<exists>k < length t. t ! k = 0 \<and> (\<forall>j < k. t ! j \<noteq> 0) \<and> k \<noteq> 0 \<and> k < 0xFFF8)"
  shows "\<exists>s' t'. fat_add_dir_entry d e s = Some (True, s') \<and> fat_ok s' t' \<and> (fat_synced s \<longrightarrow> fat_synced s') \<and>
    (\<forall>nm. (11 < length nm \<or> 0 \<in> set nm) \<and> entry_key nm \<noteq> [] \<longrightarrow> fat_find_dir_entry nm d s' =
      (if entry_key nm = entry_key (dirent_bytes e) then Some (Some e) else fat_find_dir_entry nm d s))"
proof -
  let ?e = "dirent_bytes e"
  have rt: "dirent_of ?e = e" using dirent_of_bytes[OF nm, of "[]"] by simp
  from add_dir_entry_effect[OF ok d nm room] obtain s' t' cs' as bs where S: "fat_add_dir_entry d e s = Some (True, s')" "fat_ok s' t'"
    "dir_chain t' d cs'" "fat_synced s \<longrightarrow> fat_synced s'" "entries s' cs' = as @ ?e # bs"
    "set as \<subseteq> set (entries s cs)"
    "\<And>nm. entry_key nm \<noteq> [] \<Longrightarrow> entry_key nm \<noteq> entry_key ?e \<Longrightarrow>
        List.find (named nm) (as @ ?e # bs) = List.find (named nm) (entries s cs)" by blast
  have "fat_find_dir_entry nm d s' =
      (if entry_key nm = entry_key ?e then Some (Some e) else fat_find_dir_entry nm d s)"
    if n: "11 < length nm \<or> 0 \<in> set nm" "entry_key nm \<noteq> []" for nm
  proof (cases "entry_key nm = entry_key ?e")
    case True
    then have "List.find (named nm) (as @ ?e # bs) = Some ?e"
      using new(2) S(6) by (intro find_named_new) auto
    then show ?thesis using True find_dir_entry_eq[OF S(2,3) n(1)] S(5) rt by simp
  next
    case False
    then show ?thesis
      using find_dir_entry_eq[OF S(2,3) n(1)] find_dir_entry_eq[OF ok d n(1)] S(5) S(7)[OF n(2) False] by simp
  qed
  with S show ?thesis by blast
qed

definition entry_example2 :: FAT16_DirEntry where
  "entry_example2 = entry_example\<lparr>name := [0x47, 0, 0, 0, 0, 0, 0, 0, 0, 0, 0]\<rparr>"

lemma entry_example_length: "length (dirent_bytes entry_example) = 32"
  by (rule length_dirent_bytes) (simp add: entry_example_def)

lemma dir_example_entries: "entries dir_example [0] = dirent_bytes entry_example # replicate 15 (replicate 32 0)"
proof -
  have "cluster_data dir_example 0 = put_entry 0 (dirent_bytes entry_example) (replicate 512 0)"
    by (simp add: cluster_data_def cluster_sector_def dir_example_def fat_example_def put_entry_def)
  moreover have "slots (put_entry 0 (dirent_bytes entry_example) (replicate 512 0)) =
      (replicate 16 (replicate 32 0))[0 := dirent_bytes entry_example]"
    using slots_put_entry[OF entry_example_length, of 0 "replicate 512 0"] slots_zero[of 512] by simp
  ultimately show ?thesis by (simp add: eval_nat_numeral)
qed

lemma entry_example_keys:
  "entry_key (dirent_bytes entry_example) = [0x46, 0x2E, 0x54]" "entry_key (dirent_bytes entry_example2) = [0x47]"
  "entry_key (replicate 32 0) = []"
  by (simp_all add: entry_key_def dirent_bytes_def entry_example_def entry_example2_def)

theorem add_dir_entry_found_witness:
  "\<exists>s' t'. fat_add_dir_entry zero_entry entry_example2 dir_example = Some (True, s') \<and> fat_ok s' t' \<and>
    (fat_synced dir_example \<longrightarrow> fat_synced s') \<and>
    (\<forall>nm. (11 < length nm \<or> 0 \<in> set nm) \<and> entry_key nm \<noteq> [] \<longrightarrow> fat_find_dir_entry nm zero_entry s' =
      (if entry_key nm = entry_key (dirent_bytes entry_example2) then Some (Some entry_example2)
       else fat_find_dir_entry nm zero_entry dir_example))"
proof (rule add_dir_entry_found[OF dir_example_ok])
  show "length (name entry_example2) = 11" by (simp add: entry_example2_def)
  show "\<forall>x \<in> set (entries dir_example [0]). entry_key x \<noteq> entry_key (dirent_bytes entry_example2)"
    unfolding dir_example_entries by (simp add: entry_example_keys)
  have "replicate 32 0 \<in> set (entries dir_example [0])" unfolding dir_example_entries by simp
  then show "(\<exists>x \<in> set (entries dir_example [0]). entry_key x = []) \<or> (\<exists>k < length table_example.
      table_example ! k = 0 \<and> (\<forall>j < k. table_example ! j \<noteq> 0) \<and> k \<noteq> 0 \<and> k < 0xFFF8)"
    using entry_example_keys(3) by blast
qed (simp add: entry_example_keys)

text \<open>\<open>fat_remove_dir_entry\<close> clears the first entry of the name and releases its clusters: the other entries
  stay as they are, the clusters of the entry's chain are free in the table afterwards, no
  other table entry changes, and the disk stays in step.\<close>

lemma remove_dir_entry_removes:
  assumes ok: "fat_ok s t" and d: "dir_chain t d cs" and nm: "11 < length nm \<or> 0 \<in> set nm"
    and sp: "entries s cs = xs @ e # ys" "\<forall>x \<in> set xs. entry_key x \<noteq> entry_key nm" "entry_key e = entry_key nm"
    and ds: "is_chain t ds" "unat (start_cluster (dirent_of e)) = hd ds" "set ds \<inter> set cs = {}"
  shows "\<exists>s' t'. fat_remove_dir_entry nm d True s = Some (True, s') \<and> fat_ok s' t' \<and> dir_chain t' d cs \<and>
    (fat_synced s \<longrightarrow> fat_synced s') \<and> entries s' cs = xs @ replicate 32 0 # ys \<and>
    (\<forall>i. t' ! i = (if i \<in> set ds then 0 else t ! i))"
proof -
  let ?cmp = "\<lambda>p. strncmp p nm FAT16_FILENAME_SIZE" and ?z = "replicate 32 (0 :: u8)"
  note D = dir_chainD[OF d] and buf = length_replicate[of "cluster_bytes s" "0 :: u8"]
  have key: "?cmp x = Some 0 \<longleftrightarrow> entry_key x = entry_key nm" if "x \<in> set (entries s cs)" for x
    using strncmp_entry[OF nm, of x] length_entry[OF that] by simp
  then have no: "\<And>x. x \<in> set xs \<Longrightarrow> ?cmp x \<noteq> Some 0" and hit: "?cmp e = Some 0" using sp by auto
  obtain us c vs as bs where S: "cs = us @ c # vs" "slots (cluster_data s c) = as @ e # bs"
    "xs = entries s us @ as" "ys = bs @ entries s vs"
    "\<And>u. u \<in> set us \<Longrightarrow> scan_entries ?cmp 0 (entries_per_cluster s) (cluster_data s u) = Some None"
    "scan_entries ?cmp 0 (entries_per_cluster s) (cluster_data s c) = Some (Some (length as))"
    "nth_entry (length as) (cluster_data s c) = dirent_of e"
    using first_match_scan[OF ok entry_test_strncmp[OF nm] sp(1) no hit] by metis
  obtain s1 t1 where s1: "fat_free_chain (hd ds) s = Some s1" "fat_ok s1 t1" "fat_synced s \<longrightarrow> fat_synced s1"
    "length t1 = length t" "\<forall>i. t1 ! i = (if i \<in> set ds then 0 else t ! i)"
    "\<And>c. cluster_data s1 c = cluster_data s c" using fat_free_chain_chain[OF ok ds(1)] by blast
  have ch: "is_chain t1 cs" using ds(3) s1(5) by (intro is_chain_cong[OF D(1) s1(4)]) auto
  have sl: "slots (cluster_data s1 c) = as @ e # bs" using S(2) s1(6) by simp
  obtain dk where dk: "fat_write_data_cluster (of_nat c) (put_entry (length as) ?z (cluster_data s1 c)) s1 =
      Some (0, s1\<lparr>disk := dk\<rparr>)" "fat_ok (s1\<lparr>disk := dk\<rparr>) t1" "fat_synced s1 \<Longrightarrow> fat_synced (s1\<lparr>disk := dk\<rparr>)"
    "entries (s1\<lparr>disk := dk\<rparr>) (us @ c # vs) = entries s1 us @ as @ ?z # bs @ entries s1 vs"
    using write_slot[OF s1(2) ch[unfolded S(1)] D(2)[unfolded S(1)] sl, of ?z] by auto
  have "fat_remove_dir_entry nm d True s = Some (True, s1\<lparr>disk := dk\<rparr>)"
    using fat_okD(1)[OF ok] dir_buffer_ok[OF ok] D(3) s1(1,6) dk(1) S(5-7) ds(2)
    by (simp add: fat_remove_dir_entry_def S(1) dir_walk_hit[OF ok D(1,2)[unfolded S(1)] buf, of _ True])
  moreover have "entries s1 zs = entries s zs" for zs by (simp add: entries_def s1(6))
  ultimately show ?thesis
    using D(3) dk(2-4) s1(3,5) ch S
    by (intro exI[of _ "s1\<lparr>disk := dk\<rparr>"] exI[of _ t1]) (auto simp: dir_chain_def)
qed

end
