(* ===== verification/FatMount.thy ===== *)
theory FatMount
  imports FatEntries
begin

text \<open>
  Mounting a FAT16 volume (\<open>fat_init\<close> of \<open>filesystem/fat/fat.c\<close>): on a disk with a valid boot sector it
  establishes the well-formedness that the other theorems on the file system start from, with
  the table in memory in step with the first copy on the disk.
\<close>

section \<open>Reading the table\<close>

lemma read_fat_sectors_eq:
  assumes hd: "hdd_ok (disk s)" and "length tab = 512 * (i + n)"
    and "unat (reserved_sectors (fat16_fs s)) + i + n < 2 ^ 32"
  shows "read_fat_sectors i n tab s = Some (True, take (512 * i) tab @
    concat (map (\<lambda>j. sectors (disk s) (unat (reserved_sectors (fat16_fs s)) + j)) [i..<i + n]))"
  using assms(2,3)
proof (induction n arbitrary: i tab)
  case (Suc n)
  let ?r = "unat (reserved_sectors (fat16_fs s))"
  let ?sec = "sectors (disk s) (?r + i)" and ?rest = "drop 512 (drop (512 * i) tab)"
  have l: "length ?sec = 512" "present (disk s)" using hd by (simp_all add: hdd_ok_def)
  have w: "unat (of_nat (?r + i) :: u32) = ?r + i" using Suc.prems(2) by (intro unat_of_nat_u32) simp
  have rd: "disk_read (of_nat (?r + i)) 1 (drop (512 * i) tab) (disk s) = Some (0, ?sec @ ?rest)"
    using l(2) Suc.prems(1) w by (simp add: disk_read_def)
  let ?tab = "take (512 * i) tab @ ?sec @ ?rest"
  have "read_fat_sectors (Suc i) n ?tab s = Some (True, take (512 * Suc i) ?tab @
      concat (map (\<lambda>j. sectors (disk s) (?r + j)) [Suc i..<Suc i + n]))"
    using Suc.prems l(1) by (intro Suc.IH) simp_all
  moreover have "take (512 * Suc i) ?tab = take (512 * i) tab @ ?sec" using Suc.prems(1) l(1) by simp
  moreover have "[i..<i + Suc n] = i # [Suc i..<Suc i + n]" by (simp add: upt_conv_Cons)
  ultimately show ?case using rd by (simp add: append_assoc del: upt_Suc)
qed simp

lemma table_bytes_table: "even (length b) \<Longrightarrow> table_bytes (bytes_table b) = b"
proof (induction b rule: bytes_table.induct)
  case (1 a b bs)
  have "le16_bytes (le16_word [a, b]) = [a, b]"
  proof -
    have "ucast (le16_word [a, b]) = a" "ucast (drop_bit 8 (le16_word [a, b])) = b"
      by (rule bit_word_eqI; auto simp: le16_word_def bit_simps dest: bit_imp_le_length)+
    then show ?thesis by (simp add: le16_bytes_def)
  qed
  with 1 show ?case by (simp add: table_bytes_def)
qed (simp_all add: table_bytes_def)

lemma length_bytes_table: "length (bytes_table b) = length b div 2"
  by (induction b rule: bytes_table.induct) auto

lemma length_concat_sectors:
  "hdd_ok d \<Longrightarrow> length (concat (map (\<lambda>j. sectors d (r + j)) [0..<n])) = 512 * n"
  by (induction n) (auto simp: hdd_ok_def)

lemma nth_concat_sectors:
  assumes "hdd_ok d" and "k < n"
  shows "take 512 (drop (512 * k) (concat (map (\<lambda>j. sectors d (r + j)) [0..<n]))) = sectors d (r + k)"
proof -
  have "[0..<n] = [0..<k] @ k # [Suc k..<n]"
    using assms(2) by (metis le_add_diff_inverse less_imp_le_nat upt_add_eq_append upt_conv_Cons zero_le)
  then show ?thesis using assms(1) length_concat_sectors[OF assms(1), of r k] by (simp add: hdd_ok_def)
qed

lemma memset_nat: "k \<le> length p \<Longrightarrow> memset p v (int k) = Some (replicate k v @ drop k p)"
  by (simp add: memset_eq)

section \<open>Properties\<close>

definition boot_ok :: "bytes \<Rightarrow> bool" where
  "boot_ok b \<longleftrightarrow> le16_word (drop 510 b) = 0xAA55 \<and> le16_word (drop 11 b) = 512 \<and> 0 < b ! 13 \<and> 0 < b ! 16"

text \<open>The memory that a mounted volume asks for: the table, which must have a size (a request for nothing is
  refused), and buffers of one cluster.\<close>

definition memory_granted :: "fat \<Rightarrow> bytes \<Rightarrow> bool" where
  "memory_granted s b \<longleftrightarrow> 0 < le16_word (drop 22 b) \<and> kmalloc_ok s (unat (le16_word (drop 22 b)) * 512) \<and>
     kmalloc_ok s (512 * unat (b ! 13))"

lemma parse_boot_sector_ok:
  assumes "boot_ok b"
  obtains g where "parse_boot_sector b = Some g" and "bytes_per_sector g = 512" and "0 < sectors_per_cluster g"
    and "0 < num_fats g" and "unat (root_dir_start g) < 2 ^ 27"
    and "unat (root_dir_start g) = unat (reserved_sectors g) + unat (num_fats g) * unat (sectors_per_fat g)"
    and "sectors_per_fat g = le16_word (drop 22 b)" and "sectors_per_cluster g = b ! 13"
proof -
  let ?res = "le16_word (drop 14 b)" and ?n = "unat (b ! 16) * unat (le16_word (drop 22 b))"
  have "?n \<le> 255 * 65535"
    using unsigned_less[of "b ! 16", where 'a = nat] unat_u16_lt[of "le16_word (drop 22 b)"]
    by (intro mult_le_mono) simp_all
  then have n: "unat ?res + ?n < 2 ^ 27" using unat_u16_lt[of ?res] by simp
  then have "unat (of_nat ?n :: u32) = ?n" by (intro unat_of_nat_u32) simp
  then have root: "unat (ucast ?res + of_nat ?n :: u32) = unat ?res + ?n"
    using n by (subst unat_word_ariths(1)) (simp add: unat_ucast_16)
  have "parse_boot_sector b \<noteq> None" using assms by (simp add: parse_boot_sector_def boot_ok_def Let_def)
  then obtain g where g: "parse_boot_sector b = Some g" by blast
  show ?thesis
    using assms root n g
    by (intro that[of g]) (auto simp: parse_boot_sector_def boot_ok_def Let_def split: if_splits)
qed

lemma fat_init_mounted:
  assumes hd: "hdd_ok (disk s)" and b: "boot_ok (sectors (disk s) 0)" and nm: "length (name (root_dir s)) = 11"
    and mem: "memory_granted s (sectors (disk s) 0)"
  shows "\<exists>s' t. fat_init s = Some (True, s') \<and> fat_ok s' t \<and> fat_synced s' \<and> disk s' = disk s \<and>
    parse_boot_sector (sectors (disk s) 0) = Some (fat16_fs s') \<and> kmalloc_ok s' = kmalloc_ok s \<and>
    start_cluster (root_dir s') = 0 \<and> take 2 (name (root_dir s')) = c_str ''~'' \<and>
    length (name (root_dir s')) = 11"
proof -
  let ?b = "sectors (disk s) 0"
  obtain g where g: "parse_boot_sector ?b = Some g" "bytes_per_sector g = 512" "0 < sectors_per_cluster g"
    "0 < num_fats g" "unat (root_dir_start g) < 2 ^ 27"
    "unat (root_dir_start g) = unat (reserved_sectors g) + unat (num_fats g) * unat (sectors_per_fat g)"
    "sectors_per_fat g = le16_word (drop 22 ?b)" "sectors_per_cluster g = ?b ! 13"
    by (rule parse_boot_sector_ok[OF b])
  let ?spf = "unat (sectors_per_fat g)" and ?r = "unat (reserved_sectors g)" and ?s = "s\<lparr>fat16_fs := g\<rparr>"
  let ?copy = "concat (map (\<lambda>j. sectors (disk s) (?r + j)) [0..<?spf])"
  have boot: "disk_read 0 1 (replicate 512 0) (disk s) = Some (0, ?b)"
    using hd by (simp add: disk_read_def hdd_ok_def)
  have "length ?b = 512" using hd by (simp add: hdd_ok_def)
  obtain tab0 where tab0: "memset (map (heap_junk s) [0..<?spf * 512]) 0 (int (256 * ?spf)) = Some tab0"
    "length tab0 = 512 * (0 + ?spf)"
    using memset_nat[of "256 * ?spf" "map (heap_junk s) [0..<?spf * 512]" 0] by simp
  have "read_fat_sectors 0 ?spf tab0 ?s = Some (True, take (512 * 0) tab0 @
      concat (map (\<lambda>j. sectors (disk ?s) (unat (reserved_sectors (fat16_fs ?s)) + j)) [0..<0 + ?spf]))"
    using hd tab0(2) unat_u16_lt[of "sectors_per_fat g"] unat_u16_lt[of "reserved_sectors g"]
    by (intro read_fat_sectors_eq) simp_all
  then have rd: "read_fat_sectors 0 ?spf tab0 ?s = Some (True, ?copy)" by simp
  have "strcpy (name (root_dir s)) ([0x7E] @ 0 # []) = Some ([0x7E] @ 0 # drop (Suc (length [0x7E :: u8])) (name (root_dir s)))"
    using nm by (intro strcpy_append) simp_all
  then obtain m where m: "strcpy (name (root_dir s)) (c_str ''~'') = Some m" "take 2 m = c_str ''~''" "length m = 11"
    using nm by (simp add: c_str_def bytes_of_def)
  let ?root = "(root_dir s)\<lparr>name := m, start_cluster := 0, attr := attr (root_dir s) OR FAT_ATTR_DIRECTORY,
     file_size := of_nat (unat (root_dir_entries g) * 32)\<rparr>"
  let ?s' = "s\<lparr>fat16_fs := g, fat_table := Some (bytes_table ?copy), root_dir := ?root\<rparr>"
  have lc: "length ?copy = 512 * ?spf" using length_concat_sectors[OF hd] by simp
  have "fat_init s = Some (True, ?s')"
    using boot b g(1,2) tab0(1) rd m(1) mem unfolding boot_ok_def memory_granted_def g(7)[symmetric]
    by (simp add: fat_init_def Let_def mult.commute)
  moreover have "fat_ok ?s' (bytes_table ?copy)"
    using g hd mem lc by (simp add: fat_ok_def length_bytes_table memory_granted_def cluster_bytes_def)
  moreover have "table_bytes (bytes_table ?copy) = ?copy" using lc by (intro table_bytes_table) simp
  then have "fat_synced ?s'" using nth_concat_sectors[OF hd] by (simp add: fat_synced_def)
  ultimately show ?thesis using m(2,3) g(1) by (intro exI[of _ ?s'] exI[of _ "bytes_table ?copy"]) simp
qed

text \<open>C10. Mounting establishes the invariant: on a present disk whose boot sector has the signature, 512-byte
  sectors and non-zero sectors per cluster, copies and sectors per copy, and when \<open>kmalloc\<close> grants the
  two sizes that the volume asks for (the table's and a cluster's), \<open>fat_init\<close> succeeds; the file system is well formed afterwards, the table in memory is the
  first copy on the disk, the disk is as before, the geometry is the boot sector's and the root directory starts at cluster 0.\<close>

theorem fat_init_mounts:
  assumes hd: "hdd_ok (disk s)" and b: "boot_ok (sectors (disk s) 0)" and nm: "length (name (root_dir s)) = 11"
    and mem: "memory_granted s (sectors (disk s) 0)"
  shows "\<exists>s' t. fat_init s = Some (True, s') \<and> fat_ok s' t \<and> fat_synced s' \<and> disk s' = disk s \<and>
    parse_boot_sector (sectors (disk s) 0) = Some (fat16_fs s') \<and>
    start_cluster (root_dir s') = 0 \<and> take 2 (name (root_dir s')) = c_str ''~'' \<and>
    length (name (root_dir s')) = 11"
  using fat_init_mounted[OF assms] by blast

definition unmounted_example :: fat where
  "unmounted_example = fat_example\<lparr>fat_table := None, disk := (disk fat_example)\<lparr>sectors := (sectors (disk fat_example))
     (0 := (replicate 512 0)[11 := 0, 12 := 2, 13 := 1, 14 := 1, 16 := 1, 22 := 1, 510 := 0x55, 511 := 0xAA])\<rparr>\<rparr>"

lemma unmounted_example_granted: "memory_granted unmounted_example (sectors (disk unmounted_example) 0)"
  by (simp add: memory_granted_def unmounted_example_def fat_example_def le16_word_def nth_list_update)

theorem fat_init_mounts_witness:
  "\<exists>s' t. fat_init unmounted_example = Some (True, s') \<and> fat_ok s' t \<and> fat_synced s' \<and>
    disk s' = disk unmounted_example \<and>
    parse_boot_sector (sectors (disk unmounted_example) 0) = Some (fat16_fs s') \<and> start_cluster (root_dir s') = 0 \<and>
    take 2 (name (root_dir s')) = c_str ''~'' \<and> length (name (root_dir s')) = 11"
proof (rule fat_init_mounts)
  show "hdd_ok (disk unmounted_example)"
    by (simp add: hdd_ok_def unmounted_example_def fat_example_def table_example_def)
  show "boot_ok (sectors (disk unmounted_example) 0)"
    by (simp add: boot_ok_def unmounted_example_def fat_example_def le16_word_def nth_list_update)
  show "memory_granted unmounted_example (sectors (disk unmounted_example) 0)" by (rule unmounted_example_granted)
qed (simp_all add: unmounted_example_def fat_example_def zero_entry_def dirent_of_def)

end
