(* ===== verification/StdC.thy ===== *)
theory StdC
  imports LibC
begin

text \<open>
  The ISO C library functions that the programs outside the kernel use: the image loader
  \<open>fs_loader\<close>, which runs on the host, and the shell \<open>terminal/main.c\<close>, which is linked with the
  C library of the tool chain. They differ from the kernel's own routines of \<open>LibC\<close> where those
  deviate from the standard. As there, a pointer is the list of bytes up to the end of its object
  and \<open>None\<close> is an access outside it. A comparison is only ever tested against zero, so the
  sign of its result is all that counts.
\<close>

section \<open>Definitions\<close>

definition iso_string :: "bytes \<Rightarrow> bytes option" where
  "iso_string b = (if 0 \<in> set b then Some (takeWhile (\<lambda>c. c \<noteq> 0) b) else None)"

definition iso_strlen :: "bytes \<Rightarrow> nat option" where
  "iso_strlen b = map_option length (iso_string b)"

fun iso_strcmp :: "bytes \<Rightarrow> bytes \<Rightarrow> int option" where
  "iso_strcmp (a # s) (b # t) = (if a = b \<and> a \<noteq> 0 then iso_strcmp s t else Some (uint a - uint b))"
| "iso_strcmp _ _ = None"

fun iso_strncmp :: "bytes \<Rightarrow> bytes \<Rightarrow> nat \<Rightarrow> int option" where
  "iso_strncmp s t 0 = Some 0"
| "iso_strncmp (a # s) (b # t) (Suc n) =
     (if a = b \<and> a \<noteq> 0 then iso_strncmp s t n else Some (uint a - uint b))"
| "iso_strncmp _ _ (Suc n) = None"

definition iso_strcpy :: "bytes \<Rightarrow> bytes \<Rightarrow> bytes option" where
  "iso_strcpy dst src = do {
     s \<leftarrow> iso_string src;
     if length s < length dst then Some (s @ 0 # drop (Suc (length s)) dst) else None
   }"

definition iso_strncpy :: "bytes \<Rightarrow> bytes \<Rightarrow> nat \<Rightarrow> bytes option" where
  "iso_strncpy dst src n =
     (let s = takeWhile (\<lambda>c. c \<noteq> 0) (take n src)
      in if length dst < n \<or> (length src < n \<and> 0 \<notin> set src) then None
         else Some (s @ replicate (n - length s) 0 @ drop n dst))"

definition iso_strcat :: "bytes \<Rightarrow> bytes \<Rightarrow> bytes option" where
  "iso_strcat dst src = do {
     d \<leftarrow> iso_string dst;
     e \<leftarrow> iso_strcpy (drop (length d) dst) src;
     Some (d @ e)
   }"

text \<open>The last occurrence of a character other than NUL, as an index.\<close>

definition iso_strrchr :: "bytes \<Rightarrow> u8 \<Rightarrow> nat option option" where
  "iso_strrchr b ch = do {
     s \<leftarrow> iso_string b;
     Some (if ch \<in> set s then Some (length s - 1 - length (takeWhile (\<lambda>c. c \<noteq> ch) (rev s))) else None)
   }"

definition iso_isspace :: "u8 \<Rightarrow> bool" where
  "iso_isspace c \<longleftrightarrow> c = 0x20 \<or> 0x09 \<le> c \<and> c \<le> 0x0D"

definition iso_isalnum :: "u8 \<Rightarrow> bool" where
  "iso_isalnum c \<longleftrightarrow> 0x30 \<le> c \<and> c \<le> 0x39 \<or> 0x41 \<le> c \<and> c \<le> 0x5A \<or> 0x61 \<le> c \<and> c \<le> 0x7A"

definition iso_memset :: "bytes \<Rightarrow> u8 \<Rightarrow> nat \<Rightarrow> bytes option" where
  "iso_memset dst v n = (if n \<le> length dst then Some (replicate n v @ drop n dst) else None)"

definition iso_memcpy :: "bytes \<Rightarrow> bytes \<Rightarrow> nat \<Rightarrow> bytes option" where
  "iso_memcpy dst src n =
     (if n \<le> length dst \<and> n \<le> length src then Some (take n src @ drop n dst) else None)"

section \<open>Facts\<close>

lemma iso_string_append: "0 \<notin> set s \<Longrightarrow> iso_string (s @ 0 # rest) = Some s"
proof -
  assume "0 \<notin> set s"
  then have "\<forall>c \<in> set s. c \<noteq> 0" by auto
  then show ?thesis by (simp add: iso_string_def takeWhile_append2)
qed

lemma iso_strlen_append: "0 \<notin> set s \<Longrightarrow> iso_strlen (s @ 0 # rest) = Some (length s)"
  by (simp add: iso_strlen_def iso_string_append)

lemma iso_strcmp_zero_iff:
  "0 \<in> set a \<Longrightarrow> 0 \<in> set b \<Longrightarrow> \<exists>r. iso_strcmp a b = Some r \<and>
    (r = 0 \<longleftrightarrow> takeWhile (\<lambda>c. c \<noteq> 0) a = takeWhile (\<lambda>c. c \<noteq> 0) b)"
  by (induction a b rule: iso_strcmp.induct) auto

lemma iso_strncmp_zero_iff:
  "n \<le> length a \<or> 0 \<in> set a \<Longrightarrow> n \<le> length b \<or> 0 \<in> set b \<Longrightarrow> \<exists>r. iso_strncmp a b n = Some r \<and>
    (r = 0 \<longleftrightarrow> takeWhile (\<lambda>c. c \<noteq> 0) (take n a) = takeWhile (\<lambda>c. c \<noteq> 0) (take n b))"
  by (induction a b n rule: iso_strncmp.induct) auto

lemma iso_strcpy_append:
  "0 \<notin> set s \<Longrightarrow> length s < length d \<Longrightarrow> iso_strcpy d (s @ 0 # rest) = Some (s @ 0 # drop (Suc (length s)) d)"
  by (simp add: iso_strcpy_def iso_string_append)

text \<open>
  Where the kernel's routines agree with the standard ones: \<open>strlen\<close> and \<open>strcmp\<close> everywhere, \<open>strcpy\<close> on
  strings that are not empty.
\<close>

lemma iso_strlen_kernel: "iso_strlen b = strlen b"
proof (induction b)
  case (Cons c b)
  then show ?case by (cases "0 \<in> set b") (auto simp: iso_strlen_def iso_string_def simp flip: Cons)
qed (simp add: iso_strlen_def iso_string_def)

lemma iso_strcmp_kernel: "iso_strcmp a b = strcmp a b"
  by (induction a b rule: iso_strcmp.induct) auto

lemma iso_strcpy_kernel:
  assumes "is_cstr s src" and "s \<noteq> []" and "length s < length d"
  shows "iso_strcpy d src = strcpy d src"
proof -
  obtain rest where "0 \<notin> set s" "src = s @ 0 # rest" using assms(1) by (rule is_cstrE)
  with assms(2,3) show ?thesis by (simp add: iso_strcpy_append strcpy_append)
qed

end
