(* ===== verification/Image.thy ===== *)
theory Image
  imports StdC FatMount
begin

text \<open>
  The image loader \<open>fs_loader/fat_loader.c\<close>, a host program that copies a file into a disk image before
  the kernel runs. This theory has its bottom half: the ATA interface emulated on the image
  file, \<open>fat_init\<close>, the allocation table and cluster transfers. Names have the prefix \<open>ld_\<close>, since most
  functions have a namesake in the kernel. The types of \<open>fat_loader.h\<close> are those of the
  kernel's \<open>fat.h\<close> and are shared with \<open>Fat\<close>.

  The state has the file's contents (\<open>None\<close> when it is not open), how many bytes of a write at an
  offset the host accepts, the mounted geometry, the table, the root entry, and as in \<open>Fat\<close> whether
  \<open>malloc\<close> succeeds and what fresh memory holds. What is printed is left out.
\<close>

section \<open>State\<close>

record loader =
  ata_file :: "bytes option"
  accepts :: "nat \<Rightarrow> nat \<Rightarrow> nat"
  ld_fs :: FAT16_FS
  ld_table :: "u16 list option"
  ld_root_dir :: FAT16_DirEntry
  malloc_ok :: "nat \<Rightarrow> bool"
  malloc_junk :: "nat \<Rightarrow> u8"

text \<open>The return codes of \<open>fat_loader.h\<close>, numbered from zero.\<close>

definition LD_SUCCESS :: int where "LD_SUCCESS = 0"
definition LD_GENERAL_ERROR :: int where "LD_GENERAL_ERROR = 1"
definition LD_DIR_NOT_FOUND :: int where "LD_DIR_NOT_FOUND = 2"
definition LD_FILE_NOT_FOUND :: int where "LD_FILE_NOT_FOUND = 3"
definition LD_FILE_ALREADY_EXISTS :: int where "LD_FILE_ALREADY_EXISTS = 4"
definition LD_DIR_NAME_EXCEEDS_LENGTH :: int where "LD_DIR_NAME_EXCEEDS_LENGTH = 5"
definition LD_FILE_NAME_EXCEEDS_LENGTH :: int where "LD_FILE_NAME_EXCEEDS_LENGTH = 6"
definition LD_INVALID_FILE_NAME :: int where "LD_INVALID_FILE_NAME = 7"
definition LD_DIRECTORY_ISNT_EMPTY :: int where "LD_DIRECTORY_ISNT_EMPTY = 8"
definition LD_CANT_ALLOCATE_SPACE :: int where "LD_CANT_ALLOCATE_SPACE = 9"

section \<open>The disk image\<close>

text \<open>Opening a file of the host; \<open>files\<close> gives the contents of those that can be opened.\<close>

definition ld_ata_init :: "(bytes \<Rightarrow> bytes option) \<Rightarrow> bytes \<Rightarrow> loader \<Rightarrow> loader" where
  "ld_ata_init files filename s = s\<lparr>ata_file := files filename\<rparr>"

text \<open>\<open>fread\<close> delivers what there is up to the end of the file.\<close>

definition ld_ata_read :: "u32 \<Rightarrow> u8 \<Rightarrow> bytes \<Rightarrow> loader \<Rightarrow> (int \<times> bytes) option" where
  "ld_ata_read sector_number sector_count buffer s =
     (case ata_file s of
        None \<Rightarrow> Some (1, buffer)
      | Some file \<Rightarrow>
          let offset = unat sector_number * 512; bytes_to_read = unat sector_count * 512;
              got = take bytes_to_read (drop offset file)
          in if length buffer < length got then None
             else Some (if length got \<noteq> bytes_to_read then 1 else 0, got @ drop (length got) buffer))"

text \<open>\<open>fwrite\<close> extends the file when it writes behind its end; a gap reads as zeros.\<close>

definition file_put :: "nat \<Rightarrow> bytes \<Rightarrow> bytes \<Rightarrow> bytes" where
  "file_put offset data file =
     (if data = [] then file
      else take offset file @ replicate (offset - length file) 0 @ data @ drop (offset + length data) file)"

definition ld_ata_write :: "u32 \<Rightarrow> u8 \<Rightarrow> bytes \<Rightarrow> loader \<Rightarrow> (int \<times> loader) option" where
  "ld_ata_write sector_number sector_count buffer s =
     (case ata_file s of
        None \<Rightarrow> Some (1, s)
      | Some file \<Rightarrow>
          let offset = unat sector_number * 512; bytes_to_write = unat sector_count * 512;
              n = min bytes_to_write (accepts s offset bytes_to_write)
          in if length buffer < bytes_to_write then None
             else Some (if n \<noteq> bytes_to_write then 1 else 0,
               s\<lparr>ata_file := Some (file_put offset (take n buffer) file)\<rparr>))"

definition ld_ata_cleanup :: "loader \<Rightarrow> loader" where
  "ld_ata_cleanup s = s\<lparr>ata_file := None\<rparr>"

section \<open>Initialisation\<close>

fun ld_read_fat_sectors :: "nat \<Rightarrow> nat \<Rightarrow> bytes \<Rightarrow> loader \<Rightarrow> (bool \<times> bytes) option" where
  "ld_read_fat_sectors i 0 tab s = Some (True, tab)"
| "ld_read_fat_sectors i (Suc n) tab s = do {
     (r, part) \<leftarrow> ld_ata_read (of_nat (unat (reserved_sectors (ld_fs s)) + i)) 1 (drop (512 * i) tab) s;
     let tab = take (512 * i) tab @ part;
     if r \<noteq> 0 then Some (False, tab) else ld_read_fat_sectors (Suc i) n tab s
   }"

text \<open>
  The boot sector is taken apart as in the kernel. The table is given 256 * 256 bytes, whatever
  the boot sector says.
\<close>

definition ld_fat_init :: "loader \<Rightarrow> (bool \<times> loader) option" where
  "ld_fat_init s = do {
     (r, boot_sector) \<leftarrow> ld_ata_read 0 1 (replicate 512 0) s;
     if r \<noteq> 0 then Some (False, s)
     else if le16_word (drop 510 boot_sector) \<noteq> 0xAA55 then Some (False, s)
     else do {
       g \<leftarrow> parse_boot_sector boot_sector;
       let s = s\<lparr>ld_fs := g\<rparr>;
       if \<not> malloc_ok s (256 * 256) then Some (False, s\<lparr>ld_table := None\<rparr>)
       else do {
         tab \<leftarrow> iso_memset (map (malloc_junk s) [0..<256 * 256]) 0
                  (unat (bytes_per_sector g) div 2 * unat (sectors_per_fat g));
         (ok, tab) \<leftarrow> ld_read_fat_sectors 0 (unat (sectors_per_fat g)) tab s;
         let s = s\<lparr>ld_table := Some (bytes_table tab)\<rparr>;
         if \<not> ok then Some (False, s)
         else do {
           nm \<leftarrow> iso_strcpy (name (ld_root_dir s)) (c_str ''~'');
           Some (True, s\<lparr>ld_root_dir := (ld_root_dir s)\<lparr>name := nm, start_cluster := 0,
             attr := attr (ld_root_dir s) OR FAT_ATTR_DIRECTORY,
             file_size := of_nat (unat (root_dir_entries g) * 32)\<rparr>\<rparr>)
         }
       }
     }
   }"

section \<open>Clusters and the table\<close>

definition ld_cluster_bytes :: "loader \<Rightarrow> nat" where
  "ld_cluster_bytes s = unat (bytes_per_sector (ld_fs s)) * unat (sectors_per_cluster (ld_fs s))"

definition ld_table_get :: "nat \<Rightarrow> loader \<Rightarrow> u16 option" where
  "ld_table_get i s = do { t \<leftarrow> ld_table s; arr_get t i }"

definition ld_table_set :: "nat \<Rightarrow> u16 \<Rightarrow> loader \<Rightarrow> loader option" where
  "ld_table_set i v s = do { t \<leftarrow> ld_table s; t \<leftarrow> arr_set t i v; Some (s\<lparr>ld_table := Some t\<rparr>) }"

definition ld_fat_read_data_cluster :: "u32 \<Rightarrow> bytes \<Rightarrow> loader \<Rightarrow> (int \<times> bytes) option" where
  "ld_fat_read_data_cluster cluster_num buffer s =
     ld_ata_read (cluster_num * ucast (sectors_per_cluster (ld_fs s)) + root_dir_start (ld_fs s))
       (sectors_per_cluster (ld_fs s)) buffer s"

definition ld_fat_write_data_cluster :: "u32 \<Rightarrow> bytes \<Rightarrow> loader \<Rightarrow> (int \<times> loader) option" where
  "ld_fat_write_data_cluster cluster_num buffer s =
     ld_ata_write (cluster_num * ucast (sectors_per_cluster (ld_fs s)) + root_dir_start (ld_fs s))
       (sectors_per_cluster (ld_fs s)) buffer s"

fun ld_find_free_loop :: "nat \<Rightarrow> nat \<Rightarrow> loader \<Rightarrow> int option" where
  "ld_find_free_loop i 0 s = Some (- 1)"
| "ld_find_free_loop i (Suc n) s = do {
     v \<leftarrow> ld_table_get i s;
     if v = FAT16_FREE_CLUSTER then Some (int i) else ld_find_free_loop (Suc i) n s
   }"

definition ld_fat_find_free :: "loader \<Rightarrow> int option" where
  "ld_fat_find_free s =
     ld_find_free_loop 0 (unat (sectors_per_fat (ld_fs s)) * unat (bytes_per_sector (ld_fs s)) div 2) s"

definition ld_write_fat_entry :: "nat \<Rightarrow> loader \<Rightarrow> (int \<times> loader) option" where
  "ld_write_fat_entry i s =
     (let bps = unat (bytes_per_sector (ld_fs s))
      in if bps = 0 then None
         else do {
           t \<leftarrow> ld_table s;
           ld_ata_write (of_nat (unat (reserved_sectors (ld_fs s)) + i * 2 div bps)) 1
             (table_bytes (drop (i * 2 div bps * bps div 2) t)) s
         })"

partial_function (option) ld_chain_end :: "nat \<Rightarrow> loader \<Rightarrow> nat option option" where
  "ld_chain_end before_last s = do {
     v \<leftarrow> ld_table_get before_last s;
     if \<not> IS_END_OF_CLUSTER_CHAIN v \<and> v \<noteq> FAT16_FREE_CLUSTER then
       (if unat (num_fats (ld_fs s)) * unat (sectors_per_fat (ld_fs s)) *
             unat (bytes_per_sector (ld_fs s)) div 2 \<le> unat v
        then Some None else ld_chain_end (unat v) s)
     else Some (Some before_last)
   }"

definition ld_fat_update_chain :: "nat \<Rightarrow> nat \<Rightarrow> loader \<Rightarrow> loader option" where
  "ld_fat_update_chain starting_fat new_fat_index s =
     (if \<not> malloc_ok s (ld_cluster_bytes s) then None
      else do {
        let buffer = replicate (ld_cluster_bytes s) 0;
        b \<leftarrow> ld_chain_end starting_fat s;
        (case b of
           None \<Rightarrow> Some s
         | Some before_last \<Rightarrow> do {
             s \<leftarrow> ld_table_set before_last (of_nat new_fat_index) s;
             (r, s) \<leftarrow> ld_write_fat_entry before_last s;
             if r \<noteq> 0 then Some s
             else do {
               s \<leftarrow> ld_table_set new_fat_index FAT16_CLUSTER_CHAIN_END s;
               (r, s) \<leftarrow> ld_write_fat_entry new_fat_index s;
               if r \<noteq> 0 then Some s
               else do {
                 (r, s) \<leftarrow> ld_fat_write_data_cluster (of_nat new_fat_index) buffer s;
                 Some s
               }
             }
           })
      })"

partial_function (option) ld_free_chain_loop :: "nat \<Rightarrow> loader \<Rightarrow> (nat \<times> loader) option" where
  "ld_free_chain_loop current_index s = do {
     v \<leftarrow> ld_table_get current_index s;
     if \<not> IS_END_OF_CLUSTER_CHAIN v \<and> v \<noteq> FAT16_FREE_CLUSTER then do {
       s \<leftarrow> ld_table_set current_index FAT16_FREE_CLUSTER s;
       (r, s) \<leftarrow> ld_write_fat_entry current_index s;
       ld_free_chain_loop (unat v) s
     } else Some (current_index, s)
   }"

definition ld_fat_free_chain :: "nat \<Rightarrow> loader \<Rightarrow> loader option" where
  "ld_fat_free_chain fat_index s = do {
     (current_index, s) \<leftarrow> ld_free_chain_loop fat_index s;
     s \<leftarrow> ld_table_set current_index FAT16_FREE_CLUSTER s;
     (r, s) \<leftarrow> ld_write_fat_entry current_index s;
     Some s
   }"

fun ld_get_ith_cluster :: "nat \<Rightarrow> nat \<Rightarrow> loader \<Rightarrow> int option" where
  "ld_get_ith_cluster starting_cluster 0 s = Some (int starting_cluster)"
| "ld_get_ith_cluster starting_cluster (Suc i) s = do {
     v \<leftarrow> ld_table_get starting_cluster s;
     if IS_END_OF_CLUSTER_CHAIN v \<or> v = FAT16_FREE_CLUSTER then Some (- 1)
     else ld_get_ith_cluster (unat v) i s
   }"

fun ld_allocate_loop :: "nat \<Rightarrow> nat \<Rightarrow> loader \<Rightarrow> (bool \<times> loader) option" where
  "ld_allocate_loop start 0 s = Some (True, s)"
| "ld_allocate_loop start (Suc n) s = do {
     index \<leftarrow> ld_fat_find_free s;
     if index = - 1 then Some (False, s)
     else do { s \<leftarrow> ld_fat_update_chain start (nat index) s; ld_allocate_loop start n s }
   }"

definition ld_fat_allocate_space :: "u32 \<Rightarrow> FAT16_DirEntry \<Rightarrow> loader \<Rightarrow> (bool \<times> loader) option" where
  "ld_fat_allocate_space amount_of_clusters entry s =
     ld_allocate_loop (unat (start_cluster entry)) (unat amount_of_clusters) s"

partial_function (option) ld_cluster_amount_loop :: "nat \<Rightarrow> u32 \<Rightarrow> loader \<Rightarrow> u32 option" where
  "ld_cluster_amount_loop starting_cluster count s = do {
     v \<leftarrow> ld_table_get starting_cluster s;
     if \<not> (IS_END_OF_CLUSTER_CHAIN v \<or> v = FAT16_FREE_CLUSTER)
     then ld_cluster_amount_loop (unat v) (count + 1) s
     else Some (if IS_END_OF_CLUSTER_CHAIN v then count + 1 else count)
   }"

definition ld_fat_get_cluster_amount :: "FAT16_DirEntry \<Rightarrow> loader \<Rightarrow> u32 option" where
  "ld_fat_get_cluster_amount entry s = ld_cluster_amount_loop (unat (start_cluster entry)) 0 s"

end
