(* ===== verification/ImageDir.thy ===== *)
theory ImageDir
  imports Image
begin

text \<open>
  The image loader's directories and path operations (\<open>fs_loader/fat_loader.c\<close>). The helpers of \<open>FatDir\<close>
  that take an entry out of a cluster, put one in, scan the entries and find the end of a path
  component are shared; comparing and copying names uses the host's C library.
\<close>

section \<open>Directory entries\<close>

definition ld_entries_per_cluster :: "loader \<Rightarrow> nat" where
  "ld_entries_per_cluster s =
     unat (bytes_per_sector (ld_fs s)) div 32 * unat (sectors_per_cluster (ld_fs s))"

partial_function (option) ld_dir_walk ::
    "nat \<Rightarrow> nat \<Rightarrow> bytes \<Rightarrow> (u32 \<Rightarrow> bytes \<Rightarrow> loader \<Rightarrow> ('r option \<times> loader) option) \<Rightarrow> 'r \<Rightarrow> loader \<Rightarrow>
     ('r option \<times> loader) option" where
  "ld_dir_walk start i dir body err s = do {
     cluster_num \<leftarrow> ld_get_ith_cluster start i s;
     if cluster_num = - 1 then Some (None, s)
     else do {
       (r, dir) \<leftarrow> ld_fat_read_data_cluster (of_int cluster_num) dir s;
       if r \<noteq> 0 then Some (Some err, s)
       else do {
         (x, s) \<leftarrow> body (of_int cluster_num) dir s;
         (case x of Some v \<Rightarrow> Some (Some v, s) | None \<Rightarrow> ld_dir_walk start (Suc i) dir body err s)
       }
     }
   }"

definition ld_dir_buffer :: "loader \<Rightarrow> bytes option" where
  "ld_dir_buffer s =
     (if malloc_ok s (ld_cluster_bytes s) then Some (replicate (ld_cluster_bytes s) 0) else None)"

definition ld_fat_find_dir_entry :: "bytes \<Rightarrow> FAT16_DirEntry \<Rightarrow> loader \<Rightarrow> FAT16_DirEntry option option" where
  "ld_fat_find_dir_entry nm current_dir s =
     (if ld_table s = None then Some None
      else do {
        dir \<leftarrow> ld_dir_buffer s;
        (x, s) \<leftarrow> ld_dir_walk (unat (start_cluster current_dir)) 0 dir
          (\<lambda>cluster_num dir s. do {
             k \<leftarrow> scan_entries (\<lambda>p. iso_strncmp p nm FAT16_FILENAME_SIZE) 0 (ld_entries_per_cluster s) dir;
             Some (map_option (\<lambda>k. Some (nth_entry k dir)) k, s)
           }) None s;
        Some (case x of None \<Rightarrow> None | Some v \<Rightarrow> v)
      })"

definition ld_fat_add_dir_entry :: "FAT16_DirEntry \<Rightarrow> FAT16_DirEntry \<Rightarrow> loader \<Rightarrow> (bool \<times> loader) option" where
  "ld_fat_add_dir_entry parent_dir new_entry s =
     (if ld_table s = None then Some (False, s)
      else do {
        dir \<leftarrow> ld_dir_buffer s;
        (x, s) \<leftarrow> ld_dir_walk (unat (start_cluster parent_dir)) 0 dir
          (\<lambda>cluster_num dir s. do {
             k \<leftarrow> scan_entries (\<lambda>p. iso_strncmp p [0] FAT16_FILENAME_SIZE) 0 (ld_entries_per_cluster s) dir;
             (case k of
                None \<Rightarrow> Some (None, s)
              | Some k \<Rightarrow> do {
                  (r, s) \<leftarrow> ld_fat_write_data_cluster cluster_num (put_entry k (dirent_bytes new_entry) dir) s;
                  Some (Some (r = 0), s)
                })
           }) False s;
        (case x of
           Some v \<Rightarrow> Some (v, s)
         | None \<Rightarrow> do {
             new_fat_index \<leftarrow> ld_fat_find_free s;
             if new_fat_index = - 1 then Some (False, s)
             else do {
               s \<leftarrow> ld_fat_update_chain (unat (start_cluster parent_dir)) (nat new_fat_index) s;
               (r, dir) \<leftarrow> ld_fat_read_data_cluster (of_int new_fat_index) dir s;
               if r \<noteq> 0 then Some (False, s)
               else if length dir < 32 then None
               else do {
                 (r, s) \<leftarrow> ld_fat_write_data_cluster (of_int new_fat_index)
                   (put_entry 0 (dirent_bytes new_entry) dir) s;
                 Some (r = 0, s)
               }
             }
           })
      })"

definition ld_fat_update_dir_entry ::
    "bytes \<Rightarrow> FAT16_DirEntry \<Rightarrow> FAT16_DirEntry \<Rightarrow> loader \<Rightarrow> (bool \<times> loader) option" where
  "ld_fat_update_dir_entry nm current_dir new_entry s =
     (if ld_table s = None then Some (False, s)
      else do {
        dir \<leftarrow> ld_dir_buffer s;
        (x, s) \<leftarrow> ld_dir_walk (unat (start_cluster current_dir)) 0 dir
          (\<lambda>cluster_num dir s. do {
             k \<leftarrow> scan_entries (\<lambda>p. iso_strcmp p nm) 0 (ld_entries_per_cluster s) dir;
             (case k of
                None \<Rightarrow> Some (None, s)
              | Some k \<Rightarrow> do {
                  (r, s) \<leftarrow> ld_fat_write_data_cluster cluster_num (put_entry k (dirent_bytes new_entry) dir) s;
                  Some (Some (r = 0), s)
                })
           }) False s;
        Some (case x of None \<Rightarrow> False | Some v \<Rightarrow> v, s)
      })"

definition ld_fat_remove_dir_entry ::
    "bytes \<Rightarrow> FAT16_DirEntry \<Rightarrow> bool \<Rightarrow> loader \<Rightarrow> (bool \<times> loader) option" where
  "ld_fat_remove_dir_entry nm current_dir delete_chain s =
     (if ld_table s = None then Some (False, s)
      else do {
        dir \<leftarrow> ld_dir_buffer s;
        (x, s) \<leftarrow> ld_dir_walk (unat (start_cluster current_dir)) 0 dir
          (\<lambda>cluster_num dir s. do {
             k \<leftarrow> scan_entries (\<lambda>p. iso_strncmp p nm FAT16_FILENAME_SIZE) 0 (ld_entries_per_cluster s) dir;
             (case k of
                None \<Rightarrow> Some (None, s)
              | Some k \<Rightarrow> do {
                  s \<leftarrow> (if delete_chain then ld_fat_free_chain (unat (start_cluster (nth_entry k dir))) s
                        else Some s);
                  (r, s) \<leftarrow> ld_fat_write_data_cluster cluster_num (put_entry k (replicate 32 0) dir) s;
                  Some (Some True, s)
                })
           }) False s;
        Some (case x of None \<Rightarrow> False | Some v \<Rightarrow> v, s)
      })"

section \<open>Paths\<close>

partial_function (option) ld_path_loop ::
    "bytes \<Rightarrow> nat \<Rightarrow> nat \<Rightarrow> bytes \<Rightarrow> FAT16_DirEntry \<Rightarrow> loader \<Rightarrow> (int \<times> FAT16_DirEntry option) option" where
  "ld_path_loop path path_len start_index sub_name cur s = do {
     index \<leftarrow> component_end path path_len start_index 12;
     if 11 < index - start_index then Some (LD_DIR_NAME_EXCEEDS_LENGTH, None)
     else do {
       sub_name \<leftarrow> iso_memset sub_name 0 FAT16_FILENAME_SIZE;
       sub_name \<leftarrow> iso_strncpy sub_name (drop start_index path) (index - start_index);
       if start_index = 0 then do {
         e \<leftarrow> iso_strncmp sub_name [0] FAT16_FILENAME_SIZE;
         t \<leftarrow> iso_strncmp sub_name (c_str ''~'') FAT16_FILENAME_SIZE;
         if e \<noteq> 0 \<and> t \<noteq> 0 then Some (LD_DIR_NOT_FOUND, None)
         else ld_path_loop path path_len (Suc index) sub_name cur s
       }
       else if int path_len - 1 \<le> int index then do {
         x \<leftarrow> ld_fat_find_dir_entry sub_name cur s;
         (case x of
            None \<Rightarrow> Some (if int index = int path_len - 1 then LD_DIR_NOT_FOUND else LD_FILE_NOT_FOUND, None)
          | Some cur \<Rightarrow> Some (LD_SUCCESS, Some cur))
       }
       else if attr cur AND FAT_ATTR_DIRECTORY = 0 then Some (LD_DIR_NOT_FOUND, None)
       else do {
         x \<leftarrow> ld_fat_find_dir_entry sub_name cur s;
         (case x of
            None \<Rightarrow> Some (LD_DIR_NOT_FOUND, None)
          | Some cur \<Rightarrow> ld_path_loop path path_len (Suc index) sub_name cur s)
       }
     }
   }"

definition ld_fat_find_dir_entry_from_path :: "bytes \<Rightarrow> loader \<Rightarrow> (int \<times> FAT16_DirEntry option) option" where
  "ld_fat_find_dir_entry_from_path path s = do {
     path_len \<leftarrow> iso_strlen path;
     a \<leftarrow> iso_strncmp path (c_str ''~/'') 3;
     b \<leftarrow> (if a = 0 then Some 0 else iso_strncmp path (c_str ''/'') 2);
     c \<leftarrow> (if b = 0 then Some 0 else iso_strncmp path (c_str ''./'') 3);
     if c = 0 then Some (LD_SUCCESS, Some (ld_root_dir s))
     else ld_path_loop path path_len 0 (replicate 12 0) (ld_root_dir s) s
   }"

fun ld_legal_chars :: "bytes \<Rightarrow> bool option" where
  "ld_legal_chars [] = None"
| "ld_legal_chars (c # p) =
     (if c = 0 then Some True
      else if \<not> iso_isalnum c \<and> c \<noteq> 0x2D \<and> c \<noteq> 0x5F \<and> c \<noteq> 0x2E then Some False
      else ld_legal_chars p)"

definition ld_check_file_name :: "bytes \<Rightarrow> bool option" where
  "ld_check_file_name file_name = do {
     ok \<leftarrow> ld_legal_chars file_name;
     if \<not> ok then Some False
     else do {
       a \<leftarrow> iso_strcmp file_name [0];
       b \<leftarrow> iso_strcmp file_name (c_str ''.'');
       c \<leftarrow> iso_strcmp file_name (c_str ''..'');
       d \<leftarrow> iso_strcmp file_name (c_str ''~'');
       Some (\<not> (a = 0 \<or> b = 0 \<or> c = 0 \<or> d = 0))
     }
   }"

text \<open>What \<open>path_copy[1024]\<close> holds before is overwritten or behind the terminator, so it is taken as zeros.\<close>

definition ld_get_parent_dir :: "bytes \<Rightarrow> bytes \<Rightarrow> bytes option" where
  "ld_get_parent_dir path parent_dir = do {
     path_copy \<leftarrow> iso_strcpy (replicate 1024 0) path;
     last_slash \<leftarrow> iso_strrchr path_copy 0x2F;
     let directory = (case last_slash of Some i \<Rightarrow> path_copy[i := 0] | None \<Rightarrow> path_copy);
     n \<leftarrow> iso_strlen directory;
     if n = 0 then iso_strcpy parent_dir (c_str ''/'') else iso_strcpy parent_dir directory
   }"

definition ld_get_base_name :: "bytes \<Rightarrow> bytes \<Rightarrow> bytes option" where
  "ld_get_base_name path nm = do {
     path_copy \<leftarrow> iso_strcpy (replicate 1024 0) path;
     last_slash \<leftarrow> iso_strrchr path_copy 0x2F;
     let path_copy = (case last_slash of Some i \<Rightarrow> path_copy[i := 0] | None \<Rightarrow> path_copy);
     iso_strcpy nm (case last_slash of Some i \<Rightarrow> drop (Suc i) path_copy | None \<Rightarrow> path_copy)
   }"

section \<open>Operations on paths\<close>

definition ld_add_dot_entry :: "string \<Rightarrow> u16 \<Rightarrow> FAT16_DirEntry \<Rightarrow> loader \<Rightarrow> (bool \<times> loader) option" where
  "ld_add_dot_entry nm cluster dir s = do {
     n \<leftarrow> iso_strcpy (name zero_entry) (c_str nm);
     ld_fat_add_dir_entry dir (zero_entry\<lparr>start_cluster := cluster,
       attr := attr zero_entry OR FAT_ATTR_DIRECTORY, name := n\<rparr>) s
   }"

text \<open>
  The end of \<open>fat_create\<close>: the parent's count of entries goes up by two, also for a file, and is
  recorded in the parent's own parent.
\<close>

definition ld_create_finish :: "bytes \<Rightarrow> FAT16_DirEntry \<Rightarrow> loader \<Rightarrow> (int \<times> loader) option" where
  "ld_create_finish directory parent_dir s = do {
     let parent_dir = parent_dir\<lparr>file_size := file_size parent_dir + 1\<rparr>;
     parent_parent \<leftarrow> ld_get_parent_dir directory (replicate 1024 0);
     (err, pp) \<leftarrow> ld_fat_find_dir_entry_from_path parent_parent s;
     (case pp of
        None \<Rightarrow> Some (err, s)
      | Some parent_parent_dir \<Rightarrow> do {
          let parent_dir = parent_dir\<lparr>file_size := file_size parent_dir + 1\<rparr>;
          (_, s) \<leftarrow> ld_fat_update_dir_entry (dirent_bytes parent_dir) parent_parent_dir parent_dir s;
          Some (LD_SUCCESS, s)
        })
   }"

definition ld_fat_create :: "bytes \<Rightarrow> bool \<Rightarrow> loader \<Rightarrow> (int \<times> loader) option" where
  "ld_fat_create path is_directory s = do {
     dir_name \<leftarrow> ld_get_base_name path (replicate 12 0);
     directory \<leftarrow> ld_get_parent_dir path (replicate 1024 0);
     ok \<leftarrow> ld_check_file_name dir_name;
     if \<not> ok then Some (LD_INVALID_FILE_NAME, s)
     else do {
       (err, p) \<leftarrow> ld_fat_find_dir_entry_from_path directory s;
       (case p of
          None \<Rightarrow> Some (err, s)
        | Some parent_dir \<Rightarrow>
            if attr parent_dir AND FAT_ATTR_DIRECTORY = 0 then Some (LD_DIR_NOT_FOUND, s)
            else do {
              x \<leftarrow> ld_fat_find_dir_entry dir_name parent_dir s;
              if x \<noteq> None then Some (LD_FILE_ALREADY_EXISTS, s)
              else do {
                i \<leftarrow> ld_fat_find_free s;
                let cluster = (word_of_int i :: u16);
                s \<leftarrow> ld_fat_update_chain (unat cluster) (unat cluster) s;
                nm \<leftarrow> iso_strncpy (name zero_entry) dir_name FAT16_FILENAME_SIZE;
                let dir = zero_entry\<lparr>start_cluster := cluster, name := nm\<rparr>;
                let dir = (if is_directory then dir\<lparr>attr := attr dir OR FAT_ATTR_DIRECTORY\<rparr> else dir);
                (ok, s) \<leftarrow> ld_fat_add_dir_entry parent_dir dir s;
                if \<not> ok then do { s \<leftarrow> ld_fat_free_chain (unat cluster) s; Some (LD_GENERAL_ERROR, s) }
                else do {
                  (ok, s) \<leftarrow> (if is_directory then ld_add_dot_entry ''.'' cluster dir s else Some (True, s));
                  (ok, s) \<leftarrow> (if ok \<and> is_directory
                               then ld_add_dot_entry ''..'' (start_cluster parent_dir) dir s else Some (ok, s));
                  if \<not> ok then do { s \<leftarrow> ld_fat_free_chain (unat cluster) s; Some (LD_GENERAL_ERROR, s) }
                  else ld_create_finish directory parent_dir s
                }
              }
            })
     }
   }"

definition ld_fat_delete :: "bytes \<Rightarrow> bool \<Rightarrow> loader \<Rightarrow> (int \<times> loader) option" where
  "ld_fat_delete path is_directory s = do {
     dir_name \<leftarrow> ld_get_base_name path (replicate 12 0);
     parent_dir_name \<leftarrow> ld_get_parent_dir path (replicate 1024 0);
     parent_parent_dir_name \<leftarrow> ld_get_parent_dir parent_dir_name (replicate 1024 0);
     (err, d) \<leftarrow> ld_fat_find_dir_entry_from_path path s;
     (case d of
        None \<Rightarrow> Some (err, s)
      | Some dir \<Rightarrow>
          if is_directory \<and> attr dir = 0 then Some (LD_DIR_NOT_FOUND, s)
          else if is_directory \<and> file_size dir \<noteq> 0 then Some (LD_DIRECTORY_ISNT_EMPTY, s)
          else if \<not> is_directory \<and> attr dir AND FAT_ATTR_DIRECTORY \<noteq> 0 then Some (LD_FILE_NOT_FOUND, s)
          else do {
            (err, p) \<leftarrow> ld_fat_find_dir_entry_from_path parent_dir_name s;
            (case p of
               None \<Rightarrow> Some (err, s)
             | Some parent_dir \<Rightarrow> do {
                 (err, pp) \<leftarrow> ld_fat_find_dir_entry_from_path parent_parent_dir_name s;
                 (case pp of
                    None \<Rightarrow> Some (err, s)
                  | Some parent_parent_dir \<Rightarrow> do {
                      (_, s) \<leftarrow> ld_fat_remove_dir_entry dir_name parent_dir True s;
                      let parent_dir = parent_dir\<lparr>file_size := file_size parent_dir - 1\<rparr>;
                      (_, s) \<leftarrow> ld_fat_update_dir_entry (dirent_bytes parent_dir) parent_parent_dir parent_dir s;
                      Some (LD_SUCCESS, s)
                    })
               })
          })
   }"

text \<open>As in the kernel, the two functions that create have no return statement.\<close>

definition ld_fat_create_file :: "bytes \<Rightarrow> loader \<Rightarrow> loader option" where
  "ld_fat_create_file path s = map_option snd (ld_fat_create path False s)"

definition ld_fat_create_directory :: "bytes \<Rightarrow> loader \<Rightarrow> loader option" where
  "ld_fat_create_directory path s = map_option snd (ld_fat_create path True s)"

definition ld_fat_delete_file :: "bytes \<Rightarrow> loader \<Rightarrow> (int \<times> loader) option" where
  "ld_fat_delete_file path s = ld_fat_delete path False s"

definition ld_fat_delete_dir :: "bytes \<Rightarrow> loader \<Rightarrow> (int \<times> loader) option" where
  "ld_fat_delete_dir path s = ld_fat_delete path True s"

definition ld_fat_rename :: "bytes \<Rightarrow> bytes \<Rightarrow> loader \<Rightarrow> (int \<times> loader) option" where
  "ld_fat_rename path new_name s = do {
     (err, f) \<leftarrow> ld_fat_find_dir_entry_from_path path s;
     (case f of
        None \<Rightarrow> Some (err, s)
      | Some file \<Rightarrow> do {
          directory \<leftarrow> ld_get_parent_dir path (replicate 1024 0);
          (err, p) \<leftarrow> ld_fat_find_dir_entry_from_path directory s;
          (case p of
             None \<Rightarrow> Some (err, s)
           | Some parent_dir \<Rightarrow>
               if attr parent_dir AND FAT_ATTR_DIRECTORY = 0 then Some (LD_DIR_NOT_FOUND, s)
               else do {
                 n \<leftarrow> iso_strlen new_name;
                 if FAT16_FILENAME_SIZE < n then Some (LD_FILE_NAME_EXCEEDS_LENGTH, s)
                 else do {
                   ok \<leftarrow> ld_check_file_name new_name;
                   if \<not> ok then Some (LD_INVALID_FILE_NAME, s)
                   else do {
                     previous_name \<leftarrow> iso_strncpy (replicate 12 0) (dirent_bytes file) FAT16_FILENAME_SIZE;
                     nm \<leftarrow> iso_memset (name file) 0 FAT16_FILENAME_SIZE;
                     nm \<leftarrow> iso_strncpy nm new_name FAT16_FILENAME_SIZE;
                     let file = file\<lparr>name := nm\<rparr>;
                     x \<leftarrow> ld_fat_find_dir_entry (dirent_bytes file) parent_dir s;
                     if x \<noteq> None then Some (LD_FILE_ALREADY_EXISTS, s)
                     else do {
                       (ok, s) \<leftarrow> ld_fat_update_dir_entry previous_name parent_dir file s;
                       Some (if ok then LD_SUCCESS else LD_GENERAL_ERROR, s)
                     }
                   }
                 }
               })
        })
   }"

text \<open>\<open>FileData data = {0}\<close>: what a query that fails returns.\<close>

definition zero_data :: FileData where
  "zero_data = \<lparr>file_entry = zero_entry, parent_entry = zero_entry\<rparr>"

definition ld_entry_data :: "bytes \<Rightarrow> FAT16_DirEntry \<Rightarrow> loader \<Rightarrow> FileData option" where
  "ld_entry_data path entry s = do {
     parent_path \<leftarrow> ld_get_parent_dir path (replicate 1024 0);
     (err, p) \<leftarrow> ld_fat_find_dir_entry_from_path parent_path s;
     Some \<lparr>file_entry = entry, parent_entry = (case p of None \<Rightarrow> zero_entry | Some parent \<Rightarrow> parent)\<rparr>
   }"

definition ld_fat_get_file_data :: "bytes \<Rightarrow> loader \<Rightarrow> FileData option" where
  "ld_fat_get_file_data path s = do {
     (err, f) \<leftarrow> ld_fat_find_dir_entry_from_path path s;
     (case f of
        None \<Rightarrow> Some zero_data
      | Some file \<Rightarrow>
          if attr file AND FAT_ATTR_DIRECTORY \<noteq> 0 then Some zero_data else ld_entry_data path file s)
   }"

definition ld_fat_get_dir_data :: "bytes \<Rightarrow> loader \<Rightarrow> FileData option" where
  "ld_fat_get_dir_data path s = do {
     (err, d) \<leftarrow> ld_fat_find_dir_entry_from_path path s;
     (case d of
        None \<Rightarrow> Some zero_data
      | Some dir \<Rightarrow>
          if attr dir AND FAT_ATTR_DIRECTORY = 0 then Some zero_data else ld_entry_data path dir s)
   }"

end
