(* ===== verification/ImageFile.thy ===== *)
theory ImageFile
  imports ImageDir FatFile
begin

text \<open>
  The image loader's file data and its main program (\<open>fs_loader/fat_loader.c\<close>). Unlike the kernel's,
  this \<open>fat_write\<close> allocates clusters while it writes, and records every change of the table
  in all of its copies.
\<close>

section \<open>Reading\<close>

definition ld_bytes_per_cluster :: "loader \<Rightarrow> u32" where
  "ld_bytes_per_cluster s = of_nat (ld_cluster_bytes s)"

fun ld_skip_clusters :: "u32 \<Rightarrow> nat \<Rightarrow> loader \<Rightarrow> u32 option option" where
  "ld_skip_clusters current_cluster 0 s = Some (Some current_cluster)"
| "ld_skip_clusters current_cluster (Suc n) s =
     (if ucast FAT16_CLUSTER_CHAIN_END \<le> current_cluster \<or> current_cluster = 0 then Some None
      else do {
        v \<leftarrow> ld_table_get (unat current_cluster) s;
        ld_skip_clusters (ucast v) n s
      })"

partial_function (option) ld_read_loop ::
    "u32 \<Rightarrow> u32 \<Rightarrow> u32 \<Rightarrow> u32 \<Rightarrow> bytes \<Rightarrow> bytes \<Rightarrow> loader \<Rightarrow> (int \<times> bytes) option" where
  "ld_read_loop sz bytes_read current_cluster cluster_offset cluster_buffer buffer s =
     (if bytes_read < sz \<and> current_cluster < ucast FAT16_CLUSTER_CHAIN_END \<and> current_cluster \<noteq> 0 then do {
        (r, cluster_buffer) \<leftarrow> ld_fat_read_data_cluster current_cluster cluster_buffer s;
        if r \<noteq> 0 then Some (- 1, buffer)
        else do {
          let bytes_to_copy = min (ld_bytes_per_cluster s - cluster_offset) (sz - bytes_read);
          buffer \<leftarrow> copy_into buffer (unat bytes_read) (drop (unat cluster_offset) cluster_buffer)
                     (unat bytes_to_copy);
          let bytes_read = bytes_read + bytes_to_copy;
          if bytes_read < sz then do {
            v \<leftarrow> ld_table_get (unat current_cluster) s;
            ld_read_loop sz bytes_read (ucast v) 0 cluster_buffer buffer s
          } else ld_read_loop sz bytes_read current_cluster 0 cluster_buffer buffer s
        }
      } else Some (sint bytes_read, buffer))"

definition ld_fat_read :: "FAT16_DirEntry \<Rightarrow> u32 \<Rightarrow> u32 \<Rightarrow> bytes \<Rightarrow> loader \<Rightarrow> (int \<times> bytes) option" where
  "ld_fat_read file offset sz buffer s =
     (if attr file AND FAT_ATTR_DIRECTORY \<noteq> 0 then Some (- 1, buffer)
      else if file_size file \<le> offset then Some (0, buffer)
      else if ld_bytes_per_cluster s = 0 then None
      else do {
        let sz = (if file_size file < offset + sz then file_size file - offset else sz);
        c \<leftarrow> ld_skip_clusters (ucast (start_cluster file)) (unat (offset div ld_bytes_per_cluster s)) s;
        (case c of
           None \<Rightarrow> Some (- 1, buffer)
         | Some current_cluster \<Rightarrow>
             if \<not> malloc_ok s (ld_cluster_bytes s) then Some (LD_GENERAL_ERROR, buffer)
             else ld_read_loop sz 0 current_cluster (offset mod ld_bytes_per_cluster s)
                    (replicate (ld_cluster_bytes s) 0) buffer s)
      })"

section \<open>Writing\<close>

text \<open>
  One entry in one copy of the table: its sector is read into the 512-byte \<open>fat_sector_data\<close>, the entry
  replaced, the sector written back.
\<close>

definition ld_put_copy :: "nat \<Rightarrow> u32 \<Rightarrow> u16 \<Rightarrow> loader \<Rightarrow> (bool \<times> loader) option" where
  "ld_put_copy fat cluster v s =
     (let g = ld_fs s; bps = ucast (bytes_per_sector g) :: u32;
          fat_sector = ucast (reserved_sectors g) + of_nat (fat * unat (sectors_per_fat g)) + cluster * 2 div bps;
          sector_offset = unat (cluster * 2 mod bps)
      in if bps = 0 then None
         else do {
           (r, fat_sector_data) \<leftarrow> ld_ata_read fat_sector 1 (replicate 512 0) s;
           if r \<noteq> 0 then Some (False, s)
           else do {
             fat_sector_data \<leftarrow> copy_into fat_sector_data sector_offset (le16_bytes v) 2;
             (r, s) \<leftarrow> ld_ata_write fat_sector 1 fat_sector_data s;
             Some (r = 0, s)
           }
         })"

text \<open>The loop over the copies: in each of them the given entries one after the other.\<close>

fun ld_put_entries :: "nat \<Rightarrow> (u32 \<times> u16) list \<Rightarrow> loader \<Rightarrow> (bool \<times> loader) option" where
  "ld_put_entries fat [] s = Some (True, s)"
| "ld_put_entries fat ((cluster, v) # es) s = do {
     (ok, s) \<leftarrow> ld_put_copy fat cluster v s;
     if ok then ld_put_entries fat es s else Some (False, s)
   }"

fun ld_put_copies :: "nat \<Rightarrow> nat \<Rightarrow> (u32 \<times> u16) list \<Rightarrow> loader \<Rightarrow> (bool \<times> loader) option" where
  "ld_put_copies fat 0 es s = Some (True, s)"
| "ld_put_copies fat (Suc n) es s = do {
     (ok, s) \<leftarrow> ld_put_entries fat es s;
     if ok then ld_put_copies (Suc fat) n es s else Some (False, s)
   }"

text \<open>
  Extending the chain behind \<open>current_cluster\<close>: in memory, then in every copy. The answer is the new
  cluster, \<open>Inl False\<close> when no cluster is free and \<open>Inl True\<close> when a transfer failed.
\<close>

definition ld_extend :: "u32 \<Rightarrow> loader \<Rightarrow> ((bool + u32) \<times> loader) option" where
  "ld_extend current_cluster s = do {
     i \<leftarrow> ld_fat_find_free s;
     let new_cluster = (word_of_int i :: u32);
     if new_cluster = - 1 then Some (Inl False, s)
     else do {
       s \<leftarrow> ld_table_set (unat current_cluster) (ucast new_cluster) s;
       s \<leftarrow> ld_table_set (unat new_cluster) FAT16_CLUSTER_CHAIN_END s;
       (ok, s) \<leftarrow> ld_put_copies 0 (unat (num_fats (ld_fs s)))
         [(current_cluster, ucast new_cluster), (new_cluster, FAT16_CLUSTER_CHAIN_END)] s;
       Some (if ok then Inr new_cluster else Inl True, s)
     }
   }"

text \<open>The first cluster of a file that has none; \<open>None\<close> inside is the return of \<open>-1\<close>.\<close>

definition ld_first_cluster :: "FAT16_DirEntry \<Rightarrow> loader \<Rightarrow> (u32 option \<times> FAT16_DirEntry \<times> loader) option" where
  "ld_first_cluster file s =
     (if start_cluster file \<noteq> 0 then Some (Some (ucast (start_cluster file)), file, s)
      else do {
        i \<leftarrow> ld_fat_find_free s;
        let current_cluster = (word_of_int i :: u32);
        if current_cluster = - 1 then Some (None, file, s)
        else do {
          let file = file\<lparr>start_cluster := ucast current_cluster\<rparr>;
          s \<leftarrow> ld_table_set (unat current_cluster) FAT16_CLUSTER_CHAIN_END s;
          (ok, s) \<leftarrow> ld_put_copies 0 (unat (num_fats (ld_fs s))) [(current_cluster, FAT16_CLUSTER_CHAIN_END)] s;
          Some (if ok then Some current_cluster else None, file, s)
        }
      })"

fun ld_traverse :: "u32 \<Rightarrow> nat \<Rightarrow> loader \<Rightarrow> (u32 option \<times> loader) option" where
  "ld_traverse current_cluster 0 s = Some (Some current_cluster, s)"
| "ld_traverse current_cluster (Suc n) s =
     (if ucast FAT16_CLUSTER_CHAIN_END \<le> current_cluster then do {
        (x, s) \<leftarrow> ld_extend current_cluster s;
        (case x of Inl _ \<Rightarrow> Some (None, s) | Inr new_cluster \<Rightarrow> ld_traverse new_cluster n s)
      } else do {
        v \<leftarrow> ld_table_get (unat current_cluster) s;
        ld_traverse (ucast v) n s
      })"

text \<open>The answer of the loop is the number of bytes written, or \<open>None\<close> for the return of \<open>-1\<close>.\<close>

partial_function (option) ld_write_loop ::
    "u32 \<Rightarrow> u32 \<Rightarrow> u32 \<Rightarrow> u32 \<Rightarrow> bytes \<Rightarrow> bytes \<Rightarrow> loader \<Rightarrow> (u32 option \<times> loader) option" where
  "ld_write_loop sz bytes_written current_cluster cluster_offset cluster_buffer buffer s =
     (if bytes_written < sz then do {
        (r, cluster_buffer) \<leftarrow>
          (if 0 < cluster_offset \<or> sz - bytes_written < ld_bytes_per_cluster s
           then ld_fat_read_data_cluster current_cluster cluster_buffer s else Some (0, cluster_buffer));
        if r \<noteq> 0 then Some (None, s)
        else do {
          let bytes_to_write = min (ld_bytes_per_cluster s - cluster_offset) (sz - bytes_written);
          cluster_buffer \<leftarrow> copy_into cluster_buffer (unat cluster_offset)
            (drop (unat bytes_written) buffer) (unat bytes_to_write);
          (r, s) \<leftarrow> ld_fat_write_data_cluster current_cluster cluster_buffer s;
          if r \<noteq> 0 then Some (None, s)
          else do {
            let bytes_written = bytes_written + bytes_to_write;
            if bytes_written < sz then do {
              v \<leftarrow> ld_table_get (unat current_cluster) s;
              if FAT16_CLUSTER_CHAIN_END \<le> v then do {
                (x, s) \<leftarrow> ld_extend current_cluster s;
                (case x of
                   Inl failed \<Rightarrow> Some (if failed then None else Some bytes_written, s)
                 | Inr new_cluster \<Rightarrow> ld_write_loop sz bytes_written new_cluster 0 cluster_buffer buffer s)
              } else ld_write_loop sz bytes_written (ucast v) 0 cluster_buffer buffer s
            } else ld_write_loop sz bytes_written current_cluster 0 cluster_buffer buffer s
          }
        }
      } else Some (Some bytes_written, s))"

text \<open>The end of \<open>fat_write\<close>: a larger size is recorded in the directory; a failure of that is only reported.\<close>

definition ld_write_size ::
    "FAT16_DirEntry \<Rightarrow> FAT16_DirEntry \<Rightarrow> u32 \<Rightarrow> u32 \<Rightarrow> loader \<Rightarrow> (int \<times> FAT16_DirEntry \<times> loader) option" where
  "ld_write_size file parent_dir offset bytes_written s =
     (let new_size = offset + bytes_written
      in if file_size file < new_size then do {
           let file = file\<lparr>file_size := new_size\<rparr>;
           (_, s) \<leftarrow> ld_fat_update_dir_entry (dirent_bytes file) parent_dir file s;
           Some (sint bytes_written, file, s)
         } else Some (sint bytes_written, file, s))"

definition ld_fat_write ::
    "FAT16_DirEntry \<Rightarrow> FAT16_DirEntry \<Rightarrow> u32 \<Rightarrow> u32 \<Rightarrow> bytes \<Rightarrow> loader \<Rightarrow>
     (int \<times> FAT16_DirEntry \<times> loader) option" where
  "ld_fat_write file parent_dir offset sz buffer s =
     (if attr file AND FAT_ATTR_DIRECTORY \<noteq> 0 then Some (- 1, file, s)
      else if ld_bytes_per_cluster s = 0 then None
      else do {
        let start_cluster_index = unat (offset div ld_bytes_per_cluster s);
        let cluster_offset = offset mod ld_bytes_per_cluster s;
        (c, file, s) \<leftarrow> ld_first_cluster file s;
        (case c of
           None \<Rightarrow> Some (- 1, file, s)
         | Some current_cluster \<Rightarrow> do {
             (c, s) \<leftarrow> ld_traverse current_cluster start_cluster_index s;
             (case c of
                None \<Rightarrow> Some (- 1, file, s)
              | Some current_cluster \<Rightarrow>
                  if \<not> malloc_ok s (ld_cluster_bytes s) then Some (LD_GENERAL_ERROR, file, s)
                  else do {
                    (n, s) \<leftarrow> ld_write_loop sz 0 current_cluster cluster_offset
                      (replicate (ld_cluster_bytes s) 0) buffer s;
                    (case n of
                       None \<Rightarrow> Some (- 1, file, s)
                     | Some bytes_written \<Rightarrow> ld_write_size file parent_dir offset bytes_written s)
                  })
           })
      })"

section \<open>The main program\<close>

text \<open>
  \<open>main\<close> copies a file of the host into the image. Its result is the exit code and the contents the image
  file is left with. \<open>fat_create_file\<close> has no return statement, so the value that is compared
  with zero is not determined by the program: it is the argument \<open>returned\<close>.
\<close>

definition ld_main ::
    "(bytes \<Rightarrow> bytes option) \<Rightarrow> int \<Rightarrow> bytes list \<Rightarrow> loader \<Rightarrow> (int \<times> bytes option) option" where
  "ld_main files returned argv s =
     (if length argv < 4 then Some (1, None)
      else do {
        let s = ld_ata_init files (argv ! 1) s;
        (_, s) \<leftarrow> ld_fat_init s;
        s \<leftarrow> ld_fat_create_file (argv ! 2) s;
        if returned \<noteq> 0 then Some (1, ata_file s)
        else do {
          d \<leftarrow> ld_fat_get_file_data (argv ! 2) s;
          (case files (argv ! 3) of
             None \<Rightarrow> Some (1, ata_file s)
           | Some contents \<Rightarrow>
               if \<not> malloc_ok s (length contents) then Some (1, ata_file s)
               else do {
                 (_, _, s) \<leftarrow> ld_fat_write (file_entry d) (parent_entry d) 0 (of_nat (length contents)) contents s;
                 Some (0, ata_file s)
               })
        }
      })"

end
