(* ===== verification/ImageCorrect.thy ===== *)
theory ImageCorrect
  imports ImageFile
begin

text \<open>
  The image loader writes what the kernel reads. The loader's state is viewed as a kernel file system
  (\<open>as_fat\<close>: the image is the disk, the part of the table that the volume has is the table), so that
  chains, clusters and directory entries mean the same on both sides; the loader's transfers,
  table accesses and directory searches are then the kernel's on that view.
\<close>

section \<open>The image as a disk\<close>

definition image_disk :: "bytes option \<Rightarrow> hdd" where
  "image_disk f = \<lparr>present = (f \<noteq> None), sectors = (\<lambda>i. take 512 (drop (512 * i) (the f) @ replicate 512 0))\<rparr>"

definition as_fat :: "loader \<Rightarrow> fat" where
  "as_fat s = \<lparr>fat16_fs = ld_fs s, fat_table = map_option (take (256 * unat (sectors_per_fat (ld_fs s)))) (ld_table s),
     root_dir = ld_root_dir s, disk = image_disk (ata_file s), kmalloc_ok = malloc_ok s,
     heap_junk = malloc_junk s, stack_junk = []\<rparr>"

lemma as_fat_simps [simp]:
  "fat16_fs (as_fat s) = ld_fs s" "disk (as_fat s) = image_disk (ata_file s)" "kmalloc_ok (as_fat s) = malloc_ok s"
  "cluster_bytes (as_fat s) = ld_cluster_bytes s"
  "fat_table (as_fat s) = map_option (take (256 * unat (sectors_per_fat (ld_fs s)))) (ld_table s)"
  by (simp_all add: as_fat_def cluster_bytes_def ld_cluster_bytes_def)

lemma ld_cluster_bytes_updates [simp]:
  "ld_cluster_bytes (s\<lparr>ata_file := x\<rparr>) = ld_cluster_bytes s" "ld_cluster_bytes (s\<lparr>ld_table := y\<rparr>) = ld_cluster_bytes s"
  by (simp_all add: ld_cluster_bytes_def)

lemma image_disk_simps [simp]:
  "present (image_disk (Some f))" "hdd_ok (image_disk (Some f))"
  by (simp_all add: image_disk_def hdd_ok_def min_def)

lemma image_sector:
  assumes "512 * Suc i \<le> length f"
  shows "sectors (image_disk (Some f)) i = take 512 (drop (512 * i) f)"
  using assms by (simp add: image_disk_def)

lemma image_sectors:
  "512 * (n + k) \<le> length f \<Longrightarrow>
    concat (map (\<lambda>i. sectors (image_disk (Some f)) (n + i)) [0..<k]) = take (512 * k) (drop (512 * n) f)"
proof (induction k)
  case (Suc k)
  then have "sectors (image_disk (Some f)) (n + k) = take 512 (drop (512 * (n + k)) f)"
    by (intro image_sector) simp
  with Suc show ?case using take_add[of "512 * k" 512 "drop (512 * n) f"] by (simp add: add.commute mult.commute)
qed simp

lemma ld_ata_read_view:
  assumes "ata_file s = Some f" and "512 * (unat n + unat c) \<le> length f"
  shows "ld_ata_read n c buf s = disk_read n c buf (disk (as_fat s))"
proof -
  have "length (take (unat c * 512) (drop (unat n * 512) f)) = unat c * 512" using assms(2) by simp
  then show ?thesis
    using assms image_sectors[of "unat n" "unat c" f]
    by (simp only: ld_ata_read_def disk_read_def Let_def as_fat_simps assms(1) option.case image_disk_simps)
      (auto simp: mult.commute)
qed

lemma length_file_put: "offset + length d \<le> length f \<Longrightarrow> length (file_put offset d f) = length f"
  by (simp add: file_put_def)

lemma image_file_put:
  assumes fit: "512 * (n + k) \<le> length f" and len: "length d = 512 * k"
  shows "sectors (image_disk (Some (file_put (512 * n) d f))) =
    (\<lambda>i. if n \<le> i \<and> i < n + k then take 512 (drop (512 * (i - n)) d) else sectors (image_disk (Some f)) i)"
proof (rule ext)
  fix i
  let ?g = "file_put (512 * n) d f" and ?z = "replicate 512 (0 :: u8)"
  have g: "?g = take (512 * n) f @ d @ drop (512 * (n + k)) f"
    using fit len by (auto simp: file_put_def algebra_simps)
  consider "i < n" | "n \<le> i" "i < n + k" | "n + k \<le> i" by linarith
  then show "sectors (image_disk (Some ?g)) i =
      (if n \<le> i \<and> i < n + k then take 512 (drop (512 * (i - n)) d) else sectors (image_disk (Some f)) i)"
  proof cases
    case 1
    then have i: "512 * i + 512 \<le> 512 * n" by simp
    have "take 512 (drop (512 * i) ?g) = take 512 (drop (512 * i) f)"
      unfolding g using i fit by (simp add: drop_take)
    moreover have "length ?g = length f" using fit len by (intro length_file_put) simp
    ultimately show ?thesis using 1 fit by (simp add: image_sector)
  next
    case 2
    then have i: "512 * i = 512 * n + 512 * (i - n)" and "512 * (i - n) + 512 \<le> length d" using len by simp_all
    moreover have "drop (512 * i) ?g = drop (512 * (i - n)) (d @ drop (512 * (n + k)) f)"
      unfolding g using fit by (subst i) (simp flip: drop_drop)
    moreover have "length ?g = length f" using fit len by (intro length_file_put) simp
    ultimately show ?thesis using 2 fit by (simp add: image_sector)
  next
    case 3
    let ?m = "512 * (n + k)" and ?p = "take (512 * n) f @ d"
    have p: "length ?p = ?m" using fit len by simp
    have "drop (512 * i) ?g = drop (512 * i) (?p @ drop ?m f)" by (simp only: g append_assoc)
    also have "\<dots> = drop (512 * i - ?m) (drop ?m f)" using 3 p by (simp only: drop_append) simp
    also have "\<dots> = drop (512 * i) f" using 3 by (simp only: drop_drop) simp
    finally have "drop (512 * i) ?g = drop (512 * i) f" .
    moreover have "length ?g = length f" using fit len by (intro length_file_put) simp
    ultimately show ?thesis using 3 by (simp add: image_disk_def)
  qed
qed

section \<open>A well-formed loader\<close>

text \<open>
  The loader with an open image of a mounted volume: the image contains the area of the tables, the table in
  memory has room for the volume's (so at most 128 sectors), the host grants memory for a cluster and takes whole writes.
  How far the image reaches behind the tables is left open: the table usually has entries for more
  clusters than there are, and only the clusters a theorem is about have to lie in the image.
\<close>

definition img_ok :: "loader \<Rightarrow> bool" where
  "img_ok s \<longleftrightarrow> (\<exists>f. ata_file s = Some f \<and> 512 * unat (root_dir_start (ld_fs s)) \<le> length f) \<and>
     (\<forall>p n. n \<le> accepts s p n) \<and> malloc_ok s (ld_cluster_bytes s) \<and>
     bytes_per_sector (ld_fs s) = 512 \<and> 0 < sectors_per_cluster (ld_fs s) \<and> 0 < num_fats (ld_fs s) \<and>
     unat (sectors_per_fat (ld_fs s)) \<le> 128 \<and> unat (root_dir_start (ld_fs s)) < 2 ^ 27 \<and>
     unat (reserved_sectors (ld_fs s)) + unat (num_fats (ld_fs s)) * unat (sectors_per_fat (ld_fs s))
       \<le> unat (root_dir_start (ld_fs s))"

definition in_image :: "loader \<Rightarrow> nat \<Rightarrow> bool" where
  "in_image s c \<longleftrightarrow> 512 * (unat (root_dir_start (ld_fs s)) + Suc c * unat (sectors_per_cluster (ld_fs s)))
     \<le> length (the (ata_file s))"

lemma in_image_mono:
  assumes "in_image s c" and "k \<le> c"
  shows "in_image s k"
proof -
  have "512 * (unat (root_dir_start (ld_fs s)) + Suc k * unat (sectors_per_cluster (ld_fs s))) \<le>
      512 * (unat (root_dir_start (ld_fs s)) + Suc c * unat (sectors_per_cluster (ld_fs s)))"
    using assms(2) by (intro mult_le_mono2 add_left_mono mult_le_mono1) simp
  also have "\<dots> \<le> length (the (ata_file s))" using assms(1) by (simp only: in_image_def)
  finally show ?thesis by (simp only: in_image_def)
qed

definition ld_ok :: "loader \<Rightarrow> u16 list \<Rightarrow> bool" where
  "ld_ok s t \<longleftrightarrow> img_ok s \<and> length t = 256 * unat (sectors_per_fat (ld_fs s)) \<and>
     (\<exists>u. ld_table s = Some (t @ u))"

lemma ld_okD:
  assumes "ld_ok s t"
  shows "img_ok s" "length t = 256 * unat (sectors_per_fat (ld_fs s))" "length t \<le> 32768"
    "bytes_per_sector (ld_fs s) = 512" "0 < num_fats (ld_fs s)" "malloc_ok s (ld_cluster_bytes s)"
  using assms by (auto simp: ld_ok_def img_ok_def)

lemma fat_ok_as_fat:
  assumes "ld_ok s t"
  shows "fat_ok (as_fat s) t"
proof -
  obtain u f where "ld_table s = Some (t @ u)" "ata_file s = Some f" "length t = 256 * unat (sectors_per_fat (ld_fs s))"
    using assms by (auto simp: ld_ok_def img_ok_def)
  then show ?thesis using assms unfolding fat_ok_def by (simp add: ld_ok_def img_ok_def)
qed

lemma ld_table_get_view: "ld_ok s t \<Longrightarrow> i < length t \<Longrightarrow> ld_table_get i s = Some (t ! i)"
  by (auto simp: ld_ok_def ld_table_get_def arr_get_def nth_append)

lemma ld_table_set_view:
  assumes "ld_ok s t" and "i < length t"
  obtains u where "ld_table_set i v s = Some (s\<lparr>ld_table := Some (t[i := v] @ u)\<rparr>)"
    and "ld_ok (s\<lparr>ld_table := Some (t[i := v] @ u)\<rparr>) (t[i := v])"
proof -
  obtain u where u: "ld_table s = Some (t @ u)" using assms(1) by (auto simp: ld_ok_def)
  have "ld_table_set i v s = Some (s\<lparr>ld_table := Some (t[i := v] @ u)\<rparr>)"
    using u assms(2) by (simp add: ld_table_set_def arr_set_def list_update_append)
  moreover have "ld_ok (s\<lparr>ld_table := Some (t[i := v] @ u)\<rparr>) (t[i := v])"
    using assms(1) by (simp add: ld_ok_def img_ok_def)
  ultimately show ?thesis using that by blast
qed

lemma ld_find_free_view:
  assumes ok: "ld_ok s t" and "k < length t" "t ! k = 0" "\<And>j. j < k \<Longrightarrow> t ! j \<noteq> 0"
  shows "ld_fat_find_free s = Some (int k)"
proof -
  have "ld_find_free_loop i n s = Some (int k)" if "i \<le> k" "k < i + n" "i + n \<le> length t" for i n
    using that
  proof (induction n arbitrary: i)
    case (Suc n)
    have "ld_table_get i s = Some (t ! i)" using Suc.prems by (intro ld_table_get_view[OF ok]) simp
    then show ?case
      using Suc assms(3) assms(4)[of i] by (cases "i = k") (simp_all add: FAT16_FREE_CLUSTER_def)
  qed simp
  from this[of 0 "length t"] show ?thesis
    using ld_okD(2,4)[OF ok] assms(2) by (simp add: ld_fat_find_free_def)
qed

section \<open>Writing sectors of the image\<close>

lemma ld_ata_write_view:
  assumes "img_ok s" and "ata_file s = Some f" and "512 * (unat n + unat c) \<le> length f"
    and "512 * unat c \<le> length buf"
  obtains f' where "ld_ata_write n c buf s = Some (0, s\<lparr>ata_file := Some f'\<rparr>)" and "length f' = length f"
    and "img_ok (s\<lparr>ata_file := Some f'\<rparr>)"
    and "disk_write n c buf (disk (as_fat s)) = Some (0, image_disk (Some f'))"
    and "sectors (image_disk (Some f')) = (\<lambda>i. if unat n \<le> i \<and> i < unat n + unat c
       then take 512 (drop (512 * (i - unat n)) buf) else sectors (image_disk (Some f)) i)"
proof -
  let ?d = "take (512 * unat c) buf" and ?f = "file_put (512 * unat n) (take (512 * unat c) buf) f"
  have l: "length ?d = 512 * unat c" using assms(4) by simp
  have eq: "sectors (image_disk (Some ?f)) = (\<lambda>i. if unat n \<le> i \<and> i < unat n + unat c
       then take 512 (drop (512 * (i - unat n)) buf) else sectors (image_disk (Some f)) i)"
  proof
    fix i
    have "take 512 (drop (512 * (i - unat n)) ?d) = take 512 (drop (512 * (i - unat n)) buf)"
      if "unat n \<le> i" "i < unat n + unat c"
    proof -
      have "512 \<le> 512 * unat c - 512 * (i - unat n)" using that by simp
      then show ?thesis by (simp add: drop_take)
    qed
    then show "sectors (image_disk (Some ?f)) i = (if unat n \<le> i \<and> i < unat n + unat c
       then take 512 (drop (512 * (i - unat n)) buf) else sectors (image_disk (Some f)) i)"
      by (simp add: image_file_put[OF assms(3) l])
  qed
  have "unat c * 512 \<le> accepts s (unat n * 512) (unat c * 512)" using assms(1) by (simp add: img_ok_def)
  then have "ld_ata_write n c buf s = Some (0, s\<lparr>ata_file := Some ?f\<rparr>)"
    using assms(2,4) by (simp add: ld_ata_write_def Let_def mult.commute min_def)
  moreover have lf: "length ?f = length f" using assms(3) l by (intro length_file_put) simp
  moreover have "img_ok (s\<lparr>ata_file := Some ?f\<rparr>)" using assms(1,2) lf by (simp add: img_ok_def)
  moreover have "disk_write n c buf (disk (as_fat s)) = Some (0, image_disk (Some ?f))"
  proof -
    have "image_disk (Some ?f) = (image_disk (Some f))\<lparr>sectors := sectors (image_disk (Some ?f))\<rparr>"
      by (simp add: image_disk_def)
    then show ?thesis using assms(2,4) by (simp add: disk_write_def eq)
  qed
  ultimately show ?thesis using that eq by blast
qed

section \<open>Clusters\<close>

lemma as_fat_file [simp]: "as_fat (s\<lparr>ata_file := Some f\<rparr>) = (as_fat s)\<lparr>disk := image_disk (Some f)\<rparr>"
  by (simp add: as_fat_def)

lemma ld_ok_file: "ld_ok s t \<Longrightarrow> img_ok (s\<lparr>ata_file := Some f\<rparr>) \<Longrightarrow> ld_ok (s\<lparr>ata_file := Some f\<rparr>) t"
  by (simp add: ld_ok_def)

text \<open>The sector a cluster starts at, and where it ends.\<close>

lemma ld_cluster_sector:
  assumes ok: "ld_ok s t" and c: "c < length t" and im: "in_image s c" and f: "ata_file s = Some f"
  defines "w \<equiv> of_nat c * ucast (sectors_per_cluster (ld_fs s)) + root_dir_start (ld_fs s) :: u32"
  shows "unat w = cluster_sector (as_fat s) c"
    and "512 * (unat w + unat (sectors_per_cluster (ld_fs s))) \<le> length f"
proof -
  have "c < 65536" using c ld_okD(3)[OF ok] by simp
  from cluster_sector_word(1)[OF fat_ok_as_fat[OF ok] this]
  show w: "unat w = cluster_sector (as_fat s) c" by (simp add: w_def)
  show "512 * (unat w + unat (sectors_per_cluster (ld_fs s))) \<le> length f"
    using im f unfolding w cluster_sector_def in_image_def by (simp add: add.commute add.left_commute)
qed

lemma ld_okE_file:
  assumes "ld_ok s t"
  obtains f where "ata_file s = Some f"
  using assms by (auto simp: ld_ok_def img_ok_def)

lemma ld_read_cluster:
  assumes ok: "ld_ok s t" and c: "c < length t" and im: "in_image s c" and "length buf = ld_cluster_bytes s"
  shows "ld_fat_read_data_cluster (of_nat c) buf s = Some (0, cluster_data (as_fat s) c)"
proof -
  obtain f where f: "ata_file s = Some f" using ld_okE_file[OF ok] .
  have "c < 65536" using c ld_okD(3)[OF ok] by simp
  from fat_read_cluster[OF fat_ok_as_fat[OF ok] this] assms(4)
  have "fat_read_data_cluster (of_nat c) buf (as_fat s) = Some (0, cluster_data (as_fat s) c)" by simp
  then show ?thesis
    using ld_ata_read_view[OF f ld_cluster_sector(2)[OF ok c im f]]
    by (simp add: ld_fat_read_data_cluster_def fat_read_data_cluster_def)
qed

lemma ld_write_cluster:
  assumes ok: "ld_ok s t" and c: "c < length t" and im: "in_image s c" and len: "length buf = ld_cluster_bytes s"
  obtains f where "ld_fat_write_data_cluster (of_nat c) buf s = Some (0, s\<lparr>ata_file := Some f\<rparr>)"
    and "ld_ok (s\<lparr>ata_file := Some f\<rparr>) t"
    and "cluster_data (as_fat (s\<lparr>ata_file := Some f\<rparr>)) c = buf"
    and "\<And>e. e < 65536 \<Longrightarrow> e \<noteq> c \<Longrightarrow>
      cluster_data (as_fat (s\<lparr>ata_file := Some f\<rparr>)) e = cluster_data (as_fat s) e"
    and "fat_synced (as_fat s) \<Longrightarrow> fat_synced (as_fat (s\<lparr>ata_file := Some f\<rparr>))"
    and "\<And>i. i < unat (root_dir_start (ld_fs s)) \<Longrightarrow> sectors (image_disk (Some f)) i = sectors (image_disk (ata_file s)) i"
    and "length f = length (the (ata_file s))"
proof -
  obtain g where g: "ata_file s = Some g" using ld_okE_file[OF ok] .
  have fok: "fat_ok (as_fat s) t" using fat_ok_as_fat[OF ok] .
  have c16: "c < 65536" using c ld_okD(3)[OF ok] by simp
  have lb: "length buf = cluster_bytes (as_fat s)" using len by simp
  have "512 * unat (sectors_per_cluster (ld_fs s)) \<le> length buf"
    using len ld_okD(4)[OF ok] by (simp add: ld_cluster_bytes_def)
  note big = this
  let ?w = "of_nat c * ucast (sectors_per_cluster (ld_fs s)) + root_dir_start (ld_fs s) :: u32"
    and ?k = "sectors_per_cluster (ld_fs s)"
  obtain f where w: "ld_ata_write ?w ?k buf s = Some (0, s\<lparr>ata_file := Some f\<rparr>)"
    "img_ok (s\<lparr>ata_file := Some f\<rparr>)" "disk_write ?w ?k buf (disk (as_fat s)) = Some (0, image_disk (Some f))"
    "length f = length g"
  proof (rule ld_ata_write_view[OF ld_okD(1)[OF ok] g ld_cluster_sector(2)[OF ok c im g] big])
    fix f assume "ld_ata_write ?w ?k buf s = Some (0, s\<lparr>ata_file := Some f\<rparr>)"
      "img_ok (s\<lparr>ata_file := Some f\<rparr>)" "disk_write ?w ?k buf (disk (as_fat s)) = Some (0, image_disk (Some f))"
      "length f = length g"
    then show ?thesis by (rule that)
  qed
  then have f: "ld_fat_write_data_cluster (of_nat c) buf s = Some (0, s\<lparr>ata_file := Some f\<rparr>)"
      "fat_write_data_cluster (of_nat c) buf (as_fat s) = Some (0, (as_fat s)\<lparr>disk := image_disk (Some f)\<rparr>)"
    by (simp_all add: ld_fat_write_data_cluster_def fat_write_data_cluster_def)
  obtain d where d: "fat_write_data_cluster (of_nat c) buf (as_fat s) = Some (0, (as_fat s)\<lparr>disk := d\<rparr>)"
    "cluster_data ((as_fat s)\<lparr>disk := d\<rparr>) c = buf"
    "\<And>e. e < 65536 \<Longrightarrow> e \<noteq> c \<Longrightarrow> cluster_data ((as_fat s)\<lparr>disk := d\<rparr>) e = cluster_data (as_fat s) e"
    "\<And>i. i < unat (root_dir_start (fat16_fs (as_fat s))) \<Longrightarrow> sectors d i = sectors (disk (as_fat s)) i"
    using fat_write_cluster[OF fok c16 lb] by metis
  have "(as_fat s)\<lparr>disk := d\<rparr> = (as_fat s)\<lparr>disk := image_disk (Some f)\<rparr>" using d(1) f(2) by simp
  then have e: "d = image_disk (Some f)" by (metis fat.select_convs(4) fat.surjective fat.update_convs(4))
  show ?thesis
    using f(1) ld_ok_file[OF ok w(2)] d(2,3,4) fat_synced_clusters[OF fok _ d(4)]
    by (intro that[of f]) (simp_all add: e w(4) g)
qed

end
