(* ===== verification/ImageWrite.thy ===== *)
theory ImageWrite
  imports ImageCorrect
begin

text \<open>
  Writing a file with the image loader: the allocation table on disk is updated entry by entry in every
  copy, the chain grows from the lowest free cluster on, the clusters get the data, and the directory
  entry its size. The file that was loaded is the one the kernel reads.
\<close>

section \<open>The copies of the table\<close>

abbreviation image_sectors_of :: "loader \<Rightarrow> nat \<Rightarrow> bytes" where
  "image_sectors_of s \<equiv> sectors (image_disk (ata_file s))"

text \<open>The first copy on disk, the one the kernel mounts, is the table \<open>u\<close>.\<close>

definition copy_is :: "loader \<Rightarrow> u16 list \<Rightarrow> bool" where
  "copy_is s u \<longleftrightarrow> length u = 256 * unat (sectors_per_fat (ld_fs s)) \<and>
     (\<forall>j < unat (sectors_per_fat (ld_fs s)). image_sectors_of s (unat (reserved_sectors (ld_fs s)) + j) =
        take 512 (drop (512 * j) (table_bytes u)))"

lemma copy_is_synced: "ld_ok s t \<Longrightarrow> copy_is s t \<longleftrightarrow> fat_synced (as_fat s)"
  by (auto simp: copy_is_def fat_synced_def ld_ok_def)

abbreviation image_length :: "loader \<Rightarrow> nat" where
  "image_length s \<equiv> length (the (ata_file s))"

text \<open>A transfer into the area of the table: only the image changes, and only in that area.\<close>

definition table_write :: "loader \<Rightarrow> loader \<Rightarrow> bool" where
  "table_write s s' \<longleftrightarrow> (\<exists>f. s' = s\<lparr>ata_file := f\<rparr>) \<and> (img_ok s \<longrightarrow> img_ok s') \<and> image_length s' = image_length s \<and>
     (\<forall>i. i < unat (reserved_sectors (ld_fs s)) \<or> unat (root_dir_start (ld_fs s)) \<le> i \<longrightarrow>
        image_sectors_of s' i = image_sectors_of s i)"

lemma table_write_refl: "table_write s s"
  by (auto simp: table_write_def intro: exI[of _ "ata_file s"])

lemma table_write_trans: "table_write a b \<Longrightarrow> table_write b c \<Longrightarrow> table_write a c"
  by (auto simp: table_write_def)

lemma table_writeD:
  assumes "table_write s s'"
  shows "ld_fs s' = ld_fs s" "ld_table s' = ld_table s" "ld_root_dir s' = ld_root_dir s"
    "malloc_ok s' = malloc_ok s" "img_ok s \<Longrightarrow> img_ok s'" "ld_ok s t \<Longrightarrow> ld_ok s' t"
  using assms by (auto simp: table_write_def ld_ok_def)

lemma table_write_clusters:
  assumes "table_write s s'"
  shows "cluster_data (as_fat s') c = cluster_data (as_fat s) c"
proof -
  have "sectors (image_disk (ata_file s')) i = sectors (image_disk (ata_file s)) i"
    if "unat (root_dir_start (ld_fs s)) \<le> i" for i
    using assms that by (simp add: table_write_def)
  then show ?thesis
    using table_writeD(1)[OF assms] by (simp add: cluster_data_def cluster_sector_def)
qed

lemma table_bytes_update:
  "i < length p \<Longrightarrow> table_bytes (p[i := v]) = take (2 * i) (table_bytes p) @ le16_bytes v @ drop (2 * i + 2) (table_bytes p)"
  using drop_table_bytes[of "Suc i" p]
  by (simp add: upd_conv_take_nth_drop take_table_bytes) (simp add: table_bytes_def)

text \<open>The sector of an entry after the entry was replaced in it.\<close>

lemma sector_update:
  assumes "c < length u" and "length u = 256 * n"
  defines "b \<equiv> take 512 (drop (512 * (c div 256)) (table_bytes u))"
  shows "take (2 * (c mod 256)) b @ le16_bytes v @ drop (2 * (c mod 256) + 2) b =
      take 512 (drop (512 * (c div 256)) (table_bytes (u[c := v])))"
    and "j \<noteq> c div 256 \<Longrightarrow> take 512 (drop (512 * j) (table_bytes (u[c := v]))) = take 512 (drop (512 * j) (table_bytes u))"
proof -
  let ?j = "c div 256" and ?i = "c mod 256"
  have c: "c = 256 * ?j + ?i" by simp
  have "?j < n" using assms(1,2) by (simp add: less_mult_imp_div_less mult.commute)
  then have "256 * ?j + 256 \<le> length u" using assms(2) by simp
  then have l: "?i < length (take 256 (drop (256 * ?j) u))" by simp
  have "take 256 (drop (256 * ?j) (u[c := v])) = (take 256 (drop (256 * ?j) u))[?i := v]"
    by (simp add: drop_update_swap take_update_swap minus_mod_eq_mult_div [symmetric])
  then show "take (2 * ?i) b @ le16_bytes v @ drop (2 * ?i + 2) b =
      take 512 (drop (512 * ?j) (table_bytes (u[c := v])))"
    using table_bytes_update[OF l, of v] by (simp only: b_def sector_table_bytes)
  assume "j \<noteq> ?j"
  then consider "j < ?j" | "?j < j" by linarith
  then have "take 256 (drop (256 * j) (u[c := v])) = take 256 (drop (256 * j) u)"
  proof cases
    case 1
    then have "256 * j + 256 \<le> c" by simp
    then have "256 * j \<le> c" "256 \<le> c - 256 * j" by simp_all
    then show ?thesis by (simp add: drop_update_swap take_update_cancel)
  next
    case 2
    then have "c < 256 * j" by simp
    then show ?thesis by (simp add: drop_update_cancel)
  qed
  then show "take 512 (drop (512 * j) (table_bytes (u[c := v]))) = take 512 (drop (512 * j) (table_bytes u))"
    by (simp only: sector_table_bytes)
qed

lemma img_okD:
  assumes "img_ok s"
  obtains f where "ata_file s = Some f" and "512 * unat (root_dir_start (ld_fs s)) \<le> length f"
    and "bytes_per_sector (ld_fs s) = 512" and "unat (root_dir_start (ld_fs s)) < 2 ^ 27"
    and "unat (reserved_sectors (ld_fs s)) + unat (num_fats (ld_fs s)) * unat (sectors_per_fat (ld_fs s))
       \<le> unat (root_dir_start (ld_fs s))"
    and "unat (sectors_per_fat (ld_fs s)) \<le> 128"
  using assms by (auto simp: img_ok_def)

text \<open>The sector the loader computes for an entry of a copy.\<close>

lemma entry_sector:
  assumes ok: "img_ok s" and c: "c < 256 * unat (sectors_per_fat (ld_fs s))" and n: "n < unat (num_fats (ld_fs s))"
  defines "w \<equiv> ucast (reserved_sectors (ld_fs s)) + of_nat (n * unat (sectors_per_fat (ld_fs s))) +
      of_nat c * 2 div ucast (bytes_per_sector (ld_fs s)) :: u32"
  shows "unat w = unat (reserved_sectors (ld_fs s)) + n * unat (sectors_per_fat (ld_fs s)) + c div 256"
    and "unat w < unat (root_dir_start (ld_fs s))"
    and "unat (of_nat c * 2 mod ucast (bytes_per_sector (ld_fs s)) :: u32) = 2 * (c mod 256)"
proof -
  let ?r = "unat (reserved_sectors (ld_fs s))" and ?n = "n * unat (sectors_per_fat (ld_fs s))"
    and ?top = "unat (root_dir_start (ld_fs s))"
  obtain f where f: "bytes_per_sector (ld_fs s) = 512" "?top < 2 ^ 27"
    "?r + unat (num_fats (ld_fs s)) * unat (sectors_per_fat (ld_fs s)) \<le> ?top"
    "unat (sectors_per_fat (ld_fs s)) \<le> 128"
    by (rule img_okD[OF ok])
  have "c div 256 < unat (sectors_per_fat (ld_fs s))"
    using c by (simp add: less_mult_imp_div_less mult.commute)
  moreover have "Suc n * unat (sectors_per_fat (ld_fs s)) \<le> unat (num_fats (ld_fs s)) * unat (sectors_per_fat (ld_fs s))"
    using n by (intro mult_le_mono1) simp
  ultimately have top: "?r + ?n + c div 256 < ?top" using f(3) by simp
  have "c < 2 ^ 31" using c f(4) by simp
  then have c2: "unat (of_nat c * 2 :: u32) = 2 * c"
    by (subst unat_word_ariths(2)) (simp add: unat_of_nat_u32)
  have b: "unat (ucast (bytes_per_sector (ld_fs s)) :: u32) = 512" by (simp add: unat_ucast_16 f(1))
  have "?r + ?n < 2 ^ 32" using top f(2) by simp
  then have "unat (ucast (reserved_sectors (ld_fs s)) + of_nat ?n :: u32) = ?r + ?n"
    by (subst unat_word_ariths(1)) (simp only: unat_ucast_16 unat_of_nat_u32[of ?n], simp)
  moreover have "unat (of_nat c * 2 div ucast (bytes_per_sector (ld_fs s)) :: u32) = c div 256"
    by (simp add: unat_div c2 b)
  moreover have "?r + ?n + c div 256 < 2 ^ 32" using top f(2) by simp
  ultimately show w: "unat w = ?r + ?n + c div 256"
    unfolding w_def by (subst unat_word_ariths(1)) simp
  show "unat w < ?top" using w top by simp
  show "unat (of_nat c * 2 mod ucast (bytes_per_sector (ld_fs s)) :: u32) = 2 * (c mod 256)"
    unfolding unat_mod c2 b by (simp add: mult_mod_right)
qed

text \<open>Putting one entry into one copy changes two bytes of one sector.\<close>

lemma ld_put_copy_sector:
  assumes ok: "img_ok s" and c: "c < 256 * unat (sectors_per_fat (ld_fs s))" and n: "n < unat (num_fats (ld_fs s))"
  defines "k \<equiv> unat (reserved_sectors (ld_fs s)) + n * unat (sectors_per_fat (ld_fs s)) + c div 256"
    and "p \<equiv> 2 * (c mod 256)"
  obtains f where "ld_put_copy n (of_nat c) v s = Some (True, s\<lparr>ata_file := Some f\<rparr>)"
    and "img_ok (s\<lparr>ata_file := Some f\<rparr>)" and "length f = image_length s" and "k < unat (root_dir_start (ld_fs s))"
    and "\<And>i. sectors (image_disk (Some f)) i = (if i = k
      then take p (image_sectors_of s k) @ le16_bytes v @ drop (p + 2) (image_sectors_of s k) else image_sectors_of s i)"
proof -
  define w where "w = (ucast (reserved_sectors (ld_fs s)) + of_nat (n * unat (sectors_per_fat (ld_fs s))) +
      of_nat c * 2 div ucast (bytes_per_sector (ld_fs s)) :: u32)"
  obtain f where f: "ata_file s = Some f" "512 * unat (root_dir_start (ld_fs s)) \<le> length f"
    "bytes_per_sector (ld_fs s) = 512"
    by (rule img_okD[OF ok])
  note w = entry_sector[OF ok c n, folded w_def, folded k_def p_def]
  define b where "b = image_sectors_of s (unat w)"
  have bk: "b = image_sectors_of s k" by (simp only: b_def w(1))
  have lb: "length b = 512" by (simp add: b_def f(1) image_disk_def min_def)
  have fit: "512 * (unat w + unat (1 :: u8)) \<le> length f" using w(2) f(2) by simp
  have "ld_ata_read w 1 (replicate 512 0) s = disk_read w 1 (replicate 512 0) (disk (as_fat s))"
    by (rule ld_ata_read_view[OF f(1) fit])
  then have rd: "ld_ata_read w 1 (replicate 512 0) s = Some (0, b)"
    by (simp add: disk_read_def f(1) b_def)
  define b' where "b' = take p b @ le16_bytes v @ drop (p + 2) b"
  have "p + 2 \<le> 512" unfolding p_def by linarith
  then have in_b: "p + 2 \<le> length b" using lb by simp
  have cpy: "copy_into b p (le16_bytes v) 2 = Some b'"
    using copy_into_eq[OF in_b, of "le16_bytes v"] by (simp add: b'_def)
  have lb': "512 * unat (1 :: u8) \<le> length b'" using in_b lb by (simp add: b'_def)
  show ?thesis
  proof (rule ld_ata_write_view[OF ok f(1) fit lb'])
    fix f' assume f': "ld_ata_write w 1 b' s = Some (0, s\<lparr>ata_file := Some f'\<rparr>)" "img_ok (s\<lparr>ata_file := Some f'\<rparr>)"
      "length f' = length f"
      "sectors (image_disk (Some f')) = (\<lambda>i. if unat w \<le> i \<and> i < unat w + unat (1 :: u8)
         then take 512 (drop (512 * (i - unat w)) b') else sectors (image_disk (Some f)) i)"
    have "ld_put_copy n (of_nat c) v s = Some (True, s\<lparr>ata_file := Some f'\<rparr>)"
      using rd cpy f'(1) w(3) f(3) by (simp add: ld_put_copy_def Let_def w_def)
    moreover have "sectors (image_disk (Some f')) i = (if i = k then b' else image_sectors_of s i)" for i
      using lb in_b by (auto simp: f'(4) w(1) f(1) b'_def)
    ultimately show ?thesis using f'(2,3) w(1,2) f(1) by (intro that[of f']) (simp_all add: b'_def bk)
  qed
qed

text \<open>Putting one entry into one copy: the first copy gets the entry, another copy leaves the first alone.\<close>

lemma ld_put_copy_ok:
  assumes ok: "img_ok s" and c: "c < length u" and n: "n < unat (num_fats (ld_fs s))" and cp: "copy_is s u"
  shows "\<exists>s'. ld_put_copy n (of_nat c) v s = Some (True, s') \<and> table_write s s' \<and>
    copy_is s' (if n = 0 then u[c := v] else u)"
proof -
  let ?r = "unat (reserved_sectors (ld_fs s))" and ?spf = "unat (sectors_per_fat (ld_fs s))" and ?j = "c div 256"
  let ?k = "?r + n * ?spf + ?j"
  have lu: "length u = 256 * ?spf" using cp by (simp add: copy_is_def)
  then have c': "c < 256 * ?spf" using c by simp
  obtain f where f: "ld_put_copy n (of_nat c) v s = Some (True, s\<lparr>ata_file := Some f\<rparr>)"
    "img_ok (s\<lparr>ata_file := Some f\<rparr>)" "length f = image_length s" "?k < unat (root_dir_start (ld_fs s))"
    "\<And>i. sectors (image_disk (Some f)) i = (if i = ?k
      then take (2 * (c mod 256)) (image_sectors_of s ?k) @ le16_bytes v @
        drop (2 * (c mod 256) + 2) (image_sectors_of s ?k)
      else image_sectors_of s i)"
    using ld_put_copy_sector[OF ok c' n, where v = v] by blast
  have "table_write s (s\<lparr>ata_file := Some f\<rparr>)" using f(2-5) by (auto simp: table_write_def)
  moreover have "sectors (image_disk (Some f)) (?r + j) =
      take 512 (drop (512 * j) (table_bytes (if n = 0 then u[c := v] else u)))" if j: "j < ?spf" for j
  proof (cases "n = 0")
    case True
    then have "?r + j = ?k \<longleftrightarrow> j = ?j" by auto
    then show ?thesis
      unfolding f(5) using True j cp sector_update(1)[OF c lu, of v] sector_update(2)[OF c lu, of j v] by (auto simp: copy_is_def)
  next
    case False
    then have "1 * ?spf \<le> n * ?spf" by (intro mult_le_mono1) simp
    then have "?r + j \<noteq> ?k" using j by linarith
    then show ?thesis using False j cp by (simp add: copy_is_def f(5))
  qed
  then have "copy_is (s\<lparr>ata_file := Some f\<rparr>) (if n = 0 then u[c := v] else u)"
    using lu by (simp add: copy_is_def)
  ultimately show ?thesis using f(1) by blast
qed

abbreviation put_all :: "(nat \<times> u16) list \<Rightarrow> u16 list \<Rightarrow> u16 list" where
  "put_all es \<equiv> fold (\<lambda>(c, v) u. u[c := v]) es"

abbreviation as_entries :: "(nat \<times> u16) list \<Rightarrow> (u32 \<times> u16) list" where
  "as_entries es \<equiv> map (\<lambda>(c, v). (of_nat c, v)) es"

lemma ld_put_entries_ok:
  assumes "img_ok s" and n: "n < unat (num_fats (ld_fs s))" and "copy_is s u" and "\<forall>(c, v) \<in> set es. c < length u"
  shows "\<exists>s'. ld_put_entries n (as_entries es) s = Some (True, s') \<and> table_write s s' \<and>
    copy_is s' (if n = 0 then put_all es u else u)"
  using assms
proof (induction es arbitrary: s u)
  case Nil
  then show ?case by (auto intro: table_write_refl)
next
  case (Cons e es)
  obtain c v where e: "e = (c, v)" by (cases e)
  then have c: "c < length u" using Cons.prems(4) by simp
  obtain s1 where s1: "ld_put_copy n (of_nat c) v s = Some (True, s1)" "table_write s s1"
    "copy_is s1 (if n = 0 then u[c := v] else u)"
    using ld_put_copy_ok[OF Cons.prems(1) c Cons.prems(2,3)] by blast
  note T = table_writeD[OF s1(2)]
  have es: "\<forall>(c', v') \<in> set es. c' < length (if n = 0 then u[c := v] else u)"
    using Cons.prems(4) by simp
  obtain s2 where s2: "ld_put_entries n (as_entries es) s1 = Some (True, s2)" "table_write s1 s2"
    "copy_is s2 (if n = 0 then put_all es (if n = 0 then u[c := v] else u) else (if n = 0 then u[c := v] else u))"
    using Cons.IH[OF T(5)[OF Cons.prems(1)] _ s1(3) es] Cons.prems(2) T(1) by auto
  then show ?case
    using s1(1) table_write_trans[OF s1(2) s2(2)] by (auto simp: e split: if_splits)
qed

lemma ld_put_copies_rest:
  assumes "img_ok s" and "n + k \<le> unat (num_fats (ld_fs s))" and "0 < n" and "copy_is s u" and "\<forall>(c, v) \<in> set es. c < length u"
  shows "\<exists>s'. ld_put_copies n k (as_entries es) s = Some (True, s') \<and> table_write s s' \<and> copy_is s' u"
  using assms
proof (induction k arbitrary: n s)
  case 0
  then show ?case by (auto intro: table_write_refl)
next
  case (Suc k)
  then have n: "n < unat (num_fats (ld_fs s))" by simp
  obtain s1 where s1: "ld_put_entries n (as_entries es) s = Some (True, s1)" "table_write s s1" "copy_is s1 u"
    using ld_put_entries_ok[OF Suc.prems(1) n Suc.prems(4,5)] Suc.prems(3) by auto
  note T = table_writeD[OF s1(2)]
  have "Suc n + k \<le> unat (num_fats (ld_fs s1))" using Suc.prems(2) T(1) by simp
  then obtain s2 where "ld_put_copies (Suc n) k (as_entries es) s1 = Some (True, s2)" "table_write s1 s2" "copy_is s2 u"
    using Suc.IH[OF T(5)[OF Suc.prems(1)] _ _ s1(3) Suc.prems(5)] by blast
  then show ?case using s1 table_write_trans[OF s1(2)] by auto
qed

text \<open>All copies: the first ends up with all the entries.\<close>

lemma ld_put_copies_ok:
  assumes ok: "img_ok s" and "copy_is s u" and es: "\<forall>(c, v) \<in> set es. c < length u"
  shows "\<exists>s'. ld_put_copies 0 (unat (num_fats (ld_fs s))) (as_entries es) s = Some (True, s') \<and>
    table_write s s' \<and> copy_is s' (put_all es u)"
proof -
  have "0 < num_fats (ld_fs s)" using ok by (simp add: img_ok_def)
  then obtain k where k: "unat (num_fats (ld_fs s)) = Suc k" by (metis gr0_implies_Suc unat_gt_0 word_neq_0_conv)
  obtain s1 where s1: "ld_put_entries 0 (as_entries es) s = Some (True, s1)" "table_write s s1" "copy_is s1 (put_all es u)"
    using ld_put_entries_ok[OF ok _ assms(2) es, of 0] k by auto
  note T = table_writeD[OF s1(2)]
  have "length (put_all es u) = length u" by (induction es arbitrary: u) auto
  then have "\<forall>(c, v) \<in> set es. c < length (put_all es u)" using es by simp
  then obtain s2 where "ld_put_copies (Suc 0) k (as_entries es) s1 = Some (True, s2)" "table_write s1 s2"
    "copy_is s2 (put_all es u)"
    using ld_put_copies_rest[OF T(5)[OF ok] _ _ s1(3), of 1 k es] k T(1) by auto
  then show ?thesis using s1 table_write_trans[OF s1(2)] k by auto
qed

section \<open>Extending a chain\<close>

text \<open>What every step of a write keeps: the geometry, the host's memory, the size of the image, the sectors before the tables.\<close>

definition same_volume :: "loader \<Rightarrow> loader \<Rightarrow> bool" where
  "same_volume s s' \<longleftrightarrow> ld_fs s' = ld_fs s \<and> ld_root_dir s' = ld_root_dir s \<and> malloc_ok s' = malloc_ok s \<and> image_length s' = image_length s \<and>
     (\<forall>i < unat (reserved_sectors (ld_fs s)). image_sectors_of s' i = image_sectors_of s i)"

lemma same_volume_trans: "same_volume a b \<Longrightarrow> same_volume b c \<Longrightarrow> same_volume a c"
  by (simp add: same_volume_def)

lemma same_volume_bytes: "same_volume s s' \<Longrightarrow> ld_cluster_bytes s' = ld_cluster_bytes s"
  by (simp add: same_volume_def ld_cluster_bytes_def)

lemma same_volume_in_image: "same_volume s s' \<Longrightarrow> in_image s' c = in_image s c"
  by (simp add: same_volume_def in_image_def)

lemma table_write_volume: "table_write s s' \<Longrightarrow> same_volume s s'"
  by (auto simp: table_write_def same_volume_def)

lemma ld_extend_ok:
  assumes ok: "ld_ok s t" and sy: "fat_synced (as_fat s)" and c: "c < length t" "t ! c \<noteq> 0"
    and k: "k < length t" "t ! k = 0" "\<And>j. j < k \<Longrightarrow> t ! j \<noteq> 0"
  shows "\<exists>s'. ld_extend (of_nat c) s = Some (Inr (of_nat k), s') \<and>
    ld_ok s' (t[c := of_nat k, k := FAT16_CLUSTER_CHAIN_END]) \<and> fat_synced (as_fat s') \<and> same_volume s s' \<and>
    (\<forall>e. cluster_data (as_fat s') e = cluster_data (as_fat s) e)"
proof -
  let ?t = "t[c := of_nat k, k := FAT16_CLUSTER_CHAIN_END]" and ?es = "[(c, of_nat k), (k, FAT16_CLUSTER_CHAIN_END)]"
  have lt: "c < 2 ^ 32" "k < 2 ^ 16" "k < 2 ^ 32" using c(1) k(1) ld_okD(3)[OF ok] by simp_all
  have w: "unat (of_nat c :: u32) = c" "unat (of_nat k :: u32) = k"
    using lt by (simp_all add: unat_of_nat_u32)
  have wk: "(word_of_int (int k) :: u32) = of_nat k" "ucast (of_nat k :: u32) = (of_nat k :: u16)"
    using lt(2,3) by (simp_all add: word_unat_eq_iff unsigned_ucast_eq unat_of_nat take_bit_nat_eq_self)
  have "(of_nat k :: u32) \<noteq> - 1"
  proof
    assume "(of_nat k :: u32) = - 1"
    then have "unat (of_nat k + 1 :: u32) = 0" by simp
    moreover have "unat (of_nat (Suc k) :: u32) = Suc k" using lt(2) by (intro unat_of_nat_u32) simp
    ultimately show False by (simp add: add.commute)
  qed
  note nm = this
  obtain u1 where u1: "ld_table_set c (of_nat k) s = Some (s\<lparr>ld_table := Some (t[c := of_nat k] @ u1)\<rparr>)"
    "ld_ok (s\<lparr>ld_table := Some (t[c := of_nat k] @ u1)\<rparr>) (t[c := of_nat k])"
    using ld_table_set_view[OF ok c(1)] by blast
  let ?s1 = "s\<lparr>ld_table := Some (t[c := of_nat k] @ u1)\<rparr>"
  have "k < length (t[c := of_nat k])" using k(1) by simp
  then obtain u2 where u2: "ld_table_set k FAT16_CLUSTER_CHAIN_END ?s1 = Some (?s1\<lparr>ld_table := Some (?t @ u2)\<rparr>)"
    "ld_ok (?s1\<lparr>ld_table := Some (?t @ u2)\<rparr>) ?t"
    using ld_table_set_view[OF u1(2)] by blast
  let ?s2 = "?s1\<lparr>ld_table := Some (?t @ u2)\<rparr>"
  have "copy_is ?s2 t" using sy copy_is_synced[OF ok] by (simp add: copy_is_def)
  moreover have "\<forall>(c, v) \<in> set ?es. c < length t" using c(1) k(1) by simp
  ultimately obtain s' where s': "ld_put_copies 0 (unat (num_fats (ld_fs s))) (as_entries ?es) ?s2 = Some (True, s')"
    "table_write ?s2 s'" "copy_is s' ?t"
    using ld_put_copies_ok[OF ld_okD(1)[OF u2(2)], of t ?es] by auto
  have "ld_ok s' ?t" using table_writeD(6)[OF s'(2) u2(2)] .
  moreover have "ld_extend (of_nat c) s = Some (Inr (of_nat k), s')"
    using ld_find_free_view[OF ok k] u1(1) u2(1) s'(1) nm w wk by (simp add: ld_extend_def Let_def)
  moreover have "same_volume s s'" using table_write_volume[OF s'(2)] by (simp add: same_volume_def)
  moreover have "cluster_data (as_fat s') e = cluster_data (as_fat s) e" for e
    using table_write_clusters[OF s'(2), of e] by (simp add: cluster_data_def cluster_sector_def)
  ultimately show ?thesis using copy_is_synced s'(3) by blast
qed

section \<open>Writing the clusters\<close>

lemma unat_ld_bytes_per_cluster: "unat (ld_bytes_per_cluster s) = ld_cluster_bytes s"
  using cluster_bytes_bound[of "as_fat s"] by (simp add: ld_bytes_per_cluster_def unat_of_nat_u32)

lemma ld_cluster_bytes_pos: "ld_ok s t \<Longrightarrow> 0 < ld_cluster_bytes s"
  using cluster_bytes_pos[OF fat_ok_as_fat] by simp

lemma chain_end_iff: "FAT16_CLUSTER_CHAIN_END \<le> v \<longleftrightarrow> IS_END_OF_CLUSTER_CHAIN v"
  using unat_u16_lt[of v]
  by (auto simp: IS_END_OF_CLUSTER_CHAIN_def FAT16_CLUSTER_CHAIN_END_def word_le_nat_alt)

text \<open>The cluster buffer of one round: read when the round does not fill it, and overlaid with the data.\<close>

lemma ld_round_buffer:
  assumes ok: "ld_ok s t" and c: "c < length t" and im: "in_image s c" and lc: "length cbuf = ld_cluster_bytes s"
    and m: "m < length buffer" "length buffer < 2 ^ 31"
  defines "sz \<equiv> of_nat (length buffer) :: u32" and "n \<equiv> min (ld_cluster_bytes s) (length buffer - m)"
  obtains old b where "(if 0 < (0 :: u32) \<or> sz - of_nat m < ld_bytes_per_cluster s
      then ld_fat_read_data_cluster (of_nat c) cbuf s else Some (0, cbuf)) = Some (0, old)"
    and "copy_into old 0 (drop m buffer) n = Some b" and "length b = ld_cluster_bytes s"
    and "take n b = take n (drop m buffer)"
    and "unat (min (ld_bytes_per_cluster s - 0) (sz - of_nat m)) = n"
    and "of_nat m + min (ld_bytes_per_cluster s - 0) (sz - of_nat m) = of_nat (m + n)"
proof -
  define old where "old = (if sz - of_nat m < ld_bytes_per_cluster s then cluster_data (as_fat s) c else cbuf)"
  have lo: "length old = ld_cluster_bytes s"
    using length_cluster_data[OF fat_ok_as_fat[OF ok], of c] lc by (simp add: old_def)
  have rd: "(if 0 < (0 :: u32) \<or> sz - of_nat m < ld_bytes_per_cluster s
      then ld_fat_read_data_cluster (of_nat c) cbuf s else Some (0, cbuf)) = Some (0, old)"
    using ld_read_cluster[OF ok c im lc] by (simp add: old_def)
  have nn: "n \<le> ld_cluster_bytes s" "n \<le> length buffer - m" by (simp_all add: n_def)
  have cp: "copy_into old 0 (drop m buffer) n = Some (take n (drop m buffer) @ drop n old)"
    using copy_into_eq[of 0 n old "drop m buffer"] nn lo by simp
  have "unat (sz - of_nat m) = length buffer - m"
    using m by (simp add: sz_def unat_of_nat_u32 flip: of_nat_diff)
  then have un: "unat (min (ld_bytes_per_cluster s - 0) (sz - of_nat m)) = n"
    by (simp add: min_def word_le_nat_alt unat_ld_bytes_per_cluster n_def)
  have "min (ld_bytes_per_cluster s - 0) (sz - of_nat m) = of_nat n"
    unfolding un[symmetric] by simp
  then have "of_nat m + min (ld_bytes_per_cluster s - 0) (sz - of_nat m) = of_nat (m + n)" by simp
  moreover have "length (take n (drop m buffer) @ drop n old) = ld_cluster_bytes s"
    "take n (take n (drop m buffer) @ drop n old) = take n (drop m buffer)"
    using nn lo by simp_all
  ultimately show ?thesis using that rd cp un by blast
qed

lemma same_volume_cluster:
  assumes "\<And>i. i < unat (root_dir_start (ld_fs s)) \<Longrightarrow> sectors (image_disk (Some f)) i = image_sectors_of s i"
    and "img_ok s" and "length f = image_length s"
  shows "same_volume s (s\<lparr>ata_file := Some f\<rparr>)"
proof -
  have "unat (reserved_sectors (ld_fs s)) \<le> unat (root_dir_start (ld_fs s))"
    using assms(2) by (simp add: img_ok_def)
  then show ?thesis using assms(1,3) by (simp add: same_volume_def)
qed

text \<open>Writing the data of one cluster: the rest of the volume stays as it is.\<close>

definition cluster_written :: "loader \<Rightarrow> u16 list \<Rightarrow> nat \<Rightarrow> bytes \<Rightarrow> loader \<Rightarrow> bool" where
  "cluster_written s t c b s' \<longleftrightarrow> ld_ok s' t \<and> fat_synced (as_fat s') \<and> same_volume s s' \<and>
     cluster_data (as_fat s') c = b \<and>
     (\<forall>e < 65536. e \<noteq> c \<longrightarrow> cluster_data (as_fat s') e = cluster_data (as_fat s) e)"

lemma ld_write_cluster_written:
  assumes ok: "ld_ok s t" and sy: "fat_synced (as_fat s)" and c: "c < length t" and im: "in_image s c" and b: "length b = ld_cluster_bytes s"
  obtains s' where "ld_fat_write_data_cluster (of_nat c) b s = Some (0, s')" and "cluster_written s t c b s'"
proof -
  obtain f where f: "ld_fat_write_data_cluster (of_nat c) b s = Some (0, s\<lparr>ata_file := Some f\<rparr>)"
    "ld_ok (s\<lparr>ata_file := Some f\<rparr>) t" "cluster_data (as_fat (s\<lparr>ata_file := Some f\<rparr>)) c = b"
    "\<And>e. e < 65536 \<Longrightarrow> e \<noteq> c \<Longrightarrow> cluster_data (as_fat (s\<lparr>ata_file := Some f\<rparr>)) e = cluster_data (as_fat s) e"
    "fat_synced (as_fat s) \<Longrightarrow> fat_synced (as_fat (s\<lparr>ata_file := Some f\<rparr>))"
    "\<And>i. i < unat (root_dir_start (ld_fs s)) \<Longrightarrow> sectors (image_disk (Some f)) i = image_sectors_of s i"
    "length f = image_length s"
    using ld_write_cluster[OF ok c im b] by blast
  have "same_volume s (s\<lparr>ata_file := Some f\<rparr>)" using f(6,7) by (intro same_volume_cluster ld_okD(1)[OF ok])
  with f(2-4) f(5)[OF sy] have "cluster_written s t c b (s\<lparr>ata_file := Some f\<rparr>)" by (simp add: cluster_written_def)
  with f(1) show ?thesis by (rule that)
qed

lemma ld_write_loop_done: "ld_write_loop sz sz c w b buffer s = Some (Some sz, s)"
  by (subst ld_write_loop.simps) simp

text \<open>One round of the loop: the cluster is written, and what follows is given by the entry of the cluster.\<close>

lemma ld_write_loop_step:
  assumes ok: "ld_ok s t" and sy: "fat_synced (as_fat s)" and c: "c < length t" and im: "in_image s c" and en: "IS_END_OF_CLUSTER_CHAIN (t ! c)"
    and lc: "length cbuf = ld_cluster_bytes s" and m: "m < length buffer" "length buffer < 2 ^ 31"
  defines "sz \<equiv> of_nat (length buffer) :: u32" and "n \<equiv> min (ld_cluster_bytes s) (length buffer - m)"
  obtains s' b where "cluster_written s t c b s'" and "length b = ld_cluster_bytes s"
    and "take n b = take n (drop m buffer)"
    and "ld_write_loop sz (of_nat m) (of_nat c) 0 cbuf buffer s =
      (if m + n < length buffer then do {
         (x, s) \<leftarrow> ld_extend (of_nat c) s';
         (case x of
            Inl failed \<Rightarrow> Some (if failed then None else Some (of_nat (m + n)), s)
          | Inr k \<Rightarrow> ld_write_loop sz (of_nat (m + n)) k 0 b buffer s)
       } else Some (Some sz, s'))"
proof -
  obtain old b where b: "(if 0 < (0 :: u32) \<or> sz - of_nat m < ld_bytes_per_cluster s
      then ld_fat_read_data_cluster (of_nat c) cbuf s else Some (0, cbuf)) = Some (0, old)"
    "copy_into old 0 (drop m buffer) n = Some b" "length b = ld_cluster_bytes s" "take n b = take n (drop m buffer)"
    "unat (min (ld_bytes_per_cluster s - 0) (sz - of_nat m)) = n"
    "of_nat m + min (ld_bytes_per_cluster s - 0) (sz - of_nat m) = of_nat (m + n)"
    unfolding sz_def n_def using ld_round_buffer[OF ok c im lc m] .
  obtain s' where w: "ld_fat_write_data_cluster (of_nat c) b s = Some (0, s')" "cluster_written s t c b s'"
    by (rule ld_write_cluster_written[OF ok sy c im b(3)])
  have mn: "m + n \<le> length buffer" using m by (simp add: n_def)
  have uw: "unat (of_nat m :: u32) = m" "unat (of_nat c :: u32) = c" "unat sz = length buffer"
    "unat (of_nat (m + n) :: u32) = m + n"
    using m mn c ld_okD(3)[OF ok] by (simp_all add: unat_of_nat_u32 sz_def del: of_nat_add)
  have lt: "of_nat m < sz" "of_nat (m + n) < sz \<longleftrightarrow> m + n < length buffer"
    using m uw by (simp_all only: word_less_nat_alt)
  have get: "ld_table_get (unat (of_nat c :: u32)) s' = Some (t ! c)"
    unfolding uw(2) using w(2) by (intro ld_table_get_view[OF _ c]) (simp add: cluster_written_def)
  have last: "ld_write_loop sz (of_nat (m + n)) (of_nat c) 0 b buffer s' = Some (Some sz, s')"
    if "\<not> m + n < length buffer"
  proof -
    have "m + n = length buffer" using that mn by simp
    then have "of_nat (m + n) = sz" by (simp only: sz_def)
    then show ?thesis by (simp only: ld_write_loop_done)
  qed
  have "ld_write_loop sz (of_nat m) (of_nat c) 0 cbuf buffer s = (if m + n < length buffer then do {
         (x, s) \<leftarrow> ld_extend (of_nat c) s';
         (case x of
            Inl failed \<Rightarrow> Some (if failed then None else Some (of_nat (m + n)), s)
          | Inr k \<Rightarrow> ld_write_loop sz (of_nat (m + n)) k 0 b buffer s)
       } else Some (Some sz, s'))"
    using lt(1) uw(1) en last
    by (subst ld_write_loop.simps) (simp only: if_True b w(1) bind.bind_lunit prod.case Let_def
        simp_thms if_False unat_0 lt(2) get chain_end_iff cong: if_cong)
  with w(2) b(3,4) show ?thesis by (rule that)
qed

definition free_clusters :: "u16 list \<Rightarrow> nat set" where
  "free_clusters t = {k. k < length t \<and> t ! k = 0}"

text \<open>Those that lie in the image; the lowest free cluster is one of them if there are any.\<close>

definition free_inside :: "loader \<Rightarrow> u16 list \<Rightarrow> nat set" where
  "free_inside s t = {k \<in> free_clusters t. in_image s k}"

lemma finite_free_inside [simp]: "finite (free_inside s t)"
  by (simp add: free_inside_def free_clusters_def)

lemma lowest_free:
  assumes "free_clusters t \<noteq> {}"
  obtains k where "k < length t" "t ! k = 0" "\<forall>j < k. t ! j \<noteq> 0"
proof -
  obtain k where "k < length t \<and> t ! k = 0" using assms by (auto simp: free_clusters_def)
  then have "(LEAST k. k < length t \<and> t ! k = 0) < length t \<and> t ! (LEAST k. k < length t \<and> t ! k = 0) = 0"
    by (rule LeastI)
  moreover have "t ! j \<noteq> 0" if "j < (LEAST k. k < length t \<and> t ! k = 0)" for j
    using not_less_Least[OF that] that calculation by auto
  ultimately show ?thesis using that by blast
qed

lemma lowest_free_inside:
  assumes "free_inside s t \<noteq> {}"
  obtains k where "k < length t" "t ! k = 0" "\<forall>j < k. t ! j \<noteq> 0" "k \<in> free_inside s t"
proof -
  obtain i where i: "i < length t" "t ! i = 0" "in_image s i" using assms by (auto simp: free_inside_def free_clusters_def)
  then have "free_clusters t \<noteq> {}" by (auto simp: free_clusters_def)
  then obtain k where k: "k < length t" "t ! k = 0" "\<forall>j < k. t ! j \<noteq> 0" by (rule lowest_free)
  have "k \<le> i" using k(3) i(2) by (meson not_le)
  then have "in_image s k" by (rule in_image_mono[OF i(3)])
  with k show ?thesis by (intro that) (simp_all add: free_inside_def free_clusters_def)
qed

text \<open>Linking a free cluster behind the end of a chain takes it out of the free ones.\<close>

lemma link_table:
  assumes "c < length t" and "t ! c \<noteq> 0" and "k < length t" and "t ! k = 0" and "k \<noteq> 0" and "length t \<le> 32768"
  defines "t' \<equiv> t[c := of_nat k, k := FAT16_CLUSTER_CHAIN_END]"
  shows "free_clusters t' = free_clusters t - {k}" "t' ! c = of_nat k" "IS_END_OF_CLUSTER_CHAIN (t' ! k)"
    "c \<noteq> k" "unat (t' ! c) = k" "\<not> IS_END_OF_CLUSTER_CHAIN (t' ! c)" "length t' = length t"
    "i \<noteq> c \<Longrightarrow> i \<noteq> k \<Longrightarrow> t' ! i = t ! i"
proof -
  show ck: "c \<noteq> k" using assms(2,4) by auto
  show c: "t' ! c = of_nat k" using ck assms(1) by (simp add: t'_def)
  have small: "unat (of_nat k :: u16) = k" using assms(3,6) by (intro unat_of_nat_u16) simp
  show "unat (t' ! c) = k" unfolding c by (rule small)
  show "\<not> IS_END_OF_CLUSTER_CHAIN (t' ! c)"
    unfolding c using small assms(3,6) by (simp add: IS_END_OF_CLUSTER_CHAIN_def word_le_nat_alt)
  have e: "t' ! k = FAT16_CLUSTER_CHAIN_END" using assms(3) by (simp add: t'_def)
  then show "IS_END_OF_CLUSTER_CHAIN (t' ! k)"
    by (simp add: FAT16_CLUSTER_CHAIN_END_def IS_END_OF_CLUSTER_CHAIN_def)
  show "length t' = length t" by (simp add: t'_def)
  show o: "i \<noteq> c \<Longrightarrow> i \<noteq> k \<Longrightarrow> t' ! i = t ! i" for i by (simp add: t'_def)
  have "(of_nat k :: u16) \<noteq> 0" using small assms(5) by (metis unat_0)
  moreover have "FAT16_CLUSTER_CHAIN_END \<noteq> 0" by (simp add: FAT16_CLUSTER_CHAIN_END_def)
  ultimately have "i \<in> free_clusters t' \<longleftrightarrow> i \<in> free_clusters t - {k}" for i
    using o[of i] c e assms(2) by (cases "i = c"; cases "i = k") (auto simp: free_clusters_def t'_def)
  then show "free_clusters t' = free_clusters t - {k}" by blast
qed

text \<open>
  What the loop leaves when it appends data to the chain that ends at \<open>c\<close>: the data lies in \<open>c\<close> and
  in clusters \<open>cs\<close> that were free and are now linked behind it; the other entries of the table and
  the other clusters are as they were.
\<close>

definition appended :: "loader \<Rightarrow> u16 list \<Rightarrow> nat \<Rightarrow> bytes \<Rightarrow> loader \<Rightarrow> u16 list \<Rightarrow> nat list \<Rightarrow> bool" where
  "appended s t c d s' t' cs \<longleftrightarrow>
    ld_ok s' t' \<and> fat_synced (as_fat s') \<and> same_volume s s' \<and> length t' = length t \<and> is_chain t' (c # cs) \<and>
    set cs \<subseteq> free_clusters t \<and> take (length d) (chain_data (as_fat s') (c # cs)) = d \<and>
    (\<forall>i. i \<noteq> c \<longrightarrow> i \<notin> set cs \<longrightarrow> t' ! i = t ! i) \<and>
    (\<forall>e < 65536. e \<noteq> c \<longrightarrow> e \<notin> set cs \<longrightarrow> cluster_data (as_fat s') e = cluster_data (as_fat s) e)"

lemma appended_one:
  assumes "cluster_written s t c b s'" and "c < length t" and "IS_END_OF_CLUSTER_CHAIN (t ! c)"
    and "length d \<le> length b" and "take (length d) b = d"
  shows "appended s t c d s' t []"
  using assms by (simp add: appended_def cluster_written_def chain_data_def)

lemma appended_link:
  assumes w: "cluster_written s t c b s1" "b = take (length b) d" "length b \<le> length d"
    and e: "same_volume s1 s2" "\<And>e. cluster_data (as_fat s2) e = cluster_data (as_fat s1) e"
    and c: "c < length t" "t ! c \<noteq> 0" and k: "k < length t" "t ! k = 0" "k \<noteq> 0" and lt: "length t \<le> 32768"
    and rest: "appended s2 (t[c := of_nat k, k := FAT16_CLUSTER_CHAIN_END]) k (drop (length b) d) s' t' cs"
  shows "appended s t c d s' t' (k # cs)"
proof -
  let ?t = "t[c := of_nat k, k := FAT16_CLUSTER_CHAIN_END]"
  note L = link_table[OF c k(1,2,3) lt] and W = w(1)[unfolded cluster_written_def] and R = rest[unfolded appended_def]
  have "c \<notin> free_clusters t" "k \<in> free_clusters t" using k(1,2) c(2) by (simp_all add: free_clusters_def)
  then have cs: "c \<notin> set cs" "set (k # cs) \<subseteq> free_clusters t" using R unfolding L(1) by auto
  have "t' ! c = ?t ! c" using R L(4) cs(1) by simp
  then have ch: "is_chain t' (c # k # cs)" using R c(1) k(3) L(5,6) by simp
  have "c < 65536" using c(1) lt by simp
  then have "cluster_data (as_fat s') c = b" using R W L(4) cs(1) e(2) by simp
  moreover have "length d - length b = length (drop (length b) d)" by simp
  ultimately have dt: "take (length d) (chain_data (as_fat s') (c # k # cs)) = d"
    using R w(2,3) append_take_drop_id[of "length b" d] by simp
  have "t' ! i = t ! i" if "i \<noteq> c" "i \<notin> set (k # cs)" for i using R L(8)[of i] that by simp
  moreover have "cluster_data (as_fat s') i = cluster_data (as_fat s) i"
    if "i < 65536" "i \<noteq> c" "i \<notin> set (k # cs)" for i
    using R W e(2) that by simp
  moreover have "same_volume s s'" using same_volume_trans[of s s1] same_volume_trans[of s s2] W R e(1) by blast
  ultimately show ?thesis
    unfolding appended_def using R L(7) ch cs(2) dt by simp
qed

text \<open>
  The loop from the start of the last cluster of a chain on: the data goes into that cluster and as many
  new ones behind it as it takes, which are linked to a chain.
\<close>

lemma ld_write_loop_ok:
  assumes "ld_ok s t" and "fat_synced (as_fat s)" and "c < length t" and "IS_END_OF_CLUSTER_CHAIN (t ! c)" and "t ! 0 \<noteq> 0"
    and "in_image s c"
    and "length cbuf = ld_cluster_bytes s" and "m < length buffer" and "length buffer < 2 ^ 31"
    and "(length buffer - m - 1) div ld_cluster_bytes s \<le> card (free_inside s t)"
  shows "\<exists>s' t' cs. ld_write_loop (of_nat (length buffer)) (of_nat m) (of_nat c) 0 cbuf buffer s =
      Some (Some (of_nat (length buffer)), s') \<and> appended s t c (drop m buffer) s' t' cs"
  using assms
proof (induction "length buffer - m" arbitrary: s t c m cbuf rule: less_induct)
  case less
  note ok = less.prems(1) and c = less.prems(3) and en = less.prems(4)
  let ?N = "length buffer"
  define n where "n = min (ld_cluster_bytes s) (?N - m)"
  obtain s1 b where F: "cluster_written s t c b s1" "length b = ld_cluster_bytes s" "take n b = take n (drop m buffer)"
    "ld_write_loop (of_nat ?N) (of_nat m) (of_nat c) 0 cbuf buffer s =
      (if m + n < ?N then do {
         (x, s) \<leftarrow> ld_extend (of_nat c) s1;
         (case x of
            Inl failed \<Rightarrow> Some (if failed then None else Some (of_nat (m + n)), s)
          | Inr k \<Rightarrow> ld_write_loop (of_nat ?N) (of_nat (m + n)) k 0 b buffer s)
       } else Some (Some (of_nat ?N), s1))"
    by (rule ld_write_loop_step[OF ok less.prems(2) c less.prems(6) en less.prems(7-9), folded n_def])
  show ?case
  proof (cases "m + n < ?N")
    case False
    then have "n = ?N - m" using less.prems(8) by (auto simp: n_def)
    moreover have "n \<le> ld_cluster_bytes s" by (simp add: n_def)
    ultimately have "appended s t c (drop m buffer) s1 t []" using F(2,3) by (intro appended_one[OF F(1) c en]) simp_all
    then show ?thesis using F(4) False by auto
  next
    case True
    then have n: "n = ld_cluster_bytes s" "0 < n"
      using ld_cluster_bytes_pos[OF ok] less.prems(8) by (auto simp: n_def)
    have "?N - m - 1 = (?N - (m + n) - 1) + n" using True n(2) by simp
    then have room: "Suc ((?N - (m + n) - 1) div n) \<le> card (free_inside s t)"
      using less.prems(10) n by (simp only: div_add_self2)
    then have "free_inside s t \<noteq> {}" by auto
    then obtain k where k: "k < length t" "t ! k = 0" "\<forall>j < k. t ! j \<noteq> 0" "k \<in> free_inside s t"
      by (rule lowest_free_inside)
    have k0: "k \<noteq> 0" using k(2) less.prems(5) by metis
    have tc: "t ! c \<noteq> 0" using end_not_free[OF en] .
    let ?t = "t[c := of_nat k, k := FAT16_CLUSTER_CHAIN_END]"
    note L = link_table[OF c tc k(1,2) k0 ld_okD(3)[OF ok]]
    have s1: "ld_ok s1 t" "fat_synced (as_fat s1)" "same_volume s s1" using F(1) by (simp_all add: cluster_written_def)
    obtain s2 where s2: "ld_extend (of_nat c) s1 = Some (Inr (of_nat k), s2)" "ld_ok s2 ?t" "fat_synced (as_fat s2)"
      "same_volume s1 s2" "\<And>e. cluster_data (as_fat s2) e = cluster_data (as_fat s1) e"
      using ld_extend_ok[OF s1(1,2) c tc k(1,2)] k(3) by blast
    have cb: "ld_cluster_bytes s2 = n" using same_volume_bytes[OF same_volume_trans[OF s1(3) s2(4)]] n(1) by simp
    note im = same_volume_in_image[OF same_volume_trans[OF s1(3) s2(4)]]
    have "free_inside s2 ?t = free_inside s t - {k}" unfolding free_inside_def L(1) using im by auto
    then have "card (free_inside s2 ?t) = card (free_inside s t) - 1" using k(4) by simp
    then have room2: "(?N - (m + n) - 1) div ld_cluster_bytes s2 \<le> card (free_inside s2 ?t)" using room cb by simp
    have imk: "in_image s2 k" using k(4) im by (simp add: free_inside_def)
    have "unat (?t ! 0) = k" if "c = 0" using L(5) that by simp
    moreover have "?t ! 0 = t ! 0" if "c \<noteq> 0" using L(8)[of 0] that k0 by simp
    ultimately have t0: "?t ! 0 \<noteq> 0" using k0 less.prems(5) by (metis unat_0)
    have smaller: "?N - (m + n) < ?N - m" "k < length ?t" "length b = ld_cluster_bytes s2"
      using True n k(1) F(2) cb by simp_all
    obtain s' t' cs where IH:
      "ld_write_loop (of_nat ?N) (of_nat (m + n)) (of_nat k) 0 b buffer s2 = Some (Some (of_nat ?N), s')"
      "appended s2 ?t k (drop (m + n) buffer) s' t' cs"
      using less.hyps[OF smaller(1) s2(2,3) smaller(2) L(3) t0 imk smaller(3) True less.prems(9) room2] by blast
    have "appended s t c (drop m buffer) s' t' (k # cs)"
      using F(2,3) n(1) True IH(2) k(1,2) k0 s2(4,5) ld_okD(3)[OF ok]
      by (intro appended_link[OF F(1) _ _ _ _ c tc]) (simp_all add: add.commute)
    then show ?thesis using F(4) True s2(1) IH(1) by auto
  qed
qed

end
