(* ===== verification/ImageLoad.thy ===== *)
theory ImageLoad
  imports ImageWrite
begin

text \<open>
  The image loader as a whole: the directory entry of the file that was written gets its size, the file's
  bytes are in its clusters, and the kernel that mounts the image afterwards finds the file and reads
  its contents.
\<close>

section \<open>Names\<close>

lemma iso_strcmp_string:
  "0 \<notin> set n \<Longrightarrow> length n < length e \<Longrightarrow> \<exists>r. iso_strcmp e (n @ 0 # rest) = Some r \<and>
    (r = 0 \<longleftrightarrow> take (Suc (length n)) e = n @ [0])"
proof (induction n arbitrary: e)
  case Nil
  then show ?case by (cases e) auto
next
  case (Cons c n)
  then obtain d e' where e: "e = d # e'" by (cases e) auto
  show ?case
  proof (cases "d = c")
    case True
    then show ?thesis using Cons.IH[of e'] Cons.prems e by auto
  next
    case False
    then show ?thesis using Cons.prems by (auto simp: e)
  qed
qed

lemma iso_strcmp_string_take:
  "0 \<notin> set n \<Longrightarrow> length n < m \<Longrightarrow> m \<le> length e \<Longrightarrow>
    iso_strcmp (take m e) (n @ 0 # rest) = iso_strcmp e (n @ 0 # rest)"
proof (induction n arbitrary: e m)
  case Nil
  then show ?case by (cases e; cases m) auto
next
  case (Cons c n)
  then obtain d e' k where "e = d # e'" "m = Suc k" by (cases e; cases m) auto
  then show ?case using Cons.IH[of k e'] Cons.prems by auto
qed

lemma entry_key_string:
  assumes "0 \<notin> set n" and "length n \<le> 10" and "12 \<le> length e"
  shows "entry_key e = n \<longleftrightarrow> take (Suc (length n)) e = n @ [0]"
proof
  assume "take (Suc (length n)) e = n @ [0]"
  then obtain r where e: "e = n @ 0 # r"
    using append_take_drop_id[of "Suc (length n)" e] by (metis append_Cons append_Nil append_assoc)
  have "12 - length n = Suc (11 - length n)" using assms(2) by simp
  moreover have "take 12 e = n @ take (12 - length n) (0 # r)" using assms(2) by (simp add: e)
  ultimately have "take 12 e = n @ 0 # take (11 - length n) r" by simp
  moreover have "\<forall>c \<in> set n. c \<noteq> 0" using assms(1) by metis
  ultimately show "entry_key e = n" by (simp add: entry_key_def takeWhile_append2)
next
  assume k: "entry_key e = n"
  let ?z = "\<lambda>c. c \<noteq> (0 :: u8)"
  have l: "length (takeWhile ?z (take 12 e)) < length (take 12 e)"
    using k assms(2,3) by (simp add: entry_key_def)
  have "take (length n) (take 12 e) = n" using k takeWhile_eq_take[of ?z "take 12 e"] by (simp add: entry_key_def)
  moreover have "take 12 e ! length n = 0" using nth_length_takeWhile[OF l] k by (simp add: entry_key_def)
  moreover have "length n < length (take 12 e)" using assms(2,3) by simp
  ultimately have "take (Suc (length n)) (take 12 e) = n @ [0]" by (simp only: take_Suc_conv_app_nth)
  then show "take (Suc (length n)) e = n @ [0]" using assms(2) by simp
qed

text \<open>Among the entries of a directory the loader's \<open>strcmp\<close> finds the ones the kernel's \<open>strncmp\<close> finds.\<close>

lemma strcmp_entry:
  assumes n: "0 \<notin> set n" "length n \<le> 10"
  shows "entry_test (\<lambda>p. iso_strcmp p (n @ 0 # rest))"
    and "32 \<le> length e \<Longrightarrow> iso_strcmp e (n @ 0 # rest) = Some 0 \<longleftrightarrow> entry_key e = n"
proof -
  show "entry_test (\<lambda>p. iso_strcmp p (n @ 0 # rest))"
    unfolding entry_test_def
  proof (intro allI impI conjI)
    fix b :: bytes assume b: "32 \<le> length b"
    show "\<exists>r. iso_strcmp b (n @ 0 # rest) = Some r" using iso_strcmp_string[OF n(1), of b rest] n(2) b by auto
    show "iso_strcmp (take 32 b) (n @ 0 # rest) = iso_strcmp b (n @ 0 # rest)"
      using n b by (intro iso_strcmp_string_take) simp_all
  qed
  show "iso_strcmp e (n @ 0 # rest) = Some 0 \<longleftrightarrow> entry_key e = n" if "32 \<le> length e"
    using iso_strcmp_string[OF n(1), of e rest] entry_key_string[OF n, of e] n(2) that by auto
qed

section \<open>Updating a directory entry\<close>

lemma ld_get_ith_view:
  assumes ok: "ld_ok s t" and ch: "is_chain t cs"
  shows "ld_get_ith_cluster (hd cs) i s = Some (if i < length cs then int (cs ! i) else - 1)"
  using ch
proof (induction i arbitrary: cs)
  case 0
  then show ?case by (cases cs) auto
next
  case (Suc i)
  then obtain c ds where cs: "cs = c # ds" by (cases cs) auto
  have v: "ld_table_get c s = Some (t ! c)"
    using is_chain_bound[OF Suc.prems, of c] ld_table_get_view[OF ok] by (simp add: cs)
  show ?case
  proof (cases ds)
    case Nil
    then show ?thesis using Suc.prems v by (simp add: cs)
  next
    case (Cons d es)
    have "t ! c \<noteq> 0" using Suc.prems by (auto simp: cs Cons)
    then show ?thesis using Suc v Suc.IH[of ds] by (simp add: cs Cons FAT16_FREE_CLUSTER_def)
  qed
qed

lemma ld_dir_walk_hit:
  assumes ok: "ld_ok s t" and ch: "is_chain t (us @ c # vs)" and im: "\<And>u. u \<in> set (us @ [c]) \<Longrightarrow> in_image s u"
    and "length dir = ld_cluster_bytes s"
    and "\<And>u. u \<in> set us \<Longrightarrow> body (of_nat u) (cluster_data (as_fat s) u) s = Some (None, s)"
    and hit: "body (of_nat c) (cluster_data (as_fat s) c) s = Some (Some v, s')"
  shows "ld_dir_walk (hd (us @ c # vs)) 0 dir body err s = Some (Some v, s')"
proof -
  let ?cs = "us @ c # vs"
  have walk: "ld_dir_walk (hd ?cs) i dir body err s = Some (Some v, s')"
    if "i \<le> length us" "length dir = ld_cluster_bytes s" for i dir
    using that
  proof (induction "length us - i" arbitrary: i dir)
    case 0
    then have i: "i = length us" by simp
    have "c < length t" "in_image s c" using is_chain_bound[OF ch] im by simp_all
    then show ?case
      using ld_get_ith_view[OF ok ch, of i] i ld_read_cluster[OF ok _ _ 0(3)] hit by (subst ld_dir_walk.simps) simp
  next
    case (Suc n)
    then have i: "i < length us" by simp
    then have u: "us ! i \<in> set us" by simp
    then have "us ! i < length t" "in_image s (us ! i)" using is_chain_bound[OF ch] im by simp_all
    then have "ld_dir_walk (hd ?cs) i dir body err s =
        ld_dir_walk (hd ?cs) (Suc i) (cluster_data (as_fat s) (us ! i)) body err s"
      using ld_get_ith_view[OF ok ch, of i] i ld_read_cluster[OF ok _ _ Suc.prems(2)] assms(5)[OF u]
      by (subst ld_dir_walk.simps) (simp add: nth_append)
    then show ?case
      using Suc.hyps i length_cluster_data[OF fat_ok_as_fat[OF ok], of "us ! i"] by simp
  qed
  show ?thesis by (rule walk) (use assms(4) in simp_all)
qed

lemma ld_entries_view: "ld_entries_per_cluster s = entries_per_cluster (as_fat s)"
  by (simp add: ld_entries_per_cluster_def entries_per_cluster_def)

lemma cluster_data_file: "cluster_data (as_fat (s\<lparr>ata_file := Some f\<rparr>)) c = cluster_data ((as_fat s)\<lparr>disk := image_disk (Some f)\<rparr>) c"
  by simp

text \<open>Replacing the entry at one place of a directory's chain: the image, seen as entries, afterwards.\<close>

lemma ld_replace_entry:
  assumes ok: "ld_ok s t" and ch: "is_chain t (us @ c # vs)" and im: "in_image s c" and e: "length (name e) = 11"
    and sl: "slots (cluster_data (as_fat s) c) = as @ old # bs"
  obtains f where "ld_fat_write_data_cluster (of_nat c)
      (put_entry (length as) (dirent_bytes e) (cluster_data (as_fat s) c)) s = Some (0, s\<lparr>ata_file := Some f\<rparr>)"
    and "ld_ok (s\<lparr>ata_file := Some f\<rparr>) t" and "same_volume s (s\<lparr>ata_file := Some f\<rparr>)"
    and "fat_synced (as_fat s) \<Longrightarrow> fat_synced (as_fat (s\<lparr>ata_file := Some f\<rparr>))"
    and "entries (as_fat (s\<lparr>ata_file := Some f\<rparr>)) (us @ c # vs) =
      entries (as_fat s) us @ as @ dirent_bytes e # bs @ entries (as_fat s) vs"
    and "\<And>u. u < 65536 \<Longrightarrow> u \<noteq> c \<Longrightarrow> cluster_data (as_fat (s\<lparr>ata_file := Some f\<rparr>)) u = cluster_data (as_fat s) u"
proof -
  let ?s = "as_fat s" and ?b = "put_entry (length as) (dirent_bytes e) (cluster_data (as_fat s) c)"
  have k: "length as < length (cluster_data ?s c) div 32" using arg_cong[OF sl, of length] by simp
  have c: "c < length t" using is_chain_bound[OF ch] by simp
  have lb: "length ?b = ld_cluster_bytes s"
    using length_put_entry[OF length_dirent_bytes[OF e] k] length_cluster_data[OF fat_ok_as_fat[OF ok]] by simp
  obtain f where f: "ld_fat_write_data_cluster (of_nat c) ?b s = Some (0, s\<lparr>ata_file := Some f\<rparr>)"
    "ld_ok (s\<lparr>ata_file := Some f\<rparr>) t" "cluster_data (as_fat (s\<lparr>ata_file := Some f\<rparr>)) c = ?b"
    "\<And>u. u < 65536 \<Longrightarrow> u \<noteq> c \<Longrightarrow> cluster_data (as_fat (s\<lparr>ata_file := Some f\<rparr>)) u = cluster_data ?s u"
    "fat_synced ?s \<Longrightarrow> fat_synced (as_fat (s\<lparr>ata_file := Some f\<rparr>))"
    "\<And>i. i < unat (root_dir_start (ld_fs s)) \<Longrightarrow> sectors (image_disk (Some f)) i = image_sectors_of s i"
    "length f = image_length s"
    using ld_write_cluster[OF ok c im lb] by blast
  let ?s' = "as_fat (s\<lparr>ata_file := Some f\<rparr>)"
  have small: "u < 65536" if "u \<in> set (us @ c # vs)" for u
    using is_chain_bound[OF ch that] ld_okD(3)[OF ok] by simp
  have "entries ?s' us = entries ?s us" "entries ?s' vs = entries ?s vs"
    unfolding entries_def using is_chain_distinct[OF ch] small
    by (intro arg_cong[of _ _ concat] map_cong refl arg_cong[of _ _ slots] f(4); force)+
  moreover have "slots (cluster_data ?s' c) = as @ dirent_bytes e # bs"
    unfolding f(3) slots_put_entry[OF length_dirent_bytes[OF e] k] sl by (simp add: list_update_append)
  ultimately have "entries ?s' (us @ c # vs) = entries ?s us @ as @ dirent_bytes e # bs @ entries ?s vs"
    by (simp only: entries_simps) simp
  moreover have "same_volume s (s\<lparr>ata_file := Some f\<rparr>)"
    using f(6,7) by (intro same_volume_cluster ld_okD(1)[OF ok])
  ultimately show ?thesis using f(1,2,4,5) by (intro that[of f]) simp_all
qed

text \<open>The first entry with the name is replaced; the rest of the directory, the other clusters and the table stay.\<close>

lemma ld_update_dir_entry_ok:
  assumes ok: "ld_ok s t" and d: "dir_chain t d cs" and im: "\<And>c. c \<in> set cs \<Longrightarrow> in_image s c" and n: "0 \<notin> set n" "length n \<le> 10"
    and e: "length (name e) = 11"
    and sp: "entries (as_fat s) cs = xs @ old # ys" and no: "\<And>x. x \<in> set xs \<Longrightarrow> entry_key x \<noteq> n" and hit: "entry_key old = n"
  shows "\<exists>f. ld_fat_update_dir_entry (n @ 0 # rest) d e s = Some (True, s\<lparr>ata_file := Some f\<rparr>) \<and>
    ld_ok (s\<lparr>ata_file := Some f\<rparr>) t \<and> same_volume s (s\<lparr>ata_file := Some f\<rparr>) \<and>
    (fat_synced (as_fat s) \<longrightarrow> fat_synced (as_fat (s\<lparr>ata_file := Some f\<rparr>))) \<and>
    entries (as_fat (s\<lparr>ata_file := Some f\<rparr>)) cs = xs @ dirent_bytes e # ys \<and>
    (\<forall>c < 65536. c \<notin> set cs \<longrightarrow> cluster_data (as_fat (s\<lparr>ata_file := Some f\<rparr>)) c = cluster_data (as_fat s) c)"
proof -
  let ?cmp = "\<lambda>p. iso_strcmp p (n @ 0 # rest)" and ?s = "as_fat s"
  note D = dir_chainD[OF d] and test = strcmp_entry(1)[OF n, of rest] and fok = fat_ok_as_fat[OF ok]
  have len32: "length x = 32" if "x \<in> set (xs @ old # ys)" for x using that length_entry[of x ?s cs] sp by simp
  have cmp: "?cmp x = Some 0 \<longleftrightarrow> entry_key x = n" if "x \<in> set (xs @ old # ys)" for x
    using strcmp_entry(2)[OF n, of x rest] len32[OF that] by simp
  have "?cmp x \<noteq> Some 0" if "x \<in> set xs" for x using cmp[of x] no[OF that] that by simp
  moreover have "?cmp old = Some 0" using cmp[of old] hit by simp
  ultimately obtain us c vs as bs where S: "cs = us @ c # vs" "slots (cluster_data ?s c) = as @ old # bs"
    "xs = entries ?s us @ as" "ys = bs @ entries ?s vs"
    "\<And>u. u \<in> set us \<Longrightarrow> scan_entries ?cmp 0 (entries_per_cluster ?s) (cluster_data ?s u) = Some None"
    "scan_entries ?cmp 0 (entries_per_cluster ?s) (cluster_data ?s c) = Some (Some (length as))"
    using first_match_scan[OF fok test sp] by metis
  obtain f where f: "ld_fat_write_data_cluster (of_nat c)
      (put_entry (length as) (dirent_bytes e) (cluster_data ?s c)) s = Some (0, s\<lparr>ata_file := Some f\<rparr>)"
    "ld_ok (s\<lparr>ata_file := Some f\<rparr>) t" "same_volume s (s\<lparr>ata_file := Some f\<rparr>)"
    "fat_synced ?s \<Longrightarrow> fat_synced (as_fat (s\<lparr>ata_file := Some f\<rparr>))"
    "entries (as_fat (s\<lparr>ata_file := Some f\<rparr>)) (us @ c # vs) =
      entries ?s us @ as @ dirent_bytes e # bs @ entries ?s vs"
    "\<And>u. u < 65536 \<Longrightarrow> u \<noteq> c \<Longrightarrow> cluster_data (as_fat (s\<lparr>ata_file := Some f\<rparr>)) u = cluster_data ?s u"
    using ld_replace_entry[OF ok D(1)[unfolded S(1)] im e S(2)] by (auto simp: S(1))
  let ?body = "\<lambda>cluster_num dir s. do {
     k \<leftarrow> scan_entries ?cmp 0 (ld_entries_per_cluster s) dir;
     (case k of
        None \<Rightarrow> Some (None, s)
      | Some k \<Rightarrow> do {
          (r, s) \<leftarrow> ld_fat_write_data_cluster cluster_num (put_entry k (dirent_bytes e) dir) s;
          Some (Some (r = 0), s)
        }) }"
  have walked: "u \<in> set (us @ [c]) \<Longrightarrow> in_image s u" for u using im[of u] S(1) by auto
  have "ld_dir_walk (hd (us @ c # vs)) 0 (replicate (ld_cluster_bytes s) 0) ?body False s =
      Some (Some True, s\<lparr>ata_file := Some f\<rparr>)"
    using D(1) S(5,6) f(1) walked by (intro ld_dir_walk_hit[OF ok]) (simp_all add: S(1) ld_entries_view)
  moreover have "ld_table s \<noteq> None" using ok by (auto simp: ld_ok_def)
  ultimately have "ld_fat_update_dir_entry (n @ 0 # rest) d e s = Some (True, s\<lparr>ata_file := Some f\<rparr>)"
    using ld_okD(6)[OF ok] D(3) by (simp add: ld_fat_update_dir_entry_def ld_dir_buffer_def S(1))
  moreover have "entries (as_fat (s\<lparr>ata_file := Some f\<rparr>)) cs = xs @ dirent_bytes e # ys"
    using f(5) by (simp add: S(1,3,4))
  ultimately show ?thesis using f(2-4,6) S(1) by auto
qed

section \<open>Writing a file\<close>

text \<open>The chain of a directory is not touched by a change of free clusters and of one cluster outside.\<close>

lemma dir_chain_other:
  assumes d: "dir_chain t d ds" and "length t' = length t" and c: "c \<notin> set ds" and cs: "set cs \<subseteq> free_clusters t"
    and eq: "\<forall>i. i \<noteq> c \<longrightarrow> i \<notin> set cs \<longrightarrow> t' ! i = t ! i"
  shows "dir_chain t' d ds" and "x \<in> set ds \<Longrightarrow> x \<noteq> c \<and> x \<notin> set cs"
proof -
  have used: "t ! x \<noteq> 0" if "is_chain t xs" "x \<in> set xs" for xs x
    using that
  proof (induction t xs rule: is_chain.induct)
    case (2 t c)
    then show ?case using end_not_free by auto
  qed auto
  show *: "x \<noteq> c \<and> x \<notin> set cs" if "x \<in> set ds" for x
    using that c cs used[OF dir_chainD(1)[OF d]] by (auto simp: free_clusters_def)
  then have "is_chain t' ds" using eq assms(2) by (intro is_chain_cong[OF dir_chainD(1)[OF d]]) blast+
  then show "dir_chain t' d ds" using d by (simp add: dir_chain_def)
qed

lemma entries_cong: "(\<And>c. c \<in> set cs \<Longrightarrow> cluster_data s c = cluster_data s' c) \<Longrightarrow> entries s cs = entries s' cs"
  unfolding entries_def by (intro arg_cong[of _ _ concat] map_cong) simp_all

text \<open>A file name in eleven bytes: the string, its terminator, and padding.\<close>

lemma entry_name:
  assumes "length nm = 11" and "0 \<in> set nm"
  obtains n rest where "nm = n @ 0 # rest" and "0 \<notin> set n" and "length n \<le> 10" and "entry_key nm = n"
proof -
  obtain n rest where n: "nm = n @ 0 # rest" "0 \<notin> set n" using split_list_first[OF assms(2)] by blast
  moreover have "\<forall>c \<in> set n. c \<noteq> 0" using n(2) by metis
  then have "entry_key nm = n" using assms(1) by (simp add: entry_key_def takeWhile_append2 n(1))
  moreover have "length n \<le> 10" using assms(1) n(1) by simp
  ultimately show ?thesis using that by blast
qed

lemma file_start:
  assumes "0 < c" and "c < 32768"
  shows "(of_nat c :: u16) \<noteq> 0" and "ucast (of_nat c :: u16) = (of_nat c :: u32)"
proof -
  have u: "unat (of_nat c :: u16) = c" using assms(2) by (intro unat_of_nat_u16) simp
  then show "(of_nat c :: u16) \<noteq> 0" using assms(1) by (metis less_irrefl unat_0)
  have "unat (of_nat c :: u32) = c" using assms(2) by (intro unat_of_nat_u32) simp
  then show "ucast (of_nat c :: u16) = (of_nat c :: u32)"
    using u by (simp only: word_unat_eq_iff unat_ucast_16)
qed

text \<open>Up to the update of the directory, writing from the start of a file is the loop.\<close>

lemma ld_fat_write_eq:
  assumes ok: "ld_ok s t" and c: "start_cluster file = of_nat c" "0 < c" "c < length t"
    and at: "attr file AND FAT_ATTR_DIRECTORY = 0"
  shows "ld_fat_write file parent 0 sz buffer s = do {
    (n, s) \<leftarrow> ld_write_loop sz (of_nat 0) (of_nat c) 0 (replicate (ld_cluster_bytes s) 0) buffer s;
    (case n of
       None \<Rightarrow> Some (- 1, file, s)
     | Some bytes_written \<Rightarrow> ld_write_size file parent 0 bytes_written s) }"
proof -
  have "ld_bytes_per_cluster s \<noteq> 0"
    using ld_cluster_bytes_pos[OF ok] unat_ld_bytes_per_cluster[of s] by (metis less_irrefl unat_0)
  moreover have "ld_first_cluster file s = Some (Some (of_nat c), file, s)"
    using file_start[of c] c ld_okD(3)[OF ok] by (simp add: ld_first_cluster_def)
  ultimately show ?thesis using at ld_okD(6)[OF ok] by (simp add: ld_fat_write_def Let_def)
qed

lemma ld_fat_write_stored:
  assumes ok: "ld_ok s t" and sy: "fat_synced (as_fat s)" and t0: "t ! 0 \<noteq> 0"
    and c: "start_cluster file = of_nat c" "0 < c" "c < length t" "IS_END_OF_CLUSTER_CHAIN (t ! c)"
    and at: "attr file AND FAT_ATTR_DIRECTORY = 0" and sz: "file_size file = 0"
    and nm: "length (name file) = 11" "0 \<in> set (name file)"
    and im: "in_image s c" "\<forall>d \<in> set ds. in_image s d"
    and d: "dir_chain t parent ds" "c \<notin> set ds" and sp: "entries (as_fat s) ds = xs @ old # ys"
    and no: "\<And>x. x \<in> set xs \<Longrightarrow> entry_key x \<noteq> entry_key (name file)" and hit: "entry_key old = entry_key (name file)"
    and buf: "buffer \<noteq> []" "length buffer < 2 ^ 31"
    and room: "(length buffer - 1) div ld_cluster_bytes s \<le> card (free_inside s t)"
  defines "file' \<equiv> file\<lparr>file_size := of_nat (length buffer)\<rparr>"
  shows "\<exists>s' t' cs. ld_fat_write file parent 0 (of_nat (length buffer)) buffer s = Some (int (length buffer), file', s') \<and>
    ld_ok s' t' \<and> fat_synced (as_fat s') \<and> same_volume s s' \<and> data_chain t' (c # cs) \<and>
    take (length buffer) (chain_data (as_fat s') (c # cs)) = buffer \<and>
    dir_chain t' parent ds \<and> entries (as_fat s') ds = xs @ dirent_bytes file' # ys"
proof -
  let ?N = "length buffer"
  have N: "0 < ?N" using buf(1) by simp
  have uN: "unat (of_nat ?N :: u32) = ?N" using buf(2) by (intro unat_of_nat_u32) simp
  obtain s1 t' cs where W: "ld_write_loop (of_nat ?N) (of_nat 0) (of_nat c) 0 (replicate (ld_cluster_bytes s) 0) buffer s =
      Some (Some (of_nat ?N), s1)" "ld_ok s1 t'" "fat_synced (as_fat s1)" "same_volume s s1" "length t' = length t"
    "is_chain t' (c # cs)" "set cs \<subseteq> free_clusters t" "take ?N (chain_data (as_fat s1) (c # cs)) = buffer"
    "\<forall>i. i \<noteq> c \<longrightarrow> i \<notin> set cs \<longrightarrow> t' ! i = t ! i"
    "\<forall>e < 65536. e \<noteq> c \<longrightarrow> e \<notin> set cs \<longrightarrow> cluster_data (as_fat s1) e = cluster_data (as_fat s) e"
    using ld_write_loop_ok[OF ok sy c(3,4) t0 im(1) _ N buf(2), of "replicate (ld_cluster_bytes s) 0"] room
    by (auto simp: appended_def)
  note other = dir_chain_other[OF d(1) W(5) d(2) W(7,9)]
  have small: "e < 65536" if "e < length t" for e using that ld_okD(3)[OF ok] by simp
  have "entries (as_fat s1) ds = entries (as_fat s) ds"
    using W(10) other(2) small is_chain_bound[OF dir_chainD(1)[OF d(1)]] by (intro entries_cong) blast
  then have sp1: "entries (as_fat s1) ds = xs @ old # ys" using sp by simp
  obtain n rest where n: "name file = n @ 0 # rest" "0 \<notin> set n" "length n \<le> 10" "entry_key (name file) = n"
    by (rule entry_name[OF nm])
  have nm': "length (name file') = 11" using nm(1) by (simp add: file'_def)
  have im1: "in_image s1 c" if "c \<in> set ds" for c using that im(2) same_volume_in_image[OF W(4)] by simp
  obtain rest' where rest': "dirent_bytes file' = n @ 0 # rest'" by (simp add: dirent_bytes_def file'_def n(1))
  obtain f where U: "ld_fat_update_dir_entry (dirent_bytes file') parent file' s1 = Some (True, s1\<lparr>ata_file := Some f\<rparr>)"
    "ld_ok (s1\<lparr>ata_file := Some f\<rparr>) t'" "same_volume s1 (s1\<lparr>ata_file := Some f\<rparr>)"
    "fat_synced (as_fat (s1\<lparr>ata_file := Some f\<rparr>))"
    "entries (as_fat (s1\<lparr>ata_file := Some f\<rparr>)) ds = xs @ dirent_bytes file' # ys"
    "\<forall>c < 65536. c \<notin> set ds \<longrightarrow> cluster_data (as_fat (s1\<lparr>ata_file := Some f\<rparr>)) c = cluster_data (as_fat s1) c"
    using ld_update_dir_entry_ok[OF W(2) other(1) im1 n(2,3) nm' sp1, of rest'] no hit W(3)
    unfolding rest' n(4) by blast
  let ?s = "s1\<lparr>ata_file := Some f\<rparr>"
  have "file_size file < of_nat ?N" using sz N uN by (simp add: word_less_nat_alt)
  then have "ld_write_size file parent 0 (of_nat ?N) s1 = Some (int ?N, file', ?s)"
    using U(1) sint_small[of "of_nat ?N"] uN buf(2) by (simp add: ld_write_size_def file'_def)
  then have "ld_fat_write file parent 0 (of_nat ?N) buffer s = Some (int ?N, file', ?s)"
    using W(1) by (simp add: ld_fat_write_eq[OF ok c(1-3) at])
  moreover have in_t: "x < length t" if "x \<in> set (c # cs)" for x using is_chain_bound[OF W(6) that] W(5) by simp
  have "chain_data (as_fat ?s) (c # cs) = chain_data (as_fat s1) (c # cs)"
    unfolding chain_data_def using U(6) in_t small other(2) d(2)
    by (intro arg_cong[of _ _ concat] map_cong) auto
  moreover have "0 \<notin> set cs" using W(7) t0 by (auto simp: free_clusters_def)
  then have "data_chain t' (c # cs)"
    using W(6) in_t c(2) ld_okD(3)[OF ok] unfolding data_chain_def by (fastforce intro: gr0I)
  ultimately show ?thesis
    using U(2,4,5) W(8) other(1) same_volume_trans[OF W(4) U(3)]
    by (intro exI[of _ ?s] exI[of _ t'] exI[of _ cs]) simp
qed

section \<open>The kernel reads it\<close>

lemma table_bytes_inj:
  assumes "table_bytes t = table_bytes u"
  shows "t = u"
  using bytes_table_bytes[of t "[]"] bytes_table_bytes[of u "[]"] assms by simp

text \<open>A table is determined by its copy on disk.\<close>

lemma table_from_disk:
  assumes "length t = 256 * n" and "length u = 256 * n"
    and "\<And>j. j < n \<Longrightarrow> take 512 (drop (512 * j) (table_bytes t)) = take 512 (drop (512 * j) (table_bytes u))"
  shows "t = u"
proof -
  have blocks: "concat (map (\<lambda>i. take 512 (drop (512 * i) (table_bytes v))) [0..<n]) = table_bytes v"
    if "length v = 256 * n" for v
    using hdd_dev.concat_blocks[of n "table_bytes v"] that by simp
  have "map (\<lambda>i. take 512 (drop (512 * i) (table_bytes t))) [0..<n] = map (\<lambda>i. take 512 (drop (512 * i) (table_bytes u))) [0..<n]"
    using assms(3) by simp
  then have "table_bytes t = table_bytes u" using blocks assms(1,2) by metis
  then show ?thesis by (rule table_bytes_inj)
qed

text \<open>The kernel after mounting the loader's image has the loader's table and the loader's clusters.\<close>

lemma mount_loaded_image:
  assumes ok: "ld_ok s t" and sy: "fat_synced (as_fat s)"
    and b: "boot_ok (image_sectors_of s 0)" "parse_boot_sector (image_sectors_of s 0) = Some (ld_fs s)"
    and k: "length (name (root_dir k)) = 11" "memory_granted k (image_sectors_of s 0)" "disk k = image_disk (ata_file s)"
  shows "\<exists>k'. fat_init k = Some (True, k') \<and> fat_ok k' t \<and> fat_synced k' \<and> cluster_bytes k' = ld_cluster_bytes s \<and>
    (\<forall>c. cluster_data k' c = cluster_data (as_fat s) c)"
proof -
  obtain f where f: "ata_file s = Some f" by (rule ld_okE_file[OF ok])
  have hd: "hdd_ok (disk k)" using f by (simp add: k(3))
  have b': "boot_ok (sectors (disk k) 0)" using b(1) by (simp add: k(3))
  have m': "memory_granted k (sectors (disk k) 0)" using k(2) by (simp add: k(3))
  obtain k' u where k': "fat_init k = Some (True, k')" "fat_ok k' u" "fat_synced k'" "disk k' = disk k"
    "parse_boot_sector (sectors (disk k) 0) = Some (fat16_fs k')"
    using fat_init_mounted[OF hd b' k(1) m'] by blast
  have g: "fat16_fs k' = ld_fs s" using k'(5) b(2) by (simp add: k(3))
  have "u = t"
  proof (rule table_from_disk[of _ "unat (sectors_per_fat (ld_fs s))"])
    show "length u = 256 * unat (sectors_per_fat (ld_fs s))" using fat_okD(4)[OF k'(2)] g by simp
    show "length t = 256 * unat (sectors_per_fat (ld_fs s))" using ld_okD(2)[OF ok] .
    have "copy_is s t" using copy_is_synced[OF ok] sy by simp
    then show "take 512 (drop (512 * j) (table_bytes u)) = take 512 (drop (512 * j) (table_bytes t))"
      if "j < unat (sectors_per_fat (ld_fs s))" for j
      using k'(3,4) that fat_okD(1)[OF k'(2)] by (simp add: fat_synced_def copy_is_def g k(3))
  qed
  then show ?thesis
    using k' g by (intro exI[of _ k'])
      (simp add: cluster_data_def cluster_sector_def cluster_bytes_def ld_cluster_bytes_def k(3))
qed

lemma same_volume_boot:
  assumes "same_volume s s'" and "0 < reserved_sectors (ld_fs s)"
  shows "image_sectors_of s' 0 = image_sectors_of s 0"
  using assms by (simp add: same_volume_def word_less_nat_alt)

lemma chain_data_cong: "(\<And>c. cluster_data s c = cluster_data s' c) \<Longrightarrow> chain_data s cs = chain_data s' cs"
  by (simp add: chain_data_def cong: map_cong)

lemma entry_key_append: "length nm = 11 \<Longrightarrow> 0 \<in> set nm \<Longrightarrow> entry_key (nm @ x) = entry_key nm"
  by (simp add: entry_key_def takeWhile_append1[of 0])

text \<open>Reading a whole file whose chain starts with its data.\<close>

lemma fat_read_whole:
  assumes ok: "fat_ok k t" and ch: "data_chain t (c # cs)" and dt: "take (length b) (chain_data k (c # cs)) = b"
    and f: "unat (start_cluster file) = c" "file_size file = of_nat (length b)" "attr file AND FAT_ATTR_DIRECTORY = 0"
    and b: "b \<noteq> []" "length b < 2 ^ 31" "length b \<le> length out"
  shows "fat_read file 0 (of_nat (length b)) out k = Some (int (length b), b @ drop (length b) out)"
proof -
  have "length (take (length b) (chain_data k (c # cs))) = length b" by (simp only: dt)
  then have fits: "length b \<le> cluster_bytes k * length (c # cs)"
    unfolding length_take length_chain_data[OF ok] by linarith
  have uN: "unat (of_nat (length b) :: u32) = length b" using b(2) by (intro unat_of_nat_u32) simp
  have st: "unat (start_cluster file) = hd (c # cs)" using f(1) by simp
  have "0 < file_size file" using uN b(1) f(2) by (simp add: word_less_nat_alt)
  then have "fat_read file 0 (of_nat (length b)) out k =
      Some (int (length b), take (length b) (drop (unat (0 :: u32)) (chain_data k (c # cs))) @ drop (length b) out)"
    using f(2,3) fits uN b by (intro fat_read_chain[OF ok ch st]) simp_all
  then show ?thesis by (simp only: unat_0 drop_0 dt)
qed

lemma kernel_reads_loaded:
  assumes ok: "ld_ok s t" and sy: "fat_synced (as_fat s)" and t0: "t ! 0 \<noteq> 0"
    and b: "boot_ok (image_sectors_of s 0)" "parse_boot_sector (image_sectors_of s 0) = Some (ld_fs s)"
      "0 < reserved_sectors (ld_fs s)"
    and c: "start_cluster file = of_nat c" "0 < c" "c < length t" "IS_END_OF_CLUSTER_CHAIN (t ! c)"
    and at: "attr file AND FAT_ATTR_DIRECTORY = 0" and sz: "file_size file = 0"
    and nm: "length (name file) = 11" "0 \<in> set (name file)"
    and im: "in_image s c" "\<forall>d \<in> set ds. in_image s d"
    and d: "dir_chain t parent ds" "c \<notin> set ds"
    and find: "List.find (named (name file)) (entries (as_fat s) ds) = Some old"
    and buf: "buffer \<noteq> []" "length buffer < 2 ^ 31"
    and room: "(length buffer - 1) div ld_cluster_bytes s \<le> card (free_inside s t)"
    and k: "length (name (root_dir k)) = 11" "memory_granted k (image_sectors_of s 0)" and out: "length buffer \<le> length out"
  defines "file' \<equiv> file\<lparr>file_size := of_nat (length buffer)\<rparr>"
  shows "\<exists>s' k'. ld_fat_write file parent 0 (of_nat (length buffer)) buffer s = Some (int (length buffer), file', s') \<and>
    fat_init (k\<lparr>disk := image_disk (ata_file s')\<rparr>) = Some (True, k') \<and>
    fat_find_dir_entry (name file) parent k' = Some (Some file') \<and>
    fat_read file' 0 (of_nat (length buffer)) out k' = Some (int (length buffer), buffer @ drop (length buffer) out)"
proof -
  let ?N = "length buffer"
  obtain xs ys where X: "entries (as_fat s) ds = xs @ old # ys" "\<forall>x \<in> set xs. \<not> named (name file) x" "named (name file) old"
    using find_first[OF find] by blast
  have no: "entry_key x \<noteq> entry_key (name file)" if "x \<in> set xs" for x using X(2) that by blast
  obtain s' t' cs where S: "ld_fat_write file parent 0 (of_nat ?N) buffer s = Some (int ?N, file', s')"
    "ld_ok s' t'" "fat_synced (as_fat s')" "same_volume s s'" "data_chain t' (c # cs)"
    "take ?N (chain_data (as_fat s') (c # cs)) = buffer" "dir_chain t' parent ds"
    "entries (as_fat s') ds = xs @ dirent_bytes file' # ys"
    using ld_fat_write_stored[OF ok sy t0 c at sz nm im d X(1) no X(3) buf room] unfolding file'_def by blast
  have g: "ld_fs s' = ld_fs s" using S(4) by (simp add: same_volume_def)
  have boot: "image_sectors_of s' 0 = image_sectors_of s 0" using same_volume_boot[OF S(4) b(3)] .
  let ?k = "k\<lparr>disk := image_disk (ata_file s')\<rparr>"
  have mem: "memory_granted ?k (image_sectors_of s 0)" using k(2) by (simp add: memory_granted_def)
  obtain k' where K: "fat_init ?k = Some (True, k')" "fat_ok k' t'" "cluster_bytes k' = ld_cluster_bytes s'"
    "\<And>c. cluster_data k' c = cluster_data (as_fat s') c"
    using mount_loaded_image[OF S(2,3), of ?k] b(1,2) boot g k(1) mem by auto
  have nm': "length (name file') = 11" using nm(1) by (simp add: file'_def)
  have "entries k' ds = xs @ dirent_bytes file' # ys"
    using entries_cong[of ds k' "as_fat s'"] K(4) S(8) by simp
  moreover have "entry_key (dirent_bytes file') = entry_key (name file)"
    using entry_key_append[OF nm] by (simp add: dirent_bytes_def file'_def)
  ultimately have "List.find (named (name file)) (entries k' ds) = Some (dirent_bytes file')"
    using X(2) find_named_new[of xs "name file" "dirent_bytes file'" ys] by simp
  then have "fat_find_dir_entry (name file) parent k' = Some (Some file')"
    using find_dir_entry_eq[OF K(2) S(7), of "name file"] nm(2) dirent_of_bytes[OF nm', of "[]"] by simp
  moreover have "fat_read file' 0 (of_nat ?N) out k' = Some (int ?N, buffer @ drop ?N out)"
  proof (rule fat_read_whole[OF K(2) S(5)])
    show "take ?N (chain_data k' (c # cs)) = buffer"
      using S(6) chain_data_cong[of k' "as_fat s'" "c # cs"] K(4) by simp
    show "unat (start_cluster file') = c" using c ld_okD(3)[OF ok] by (simp add: file'_def unat_of_nat_u16)
  qed (use at buf out in \<open>simp_all add: file'_def\<close>)
  ultimately show ?thesis using S(1) K(1) by blast
qed

section \<open>Properties\<close>

text \<open>
  A file as the loader's \<open>fat_create\<close> leaves it: an entry of size 0 in a directory, the first one with
  its name, and one cluster of its own, with the clusters of both in the image.
\<close>

definition fresh_file :: "loader \<Rightarrow> u16 list \<Rightarrow> FAT16_DirEntry \<Rightarrow> FAT16_DirEntry \<Rightarrow> nat list \<Rightarrow> bool" where
  "fresh_file s t file parent ds \<longleftrightarrow>
     (let c = unat (start_cluster file)
      in 0 < c \<and> c < length t \<and> IS_END_OF_CLUSTER_CHAIN (t ! c) \<and> c \<notin> set ds \<and> in_image s c) \<and>
     (\<forall>d \<in> set ds. in_image s d) \<and> attr file AND FAT_ATTR_DIRECTORY = 0 \<and> file_size file = 0 \<and> length (name file) = 11 \<and> 0 \<in> set (name file) \<and>
     dir_chain t parent ds \<and> List.find (named (name file)) (entries (as_fat s) ds) \<noteq> None"

lemma fresh_fileD:
  assumes "fresh_file s t file parent ds"
  obtains c old where "start_cluster file = of_nat c" "0 < c" "c < length t" "IS_END_OF_CLUSTER_CHAIN (t ! c)"
    and "attr file AND FAT_ATTR_DIRECTORY = 0" "file_size file = 0" "length (name file) = 11" "0 \<in> set (name file)"
    and "in_image s c" "\<forall>d \<in> set ds. in_image s d"
    and "dir_chain t parent ds" "c \<notin> set ds" "List.find (named (name file)) (entries (as_fat s) ds) = Some old"
    and "c = unat (start_cluster file)"
proof -
  obtain old where "List.find (named (name file)) (entries (as_fat s) ds) = Some old"
    using assms by (auto simp: fresh_file_def)
  then show ?thesis
    using assms by (intro that[of "unat (start_cluster file)" old]) (auto simp: fresh_file_def Let_def)
qed

text \<open>C5. Writing a new file with the loader stores it: with free clusters enough inside the image, \<open>fat_write\<close> returns the number of
  bytes, the file's clusters from its first one on are a chain of the table that holds the
  bytes in order, the first copy of the table on disk is in step with the table, and the directory has
  the entry with the new size in the place of the old one and is otherwise unchanged.\<close>

theorem ld_fat_write_stores:
  assumes "ld_ok s t" and "fat_synced (as_fat s)" and "t ! 0 \<noteq> 0" and "fresh_file s t file parent ds"
    and "buffer \<noteq> []" and "length buffer < 2 ^ 31"
    and "(length buffer - 1) div ld_cluster_bytes s \<le> card (free_inside s t)"
  shows "\<exists>s' t' cs xs old ys file'. file' = file\<lparr>file_size := of_nat (length buffer)\<rparr> \<and>
    ld_fat_write file parent 0 (of_nat (length buffer)) buffer s = Some (int (length buffer), file', s') \<and>
    ld_ok s' t' \<and> fat_synced (as_fat s') \<and> data_chain t' (unat (start_cluster file) # cs) \<and>
    take (length buffer) (chain_data (as_fat s') (unat (start_cluster file) # cs)) = buffer \<and>
    dir_chain t' parent ds \<and> entries (as_fat s) ds = xs @ old # ys \<and>
    (\<forall>x \<in> set xs. entry_key x \<noteq> entry_key (name file)) \<and> entries (as_fat s') ds = xs @ dirent_bytes file' # ys"
proof (rule fresh_fileD[OF assms(4)])
  fix c old assume F: "start_cluster file = of_nat c" "0 < c" "c < length t" "IS_END_OF_CLUSTER_CHAIN (t ! c)"
    "attr file AND FAT_ATTR_DIRECTORY = 0" "file_size file = 0" "length (name file) = 11" "0 \<in> set (name file)"
    "in_image s c" "\<forall>d \<in> set ds. in_image s d" "dir_chain t parent ds" "c \<notin> set ds" "List.find (named (name file)) (entries (as_fat s) ds) = Some old"
    "c = unat (start_cluster file)"
  obtain xs ys where X: "entries (as_fat s) ds = xs @ old # ys" "\<forall>x \<in> set xs. \<not> named (name file) x" "named (name file) old"
    using find_first[OF F(13)] by blast
  have no: "entry_key x \<noteq> entry_key (name file)" if "x \<in> set xs" for x using X(2) that by blast
  show ?thesis
    using ld_fat_write_stored[OF assms(1-3) F(1-12) X(1) no X(3) assms(5-7)] X(1,2) unfolding F(14) by blast
qed

text \<open>An image of one table sector, with the empty file \<open>F.T\<close> in the root directory.\<close>

definition boot_example :: bytes where
  "boot_example = (replicate 512 0)[12 := 2, 13 := 1, 14 := 1, 16 := 1, 22 := 1, 510 := 0x55, 511 := 0xAA]"

definition ld_table_example :: "u16 list" where
  "ld_table_example = [0xFFF8, 0xFFFF, 0xFFFF] @ replicate 253 0"

definition new_file_example :: FAT16_DirEntry where
  "new_file_example = entry_example\<lparr>file_size := 0\<rparr>"

definition image_example :: bytes where
  "image_example = boot_example @ table_bytes ld_table_example @ put_entry 0 (dirent_bytes new_file_example) (replicate 512 0) @
     replicate (512 * 8) 0"

definition loader_example :: loader where
  "loader_example = \<lparr>ata_file = Some image_example, accepts = (\<lambda>_ n. n),
     ld_fs = \<lparr>bytes_per_sector = 512, sectors_per_cluster = 1, reserved_sectors = 1, num_fats = 1,
       root_dir_entries = 0, total_sectors = 0, sectors_per_fat = 1, root_dir_start = 2, data_start = 2\<rparr>,
     ld_table = Some (ld_table_example @ replicate 32512 0), ld_root_dir = zero_entry,
     malloc_ok = (\<lambda>n. 0 < n \<and> n \<le> 65536), malloc_junk = (\<lambda>_. 0)\<rparr>"

lemma new_file_length: "length (dirent_bytes new_file_example) = 32"
  by (rule length_dirent_bytes) (simp add: new_file_example_def entry_example_def)

lemma example_lengths: "length boot_example = 512" "length ld_table_example = 256"
  "length (put_entry 0 (dirent_bytes new_file_example) (replicate 512 0)) = 512" "length image_example = 5632"
  using new_file_length by (simp_all add: boot_example_def ld_table_example_def image_example_def put_entry_def)

lemma image_example_sectors:
  "sectors (image_disk (Some image_example)) 0 = boot_example"
  "sectors (image_disk (Some image_example)) (Suc 0) = table_bytes ld_table_example"
  "sectors (image_disk (Some image_example)) (Suc (Suc 0)) = put_entry 0 (dirent_bytes new_file_example) (replicate 512 0)"
  by (simp_all add: image_disk_def image_example_def example_lengths)

lemma loader_example_ok: "ld_ok loader_example ld_table_example" "fat_synced (as_fat loader_example)"
proof -
  show *: "ld_ok loader_example ld_table_example"
    by (simp add: ld_ok_def img_ok_def loader_example_def example_lengths ld_table_example_def ld_cluster_bytes_def)
  show "fat_synced (as_fat loader_example)"
    unfolding copy_is_synced[OF *, symmetric]
    by (simp add: copy_is_def loader_example_def image_example_sectors example_lengths)
qed

lemma loader_example_boot: "boot_ok boot_example" "parse_boot_sector boot_example = Some (ld_fs loader_example)"
  by (simp_all add: boot_ok_def boot_example_def loader_example_def parse_boot_sector_def le16_word_def
      nth_list_update Let_def)

lemma loader_example_file: "fresh_file loader_example ld_table_example new_file_example zero_entry [0]"
proof -
  have "cluster_data (as_fat loader_example) 0 = put_entry 0 (dirent_bytes new_file_example) (replicate 512 0)"
    by (simp add: cluster_data_def cluster_sector_def loader_example_def image_example_sectors)
  then have "entries (as_fat loader_example) [0] = (replicate 16 (replicate 32 0))[0 := dirent_bytes new_file_example]"
    using slots_put_entry[OF new_file_length, of 0 "replicate 512 0"] slots_zero[of 512] by simp
  then have "entries (as_fat loader_example) [0] = dirent_bytes new_file_example # replicate 15 (replicate 32 0)"
    by (simp add: eval_nat_numeral)
  moreover have "entry_key (dirent_bytes new_file_example) = entry_key (name new_file_example)"
    using entry_key_append[of "name new_file_example"]
    by (simp add: dirent_bytes_def new_file_example_def entry_example_def)
  ultimately show ?thesis
    unfolding fresh_file_def
    by (simp add: in_image_def loader_example_def example_lengths ld_table_example_def dir_chain_def new_file_example_def entry_example_def zero_entry_def dirent_of_def
        le16_word_def IS_END_OF_CLUSTER_CHAIN_def)
qed

lemma loader_example_room:
  "(600 - 1) div ld_cluster_bytes loader_example \<le> card (free_inside loader_example ld_table_example)"
proof -
  have "3 \<in> free_inside loader_example ld_table_example"
    by (simp add: free_inside_def free_clusters_def ld_table_example_def in_image_def loader_example_def example_lengths)
  then have "0 < card (free_inside loader_example ld_table_example)" by (auto simp: card_gt_0_iff)
  then show ?thesis by (simp add: ld_cluster_bytes_def loader_example_def)
qed

theorem ld_fat_write_stores_witness:
  "\<exists>s' t' cs xs old ys file'. file' = new_file_example\<lparr>file_size := of_nat (length (replicate 600 (7 :: u8)))\<rparr> \<and>
    ld_fat_write new_file_example zero_entry 0 (of_nat (length (replicate 600 (7 :: u8)))) (replicate 600 7) loader_example =
      Some (int (length (replicate 600 (7 :: u8))), file', s') \<and>
    ld_ok s' t' \<and> fat_synced (as_fat s') \<and> data_chain t' (unat (start_cluster new_file_example) # cs) \<and>
    take (length (replicate 600 (7 :: u8))) (chain_data (as_fat s') (unat (start_cluster new_file_example) # cs)) = replicate 600 7 \<and>
    dir_chain t' zero_entry [0] \<and> entries (as_fat loader_example) [0] = xs @ old # ys \<and>
    (\<forall>x \<in> set xs. entry_key x \<noteq> entry_key (name new_file_example)) \<and>
    entries (as_fat s') [0] = xs @ dirent_bytes file' # ys"
proof (rule ld_fat_write_stores[OF loader_example_ok _ loader_example_file])
  show "(length (replicate 600 (7 :: u8)) - 1) div ld_cluster_bytes loader_example \<le> card (free_inside loader_example ld_table_example)"
    using loader_example_room by simp
qed (simp_all add: ld_table_example_def)

text \<open>C4. What the loader writes the kernel reads: after a new file has been written into the image, a kernel
  that mounts the image finds the file's entry in its directory, with the size of the data, and
  reading that many bytes from the start of the file gives exactly the data that was loaded.\<close>

theorem kernel_reads_loaded_file:
  assumes "ld_ok s t" and "fat_synced (as_fat s)" and "t ! 0 \<noteq> 0" and "fresh_file s t file parent ds"
    and "boot_ok (sectors (image_disk (ata_file s)) 0)"
    and "parse_boot_sector (sectors (image_disk (ata_file s)) 0) = Some (ld_fs s)" and "0 < reserved_sectors (ld_fs s)"
    and "buffer \<noteq> []" and "length buffer < 2 ^ 31"
    and "(length buffer - 1) div ld_cluster_bytes s \<le> card (free_inside s t)"
    and "length (name (root_dir k)) = 11" and "memory_granted k (sectors (image_disk (ata_file s)) 0)"
    and "length buffer \<le> length out"
  shows "\<exists>s' k' file'. ld_fat_write file parent 0 (of_nat (length buffer)) buffer s =
      Some (int (length buffer), file', s') \<and>
    fat_init (k\<lparr>disk := image_disk (ata_file s')\<rparr>) = Some (True, k') \<and>
    fat_find_dir_entry (name file) parent k' = Some (Some file') \<and> file_size file' = of_nat (length buffer) \<and>
    fat_read file' 0 (of_nat (length buffer)) out k' = Some (int (length buffer), buffer @ drop (length buffer) out)"
proof (rule fresh_fileD[OF assms(4)])
  fix c old assume F: "start_cluster file = of_nat c" "0 < c" "c < length t" "IS_END_OF_CLUSTER_CHAIN (t ! c)"
    "attr file AND FAT_ATTR_DIRECTORY = 0" "file_size file = 0" "length (name file) = 11" "0 \<in> set (name file)"
    "in_image s c" "\<forall>d \<in> set ds. in_image s d" "dir_chain t parent ds" "c \<notin> set ds" "List.find (named (name file)) (entries (as_fat s) ds) = Some old"
  show ?thesis
    using kernel_reads_loaded[OF assms(1-3,5-7) F assms(8-13)] by (elim exE conjE, intro exI conjI) (assumption | simp)+
qed

theorem kernel_reads_loaded_file_witness:
  "\<exists>s' k' file'. ld_fat_write new_file_example zero_entry 0 (of_nat (length (replicate 600 (7 :: u8)))) (replicate 600 7)
        loader_example = Some (int (length (replicate 600 (7 :: u8))), file', s') \<and>
    fat_init (unmounted_example\<lparr>disk := image_disk (ata_file s')\<rparr>) = Some (True, k') \<and>
    fat_find_dir_entry (name new_file_example) zero_entry k' = Some (Some file') \<and>
    file_size file' = of_nat (length (replicate 600 (7 :: u8))) \<and>
    fat_read file' 0 (of_nat (length (replicate 600 (7 :: u8)))) (replicate 600 0) k' =
      Some (int (length (replicate 600 (7 :: u8))), replicate 600 7 @ drop (length (replicate 600 (7 :: u8))) (replicate 600 0))"
proof (rule kernel_reads_loaded_file[OF loader_example_ok _ loader_example_file])
  show "(length (replicate 600 (7 :: u8)) - 1) div ld_cluster_bytes loader_example \<le> card (free_inside loader_example ld_table_example)"
    using loader_example_room by simp
  have f: "ata_file loader_example = Some image_example" by (simp add: loader_example_def)
  show "boot_ok (sectors (image_disk (ata_file loader_example)) 0)"
    unfolding f image_example_sectors by (rule loader_example_boot)
  show "parse_boot_sector (sectors (image_disk (ata_file loader_example)) 0) = Some (ld_fs loader_example)"
    unfolding f image_example_sectors by (rule loader_example_boot)
  show "0 < reserved_sectors (ld_fs loader_example)" by (simp add: loader_example_def)
  show "length (name (root_dir unmounted_example)) = 11"
    by (simp add: unmounted_example_def fat_example_def zero_entry_def dirent_of_def)
  show "memory_granted unmounted_example (sectors (image_disk (ata_file loader_example)) 0)"
    unfolding f image_example_sectors
    by (simp add: memory_granted_def boot_example_def unmounted_example_def fat_example_def le16_word_def nth_list_update)
qed (simp_all add: ld_table_example_def)

end
