(* ===== verification/ImageMount.thy ===== *)
theory ImageMount
  imports ImageLoad
begin

text \<open>
  Mounting an image with the loader: with at most 128 sectors of table \<open>fat_init\<close> establishes what the
  theorems about writing start from; with more, the table does not fit the memory that was
  allocated for it.
\<close>

section \<open>Reading the table\<close>

lemma ld_read_sector:
  assumes f: "ata_file s = Some f" and "512 * (i + 1) \<le> length f" and "i < 2 ^ 32"
  shows "ld_ata_read (of_nat i) 1 buf s =
    (if length buf < 512 then None else Some (0, image_sectors_of s i @ drop 512 buf))"
proof -
  have "unat (of_nat i :: u32) = i" using assms(3) by (rule unat_of_nat_u32)
  then show ?thesis
    using ld_ata_read_view[OF f, of "of_nat i" 1 buf] assms(2) by (auto simp: disk_read_def f)
qed

lemma length_image_sector: "ata_file s = Some f \<Longrightarrow> length (image_sectors_of s i) = 512"
  by (simp add: image_disk_def min_def)

lemma ld_read_fat_sectors_eq:
  assumes f: "ata_file s = Some f" and "512 * (i + n) \<le> length tab"
    and "512 * (unat (reserved_sectors (ld_fs s)) + i + n) \<le> length f"
    and "unat (reserved_sectors (ld_fs s)) + i + n < 2 ^ 32"
  shows "ld_read_fat_sectors i n tab s = Some (True, take (512 * i) tab @
    concat (map (\<lambda>j. image_sectors_of s (unat (reserved_sectors (ld_fs s)) + j)) [i..<i + n]) @ drop (512 * (i + n)) tab)"
  using assms(2-4)
proof (induction n arbitrary: i tab)
  case (Suc n)
  let ?r = "unat (reserved_sectors (ld_fs s))"
  let ?sec = "image_sectors_of s (?r + i)"
  have l: "length ?sec = 512" using length_image_sector[OF f] .
  have rd: "ld_ata_read (of_nat (?r + i)) 1 (drop (512 * i) tab) s = Some (0, ?sec @ drop (512 * Suc i) tab)"
    using Suc.prems ld_read_sector[OF f, of "?r + i" "drop (512 * i) tab"] by simp
  let ?tab = "take (512 * i) tab @ ?sec @ drop (512 * Suc i) tab"
  have "ld_read_fat_sectors (Suc i) n ?tab s = Some (True, take (512 * Suc i) ?tab @
      concat (map (\<lambda>j. image_sectors_of s (?r + j)) [Suc i..<Suc i + n]) @ drop (512 * (Suc i + n)) ?tab)"
    using Suc.prems l by (intro Suc.IH) simp_all
  moreover have "take (512 * Suc i) ?tab = take (512 * i) tab @ ?sec"
    "drop (512 * (Suc i + n)) ?tab = drop (512 * (i + Suc n)) tab"
    using Suc.prems(1) l by (simp_all add: add.commute add.left_commute)
  moreover have "[i..<i + Suc n] = i # [Suc i..<Suc i + n]" by (simp add: upt_conv_Cons)
  ultimately show ?case using rd by (simp add: append_assoc del: upt_Suc)
qed simp

lemma ld_read_fat_sectors_overflow:
  assumes f: "ata_file s = Some f" and "length tab = 512 * k" and "i \<le> k" and "k < i + n"
    and "512 * (unat (reserved_sectors (ld_fs s)) + i + n) \<le> length f"
    and "unat (reserved_sectors (ld_fs s)) + i + n < 2 ^ 32"
  shows "ld_read_fat_sectors i n tab s = None"
  using assms(2-6)
proof (induction n arbitrary: i tab)
  case (Suc n)
  let ?r = "unat (reserved_sectors (ld_fs s))"
  have l: "length (image_sectors_of s (?r + i)) = 512" using length_image_sector[OF f] .
  note rd = ld_read_sector[OF f, of "?r + i" "drop (512 * i) tab"]
  show ?case
  proof (cases "i = k")
    case True
    then show ?thesis using rd Suc.prems by simp
  next
    case False
    then have "ld_ata_read (of_nat (?r + i)) 1 (drop (512 * i) tab) s =
        Some (0, image_sectors_of s (?r + i) @ drop (512 * Suc i) tab)" using rd Suc.prems by simp
    moreover have "ld_read_fat_sectors (Suc i) n (take (512 * i) tab @ image_sectors_of s (?r + i) @ drop (512 * Suc i) tab) s = None"
      using Suc.prems False l by (intro Suc.IH) simp_all
    ultimately show ?thesis by simp
  qed
qed simp

section \<open>Properties\<close>

text \<open>The first sector of an image, and the tables behind it.\<close>

definition image_ok :: "bytes \<Rightarrow> bool" where
  "image_ok f \<longleftrightarrow> 512 \<le> length f \<and> boot_ok (take 512 f) \<and> (\<exists>g. parse_boot_sector (take 512 f) = Some g \<and>
     512 * unat (root_dir_start g) \<le> length f)"

lemma image_okD:
  assumes "image_ok f"
  obtains g where "512 \<le> length f" "boot_ok (take 512 f)" "parse_boot_sector (take 512 f) = Some g" "bytes_per_sector g = 512"
    "0 < sectors_per_cluster g" "0 < num_fats g" "unat (root_dir_start g) < 2 ^ 27"
    "unat (root_dir_start g) = unat (reserved_sectors g) + unat (num_fats g) * unat (sectors_per_fat g)"
    "sectors_per_fat g = le16_word (drop 22 (take 512 f))" "sectors_per_cluster g = take 512 f ! 13"
    "512 * unat (root_dir_start g) \<le> length f"
proof -
  have b: "512 \<le> length f" "boot_ok (take 512 f)" using assms by (simp_all add: image_ok_def)
  show ?thesis
    by (rule parse_boot_sector_ok[OF b(2)]) (use assms that[OF b] in \<open>auto simp: image_ok_def\<close>)
qed

lemma ld_read_boot:
  assumes "ata_file s = Some f" and "512 \<le> length f"
  shows "ld_ata_read 0 1 (replicate 512 0) s = Some (0, take 512 f)" and "image_sectors_of s 0 = take 512 f"
  using assms by (simp_all add: ld_ata_read_def image_disk_def)

lemma iso_memset_zeros: "k \<le> length b \<Longrightarrow> iso_memset b 0 k = Some (replicate k 0 @ drop k b)"
  by (simp add: iso_memset_def)

text \<open>What \<open>fat_init\<close> does up to reading the table, and where the table lies in the image.\<close>

lemma ld_fat_init_eq:
  assumes f: "ata_file s = Some f" and b: "512 \<le> length f" "boot_ok (take 512 f)"
    and g: "parse_boot_sector (take 512 f) = Some g" "bytes_per_sector g = 512" and n: "unat (sectors_per_fat g) \<le> 256"
    and mem: "malloc_ok s (256 * 256)"
  defines "tab \<equiv> replicate (256 * unat (sectors_per_fat g)) 0 @
    drop (256 * unat (sectors_per_fat g)) (map (malloc_junk s) [0..<256 * 256])"
  shows "ld_fat_init s = do {
    (ok, tab) \<leftarrow> ld_read_fat_sectors 0 (unat (sectors_per_fat g)) tab (s\<lparr>ld_fs := g\<rparr>);
    let s = s\<lparr>ld_fs := g, ld_table := Some (bytes_table tab)\<rparr>;
    if \<not> ok then Some (False, s)
    else do {
      nm \<leftarrow> iso_strcpy (name (ld_root_dir s)) (c_str ''~'');
      Some (True, s\<lparr>ld_root_dir := (ld_root_dir s)\<lparr>name := nm, start_cluster := 0,
        attr := attr (ld_root_dir s) OR FAT_ATTR_DIRECTORY,
        file_size := of_nat (unat (root_dir_entries g) * 32)\<rparr>\<rparr>)
    } }" and "length tab = 512 * 128"
proof -
  have "iso_memset (map (malloc_junk s) [0..<256 * 256]) 0 (256 * unat (sectors_per_fat g)) = Some tab"
    using n by (simp add: iso_memset_def tab_def del: upt_Suc)
  moreover have "ld_ata_read 0 1 (replicate 512 0) s = Some (0, take 512 f)"
    using f b(1) by (simp add: ld_ata_read_def)
  ultimately show "ld_fat_init s = do {
    (ok, tab) \<leftarrow> ld_read_fat_sectors 0 (unat (sectors_per_fat g)) tab (s\<lparr>ld_fs := g\<rparr>);
    let s = s\<lparr>ld_fs := g, ld_table := Some (bytes_table tab)\<rparr>;
    if \<not> ok then Some (False, s)
    else do {
      nm \<leftarrow> iso_strcpy (name (ld_root_dir s)) (c_str ''~'');
      Some (True, s\<lparr>ld_root_dir := (ld_root_dir s)\<lparr>name := nm, start_cluster := 0,
        attr := attr (ld_root_dir s) OR FAT_ATTR_DIRECTORY,
        file_size := of_nat (unat (root_dir_entries g) * 32)\<rparr>\<rparr>)
    } }"
    using b(2) g mem by (simp add: ld_fat_init_def boot_ok_def Let_def del: upt_Suc)
  show "length tab = 512 * 128" using n by (simp add: tab_def)
qed

lemma image_table_area:
  assumes "0 < num_fats g"
    and "unat (root_dir_start g) = unat (reserved_sectors g) + unat (num_fats g) * unat (sectors_per_fat g)"
    and "512 * unat (root_dir_start g) \<le> length f"
  shows "512 * (unat (reserved_sectors g) + unat (sectors_per_fat g)) \<le> length f"
    and "unat (reserved_sectors g) + unat (num_fats g) * unat (sectors_per_fat g) \<le> unat (root_dir_start g)"
proof -
  have "unat (sectors_per_fat g) \<le> unat (num_fats g) * unat (sectors_per_fat g)"
    using assms(1) by (cases "unat (num_fats g)") (simp_all add: word_less_nat_alt)
  then have "unat (reserved_sectors g) + unat (sectors_per_fat g) \<le> unat (root_dir_start g)"
    unfolding assms(2) by simp
  then show "512 * (unat (reserved_sectors g) + unat (sectors_per_fat g)) \<le> length f"
    by (rule order_trans[OF mult_le_mono2 assms(3)])
qed (simp add: assms(2))

lemma ld_fat_init_mounted:
  assumes f: "ata_file s = Some f" and im: "image_ok f" and spf: "le16_word (drop 22 (take 512 f)) \<le> 128"
    and host: "\<forall>p n. n \<le> accepts s p n" "malloc_ok s (256 * 256)"
      "malloc_ok s (512 * unat (take 512 f ! 13))" and nm: "length (name (ld_root_dir s)) = 11"
  shows "\<exists>s' t. ld_fat_init s = Some (True, s') \<and> ld_ok s' t \<and> fat_synced (as_fat s') \<and> ata_file s' = Some f \<and>
    boot_ok (image_sectors_of s' 0) \<and> parse_boot_sector (image_sectors_of s' 0) = Some (ld_fs s') \<and>
    start_cluster (ld_root_dir s') = 0"
proof (rule image_okD[OF im])
  fix g assume g: "512 \<le> length f" "boot_ok (take 512 f)" "parse_boot_sector (take 512 f) = Some g"
    "bytes_per_sector g = 512" "0 < sectors_per_cluster g" "0 < num_fats g" "unat (root_dir_start g) < 2 ^ 27"
    "unat (root_dir_start g) = unat (reserved_sectors g) + unat (num_fats g) * unat (sectors_per_fat g)"
    "sectors_per_fat g = le16_word (drop 22 (take 512 f))" "sectors_per_cluster g = take 512 f ! 13"
    "512 * unat (root_dir_start g) \<le> length f"
  let ?n = "unat (sectors_per_fat g)" and ?r = "unat (reserved_sectors g)"
  have n: "?n \<le> 128" using spf g(9) by (simp add: word_le_nat_alt)
  then have n': "?n \<le> 256" by simp
  note A = image_table_area[OF g(6,8,11)]
  define tab where "tab = replicate (256 * ?n) 0 @ drop (256 * ?n) (map (malloc_junk s) [0..<256 * 256])"
  define copy where "copy = concat (map (\<lambda>j. image_sectors_of s (?r + j)) [0..<?n])"
  note I = ld_fat_init_eq[OF f g(1-4) n' host(2), folded tab_def]
  have hd: "hdd_ok (image_disk (Some f))" by simp
  have lc: "length copy = 512 * ?n" using length_concat_sectors[OF hd] by (simp add: copy_def f)
  have rd: "ld_read_fat_sectors 0 ?n tab (s\<lparr>ld_fs := g\<rparr>) = Some (True, copy @ drop (512 * ?n) tab)"
    using ld_read_fat_sectors_eq[of "s\<lparr>ld_fs := g\<rparr>" f 0 ?n tab] f n I(2) A(1)
      unat_u16_lt[of "reserved_sectors g"] by (simp add: copy_def)
  obtain m where m: "iso_strcpy (name (ld_root_dir s)) (c_str ''~'') = Some m"
    using iso_strcpy_append[of "[0x7E]" "name (ld_root_dir s)" "[]"] nm by (simp add: c_str_def bytes_of_def)
  define t where "t = bytes_table copy"
  let ?s = "s\<lparr>ld_fs := g, ld_table := Some (bytes_table (copy @ drop (512 * ?n) tab)),
    ld_root_dir := (ld_root_dir s)\<lparr>name := m, start_cluster := 0, attr := attr (ld_root_dir s) OR FAT_ATTR_DIRECTORY,
      file_size := of_nat (unat (root_dir_entries g) * 32)\<rparr>\<rparr>"
  have init: "ld_fat_init s = Some (True, ?s)" unfolding I(1) using rd m by simp
  have tb: "table_bytes t = copy" unfolding t_def using lc by (intro table_bytes_table) simp
  have "bytes_table (copy @ drop (512 * ?n) tab) = t @ bytes_table (drop (512 * ?n) tab)"
    unfolding tb[symmetric] by (rule bytes_table_bytes)
  then have ok: "ld_ok ?s t"
    using f g n A host lc by (simp add: ld_ok_def img_ok_def t_def length_bytes_table ld_cluster_bytes_def)
  have "length t = 256 * ?n" using lc by (simp add: t_def length_bytes_table)
  then have "copy_is ?s t"
    using nth_concat_sectors[OF hd] by (simp add: copy_is_def tb f copy_def)
  then have "fat_synced (as_fat ?s)" using copy_is_synced[OF ok] by simp
  moreover have "image_sectors_of ?s 0 = take 512 f" using f g(1) by (simp add: image_disk_def)
  ultimately show ?thesis using init ok g(2,3) f by (intro exI[of _ ?s] exI[of _ t]) simp
qed

text \<open>C26. The loader mounts an image whose boot sector is valid (signature, 512-byte sectors, non-zero sectors per cluster
  and copies), which contains all the copies of the table, and whose table has at most 128 sectors: when the host grants the
  64 KB for the table and the memory for a cluster and takes whole writes, \<open>fat_init\<close> succeeds, the loader is well formed
  afterwards, with the table of the first copy in memory, the geometry is that of the boot
  sector, the root directory starts at cluster 0, and the image is as before.\<close>

theorem ld_fat_init_mounts:
  assumes "ata_file s = Some f" and "image_ok f" and "le16_word (drop 22 (take 512 f)) \<le> 128"
    and "\<forall>p n. n \<le> accepts s p n" and "malloc_ok s (256 * 256)" and "malloc_ok s (512 * unat (take 512 f ! 13))"
    and "length (name (ld_root_dir s)) = 11"
  shows "\<exists>s' t. ld_fat_init s = Some (True, s') \<and> ld_ok s' t \<and> fat_synced (as_fat s') \<and> ata_file s' = Some f \<and>
    boot_ok (sectors (image_disk (ata_file s')) 0) \<and>
    parse_boot_sector (sectors (image_disk (ata_file s')) 0) = Some (ld_fs s') \<and> start_cluster (ld_root_dir s') = 0"
  using assms by (rule ld_fat_init_mounted)

lemma image_example_image: "image_ok image_example" "le16_word (drop 22 (take 512 image_example)) \<le> 128"
  "malloc_ok loader_example (512 * unat (take 512 image_example ! 13))"
proof -
  have t: "take 512 image_example = boot_example" by (simp add: image_example_def example_lengths)
  show "malloc_ok loader_example (512 * unat (take 512 image_example ! 13))"
    unfolding t by (simp add: loader_example_def boot_example_def nth_list_update)
  show "image_ok image_example"
    unfolding image_ok_def t using loader_example_boot
    by (simp add: example_lengths) (simp add: loader_example_def)
  show "le16_word (drop 22 (take 512 image_example)) \<le> 128"
    unfolding t by (simp add: boot_example_def le16_word_def nth_list_update)
qed

theorem ld_fat_init_mounts_witness:
  "\<exists>s' t. ld_fat_init loader_example = Some (True, s') \<and> ld_ok s' t \<and> fat_synced (as_fat s') \<and>
    ata_file s' = Some image_example \<and> boot_ok (sectors (image_disk (ata_file s')) 0) \<and>
    parse_boot_sector (sectors (image_disk (ata_file s')) 0) = Some (ld_fs s') \<and> start_cluster (ld_root_dir s') = 0"
  by (rule ld_fat_init_mounts[OF _ image_example_image(1,2) _ _ image_example_image(3)])
    (simp_all add: loader_example_def zero_entry_def dirent_of_def)

text \<open>C40. The memory for the table is 64 KB whatever the boot sector says: on an image whose table has more than
  128 and at most 256 sectors, which is otherwise valid and contains its tables, \<open>fat_init\<close> writes behind that memory while it
  reads the table.\<close>

theorem ld_fat_init_overflows:
  assumes "ata_file s = Some f" and "image_ok f"
    and "128 < le16_word (drop 22 (take 512 f))" and "le16_word (drop 22 (take 512 f)) \<le> 256" and "malloc_ok s (256 * 256)"
  shows "ld_fat_init s = None"
proof (rule image_okD[OF assms(2)])
  fix g assume g: "512 \<le> length f" "boot_ok (take 512 f)" "parse_boot_sector (take 512 f) = Some g"
    "bytes_per_sector g = 512" "0 < sectors_per_cluster g" "0 < num_fats g" "unat (root_dir_start g) < 2 ^ 27"
    "unat (root_dir_start g) = unat (reserved_sectors g) + unat (num_fats g) * unat (sectors_per_fat g)"
    "sectors_per_fat g = le16_word (drop 22 (take 512 f))" "sectors_per_cluster g = take 512 f ! 13"
    "512 * unat (root_dir_start g) \<le> length f"
  let ?n = "unat (sectors_per_fat g)"
  have n: "128 < ?n" "?n \<le> 256" using assms(3,4) g(9) by (simp_all add: word_le_nat_alt word_less_nat_alt)
  note A = image_table_area[OF g(6,8,11)]
  note I = ld_fat_init_eq[OF assms(1) g(1-4) n(2) assms(5)]
  have "ld_read_fat_sectors 0 ?n (replicate (256 * ?n) 0 @ drop (256 * ?n) (map (malloc_junk s) [0..<256 * 256]))
      (s\<lparr>ld_fs := g\<rparr>) = None"
    using assms(1) n(1) A(1) unat_u16_lt[of "reserved_sectors g"] unat_u16_lt[of "sectors_per_fat g"]
    by (intro ld_read_fat_sectors_overflow[where k = 128 and f = f] I(2)) simp_all
  then show ?thesis unfolding I(1) by simp
qed

definition big_image_example :: bytes where
  "big_image_example = boot_example[22 := 129] @ replicate (512 * 200) 0"

theorem ld_fat_init_overflows_witness: "ld_fat_init (loader_example\<lparr>ata_file := Some big_image_example\<rparr>) = None"
proof (rule ld_fat_init_overflows)
  have t: "take 512 big_image_example = boot_example[22 := 129]" by (simp add: big_image_example_def boot_example_def)
  show "image_ok big_image_example"
    unfolding image_ok_def t
    by (simp add: boot_ok_def boot_example_def big_image_example_def parse_boot_sector_def le16_word_def nth_list_update Let_def)
  show "128 < le16_word (drop 22 (take 512 big_image_example))" "le16_word (drop 22 (take 512 big_image_example)) \<le> 256"
    unfolding t by (simp_all add: boot_example_def le16_word_def nth_list_update)
qed (simp_all add: loader_example_def)

end
