(* ===== verification/Shell.thy ===== *)
theory Shell
  imports StdC
begin

text \<open>
  The shell \<open>terminal/main.c\<close>, a user program. It is linked with the C library of the tool chain, which
  is not part of the sources: its string routines follow ISO C (\<open>StdC\<close>), and the calls that reach the
  system are the argument \<open>lib\<close> of the definitions, acting on a world of any type.

  A pointer of \<open>args\<close> is an offset into \<open>arg_buffer\<close>, \<open>None\<close> for NULL. A command returns its status, the array
  \<open>args\<close>, which \<open>cmd_echo\<close> changes, and the world.
\<close>

section \<open>The calls of the C library\<close>

text \<open>
  \<open>lib_write\<close> writes bytes to a descriptor, \<open>lib_print\<close> puts the rendered text of \<open>printf\<close> on the standard output,
  \<open>lib_puts\<close> a line. \<open>lib_read\<close> gives the value returned and the bytes that were stored, \<open>lib_getcwd\<close> whether the
  result is not NULL and what the buffer holds; a handle that is \<open>None\<close> is NULL. \<open>lib_call\<close> is interrupt 0x80
  without arguments.
\<close>

record 'w clib =
  lib_write :: "nat \<Rightarrow> bytes \<Rightarrow> 'w \<Rightarrow> 'w"
  lib_print :: "bytes \<Rightarrow> 'w \<Rightarrow> 'w"
  lib_puts :: "bytes \<Rightarrow> 'w \<Rightarrow> 'w"
  lib_read :: "nat \<Rightarrow> nat \<Rightarrow> 'w \<Rightarrow> int \<times> bytes \<times> 'w"
  lib_getcwd :: "bytes \<Rightarrow> 'w \<Rightarrow> bool \<times> bytes \<times> 'w"
  lib_opendir :: "bytes \<Rightarrow> 'w \<Rightarrow> nat option \<times> 'w"
  lib_readdir :: "nat \<Rightarrow> 'w \<Rightarrow> bytes option \<times> 'w"
  lib_closedir :: "nat \<Rightarrow> 'w \<Rightarrow> 'w"
  lib_chdir :: "bytes \<Rightarrow> 'w \<Rightarrow> int \<times> 'w"
  lib_fopen :: "bytes \<Rightarrow> string \<Rightarrow> 'w \<Rightarrow> nat option \<times> 'w"
  lib_fread :: "nat \<Rightarrow> nat \<Rightarrow> 'w \<Rightarrow> bytes \<times> 'w"
  lib_fwrite :: "nat \<Rightarrow> bytes \<Rightarrow> 'w \<Rightarrow> 'w"
  lib_fclose :: "nat \<Rightarrow> 'w \<Rightarrow> 'w"
  lib_mkdir :: "bytes \<Rightarrow> 'w \<Rightarrow> int \<times> 'w"
  lib_unlink :: "bytes \<Rightarrow> 'w \<Rightarrow> int \<times> 'w"
  lib_rmdir :: "bytes \<Rightarrow> 'w \<Rightarrow> int \<times> 'w"
  lib_execve :: "bytes \<Rightarrow> bytes list \<Rightarrow> 'w \<Rightarrow> int \<times> 'w"
  lib_call :: "nat \<Rightarrow> 'w \<Rightarrow> 'w"

definition MAX_INPUT_LENGTH :: nat where "MAX_INPUT_LENGTH = 256"
definition MAX_ARGS :: nat where "MAX_ARGS = 64"
definition MAX_PATH :: nat where "MAX_PATH = 256"
definition MAX_BUFFER_SIZE :: nat where "MAX_BUFFER_SIZE = 4096"

definition supported_commands :: "bytes list" where
  "supported_commands = [c_str ''help'', c_str ''ls'', c_str ''cd'', c_str ''cat'', c_str ''echo'', c_str ''mkdir'',
     c_str ''rm'', c_str ''rmdir'', c_str ''run'', c_str ''exit'']"

definition num_cmds :: nat where
  "num_cmds = length supported_commands"

section \<open>Parsing a line\<close>

function skip_space :: "bytes \<Rightarrow> nat \<Rightarrow> nat \<Rightarrow> nat option" where
  "skip_space inp n i =
     (if i < n then do {
        c \<leftarrow> arr_get inp i;
        if iso_isspace c then skip_space inp n (Suc i) else Some i
      } else Some i)"
  by auto
termination by (relation "measure (\<lambda>(inp, n, i). n - i)") auto

function copy_word :: "bytes \<Rightarrow> nat \<Rightarrow> nat \<Rightarrow> bytes \<Rightarrow> nat \<Rightarrow> (nat \<times> bytes \<times> nat) option" where
  "copy_word inp n i arg_buffer buf_pos =
     (if i < n then do {
        c \<leftarrow> arr_get inp i;
        if iso_isspace c then Some (i, arg_buffer, buf_pos)
        else do {
          arg_buffer \<leftarrow> arr_set arg_buffer buf_pos c;
          copy_word inp n (Suc i) arg_buffer (Suc buf_pos)
        }
      } else Some (i, arg_buffer, buf_pos))"
  by auto
termination by (relation "measure (\<lambda>(inp, n, i, _). n - i)") auto

function parse_loop ::
    "bytes \<Rightarrow> nat \<Rightarrow> nat \<Rightarrow> bytes \<Rightarrow> nat \<Rightarrow> nat option list \<Rightarrow> nat \<Rightarrow> (nat \<times> bytes \<times> nat option list) option" where
  "parse_loop inp n i arg_buffer buf_pos args arg_count =
     (if i < n \<and> arg_count < MAX_ARGS - 1 then do {
        args \<leftarrow> arr_set args arg_count (Some buf_pos);
        (i, arg_buffer, buf_pos) \<leftarrow> copy_word inp n i arg_buffer buf_pos;
        arg_buffer \<leftarrow> arr_set arg_buffer buf_pos 0;
        i \<leftarrow> skip_space inp n i;
        parse_loop inp n i arg_buffer (Suc buf_pos) args (Suc arg_count)
      } else do {
        args \<leftarrow> arr_set args arg_count None;
        Some (arg_count, arg_buffer, args)
      })"
  by auto
termination by (relation "measure (\<lambda>(_, _, _, _, _, _, arg_count). MAX_ARGS - 1 - arg_count)") auto

declare skip_space.simps [simp del] copy_word.simps [simp del] parse_loop.simps [simp del]

definition parse_input ::
    "bytes \<Rightarrow> bytes \<Rightarrow> nat option list \<Rightarrow> (nat \<times> bytes \<times> nat option list) option" where
  "parse_input inp arg_buffer args = do {
     n \<leftarrow> iso_strlen inp;
     i \<leftarrow> skip_space inp n 0;
     parse_loop inp n i arg_buffer 0 args 0
   }"

section \<open>Commands\<close>

definition arg :: "bytes \<Rightarrow> nat option list \<Rightarrow> nat \<Rightarrow> bytes option option" where
  "arg arg_buffer args i = do { p \<leftarrow> arr_get args i; Some (map_option (\<lambda>p. drop p arg_buffer) p) }"

text \<open>The shape of \<open>cmd_mkdir\<close>, \<open>cmd_rm\<close> and \<open>cmd_rmdir\<close>: one call on the argument, and a line when it fails.\<close>

definition one_arg_command ::
    "string \<Rightarrow> string \<Rightarrow> (bytes \<Rightarrow> 'w \<Rightarrow> int \<times> 'w) \<Rightarrow> 'w clib \<Rightarrow> bytes \<Rightarrow> nat option list \<Rightarrow> 'w \<Rightarrow>
     (int \<times> nat option list \<times> 'w) option" where
  "one_arg_command err_msg nm call lib arg_buffer args w = do {
     a \<leftarrow> arg arg_buffer args 1;
     (case a of
        None \<Rightarrow> Some (1, args, lib_write lib 2 (bytes_of err_msg) w)
      | Some p \<Rightarrow> do {
          s \<leftarrow> iso_string p;
          let (r, w) = call s w;
          Some (1, args, if r \<noteq> 0 then lib_puts lib (bytes_of nm) w else w)
        })
   }"

definition cmd_mkdir :: "'w clib \<Rightarrow> bytes \<Rightarrow> nat option list \<Rightarrow> 'w \<Rightarrow> (int \<times> nat option list \<times> 'w) option" where
  "cmd_mkdir lib = one_arg_command ''mkdir: mkdir <name>\<newline>'' ''mkdir'' (lib_mkdir lib) lib"

definition cmd_rm :: "'w clib \<Rightarrow> bytes \<Rightarrow> nat option list \<Rightarrow> 'w \<Rightarrow> (int \<times> nat option list \<times> 'w) option" where
  "cmd_rm lib = one_arg_command ''rm: rm <name>\<newline>'' ''rm'' (lib_unlink lib) lib"

definition cmd_rmdir :: "'w clib \<Rightarrow> bytes \<Rightarrow> nat option list \<Rightarrow> 'w \<Rightarrow> (int \<times> nat option list \<times> 'w) option" where
  "cmd_rmdir lib = one_arg_command ''rmdir: rmdir <name>\<newline>'' ''rmdir'' (lib_rmdir lib) lib"

definition cmd_help :: "'w clib \<Rightarrow> bytes \<Rightarrow> nat option list \<Rightarrow> 'w \<Rightarrow> (int \<times> nat option list \<times> 'w) option" where
  "cmd_help lib arg_buffer args w =
     (let w = lib_write lib 1 (bytes_of ''Welcome to DBOLOS hacker terminal!!\<newline>We support a lot of commands:\<newline>'') w;
          w = fold (\<lambda>c. lib_print lib (bytes_of ''-   '' @ butlast c @ bytes_of ''\<newline>'')) supported_commands w
      in Some (1, args, lib_puts lib (bytes_of ''Enjoy!'') w))"

partial_function (option) ls_loop :: "'w clib \<Rightarrow> nat \<Rightarrow> 'w \<Rightarrow> 'w option" where
  "ls_loop lib dir w =
     (case lib_readdir lib dir w of
        (None, w) \<Rightarrow> Some w
      | (Some d_name, w) \<Rightarrow> ls_loop lib dir (lib_puts lib d_name w))"

definition cmd_ls :: "'w clib \<Rightarrow> bytes \<Rightarrow> nat option list \<Rightarrow> 'w \<Rightarrow> (int \<times> nat option list \<times> 'w) option" where
  "cmd_ls lib arg_buffer args w = do {
     a \<leftarrow> arg arg_buffer args 1;
     path \<leftarrow> iso_string (case a of Some p \<Rightarrow> p | None \<Rightarrow> c_str ''.'');
     (case lib_opendir lib path w of
        (None, w) \<Rightarrow> Some (1, args, lib_puts lib (bytes_of ''ls'') w)
      | (Some dir, w) \<Rightarrow> do {
          w \<leftarrow> ls_loop lib dir w;
          Some (1, args, lib_closedir lib dir w)
        })
   }"

definition cmd_cd :: "'w clib \<Rightarrow> bytes \<Rightarrow> nat option list \<Rightarrow> 'w \<Rightarrow> (int \<times> nat option list \<times> 'w) option" where
  "cmd_cd lib arg_buffer args w = do {
     a \<leftarrow> arg arg_buffer args 1;
     path \<leftarrow> iso_string (case a of Some p \<Rightarrow> p | None \<Rightarrow> c_str ''/'');
     let (r, w) = lib_chdir lib path w;
     Some (1, args, if r \<noteq> 0 then lib_puts lib (bytes_of ''chdir'') w else w)
   }"

text \<open>\<open>cat\<close> writes what it reads byte by byte.\<close>

partial_function (option) cat_loop :: "'w clib \<Rightarrow> nat \<Rightarrow> 'w \<Rightarrow> 'w option" where
  "cat_loop lib fp w =
     (let (chunk, w) = lib_fread lib fp MAX_BUFFER_SIZE w
      in if MAX_BUFFER_SIZE < length chunk then None
         else if chunk = [] then Some w
         else cat_loop lib fp (fold (\<lambda>c. lib_write lib 1 [c]) chunk w))"

definition cmd_cat :: "'w clib \<Rightarrow> bytes \<Rightarrow> nat option list \<Rightarrow> 'w \<Rightarrow> (int \<times> nat option list \<times> 'w) option" where
  "cmd_cat lib arg_buffer args w = do {
     a \<leftarrow> arg arg_buffer args 1;
     (case a of
        None \<Rightarrow> Some (1, args, lib_write lib 2 (bytes_of ''cat: missing file\<newline>'') w)
      | Some p \<Rightarrow> do {
          s \<leftarrow> iso_string p;
          (case lib_fopen lib s ''rb'' w of
             (None, w) \<Rightarrow> Some (1, args, lib_puts lib (bytes_of ''cat'') w)
           | (Some fp, w) \<Rightarrow> do {
               w \<leftarrow> cat_loop lib fp w;
               Some (1, args, lib_fclose lib fp (lib_write lib 1 (bytes_of ''\<newline>'') w))
             })
        })
   }"

text \<open>
  \<open>echo\<close>: the first pass looks for a redirection. It answers \<open>None\<close> when the command returns early, and else the
  file, \<open>Some None\<close> for the standard output; the redirection is cut off the arguments.
\<close>

function echo_scan :: "'w clib \<Rightarrow> bytes \<Rightarrow> nat option list \<Rightarrow> nat \<Rightarrow> 'w \<Rightarrow> (nat option option \<times> nat option list \<times> 'w) option" where
  "echo_scan lib arg_buffer args i w = do {
     a \<leftarrow> arg arg_buffer args i;
     (case a of
        None \<Rightarrow> Some (Some None, args, w)
      | Some p \<Rightarrow> do {
          trunc \<leftarrow> iso_strcmp p (c_str ''>'');
          app \<leftarrow> (if trunc = 0 then Some 0 else iso_strcmp p (c_str ''>>''));
          if app = 0 then do {
            b \<leftarrow> arg arg_buffer args (i + 1);
            (case b of
               None \<Rightarrow> Some (None, args, lib_write lib 2 (bytes_of ''echo: syntax error, expected file name\<newline>'') w)
             | Some q \<Rightarrow> do {
                 s \<leftarrow> iso_string q;
                 (case lib_fopen lib s (if trunc = 0 then ''w+'' else ''a'') w of
                    (None, w) \<Rightarrow> Some (None, args, lib_puts lib (bytes_of ''echo'') w)
                  | (Some fd, w) \<Rightarrow> do { args \<leftarrow> arr_set args i None; Some (Some (Some fd), args, w) })
               })
          } else echo_scan lib arg_buffer args (Suc i) w
        })
   }"
  by auto
termination
  by (relation "measure (\<lambda>(_, _, args, i, _). length args - i)")
    (auto simp: arg_def arr_get_def split: if_splits)

function echo_join :: "bytes \<Rightarrow> nat option list \<Rightarrow> nat \<Rightarrow> bytes \<Rightarrow> bytes option" where
  "echo_join arg_buffer args i buffer = do {
     a \<leftarrow> arg arg_buffer args i;
     (case a of
        None \<Rightarrow> Some buffer
      | Some p \<Rightarrow> do {
          buffer \<leftarrow> (if 1 < i then iso_strcat buffer (c_str '' '') else Some buffer);
          buffer \<leftarrow> iso_strcat buffer p;
          echo_join arg_buffer args (Suc i) buffer
        })
   }"
  by auto
termination
  by (relation "measure (\<lambda>(_, args, i, _). length args - i)")
    (auto simp: arg_def arr_get_def split: if_splits)

declare echo_scan.simps [simp del] echo_join.simps [simp del]

definition cmd_echo :: "'w clib \<Rightarrow> bytes \<Rightarrow> nat option list \<Rightarrow> 'w \<Rightarrow> (int \<times> nat option list \<times> 'w) option" where
  "cmd_echo lib arg_buffer args w = do {
     a \<leftarrow> arg arg_buffer args 1;
     if a = None then Some (1, args, lib_write lib 1 (bytes_of ''\<newline>'') w)
     else do {
       (fd, args, w) \<leftarrow> echo_scan lib arg_buffer args 1 w;
       (case fd of
          None \<Rightarrow> Some (1, args, w)
        | Some fd \<Rightarrow> do {
            buffer \<leftarrow> echo_join arg_buffer args 1 (replicate MAX_INPUT_LENGTH 0);
            s \<leftarrow> iso_string buffer;
            Some (1, args, case fd of
              None \<Rightarrow> lib_write lib 1 (bytes_of ''\<newline>'') (lib_write lib 1 s w)
            | Some fd \<Rightarrow> lib_fclose lib fd (lib_fwrite lib fd s w))
          })
     }
   }"

text \<open>\<open>run\<close>: the program gets its own name as its only argument. The status is printed in decimal.\<close>

fun digits :: "nat \<Rightarrow> bytes" where
  "digits n = (if n < 10 then [of_nat (48 + n)] else digits (n div 10) @ [of_nat (48 + n mod 10)])"

declare digits.simps [simp del]

definition decimal :: "int \<Rightarrow> bytes" where
  "decimal i = (if i < 0 then 0x2D # digits (nat (- i)) else digits (nat i))"

definition cmd_run :: "'w clib \<Rightarrow> bytes \<Rightarrow> nat option list \<Rightarrow> 'w \<Rightarrow> (int \<times> nat option list \<times> 'w) option" where
  "cmd_run lib arg_buffer args w = do {
     a \<leftarrow> arg arg_buffer args 1;
     (case a of
        None \<Rightarrow> Some (1, args, lib_write lib 2 (bytes_of ''run: run <name>\<newline>'') w)
      | Some p \<Rightarrow> do {
          s \<leftarrow> iso_string p;
          let w = lib_puts lib [] w;
          let (ret, w) = lib_execve lib s [s] w;
          Some (1, args, if ret \<noteq> 0 then lib_print lib (bytes_of ''run failed '' @ decimal ret @ bytes_of ''\<newline>'') w else w)
        })
   }"

definition cmd_exit :: "'w clib \<Rightarrow> bytes \<Rightarrow> nat option list \<Rightarrow> 'w \<Rightarrow> (int \<times> nat option list \<times> 'w) option" where
  "cmd_exit lib arg_buffer args w =
     (let w = lib_puts lib (bytes_of ''You are closing the DbolOS shell!!!'') w;
          w = lib_puts lib (bytes_of ''Good bye :)\<newline>'') w
      in Some (0, args, lib_call lib 170 w))"

section \<open>The main loop\<close>

definition command_funcs :: "'w clib \<Rightarrow> (bytes \<Rightarrow> nat option list \<Rightarrow> 'w \<Rightarrow> (int \<times> nat option list \<times> 'w) option) list" where
  "command_funcs lib = [cmd_help lib, cmd_ls lib, cmd_cd lib, cmd_cat lib, cmd_echo lib, cmd_mkdir lib, cmd_rm lib,
     cmd_rmdir lib, cmd_run lib, cmd_exit lib]"

fun command_loop :: "bytes \<Rightarrow> nat \<Rightarrow> nat \<Rightarrow> nat \<Rightarrow> nat option option" where
  "command_loop p cmd_len i 0 = Some None"
| "command_loop p cmd_len i (Suc n) = do {
     r \<leftarrow> iso_strncmp (supported_commands ! i) p cmd_len;
     if r = 0 then Some (Some i) else command_loop p cmd_len (Suc i) n
   }"

definition execute_command :: "'w clib \<Rightarrow> bytes \<Rightarrow> nat option list \<Rightarrow> 'w \<Rightarrow> (int \<times> nat option list \<times> 'w) option" where
  "execute_command lib arg_buffer args w = do {
     a \<leftarrow> arg arg_buffer args 0;
     (case a of
        None \<Rightarrow> Some (1, args, w)
      | Some p \<Rightarrow> do {
          cmd_len \<leftarrow> iso_strlen p;
          k \<leftarrow> command_loop p cmd_len 0 num_cmds;
          (case k of
             Some i \<Rightarrow> (command_funcs lib ! i) arg_buffer args w
           | None \<Rightarrow> do {
               s \<leftarrow> iso_string p;
               Some (1, args, lib_print lib (bytes_of ''Unknown command: '' @ s @ bytes_of ''\<newline>'') w)
             })
        })
   }"

definition print_cwd :: "'w clib \<Rightarrow> 'w \<Rightarrow> 'w option" where
  "print_cwd lib w = do {
     let (found, cwd, w) = lib_getcwd lib (replicate MAX_PATH 0) w;
     cwd \<leftarrow> (if found then iso_strcpy cwd (c_str ''Unknown path'') else Some cwd);
     s \<leftarrow> iso_string cwd;
     Some (lib_print lib (bytes_of ''DBOLOS '' @ s @ bytes_of ''>'') w)
   }"

text \<open>One turn of the loop of \<open>start_shell\<close>. The length that \<open>read\<close> returns is taken as unsigned.\<close>

definition shell_round ::
    "'w clib \<Rightarrow> int \<Rightarrow> bytes \<Rightarrow> bytes \<Rightarrow> nat option list \<Rightarrow> 'w \<Rightarrow> (int \<times> bytes \<times> bytes \<times> nat option list \<times> 'w) option" where
  "shell_round lib status inp arg_buffer args w = do {
     w \<leftarrow> print_cwd lib w;
     let (r, data, w) = lib_read lib 0 MAX_INPUT_LENGTH w;
     inp \<leftarrow> iso_memcpy inp data (length data);
     let len = (word_of_int r :: u32);
     if 0 < len then do {
       inp \<leftarrow> arr_set inp (unat (len - 1)) 0;
       (n, arg_buffer, args) \<leftarrow> parse_input inp arg_buffer args;
       if n = 0 then Some (status, inp, arg_buffer, args, w)
       else do {
         (status, args, w) \<leftarrow> execute_command lib arg_buffer args w;
         Some (status, inp, arg_buffer, args, w)
       }
     } else Some (status, inp, arg_buffer, args, lib_puts lib (bytes_of ''read error'') w)
   }"

partial_function (option) shell_loop ::
    "'w clib \<Rightarrow> int \<Rightarrow> bytes \<Rightarrow> bytes \<Rightarrow> nat option list \<Rightarrow> 'w \<Rightarrow> 'w option" where
  "shell_loop lib status inp arg_buffer args w =
     (if status = 0 then Some w
      else do {
        (status, inp, arg_buffer, args, w) \<leftarrow> shell_round lib status inp arg_buffer args w;
        shell_loop lib status inp arg_buffer args w
      })"

definition start_shell :: "'w clib \<Rightarrow> 'w \<Rightarrow> (int \<times> 'w) option" where
  "start_shell lib w = do {
     let w = lib_puts lib (bytes_of ''Welcome to DBolOShell!'') (lib_call lib 169 w);
     w \<leftarrow> shell_loop lib 1 (replicate MAX_INPUT_LENGTH 0) (replicate MAX_INPUT_LENGTH 0) (replicate MAX_ARGS None) w;
     Some (0, w)
   }"

definition shell_main :: "'w clib \<Rightarrow> 'w \<Rightarrow> (int \<times> 'w) option" where
  "shell_main lib w = start_shell lib w"

end
