(* ===== verification/ShellCorrect.thy ===== *)
theory ShellCorrect
  imports Shell
begin

text \<open>
  What the shell does with a line: parsing splits it at white space into the words, which the array
  of arguments then holds, without ever leaving its buffers; the first word selects the command; and
  \<open>echo\<close> writes its words joined by single blanks.
\<close>

section \<open>Words\<close>

abbreviation nonspace :: "u8 \<Rightarrow> bool" where
  "nonspace c \<equiv> \<not> iso_isspace c"

function words :: "bytes \<Rightarrow> bytes list" where
  "words s = (let t = dropWhile iso_isspace s
     in if t = [] then [] else takeWhile nonspace t # words (dropWhile nonspace t))"
  by auto
termination
proof (relation "measure length")
  fix s t :: bytes assume t: "t = dropWhile iso_isspace s" "t \<noteq> []"
  then obtain c r where c: "t = c # r" "nonspace c" by (metis dropWhile_eq_Cons_conv neq_Nil_conv)
  then have "length (dropWhile nonspace t) < length t" by (simp add: length_dropWhile_le le_imp_less_Suc)
  also have "\<dots> \<le> length s" unfolding t(1) by (rule length_dropWhile_le)
  finally show "(dropWhile nonspace t, s) \<in> measure length" by simp
qed simp

declare words.simps [simp del]

lemma words_skip: "words (dropWhile iso_isspace s) = words s"
proof -
  have "dropWhile iso_isspace (dropWhile iso_isspace s) = dropWhile iso_isspace s" by (rule dropWhile_idem)
  then show ?thesis by (subst (1 2) words.simps) simp
qed

lemma words_Nil [simp]: "words [] = []"
  by (simp add: words.simps)

lemma words_Cons: "nonspace c \<Longrightarrow> words (c # s) = takeWhile nonspace (c # s) # words (dropWhile nonspace s)"
  by (subst words.simps) (simp add: Let_def)

lemma nonspace_head:
  assumes "dropWhile iso_isspace s \<noteq> []"
  obtains c r where "dropWhile iso_isspace s = c # r" and "nonspace c"
  using assms by (metis dropWhile_eq_Cons_conv neq_Nil_conv)

lemma word_bytes: "w \<in> set (words s) \<Longrightarrow> set w \<subseteq> set s \<and> w \<noteq> []"
proof (induction s rule: words.induct)
  case (1 s)
  let ?t = "dropWhile iso_isspace s"
  have sub: "c \<in> set s" if "c \<in> set ?t" for c using that by (rule set_dropWhileD)
  have eq: "words s = (if ?t = [] then [] else takeWhile nonspace ?t # words (dropWhile nonspace ?t))"
    by (subst words.simps) (simp only: Let_def)
  have t: "?t \<noteq> []"
  proof
    assume "?t = []"
    then show False using "1.prems" unfolding eq by (simp only: if_True) simp
  qed
  obtain c r where c: "?t = c # r" "nonspace c" using t by (rule nonspace_head)
  have "w = takeWhile nonspace ?t \<or> w \<in> set (words (dropWhile nonspace ?t))"
    using "1.prems" unfolding eq if_not_P[OF t] by simp
  then show ?case
  proof
    assume w: "w = takeWhile nonspace ?t"
    have "w \<noteq> []" using c by (simp add: w)
    moreover have "x \<in> set s" if "x \<in> set w" for x
      using that unfolding w by (intro sub) (drule set_takeWhileD, simp)
    ultimately show ?thesis by blast
  next
    assume "w \<in> set (words (dropWhile nonspace ?t))"
    then have "set w \<subseteq> set (dropWhile nonspace ?t) \<and> w \<noteq> []" by (rule "1.IH"[OF refl t])
    moreover have "x \<in> set s" if "x \<in> set (dropWhile nonspace ?t)" for x
      using that by (intro sub) (rule set_dropWhileD)
    ultimately show ?thesis by blast
  qed
qed

section \<open>The loops of the parser\<close>

lemma skip_space_eq:
  assumes "length s \<le> length inp" and "take (length s) inp = s" and "i \<le> length s"
  shows "skip_space inp (length s) i = Some (length s - length (dropWhile iso_isspace (drop i s)))"
  using assms(3)
proof (induction "length s - i" arbitrary: i)
  case 0
  then show ?case by (subst skip_space.simps) simp
next
  case (Suc k)
  then have i: "i < length s" by simp
  have g: "arr_get inp i = Some (s ! i)" using i assms(1,2) by (metis arr_get_Some less_le_trans nth_take)
  have d: "drop i s = s ! i # drop (Suc i) s" using i by (simp add: Cons_nth_drop_Suc)
  show ?case
  proof (cases "iso_isspace (s ! i)")
    case True
    then show ?thesis using i g Suc d by (subst skip_space.simps) simp
  next
    case False
    then have "dropWhile iso_isspace (drop i s) = drop i s" by (simp add: d)
    then show ?thesis using i g False by (subst skip_space.simps) simp
  qed
qed

lemma copy_word_eq:
  assumes "length s \<le> length inp" and "take (length s) inp = s" and "i \<le> length s"
    and "pos + length (takeWhile nonspace (drop i s)) \<le> length buf"
  shows "copy_word inp (length s) i buf pos = Some (i + length (takeWhile nonspace (drop i s)),
    take pos buf @ takeWhile nonspace (drop i s) @ drop (pos + length (takeWhile nonspace (drop i s))) buf,
    pos + length (takeWhile nonspace (drop i s)))"
  using assms(3,4)
proof (induction "length s - i" arbitrary: i buf pos)
  case 0
  then show ?case by (subst copy_word.simps) simp
next
  case (Suc k)
  then have i: "i < length s" by simp
  have g: "arr_get inp i = Some (s ! i)" using i assms(1,2) by (metis arr_get_Some less_le_trans nth_take)
  have d: "drop i s = s ! i # drop (Suc i) s" using i by (simp add: Cons_nth_drop_Suc)
  show ?case
  proof (cases "iso_isspace (s ! i)")
    case True
    then show ?thesis using i g by (subst copy_word.simps) (simp add: d)
  next
    case False
    let ?w = "takeWhile nonspace (drop (Suc i) s)"
    have w: "takeWhile nonspace (drop i s) = s ! i # ?w" using False by (simp add: d)
    have p: "pos < length buf" using Suc.prems(2) w by simp
    have "copy_word inp (length s) (Suc i) (buf[pos := s ! i]) (Suc pos) = Some (Suc i + length ?w,
        take (Suc pos) (buf[pos := s ! i]) @ ?w @ drop (Suc pos + length ?w) (buf[pos := s ! i]), Suc pos + length ?w)"
      using Suc w by simp
    moreover have "take (Suc pos) (buf[pos := s ! i]) = take pos buf @ [s ! i]"
      using p by (simp add: take_Suc_conv_app_nth)
    ultimately show ?thesis
      unfolding w using i g False p by (subst copy_word.simps) (simp add: arr_set_def)
  qed
qed

text \<open>A string that was put into the buffer stays readable when the buffer changes behind it only.\<close>

lemma string_kept:
  assumes "take (p + Suc (length w)) b = take p a @ w @ [0]" and "length (take p a) = p" and "0 \<notin> set w"
  shows "iso_string (drop p b) = Some w"
proof -
  have "b = (take p a @ w @ [0]) @ drop (p + Suc (length w)) b"
    by (simp only: assms(1)[symmetric] append_take_drop_id)
  then have "drop p b = drop p ((take p a @ w @ [0]) @ drop (p + Suc (length w)) b)" by (rule arg_cong)
  also have "\<dots> = w @ 0 # drop (p + Suc (length w)) b" using assms(2) by simp
  finally show ?thesis using iso_string_append[OF assms(3)] by simp
qed

definition args_from :: "bytes \<Rightarrow> nat option list \<Rightarrow> nat \<Rightarrow> bytes list \<Rightarrow> bool" where
  "args_from arg_buffer args n ws \<longleftrightarrow> n + length ws < length args \<and> args ! (n + length ws) = None \<and>
     (\<forall>k < length ws. \<exists>p. args ! (n + k) = Some p \<and> iso_string (drop p arg_buffer) = Some (ws ! k))"

lemma args_from_Cons:
  "args ! n = Some p \<Longrightarrow> iso_string (drop p b) = Some w \<Longrightarrow> args_from b args (Suc n) ws \<Longrightarrow> args_from b args n (w # ws)"
  by (auto simp: args_from_def less_Suc_eq_0_disj)

text \<open>The rest of the line after one word and the blanks behind it.\<close>

lemma after_word:
  assumes i: "i < length s" "nonspace (s ! i)"
  defines "w \<equiv> takeWhile nonspace (drop i s)" and "r \<equiv> dropWhile iso_isspace (dropWhile nonspace (drop i s))"
  shows "words (drop i s) = w # words r" "0 < length w" "i + length w \<le> length s"
    "drop (i + length w) s = dropWhile nonspace (drop i s)"
    "r \<noteq> [] \<Longrightarrow> Suc (i + length w) \<le> length s - length r"
    "length r \<le> length s" "drop (length s - length r) s = r"
proof -
  have d: "drop i s = s ! i # drop (Suc i) s" using i(1) by (simp add: Cons_nth_drop_Suc)
  have "words (drop i s) = w # words (dropWhile nonspace (drop i s))"
    unfolding w_def d using i(2) words_Cons by simp
  then show "words (drop i s) = w # words r" by (simp add: r_def words_skip)
  show "0 < length w" using i(2) by (simp add: w_def d)
  have "length w \<le> length (drop i s)" unfolding w_def by (rule length_takeWhile_le)
  then show l: "i + length w \<le> length s" using i(1) by simp
  have "dropWhile nonspace (drop i s) = drop (length w) (drop i s)" unfolding w_def by (rule dropWhile_eq_drop)
  then show t: "drop (i + length w) s = dropWhile nonspace (drop i s)" by (simp add: add.commute)
  have r: "r = dropWhile iso_isspace (drop (i + length w) s)" by (simp add: r_def t)
  then have rd: "r = drop (length (takeWhile iso_isspace (drop (i + length w) s))) (drop (i + length w) s)"
    by (simp add: dropWhile_eq_drop)
  show lr: "length r \<le> length s" by (simp add: rd)
  let ?q = "length (takeWhile iso_isspace (drop (i + length w) s)) + (i + length w)"
  have q: "drop ?q s = r" using rd by simp
  then have "length r = length s - ?q" by (metis length_drop)
  then show "drop (length s - length r) s = r" using q by (cases "?q \<le> length s") simp_all
  show "Suc (i + length w) \<le> length s - length r" if "r \<noteq> []"
  proof -
    have ne: "dropWhile nonspace (drop i s) \<noteq> []"
    proof
      assume "dropWhile nonspace (drop i s) = []"
      then have "r = []" unfolding r_def by (simp only: dropWhile.simps)
      then show False using that by simp
    qed
    then obtain c q where c: "dropWhile nonspace (drop i s) = c # q" "iso_isspace c"
      by (metis dropWhile_eq_Cons_conv neq_Nil_conv)
    then have "length r \<le> length q" unfolding r_def by (simp add: length_dropWhile_le)
    moreover have "length s - (i + length w) = Suc (length q)" using arg_cong[OF t, of length] c(1) by simp
    ultimately show ?thesis by simp
  qed
qed

text \<open>One word of the line: it is copied with its terminator and its place is noted.\<close>

lemma parse_loop_round:
  assumes s: "length s \<le> length inp" "take (length s) inp = s"
    and i: "i < length s" "nonspace (s ! i)" "pos \<le> i" and c: "count < 63"
    and len: "length args = 64" "length s < length buf"
  defines "w \<equiv> takeWhile nonspace (drop i s)"
    and "r \<equiv> dropWhile iso_isspace (dropWhile nonspace (drop i s))"
  defines "buf' \<equiv> take pos buf @ w @ 0 # drop (Suc (pos + length w)) buf"
  shows "parse_loop inp (length s) i buf pos args count =
      parse_loop inp (length s) (length s - length r) buf' (Suc (pos + length w)) (args[count := Some pos]) (Suc count)"
    and "length buf' = length buf"
proof -
  note A = after_word[OF i(1,2), folded w_def r_def]
  have p: "pos + length w < length buf" using A(3) i(3) len(2) by simp
  have cw: "copy_word inp (length s) i buf pos =
      Some (i + length w, take pos buf @ w @ drop (pos + length w) buf, pos + length w)"
    using copy_word_eq[OF s, of i pos buf] i(1) p by (simp add: w_def)
  have lp: "length (take pos buf) = pos" using p by simp
  have st: "arr_set (take pos buf @ w @ drop (pos + length w) buf) (pos + length w) 0 = Some buf'"
    using lp p by (simp add: arr_set_def list_update_append buf'_def Cons_nth_drop_Suc[symmetric])
  have sk: "skip_space inp (length s) (i + length w) = Some (length s - length r)"
    using skip_space_eq[OF s A(3)] A(4) by (simp add: r_def)
  show "parse_loop inp (length s) i buf pos args count =
      parse_loop inp (length s) (length s - length r) buf' (Suc (pos + length w)) (args[count := Some pos]) (Suc count)"
    using i(1) c len(1) cw st sk by (subst parse_loop.simps) (simp add: arr_set_def[of args] MAX_ARGS_def)
  show "length buf' = length buf" using lp p by (simp add: buf'_def)
qed

text \<open>What the words behind it leave as it was.\<close>

lemma prefix_kept:
  assumes "take (Suc (pos + length w)) b' = take (Suc (pos + length w)) (take pos b @ w @ 0 # x)" and "pos \<le> length b"
  shows "take pos b' = take pos b" and "take (pos + Suc (length w)) b' = take pos b @ w @ [0]"
proof -
  show t: "take (pos + Suc (length w)) b' = take pos b @ w @ [0]" using assms by simp
  have "take pos b' = take pos (take (pos + Suc (length w)) b')" by (simp add: min_def)
  also have "\<dots> = take pos b" unfolding t using assms(2) by simp
  finally show "take pos b' = take pos b" .
qed

lemma slot_kept:
  assumes "take (Suc n) a' = take (Suc n) (a[n := v])" and "n < length a"
  shows "take n a' = take n a" and "a' ! n = v"
proof -
  have "take n a' = take n (take (Suc n) a')" by (simp add: min_def)
  then show "take n a' = take n a" unfolding assms(1) by (simp add: min_def)
  have "a' ! n = take (Suc n) a' ! n" by simp
  then show "a' ! n = v" unfolding assms(1) using assms(2) by simp
qed

lemma parse_loop_words:
  assumes s: "length s \<le> length inp" "take (length s) inp = s" "0 \<notin> set s"
    and "i \<le> length s" and "drop i s \<noteq> [] \<Longrightarrow> nonspace (hd (drop i s)) \<and> pos \<le> i" and "count \<le> 63"
    and "length args = 64" and "length s < length buf"
  shows "\<exists>buf' args'. let ws = take (63 - count) (words (drop i s)) in
    parse_loop inp (length s) i buf pos args count = Some (count + length ws, buf', args') \<and>
    length buf' = length buf \<and> length args' = 64 \<and> take pos buf' = take pos buf \<and>
    take count args' = take count args \<and> args_from buf' args' count ws"
  using assms(4-)
proof (induction "63 - count" arbitrary: i pos buf args count)
  case 0
  then have c: "count = 63" by simp
  then show ?case
    using 0 by (subst parse_loop.simps) (simp add: arr_set_def MAX_ARGS_def args_from_def)
next
  case (Suc n)
  then have c: "count < 63" by simp
  show ?case
  proof (cases "i < length s")
    case False
    then show ?thesis
      using Suc.prems c by (subst parse_loop.simps) (simp add: arr_set_def MAX_ARGS_def args_from_def)
  next
    case i: True
    have hd: "nonspace (s ! i)" "pos \<le> i" using Suc.prems(2) i by (simp_all add: hd_drop_conv_nth)
    define w where "w = takeWhile nonspace (drop i s)"
    define r where "r = dropWhile iso_isspace (dropWhile nonspace (drop i s))"
    define buf2 where "buf2 = take pos buf @ w @ 0 # drop (Suc (pos + length w)) buf"
    note A = after_word[OF i hd(1), folded w_def r_def]
    note R = parse_loop_round[OF s(1,2) i hd c Suc.prems(4,5), folded w_def r_def, folded buf2_def]
    let ?i = "length s - length r" and ?p = "Suc (pos + length w)"
    have hd': "nonspace (hd (drop ?i s)) \<and> ?p \<le> ?i" if "drop ?i s \<noteq> []"
    proof -
      have "r \<noteq> []" using that A(7) by simp
      moreover from this have "nonspace (hd r)" unfolding r_def by (rule hd_dropWhile)
      ultimately show ?thesis using A(5,7) hd(2) by simp
    qed
    have n: "n = 63 - Suc count" using Suc.hyps(2) by simp
    obtain buf' args' where IH:
      "parse_loop inp (length s) ?i buf2 ?p (args[count := Some pos]) (Suc count) =
        Some (Suc count + length (take (63 - Suc count) (words r)), buf', args')"
      "length buf' = length buf2" "length args' = 64" "take ?p buf' = take ?p buf2"
      "take (Suc count) args' = take (Suc count) (args[count := Some pos])"
      "args_from buf' args' (Suc count) (take (63 - Suc count) (words r))"
      using Suc.hyps(1)[OF n, of ?i ?p "args[count := Some pos]" buf2] hd' c Suc.prems(4,5) R(2) A(7)
      by (auto simp: Let_def)
    have pos: "pos \<le> length buf" "count < length args" using i hd(2) c Suc.prems(4,5) by simp_all
    note P = prefix_kept[OF IH(4)[unfolded buf2_def] pos(1)] and S = slot_kept[OF IH(5) pos(2)]
    have "0 \<notin> set w" using s(3) by (auto simp: w_def dest!: set_takeWhileD in_set_dropD)
    then have "iso_string (drop pos buf') = Some w" using pos(1) by (intro string_kept[OF P(2)]) simp_all
    moreover have "take (63 - count) (words (drop i s)) = w # take (63 - Suc count) (words r)"
      using c by (simp add: A(1) take_Cons' Suc_diff_Suc)
    ultimately show ?thesis
      using IH(1-3,6) R P(1) S args_from_Cons[of args' count pos buf'] by (auto simp: Let_def)
  qed
qed

lemma drop_dropWhile: "drop (length s - length (dropWhile P s)) s = dropWhile P s"
  by (simp add: dropWhile_eq_drop) (metis drop_drop drop_all length_takeWhile_le diff_diff_cancel le_refl)

lemma parse_input_words:
  assumes inp: "inp = s @ 0 # rest" and s: "0 \<notin> set s" and "length s < length buf" and "length args = 64"
  shows "\<exists>buf' args'. parse_input inp buf args = Some (length (take 63 (words s)), buf', args') \<and>
    length buf' = length buf \<and> length args' = 64 \<and> args_from buf' args' 0 (take 63 (words s))"
proof -
  let ?i = "length s - length (dropWhile iso_isspace s)"
  have l: "length s \<le> length inp" "take (length s) inp = s" by (simp_all add: inp)
  have d: "drop ?i s = dropWhile iso_isspace s" by (rule drop_dropWhile)
  have "nonspace (hd (drop ?i s)) \<and> 0 \<le> ?i" if "drop ?i s \<noteq> []"
    using hd_dropWhile[of iso_isspace s] that unfolding d by blast
  then obtain buf' args' where
    "parse_loop inp (length s) ?i buf 0 args 0 = Some (0 + length (take (63 - 0) (words (drop ?i s))), buf', args')"
    "length buf' = length buf" "length args' = 64" "args_from buf' args' 0 (take (63 - 0) (words (drop ?i s)))"
    using parse_loop_words[OF l s, of ?i 0 0 args buf] assms(3,4) by (auto simp: Let_def)
  then show ?thesis
    using skip_space_eq[OF l, of 0] iso_strlen_append[OF s] by (simp add: parse_input_def inp d words_skip)
qed

section \<open>Arguments\<close>

lemma iso_stringE:
  assumes "iso_string q = Some w"
  obtains r where "q = w @ 0 # r" and "0 \<notin> set w"
proof -
  have z: "0 \<in> set q" "w = takeWhile (\<lambda>c. c \<noteq> 0) q"
    using assms by (auto simp: iso_string_def split: if_splits)
  obtain a r where "q = a @ 0 # r" "0 \<notin> set a" using split_list_first[OF z(1)] by blast
  moreover from this have "w = a" using iso_string_append[of a r] assms by simp
  ultimately show ?thesis using that by blast
qed

lemma arg_string:
  assumes "args_from b args n ws" and "k < length ws"
  obtains r where "arg b args (n + k) = Some (Some (ws ! k @ 0 # r))" and "0 \<notin> set (ws ! k)"
proof -
  obtain p where p: "args ! (n + k) = Some p" "iso_string (drop p b) = Some (ws ! k)"
    using assms by (auto simp: args_from_def)
  obtain r where "drop p b = ws ! k @ 0 # r" "0 \<notin> set (ws ! k)" using p(2) by (rule iso_stringE)
  then show ?thesis using p(1) assms that by (simp add: arg_def arr_get_def args_from_def)
qed

lemma arg_end: "args_from b args n ws \<Longrightarrow> arg b args (n + length ws) = Some None"
  by (simp add: arg_def arr_get_def args_from_def)

lemma args_from_tl: "args_from b args n (w # ws) \<Longrightarrow> args_from b args (Suc n) ws"
  unfolding args_from_def by (auto dest: spec[of _ "Suc _"])

section \<open>The command\<close>

definition command_name :: "nat \<Rightarrow> bytes" where
  "command_name i = butlast (supported_commands ! i)"

lemma supported_command:
  assumes "i < num_cmds"
  shows "supported_commands ! i = command_name i @ [0]" and "0 \<notin> set (command_name i)"
proof -
  have "\<forall>c \<in> set supported_commands. c = butlast c @ [0] \<and> 0 \<notin> set (butlast c)"
    by (simp add: supported_commands_def c_str_def bytes_of_def)
  moreover have "supported_commands ! i \<in> set supported_commands" using assms by (simp add: num_cmds_def)
  ultimately show "supported_commands ! i = command_name i @ [0]" "0 \<notin> set (command_name i)"
    unfolding command_name_def by blast+
qed

lemma takeWhile_nonzero: "0 \<notin> set c \<Longrightarrow> takeWhile (\<lambda>c. c \<noteq> 0) (take n (c @ 0 # r)) = take n c"
proof (induction c arbitrary: n)
  case Nil
  then show ?case by (cases n) auto
next
  case (Cons a c)
  then show ?case by (cases n) auto
qed

lemma command_prefix:
  assumes "i < num_cmds" and "0 \<notin> set w"
  shows "\<exists>r. iso_strncmp (supported_commands ! i) (w @ 0 # q) (length w) = Some r \<and>
    (r = 0 \<longleftrightarrow> take (length w) (command_name i) = w)"
proof -
  let ?c = "supported_commands ! i" and ?p = "w @ 0 # q"
  note C = supported_command[OF assms(1)]
  have "takeWhile (\<lambda>c. c \<noteq> 0) (take (length w) ?c) = take (length w) (command_name i)"
    unfolding C(1) by (rule takeWhile_nonzero[OF C(2)])
  moreover have "takeWhile (\<lambda>c. c \<noteq> 0) (take (length w) ?p) = w"
    unfolding takeWhile_nonzero[OF assms(2)] by simp
  moreover have "length w \<le> length ?c \<or> 0 \<in> set ?c" "length w \<le> length ?p \<or> 0 \<in> set ?p"
    by (simp_all add: C(1))
  ultimately show ?thesis using iso_strncmp_zero_iff[of "length w" ?c ?p] by (simp only:)
qed

lemma command_loop_find:
  assumes "i + n \<le> num_cmds" and "0 \<notin> set w"
  shows "command_loop (w @ 0 # q) (length w) i n =
    Some (List.find (\<lambda>j. take (length w) (command_name j) = w) [i..<i + n])"
  using assms(1)
proof (induction n arbitrary: i)
  case (Suc n)
  then have i: "i < num_cmds" by simp
  have "[i..<i + Suc n] = i # [Suc i..<Suc i + n]" by (simp add: upt_conv_Cons)
  then show ?case using command_prefix[OF i assms(2), of q] Suc by (auto simp del: upt_Suc)
qed simp

lemma execute_command_find:
  assumes "args_from b args 0 (w # ws)"
  shows "execute_command lib b args x =
    (case List.find (\<lambda>j. take (length w) (command_name j) = w) [0..<num_cmds] of
       Some i \<Rightarrow> (command_funcs lib ! i) b args x
     | None \<Rightarrow> Some (1, args, lib_print lib (bytes_of ''Unknown command: '' @ w @ bytes_of ''\<newline>'') x))"
proof -
  obtain r where r: "arg b args 0 = Some (Some (w @ 0 # r))" "0 \<notin> set w"
    using arg_string[OF assms, of 0] by auto
  show ?thesis
    using r(1) iso_strlen_append[OF r(2)] iso_string_append[OF r(2)] command_loop_find[of 0 num_cmds, OF _ r(2)]
    by (simp add: execute_command_def split: option.splits)
qed

section \<open>Echo\<close>

definition spaced :: "bytes list \<Rightarrow> bytes" where
  "spaced ws = concat (map (\<lambda>w. 0x20 # w) ws)"

definition unwords :: "bytes list \<Rightarrow> bytes" where
  "unwords ws = tl (spaced ws)"

lemma spaced_simps [simp]: "spaced [] = []" "spaced (w # ws) = 0x20 # w @ spaced ws"
  by (simp_all add: spaced_def)

lemma iso_strcat_ok:
  assumes "iso_string d = Some a" and "iso_string q = Some w" and "length a + length w < length d"
  shows "\<exists>d'. iso_strcat d q = Some d' \<and> iso_string d' = Some (a @ w) \<and> length d' = length d"
proof -
  obtain r where q: "q = w @ 0 # r" "0 \<notin> set w" using assms(2) by (rule iso_stringE)
  obtain t where d: "d = a @ 0 # t" "0 \<notin> set a" using assms(1) by (rule iso_stringE)
  have len: "length w < length (drop (length a) d)" using assms(3) by simp
  have "iso_strcat d q = Some (a @ w @ 0 # drop (Suc (length w)) (drop (length a) d))"
    using iso_strcpy_append[OF q(2) len, of r] by (simp add: iso_strcat_def assms(1) q(1))
  moreover have "iso_string ((a @ w) @ 0 # drop (Suc (length w)) (drop (length a) d)) = Some (a @ w)"
    using d(2) q(2) by (intro iso_string_append) simp
  ultimately show ?thesis using assms(3) by simp
qed

lemma echo_join_spaced:
  assumes "args_from b args n ws" and "1 < n" and "iso_string buf = Some a" and "length a + length (spaced ws) < length buf"
  shows "\<exists>buf'. echo_join b args n buf = Some buf' \<and> iso_string buf' = Some (a @ spaced ws)"
  using assms
proof (induction ws arbitrary: n buf a)
  case Nil
  then show ?case using arg_end[OF Nil.prems(1)] by (subst echo_join.simps) simp
next
  case (Cons w ws)
  obtain r where r: "arg b args n = Some (Some (w @ 0 # r))" "0 \<notin> set w"
    using arg_string[OF Cons.prems(1), of 0] by auto
  have sp: "iso_string (c_str '' '') = Some [0x20]" by (simp add: c_str_def bytes_of_def iso_string_def)
  obtain b1 where b1: "iso_strcat buf (c_str '' '') = Some b1" "iso_string b1 = Some (a @ [0x20])" "length b1 = length buf"
    using iso_strcat_ok[OF Cons.prems(3) sp] Cons.prems(4) by auto
  obtain b2 where b2: "iso_strcat b1 (w @ 0 # r) = Some b2" "iso_string b2 = Some ((a @ [0x20]) @ w)" "length b2 = length buf"
    using iso_strcat_ok[OF b1(2) iso_string_append[OF r(2), of r]] b1(3) Cons.prems(4) by auto
  have "\<exists>buf'. echo_join b args (Suc n) b2 = Some buf' \<and> iso_string buf' = Some (((a @ [0x20]) @ w) @ spaced ws)"
    using Cons.prems b2 by (intro Cons.IH args_from_tl[OF Cons.prems(1)]) simp_all
  then show ?case using r(1) b1(1) b2(1) Cons.prems(2) by (subst echo_join.simps) simp
qed

lemma echo_join_unwords:
  assumes a: "args_from b args 1 ws" and len: "length (spaced ws) \<le> 256"
  shows "\<exists>buf'. echo_join b args 1 (replicate 256 0) = Some buf' \<and> iso_string buf' = Some (unwords ws)"
proof (cases ws)
  case Nil
  then have "arg b args 1 = Some None" using arg_end[OF a] by simp
  then show ?thesis by (subst echo_join.simps) (simp add: Nil unwords_def iso_string_def)
next
  case ws: (Cons w vs)
  obtain r where r: "arg b args 1 = Some (Some (w @ 0 # r))" "0 \<notin> set w"
    using arg_string[OF a, of 0] by (auto simp: ws)
  have z: "iso_string (replicate 256 0) = Some []" by (simp add: iso_string_def)
  obtain b1 where b1: "iso_strcat (replicate 256 0) (w @ 0 # r) = Some b1" "iso_string b1 = Some w" "length b1 = 256"
    using iso_strcat_ok[OF z iso_string_append[OF r(2), of r]] len by (auto simp: ws)
  have "\<exists>buf'. echo_join b args (Suc 1) b1 = Some buf' \<and> iso_string buf' = Some (w @ spaced vs)"
    using a b1 len by (intro echo_join_spaced args_from_tl[where w = w]) (simp_all add: ws)
  then show ?thesis using r(1) b1(1) by (subst echo_join.simps) (simp add: ws unwords_def)
qed

text \<open>Without a redirection the first pass only reads the arguments.\<close>

lemma strcmp_constant:
  assumes "0 \<notin> set w" and "0 \<notin> set n"
  shows "\<exists>r. iso_strcmp (w @ 0 # q) (n @ [0]) = Some r \<and> (r = 0 \<longleftrightarrow> w = n)"
proof -
  have "takeWhile (\<lambda>c. c \<noteq> 0) (w @ 0 # q) = w" "takeWhile (\<lambda>c. c \<noteq> 0) (n @ [0]) = n"
    using iso_string_append[OF assms(1), of q] iso_string_append[OF assms(2), of "[]"] by (simp_all add: iso_string_def)
  then show ?thesis using iso_strcmp_zero_iff[of "w @ 0 # q" "n @ [0]"] by simp
qed

definition redirection :: "bytes \<Rightarrow> bool" where
  "redirection w \<longleftrightarrow> w = bytes_of ''>'' \<or> w = bytes_of ''>>''"

lemma redirection_strcmp:
  assumes "0 \<notin> set w"
  shows "\<exists>r. iso_strcmp (w @ 0 # q) (c_str ''>'') = Some r \<and> (r = 0 \<longleftrightarrow> w = bytes_of ''>'')"
    and "\<exists>r. iso_strcmp (w @ 0 # q) (c_str ''>>'') = Some r \<and> (r = 0 \<longleftrightarrow> w = bytes_of ''>>'')"
  unfolding c_str_def by (rule strcmp_constant[OF assms]; simp add: bytes_of_def)+

lemma echo_scan_plain:
  assumes "args_from b args n ws" and "\<forall>w \<in> set ws. \<not> redirection w"
  shows "echo_scan lib b args n x = Some (Some None, args, x)"
  using assms
proof (induction ws arbitrary: n)
  case Nil
  then show ?case using arg_end[OF Nil.prems(1)] by (subst echo_scan.simps) simp
next
  case (Cons w ws)
  obtain r where r: "arg b args n = Some (Some (w @ 0 # r))" "0 \<notin> set w"
    using arg_string[OF Cons.prems(1), of 0] by auto
  have w: "w \<noteq> bytes_of ''>''" "w \<noteq> bytes_of ''>>''" using Cons.prems(2) by (auto simp: redirection_def)
  obtain t u where "iso_strcmp (w @ 0 # r) (c_str ''>'') = Some t" "t \<noteq> 0"
    "iso_strcmp (w @ 0 # r) (c_str ''>>'') = Some u" "u \<noteq> 0"
    using redirection_strcmp[OF r(2), of r] w by blast
  then show ?case
    using r(1) Cons.IH[OF args_from_tl[OF Cons.prems(1)]] Cons.prems(2) by (subst echo_scan.simps) simp
qed

text \<open>A redirection behind the words \<open>vs\<close> cuts the arguments there and opens the file that follows.\<close>

lemma args_from_cut:
  assumes "args_from b args n (vs @ x # ys)"
  shows "args_from b (args[n + length vs := None]) n vs"
  unfolding args_from_def
proof (intro conjI allI impI)
  show l: "n + length vs < length (args[n + length vs := None])" using assms by (simp add: args_from_def)
  show "args[n + length vs := None] ! (n + length vs) = None" using l by simp
  fix k assume k: "k < length vs"
  then have "k < length (vs @ x # ys)" by simp
  then obtain p where "args ! (n + k) = Some p" "iso_string (drop p b) = Some ((vs @ x # ys) ! k)"
    using assms unfolding args_from_def by blast
  then show "\<exists>p. args[n + length vs := None] ! (n + k) = Some p \<and> iso_string (drop p b) = Some (vs ! k)"
    using k by (simp add: nth_append)
qed

lemma echo_scan_redirected:
  assumes "args_from b args n (vs @ x # y # ys)" and "\<forall>w \<in> set vs. \<not> redirection w" and "redirection x"
  shows "echo_scan lib b args n z =
    (case lib_fopen lib y (if x = bytes_of ''>'' then ''w+'' else ''a'') z of
       (None, z) \<Rightarrow> Some (None, args, lib_puts lib (bytes_of ''echo'') z)
     | (Some fd, z) \<Rightarrow> Some (Some (Some fd), args[n + length vs := None], z))"
  using assms
proof (induction vs arbitrary: n)
  case Nil
  obtain r where r: "arg b args n = Some (Some (x @ 0 # r))" "0 \<notin> set x"
    using arg_string[OF Nil.prems(1), of 0] by auto
  obtain q where q: "arg b args (Suc n) = Some (Some (y @ 0 # q))" "0 \<notin> set y"
    using arg_string[OF Nil.prems(1), of 1] by auto
  obtain t u where t: "iso_strcmp (x @ 0 # r) (c_str ''>'') = Some t" "t = 0 \<longleftrightarrow> x = bytes_of ''>''"
    "iso_strcmp (x @ 0 # r) (c_str ''>>'') = Some u" "u = 0 \<longleftrightarrow> x = bytes_of ''>>''"
    using redirection_strcmp[OF r(2), of r] by blast
  have n: "n < length args" using Nil.prems(1) by (simp add: args_from_def)
  have y: "iso_string (y @ 0 # q) = Some y" using q(2) by (rule iso_string_append)
  show ?case
  proof (cases "x = bytes_of ''>''")
    case True
    then show ?thesis
      using r(1) q(1) t y n by (subst echo_scan.simps) (simp add: arr_set_def split: prod.split option.split)
  next
    case False
    then have "u = 0" "t \<noteq> 0" using Nil.prems(3) t by (auto simp: redirection_def)
    then show ?thesis
      using r(1) q(1) t(1,3) y n False
      by (subst echo_scan.simps) (simp add: arr_set_def split: prod.split option.split)
  qed
next
  case (Cons w vs)
  obtain r where r: "arg b args n = Some (Some (w @ 0 # r))" "0 \<notin> set w"
    using arg_string[OF Cons.prems(1), of 0] by auto
  have w: "w \<noteq> bytes_of ''>''" "w \<noteq> bytes_of ''>>''" using Cons.prems(2) by (auto simp: redirection_def)
  obtain t u where "iso_strcmp (w @ 0 # r) (c_str ''>'') = Some t" "t \<noteq> 0"
    "iso_strcmp (w @ 0 # r) (c_str ''>>'') = Some u" "u \<noteq> 0"
    using redirection_strcmp[OF r(2), of r] w by blast
  moreover have "args_from b args (Suc n) (vs @ x # y # ys)"
    using args_from_tl[of b args n w "vs @ x # y # ys"] Cons.prems(1) by simp
  moreover have e: "n + length (w # vs) = Suc n + length vs" by simp
  ultimately show ?case
    unfolding e using r(1) Cons.IH[of "Suc n"] Cons.prems(2,3) by (subst echo_scan.simps) simp
qed

lemma cmd_echo_plain:
  assumes a: "args_from b args 1 ws" and "ws \<noteq> []" and plain: "\<forall>w \<in> set ws. \<not> redirection w"
    and len: "length (spaced ws) \<le> 256"
  shows "cmd_echo lib b args x =
    Some (1, args, lib_write lib 1 (bytes_of ''\<newline>'') (lib_write lib 1 (unwords ws) x))"
proof -
  obtain buf where buf: "echo_join b args 1 (replicate 256 0) = Some buf" "iso_string buf = Some (unwords ws)"
    using echo_join_unwords[OF a len] by blast
  obtain r where "arg b args 1 = Some (Some (ws ! 0 @ 0 # r))" using arg_string[OF a, of 0] assms(2) by auto
  then show ?thesis
    using buf echo_scan_plain[OF a plain, of lib x] by (simp add: cmd_echo_def MAX_INPUT_LENGTH_def)
qed

lemma cmd_echo_redirected:
  assumes a: "args_from b args 1 (vs @ x # y # ys)" and plain: "\<forall>w \<in> set vs. \<not> redirection w" and x: "redirection x"
    and len: "length (spaced vs) \<le> 256"
    and f: "lib_fopen lib y (if x = bytes_of ''>'' then ''w+'' else ''a'') z = (Some fd, z')"
  shows "cmd_echo lib b args z =
    Some (1, args[1 + length vs := None], lib_fclose lib fd (lib_fwrite lib fd (unwords vs) z'))"
proof -
  obtain buf where buf: "echo_join b (args[1 + length vs := None]) 1 (replicate 256 0) = Some buf"
    "iso_string buf = Some (unwords vs)"
    using echo_join_unwords[OF args_from_cut[OF a] len] by blast
  obtain r where "arg b args 1 = Some (Some ((vs @ x # y # ys) ! 0 @ 0 # r))" using arg_string[OF a, of 0] by auto
  then show ?thesis
    using buf echo_scan_redirected[OF a plain x, of lib z] f by (simp add: cmd_echo_def MAX_INPUT_LENGTH_def)
qed

text \<open>The words of a line, joined, are not longer than the line.\<close>

lemma spaced_words: "length (spaced (words s)) \<le> length s + (if s \<noteq> [] \<and> nonspace (hd s) then 1 else 0)"
proof (induction s rule: words.induct)
  case (1 s)
  let ?t = "dropWhile iso_isspace s"
  have eq: "words s = (if ?t = [] then [] else takeWhile nonspace ?t # words (dropWhile nonspace ?t))"
    by (subst words.simps) (simp only: Let_def)
  show ?case
  proof (cases "?t = []")
    case True
    then show ?thesis unfolding eq by (simp only: if_True) simp
  next
    case False
    let ?w = "takeWhile nonspace ?t" and ?r = "dropWhile nonspace ?t"
    have "\<not> nonspace (hd ?r)" if "?r \<noteq> []" using that by (rule hd_dropWhile)
    then have "length (spaced (words ?r)) \<le> length ?r" using "1.IH"[OF refl False] by (auto split: if_splits)
    moreover have "length ?w + length ?r = length ?t" by (metis length_append takeWhile_dropWhile_id)
    moreover have "Suc (length ?t) \<le> length s + (if s \<noteq> [] \<and> nonspace (hd s) then 1 else 0)"
    proof (cases s)
      case Nil
      then show ?thesis using False by simp
    next
      case (Cons c s')
      then show ?thesis using length_dropWhile_le[of iso_isspace s'] by simp
    qed
    ultimately show ?thesis unfolding eq if_not_P[OF False] by simp
  qed
qed

lemma spaced_take: "length (spaced (take n ws)) \<le> length (spaced ws)"
proof -
  have "spaced ws = spaced (take n ws) @ spaced (drop n ws)"
    unfolding spaced_def by (metis append_take_drop_id concat_append map_append)
  then show ?thesis by simp
qed

lemma spaced_append: "length (spaced vs) \<le> length (spaced (vs @ ws))"
  by (simp add: spaced_def)

section \<open>A turn of the shell\<close>

text \<open>A line that is read with its newline ends up as the string \<open>s\<close> in the input buffer.\<close>

lemma shell_round_line:
  assumes "print_cwd lib w = Some w1" and "lib_read lib 0 256 w1 = (int (Suc (length s)), s @ [c], w2)"
    and s: "0 \<notin> set s" "length s < 256" and "length inp = 256" and "length buf = 256" and "length args = 64"
    and ne: "words s \<noteq> []"
  shows "\<exists>buf' args'. args_from buf' args' 0 (take 63 (words s)) \<and> length args' = 64 \<and> length buf' = 256 \<and>
    shell_round lib status inp buf args w = do {
      (status, args, w) \<leftarrow> execute_command lib buf' args' w2;
      Some (status, s @ 0 # drop (Suc (length s)) inp, buf', args, w) }"
proof -
  let ?inp = "s @ 0 # drop (Suc (length s)) inp"
  obtain buf' args' where P: "parse_input ?inp buf args = Some (length (take 63 (words s)), buf', args')"
    "length buf' = length buf" "length args' = 64" "args_from buf' args' 0 (take 63 (words s))"
    using parse_input_words[OF refl s(1), of buf args "drop (Suc (length s)) inp"] assms(6,7) s(2) by auto
  let ?len = "word_of_int (int (Suc (length s))) :: u32"
  have u: "unat (of_nat (length s) :: u32) = length s" using s(2) by (intro unat_of_nat_u32) simp
  have len: "?len - 1 = of_nat (length s)" by simp
  have "unat (of_nat (Suc (length s)) :: u32) = Suc (length s)" using s(2) by (intro unat_of_nat_u32) simp
  then have "0 < unat ?len" by simp
  then have pos: "0 < ?len" by (simp only: word_less_nat_alt unat_0)
  have "iso_memcpy inp (s @ [c]) (length (s @ [c])) = Some ((s @ [c]) @ drop (Suc (length s)) inp)"
    using s(2) assms(5) by (simp add: iso_memcpy_def)
  moreover have "arr_set ((s @ [c]) @ drop (Suc (length s)) inp) (length s) 0 = Some ?inp"
    by (simp add: arr_set_def)
  moreover have words: "length (take 63 (words s)) \<noteq> 0" using ne by simp
  ultimately have "shell_round lib status inp buf args w = do {
      (status, args, w) \<leftarrow> execute_command lib buf' args' w2;
      Some (status, ?inp, buf', args, w) }"
    using assms(1,2) P(1) words pos unfolding shell_round_def MAX_INPUT_LENGTH_def
    by (simp only: bind.bind_lunit prod.case Let_def if_True len u) simp
  then show ?thesis using P assms(6) by (intro exI[of _ buf'] exI[of _ args']) simp
qed

section \<open>Properties\<close>

definition args_hold :: "bytes \<Rightarrow> nat option list \<Rightarrow> bytes list \<Rightarrow> bool" where
  "args_hold arg_buffer args ws \<longleftrightarrow> length ws < length args \<and> args ! length ws = None \<and>
     (\<forall>k < length ws. \<exists>p. args ! k = Some p \<and> iso_string (drop p arg_buffer) = Some (ws ! k))"

lemma args_hold_from: "args_hold b args ws \<longleftrightarrow> args_from b args 0 ws"
  by (simp add: args_hold_def args_from_def)

text \<open>C19. Parsing a line splits it into its words: for any line that fits the buffer, \<open>parse_input\<close> returns, without
  leaving \<open>arg_buffer\<close> or \<open>args\<close>, the number of words, at most 63, and the entries of \<open>args\<close> point at
  these words as strings, in order, with NULL behind the last one.\<close>

theorem parse_input_splits:
  assumes "inp = s @ 0 # rest" and "0 \<notin> set s" and "length s < length buf" and "length args = 64"
  shows "\<exists>n buf' args'. parse_input inp buf args = Some (n, buf', args') \<and> n = length (take 63 (words s)) \<and>
    length buf' = length buf \<and> length args' = 64 \<and> args_hold buf' args' (take 63 (words s))"
  using parse_input_words[OF assms] unfolding args_hold_from by blast

theorem parse_input_splits_witness:
  "\<exists>n buf' args'. parse_input (bytes_of '' ls  /bin'' @ 0 # replicate 246 0) (replicate 256 0) (replicate 64 None) =
      Some (n, buf', args') \<and> n = length (take 63 (words (bytes_of '' ls  /bin''))) \<and>
    length buf' = length (replicate 256 (0 :: u8)) \<and> length args' = 64 \<and>
    args_hold buf' args' (take 63 (words (bytes_of '' ls  /bin'')))"
  by (rule parse_input_splits) (simp_all add: bytes_of_def)

text \<open>C20. The command is the first one in the table that starts with the word that was typed: \<open>strncmp\<close> compares
  only as many characters as the word has, so a beginning is enough, and \<open>e\<close> is \<open>echo\<close>. When no
  command starts with the word, a message is printed and the shell goes on.\<close>

theorem execute_command_selects:
  assumes "args_hold arg_buffer args (w # ws)"
  shows "execute_command lib arg_buffer args x =
    (case List.find (\<lambda>j. take (length w) (command_name j) = w) [0..<num_cmds] of
       Some i \<Rightarrow> (command_funcs lib ! i) arg_buffer args x
     | None \<Rightarrow> Some (1, args, lib_print lib (bytes_of ''Unknown command: '' @ w @ bytes_of ''\<newline>'') x))"
  using assms unfolding args_hold_from by (rule execute_command_find)

text \<open>A library whose world is the text that was put out; every line that is read is \<open>line\<close>.\<close>

definition lib_example :: "bytes \<Rightarrow> bytes clib" where
  "lib_example line = \<lparr>lib_write = (\<lambda>_ d w. w @ d), lib_print = (\<lambda>d w. w @ d), lib_puts = (\<lambda>d w. w @ d @ [0x0A]),
     lib_read = (\<lambda>_ _ w. (int (length line), line, w)), lib_getcwd = (\<lambda>b w. (True, 0x2F # tl b, w)),
     lib_opendir = (\<lambda>_ w. (None, w)), lib_readdir = (\<lambda>_ w. (None, w)), lib_closedir = (\<lambda>_ w. w),
     lib_chdir = (\<lambda>_ w. (0, w)), lib_fopen = (\<lambda>_ _ w. (Some 3, w)), lib_fread = (\<lambda>_ _ w. ([], w)),
     lib_fwrite = (\<lambda>_ d w. w @ d), lib_fclose = (\<lambda>_ w. w), lib_mkdir = (\<lambda>_ w. (0, w)),
     lib_unlink = (\<lambda>_ w. (0, w)), lib_rmdir = (\<lambda>_ w. (0, w)), lib_execve = (\<lambda>_ _ w. (0, w)), lib_call = (\<lambda>_ w. w)\<rparr>"

theorem execute_command_selects_witness:
  "execute_command (lib_example []) [0x65, 0, 0x61, 0] [Some 0, Some 2, None] [] =
    (case List.find (\<lambda>j. take (length [0x65 :: u8]) (command_name j) = [0x65]) [0..<num_cmds] of
       Some i \<Rightarrow> (command_funcs (lib_example []) ! i) [0x65, 0, 0x61, 0] [Some 0, Some 2, None] []
     | None \<Rightarrow> Some (1, [Some 0, Some 2, None],
         lib_print (lib_example []) (bytes_of ''Unknown command: '' @ [0x65] @ bytes_of ''\<newline>'') []))"
  by (rule execute_command_selects[where ws = "[[0x61]]"])
    (simp add: args_hold_def iso_string_def less_Suc_eq)

lemma echo_name: "List.find (\<lambda>j. take (length (bytes_of ''echo'')) (command_name j) = bytes_of ''echo'') [0..<num_cmds] = Some 4"
  by (simp add: num_cmds_def supported_commands_def command_name_def bytes_of_def c_str_def upt_rec)

lemma echo_words:
  assumes "take 63 (words s) = bytes_of ''echo'' # ws" and "length s < 256"
  shows "length (spaced ws) \<le> 256" and "words s \<noteq> []"
proof -
  have "Suc (4 + length (spaced ws)) = length (spaced (take 63 (words s)))"
    unfolding assms(1) by (simp add: bytes_of_def)
  also have "\<dots> \<le> length (spaced (words s))" by (rule spaced_take)
  also have "\<dots> \<le> Suc (length s)" using spaced_words[of s] by (auto split: if_splits)
  finally show "length (spaced ws) \<le> 256" using assms(2) by simp
  show "words s \<noteq> []" using assms(1) by auto
qed

lemma echo_turn:
  assumes "print_cwd lib w = Some w1" and "lib_read lib 0 256 w1 = (int (Suc (length s)), s @ [c], w2)"
    and "0 \<notin> set s" and "length s < 256" and "length inp = 256" and "length buf = 256" and "length args = 64"
    and "take 63 (words s) = bytes_of ''echo'' # ws" and "ws \<noteq> []"
  shows "(\<forall>v \<in> set ws. \<not> redirection v) \<longrightarrow> (\<exists>inp' buf' args'. shell_round lib status inp buf args w =
      Some (1, inp', buf', args', lib_write lib 1 (bytes_of ''\<newline>'') (lib_write lib 1 (unwords ws) w2)))"
    and "\<forall>vs x y ys fd w3. ws = vs @ x # y # ys \<and> (\<forall>v \<in> set vs. \<not> redirection v) \<and> redirection x \<and>
      lib_fopen lib y (if x = bytes_of ''>'' then ''w+'' else ''a'') w2 = (Some fd, w3) \<longrightarrow>
      (\<exists>inp' buf' args'. shell_round lib status inp buf args w =
        Some (1, inp', buf', args', lib_fclose lib fd (lib_fwrite lib fd (unwords vs) w3)))"
proof -
  note E = echo_words[OF assms(8,4)]
  obtain buf' args' where R: "args_from buf' args' 0 (take 63 (words s))"
    "shell_round lib status inp buf args w = do {
      (status, args, w) \<leftarrow> execute_command lib buf' args' w2;
      Some (status, s @ 0 # drop (Suc (length s)) inp, buf', args, w) }"
    using shell_round_line[OF assms(1-7) E(2), of status] by blast
  have a: "args_from buf' args' 0 (bytes_of ''echo'' # ws)" using R(1) assms(8) by simp
  have "execute_command lib buf' args' w2 = cmd_echo lib buf' args' w2"
    unfolding execute_command_find[OF a] echo_name by (simp add: command_funcs_def)
  note R2 = R(2)[unfolded this]
  have a1: "args_from buf' args' 1 ws" using args_from_tl[OF a] by simp
  show "(\<forall>v \<in> set ws. \<not> redirection v) \<longrightarrow> (\<exists>inp' buf' args'. shell_round lib status inp buf args w =
      Some (1, inp', buf', args', lib_write lib 1 (bytes_of ''\<newline>'') (lib_write lib 1 (unwords ws) w2)))"
    unfolding R2 using cmd_echo_plain[OF a1 assms(9) _ E(1), of lib w2] by auto
  show "\<forall>vs x y ys fd w3. ws = vs @ x # y # ys \<and> (\<forall>v \<in> set vs. \<not> redirection v) \<and> redirection x \<and>
      lib_fopen lib y (if x = bytes_of ''>'' then ''w+'' else ''a'') w2 = (Some fd, w3) \<longrightarrow>
      (\<exists>inp' buf' args'. shell_round lib status inp buf args w =
        Some (1, inp', buf', args', lib_fclose lib fd (lib_fwrite lib fd (unwords vs) w3)))"
  proof (intro allI impI, elim conjE)
    fix vs x y ys fd w3
    assume V: "ws = vs @ x # y # ys" "\<forall>v \<in> set vs. \<not> redirection v" "redirection x"
      "lib_fopen lib y (if x = bytes_of ''>'' then ''w+'' else ''a'') w2 = (Some fd, w3)"
    have "length (spaced vs) \<le> 256" using spaced_append[of vs "x # y # ys"] E(1) V(1) by simp
    from cmd_echo_redirected[OF a1[unfolded V(1)] V(2,3) this V(4)]
    show "\<exists>inp' buf' args'. shell_round lib status inp buf args w =
        Some (1, inp', buf', args', lib_fclose lib fd (lib_fwrite lib fd (unwords vs) w3))"
      unfolding R2 by simp
  qed
qed

text \<open>C21. A turn of the shell on an \<open>echo\<close> line: what is written is the words of the line behind the command, joined by
  single blanks, followed by a newline, on the standard output when the words have no redirection; with one,
  only the words in front of it are written, to the file that follows it, opened for \<open>>\<close> from its start and
  for \<open>>>\<close> at its end. The buffers never overflow, and the shell goes on.\<close>

theorem shell_echoes:
  assumes "print_cwd lib w = Some w1" and "lib_read lib 0 256 w1 = (int (Suc (length s)), s @ [c], w2)"
    and "0 \<notin> set s" and "length s < 256" and "length inp = 256" and "length buf = 256" and "length args = 64"
    and "take 63 (words s) = bytes_of ''echo'' # ws" and "ws \<noteq> []"
  shows "((\<forall>v \<in> set ws. \<not> redirection v) \<longrightarrow> (\<exists>inp' buf' args'. shell_round lib status inp buf args w =
      Some (1, inp', buf', args', lib_write lib 1 (bytes_of ''\<newline>'') (lib_write lib 1 (unwords ws) w2)))) \<and>
    (\<forall>vs x y ys fd w3. ws = vs @ x # y # ys \<and> (\<forall>v \<in> set vs. \<not> redirection v) \<and> redirection x \<and>
      lib_fopen lib y (if x = bytes_of ''>'' then ''w+'' else ''a'') w2 = (Some fd, w3) \<longrightarrow>
      (\<exists>inp' buf' args'. shell_round lib status inp buf args w =
        Some (1, inp', buf', args', lib_fclose lib fd (lib_fwrite lib fd (unwords vs) w3))))"
  using echo_turn[OF assms] by blast

text \<open>The lines \<open>echo a\<close> and \<open>echo a > f\<close>.\<close>

definition echo_line :: bytes where
  "echo_line = [0x65, 0x63, 0x68, 0x6F, 0x20, 0x61]"

definition redirected_line :: bytes where
  "redirected_line = echo_line @ [0x20, 0x3E, 0x20, 0x66]"

lemma echo_line_words:
  "take 63 (words echo_line) = bytes_of ''echo'' # [[0x61]]"
  "take 63 (words redirected_line) = bytes_of ''echo'' # [[0x61], [0x3E], [0x66]]"
proof -
  have "words echo_line = [[0x65, 0x63, 0x68, 0x6F], [0x61]]"
    unfolding echo_line_def by (subst words.simps, simp add: iso_isspace_def Let_def)+
  then show "take 63 (words echo_line) = bytes_of ''echo'' # [[0x61]]" by (simp add: bytes_of_def)
  have "words redirected_line = [[0x65, 0x63, 0x68, 0x6F], [0x61], [0x3E], [0x66]]"
    unfolding redirected_line_def echo_line_def append.simps by (subst words.simps, simp add: iso_isspace_def Let_def)+
  then show "take 63 (words redirected_line) = bytes_of ''echo'' # [[0x61], [0x3E], [0x66]]" by (simp add: bytes_of_def)
qed

lemma lib_example_round:
  "print_cwd (lib_example l) [] = Some (bytes_of ''DBOLOS Unknown path>'')"
  "lib_read (lib_example (l @ [c])) 0 256 w = (int (Suc (length l)), l @ [c], w)"
  by (simp_all add: print_cwd_def lib_example_def MAX_PATH_def iso_strcpy_def c_str_def bytes_of_def iso_string_def)

theorem shell_echoes_witness:
  "(\<exists>inp' buf' args'. shell_round (lib_example (echo_line @ [0x0A])) 1 (replicate 256 0) (replicate 256 0) (replicate 64 None) [] =
      Some (1, inp', buf', args', lib_write (lib_example (echo_line @ [0x0A])) 1 (bytes_of ''\<newline>'')
        (lib_write (lib_example (echo_line @ [0x0A])) 1 (unwords [[0x61]]) (bytes_of ''DBOLOS Unknown path>'')))) \<and>
   (\<exists>inp' buf' args'. shell_round (lib_example (redirected_line @ [0x0A])) 1 (replicate 256 0) (replicate 256 0) (replicate 64 None) [] =
      Some (1, inp', buf', args', lib_fclose (lib_example (redirected_line @ [0x0A])) 3
        (lib_fwrite (lib_example (redirected_line @ [0x0A])) 3 (unwords [[0x61]]) (bytes_of ''DBOLOS Unknown path>''))))"
proof (rule conjI, goal_cases plain redirected)
  case plain
  have "\<not> redirection [0x61]" by (simp add: redirection_def bytes_of_def)
  then show ?case
    using shell_echoes[OF lib_example_round _ _ _ _ _ echo_line_words(1), THEN conjunct1, rule_format,
        where c = "0x0A" and inp = "replicate 256 0" and buf = "replicate 256 0" and args = "replicate 64 None" and status = 1]
    by (simp add: echo_line_def)
next
  case redirected
  have "\<not> redirection [0x61]" "redirection [0x3E]" by (simp_all add: redirection_def bytes_of_def)
  moreover have "lib_fopen (lib_example l) y m w = (Some 3, w)" for l y m w by (simp add: lib_example_def)
  moreover have "0 \<notin> set redirected_line" "length redirected_line < 256" by (simp_all add: redirected_line_def echo_line_def)
  ultimately show ?case
    by (intro shell_echoes[OF lib_example_round _ _ _ _ _ echo_line_words(2), THEN conjunct2, rule_format,
        where vs = "[[0x61]]" and x = "[0x3E]" and y = "[0x66]" and ys = "[]"] conjI) simp_all
qed

text \<open>A read that fails ends the shell in an access outside its buffer: \<open>start_shell\<close> takes the negative result of
  \<open>read\<close> for an unsigned length, finds it positive, and stores the terminator that far behind the start
  of the input buffer instead of reporting the error.\<close>

lemma shell_read_error_out_of_bounds:
  assumes "print_cwd lib w = Some w1" and "lib_read lib 0 256 w1 = (r, data, w2)" and "r < 0" and "- (2 ^ 31) \<le> r"
    and "length inp = 256"
  shows "shell_round lib status inp arg_buffer args w = None"
proof -
  have m: "r mod 2 ^ 32 = 2 ^ 32 + r"
  proof -
    have "(r + 2 ^ 32) mod 2 ^ 32 = r + 2 ^ 32" using assms(3,4) by (intro mod_pos_pos_trivial) simp_all
    then show ?thesis by simp
  qed
  have m1: "(r - 1) mod 2 ^ 32 = 2 ^ 32 + r - 1"
  proof -
    have "(r - 1 + 2 ^ 32) mod 2 ^ 32 = r - 1 + 2 ^ 32" using assms(3,4) by (intro mod_pos_pos_trivial) simp_all
    then show ?thesis by (simp only: mod_add_self2)
  qed
  let ?len = "word_of_int r :: u32"
  have "uint ?len = 2 ^ 32 + r" using m by (simp add: uint_word_of_int)
  then have pos: "0 < ?len" using assms(4) by (simp add: word_less_def)
  have "?len - 1 = word_of_int (r - 1)" by simp
  moreover have "uint (word_of_int (r - 1) :: u32) = (r - 1) mod 2 ^ 32" by (simp only: uint_word_of_int) simp
  ultimately have "uint (?len - 1) = 2 ^ 32 + r - 1" using m1 by metis
  then have "int 256 \<le> uint (?len - 1)" using assms(4) by simp
  then have "int 256 \<le> int (unat (?len - 1))" by (simp only: of_nat_unat)
  then have big: "256 \<le> unat (?len - 1)" by (simp only: of_nat_le_iff)
  show ?thesis
  proof (cases "iso_memcpy inp data (length data)")
    case None
    then show ?thesis using assms(1,2) by (simp add: shell_round_def MAX_INPUT_LENGTH_def)
  next
    case (Some inp')
    then have "length inp' = 256" using assms(5) by (auto simp: iso_memcpy_def split: if_splits)
    then have "arr_set inp' (unat (?len - 1)) 0 = None" using big by (simp add: arr_set_def)
    then show ?thesis
      using assms(1,2) Some pos unfolding shell_round_def MAX_INPUT_LENGTH_def
      by (simp only: bind.bind_lunit prod.case Let_def if_True bind.bind_lzero)
  qed
qed

text \<open>The prompt shows the path exactly when there is none: the test of \<open>getcwd\<close> is inverted.\<close>

lemma print_cwd_unknown:
  assumes "lib_getcwd lib (replicate MAX_PATH 0) w = (True, cwd, w1)" and "length cwd = 256"
  shows "print_cwd lib w = Some (lib_print lib (bytes_of ''DBOLOS Unknown path>'') w1)"
  using assms by (simp add: print_cwd_def iso_strcpy_def c_str_def bytes_of_def iso_string_def)

end
