(* ===== verification/Startup.thy ===== *)
theory Startup
  imports Syscalls Elf FatMount
begin

text \<open>
  The entry of the kernel, \<open>kernel.c\<close>: the order in which \<open>kmain\<close> brings up the components, with its early
  returns, and the start-up animation. The end of \<open>kmain\<close> is an endless loop that interrupts leave; the
  flag of the result says whether that loop is reached.

  The tables of interrupt gates and the disk driver belong to no other component of the kernel state; they
  are in the record \<open>startup\<close>.

  \<open>kmain\<close> begins with \<open>cli\<close>, but \<open>idt_init\<close> ends with \<open>enable_interrupts()\<close>: from there on interrupts are on, long
  before the \<open>sti\<close> at the end. No device line is open at first; the timer's is from \<open>pit_init\<close> on and
  the keyboard's from \<open>keyboard_init\<close> on. The definitions here are the start-up between interrupts: a
  timer interrupt before \<open>enable_processes\<close> only counts (\<open>timer_irq_before_start\<close>), a key before the
  terminal is active writes through a NULL pointer (\<open>key_before_terminal_null\<close>).
\<close>

section \<open>The start-up animation\<close>

definition VGA_COLOR_BLUE :: u8 where "VGA_COLOR_BLUE = 0x1"
definition VGA_COLOR_GREEN :: u8 where "VGA_COLOR_GREEN = 0x2"
definition VGA_COLOR_CYAN :: u8 where "VGA_COLOR_CYAN = 0x3"
definition VGA_COLOR_MAGENTA :: u8 where "VGA_COLOR_MAGENTA = 0x5"
definition VGA_COLOR_LIGHT_GREY :: u8 where "VGA_COLOR_LIGHT_GREY = 0x7"
definition VGA_COLOR_LIGHT_BLUE :: u8 where "VGA_COLOR_LIGHT_BLUE = 0x9"
definition VGA_COLOR_LIGHT_GREEN :: u8 where "VGA_COLOR_LIGHT_GREEN = 0xA"
definition VGA_COLOR_LIGHT_CYAN :: u8 where "VGA_COLOR_LIGHT_CYAN = 0xB"
definition VGA_COLOR_LIGHT_RED :: u8 where "VGA_COLOR_LIGHT_RED = 0xC"
definition VGA_COLOR_YELLOW :: u8 where "VGA_COLOR_YELLOW = 0xE"

definition startup_msgs :: "string list" where
  "startup_msgs = [
     ''BOOTING SYSTEM'',
     ''INITIALIZING CORE MODULES'',
     ''LOADING KERNEL'',
     ''CHECKING HARDWARE INTEGRITY'',
     ''PREPARING MEMORY MANAGEMENT'',
     ''STARTING INTERRUPT HANDLERS'',
     ''CONFIGURING DEVICE DRIVERS'',
     ''INITIALIZING STORAGE SYSTEMS'',
     ''ESTABLISHING NETWORK PROTOCOLS'',
     ''PREPARING FILE SYSTEMS'',
     ''LOADING SYSTEM CACHE'',
     ''VERIFYING SYSTEM SIGNATURES'',
     ''INITIALIZING SECURITY MODULES'',
     ''PREPARING RUNTIME ENVIRONMENT'',
     ''LOADING SYSTEM LIBRARIES'',
     ''CONFIGURING USER PERMISSIONS'',
     ''CHECKING SYSTEM CLOCK'',
     ''INITIALIZING GRAPHICS SUBSYSTEM'',
     ''LOADING INPUT DEVICE DRIVERS'',
     ''PREPARING POWER MANAGEMENT'',
     ''FINAL SYSTEM CHECKS'',
     ''SYSTEM READY'']"

definition bg_colors :: "u8 list" where
  "bg_colors = [VGA_COLOR_GREEN, VGA_COLOR_BLUE, VGA_COLOR_CYAN, VGA_COLOR_MAGENTA, VGA_COLOR_LIGHT_BLUE,
     VGA_COLOR_LIGHT_GREEN]"

definition text_colors :: "u8 list" where
  "text_colors = [VGA_COLOR_WHITE, VGA_COLOR_YELLOW, VGA_COLOR_LIGHT_GREY, VGA_COLOR_LIGHT_RED,
     VGA_COLOR_LIGHT_CYAN, VGA_COLOR_PINK]"

text \<open>The loops count down the rounds that are left; \<open>fill_blank\<close> is the loop before and after the messages.\<close>

fun fill_blank :: "nat \<Rightarrow> vga \<Rightarrow> vga option" where
  "fill_blank 0 s = Some s"
| "fill_blank (Suc n) s = do {
     s \<leftarrow> vga_putchar_colored 0x20 VGA_COLOR_BLACK VGA_COLOR_BLACK s;
     fill_blank n s
   }"

definition filler_char :: "nat \<Rightarrow> u8" where
  "filler_char j = (if j mod 3 = 0 then 0x20 else if j mod 3 = 1 then 0x2E else 0x2D)"

fun filler_loop :: "nat \<Rightarrow> nat \<Rightarrow> nat \<Rightarrow> nat \<Rightarrow> vga \<Rightarrow> vga option" where
  "filler_loop cycle msg_idx j 0 s = Some s"
| "filler_loop cycle msg_idx j (Suc n) s = do {
     s \<leftarrow> vga_putchar_colored (filler_char j)
            (bg_colors ! ((j + cycle) mod length bg_colors))
            (text_colors ! ((j + msg_idx) mod length text_colors)) s;
     filler_loop cycle msg_idx (Suc j) n s
   }"

fun message_loop :: "nat \<Rightarrow> nat \<Rightarrow> string list \<Rightarrow> vga \<Rightarrow> vga option" where
  "message_loop cycle msg_idx [] s = Some s"
| "message_loop cycle msg_idx (m # ms) s = do {
     s \<leftarrow> vga_putstring_colored (c_str m)
            (bg_colors ! ((cycle + msg_idx) mod length bg_colors))
            (text_colors ! ((msg_idx + cycle) mod length text_colors)) s;
     s \<leftarrow> filler_loop cycle msg_idx 0 (cycle mod 15) s;
     message_loop cycle (Suc msg_idx) ms s
   }"

fun cycle_loop :: "nat \<Rightarrow> nat \<Rightarrow> vga \<Rightarrow> vga option" where
  "cycle_loop cycle 0 s = Some s"
| "cycle_loop cycle (Suc n) s = do {
     s \<leftarrow> message_loop cycle 0 startup_msgs s;
     cycle_loop (Suc cycle) n s
   }"

definition system_startup_animation :: "vga \<Rightarrow> vga option" where
  "system_startup_animation s = do {
     s \<leftarrow> fill_blank (screen_height * screen_width) s;
     let s = move_cursor 0 0 s;
     s \<leftarrow> cycle_loop 0 150 s;
     s \<leftarrow> fill_blank (screen_height * screen_width) s;
     Some (move_cursor 0 0 s)
   }"

declare fill_blank.simps(2) [simp del] filler_loop.simps(2) [simp del] cycle_loop.simps(2) [simp del]
  message_loop.simps(2) [simp del]

section \<open>The kernel's entry\<close>

record 'd startup =
  kern :: kernel
  idt_table :: "idt_entry list"
  hard_disk :: "'d ata"

definition on_screen :: "(vga \<Rightarrow> vga option) \<Rightarrow> kernel \<Rightarrow> kernel option" where
  "on_screen f k = do { v \<leftarrow> f (screen k); Some (k\<lparr>screen := v\<rparr>) }"

text \<open>Down to the message of the disk driver. \<open>first_int_handlers\<close> are the entry points in assembly.\<close>

definition kmain_devices :: "u32 list \<Rightarrow> 'd port_io \<Rightarrow> 'd startup \<Rightarrow> 'd startup option" where
  "kmain_devices first_int_handlers io s = do {
     let k = kern s;
     c \<leftarrow> gdt_init (kcpu k);
     k \<leftarrow> on_screen vga_init (k\<lparr>kcpu := c\<rparr>);
     (idt, p) \<leftarrow> idt_init first_int_handlers pics (idt_table s) (pic_chips k);
     k \<leftarrow> on_screen (vga_putstring (c_str ''IDT Initialized\<newline>'')) (k\<lparr>pic_chips := p\<rparr>);
     let a = ata_init io (hard_disk s);
     k \<leftarrow> on_screen (vga_putstring (c_str ''ATA driver Initialized\<newline>'')) k;
     Some \<lparr>kern = k, idt_table = idt, hard_disk = a\<rparr>
   }"

text \<open>Frames and heap; \<open>False\<close> is an early return. \<open>mem\<close> is the memory that holds the boot loader's map.\<close>

definition kmain_memory :: "(u32 \<Rightarrow> u8) \<Rightarrow> multiboot_info option \<Rightarrow> kernel \<Rightarrow> (bool \<times> kernel) option" where
  "kmain_memory mem mbi k = do {
     (st, p) \<leftarrow> pmm_init mem mbi (frames (vmem (kheap k)));
     let k = k\<lparr>kheap := (kheap k)\<lparr>vmem := (vmem (kheap k))\<lparr>frames := p\<rparr>\<rparr>\<rparr>;
     if st \<noteq> PMM_SUCCESS then do {
       k \<leftarrow> on_screen (vga_printf (c_str ''failed pmm init'') []) k;
       Some (False, k)
     } else do {
       (ok, h) \<leftarrow> heap_init (kheap k);
       let k = k\<lparr>kheap := h\<rparr>;
       if \<not> ok then do {
         k \<leftarrow> on_screen (vga_printf (c_str ''failed heap init'') []) k;
         Some (False, k)
       } else Some (True, k)
     }
   }"

text \<open>From the timer to the active terminal. The result of \<open>fat_init\<close> is not looked at.\<close>

definition kmain_services :: "kernel \<Rightarrow> kernel option" where
  "kmain_services k = do {
     let k = pit_init k;
     (_, f) \<leftarrow> fat_init (kfat k);
     let k = keyboard_init (k\<lparr>kfat := f\<rparr>);
     let k = syscall_init k;
     k \<leftarrow> proc_manager_init k;
     (tid, k) \<leftarrow> create_terminal 1 k;
     (_, k) \<leftarrow> set_active_terminal tid k;
     Some k
   }"

text \<open>The first two processes; their results are not looked at either.\<close>

definition kmain_processes :: "process \<Rightarrow> process \<Rightarrow> kernel \<Rightarrow> kernel option" where
  "kmain_processes junk1 junk2 k = do {
     k \<leftarrow> on_screen system_startup_animation k;
     k \<leftarrow> on_screen vga_init k;
     (_, k) \<leftarrow> create_kernelmode_process junk1 (c_str ''/dummy'') k;
     (_, k) \<leftarrow> create_usermode_process junk2 (c_str ''/main'') k;
     Some (enable_processes k)
   }"

definition kmain ::
    "u32 list \<Rightarrow> 'd port_io \<Rightarrow> (u32 \<Rightarrow> u8) \<Rightarrow> process \<Rightarrow> process \<Rightarrow> multiboot_info option \<Rightarrow> 'd startup \<Rightarrow>
     (bool \<times> 'd startup) option" where
  "kmain first_int_handlers io mem junk1 junk2 mbi s = do {
     s \<leftarrow> kmain_devices first_int_handlers io s;
     (ok, k) \<leftarrow> kmain_memory mem mbi (kern s);
     if \<not> ok then Some (False, s\<lparr>kern := k\<rparr>)
     else do {
       k \<leftarrow> kmain_services k;
       k \<leftarrow> kmain_processes junk1 junk2 k;
       Some (True, s\<lparr>kern := k\<rparr>)
     }
   }"

end
