(* ===== verification/StartupCorrect.thy ===== *)
theory StartupCorrect
  imports Startup
begin

text \<open>
  What the start-up of the kernel establishes: the memory managers on top of the boot loader's memory map and the
  boot page tables, the services and their interrupt handlers, and the screen.
\<close>

section \<open>The animation\<close>

definition blank :: "vga_char \<Rightarrow> bool" where
  "blank c \<longleftrightarrow> ascii_code c = 0x20"

lemma update_cursor_buffer [simp]: "vga_buffer (update_cursor s) = vga_buffer s" "vga_pos (update_cursor s) = vga_pos s"
  by (simp_all add: update_cursor_def move_cursor_def vga_out_def vga_pos_def Let_def)

lemma vga_ok_update_cursor [simp]: "vga_ok (update_cursor s) = vga_ok s"
  by (simp add: vga_ok_def)

lemma vga_pos_le: "vga_ok s \<Longrightarrow> vga_pos s \<le> 2000"
  by (simp add: vga_ok_def vga_pos_def screen_width_def)

text \<open>A space, seen on the cells as one sequence: on a full screen the lines move up first.\<close>

lemma put_space:
  assumes "vga_ok s"
  shows "\<exists>s' ch. vga_putchar_colored 0x20 bg fg s = Some s' \<and> vga_ok s' \<and> blank ch \<and>
    (if vga_pos s < 2000 then vga_pos s' = Suc (vga_pos s) \<and> vga_buffer s' = (vga_buffer s)[vga_pos s := ch]
     else vga_pos s' = 1921 \<and> vga_buffer s' = (drop 80 (vga_buffer s) @ replicate 80 emptyChar)[1920 := ch])"
proof -
  note ok = vga_okE[OF assms]
  define t where "t = (if unat (vga_curr_column s) = 80
      then if unat (vga_curr_row s) = 24
        then s\<lparr>vga_curr_column := 0, vga_buffer := drop 80 (vga_buffer s) @ replicate 80 emptyChar\<rparr>
        else s\<lparr>vga_curr_column := 0, vga_curr_row := vga_curr_row s + 1\<rparr>
      else s)"
  let ?ch = "\<lparr>ascii_code = 0x20, color = fg OR push_bit 4 bg\<rparr>"
  let ?t = "t\<lparr>vga_buffer := (vga_buffer t)[vga_pos t := ?ch], vga_curr_column := vga_curr_column t + 1\<rparr>"
  have t: "vga_ok t" "unat (vga_curr_column t) < 80" using ok by (auto simp: t_def vga_ok_def unat_Suc_u16)
  have "vga_putchar_colored 0x20 bg fg s = do {
      s \<leftarrow> vga_store (vga_pos t) ?ch t; Some (update_cursor (s\<lparr>vga_curr_column := vga_curr_column s + 1\<rparr>)) }"
    using ok by (simp add: vga_putchar_colored_def t_def vga_simps vga_line_down_def Let_def)
  then have "vga_putchar_colored 0x20 bg fg s = Some (update_cursor ?t)"
    using vga_store_abs(1)[OF t] by simp
  moreover have "vga_ok ?t" using t by (simp add: vga_ok_def unat_Suc_u16)
  moreover have "vga_pos ?t = Suc (vga_pos t)" using t by (simp add: vga_pos_def unat_Suc_u16)
  moreover have "if vga_pos s < 2000 then vga_pos t = vga_pos s \<and> vga_buffer t = vga_buffer s
      else vga_pos t = 1920 \<and> vga_buffer t = drop 80 (vga_buffer s) @ replicate 80 emptyChar"
    using ok by (auto simp: t_def vga_pos_def screen_width_def unat_Suc_u16)
  ultimately show ?thesis
    by (intro exI[of _ "update_cursor ?t"] exI[of _ ?ch]) (simp add: blank_def split: if_splits)
qed

definition blanked :: "nat \<Rightarrow> nat \<Rightarrow> vga \<Rightarrow> bool" where
  "blanked p k s \<longleftrightarrow> vga_ok s \<and> (0 < k \<longrightarrow> 0 < vga_pos s) \<and>
     (\<forall>q < 2000. vga_pos s \<le> q + k \<and> q < vga_pos s \<longrightarrow> blank (vga_buffer s ! q)) \<and>
     (vga_pos s = p + k \<or> (\<forall>q < 2000. vga_pos s \<le> q \<longrightarrow> blank (vga_buffer s ! q)))"

lemma blanked_step:
  assumes "blanked p k s"
  shows "\<exists>s'. vga_putchar_colored 0x20 bg fg s = Some s' \<and> blanked p (Suc k) s'"
proof -
  have ok: "vga_ok s" using assms by (simp add: blanked_def)
  obtain s' ch where s': "vga_putchar_colored 0x20 bg fg s = Some s'" "vga_ok s'" "blank ch"
    "if vga_pos s < 2000 then vga_pos s' = Suc (vga_pos s) \<and> vga_buffer s' = (vga_buffer s)[vga_pos s := ch]
     else vga_pos s' = 1921 \<and> vga_buffer s' = (drop 80 (vga_buffer s) @ replicate 80 emptyChar)[1920 := ch]"
    using put_space[OF ok] by blast
  have e: "blank emptyChar" by (simp add: blank_def emptyChar_def)
  have "blanked p (Suc k) s'"
  proof (cases "vga_pos s < 2000")
    case True
    then show ?thesis using assms s' vga_okE(1)[OF ok]
      by (auto simp: blanked_def nth_list_update)
  next
    case False
    then have p: "vga_pos s = 2000" using vga_pos_le[OF ok] by simp
    have b: "vga_buffer s' ! q = (if q = 1920 then ch else if q < 1920 then vga_buffer s ! (q + 80) else emptyChar)"
      if "q < 2000" for q
      using False s'(4) vga_okE(1)[OF ok] that by (auto simp: nth_list_update nth_append ac_simps)
    have p': "vga_pos s' = 1921" using s'(4) False by simp
    have "blank (vga_buffer s' ! q)" if "q < 2000" "1921 \<le> q + Suc k" for q
    proof (cases "q < 1920")
      case True
      then show ?thesis using assms that p b[OF that(1)] by (simp add: blanked_def)
    qed (use b[OF that(1)] s'(3) e in simp)
    moreover have "blank (vga_buffer s' ! q)" if "q < 2000" "1921 \<le> q" for q
      using b[OF that(1)] that e by simp
    ultimately show ?thesis using s'(2) p' by (simp add: blanked_def)
  qed
  then show ?thesis using s'(1) by blast
qed

lemma fill_blank_blanked:
  "blanked p k s \<Longrightarrow> \<exists>s'. fill_blank n s = Some s' \<and> blanked p (k + n) s'"
proof (induction n arbitrary: k s)
  case (Suc n)
  then obtain s1 where "vga_putchar_colored 0x20 VGA_COLOR_BLACK VGA_COLOR_BLACK s = Some s1" "blanked p (Suc k) s1"
    using blanked_step by blast
  then show ?case using Suc.IH[of "Suc k" s1] by (simp add: fill_blank.simps)
qed auto

lemma fill_blank_screen:
  assumes "vga_ok s"
  shows "\<exists>s'. fill_blank (screen_height * screen_width) s = Some s' \<and> vga_ok s' \<and> 0 < vga_pos s' \<and>
    (\<forall>c \<in> set (vga_buffer s'). blank c)"
proof -
  have "blanked (vga_pos s) 0 s" using assms by (auto simp: blanked_def)
  then obtain s' where s': "fill_blank 2000 s = Some s'" "blanked (vga_pos s) 2000 s'"
    using fill_blank_blanked[of "vga_pos s" 0 s 2000] by auto
  have "blank (vga_buffer s' ! q)" if "q < 2000" for q
    using s'(2) that vga_pos_le[of s'] by (cases "q < vga_pos s'") (auto simp: blanked_def)
  then show ?thesis using s' by (auto simp: blanked_def vga_ok_def in_set_conv_nth screen_height_def screen_width_def)
qed

text \<open>The messages leave the screen well formed, whatever it shows.\<close>

lemma put_colored_ok: "vga_ok s \<Longrightarrow> \<exists>s'. vga_putchar_colored c bg fg s = Some s' \<and> vga_ok s'"
  by (rule vga_putchar_colored_abs[of s c bg fg]) auto

lemma filler_loop_ok: "vga_ok s \<Longrightarrow> \<exists>s'. filler_loop cycle m j n s = Some s' \<and> vga_ok s'"
proof (induction n arbitrary: j s)
  case (Suc n)
  obtain s1 where "vga_putchar_colored (filler_char j) (bg_colors ! ((j + cycle) mod length bg_colors))
      (text_colors ! ((j + m) mod length text_colors)) s = Some s1" "vga_ok s1"
    using put_colored_ok[OF Suc.prems] by blast
  then show ?case using Suc.IH[of s1 "Suc j"] by (simp add: filler_loop.simps)
qed simp

lemma putstring_ok:
  assumes "vga_ok s" and "0 \<notin> set (bytes_of m)"
  shows "\<exists>s'. vga_putstring_colored (c_str m) bg fg s = Some s' \<and> vga_ok s'"
  using putstring_abs[OF assms, of "[]"] by (auto simp: c_str_def)

lemma message_loop_ok:
  "vga_ok s \<Longrightarrow> \<forall>m \<in> set ms. 0 \<notin> set (bytes_of m) \<Longrightarrow> \<exists>s'. message_loop cycle i ms s = Some s' \<and> vga_ok s'"
proof (induction ms arbitrary: i s)
  case (Cons m ms)
  obtain s1 where s1: "vga_putstring_colored (c_str m) (bg_colors ! ((cycle + i) mod length bg_colors))
      (text_colors ! ((i + cycle) mod length text_colors)) s = Some s1" "vga_ok s1"
    using putstring_ok[OF Cons.prems(1)] Cons.prems(2) by fastforce
  obtain s2 where s2: "filler_loop cycle i 0 (cycle mod 15) s1 = Some s2" "vga_ok s2"
    using filler_loop_ok[OF s1(2)] by blast
  show ?case using Cons.IH[OF s2(2), of "Suc i"] Cons.prems(2) s1 s2 by (simp add: message_loop.simps)
qed simp

lemma cycle_loop_ok: "vga_ok s \<Longrightarrow> \<exists>s'. cycle_loop cycle n s = Some s' \<and> vga_ok s'"
proof (induction n arbitrary: cycle s)
  case (Suc n)
  have "\<forall>m \<in> set startup_msgs. 0 \<notin> set (bytes_of m)" by (simp add: startup_msgs_def bytes_of_def)
  then obtain s1 where "message_loop cycle 0 startup_msgs s = Some s1" "vga_ok s1"
    using message_loop_ok[OF Suc.prems] by blast
  then show ?case using Suc.IH[of s1 "Suc cycle"] by (simp add: cycle_loop.simps)
qed simp

lemma move_cursor_fields [simp]:
  "vga_buffer (move_cursor x y s) = vga_buffer s" "vga_ok (move_cursor x y s) = vga_ok s"
  "vga_pos (move_cursor x y s) = vga_pos s"
  by (simp_all add: move_cursor_def vga_out_def vga_ok_def vga_pos_def Let_def)

text \<open>C39. The animation of the start-up ends, wherever the cursor was, with a space in every cell, and the display controller
  shows the cursor in the upper left corner; the cell that the next character goes to is another one.\<close>

theorem system_startup_animation_clears:
  assumes "vga_ok s"
  shows "\<exists>s'. system_startup_animation s = Some s' \<and> vga_ok s' \<and> (\<forall>c \<in> set (vga_buffer s'). blank c) \<and>
    crtc_pos (port_writes s') = Some 0 \<and> 0 < vga_pos s'"
proof -
  obtain s1 where s1: "fill_blank (screen_height * screen_width) s = Some s1" "vga_ok s1"
    using fill_blank_screen[OF assms] by blast
  obtain s2 where s2: "cycle_loop 0 150 (move_cursor 0 0 s1) = Some s2" "vga_ok s2"
    using cycle_loop_ok[of "move_cursor 0 0 s1" 0 150] s1(2) by auto
  obtain s3 where s3: "fill_blank (screen_height * screen_width) s2 = Some s3" "vga_ok s3" "0 < vga_pos s3"
    "\<forall>c \<in> set (vga_buffer s3). blank c"
    using fill_blank_screen[OF s2(2)] by blast
  show ?thesis using s1 s2 s3
    by (simp add: system_startup_animation_def) (simp add: move_cursor_def vga_out_def)
qed

theorem system_startup_animation_clears_witness:
  "\<exists>s'. system_startup_animation vga_example = Some s' \<and> vga_ok s' \<and> (\<forall>c \<in> set (vga_buffer s'). blank c) \<and>
    crtc_pos (port_writes s') = Some 0 \<and> 0 < vga_pos s'"
  using system_startup_animation_clears[OF vga_example_ok] .

section \<open>Frames and heap\<close>

lemma set_region_max_pages:
  assumes "\<And>i p q. f i p = Some q \<Longrightarrow> max_pages q = max_pages p"
  shows "set_region f i n p = Some q \<Longrightarrow> max_pages q = max_pages p"
  by (induction n arbitrary: i p) (auto dest: assms split: bind_splits)

lemma set_status_max_pages:
  "set_free i p = Some q \<Longrightarrow> max_pages q = max_pages p" "set_occupied i p = Some q \<Longrightarrow> max_pages q = max_pages p"
  by (auto simp: set_free_def set_occupied_def pmm_frame)

lemma region_max_pages:
  "pmm_init_region a l p = Some q \<Longrightarrow> max_pages q = max_pages p"
  "pmm_clear_region a l p = Some q \<Longrightarrow> max_pages q = max_pages p"
  using set_region_max_pages[OF set_status_max_pages(1)] set_region_max_pages[OF set_status_max_pages(2)]
  by (auto simp: pmm_init_region_def pmm_clear_region_def Let_def split: bind_splits)

lemma mmap_loop_max_pages:
  assumes "mmap_loop mem a e p = Some q"
  shows "max_pages q = max_pages p"
  by (rule mmap_loop.raw_induct[where P = "\<lambda>mem a e p q. max_pages q = max_pages p", OF _ assms])
    (fastforce dest: region_max_pages split: if_splits bind_splits)

text \<open>What \<open>pmm_init\<close> leaves: the bitmap of the whole address space, and as many frames as the boot loader counts.\<close>

lemma pmm_init_frames:
  assumes "pmm_init mem (Some m) p = Some (PMM_SUCCESS, q)"
  shows "capacity q = 2 ^ 20" and "max_pages q = max_pages (pmm_boot m p)"
proof -
  from assms have i: "\<not> is_initialized p" by (auto simp: pmm_init_def split: if_splits)
  with assms obtain p1 p2 where p: "mmap_loop mem (mmap_addr m) (mmap_addr m + mmap_length m) (pmm_boot m p) = Some p1"
      "pmm_clear_region 0 0x1800000 p1 = Some p2" "set_occupied 0 (p2\<lparr>is_initialized := True\<rparr>) = Some q"
    by (auto simp: pmm_init_eq split: bind_splits)
  have c1: "capacity p1 = 2 ^ 20" using mmap_loop_capacity[OF p(1)] capacity_pmm_boot by simp
  obtain r where "set_region set_occupied 0 6144 p1 = Some r" "capacity r = 2 ^ 20"
    using set_region_occupied[of 0 6144 p1] c1 by auto
  then have "capacity (p2\<lparr>is_initialized := True\<rparr>) = 2 ^ 20"
    using p(2) by (auto simp: pmm_clear_region_def PMM_PAGE_SIZE_def capacity_def Let_def)
  then show "capacity q = 2 ^ 20" using p(3) by (auto simp: set_occupied_def pmm_frame)
  show "max_pages q = max_pages (pmm_boot m p)"
    using mmap_loop_max_pages[OF p(1)] region_max_pages(2)[OF p(2)] set_status_max_pages(2)[OF p(3)] by simp
qed

lemma boot_pmm_hok:
  assumes "vmem h = init_paging V" and "curr_heap_end h = heap_start" and "pmm_init mem (Some m) p = Some (PMM_SUCCESS, q)"
    and "unat (max_pages q) < 0x3E400"
  shows "hok (h\<lparr>vmem := (vmem h)\<lparr>frames := q\<rparr>\<rparr>)"
proof (rule boot_hok[where s = V and p = q])
  show "pmm_wf q" using pmm_init_frames(1)[OF assms(3)] scanned_le_max[of q] assms(4) by (simp add: pmm_wf_def)
  show "occ q j" if "j < 0x1800" for j using pmm_init_reserves_kernel[OF assms(3)] that by simp
qed (use assms in simp_all)

lemma vga_printf_plain:
  assumes "vga_ok s" and "0 \<notin> set (bytes_of m)" and "0x25 \<notin> set (bytes_of m)"
  shows "\<exists>s'. vga_printf (c_str m) [] s = Some s' \<and> vga_ok s'"
proof -
  have "\<exists>s'. vga_printf (t @ [0]) [] s = Some s' \<and> vga_ok s'" if "0 \<notin> set t" "0x25 \<notin> set t" for t
    using assms(1) that
  proof (induction t arbitrary: s)
    case (Cons c t)
    obtain s1 where "vga_putstring [c, 0] s = Some s1" "vga_ok s1"
      using putstring_abs[OF Cons.prems(1), of "[c]" "[]" VGA_COLOR_BLACK VGA_COLOR_WHITE] Cons.prems(2)
      by (auto simp: vga_putstring_def)
    then show ?case using Cons.IH[of s1] Cons.prems by auto
  qed simp
  then show ?thesis using assms(2,3) by (simp add: c_str_def)
qed


text \<open>The state in which the boot code hands over: the frame manager has not run yet.\<close>

definition startup_example :: kernel where
  "startup_example = kernel_example\<lparr>kheap := heap_example\<lparr>vmem := init_paging (vm_example\<lparr>frames := pmm_info0\<rparr>)\<rparr>\<rparr>"


section \<open>Services\<close>

lemma find_unused_first:
  assumes "i \<le> p" and "p < i + n" and "p < length t" and "\<not> g_used (t ! p)" and "\<forall>j. i \<le> j \<and> j < p \<longrightarrow> g_used (t ! j)"
  shows "find_unused i n t = Some (Some p)"
  using assms
proof (induction i n t rule: find_unused.induct)
  case (2 i n t)
  then show ?case by (cases "i = p") (auto simp: arr_simps)
qed simp

text \<open>The first terminal takes the first three descriptors behind the standard ones.\<close>

lemma create_first_terminal:
  assumes "terminals k = t # ts" and "t_id t = 0"
    and "length (global_fd_table k) = 256" and "\<forall>i < 256. g_used (global_fd_table k ! i) \<longleftrightarrow> i < 3"
  shows "\<exists>k' t'. create_terminal ppid k = Some (1, k') \<and> k' = k\<lparr>terminals := t' # ts, global_fd_table := global_fd_table k'\<rparr> \<and>
    t_id t' = 1 \<and> input_len t' = 0 \<and> \<not> is_input_ready t' \<and> parent_process_pid t' = ppid \<and>
    t_stdin t' = Some 3 \<and> t_stdout t' = Some 4 \<and> t_stderr t' = Some 5 \<and>
    length (global_fd_table k') = 256 \<and> (\<forall>i < 256. g_used (global_fd_table k' ! i) \<longleftrightarrow> i < 6) \<and>
    g_read (global_fd_table k' ! 3) = Some Read_terminal_input"
proof -
  let ?d = "zero_global_fd\<lparr>ref_count := 1, is_device := True, g_used := True\<rparr>"
  let ?t = "t\<lparr>t_id := 1, input_buf := replicate INPUT_BUFFER_SIZE 0, is_input_ready := False, parent_process_pid := ppid\<rparr>"
  have alloc: "allocate_device_fd s = Some (Some p, s\<lparr>global_fd_table := (global_fd_table s)[p := ?d]\<rparr>)"
    if "length (global_fd_table s) = 256" "\<forall>i < 256. g_used (global_fd_table s ! i) \<longleftrightarrow> i < p" "p < 256" for s p
  proof -
    have "find_unused 0 256 (global_fd_table s) = Some (Some p)" using that by (intro find_unused_first) auto
    then show ?thesis using that by (simp add: allocate_device_fd_def MAX_FD_def gfd_set_def arr_simps)
  qed
  define g where "g = global_fd_table k"
  define g1 where "g1 = g[3 := ?d]"
  define g2 where "g2 = g1[4 := ?d]"
  define g3 where "g3 = g2[5 := ?d]"
  have u: "length g = 256" "\<forall>i < 256. g_used (g ! i) \<longleftrightarrow> i < 3" using assms by (simp_all add: g_def)
  have u1: "length g1 = 256" "\<forall>i < 256. g_used (g1 ! i) \<longleftrightarrow> i < 4" using u by (auto simp: g1_def nth_list_update)
  have u2: "length g2 = 256" "\<forall>i < 256. g_used (g2 ! i) \<longleftrightarrow> i < 5" using u1 by (auto simp: g2_def nth_list_update)
  have u3: "length g3 = 256" "\<forall>i < 256. g_used (g3 ! i) \<longleftrightarrow> i < 6" using u2 by (auto simp: g3_def nth_list_update)
  have a: "allocate_device_fd (k\<lparr>terminals := T\<rparr>) = Some (Some 3, k\<lparr>terminals := T, global_fd_table := g1\<rparr>)"
      "allocate_device_fd (k\<lparr>terminals := T, global_fd_table := g1\<rparr>) = Some (Some 4, k\<lparr>terminals := T, global_fd_table := g2\<rparr>)"
      "allocate_device_fd (k\<lparr>terminals := T, global_fd_table := g2\<rparr>) = Some (Some 5, k\<lparr>terminals := T, global_fd_table := g3\<rparr>)" for T
    using u u1 u2 alloc[of "k\<lparr>terminals := T\<rparr>" 3] alloc[of "k\<lparr>terminals := T, global_fd_table := g1\<rparr>" 4]
      alloc[of "k\<lparr>terminals := T, global_fd_table := g2\<rparr>" 5] unfolding g1_def g2_def g3_def by (simp_all add: g_def)
  let ?T = "?t\<lparr>t_stdin := Some 3, t_stdout := Some 4, t_stderr := Some 5, input_len := 0\<rparr>"
  let ?k = "k\<lparr>terminals := ?T # ts, global_fd_table := g3[3 := (g3 ! 3)\<lparr>g_read := Some Read_terminal_input\<rparr>]\<rparr>"
  have "create_terminal ppid k = Some (1, ?k)"
    using assms(1,2) u3(1) by (simp add: create_terminal_def term_set_def term_get_def arr_simps a gfd_set_def)
  then show ?thesis using u3 by (intro exI[of _ ?k] exI[of _ ?T]) (auto simp: nth_list_update)
qed

text \<open>What the services start from: empty tables, a FAT16 volume on the disk that memory is granted for, and the interrupt controllers as
  \<open>idt_init\<close> leaves them, with the line between them open only.\<close>

definition services_off :: "kernel \<Rightarrow> bool" where
  "services_off k \<longleftrightarrow> hdd_ok (disk (kfat k)) \<and> boot_ok (sectors (disk (kfat k)) 0) \<and>
     length (name (root_dir (kfat k))) = 11 \<and> memory_granted (kfat k) (sectors (disk (kfat k)) 0) \<and>
     length (handlers k) = IDT_SIZE \<and> length (syscall_handler_array k) = 256 \<and>
     length (global_fd_table k) = 256 \<and> (\<forall>g \<in> set (global_fd_table k). \<not> g_used g) \<and>
     length (terminals k) = TERMINAL_AMMOUNT \<and> (\<forall>t \<in> set (terminals k). t_id t = 0) \<and>
     c_step (fst (pic_chips k)) = 0 \<and> c_step (snd (pic_chips k)) = 0 \<and> c_mask (fst (pic_chips k)) = 0xFB"

definition vectors :: "isr_handler option list \<Rightarrow> isr_handler option list" where
  "vectors hs = hs[0x20 := Some Timer_irq, 0x21 := Some Keyboard_irq, 0x80 := Some Handle_syscall, 0x69 := Some Switch_process]"

lemma pit_then_keyboard:
  assumes "length (handlers k) = IDT_SIZE" and "c_step (fst (pic_chips k)) = 0" and "c_step (snd (pic_chips k)) = 0"
  shows "\<exists>t. pit_init k = k\<lparr>timer := t, handlers := (handlers k)[0x20 := Some Timer_irq],
      pic_chips := ((fst (pic_chips k))\<lparr>c_mask := unset_bit 0 (c_mask (fst (pic_chips k)))\<rparr>, snd (pic_chips k))\<rparr>"
    and "keyboard_init k = k\<lparr>handlers := (handlers k)[0x21 := Some Keyboard_irq],
      pic_chips := ((fst (pic_chips k))\<lparr>c_mask := unset_bit 1 (c_mask (fst (pic_chips k)))\<rparr>, snd (pic_chips k))\<rparr>"
proof -
  obtain m s where ms: "pic_chips k = (m, s)" by fastforce
  have st: "c_step m = 0" "c_step s = 0" using assms by (simp_all add: ms)
  have out: "io_out_byte pics 0x43 v d = d" "io_out_byte pics 0x40 v d = d" for v d
    by (simp_all add: pics_def io_defs)
  show "\<exists>t. pit_init k = k\<lparr>timer := t, handlers := (handlers k)[0x20 := Some Timer_irq],
      pic_chips := ((fst (pic_chips k))\<lparr>c_mask := unset_bit 0 (c_mask (fst (pic_chips k)))\<rparr>, snd (pic_chips k))\<rparr>"
    using pic_toggle_irq_eq[OF st, of 0 True] assms(1)
    by (intro exI[of _ "fst (pit_program pics (timer k, (m, s)))"])
      (simp add: pit_init_def pit_program_def out register_isr_handler_def PIC1_IRQ_INDEX_def IDT_SIZE_def ms toggle_bit_def Let_def)
  show "keyboard_init k = k\<lparr>handlers := (handlers k)[0x21 := Some Keyboard_irq],
      pic_chips := ((fst (pic_chips k))\<lparr>c_mask := unset_bit 1 (c_mask (fst (pic_chips k)))\<rparr>, snd (pic_chips k))\<rparr>"
    using pic_toggle_irq_eq[OF st, of 1 True] assms(1)
    by (simp add: keyboard_init_def register_isr_handler_def PIC1_IRQ_INDEX_def IDT_SIZE_def ms toggle_bit_def Let_def)
qed

lemma proc_manager_init_eq:
  assumes "length (handlers k) = IDT_SIZE" and "length (global_fd_table k) = 256"
    and "\<forall>g \<in> set (global_fd_table k). \<not> g_used g"
  shows "\<exists>G. proc_manager_init k = Some (k\<lparr>global_fd_table := G, manage_initialized := True,
      handlers := (handlers k)[0x69 := Some Switch_process]\<rparr>) \<and> length G = 256 \<and> (\<forall>i < 256. g_used (G ! i) \<longleftrightarrow> i < 3)"
proof -
  let ?u = "\<lambda>i. (global_fd_table k ! i)\<lparr>g_used := True\<rparr>"
  let ?G = "(global_fd_table k)[0 := ?u 0, 1 := ?u 1, 2 := ?u 2]"
  have "proc_manager_init k = Some (k\<lparr>global_fd_table := ?G, manage_initialized := True,
      handlers := (handlers k)[0x69 := Some Switch_process]\<rparr>)"
    using assms(1,2) by (simp add: proc_manager_init_def gfd_set_def arr_simps register_isr_handler_def IDT_SIZE_def Let_def)
  then show ?thesis using assms(2,3) by (intro exI[of _ ?G]) (auto simp: nth_list_update)
qed

lemma interrupts_and_volume:
  assumes "services_off k"
  shows "\<exists>tm f t. fat_init (kfat (pit_init k)) = Some (True, f) \<and> fat_ok f t \<and> fat_synced f \<and>
    keyboard_init ((pit_init k)\<lparr>kfat := f\<rparr>) = k\<lparr>timer := tm, handlers := (handlers k)[0x20 := Some Timer_irq, 0x21 := Some Keyboard_irq],
      pic_chips := ((fst (pic_chips k))\<lparr>c_mask := 0xF8\<rparr>, snd (pic_chips k)), kfat := f\<rparr>"
proof -
  define m s where "m = fst (pic_chips k)" and "s = snd (pic_chips k)"
  have ln: "length (handlers k) = IDT_SIZE" and st: "c_step m = 0" "c_step s = 0" "c_mask m = 0xFB"
    using assms by (simp_all add: services_off_def m_def s_def)
  obtain tm where "pit_init k = k\<lparr>timer := tm, handlers := (handlers k)[0x20 := Some Timer_irq],
      pic_chips := (m\<lparr>c_mask := unset_bit 0 (c_mask m)\<rparr>, s)\<rparr>"
    using pit_then_keyboard(1)[OF ln] st unfolding m_def s_def by blast
  moreover have "unset_bit 0 (0xFB :: u8) = 0xFA" "unset_bit 1 (0xFA :: u8) = 0xF8" by code_simp+
  ultimately have pit: "pit_init k = k\<lparr>timer := tm, handlers := (handlers k)[0x20 := Some Timer_irq], pic_chips := (m\<lparr>c_mask := 0xFA\<rparr>, s)\<rparr>"
    and b: "unset_bit (Suc 0) (0xFA :: u8) = 0xF8" by (simp_all add: st(3))
  obtain f t where f: "fat_init (kfat k) = Some (True, f)" "fat_ok f t" "fat_synced f"
    using fat_init_mounted[of "kfat k"] assms unfolding services_off_def by blast
  then show ?thesis
    using pit_then_keyboard(2)[of "(pit_init k)\<lparr>kfat := f\<rparr>"] ln st
    by (intro exI[of _ tm] exI[of _ f] exI[of _ t]) (simp add: pit b m_def s_def)
qed

text \<open>What an interrupt does in the middle of start-up: a tick leaves everything but the clock and the interrupt
  controller alone until \<open>enable_processes\<close>, a key that is not a modifier has no terminal to go to.\<close>

lemma timer_irq_before_start:
  assumes "\<not> run_processes k"
  shows "\<exists>t p. timer_irq regs k = Some (Returned 0, k\<lparr>timer := t, pic_chips := p\<rparr>)"
proof -
  obtain due t where "timer_count (timer k) = (due, t)" by (cases "timer_count (timer k)")
  then have "timer_irq regs k = Some (Returned 0, k\<lparr>timer := t, pic_chips := irq_exit pics 0 (pic_chips k)\<rparr>)"
    using assms by (simp add: timer_irq_def is_schduling_def)
  then show ?thesis by blast
qed

lemma key_before_terminal_null:
  assumes "current_active_terminal_id k = 0" and "c AND 0x80 = 0" and "c \<notin> modifier_keys"
  shows "keyboard_irq c k = None"
proof -
  have "keyboard_handler c k = plain_key c k" using keyboard_handler_plain(1)[of c] assms(2,3) by blast
  then show ?thesis using assms(1)
    by (simp add: keyboard_irq_def plain_key_def get_active_terminal_struct_def)
qed

text \<open>C12. On a kernel with a FAT16 volume on a disk that is present, with the memory that the volume asks for granted, with empty tables of
  handlers, open files and terminals, and with the interrupt controllers as \<open>idt_init\<close> leaves them (\<open>services_off\<close>), and when no interrupt
  arrives in between, starting the services leaves a kernel that can take interrupts and calls: the volume is mounted and its
  invariant holds (\<open>kmain\<close> itself does not look at the result of \<open>fat_init\<close>, and goes on without a volume), the four vectors are served, every call number in the table has its handler,
  the timer and the keyboard are the only lines enabled beside the cascade, and the
  first terminal is active, with an empty line and three descriptors of its own whose input reads the keyboard.\<close>

theorem kmain_services_ready:
  assumes "services_off k"
  shows "\<exists>k' t. kmain_services k = Some k' \<and> fat_ok (kfat k') t \<and> fat_synced (kfat k') \<and>
    handlers k' = vectors (handlers k) \<and> (\<forall>n < 256. \<forall>h. syscall_of n = Some h \<longrightarrow> syscall_handler_array k' ! n = Some h) \<and>
    c_mask (fst (pic_chips k')) = 0xF8 \<and> snd (pic_chips k') = snd (pic_chips k) \<and>
    current_active_terminal_id k' = 1 \<and> t_id (terminals k' ! 0) = 1 \<and> input_len (terminals k' ! 0) = 0 \<and>
    t_stdin (terminals k' ! 0) = Some 3 \<and> t_stdout (terminals k' ! 0) = Some 4 \<and> t_stderr (terminals k' ! 0) = Some 5 \<and>
    g_read (global_fd_table k' ! 3) = Some Read_terminal_input \<and>
    (\<forall>i < 256. g_used (global_fd_table k' ! i) \<longleftrightarrow> i < 6) \<and> manage_initialized k' \<and> kheap k' = kheap k"
proof -
  define m s where "m = fst (pic_chips k)" and "s = snd (pic_chips k)"
  have ln: "length (handlers k) = IDT_SIZE" "length (syscall_handler_array k) = 256" "length (global_fd_table k) = 256"
    and nu: "\<forall>g \<in> set (global_fd_table k). \<not> g_used g"
    using assms by (simp_all add: services_off_def)
  obtain tm f t where f: "fat_init (kfat (pit_init k)) = Some (True, f)" "fat_ok f t" "fat_synced f"
    and key: "keyboard_init ((pit_init k)\<lparr>kfat := f\<rparr>) = k\<lparr>timer := tm, handlers := (handlers k)[0x20 := Some Timer_irq, 0x21 := Some Keyboard_irq],
      pic_chips := (m\<lparr>c_mask := 0xF8\<rparr>, s), kfat := f\<rparr>"
    using interrupts_and_volume[OF assms] unfolding m_def s_def by blast
  define k1 where "k1 = keyboard_init ((pit_init k)\<lparr>kfat := f\<rparr>)"
  note k1_eq = k1_def[unfolded key]
  obtain a where a: "syscall_init k1 = k1\<lparr>handlers := (handlers k1)[0x80 := Some Handle_syscall], syscall_handler_array := a\<rparr>"
      "\<forall>n < 256. a ! n = (case syscall_of n of None \<Rightarrow> syscall_handler_array k1 ! n | Some h \<Rightarrow> Some h)"
    using syscall_init_eq[of k1] ln by (auto simp: k1_eq)
  have sk: "length (handlers (syscall_init k1)) = IDT_SIZE" "length (global_fd_table (syscall_init k1)) = 256"
      "\<forall>g \<in> set (global_fd_table (syscall_init k1)). \<not> g_used g"
    using ln nu unfolding a(1) by (simp_all add: k1_eq)
  define k2 where "k2 G = (syscall_init k1)\<lparr>global_fd_table := G, manage_initialized := True,
      handlers := (handlers (syscall_init k1))[0x69 := Some Switch_process]\<rparr>" for G
  obtain G where G: "proc_manager_init (syscall_init k1) = Some (k2 G)" "length G = 256" "\<forall>i < 256. g_used (G ! i) \<longleftrightarrow> i < 3"
    using proc_manager_init_eq[OF sk] unfolding k2_def by blast
  obtain t0 ts where T: "terminals k = t0 # ts" "t_id t0 = 0"
    using assms by (cases "terminals k") (auto simp: services_off_def TERMINAL_AMMOUNT_def)
  have k2f: "terminals (k2 G) = t0 # ts" "global_fd_table (k2 G) = G"
    unfolding k2_def a(1) by (simp_all add: k1_eq T(1))
  obtain k3 t1 where k3: "create_terminal 1 (k2 G) = Some (1, k3)" "k3 = (k2 G)\<lparr>terminals := t1 # ts, global_fd_table := global_fd_table k3\<rparr>"
      "t_id t1 = 1" "input_len t1 = 0" "t_stdin t1 = Some 3" "t_stdout t1 = Some 4" "t_stderr t1 = Some 5"
      "\<forall>i < 256. g_used (global_fd_table k3 ! i) \<longleftrightarrow> i < 6" "g_read (global_fd_table k3 ! 3) = Some Read_terminal_input"
    using create_first_terminal[OF k2f(1) T(2)] G(2,3) unfolding k2f(2) by blast
  have fr: "terminals k3 = t1 # ts" "kfat k3 = f" "manage_initialized k3" "kheap k3 = kheap k" "pic_chips k3 = (m\<lparr>c_mask := 0xF8\<rparr>, s)"
      "handlers k3 = vectors (handlers k)" "syscall_handler_array k3 = a"
    by (subst k3(2), unfold k2_def a(1), simp add: k1_eq vectors_def)+
  have "kmain_services k = Some (k3\<lparr>current_active_terminal_id := 1\<rparr>)"
    using f(1) G(1) k3(1,3) by (simp add: kmain_services_def k1_def[symmetric] fr set_active_terminal_def term_get_def arr_simps Let_def)
  then show ?thesis using f(2,3) fr a(2) k3(3-) by (intro exI[of _ "k3\<lparr>current_active_terminal_id := 1\<rparr>"] exI[of _ t]) (simp add: s_def)
qed

definition services_example :: kernel where
  "services_example = kernel_example\<lparr>kfat := unmounted_example,
     pic_chips := (chip_example, chip_example\<lparr>c_mask := 0xFF\<rparr>)\<rparr>"

lemma services_example_off: "services_off services_example"
proof -
  have "hdd_ok (disk unmounted_example)" by (simp add: hdd_ok_def unmounted_example_def fat_example_def table_example_def)
  moreover have "boot_ok (sectors (disk unmounted_example) 0)"
    by (simp add: boot_ok_def unmounted_example_def fat_example_def le16_word_def nth_list_update)
  moreover have "memory_granted unmounted_example (sectors (disk unmounted_example) 0)" by (rule unmounted_example_granted)
  moreover have "length (name (root_dir unmounted_example)) = 11"
    by (simp_all add: unmounted_example_def fat_example_def zero_entry_def dirent_of_def)
  ultimately show ?thesis
    by (simp add: services_off_def services_example_def kernel_example_def chip_example_def IDT_SIZE_def TERMINAL_AMMOUNT_def zero_global_fd_def)
qed

theorem kmain_services_ready_witness:
  "\<exists>k' t. kmain_services services_example = Some k' \<and> fat_ok (kfat k') t \<and> fat_synced (kfat k') \<and>
    handlers k' = vectors (handlers services_example) \<and>
    (\<forall>n < 256. \<forall>h. syscall_of n = Some h \<longrightarrow> syscall_handler_array k' ! n = Some h) \<and>
    c_mask (fst (pic_chips k')) = 0xF8 \<and> snd (pic_chips k') = snd (pic_chips services_example) \<and>
    current_active_terminal_id k' = 1 \<and> t_id (terminals k' ! 0) = 1 \<and> input_len (terminals k' ! 0) = 0 \<and>
    t_stdin (terminals k' ! 0) = Some 3 \<and> t_stdout (terminals k' ! 0) = Some 4 \<and> t_stderr (terminals k' ! 0) = Some 5 \<and>
    g_read (global_fd_table k' ! 3) = Some Read_terminal_input \<and>
    (\<forall>i < 256. g_used (global_fd_table k' ! i) \<longleftrightarrow> i < 6) \<and> manage_initialized k' \<and> kheap k' = kheap services_example"
  by (rule kmain_services_ready[OF services_example_off])

end
