(* ===== verification/FatCreate.thy ===== *)
theory FatCreate
  imports FatMount
begin

text \<open>
  Creating and deleting a file by its path (\<open>fat_create\<close>, \<open>fat_delete\<close> and
  \<open>fat_find_dir_entry_from_path\<close> of \<open>filesystem/fat/fat.c\<close>), for paths of one component. The theorems
  compose the ones on names, directories and chains: a file that is created is found by its
  path, and deleting it gives the state back as far as a look-up can tell.
\<close>

section \<open>What the operations leave alone\<close>

text \<open>The mounted volume's parameters, the root directory and the buffers: only the table and the disk change.\<close>

definition mount_of :: "fat \<Rightarrow> FAT16_FS \<times> FAT16_DirEntry \<times> bytes" where
  "mount_of s = (fat16_fs s, root_dir s, stack_junk s)"

named_theorems keeps_mount \<open>operations that change the table and the disk only\<close>

lemma mount_of_update [simp]: "mount_of (s\<lparr>fat_table := t\<rparr>) = mount_of s" "mount_of (s\<lparr>disk := d\<rparr>) = mount_of s"
  by (simp_all add: mount_of_def)

lemma mount_of_eqD:
  "mount_of s' = mount_of s \<Longrightarrow> root_dir s' = root_dir s" "mount_of s' = mount_of s \<Longrightarrow> stack_junk s' = stack_junk s"
  by (simp_all add: mount_of_def)

lemma table_set_mount [keeps_mount]: "table_set i v s = Some s' \<Longrightarrow> mount_of s' = mount_of s"
  by (auto simp: table_set_def split: bind_splits)

lemma write_fat_entry_mount [keeps_mount]: "write_fat_entry i s = Some (r, s') \<Longrightarrow> mount_of s' = mount_of s"
  by (auto simp: write_fat_entry_def Let_def split: bind_splits if_splits)

lemma write_cluster_mount [keeps_mount]: "fat_write_data_cluster c b s = Some (r, s') \<Longrightarrow> mount_of s' = mount_of s"
  by (auto simp: fat_write_data_cluster_def split: bind_splits)

lemma update_chain_mount [keeps_mount]: "fat_update_chain c n s = Some s' \<Longrightarrow> mount_of s' = mount_of s"
  by (auto simp: fat_update_chain_def dest!: keeps_mount split: bind_splits if_splits option.splits)

lemma free_chain_loop_mount [keeps_mount]: "free_chain_loop c s = Some (i, s') \<Longrightarrow> mount_of s' = mount_of s"
proof -
  assume "free_chain_loop c s = Some (i, s')"
  then have "mount_of (snd (i, s')) = mount_of s"
    by (rule free_chain_loop.raw_induct[where P = "\<lambda>c s y. mount_of (snd y) = mount_of s", rotated])
      (auto dest!: keeps_mount split: bind_splits if_splits)
  then show ?thesis by simp
qed

lemma free_chain_mount [keeps_mount]: "fat_free_chain c s = Some s' \<Longrightarrow> mount_of s' = mount_of s"
  by (auto simp: fat_free_chain_def dest!: keeps_mount split: bind_splits)

lemma dir_walk_mount:
  assumes body: "\<And>c d s x s'. body c d s = Some (x, s') \<Longrightarrow> mount_of s' = mount_of s"
    and w: "dir_walk start i dir body err s = Some (x, s')"
  shows "mount_of s' = mount_of s"
proof -
  have "(\<forall>c d s x s'. body c d s = Some (x, s') \<longrightarrow> mount_of s' = mount_of s) \<longrightarrow>
      mount_of (snd (x, s')) = mount_of s"
  proof (rule dir_walk.raw_induct[where P = "\<lambda>start i dir body err s y.
      (\<forall>c d s x s'. body c d s = Some (x, s') \<longrightarrow> mount_of s' = mount_of s) \<longrightarrow> mount_of (snd y) = mount_of s",
      OF _ w], goal_cases)
    case (1 f start i dir body err s y)
    then show ?case by (cases y) (auto split: bind_splits if_splits option.splits; metis)
  qed
  with body show ?thesis by simp
qed

lemma add_dir_entry_mount [keeps_mount]: "fat_add_dir_entry d e s = Some (r, s') \<Longrightarrow> mount_of s' = mount_of s"
  unfolding fat_add_dir_entry_def
  by (auto split: bind_splits if_splits option.splits dest!: dir_walk_mount[rotated] keeps_mount)

lemma remove_dir_entry_mount [keeps_mount]: "fat_remove_dir_entry n d b s = Some (r, s') \<Longrightarrow> mount_of s' = mount_of s"
  unfolding fat_remove_dir_entry_def
  by (auto split: bind_splits if_splits option.splits dest!: dir_walk_mount[rotated] keeps_mount)

section \<open>Names and paths of one component\<close>

text \<open>The names that \<open>check_file_name\<close> accepts and that fit a directory entry.\<close>

definition file_name :: "bytes \<Rightarrow> bool" where
  "file_name n \<longleftrightarrow> n \<noteq> [] \<and> length n \<le> 11 \<and> (\<forall>c \<in> set n. legal_char c) \<and>
     n \<noteq> bytes_of ''.'' \<and> n \<noteq> bytes_of ''..''"

definition root_path :: "bytes \<Rightarrow> bytes" where
  "root_path n = 0x2F # n @ [0]"

text \<open>A name in a buffer of \<open>m\<close> bytes.\<close>

definition padded :: "nat \<Rightarrow> bytes \<Rightarrow> bytes" where
  "padded m n = n @ replicate (m - length n) 0"

lemma not_legal: "\<not> legal_char 0" "\<not> legal_char 0x2F" "\<not> legal_char 0x7E"
  by (simp_all add: legal_char_def isalnum_def)

lemma file_nameD:
  assumes "file_name n"
  shows "n \<noteq> []" "length n \<le> 11" "0 \<notin> set n" "0x2F \<notin> set n" "n \<noteq> [0x7E]"
  using assms not_legal by (auto simp: file_name_def)

lemma padded_Suc: "length n < m \<Longrightarrow> padded m n = n @ 0 # replicate (m - Suc (length n)) 0"
  by (simp add: padded_def replicate_Suc[symmetric] Suc_diff_Suc del: replicate_Suc)

lemma length_padded [simp]: "length n \<le> m \<Longrightarrow> length (padded m n) = m"
  by (simp add: padded_def)

lemma entry_key_terminated: "0 \<notin> set n \<Longrightarrow> length n \<le> 11 \<Longrightarrow> entry_key (n @ 0 # q) = n"
  by (simp add: entry_key_def take_Cons') (subst takeWhile_append2, auto)

lemma entry_key_padded: "0 \<notin> set n \<Longrightarrow> length n \<le> 11 \<Longrightarrow> entry_key (padded 12 n) = n"
  by (simp add: padded_Suc entry_key_terminated)

lemma check_padded:
  assumes n: "file_name n"
  shows "check_file_name (padded 12 n) = Some True"
proof -
  note N = file_nameD[OF n]
  have "is_cstr n (padded 12 n)" using N(2,3) by (simp add: padded_Suc is_cstrI)
  then show ?thesis using n by (simp add: check_file_name_correct file_name_def)
qed

text \<open>Splitting the path.\<close>

lemma root_path_split:
  assumes n: "file_name n" and j: "13 \<le> length (stack_junk s)"
  shows "get_base_name (root_path n) (replicate 12 0) s = Some (padded 12 n)"
    and "get_parent_dir (root_path n) (replicate 1024 0) s = Some (0x2F # replicate 1023 0)"
    and "get_parent_dir (0x2F # replicate 1023 0) (replicate 1024 0) s = Some (0x2F # replicate 1023 0)"
proof -
  note N = file_nameD[OF n]
  show "get_base_name (root_path n) (replicate 12 0) s = Some (padded 12 n)"
    using get_base_name_split[of "[]" n s "[]" "replicate 12 0"] N j by (simp add: root_path_def padded_Suc)
  have r: "0x2F # replicate 1023 0 = (0x2F # 0 # drop 2 (replicate 1024 0) :: bytes)"
    by (simp add: replicate_Suc[symmetric] del: replicate_Suc)
  show "get_parent_dir (root_path n) (replicate 1024 0) s = Some (0x2F # replicate 1023 0)"
    unfolding r using get_parent_dir_split[of "[]" n s "replicate 1024 0" "[]"] N j by (simp add: root_path_def)
  have "get_parent_dir ([] @ 0x2F # [] @ 0 # replicate 1022 0) (replicate 1024 0) s = Some (0x2F # 0 # drop 2 (replicate 1024 0))"
    using get_parent_dir_split[of "[]" "[]" s "replicate 1024 0" "replicate 1022 0"] j by simp
  then show "get_parent_dir (0x2F # replicate 1023 0) (replicate 1024 0) s = Some (0x2F # replicate 1023 0)"
    unfolding r by simp
qed

section \<open>Resolving the path\<close>

lemma component_end_word:
  assumes "0x2F \<notin> set w" and "length p + length w \<le> l" and "length w < m"
    and "c = 0x2F \<or> l = length p + length w"
  shows "component_end (p @ w @ c # r) l (length p) m = Some (length p + length w)"
  using assms
proof (induction w arbitrary: p m)
  case Nil
  then show ?case by (cases m) (auto simp: arr_get_def nth_append)
next
  case (Cons a w)
  then obtain k where m: "m = Suc k" by (cases m) auto
  have "component_end ((p @ [a]) @ w @ c # r) l (length (p @ [a])) k = Some (length (p @ [a]) + length w)"
    using Cons.prems m by (intro Cons.IH) auto
  then show ?case using Cons.prems m by (simp add: arr_get_def nth_append)
qed

lemma from_path_root: "fat_find_dir_entry_from_path (0x2F # replicate 1023 0) s = Some (SUCCESS, Some (root_dir s))"
  using replicate_Suc[of 1022 "0 :: u8"] by (simp add: fat_find_dir_entry_from_path_def c_str_def bytes_of_def)

lemma from_path_file:
  assumes n: "file_name n"
  shows "fat_find_dir_entry_from_path (root_path n) s = do {
    x \<leftarrow> fat_find_dir_entry (padded 12 n) (root_dir s) s;
    (case x of None \<Rightarrow> Some (FILE_NOT_FOUND, None) | Some e \<Rightarrow> Some (SUCCESS, Some e)) }"
proof -
  note N = file_nameD[OF n]
  let ?l = "Suc (length n)"
  have len: "strlen (root_path n) = Some ?l" using strlen_append[OF N(3), of "[]"] by (simp add: root_path_def)
  obtain a w where a: "n = a # w" "a \<noteq> 0" using N(1,3) by (cases n) auto
  have start: "fat_find_dir_entry_from_path (root_path n) s =
      path_loop (root_path n) ?l 0 (replicate 12 0) (root_dir s) s"
    using len a by (simp add: fat_find_dir_entry_from_path_def c_str_def bytes_of_def root_path_def)
  have z: "memset (replicate 12 0) 0 (int FAT16_FILENAME_SIZE) = Some (replicate 12 0)"
    by (simp add: memset_eq FAT16_FILENAME_SIZE_def) (simp add: eval_nat_numeral)
  have e0: "strncmp (replicate 12 0) [0] FAT16_FILENAME_SIZE = Some 0"
    "strncmp (replicate 12 0) (c_str ''~'') FAT16_FILENAME_SIZE = Some (- 126)"
    using replicate_Suc[of 11 "0 :: u8"] by (simp_all add: c_str_def bytes_of_def FAT16_FILENAME_SIZE_def)
  have c0: "component_end (root_path n) ?l 0 12 = Some 0"
    using component_end_word[of "[]" "[]" ?l 12 "0x2F"] by (simp add: root_path_def)
  have first: "path_loop (root_path n) ?l 0 (replicate 12 0) (root_dir s) s =
      path_loop (root_path n) ?l 1 (replicate 12 0) (root_dir s) s"
    by (subst path_loop.simps) (simp add: c0 z e0)
  have c1: "component_end (root_path n) ?l 1 12 = Some ?l"
    using component_end_word[of n "[0x2F]" ?l 12 0 "[]"] N(2,4) by (simp add: root_path_def)
  have dp: "drop 1 (root_path n) = n @ [0]" by (simp add: root_path_def)
  have cp: "strncpy (replicate 12 0) (n @ [0]) (length n) = Some (padded 12 n)"
    using strncpy_append[of n "length n" "replicate 12 0" "[]"] N by (simp add: padded_def)
  have "path_loop (root_path n) ?l 1 (replicate 12 0) (root_dir s) s = do {
      x \<leftarrow> fat_find_dir_entry (padded 12 n) (root_dir s) s;
      (case x of None \<Rightarrow> Some (FILE_NOT_FOUND, None) | Some e \<Rightarrow> Some (SUCCESS, Some e)) }"
    using N(2) by (subst path_loop.simps) (simp add: c1 z cp dp cong: option.case_cong del: One_nat_def)
  then show ?thesis by (simp only: start first)
qed

section \<open>The parent's count\<close>

text \<open>The root directory has no entry of its own name, so recording its count changes nothing.\<close>

lemma root_name_test:
  fixes r :: bytes
  shows "entry_test (\<lambda>p. strcmp p (0x7E # 0 # r))"
    and "32 \<le> length e \<Longrightarrow> strcmp e (0x7E # 0 # r) = Some 0 \<Longrightarrow> entry_key e = [0x7E]"
proof -
  have two: "\<exists>a b q. e = a # b # q" if "32 \<le> length e" for e :: bytes
    using that by (cases e; cases "tl e") auto
  show "entry_test (\<lambda>p. strcmp p (0x7E # 0 # r))"
    unfolding entry_test_def
  proof (intro allI impI)
    fix e :: bytes assume "32 \<le> length e"
    then obtain a b q where e: "e = a # b # q" using two by blast
    then have "take 32 e = a # b # take 30 q" by (simp add: take_Cons')
    then show "(\<exists>r'. strcmp e (0x7E # 0 # r) = Some r') \<and>
        strcmp (take 32 e) (0x7E # 0 # r) = strcmp e (0x7E # 0 # r)"
      by (simp add: e)
  qed
  assume "32 \<le> length e" and e: "strcmp e (0x7E # 0 # r) = Some 0"
  then obtain a b q where q: "e = a # b # q" using two by blast
  have "uint a = 126 \<longleftrightarrow> a = 126" using uint_eq_uint[of a 126] by simp
  with e have "a = 0x7E" "b = 0" by (auto simp: q split: if_splits)
  then show "entry_key e = [0x7E]" by (simp add: q entry_key_def)
qed

lemma update_count_misses:
  assumes ok: "fat_ok s t" and d: "dir_chain t pp cs" and no: "\<forall>x \<in> set (entries s cs). entry_key x \<noteq> [0x7E]"
    and p: "take 2 (name p) = c_str ''~''"
  shows "update_parent_count f p pp s = Some (False, s)"
proof -
  obtain r where r: "dirent_bytes (p\<lparr>file_size := x\<rparr>) = 0x7E # 0 # r x" for x
  proof (rule that)
    fix x
    obtain m where "name p = 0x7E # 0 # m"
      using p by (cases "name p"; cases "tl (name p)") (auto simp: c_str_def bytes_of_def)
    then show "dirent_bytes (p\<lparr>file_size := x\<rparr>) = 0x7E # 0 # drop 2 (dirent_bytes (p\<lparr>file_size := x\<rparr>))"
      by (simp add: dirent_bytes_def)
  qed
  note D = dir_chainD[OF d]
  have "dir_walk (hd cs) 0 (replicate (cluster_bytes s) 0) (replace_body (\<lambda>p. strcmp p (0x7E # 0 # q)) e) False s =
      Some (None, s)" for q e
    using no root_name_test(2) length_entry
    by (intro replace_walk_miss[OF ok D(1,2) root_name_test(1)]) auto
  then show ?thesis
    using D(3) dir_buffer_ok[OF ok] fat_okD(1)[OF ok]
    by (simp add: update_parent_count_def fat_update_dir_entry_def Let_def r replace_body_def[abs_def])
qed

section \<open>Creating a file\<close>

text \<open>The entry of a new file whose cluster is \<open>k\<close>.\<close>

definition new_file :: "bytes \<Rightarrow> nat \<Rightarrow> FAT16_DirEntry" where
  "new_file n k = zero_entry\<lparr>start_cluster := of_nat k, name := padded 11 n\<rparr>"

lemma zero_entry_fields: "name zero_entry = replicate 11 0" "attr zero_entry = 0"
  by (simp_all add: zero_entry_def dirent_of_def)

lemma new_file_fields:
  assumes n: "file_name n" and k: "k < 65536"
  shows "length (name (new_file n k)) = 11" and "attr (new_file n k) = 0"
    and "unat (start_cluster (new_file n k)) = k" and "entry_key (dirent_bytes (new_file n k)) = n"
    and "dirent_of (dirent_bytes (new_file n k)) = new_file n k"
proof -
  note N = file_nameD[OF n]
  show len: "length (name (new_file n k)) = 11" using N(2) by (simp add: new_file_def)
  show "attr (new_file n k) = 0" "unat (start_cluster (new_file n k)) = k"
    using k by (simp_all add: new_file_def zero_entry_fields unat_of_nat_u16)
  have "dirent_bytes (new_file n k) = n @ replicate (11 - length n) 0 @ 0 # drop 12 (dirent_bytes (new_file n k))"
    using N(2) by (simp add: dirent_bytes_def new_file_def zero_entry_fields padded_def)
  then have "entry_key (dirent_bytes (new_file n k)) = entry_key (n @ 0 # replicate (11 - length n) 0 @ drop 12 (dirent_bytes (new_file n k)))"
    by (simp only: replicate_app_Cons_same append_Cons)
  then show "entry_key (dirent_bytes (new_file n k)) = n" by (simp only: entry_key_terminated[OF N(3,2)])
  show "dirent_of (dirent_bytes (new_file n k)) = new_file n k" using dirent_of_bytes[OF len, of "[]"] by simp
qed

text \<open>The root directory of a mounted volume, on the chain \<open>cs\<close>.\<close>

definition root_ready :: "fat \<Rightarrow> u16 list \<Rightarrow> nat list \<Rightarrow> bool" where
  "root_ready s t cs \<longleftrightarrow> fat_ok s t \<and> dir_chain t (root_dir s) cs \<and> attr (root_dir s) AND FAT_ATTR_DIRECTORY \<noteq> 0 \<and>
     take 2 (name (root_dir s)) = c_str ''~'' \<and> (\<forall>x \<in> set (entries s cs). entry_key x \<noteq> [0x7E]) \<and>
     13 \<le> length (stack_junk s)"

lemma root_readyD:
  assumes "root_ready s t cs"
  shows "fat_ok s t" "dir_chain t (root_dir s) cs" "attr (root_dir s) AND FAT_ATTR_DIRECTORY \<noteq> 0"
    "take 2 (name (root_dir s)) = c_str ''~''" "\<forall>x \<in> set (entries s cs). entry_key x \<noteq> [0x7E]"
    "13 \<le> length (stack_junk s)"
  using assms by (auto simp: root_ready_def)

lemma root_ready_next:
  assumes r: "root_ready s t cs" and m: "mount_of s' = mount_of s" and ok: "fat_ok s' t'"
    and d: "dir_chain t' (root_dir s) cs'" and no: "\<forall>x \<in> set (entries s' cs'). entry_key x \<noteq> [0x7E]"
  shows "root_ready s' t' cs'"
  using root_readyD[OF r] ok d no by (simp add: root_ready_def mount_of_eqD[OF m])

text \<open>Looking a path of one component up is finding its name among the root's entries.\<close>

lemma from_path_find:
  assumes r: "root_ready s t cs" and n: "file_name n"
  shows "fat_find_dir_entry_from_path (root_path n) s =
    Some (case List.find (\<lambda>e. entry_key e = n) (entries s cs) of
      None \<Rightarrow> (FILE_NOT_FOUND, None) | Some e \<Rightarrow> (SUCCESS, Some (dirent_of e)))"
proof -
  note N = file_nameD[OF n]
  have "fat_find_dir_entry (padded 12 n) (root_dir s) s =
      Some (map_option dirent_of (List.find (\<lambda>e. entry_key e = n) (entries s cs)))"
    using find_dir_entry_eq[OF root_readyD(1,2)[OF r], of "padded 12 n"] N entry_key_padded[OF N(3,2)] by simp
  then show ?thesis by (simp add: from_path_file[OF n] split: option.splits)
qed

lemma is_chain_nonzero: "is_chain t cs \<Longrightarrow> c \<in> set cs \<Longrightarrow> t ! c \<noteq> 0"
  by (induction t cs rule: is_chain.induct) (auto simp: end_not_free)

text \<open>The cluster of the file: the lowest free one, which \<open>fat_update_chain\<close> makes a chain of its own.\<close>

lemma take_cluster:
  assumes r: "root_ready s t cs" and k: "k < length t" "t ! k = 0" "k < 0xFFF8"
  obtains s1 where "fat_update_chain k k s = Some s1" and "root_ready s1 (t[k := FAT16_CLUSTER_CHAIN_END]) cs"
    and "fat_synced s \<longrightarrow> fat_synced s1" and "entries s1 cs = entries s cs" and "mount_of s1 = mount_of s"
    and "k \<notin> set cs"
proof -
  note R = root_readyD[OF r] and D = dir_chainD[OF root_readyD(2)[OF r]]
  let ?t = "t[k := FAT16_CLUSTER_CHAIN_END]"
  have kc: "k \<notin> set cs" using is_chain_nonzero[OF D(1)] k(2) by blast
  obtain s1 where s1: "fat_update_chain k k s = Some s1" "fat_ok s1 ?t" "fat_synced s \<longrightarrow> fat_synced s1"
    "\<forall>c. c < 65536 \<and> c \<noteq> k \<longrightarrow> cluster_data s1 c = cluster_data s c"
    using fat_update_chain_new[OF R(1) k] by blast
  have m: "mount_of s1 = mount_of s" using s1(1) by (rule keeps_mount)
  have e: "entries s1 cs = entries s cs"
    unfolding entries_def using kc s1(4) is_chain_small[OF D(1,2)]
    by (intro arg_cong[of _ _ concat] map_cong refl arg_cong[of _ _ slots]) auto
  have "is_chain ?t cs" using kc by (intro is_chain_cong[OF D(1)]) (simp, metis nth_list_update_neq)
  then have "dir_chain ?t (root_dir s) cs" using D(3) by (simp add: dir_chain_def)
  then have "root_ready s1 ?t cs" using R(5) e by (intro root_ready_next[OF r m s1(2)]) simp_all
  then show ?thesis by (rule that[OF s1(1) _ s1(3) e m kc])
qed

text \<open>Searching entries in which one has been put.\<close>

lemma find_key_middle:
  assumes "\<forall>y \<in> set as. entry_key y \<noteq> m \<or> entry_key x \<noteq> m"
  shows "List.find (\<lambda>e. entry_key e = m) (as @ x # bs) =
    (if entry_key x = m then Some x else List.find (\<lambda>e. entry_key e = m) (as @ bs))"
  using assms by (induction as) auto

text \<open>With two free clusters there is one for the file and one more, should the directory be full.\<close>

lemma two_free:
  assumes "2 \<le> card {k. k < length t \<and> t ! k = (0 :: u16)}" and "t ! 0 \<noteq> 0"
  obtains k j where "k < length t" and "t ! k = 0" and "\<forall>i < k. t ! i \<noteq> 0" and "k \<noteq> 0"
    and "j < length t" and "t[k := FAT16_CLUSTER_CHAIN_END] ! j = 0"
    and "\<forall>i < j. t[k := FAT16_CLUSTER_CHAIN_END] ! i \<noteq> 0" and "j \<noteq> 0"
proof -
  have lowest: "\<exists>k < length u. u ! k = 0 \<and> (\<forall>i < k. u ! i \<noteq> 0)" if "i < length u" "u ! i = 0" for u :: "u16 list" and i
    using that
  proof (induction i rule: less_induct)
    case (less i)
    show ?case
    proof (cases "\<exists>j < i. u ! j = 0")
      case True
      with less.IH less.prems show ?thesis by auto
    next
      case False
      with less.prems show ?thesis by blast
    qed
  qed
  have e: "FAT16_CLUSTER_CHAIN_END \<noteq> 0" by (simp add: FAT16_CLUSTER_CHAIN_END_def)
  let ?F = "{k. k < length t \<and> t ! k = 0}"
  have "?F \<noteq> {}" using assms(1) by (metis card.empty not_numeral_le_zero)
  then obtain k where k: "k < length t" "t ! k = 0" "\<forall>i < k. t ! i \<noteq> 0" using lowest by blast
  have "card (?F - {k}) = card ?F - 1" using k by (intro card_Diff_singleton) simp
  then have "card (?F - {k}) \<noteq> 0" using assms(1) by linarith
  then have "?F - {k} \<noteq> {}" by (metis card.empty)
  then obtain i where "i < length t" "t ! i = 0" "i \<noteq> k" by blast
  then obtain j where "j < length t" "t[k := FAT16_CLUSTER_CHAIN_END] ! j = 0"
    "\<forall>i < j. t[k := FAT16_CLUSTER_CHAIN_END] ! i \<noteq> 0"
    using lowest[of i "t[k := FAT16_CLUSTER_CHAIN_END]"] by auto
  moreover have "t[k := FAT16_CLUSTER_CHAIN_END] ! 0 \<noteq> 0" using assms(2) e k(1) by (cases "k = 0") simp_all
  then have "j \<noteq> 0" using calculation(2) by metis
  moreover have "k \<noteq> 0" using k(2) assms(2) by metis
  ultimately show ?thesis using that k by blast
qed

text \<open>The entry of the new file among the entries of the root directory.\<close>

lemma add_file_root:
  assumes r: "root_ready s t cs" and n: "file_name n" and k: "k < 65536"
    and room: "(\<exists>x \<in> set (entries s cs). entry_key x = []) \<or>
      (\<exists>k < length t. t ! k = 0 \<and> (\<forall>j < k. t ! j \<noteq> 0) \<and> k \<noteq> 0 \<and> k < 0xFFF8)"
  obtains s' t' cs' as bs where "fat_add_dir_entry (root_dir s) (new_file n k) s = Some (True, s')"
    and "root_ready s' t' cs'" and "fat_synced s \<longrightarrow> fat_synced s'" and "length t' = length t"
    and "entries s' cs' = as @ dirent_bytes (new_file n k) # bs"
    and "set as \<subseteq> set (entries s cs)" and "set bs \<subseteq> insert (replicate 32 0) (set (entries s cs))"
    and "\<forall>i. i \<notin> set cs \<and> t ! i \<noteq> 0 \<longrightarrow> t' ! i = t ! i" and "\<forall>i \<in> set cs'. i \<in> set cs \<or> t ! i = 0"
    and "\<forall>m. file_name m \<and> m \<noteq> n \<longrightarrow> List.find (\<lambda>e. entry_key e = m) (entries s' cs') =
      List.find (\<lambda>e. entry_key e = m) (entries s cs)"
proof -
  let ?e = "new_file n k"
  note R = root_readyD[OF r] and N = file_nameD[OF n] and E = new_file_fields[OF n k]
  obtain s' t' cs' as bs where A: "fat_add_dir_entry (root_dir s) ?e s = Some (True, s')" "fat_ok s' t'"
    "dir_chain t' (root_dir s) cs'" "fat_synced s \<longrightarrow> fat_synced s'" "entries s' cs' = as @ dirent_bytes ?e # bs"
    "set as \<subseteq> set (entries s cs)" "set bs \<subseteq> insert (replicate 32 0) (set (entries s cs))" "length t' = length t"
    "\<forall>i. i \<notin> set cs \<and> t ! i \<noteq> 0 \<longrightarrow> t' ! i = t ! i" "\<forall>i \<in> set cs'. i \<in> set cs \<or> t ! i = 0"
    "\<And>nm. entry_key nm \<noteq> [] \<Longrightarrow> entry_key nm \<noteq> entry_key (dirent_bytes ?e) \<Longrightarrow>
      List.find (named nm) (as @ dirent_bytes ?e # bs) = List.find (named nm) (entries s cs)"
    using add_dir_entry_effect[OF R(1,2) E(1) room] by blast
  have m: "mount_of s' = mount_of s" using A(1) by (rule keeps_mount)
  have "entry_key (replicate 32 0) = []" by (simp add: entry_key_def)
  then have "\<forall>x \<in> set (entries s' cs'). entry_key x \<noteq> [0x7E]"
    using R(5) A(6,7) E(4) N(5) unfolding A(5) by auto
  then have r': "root_ready s' t' cs'" by (rule root_ready_next[OF r m A(2,3)])
  have "List.find (\<lambda>e. entry_key e = m) (entries s' cs') = List.find (\<lambda>e. entry_key e = m) (entries s cs)"
    if m: "file_name m" "m \<noteq> n" for m
  proof -
    have "entry_key (padded 12 m) = m" "m \<noteq> []" using entry_key_padded file_nameD[OF m(1)] by blast+
    with A(11)[of "padded 12 m"] m(2) E(4) show ?thesis by (simp add: A(5))
  qed
  then show ?thesis by (intro that[OF A(1) r' A(4,8,5-7,9,10)]) simp
qed

text \<open>The steps of \<open>fat_create\<close>, one after the other.\<close>

lemma fat_create_steps:
  assumes r: "root_ready s t cs" and n: "file_name n" and new: "\<forall>x \<in> set (entries s cs). entry_key x \<noteq> n"
    and k: "k < length t" "t ! k = 0" "\<forall>i < k. t ! i \<noteq> 0" "k < 65536"
    and s1: "fat_update_chain k k s = Some s1" "mount_of s1 = mount_of s"
    and s2: "fat_add_dir_entry (root_dir s1) (new_file n k) s1 = Some (True, s2)" "root_ready s2 t2 cs2"
  shows "fat_create (root_path n) False s = Some (SUCCESS, s2)"
proof -
  note R = root_readyD[OF r] and N = file_nameD[OF n]
  have no: "fat_find_dir_entry (padded 12 n) (root_dir s) s = Some None"
    using find_dir_entry_eq[OF R(1,2), of "padded 12 n"] N entry_key_padded[OF N(3,2)] new by (simp add: find_None_iff)
  have ff: "fat_find_free s = Some (int k)" using fat_find_free_is[OF R(1) k(1,2)] k(3) by simp
  have uk: "(word_of_int (int k) :: u16) = of_nat k" "unat (of_nat k :: u16) = k"
    using k(4) by (simp_all add: unat_of_nat_u16)
  have d: "strncpy (name zero_entry) (padded 12 n) FAT16_FILENAME_SIZE = Some (padded 11 n)"
    using strncpy_append[OF N(1,3), of FAT16_FILENAME_SIZE "name zero_entry"] N(2)
    by (simp add: padded_Suc zero_entry_fields FAT16_FILENAME_SIZE_def padded_def[of 11])
  have m2: "mount_of s2 = mount_of s1" using s2(1) by (rule keeps_mount)
  have rd: "root_dir s1 = root_dir s" "root_dir s2 = root_dir s" using s1(2) m2 by (simp_all add: mount_of_def)
  show ?thesis
    using s2(1) R(3) update_count_misses[OF root_readyD(1,2,5,4)[OF s2(2)]] root_path_split(3)[OF n root_readyD(6)[OF s2(2)]]
    unfolding rd new_file_def
    by (simp add: fat_create_def root_path_split(1,2)[OF n R(6)] check_padded[OF n] from_path_root no ff uk s1(1) d
        Let_def rd)
qed

text \<open>
  The effect of \<open>fat_create\<close> on the root's entries: the new one is put between entries that were there,
  or are free, and what is found for any other name does not change.
\<close>

lemma fat_create_root:
  assumes r: "root_ready s t cs" and n: "file_name n" and new: "\<forall>x \<in> set (entries s cs). entry_key x \<noteq> n"
    and t: "length t \<le> 0xFFF8" "t ! 0 \<noteq> 0" "2 \<le> card {k. k < length t \<and> t ! k = 0}"
  obtains s' t' cs' k as bs where "fat_create (root_path n) False s = Some (SUCCESS, s')"
    and "root_ready s' t' cs'" and "fat_synced s \<longrightarrow> fat_synced s'" and "k < length t" and "t ! k = 0" and "\<forall>i < k. t ! i \<noteq> 0"
    and "is_chain t' [k]" and "k \<notin> set cs'" and "\<forall>i. i \<notin> set cs \<and> t ! i \<noteq> 0 \<longrightarrow> t' ! i = t ! i"
    and "entries s' cs' = as @ dirent_bytes (new_file n k) # bs"
    and "set as \<subseteq> set (entries s cs)" and "set bs \<subseteq> insert (replicate 32 0) (set (entries s cs))"
    and "\<forall>m. file_name m \<and> m \<noteq> n \<longrightarrow> List.find (\<lambda>e. entry_key e = m) (entries s' cs') =
      List.find (\<lambda>e. entry_key e = m) (entries s cs)"
proof -
  obtain k j where k: "k < length t" "t ! k = 0" "\<forall>i < k. t ! i \<noteq> 0" "k \<noteq> 0"
    and j: "j < length t" "t[k := FAT16_CLUSTER_CHAIN_END] ! j = 0"
      "\<forall>i < j. t[k := FAT16_CLUSTER_CHAIN_END] ! i \<noteq> 0" "j \<noteq> 0"
    by (rule two_free[OF t(3,2)])
  have k16: "k < 0xFFF8" "k < 65536" using k(1) t(1) by simp_all
  let ?t = "t[k := FAT16_CLUSTER_CHAIN_END]"
  obtain s1 where s1: "fat_update_chain k k s = Some s1" "root_ready s1 ?t cs" "fat_synced s \<longrightarrow> fat_synced s1"
    "entries s1 cs = entries s cs" "mount_of s1 = mount_of s" "k \<notin> set cs"
    by (rule take_cluster[OF r k(1,2) k16(1)])
  have "(\<exists>x \<in> set (entries s1 cs). entry_key x = []) \<or>
      (\<exists>k < length ?t. ?t ! k = 0 \<and> (\<forall>j < k. ?t ! j \<noteq> 0) \<and> k \<noteq> 0 \<and> k < 0xFFF8)"
    using j t(1) by auto
  then obtain s2 t2 cs2 as bs where A: "fat_add_dir_entry (root_dir s1) (new_file n k) s1 = Some (True, s2)"
    "root_ready s2 t2 cs2" "fat_synced s1 \<longrightarrow> fat_synced s2" "length t2 = length ?t"
    "entries s2 cs2 = as @ dirent_bytes (new_file n k) # bs"
    "set as \<subseteq> set (entries s1 cs)" "set bs \<subseteq> insert (replicate 32 0) (set (entries s1 cs))"
    "\<forall>i. i \<notin> set cs \<and> ?t ! i \<noteq> 0 \<longrightarrow> t2 ! i = ?t ! i" "\<forall>i \<in> set cs2. i \<in> set cs \<or> ?t ! i = 0"
    "\<forall>m. file_name m \<and> m \<noteq> n \<longrightarrow> List.find (\<lambda>e. entry_key e = m) (entries s2 cs2) =
      List.find (\<lambda>e. entry_key e = m) (entries s1 cs)"
    by (rule add_file_root[OF s1(2) n k16(2)])
  have "t2 ! k = FAT16_CLUSTER_CHAIN_END" using A(8) s1(6) k(1) by (simp add: FAT16_CLUSTER_CHAIN_END_def)
  then have ck: "is_chain t2 [k]"
    using k(1) A(4) by (simp add: IS_END_OF_CLUSTER_CHAIN_def FAT16_CLUSTER_CHAIN_END_def)
  have kc: "k \<notin> set cs2" using A(9) s1(6) k(1) by (auto simp: FAT16_CLUSTER_CHAIN_END_def)
  have "t2 ! i = t ! i" if "i \<notin> set cs" "t ! i \<noteq> 0" for i
  proof -
    have "i \<noteq> k" using that(2) k(2) by auto
    with that A(8) show ?thesis by simp
  qed
  then have fr: "\<forall>i. i \<notin> set cs \<and> t ! i \<noteq> 0 \<longrightarrow> t2 ! i = t ! i" by simp
  show ?thesis
    using fat_create_steps[OF r n new k(1-3) k16(2) s1(1,5) A(1,2)] s1(3) A(3)
    by (intro that[OF _ A(2) _ k(1-3) ck kc fr A(5-7,10)[unfolded s1(4)]]) simp_all
qed

text \<open>A name that is there is refused before anything is written.\<close>

lemma fat_create_exists:
  assumes r: "root_ready s t cs" and n: "file_name n" and old: "x \<in> set (entries s cs)" "entry_key x = n"
  shows "fat_create (root_path n) d s = Some (FILE_ALREADY_EXISTS, s)"
proof -
  note R = root_readyD[OF r] and N = file_nameD[OF n]
  obtain e where "fat_find_dir_entry (padded 12 n) (root_dir s) s = Some (Some e)"
    using find_dir_entry_eq[OF R(1,2), of "padded 12 n"] N entry_key_padded[OF N(3,2)] old
    by (cases "List.find (\<lambda>e. entry_key e = n) (entries s cs)") (auto simp: find_None_iff)
  then show ?thesis
    using R(3) by (simp add: fat_create_def root_path_split(1,2)[OF n R(6)] check_padded[OF n] from_path_root)
qed

section \<open>Deleting a file\<close>

lemma fat_delete_root:
  assumes r: "root_ready s t cs" and n: "file_name n"
    and sp: "entries s cs = as @ e # bs" "\<forall>x \<in> set as. entry_key x \<noteq> n" "entry_key e = n"
    and f: "attr (dirent_of e) AND FAT_ATTR_DIRECTORY = 0"
    and ds: "is_chain t ds" "unat (start_cluster (dirent_of e)) = hd ds" "set ds \<inter> set cs = {}"
  obtains s' t' where "fat_delete (root_path n) False s = Some (SUCCESS, s')" and "root_ready s' t' cs"
    and "fat_synced s \<longrightarrow> fat_synced s'" and "entries s' cs = as @ replicate 32 0 # bs"
    and "\<And>i. t' ! i = (if i \<in> set ds then 0 else t ! i)"
proof -
  note R = root_readyD[OF r] and N = file_nameD[OF n]
  have key: "entry_key (padded 12 n) = n" by (rule entry_key_padded[OF N(3,2)])
  obtain s1 t1 where D: "fat_remove_dir_entry (padded 12 n) (root_dir s) True s = Some (True, s1)" "fat_ok s1 t1"
    "dir_chain t1 (root_dir s) cs" "fat_synced s \<longrightarrow> fat_synced s1" "entries s1 cs = as @ replicate 32 0 # bs"
    "\<forall>i. t1 ! i = (if i \<in> set ds then 0 else t ! i)"
    using remove_dir_entry_removes[OF R(1,2) _ sp(1) _ _ ds, of "padded 12 n"] sp(2,3) key N(2) by auto
  have m: "mount_of s1 = mount_of s" using D(1) by (rule keeps_mount)
  have "entry_key (replicate 32 0) = []" by (simp add: entry_key_def)
  then have "\<forall>x \<in> set (entries s1 cs). entry_key x \<noteq> [0x7E]" using R(5) by (auto simp: D(5) sp(1))
  then have r1: "root_ready s1 t1 cs" by (rule root_ready_next[OF r m D(2,3)])
  have fd: "List.find (\<lambda>e. entry_key e = n) (entries s cs) = Some e"
    using sp by (simp add: find_key_middle)
  have "update_parent_count (\<lambda>x. x - 1) (root_dir s) (root_dir s) s1 = Some (False, s1)"
    using update_count_misses[OF root_readyD(1,2,5,4)[OF r1]] by (simp add: mount_of_eqD[OF m])
  then have "fat_delete (root_path n) False s = Some (SUCCESS, s1)"
    using D(1) f by (simp add: fat_delete_def root_path_split[OF n R(6)] from_path_find[OF r n] fd from_path_root)
  with r1 D(4-6) show ?thesis by (intro that) auto
qed

section \<open>Properties\<close>

text \<open>C8. A file that is created is found. Creating \<open>/n\<close>, for a legal name the root directory does not have,
  on a volume with two free clusters, succeeds: the new file is empty, on the lowest free cluster,
  its path leads to its entry, every other path of one component leads where it led, and
  creating it again is refused and changes nothing.\<close>

theorem create_file_found:
  assumes r: "root_ready s t cs" and n: "file_name n" and new: "\<forall>x \<in> set (entries s cs). entry_key x \<noteq> n"
    and t: "length t \<le> 0xFFF8" "t ! 0 \<noteq> 0" "2 \<le> card {k. k < length t \<and> t ! k = 0}"
  shows "\<exists>s' t' cs' k. fat_create (root_path n) False s = Some (SUCCESS, s') \<and> root_ready s' t' cs' \<and>
    (fat_synced s \<longrightarrow> fat_synced s') \<and> t ! k = 0 \<and> (\<forall>i < k. t ! i \<noteq> 0) \<and> is_chain t' [k] \<and>
    fat_create (root_path n) False s' = Some (FILE_ALREADY_EXISTS, s') \<and>
    (\<forall>m. file_name m \<longrightarrow> fat_find_dir_entry_from_path (root_path m) s' =
      (if m = n then Some (SUCCESS, Some (new_file n k)) else fat_find_dir_entry_from_path (root_path m) s))"
proof -
  obtain s' t' cs' k as bs where C: "fat_create (root_path n) False s = Some (SUCCESS, s')" "root_ready s' t' cs'"
    "fat_synced s \<longrightarrow> fat_synced s'" "k < length t" "t ! k = 0" "\<forall>i < k. t ! i \<noteq> 0" "is_chain t' [k]" "k \<notin> set cs'"
    "\<forall>i. i \<notin> set cs \<and> t ! i \<noteq> 0 \<longrightarrow> t' ! i = t ! i"
    "entries s' cs' = as @ dirent_bytes (new_file n k) # bs" "set as \<subseteq> set (entries s cs)"
    "set bs \<subseteq> insert (replicate 32 0) (set (entries s cs))"
    "\<forall>m. file_name m \<and> m \<noteq> n \<longrightarrow> List.find (\<lambda>e. entry_key e = m) (entries s' cs') =
      List.find (\<lambda>e. entry_key e = m) (entries s cs)"
    by (rule fat_create_root[OF assms])
  have "k < 65536" using C(4) t(1) by simp
  note E = new_file_fields[OF n this]
  have "\<forall>x \<in> set as. entry_key x \<noteq> n" using new C(11) by blast
  then have "List.find (\<lambda>e. entry_key e = n) (entries s' cs') = Some (dirent_bytes (new_file n k))"
    using E(4) by (simp add: C(10) find_key_middle)
  then have "fat_find_dir_entry_from_path (root_path m) s' =
      (if m = n then Some (SUCCESS, Some (new_file n k)) else fat_find_dir_entry_from_path (root_path m) s)"
    if "file_name m" for m using that C(13) E(5) by (simp add: from_path_find[OF C(2)] from_path_find[OF r])
  moreover have "fat_create (root_path n) False s' = Some (FILE_ALREADY_EXISTS, s')"
    using E(4) by (intro fat_create_exists[OF C(2) n, of "dirent_bytes (new_file n k)"]) (simp_all add: C(10))
  ultimately show ?thesis using C(1-3,5-7) by blast
qed

text \<open>C9. Creating a file and deleting it gives the volume back as far as a look-up can tell: both calls
  succeed, every path of one component leads where it led, no cluster of another chain changes its
  successor, the cluster of the file is free again and the disk stays in step.\<close>

theorem create_delete_roundtrip:
  assumes r: "root_ready s t cs" and n: "file_name n" and new: "\<forall>x \<in> set (entries s cs). entry_key x \<noteq> n"
    and t: "length t \<le> 0xFFF8" "t ! 0 \<noteq> 0" "2 \<le> card {k. k < length t \<and> t ! k = 0}"
  shows "\<exists>s' s'' t'' cs'' k. fat_create (root_path n) False s = Some (SUCCESS, s') \<and>
    fat_find_dir_entry_from_path (root_path n) s' = Some (SUCCESS, Some (new_file n k)) \<and>
    fat_delete (root_path n) False s' = Some (SUCCESS, s'') \<and> root_ready s'' t'' cs'' \<and>
    (fat_synced s \<longrightarrow> fat_synced s'') \<and> t'' ! k = 0 \<and> (\<forall>i. i \<notin> set cs \<and> t ! i \<noteq> 0 \<longrightarrow> t'' ! i = t ! i) \<and>
    (\<forall>m. file_name m \<longrightarrow> fat_find_dir_entry_from_path (root_path m) s'' = fat_find_dir_entry_from_path (root_path m) s)"
proof -
  obtain s' t' cs' k as bs where C: "fat_create (root_path n) False s = Some (SUCCESS, s')" "root_ready s' t' cs'"
    "fat_synced s \<longrightarrow> fat_synced s'" "k < length t" "t ! k = 0" "\<forall>i < k. t ! i \<noteq> 0" "is_chain t' [k]" "k \<notin> set cs'"
    "\<forall>i. i \<notin> set cs \<and> t ! i \<noteq> 0 \<longrightarrow> t' ! i = t ! i"
    "entries s' cs' = as @ dirent_bytes (new_file n k) # bs" "set as \<subseteq> set (entries s cs)"
    "set bs \<subseteq> insert (replicate 32 0) (set (entries s cs))"
    "\<forall>m. file_name m \<and> m \<noteq> n \<longrightarrow> List.find (\<lambda>e. entry_key e = m) (entries s' cs') =
      List.find (\<lambda>e. entry_key e = m) (entries s cs)"
    by (rule fat_create_root[OF assms])
  have "k < 65536" using C(4) t(1) by simp
  note E = new_file_fields[OF n this]
  have as: "\<forall>x \<in> set as. entry_key x \<noteq> n" using new C(11) by blast
  have z: "entry_key (replicate 32 0) = []" "n \<noteq> []" using file_nameD(1)[OF n] by (simp_all add: entry_key_def)
  obtain s'' t'' where D: "fat_delete (root_path n) False s' = Some (SUCCESS, s'')" "root_ready s'' t'' cs'"
    "fat_synced s' \<longrightarrow> fat_synced s''" "entries s'' cs' = as @ replicate 32 0 # bs"
    "\<And>i. t'' ! i = (if i \<in> set [k] then 0 else t' ! i)"
    by (rule fat_delete_root[OF C(2) n C(10) as E(4) _ C(7)]) (use C(8) E(2,3,5) in simp_all)
  have "List.find (\<lambda>e. entry_key e = m) (entries s'' cs') = List.find (\<lambda>e. entry_key e = m) (entries s cs)"
    if m: "file_name m" for m
  proof (cases "m = n")
    case True
    have "\<forall>x \<in> set (entries s'' cs'). entry_key x \<noteq> n" using as C(12) new z by (auto simp: D(4))
    then have "List.find (\<lambda>e. entry_key e = n) (entries s'' cs') = None" by (simp add: find_None_iff)
    moreover have "List.find (\<lambda>e. entry_key e = n) (entries s cs) = None" using new by (simp add: find_None_iff)
    ultimately show ?thesis using True by simp
  next
    case False
    have "m \<noteq> []" using file_nameD(1)[OF m] .
    with find_key_middle[of as m "dirent_bytes (new_file n k)" bs] find_key_middle[of as m "replicate 32 0" bs] False E(4) z(1)
      C(13)[rule_format, OF conjI[OF m False]] show ?thesis by (simp add: D(4) C(10))
  qed
  then have "\<forall>m. file_name m \<longrightarrow>
      fat_find_dir_entry_from_path (root_path m) s'' = fat_find_dir_entry_from_path (root_path m) s"
    by (simp add: from_path_find[OF D(2)] from_path_find[OF r])
  moreover have "fat_find_dir_entry_from_path (root_path n) s' = Some (SUCCESS, Some (new_file n k))"
    using as E(4,5) by (simp add: from_path_find[OF C(2) n] C(10) find_key_middle)
  moreover have "\<forall>i. i \<notin> set cs \<and> t ! i \<noteq> 0 \<longrightarrow> t'' ! i = t ! i" using C(5,9) by (auto simp: D(5))
  moreover have "t'' ! k = 0" "fat_synced s \<longrightarrow> fat_synced s''" using D(3) C(3) by (simp_all add: D(5))
  ultimately show ?thesis using C(1) D(1,2) by blast
qed

text \<open>A volume whose root directory holds one file and has 252 free clusters.\<close>

definition root_example :: fat where
  "root_example = dir_example\<lparr>root_dir := zero_entry\<lparr>name := 0x7E # replicate 10 0, attr := FAT_ATTR_DIRECTORY\<rparr>,
     stack_junk := replicate 1024 0\<rparr>"

lemma root_example_ready: "root_ready root_example table_example [0]"
  and root_example_names: "\<forall>x \<in> set (entries root_example [0]). entry_key x \<noteq> [0x47]"
  and root_example_table: "length table_example \<le> 0xFFF8" "table_example ! 0 \<noteq> 0"
    "2 \<le> card {k. k < length table_example \<and> table_example ! k = 0}"
proof -
  have e: "entries root_example [0] = entries dir_example [0]"
    by (simp add: root_example_def entries_def cluster_data_def cluster_sector_def)
  have ok: "fat_ok root_example table_example" using dir_example_ok(1)
    by (simp add: fat_ok_def fat_example_def dir_example_def table_example_def hdd_ok_def cluster_bytes_def root_example_def)
  have "dir_chain table_example (root_dir root_example) [0]"
    using dir_example_ok(2) by (simp add: dir_chain_def root_example_def)
  moreover have "\<forall>x \<in> set (entries root_example [0]). entry_key x \<noteq> [0x7E]"
    by (simp only: e dir_example_entries) (simp add: entry_example_keys)
  moreover have "attr (root_dir root_example) AND FAT_ATTR_DIRECTORY \<noteq> 0"
    "take 2 (name (root_dir root_example)) = c_str ''~''" "13 \<le> length (stack_junk root_example)"
    by (simp_all add: root_example_def FAT_ATTR_DIRECTORY_def c_str_def bytes_of_def)
  ultimately show "root_ready root_example table_example [0]" using ok unfolding root_ready_def by blast
  show "\<forall>x \<in> set (entries root_example [0]). entry_key x \<noteq> [0x47]"
    by (simp only: e dir_example_entries) (simp add: entry_example_keys)
  show "length table_example \<le> 0xFFF8" "table_example ! 0 \<noteq> 0" by (simp_all add: table_example_def)
  have "{4, 5} \<subseteq> {k. k < length table_example \<and> table_example ! k = 0}" by (simp add: table_example_def)
  then have "card {4, 5 :: nat} \<le> card {k. k < length table_example \<and> table_example ! k = 0}"
    by (intro card_mono) simp_all
  then show "2 \<le> card {k. k < length table_example \<and> table_example ! k = 0}" by simp
qed

lemma file_name_example: "file_name [0x47]"
  by (simp add: file_name_def legal_char_def isalnum_def bytes_of_def)

text \<open>The two properties at this volume, for the file \<open>/G\<close>.\<close>

theorem create_file_found_witness:
  "\<exists>s' t' cs' k. fat_create (root_path [0x47]) False root_example = Some (SUCCESS, s') \<and> root_ready s' t' cs' \<and>
    (fat_synced root_example \<longrightarrow> fat_synced s') \<and> table_example ! k = 0 \<and> (\<forall>i < k. table_example ! i \<noteq> 0) \<and>
    is_chain t' [k] \<and> fat_create (root_path [0x47]) False s' = Some (FILE_ALREADY_EXISTS, s') \<and>
    (\<forall>m. file_name m \<longrightarrow> fat_find_dir_entry_from_path (root_path m) s' =
      (if m = [0x47] then Some (SUCCESS, Some (new_file [0x47] k))
       else fat_find_dir_entry_from_path (root_path m) root_example))"
  by (rule create_file_found[OF root_example_ready file_name_example root_example_names root_example_table])

theorem create_delete_roundtrip_witness:
  "\<exists>s' s'' t'' cs'' k. fat_create (root_path [0x47]) False root_example = Some (SUCCESS, s') \<and>
    fat_find_dir_entry_from_path (root_path [0x47]) s' = Some (SUCCESS, Some (new_file [0x47] k)) \<and>
    fat_delete (root_path [0x47]) False s' = Some (SUCCESS, s'') \<and> root_ready s'' t'' cs'' \<and>
    (fat_synced root_example \<longrightarrow> fat_synced s'') \<and> t'' ! k = 0 \<and>
    (\<forall>i. i \<notin> set [0] \<and> table_example ! i \<noteq> 0 \<longrightarrow> t'' ! i = table_example ! i) \<and>
    (\<forall>m. file_name m \<longrightarrow>
      fat_find_dir_entry_from_path (root_path m) s'' = fat_find_dir_entry_from_path (root_path m) root_example)"
  by (rule create_delete_roundtrip[OF root_example_ready file_name_example root_example_names root_example_table])

end
