(* ===== verification/Spec2Isabelle.thy ===== *)
theory Spec2Isabelle
  imports LibC Pmm Paging Heap Ata Fat FatDir FatFile Vga Cpu Kernel Process Terminal Machine Elf Path FileCalls DirCalls
    Syscalls FatEntries FatMount StdC Image ImageDir ImageFile ImageCorrect ImageWrite ImageLoad
    ImageMount Shell ShellCorrect Startup StartupCorrect FatCreate
begin

text \<open>
  Verification of DbolOS, a 32-bit x86 kernel in C, with its shell and the tool that writes its disk image.

  \<^bold>\<open>The program.\<close> The kernel (\<open>os/kernel/src\<close>) manages physical frames with a bitmap, maps pages through a recursive
  page directory, and keeps its heap as a list of blocks in mapped pages. On an ATA disk it has a FAT16 file
  system. Processes are loaded from ELF files, kept on a doubly linked list and scheduled round robin by the timer
  interrupt; a keyboard interrupt feeds the active terminal and wakes the processes that wait for it. User
  programs enter the kernel through interrupt 0x80, whose dispatcher calls the file, directory, process and time
  calls. \<open>lib/src\<close> is the freestanding C library that all of this uses. The first user program is a shell
  (\<open>terminal/main.c\<close>). \<open>fs_loader\<close> runs on the host: it has its own copy of the file system code and puts files into the disk
  image that the kernel boots from.

  \<^bold>\<open>How the model corresponds to the code.\<close> A struct is a record, an enum a datatype, a fixed-width integer a
  word of that width; a byte buffer is a list of bytes. A function of the source is a definition of the same name
  (with a prefix where the name starts with an underscore or is used twice: \<open>file_open\<close> is \<open>_open\<close>, \<open>dir_chdir\<close>
  is \<open>_chdir\<close>, \<open>dir_get_parent_dir\<close> the \<open>get_parent_dir\<close> of dir.c), with the state it changes as an argument and in the
  result. The result is an option: \<open>None\<close> is an access outside an object or an unmapped page, or a loop that never
  ends. Error codes are values of the result, as in the source. Loops are recursive functions; those that may run
  forever (along a cluster chain, round the process list, along the heap's blocks) are partial functions, and the
  theorems about them state that they return. What is not initialised (local arrays, fresh heap blocks, the value of a function
  without a return statement) is a parameter, so that the theorems hold whatever it is. Bounds need not be chosen:
  the only fuel is the size of the address space, for a string in user memory. The C libraries that the shell and the
  loader are linked with are not in the sources: their string functions follow ISO C, and what else the code calls
  is an argument of the model (the record \<open>clib\<close>) or a file of bytes.

  \<^item> \<^verbatim>\<open>Prelude\<close>: byte and word types, bounded arrays, C strings, little-endian codecs.
  \<^item> \<^verbatim>\<open>LibC\<close> (\<^verbatim>\<open>lib/src/string\<close>, \<^verbatim>\<open>lib/src/ctype\<close>): the string routines with their deviations from the standard;
    the chunked \<open>memcpy\<close> copies, \<open>itoa\<close> and a reader are inverse.
  \<^item> \<^verbatim>\<open>Pmm\<close> (\<^verbatim>\<open>memory/physical\<close>): the frame bitmap. Allocation takes the lowest free frame, successive allocations
    are distinct (through the locale \<open>page_allocator\<close>), initialisation reserves the kernel.
  \<^item> \<^verbatim>\<open>Paging\<close> (\<^verbatim>\<open>memory/paging\<close>): physical memory, the processor's table walk and the recursive mapping. Mapping
    and unmapping change exactly one translation, and \<open>get_physical_address\<close> agrees with the walk. The page tables
    that \<^verbatim>\<open>init/boot.asm\<close> builds are here too (\<open>init_paging\<close>).
  \<^item> \<^verbatim>\<open>Heap\<close> (\<^verbatim>\<open>memory/heap\<close>): block headers in virtual memory. \<open>kmalloc\<close> returns a block inside the heap that
    overlaps no other and keeps the list well formed; \<open>kfree\<close> releases it. The invariant holds on the boot code's page
    tables, which share tables between entries, and is kept when a process's directory is loaded, which is
    itself a page of the heap.
  \<^item> \<^verbatim>\<open>Ata\<close> (\<^verbatim>\<open>drivers/harddisk/ata\<close>, \<^verbatim>\<open>util/io\<close>): the driver over an abstract port interface. Through any drive that
    follows the PIO protocol (\<open>pio_protocol\<close>, the locale \<open>pio_device\<close>), the driver refines a block device
    (the locale \<open>block_device\<close>, of which \<open>pio_device\<close> is a sublocale), and what is written is read back. The
    interpretation is on a drive that reports busy late and stays busy for a while.
  \<^item> \<^verbatim>\<open>Fat\<close>, \<^verbatim>\<open>FatDir\<close>, \<^verbatim>\<open>FatFile\<close> (\<^verbatim>\<open>filesystem/fat\<close>): the table and cluster chains, directories and paths, file
    data. Chains are extended and freed as sequences, on disk as in memory; reading gives the bytes of the chain.
  \<^item> \<^verbatim>\<open>FatEntries\<close>, \<^verbatim>\<open>FatMount\<close>: directories as sequences of entries, searched, extended and shortened as
    sequences; mounting establishes the invariant that the theorems about files start from.
  \<^item> \<^verbatim>\<open>FatCreate\<close>: creating and deleting a file by its path, composed from names, directories and chains: what is
    created is found and not created twice, and deleting it gives the volume back as far as a look-up can tell.
  \<^item> \<^verbatim>\<open>Vga\<close> (\<^verbatim>\<open>drivers/vga\<close>): the text screen refines a grid with a cursor; \<open>vga_printf\<close> prints its rendered format.
  \<^item> \<^verbatim>\<open>Cpu\<close> (\<^verbatim>\<open>cpu\<close>): descriptor tables, the interrupt controllers, the timer and its rounding.
  \<^item> \<^verbatim>\<open>Kernel\<close> (\<^verbatim>\<open>filesystem/vfs\<close> and the structs of the process manager, terminals and keyboard): the kernel state that the
    components share, and the table of open files.
  \<^item> \<^verbatim>\<open>Process\<close> (\<^verbatim>\<open>process/manager\<close>): the process list as a list, round-robin switching, waking and exiting. The
    locale \<open>ring_scheduler\<close> gives fairness: a process that stays ready runs within one turn of the ring.
  \<^item> \<^verbatim>\<open>Terminal\<close> (\<^verbatim>\<open>terminal\<close>, \<^verbatim>\<open>drivers/keyboard\<close>): line editing; what was typed is what a read returns.
  \<^item> \<^verbatim>\<open>Machine\<close>: the interrupts as a step relation; with an idle process, the invariants of \<^verbatim>\<open>Process\<close> and
    \<^verbatim>\<open>Terminal\<close> hold in every reachable state and the scheduler's search ends.
  \<^item> \<^verbatim>\<open>Elf\<close> (\<^verbatim>\<open>process/elf\<close>, \<^verbatim>\<open>process/loader\<close>): the parser, the loader and the creation of processes; the size
    of a program is the sum of its sections.
  \<^item> \<^verbatim>\<open>Path\<close>, \<^verbatim>\<open>FileCalls\<close>, \<^verbatim>\<open>DirCalls\<close> (\<^verbatim>\<open>process/syscalls/handlers/dir\<close> and \<^verbatim>\<open>file\<close>): path routines and calls. Joining
    a path to the working directory; opening and closing are inverse; successive reads are consecutive.
  \<^item> \<^verbatim>\<open>Syscalls\<close> (\<^verbatim>\<open>process/syscalls\<close>, \<^verbatim>\<open>sys\<close>, \<^verbatim>\<open>cpu/idt/isr.c\<close>): registers and user memory, process and time calls, the
    two dispatchers; a call from user mode through all layers.
  \<^item> \<^verbatim>\<open>Startup\<close>, \<^verbatim>\<open>StartupCorrect\<close> (\<^verbatim>\<open>kernel.c\<close>): the order of \<open>kmain\<close> and the animation. Frames and heap come up together on
    the boot page tables, whatever the memory held before; after the services every vector and call number has its handler and the first terminal is active.
  \<^item> \<^verbatim>\<open>StdC\<close>: the functions of ISO C that the shell and the loader use, with their undefined cases as \<open>None\<close>.
  \<^item> \<^verbatim>\<open>Image\<close>, \<^verbatim>\<open>ImageDir\<close>, \<^verbatim>\<open>ImageFile\<close> (\<^verbatim>\<open>fs_loader\<close>): the loader, on the bytes of the image file. \<^verbatim>\<open>ImageCorrect\<close>
    relates its volume to the kernel's, \<^verbatim>\<open>ImageWrite\<close> and \<^verbatim>\<open>ImageLoad\<close> show that a new file is stored, and
    that a kernel which mounts the image reads exactly the bytes that were loaded, \<^verbatim>\<open>ImageMount\<close> when mounting in the loader works.
  \<^item> \<^verbatim>\<open>Shell\<close>, \<^verbatim>\<open>ShellCorrect\<close> (\<^verbatim>\<open>terminal/main.c\<close>): splitting a line into words stays inside its buffers and gives the
    words, the table of commands, and a whole turn of the loop on an \<open>echo\<close> line.

  \<^bold>\<open>Where the code does not do what it means to.\<close> Some properties state this: shrinking a file, the process that runs
  after an exit, freeing the only block of the heap, the loader's table of fixed size, commands that are found by
  a beginning of their name. Lemmas of the same kind stand beside them (\<open>set_free_frees_the_others\<close>,
  \<open>pmm_init_leaves_upper_memory_free\<close>, \<open>itoa_negative_hex_out_of_bounds\<close>, \<open>keyboard_overflows_input_buffer\<close>,
  \<open>exit_last_process_uses_freed_node\<close>, \<open>simplify_path_doubles_slash\<close>, \<open>key_before_terminal_null\<close>, \<open>paging_shared_table_aliases\<close>,
  \<open>print_cwd_unknown\<close>, \<open>shell_read_error_out_of_bounds\<close>).

  \<^bold>\<open>Not modelled.\<close> Assembly other than the boot page tables (interrupt entry, the jumps to a process: an operation that ends in a jump has
  the jump as its result) and the assembly test programs; the headers of the tool chain's C library, which is third-party code;
  what the loader prints. Interrupts arrive between the operations of
  the model, not inside them; the kernel runs its handlers with interrupts off. The start-up after \<open>idt_init\<close> runs with interrupts on
  and is modelled between two of them; what one of them does there is stated by \<open>timer_irq_before_start\<close> and
  \<open>key_before_terminal_null\<close>. Cached address
  translations are not part of the memory model, and the file system's kernel buffers are separate from the heap model.
\<close>

end
